(* ===== verification/Nachos_Prelude.thy ===== *)
theory Nachos_Prelude
  imports Main "HOL-Library.Word" "HOL-Library.Signed_Division"
begin

text \<open>
  Shared vocabulary of the development: the faults a Nachos routine can end in, the result type
  and its sequencing operator, bounds-checked array access, C's truncating division with the
  \<^verbatim>\<open>divRoundUp\<close>/\<^verbatim>\<open>divRoundDown\<close> macros of \<^verbatim>\<open>lib/utility.h\<close>, the constants of
  \<^verbatim>\<open>lib/constant.h\<close>, the little-endian byte image of a 32-bit integer, and the generic lemmas
  on lists and results that the component theories share.
\<close>

unbundle bit_operations_syntax

section \<open>Faults and results\<close>

text \<open>
  \<open>AssertFailed\<close> is a failed \<^verbatim>\<open>ASSERT\<close> or a reached \<^verbatim>\<open>ASSERTNOTREACHED\<close>, both of which
  abort Nachos. \<open>OutOfBounds\<close>, \<open>NullPointer\<close>, \<open>HostTrap\<close> and \<open>IntOverflow\<close> are the undefined behaviours of
  the source: an array index outside the array, a dereference of \<^verbatim>\<open>NULL\<close> or of a deleted
  object, an arithmetic trap of the host CPU, a signed sum out of the range of its type.
  \<open>Diverges\<close> is a loop that never ends.
\<close>

datatype fault = AssertFailed | OutOfBounds | NullPointer | HostTrap | IntOverflow | Diverges

type_synonym 'a result = "fault + 'a"

named_theorems result_simps "sequencing of results"
named_theorems nachos_consts "numeric values of the configuration constants"

definition rbind :: "'a result \<Rightarrow> ('a \<Rightarrow> 'b result) \<Rightarrow> 'b result" where
  "rbind r f = (case r of Inl e \<Rightarrow> Inl e | Inr x \<Rightarrow> f x)"

definition rassert :: "bool \<Rightarrow> unit result" where
  "rassert b = (if b then Inr () else Inl AssertFailed)"

lemma rbind_Inr [simp, result_simps]: "rbind (Inr x) f = f x"
  by (simp add: rbind_def)

lemma rbind_Inl [simp, result_simps]: "rbind (Inl e) f = Inl e"
  by (simp add: rbind_def)

lemma rbind_eq_Inr [result_simps]: "rbind r f = Inr y \<longleftrightarrow> (\<exists>x. r = Inr x \<and> f x = Inr y)"
  by (cases r) auto

lemma rbind_InrE:
  assumes "rbind r f = Inr y"
  obtains x where "r = Inr x" and "f x = Inr y"
  using assms by (auto simp: rbind_eq_Inr)

lemma rbind_cong [fundef_cong]:
  "r = r' \<Longrightarrow> (\<And>x. r' = Inr x \<Longrightarrow> f x = g x) \<Longrightarrow> rbind r f = rbind r' g"
  by (cases r') auto

lemma rassert_True [simp, result_simps]: "rassert True = Inr ()"
  by (simp add: rassert_def)

lemma rassert_False [simp, result_simps]: "rassert False = Inl AssertFailed"
  by (simp add: rassert_def)

lemma rassert_Inr [simp]: "rassert b = Inr u \<longleftrightarrow> b"
  by (simp add: rassert_def)

section \<open>Array access\<close>

definition aread :: "'a list \<Rightarrow> int \<Rightarrow> 'a result" where
  "aread xs i = (if 0 \<le> i \<and> i < int (length xs) then Inr (xs ! nat i) else Inl OutOfBounds)"

definition awrite :: "'a list \<Rightarrow> int \<Rightarrow> 'a \<Rightarrow> 'a list result" where
  "awrite xs i v = (if 0 \<le> i \<and> i < int (length xs) then Inr (xs[nat i := v]) else Inl OutOfBounds)"

lemma aread_in [simp]: "0 \<le> i \<Longrightarrow> i < int (length xs) \<Longrightarrow> aread xs i = Inr (xs ! nat i)"
  by (simp add: aread_def)

lemma awrite_in [simp]:
  "0 \<le> i \<Longrightarrow> i < int (length xs) \<Longrightarrow> awrite xs i v = Inr (xs[nat i := v])"
  by (simp add: awrite_def)

lemma aread_Inr_iff:
  "aread xs i = Inr x \<longleftrightarrow> 0 \<le> i \<and> i < int (length xs) \<and> x = xs ! nat i"
  by (auto simp: aread_def)

lemma awrite_Inr_iff:
  "awrite xs i v = Inr ys \<longleftrightarrow> 0 \<le> i \<and> i < int (length xs) \<and> ys = xs[nat i := v]"
  by (auto simp: awrite_def)

section \<open>Division as C computes it\<close>

text \<open>The macros \<^verbatim>\<open>divRoundDown\<close> and \<^verbatim>\<open>divRoundUp\<close>; \<^verbatim>\<open>/\<close> and \<^verbatim>\<open>%\<close> truncate towards zero.\<close>

definition divRoundDown :: "int \<Rightarrow> int \<Rightarrow> int" where
  "divRoundDown n s = n sdiv s"

definition divRoundUp :: "int \<Rightarrow> int \<Rightarrow> int" where
  "divRoundUp n s = n sdiv s + (if n smod s > 0 then 1 else 0)"

lemma sdiv_nonneg: "0 \<le> a \<Longrightarrow> 0 < b \<Longrightarrow> a sdiv b = a div (b :: int)"
  by (cases "a = 0") (simp_all add: signed_divide_int_def)

lemma smod_nonneg: "0 \<le> a \<Longrightarrow> 0 < b \<Longrightarrow> a smod b = a mod (b :: int)"
  by (cases "a = 0") (simp_all add: signed_modulo_int_def signed_divide_int_def minus_div_mult_eq_mod)

lemma divRoundDown_nonneg: "0 \<le> n \<Longrightarrow> 0 < s \<Longrightarrow> divRoundDown n s = n div s"
  by (simp add: divRoundDown_def sdiv_nonneg)

lemma divRoundUp_nonneg: "0 \<le> n \<Longrightarrow> 0 < s \<Longrightarrow> divRoundUp n s = (n + s - 1) div s"
proof -
  assume a: "0 \<le> n" "0 < s"
  have n: "n = s * (n div s) + n mod s" by simp
  have m: "0 \<le> n mod s" "n mod s < s" using a by simp_all
  have "n + s - 1 = s * (n div s) + (n mod s + s - 1)" using n by linarith
  then have "(n + s - 1) div s = (s * (n div s) + (n mod s + s - 1)) div s" by (rule arg_cong)
  also have "\<dots> = n div s + (n mod s + s - 1) div s" using a by (intro div_mult_self4) simp
  finally have "(n + s - 1) div s = n div s + (n mod s + s - 1) div s" .
  also have "(n mod s + s - 1) div s = (if n mod s > 0 then 1 else 0)"
  proof (cases "n mod s > 0")
    case True
    have "(n mod s + s - 1) div s = (s + (n mod s - 1)) div s" by (simp add: algebra_simps)
    also have "\<dots> = 1 + (n mod s - 1) div s" using a by (simp add: div_add_self1)
    also have "(n mod s - 1) div s = 0" using True m by simp
    finally show ?thesis using True by simp
  next
    case False
    then have "n mod s = 0" using m by simp
    then show ?thesis using a by simp
  qed
  finally show ?thesis using a by (simp add: divRoundUp_def sdiv_nonneg smod_nonneg)
qed

section \<open>Configuration constants\<close>

definition NumProcesses :: int where [nachos_consts]: "NumProcesses = 10"
definition NumSemaphores :: int where [nachos_consts]: "NumSemaphores = 10"
definition NumOpenFilesPerProcess :: int where [nachos_consts]: "NumOpenFilesPerProcess = 20"
definition MaxFileNameLen :: int where [nachos_consts]: "MaxFileNameLen = 256"
definition MaxIPAddressLen :: int where [nachos_consts]: "MaxIPAddressLen = 15"
definition UserStackSize :: int where [nachos_consts]: "UserStackSize = 1024"
definition SectorSize :: int where [nachos_consts]: "SectorSize = 128"
definition SectorsPerTrack :: int where [nachos_consts]: "SectorsPerTrack = 32"
definition NumTracks :: int where [nachos_consts]: "NumTracks = 32"
definition PageSize :: int where [nachos_consts]: "PageSize = 128"
definition NumPhysPages :: int where [nachos_consts]: "NumPhysPages = 128"
definition MemorySize :: int where [nachos_consts]: "MemorySize = NumPhysPages * PageSize"
definition TLBSize :: int where [nachos_consts]: "TLBSize = 4"

section \<open>Bytes of a 32-bit integer\<close>

text \<open>The image of an \<^verbatim>\<open>int\<close> in memory on the little-endian host.\<close>

type_synonym byte = "8 word"

definition word_bytes :: "32 word \<Rightarrow> byte list" where
  "word_bytes w = [ucast w, ucast (drop_bit 8 w), ucast (drop_bit 16 w), ucast (drop_bit 24 w)]"

definition bytes_word :: "byte \<Rightarrow> byte \<Rightarrow> byte \<Rightarrow> byte \<Rightarrow> 32 word" where
  "bytes_word a b c d =
     ucast a OR push_bit 8 (ucast b) OR push_bit 16 (ucast c) OR push_bit 24 (ucast d)"

lemma length_word_bytes [simp]: "length (word_bytes w) = 4"
  by (simp add: word_bytes_def)

lemma bit_bytes_word:
  "bit (bytes_word a b c d) n \<longleftrightarrow>
     (if n < 8 then bit a n else if n < 16 then bit b (n - 8)
      else if n < 24 then bit c (n - 16) else n < 32 \<and> bit d (n - 24))"
  by (auto simp: bytes_word_def bit_simps dest: bit_imp_le_length)

lemma bytes_word_bytes [simp]:
  "bytes_word (word_bytes w ! 0) (word_bytes w ! 1) (word_bytes w ! 2) (word_bytes w ! 3) = w"
  by (rule bit_word_eqI) (auto simp: bit_bytes_word word_bytes_def bit_simps)

lemma word_bytes_word [simp]: "word_bytes (bytes_word a b c d) = [a, b, c, d]"
  by (auto simp: word_bytes_def bit_bytes_word bit_simps intro!: bit_word_eqI)

text \<open>Bits of the mask literals of the source.\<close>

lemma bit_low_mask:
  "bit (0xff :: 32 word) n \<longleftrightarrow> n < 8" "bit (0xffff :: 32 word) n \<longleftrightarrow> n < 16"
  "bit (0xffffff :: 32 word) n \<longleftrightarrow> n < 24"
proof -
  have m: "(0xff :: 32 word) = mask 8" "(0xffff :: 32 word) = mask 16" "(0xffffff :: 32 word) = mask 24"
    by (simp_all add: mask_eq_exp_minus_1)
  show "bit (0xff :: 32 word) n \<longleftrightarrow> n < 8" "bit (0xffff :: 32 word) n \<longleftrightarrow> n < 16"
    "bit (0xffffff :: 32 word) n \<longleftrightarrow> n < 24"
    unfolding m by (auto simp only: bit_mask_iff) simp_all
qed

lemma bit_high_mask:
  "bit (0xffffff00 :: 32 word) n \<longleftrightarrow> 8 \<le> n \<and> n < 32" "bit (0xffff0000 :: 32 word) n \<longleftrightarrow> 16 \<le> n \<and> n < 32"
  "bit (0xff000000 :: 32 word) n \<longleftrightarrow> 24 \<le> n \<and> n < 32"
proof -
  have m: "(0xffffff00 :: 32 word) = NOT 0xff" "(0xffff0000 :: 32 word) = NOT 0xffff"
    "(0xff000000 :: 32 word) = NOT 0xffffff" by simp_all
  show "bit (0xffffff00 :: 32 word) n \<longleftrightarrow> 8 \<le> n \<and> n < 32" "bit (0xffff0000 :: 32 word) n \<longleftrightarrow> 16 \<le> n \<and> n < 32"
    "bit (0xff000000 :: 32 word) n \<longleftrightarrow> 24 \<le> n \<and> n < 32"
    unfolding m by (auto simp only: bit_not_iff bit_low_mask) (auto simp: possible_bit_def)
qed

lemma uint_and_3: "uint (a AND 3 :: 32 word) = uint a mod 4"
proof -
  have "a AND 3 = take_bit 2 a" by (simp add: take_bit_eq_mask mask_eq_exp_minus_1)
  then show ?thesis by (simp add: take_bit_eq_mod uint_mod)
qed

lemma uint_and_1: "uint (a AND 1 :: 32 word) = uint a mod 2"
proof -
  have "a AND 1 = take_bit 1 a" by (simp add: take_bit_eq_mask mask_eq_exp_minus_1)
  then show ?thesis by (simp add: uint_mod)
qed

lemma sint_small: "uint (w :: 32 word) < 2 ^ 31 \<Longrightarrow> sint w = uint w"
proof -
  assume u: "uint w < 2 ^ 31"
  have "- (2 ^ 31) \<le> uint w" using order_trans [of "- (2 ^ 31)" 0 "uint w"] by simp
  then have "signed_take_bit 31 (uint w) = uint w" using u by (intro signed_take_bit_int_eq_self)
  then show ?thesis by (simp add: sint_uint)
qed

lemma unat_of_nat_small: "n < 2 ^ 32 \<Longrightarrow> unat (word_of_nat n :: 32 word) = n"
  by (simp add: unsigned_of_nat take_bit_nat_eq_self)

lemma uint_of_nat_small: "n < 2 ^ 32 \<Longrightarrow> uint (word_of_nat n :: 32 word) = int n"
  by (simp add: unsigned_of_nat take_bit_nat_eq_self)

lemma sint_nonneg: "0 \<le> sint (w :: 32 word) \<Longrightarrow> sint w = uint w"
proof -
  assume n: "0 \<le> sint w"
  then have "take_bit 32 (sint w) = sint w" using sint_lt [of w] by (intro take_bit_int_eq_self) simp_all
  then show ?thesis using uint_sint [of w] by simp
qed

lemma sint_of_nat_small: "n < 2 ^ 31 \<Longrightarrow> sint (word_of_nat n :: 32 word) = int n"
  using sint_small [of "word_of_nat n"] uint_of_nat_small [of n] by simp

lemma word_of_nat_div: "n < 2 ^ 32 \<Longrightarrow> d < 2 ^ 32 \<Longrightarrow> (word_of_nat n :: 32 word) div word_of_nat d = word_of_nat (n div d)"
proof -
  assume a: "n < 2 ^ 32" "d < 2 ^ 32"
  have "n div d < 2 ^ 32" using a(1) div_le_dividend [of n d] by linarith
  then have "unat ((word_of_nat n :: 32 word) div word_of_nat d) = unat (word_of_nat (n div d) :: 32 word)"
    unfolding unat_div using a by (simp only: unat_of_nat_small)
  then show ?thesis by (simp only: word_unat_eq_iff)
qed

lemma word_of_nat_mod: "n < 2 ^ 32 \<Longrightarrow> d < 2 ^ 32 \<Longrightarrow> (word_of_nat n :: 32 word) mod word_of_nat d = word_of_nat (n mod d)"
proof -
  assume a: "n < 2 ^ 32" "d < 2 ^ 32"
  have "n mod d < 2 ^ 32" using a(1) mod_less_eq_dividend [of n d] by linarith
  then have "unat ((word_of_nat n :: 32 word) mod word_of_nat d) = unat (word_of_nat (n mod d) :: 32 word)"
    unfolding unat_mod using a by (simp only: unat_of_nat_small)
  then show ?thesis by (simp only: word_unat_eq_iff)
qed

section \<open>Lists\<close>

lemma distinct_snoc [simp]: "distinct (xs @ [x]) \<longleftrightarrow> distinct xs \<and> x \<notin> set xs"
  by auto

lemma nth_list_update_if:
  "i < length xs \<Longrightarrow> xs[i := v] ! j = (if i = j then v else xs ! j)"
  by (simp add: nth_list_update)

text \<open>Allocating \<open>n\<close> slots one after the other, as the loops over \<^verbatim>\<open>FindAndSet\<close> do.\<close>

fun take_slots :: "('s \<Rightarrow> (int \<times> 's) result) \<Rightarrow> nat \<Rightarrow> 's \<Rightarrow> (int list \<times> 's) result" where
  "take_slots fs 0 s = Inr ([], s)"
| "take_slots fs (Suc n) s =
     rbind (fs s) (\<lambda>(x, s1). rbind (take_slots fs n s1) (\<lambda>(xs, s2). Inr (x # xs, s2)))"

text \<open>Giving a list of slots back one by one.\<close>

fun clear_all :: "('s \<Rightarrow> int \<Rightarrow> 's result) \<Rightarrow> 's \<Rightarrow> int list \<Rightarrow> 's result" where
  "clear_all clr s [] = Inr s"
| "clear_all clr s (x # xs) = rbind (clr s x) (\<lambda>s1. clear_all clr s1 xs)"

lemma in_set_drop_nth: "x \<in> set (drop n xs) \<Longrightarrow> \<exists>j. j < length xs \<and> xs ! j = x \<and> n \<le> j"
proof -
  assume "x \<in> set (drop n xs)"
  then obtain i where "i < length (drop n xs)" "drop n xs ! i = x" by (meson in_set_conv_nth)
  then show ?thesis by (intro exI [of _ "n + i"]) auto
qed

lemma distinct_filter_nth:
  assumes "\<And>i j. i < length xs \<Longrightarrow> j < length xs \<Longrightarrow> xs ! i = xs ! j \<Longrightarrow> P (xs ! i) \<Longrightarrow> i = j"
  shows "distinct (filter P xs)"
  using assms
proof (induction xs)
  case (Cons x xs)
  have "x \<notin> set xs" if "P x"
  proof
    assume "x \<in> set xs"
    then obtain i where "i < length xs" "xs ! i = x" by (auto simp: in_set_conv_nth)
    then show False using Cons.prems [of 0 "Suc i"] that by simp
  qed
  moreover have "distinct (filter P xs)"
  proof (rule Cons.IH)
    show "i = j" if "i < length xs" "j < length xs" "xs ! i = xs ! j" "P (xs ! i)" for i j
      using Cons.prems [of "Suc i" "Suc j"] that by simp
  qed
  ultimately show ?case by simp
qed simp

end
