(* ===== verification/Slot_Allocator.thy ===== *)
theory Slot_Allocator
  imports Nachos_Prelude
begin

text \<open>
  The interface the clients of a bitmap rely on: disk sectors (\<^verbatim>\<open>FileHeader\<close>), physical
  page frames (\<^verbatim>\<open>AddrSpace\<close>), process identifiers (\<^verbatim>\<open>ProcessTable\<close>) and semaphore slots
  (\<^verbatim>\<open>SemaphoreTable\<close>) are all handed out by \<^verbatim>\<open>FindAndSet\<close> and given back by \<^verbatim>\<open>Clear\<close>.
  The state of an allocator is seen through the set of slots in use.
\<close>

locale slot_allocator =
  fixes inv :: "'s \<Rightarrow> bool"
    and size :: "'s \<Rightarrow> int"
    and used :: "'s \<Rightarrow> int set"
    and test :: "'s \<Rightarrow> int \<Rightarrow> bool result"
    and clear :: "'s \<Rightarrow> int \<Rightarrow> 's result"
    and find_and_set :: "'s \<Rightarrow> (int \<times> 's) result"
    and num_clear :: "'s \<Rightarrow> int result"
  assumes used_range: "inv s \<Longrightarrow> used s \<subseteq> {0..<size s}"
    and test_law: "inv s \<Longrightarrow> 0 \<le> i \<Longrightarrow> i < size s \<Longrightarrow> test s i = Inr (i \<in> used s)"
    and clear_law: "inv s \<Longrightarrow> 0 \<le> i \<Longrightarrow> i < size s \<Longrightarrow>
          \<exists>s'. clear s i = Inr s' \<and> inv s' \<and> size s' = size s \<and> used s' = used s - {i}"
    and find_free: "inv s \<Longrightarrow> used s \<noteq> {0..<size s} \<Longrightarrow>
          \<exists>i s'. find_and_set s = Inr (i, s') \<and> 0 \<le> i \<and> i < size s \<and> i \<notin> used s \<and>
            {0..<i} \<subseteq> used s \<and> inv s' \<and> size s' = size s \<and> used s' = insert i (used s)"
    and find_full: "inv s \<Longrightarrow> used s = {0..<size s} \<Longrightarrow> find_and_set s = Inr (-1, s)"
    and num_clear_law: "inv s \<Longrightarrow> num_clear s = Inr (int (card ({0..<size s} - used s)))"
begin

text \<open>A slot that was cleared is the next one found when every lower slot is in use.\<close>

lemma clear_then_find:
  assumes "inv s" "0 \<le> i" "i < size s" "{0..<i} \<subseteq> used s"
  shows "\<exists>s1 s2. clear s i = Inr s1 \<and> find_and_set s1 = Inr (i, s2) \<and> used s2 = insert i (used s)"
proof -
  obtain s1 where s1: "clear s i = Inr s1" "inv s1" "size s1 = size s" "used s1 = used s - {i}"
    using clear_law assms by blast
  have "used s1 \<noteq> {0..<size s1}" using assms s1 by auto
  then obtain j s2 where j: "find_and_set s1 = Inr (j, s2)" "0 \<le> j" "j < size s1" "j \<notin> used s1"
      "{0..<j} \<subseteq> used s1" "used s2 = insert j (used s1)"
    using find_free s1(2) by blast
  have "j = i"
  proof (rule ccontr)
    assume "j \<noteq> i"
    then consider "j < i" | "i < j" by linarith
    then show False
    proof cases
      case 1 then show False using assms j s1 by auto
    next
      case 2 then show False using assms j s1 by auto
    qed
  qed
  then show ?thesis using s1 j assms by auto
qed

text \<open>
  The loops of \<^verbatim>\<open>FileHeader::Allocate\<close> and \<^verbatim>\<open>AddrSpace::InitPageTable\<close>: after checking
  that \<^verbatim>\<open>NumClear\<close> is at least \<open>n\<close>, \<open>n\<close> calls of \<^verbatim>\<open>FindAndSet\<close> all succeed and return
  pairwise different slots that were free before.
\<close>

lemma take_slots_ok:
  assumes "inv s" "int n \<le> int (card ({0..<size s} - used s))"
  shows "\<exists>xs s'. take_slots find_and_set n s = Inr (xs, s') \<and> length xs = n \<and> distinct xs \<and>
           set xs \<subseteq> {0..<size s} - used s \<and> inv s' \<and> size s' = size s \<and>
           used s' = used s \<union> set xs"
  using assms
proof (induction n arbitrary: s)
  case 0
  then show ?case by simp
next
  case (Suc n)
  have fin: "finite ({0..<size s} - used s)" by simp
  have "used s \<noteq> {0..<size s}" using Suc.prems(2) by auto
  then obtain i s1 where f: "find_and_set s = Inr (i, s1)" "0 \<le> i" "i < size s" "i \<notin> used s"
      "inv s1" "size s1 = size s" "used s1 = insert i (used s)"
    using find_free Suc.prems(1) by blast
  have "{0..<size s1} - used s1 = ({0..<size s} - used s) - {i}" using f by auto
  then have "card ({0..<size s1} - used s1) = card ({0..<size s} - used s) - 1"
    using f fin by (simp add: card_Diff_singleton)
  then have "int n \<le> int (card ({0..<size s1} - used s1))" using Suc.prems(2) by simp
  then obtain xs s2 where x: "take_slots find_and_set n s1 = Inr (xs, s2)" "length xs = n"
      "distinct xs" "set xs \<subseteq> {0..<size s1} - used s1" "inv s2" "size s2 = size s1"
      "used s2 = used s1 \<union> set xs"
    using Suc.IH f(5) by blast
  have "take_slots find_and_set (Suc n) s = Inr (i # xs, s2)" using f(1) x(1) by simp
  then show ?case using f x by (intro exI [of _ "i # xs"] exI [of _ s2]) auto
qed

text \<open>Giving slots back frees exactly those slots.\<close>

lemma clear_all_ok:
  assumes "inv s" "set xs \<subseteq> {0..<size s}"
  shows "\<exists>s'. clear_all clear s xs = Inr s' \<and> inv s' \<and> size s' = size s \<and> used s' = used s - set xs"
  using assms
proof (induction xs arbitrary: s)
  case Nil
  then show ?case by simp
next
  case (Cons x xs)
  then obtain s1 where s1: "clear s x = Inr s1" "inv s1" "size s1 = size s" "used s1 = used s - {x}"
    using clear_law [of s x] by auto
  have "set xs \<subseteq> {0..<size s1}" using Cons.prems(2) s1(3) by simp
  then obtain s2 where "clear_all clear s1 xs = Inr s2" "inv s2" "size s2 = size s1"
      "used s2 = used s1 - set xs"
    using Cons.IH [OF s1(2)] by blast
  then show ?case using s1 by auto
qed

end

end
