(* ===== verification/Bitmap.thy ===== *)
theory Bitmap
  imports Slot_Allocator
begin

text \<open>
  The bitmap of \<^verbatim>\<open>lib/bitmap.h\<close> and \<^verbatim>\<open>lib/bitmap.cc\<close>: an array of 32-bit words in which bit
  \<open>which mod 32\<close> of word \<open>which div 32\<close> says whether slot \<open>which\<close> is in use. The theory
  gives every operation, the invariant, the abstraction to a set of slots, and the proof that
  the bitmap is a \<open>slot_allocator\<close>.
\<close>

section \<open>State and operations\<close>

definition BitsInByte :: int where [nachos_consts]: "BitsInByte = 8"
definition BitsInWord :: int where [nachos_consts]: "BitsInWord = 4 * BitsInByte"

record bitmap =
  numBits :: int
  numWords :: int
  bm_map :: "32 word list"

text \<open>\<^verbatim>\<open>1 << (which % BitsInWord)\<close>, converted to an unsigned word.\<close>

definition bit_mask :: "int \<Rightarrow> 32 word" where
  "bit_mask which = push_bit (nat (which smod BitsInWord)) 1"

definition Test :: "bitmap \<Rightarrow> int \<Rightarrow> bool result" where
  "Test bm which =
     rbind (rassert (which \<ge> 0 \<and> which < numBits bm)) (\<lambda>_.
     rbind (aread (bm_map bm) (which sdiv BitsInWord)) (\<lambda>w.
     Inr (w AND bit_mask which \<noteq> 0)))"

definition Mark :: "bitmap \<Rightarrow> int \<Rightarrow> bitmap result" where
  "Mark bm which =
     rbind (rassert (which \<ge> 0 \<and> which < numBits bm)) (\<lambda>_.
     rbind (aread (bm_map bm) (which sdiv BitsInWord)) (\<lambda>w.
     rbind (awrite (bm_map bm) (which sdiv BitsInWord) (w OR bit_mask which)) (\<lambda>m.
     let bm' = bm\<lparr>bm_map := m\<rparr> in
     rbind (Test bm' which) (\<lambda>t.
     rbind (rassert t) (\<lambda>_. Inr bm')))))"

definition Clear :: "bitmap \<Rightarrow> int \<Rightarrow> bitmap result" where
  "Clear bm which =
     rbind (rassert (which \<ge> 0 \<and> which < numBits bm)) (\<lambda>_.
     rbind (aread (bm_map bm) (which sdiv BitsInWord)) (\<lambda>w.
     rbind (awrite (bm_map bm) (which sdiv BitsInWord) (w AND NOT (bit_mask which))) (\<lambda>m.
     let bm' = bm\<lparr>bm_map := m\<rparr> in
     rbind (Test bm' which) (\<lambda>t.
     rbind (rassert (\<not> t)) (\<lambda>_. Inr bm')))))"

text \<open>The loop \<^verbatim>\<open>for (i = 0; i < numBits; i++) Clear(i)\<close> of the constructor.\<close>

definition upto_int :: "int \<Rightarrow> int list" where
  "upto_int n = map int [0..<nat n]"

definition new_Bitmap :: "int \<Rightarrow> bitmap result" where
  "new_Bitmap numItems =
     rbind (rassert (numItems > 0)) (\<lambda>_.
     let n = divRoundUp numItems BitsInWord in
     clear_all Clear \<lparr>numBits = numItems, numWords = n, bm_map = replicate (nat n) 0\<rparr>
       (upto_int numItems))"

function find_clear :: "bitmap \<Rightarrow> int \<Rightarrow> int result" where
  "find_clear bm i =
     (if i < numBits bm
      then rbind (Test bm i) (\<lambda>t. if \<not> t then Inr i else find_clear bm (i + 1))
      else Inr (-1))"
  by pat_completeness auto
termination by (relation "measure (\<lambda>(bm, i). nat (numBits bm - i))") auto

declare find_clear.simps [simp del]

definition FindAndSet :: "bitmap \<Rightarrow> (int \<times> bitmap) result" where
  "FindAndSet bm =
     rbind (find_clear bm 0) (\<lambda>i.
     if i = -1 then Inr (-1, bm) else rbind (Mark bm i) (\<lambda>bm'. Inr (i, bm')))"

function count_clear :: "bitmap \<Rightarrow> int \<Rightarrow> int \<Rightarrow> int result" where
  "count_clear bm i count =
     (if i < numBits bm
      then rbind (Test bm i) (\<lambda>t. count_clear bm (i + 1) (if \<not> t then count + 1 else count))
      else Inr count)"
  by pat_completeness auto
termination by (relation "measure (\<lambda>(bm, i, c). nat (numBits bm - i))") auto

declare count_clear.simps [simp del]

definition NumClear :: "bitmap \<Rightarrow> int result" where
  "NumClear bm = count_clear bm 0 0"

text \<open>The numbers \<^verbatim>\<open>Print\<close> writes, in the order it writes them.\<close>

fun print_bits :: "bitmap \<Rightarrow> int list \<Rightarrow> int list result" where
  "print_bits bm [] = Inr []"
| "print_bits bm (i # is) =
     rbind (Test bm i) (\<lambda>t. rbind (print_bits bm is) (\<lambda>out. Inr (if t then i # out else out)))"

definition Print_Bitmap :: "bitmap \<Rightarrow> int list result" where
  "Print_Bitmap bm = print_bits bm (upto_int (numBits bm))"

fun mark_all :: "bitmap \<Rightarrow> int list \<Rightarrow> bitmap result" where
  "mark_all bm [] = Inr bm"
| "mark_all bm (x # xs) = rbind (Mark bm x) (\<lambda>bm'. mark_all bm' xs)"

definition SelfTest_Bitmap :: "bitmap \<Rightarrow> bitmap result" where
  "SelfTest_Bitmap bm0 =
     rbind (rassert (numBits bm0 \<ge> BitsInWord)) (\<lambda>_.
     rbind (NumClear bm0) (\<lambda>n. rbind (rassert (n = numBits bm0)) (\<lambda>_.
     rbind (FindAndSet bm0) (\<lambda>(i, bm1). rbind (rassert (i = 0)) (\<lambda>_.
     rbind (Mark bm1 31) (\<lambda>bm2.
     rbind (Test bm2 0) (\<lambda>t0. rbind (Test bm2 31) (\<lambda>t31. rbind (rassert (t0 \<and> t31)) (\<lambda>_.
     rbind (FindAndSet bm2) (\<lambda>(j, bm3). rbind (rassert (j = 1)) (\<lambda>_.
     rbind (Clear bm3 0) (\<lambda>bm4. rbind (Clear bm4 1) (\<lambda>bm5. rbind (Clear bm5 31) (\<lambda>bm6.
     rbind (mark_all bm6 (upto_int (numBits bm6))) (\<lambda>bm7.
     rbind (FindAndSet bm7) (\<lambda>(k, bm8). rbind (rassert (k = -1)) (\<lambda>_.
     clear_all Clear bm8 (upto_int (numBits bm8)))))))))))))))))))"

section \<open>Invariant and abstraction\<close>

definition bitmap_ok :: "bitmap \<Rightarrow> bool" where
  "bitmap_ok bm \<longleftrightarrow> numBits bm > 0 \<and> numWords bm = divRoundUp (numBits bm) BitsInWord \<and>
     int (length (bm_map bm)) = numWords bm"

definition used_slots :: "bitmap \<Rightarrow> int set" where
  "used_slots bm =
     {i. 0 \<le> i \<and> i < numBits bm \<and> bit (bm_map bm ! nat (i div 32)) (nat (i mod 32))}"

lemma bitmap_word_index:
  assumes "bitmap_ok bm" "0 \<le> i" "i < numBits bm"
  shows "i div 32 < int (length (bm_map bm))"
proof -
  have "int (length (bm_map bm)) = (numBits bm + 31) div 32"
    using assms by (simp add: bitmap_ok_def nachos_consts divRoundUp_nonneg)
  moreover have "i div 32 < (numBits bm + 31) div 32" using assms by linarith
  ultimately show ?thesis by simp
qed

lemma bit_mask_nonneg: "0 \<le> i \<Longrightarrow> bit_mask i = push_bit (nat (i mod 32)) 1"
  by (simp add: bit_mask_def nachos_consts smod_nonneg)

lemma nat_mod_32 [simp]: "0 \<le> i \<Longrightarrow> nat (i mod 32) < 32" for i :: int
  by (simp add: nat_less_iff)

lemma Test_ok:
  assumes "bitmap_ok bm" "0 \<le> i" "i < numBits bm"
  shows "Test bm i = Inr (i \<in> used_slots bm)"
  using assms bitmap_word_index [OF assms]
  by (simp add: Test_def used_slots_def bit_mask_nonneg and_exp_eq_0_iff_not_bit nachos_consts sdiv_nonneg)

text \<open>Writing bit \<open>i\<close> of the array changes the membership of slot \<open>i\<close> and of no other slot.\<close>

lemma div_mod_32_eq: "i div 32 = j div 32 \<Longrightarrow> i mod 32 = j mod 32 \<Longrightarrow> i = (j :: int)"
  by presburger

lemma nat_div_mod_32_eq:
  "0 \<le> i \<Longrightarrow> 0 \<le> j \<Longrightarrow> nat (i div 32) = nat (j div 32) \<Longrightarrow> nat (i mod 32) = nat (j mod 32) \<Longrightarrow>
   i = (j :: int)"
  by (rule div_mod_32_eq) (simp_all add: pos_imp_zdiv_nonneg_iff eq_nat_nat_iff)

lemma used_slots_update:
  assumes ok: "bitmap_ok bm" and i: "0 \<le> i" "i < numBits bm"
    and w: "\<And>k. k < 32 \<Longrightarrow> bit w k = (if k = nat (i mod 32) then b else bit (bm_map bm ! nat (i div 32)) k)"
  shows "used_slots (bm\<lparr>bm_map := (bm_map bm)[nat (i div 32) := w]\<rparr>) =
         (if b then insert i (used_slots bm) else used_slots bm - {i})" (is "used_slots ?bm' = ?R")
proof -
  have len: "nat (i div 32) < length (bm_map bm)" using bitmap_word_index [OF ok i] i by simp
  have "j \<in> used_slots ?bm' \<longleftrightarrow> (if j = i then b else j \<in> used_slots bm)" for j
  proof (cases "0 \<le> j \<and> j < numBits bm")
    case False
    then show ?thesis using i by (auto simp: used_slots_def)
  next
    case True
    show ?thesis
    proof (cases "nat (j div 32) = nat (i div 32)")
      case False
      then show ?thesis using True len by (auto simp: used_slots_def)
    next
      case same: True
      have "bit w (nat (j mod 32)) = (if j = i then b else bit (bm_map bm ! nat (i div 32)) (nat (j mod 32)))"
        using w [of "nat (j mod 32)"] nat_div_mod_32_eq [of j i] True i same by auto
      then show ?thesis using True len same by (simp add: used_slots_def)
    qed
  qed
  then show ?thesis by (cases b) (simp_all add: set_eq_iff)
qed

lemma bitmap_ok_update: "bitmap_ok (bm\<lparr>bm_map := (bm_map bm)[k := w]\<rparr>) = bitmap_ok bm"
  by (simp add: bitmap_ok_def)

lemma Mark_ok:
  assumes "bitmap_ok bm" "0 \<le> i" "i < numBits bm"
  shows "\<exists>bm'. Mark bm i = Inr bm' \<and> bitmap_ok bm' \<and> numBits bm' = numBits bm \<and>
           used_slots bm' = insert i (used_slots bm)"
proof -
  let ?w = "bm_map bm ! nat (i div 32) OR push_bit (nat (i mod 32)) 1"
  let ?bm = "bm\<lparr>bm_map := (bm_map bm)[nat (i div 32) := ?w]\<rparr>"
  have u: "used_slots ?bm = insert i (used_slots bm)"
    using used_slots_update [OF assms, of ?w True] by (simp add: bit_simps)
  have ok: "bitmap_ok ?bm" using assms by (simp only: bitmap_ok_update)
  have t: "Test ?bm i = Inr True" using Test_ok [OF ok, of i] assms u by simp
  have "Mark bm i = Inr ?bm"
    using assms bitmap_word_index [OF assms] t
    by (simp add: Mark_def bit_mask_nonneg nachos_consts sdiv_nonneg Let_def)
  then show ?thesis using ok u by simp
qed

lemma Clear_ok:
  assumes "bitmap_ok bm" "0 \<le> i" "i < numBits bm"
  shows "\<exists>bm'. Clear bm i = Inr bm' \<and> bitmap_ok bm' \<and> numBits bm' = numBits bm \<and>
           used_slots bm' = used_slots bm - {i}"
proof -
  let ?w = "bm_map bm ! nat (i div 32) AND NOT (push_bit (nat (i mod 32)) 1)"
  let ?bm = "bm\<lparr>bm_map := (bm_map bm)[nat (i div 32) := ?w]\<rparr>"
  have u: "used_slots ?bm = used_slots bm - {i}"
    using used_slots_update [OF assms, of ?w False] by (simp add: bit_simps)
  have ok: "bitmap_ok ?bm" using assms by (simp only: bitmap_ok_update)
  have t: "Test ?bm i = Inr False" using Test_ok [OF ok, of i] assms u by simp
  have "Clear bm i = Inr ?bm"
    using assms bitmap_word_index [OF assms] t
    by (simp add: Clear_def bit_mask_nonneg nachos_consts sdiv_nonneg Let_def)
  then show ?thesis using ok u by simp
qed

section \<open>The search and counting loops\<close>

lemma find_clear_ok:
  assumes "bitmap_ok bm" "0 \<le> i" "{0..<i} \<subseteq> used_slots bm"
  shows "\<exists>r. find_clear bm i = Inr r \<and>
    (r = -1 \<and> {i..<numBits bm} \<subseteq> used_slots bm \<or>
     i \<le> r \<and> r < numBits bm \<and> r \<notin> used_slots bm \<and> {0..<r} \<subseteq> used_slots bm)"
  using assms
proof (induction bm i rule: find_clear.induct)
  case (1 bm i)
  show ?case
  proof (cases "i < numBits bm")
    case False
    then show ?thesis by (simp add: find_clear.simps)
  next
    case True
    have t: "Test bm i = Inr (i \<in> used_slots bm)" using Test_ok "1.prems" True by simp
    show ?thesis
    proof (cases "i \<in> used_slots bm")
      case False
      then show ?thesis using t True "1.prems" by (simp add: find_clear.simps)
    next
      case used: True
      have step: "{0..<i + 1} \<subseteq> used_slots bm" using "1.prems" used
        by (metis atLeastLessThan_iff insert_subset subset_eq zless_add1_eq)
      obtain r where r: "find_clear bm (i + 1) = Inr r"
        "r = -1 \<and> {i + 1..<numBits bm} \<subseteq> used_slots bm \<or>
         i + 1 \<le> r \<and> r < numBits bm \<and> r \<notin> used_slots bm \<and> {0..<r} \<subseteq> used_slots bm"
        using "1.IH" [of True] True t used step "1.prems" by auto
      have "{i..<numBits bm} = insert i {i + 1..<numBits bm}" using True by auto
      then show ?thesis using r t used True by (auto simp: find_clear.simps [of bm i])
    qed
  qed
qed

lemma count_clear_ok:
  assumes "bitmap_ok bm" "0 \<le> i"
  shows "count_clear bm i c = Inr (c + int (card ({i..<numBits bm} - used_slots bm)))"
  using assms
proof (induction bm i c rule: count_clear.induct)
  case (1 bm i c)
  show ?case
  proof (cases "i < numBits bm")
    case False
    then show ?thesis by (simp add: count_clear.simps)
  next
    case True
    have t: "Test bm i = Inr (i \<in> used_slots bm)" using Test_ok "1.prems" True by simp
    have split: "{i..<numBits bm} - used_slots bm =
      (if i \<in> used_slots bm then {i + 1..<numBits bm} - used_slots bm
       else insert i ({i + 1..<numBits bm} - used_slots bm))"
    proof -
      have "{i..<numBits bm} = insert i {i + 1..<numBits bm}" using True by auto
      then show ?thesis by auto
    qed
    then have "int (card ({i..<numBits bm} - used_slots bm)) =
      (if i \<in> used_slots bm then 0 else 1) + int (card ({i + 1..<numBits bm} - used_slots bm))"
      by simp
    then show ?thesis using "1.IH" True t "1.prems" by (simp add: count_clear.simps [of bm i])
  qed
qed

lemma used_slots_range: "used_slots bm \<subseteq> {0..<numBits bm}"
  by (auto simp: used_slots_def)

lemma FindAndSet_free:
  assumes "bitmap_ok bm" "used_slots bm \<noteq> {0..<numBits bm}"
  shows "\<exists>i bm'. FindAndSet bm = Inr (i, bm') \<and> 0 \<le> i \<and> i < numBits bm \<and> i \<notin> used_slots bm \<and>
     {0..<i} \<subseteq> used_slots bm \<and> bitmap_ok bm' \<and> numBits bm' = numBits bm \<and>
     used_slots bm' = insert i (used_slots bm)"
proof -
  obtain r where r: "find_clear bm 0 = Inr r"
    "r = -1 \<and> {0..<numBits bm} \<subseteq> used_slots bm \<or>
     0 \<le> r \<and> r < numBits bm \<and> r \<notin> used_slots bm \<and> {0..<r} \<subseteq> used_slots bm"
    using find_clear_ok [OF assms(1), of 0] by auto
  then have r': "0 \<le> r" "r < numBits bm" "r \<notin> used_slots bm" "{0..<r} \<subseteq> used_slots bm"
    using assms(2) used_slots_range [of bm] by auto
  then show ?thesis using Mark_ok [OF assms(1), of r] r(1) by (auto simp: FindAndSet_def)
qed

lemma FindAndSet_full:
  assumes "bitmap_ok bm" "used_slots bm = {0..<numBits bm}"
  shows "FindAndSet bm = Inr (-1, bm)"
  using find_clear_ok [OF assms(1), of 0] assms(2) by (auto simp: FindAndSet_def)

section \<open>The bitmap is a slot allocator\<close>

interpretation bm: slot_allocator bitmap_ok numBits used_slots Test Clear FindAndSet NumClear
proof unfold_locales
  show "bitmap_ok s \<Longrightarrow> used_slots s \<subseteq> {0..<numBits s}" for s
    by (rule used_slots_range)
  show "bitmap_ok s \<Longrightarrow> 0 \<le> i \<Longrightarrow> i < numBits s \<Longrightarrow> Test s i = Inr (i \<in> used_slots s)" for s i
    by (rule Test_ok)
  show "bitmap_ok s \<Longrightarrow> 0 \<le> i \<Longrightarrow> i < numBits s \<Longrightarrow>
      \<exists>s'. Clear s i = Inr s' \<and> bitmap_ok s' \<and> numBits s' = numBits s \<and> used_slots s' = used_slots s - {i}"
    for s i by (rule Clear_ok)
  show "bitmap_ok s \<Longrightarrow> used_slots s \<noteq> {0..<numBits s} \<Longrightarrow>
      \<exists>i s'. FindAndSet s = Inr (i, s') \<and> 0 \<le> i \<and> i < numBits s \<and> i \<notin> used_slots s \<and>
        {0..<i} \<subseteq> used_slots s \<and> bitmap_ok s' \<and> numBits s' = numBits s \<and>
        used_slots s' = insert i (used_slots s)" for s
    by (rule FindAndSet_free)
  show "bitmap_ok s \<Longrightarrow> used_slots s = {0..<numBits s} \<Longrightarrow> FindAndSet s = Inr (-1, s)" for s
    by (rule FindAndSet_full)
  show "bitmap_ok s \<Longrightarrow> NumClear s = Inr (int (card ({0..<numBits s} - used_slots s)))" for s
    by (simp add: NumClear_def count_clear_ok)
qed

section \<open>Constructor, Print and SelfTest\<close>

lemma set_upto_int [simp]: "set (upto_int n) = {0..<n}"
  by (force simp: upto_int_def image_iff intro: bexI [where x = "nat _"])

lemma new_Bitmap_ok:
  assumes "0 < n"
  shows "\<exists>bm. new_Bitmap n = Inr bm \<and> bitmap_ok bm \<and> numBits bm = n \<and> used_slots bm = {}"
proof -
  let ?bm = "\<lparr>numBits = n, numWords = divRoundUp n BitsInWord,
    bm_map = replicate (nat (divRoundUp n BitsInWord)) (0 :: 32 word)\<rparr>"
  have ok: "bitmap_ok ?bm" using assms
    by (simp add: bitmap_ok_def divRoundUp_nonneg nachos_consts)
  obtain bm where "clear_all Clear ?bm (upto_int n) = Inr bm" "bitmap_ok bm" "numBits bm = n"
      "used_slots bm = used_slots ?bm - {0..<n}"
    using bm.clear_all_ok [OF ok, of "upto_int n"] by auto
  moreover have "used_slots ?bm \<subseteq> {0..<n}" using used_slots_range [of ?bm] by simp
  ultimately show ?thesis using assms by (auto simp: new_Bitmap_def Let_def)
qed

lemma print_bits_ok:
  "bitmap_ok bm \<Longrightarrow> set is \<subseteq> {0..<numBits bm} \<Longrightarrow>
   print_bits bm is = Inr (filter (\<lambda>i. i \<in> used_slots bm) is)"
  by (induction "is") (auto simp: Test_ok)

lemma mark_all_ok:
  assumes "bitmap_ok bm" "set xs \<subseteq> {0..<numBits bm}"
  shows "\<exists>bm'. mark_all bm xs = Inr bm' \<and> bitmap_ok bm' \<and> numBits bm' = numBits bm \<and>
           used_slots bm' = used_slots bm \<union> set xs"
  using assms
proof (induction xs arbitrary: bm)
  case Nil
  then show ?case by simp
next
  case (Cons x xs)
  then obtain b1 where b1: "Mark bm x = Inr b1" "bitmap_ok b1" "numBits b1 = numBits bm"
      "used_slots b1 = insert x (used_slots bm)"
    using Mark_ok [of bm x] by auto
  have "set xs \<subseteq> {0..<numBits b1}" using Cons.prems(2) b1(3) by simp
  then obtain b2 where "mark_all b1 xs = Inr b2" "bitmap_ok b2" "numBits b2 = numBits b1"
      "used_slots b2 = used_slots b1 \<union> set xs"
    using Cons.IH [OF b1(2)] by blast
  then show ?case using b1 by auto
qed

section \<open>Properties\<close>

text \<open>
  a bitmap hands out the lowest free slot: \<^verbatim>\<open>FindAndSet\<close> on a well-formed bitmap never
  faults; if every slot is in use it returns -1 and changes nothing, otherwise it returns the
  least slot that is not in use, marks exactly that slot and keeps the bitmap well-formed.
\<close>

theorem FindAndSet_lowest_free:
  assumes "bitmap_ok bm"
  shows "if used_slots bm = {0..<numBits bm} then FindAndSet bm = Inr (-1, bm)
         else \<exists>bm'. FindAndSet bm = Inr (Min ({0..<numBits bm} - used_slots bm), bm') \<and>
                bitmap_ok bm' \<and> numBits bm' = numBits bm \<and>
                used_slots bm' = insert (Min ({0..<numBits bm} - used_slots bm)) (used_slots bm)"
proof (cases "used_slots bm = {0..<numBits bm}")
  case True
  then show ?thesis using FindAndSet_full assms by simp
next
  case False
  then obtain i bm' where i: "FindAndSet bm = Inr (i, bm')" "0 \<le> i" "i < numBits bm"
      "i \<notin> used_slots bm" "{0..<i} \<subseteq> used_slots bm" "bitmap_ok bm'"
      "numBits bm' = numBits bm" "used_slots bm' = insert i (used_slots bm)"
    using FindAndSet_free assms by blast
  then have "Min ({0..<numBits bm} - used_slots bm) = i"
    by (intro Min_eqI) (auto simp: not_less [symmetric])
  then show ?thesis using i False by auto
qed

text \<open>
  C24: the bitmap implements a finite set of slots: for every slot in range \<^verbatim>\<open>Mark\<close> inserts it,
  \<^verbatim>\<open>Clear\<close> removes it, \<^verbatim>\<open>Test\<close> decides membership and none of the internal assertions fails;
  for a slot out of range all three abort; \<^verbatim>\<open>NumClear\<close> is the number of slots not in use.
\<close>

theorem bitmap_implements_set:
  assumes "bitmap_ok bm"
  shows "(if 0 \<le> i \<and> i < numBits bm
          then Test bm i = Inr (i \<in> used_slots bm) \<and>
            (\<exists>bm'. Mark bm i = Inr bm' \<and> bitmap_ok bm' \<and> numBits bm' = numBits bm \<and>
                used_slots bm' = insert i (used_slots bm)) \<and>
            (\<exists>bm'. Clear bm i = Inr bm' \<and> bitmap_ok bm' \<and> numBits bm' = numBits bm \<and>
                used_slots bm' = used_slots bm - {i})
          else Test bm i = Inl AssertFailed \<and> Mark bm i = Inl AssertFailed \<and>
               Clear bm i = Inl AssertFailed)
         \<and> NumClear bm = Inr (numBits bm - int (card (used_slots bm)))"
proof -
  have "card ({0..<numBits bm} - used_slots bm) = card {0..<numBits bm} - card (used_slots bm)"
    by (rule card_Diff_subset) (use used_slots_range [of bm] finite_subset in auto)
  moreover have "card (used_slots bm) \<le> card {0..<numBits bm}"
    by (rule card_mono) (use used_slots_range [of bm] in auto)
  moreover have "0 < numBits bm" using assms by (simp add: bitmap_ok_def)
  ultimately have "NumClear bm = Inr (numBits bm - int (card (used_slots bm)))"
    using bm.num_clear_law [OF assms] by simp
  moreover have "\<not> (0 \<le> i \<and> i < numBits bm) \<Longrightarrow> Test bm i = Inl AssertFailed \<and>
      Mark bm i = Inl AssertFailed \<and> Clear bm i = Inl AssertFailed"
    by (auto simp: Test_def Mark_def Clear_def rassert_def)
  ultimately show ?thesis using Test_ok Mark_ok Clear_ok assms by simp
qed

section \<open>The self test\<close>

text \<open>\<^verbatim>\<open>FindAndSet\<close> returns \<open>i\<close> when \<open>i\<close> is free and every lower slot is in use.\<close>

lemma FindAndSet_at:
  assumes "bitmap_ok bm" "0 \<le> i" "i < numBits bm" "i \<notin> used_slots bm" "{0..<i} \<subseteq> used_slots bm"
  shows "\<exists>bm'. FindAndSet bm = Inr (i, bm') \<and> bitmap_ok bm' \<and> numBits bm' = numBits bm \<and>
    used_slots bm' = insert i (used_slots bm)"
proof -
  have "used_slots bm \<noteq> {0..<numBits bm}" using assms(2-4) by auto
  then obtain j b where j: "FindAndSet bm = Inr (j, b)" "0 \<le> j" "j \<notin> used_slots bm"
      "{0..<j} \<subseteq> used_slots bm" "bitmap_ok b" "numBits b = numBits bm" "used_slots b = insert j (used_slots bm)"
    using FindAndSet_free [OF assms(1)] by metis
  have "\<not> j < i" "\<not> i < j" using assms(2,4,5) j(2-4) by (auto dest: subsetD)
  then show ?thesis using j by auto
qed

text \<open>
  The module's own \<^verbatim>\<open>SelfTest\<close> passes on every freshly constructed bitmap of at least one
  word, and leaves the bitmap empty again.
\<close>

lemma SelfTest_Bitmap_passes:
  assumes "32 \<le> n"
  shows "\<exists>bm bm'. new_Bitmap n = Inr bm \<and> SelfTest_Bitmap bm = Inr bm' \<and> bitmap_ok bm' \<and>
           numBits bm' = n \<and> used_slots bm' = {}"
proof -
  obtain b0 where b0: "new_Bitmap n = Inr b0" "bitmap_ok b0" "numBits b0 = n" "used_slots b0 = {}"
    using new_Bitmap_ok assms by force
  have nc: "NumClear b0 = Inr n" using bm.num_clear_law [OF b0(2)] b0 assms by simp
  obtain b1 where b1: "FindAndSet b0 = Inr (0, b1)" "bitmap_ok b1" "numBits b1 = n" "used_slots b1 = {0}"
    using FindAndSet_at [OF b0(2), of 0] b0 assms by auto
  obtain b2 where b2: "Mark b1 31 = Inr b2" "bitmap_ok b2" "numBits b2 = n" "used_slots b2 = {0, 31}"
    using Mark_ok [OF b1(2), of 31] b1 assms by auto
  have "{0..<1 :: int} = {0}" by auto
  then obtain b3 where b3: "FindAndSet b2 = Inr (1, b3)" "bitmap_ok b3" "numBits b3 = n" "used_slots b3 = {0, 1, 31}"
    using FindAndSet_at [OF b2(2), of 1] b2 assms by (auto simp: insert_commute)
  obtain b4 where b4: "Clear b3 0 = Inr b4" "bitmap_ok b4" "numBits b4 = n" "used_slots b4 = {0, 1, 31} - {0}"
    using Clear_ok [OF b3(2), of 0] b3 assms by auto
  obtain b5 where b5: "Clear b4 1 = Inr b5" "bitmap_ok b5" "numBits b5 = n" "used_slots b5 = {0, 1, 31} - {0} - {1}"
    using Clear_ok [OF b4(2), of 1] b4(3,4) assms by force
  obtain b6 where b6: "Clear b5 31 = Inr b6" "bitmap_ok b6" "numBits b6 = n"
    using Clear_ok [OF b5(2), of 31] b5 assms by force
  obtain b7 where b7: "mark_all b6 (upto_int n) = Inr b7" "bitmap_ok b7" "numBits b7 = n"
      "used_slots b7 = {0..<n}"
    using mark_all_ok [OF b6(2), of "upto_int n"] b6 used_slots_range [of b6] by auto
  have f7: "FindAndSet b7 = Inr (-1, b7)" using FindAndSet_full b7 by simp
  obtain b9 where b9: "clear_all Clear b7 (upto_int n) = Inr b9" "bitmap_ok b9" "numBits b9 = n"
      "used_slots b9 = {}"
    using bm.clear_all_ok [OF b7(2), of "upto_int n"] b7 by auto
  have "SelfTest_Bitmap b0 = Inr b9"
    using b0 nc b1 b2 b3 b4(1) b5(1) b6 b7 f7 b9(1) assms Test_ok [OF b2(2)]
    by (simp add: SelfTest_Bitmap_def nachos_consts)
  then show ?thesis using b0(1) b9 by blast
qed

text \<open>Witnesses at concrete bitmaps.\<close>

definition small_bitmap :: bitmap where
  "small_bitmap = \<lparr>numBits = 3, numWords = 1, bm_map = [5]\<rparr>"

lemma small_bitmap_ok: "bitmap_ok small_bitmap"
  by (simp add: small_bitmap_def bitmap_ok_def divRoundUp_nonneg nachos_consts)

theorem FindAndSet_lowest_free_witness:
  "if used_slots small_bitmap = {0..<numBits small_bitmap}
   then FindAndSet small_bitmap = Inr (-1, small_bitmap)
   else \<exists>bm'. FindAndSet small_bitmap =
            Inr (Min ({0..<numBits small_bitmap} - used_slots small_bitmap), bm') \<and>
          bitmap_ok bm' \<and> numBits bm' = numBits small_bitmap \<and>
          used_slots bm' = insert (Min ({0..<numBits small_bitmap} - used_slots small_bitmap))
                              (used_slots small_bitmap)"
  by (rule FindAndSet_lowest_free [OF small_bitmap_ok])

theorem bitmap_implements_set_witness:
  "Test small_bitmap 2 = Inr (2 \<in> used_slots small_bitmap) \<and>
   NumClear small_bitmap = Inr (3 - int (card (used_slots small_bitmap)))"
  using bitmap_implements_set [OF small_bitmap_ok, of 2] by (simp add: small_bitmap_def)

end
