(* ===== verification/Sequence_Spec.thy ===== *)
theory Sequence_Spec
  imports Nachos_Prelude "HOL-Library.Multiset"
begin

text \<open>
  What a \<^verbatim>\<open>List<T>\<close> or \<^verbatim>\<open>SortedList<T>\<close> promises, stated on HOL lists: the operations
  \<open>seq_append\<close>, \<open>seq_remove_front\<close>, \<open>\<dots>\<close> return the new sequence or the failed assertion of
  the source. Ready queues, semaphore queues, condition queues and the pending interrupts
  use lists only through these operations. The locale \<open>item_list\<close> is the interface: a
  representation relation under which every concrete operation simulates its specification.
\<close>

section \<open>Specification operations\<close>

definition seq_append :: "'a list \<Rightarrow> 'a \<Rightarrow> 'a list result" where
  "seq_append xs x = (if x \<in> set xs then Inl AssertFailed else Inr (xs @ [x]))"

definition seq_prepend :: "'a list \<Rightarrow> 'a \<Rightarrow> 'a list result" where
  "seq_prepend xs x = (if x \<in> set xs then Inl AssertFailed else Inr (x # xs))"

definition seq_remove_front :: "'a list \<Rightarrow> ('a \<times> 'a list) result" where
  "seq_remove_front xs = (case xs of [] \<Rightarrow> Inl AssertFailed | y # ys \<Rightarrow> Inr (y, ys))"

definition seq_remove :: "'a list \<Rightarrow> 'a \<Rightarrow> 'a list result" where
  "seq_remove xs x = (if x \<in> set xs then Inr (remove1 x xs) else Inl AssertFailed)"

text \<open>Insertion behind every element that does not compare greater.\<close>

fun insort_cmp :: "('a \<Rightarrow> 'a \<Rightarrow> int) \<Rightarrow> 'a \<Rightarrow> 'a list \<Rightarrow> 'a list" where
  "insort_cmp cmp x [] = [x]"
| "insort_cmp cmp x (y # ys) = (if cmp x y < 0 then x # y # ys else y # insort_cmp cmp x ys)"

definition seq_insert :: "('a \<Rightarrow> 'a \<Rightarrow> int) \<Rightarrow> 'a list \<Rightarrow> 'a \<Rightarrow> 'a list result" where
  "seq_insert cmp xs x = (if x \<in> set xs then Inl AssertFailed else Inr (insort_cmp cmp x xs))"

lemma mset_insort_cmp [simp]: "mset (insort_cmp cmp x xs) = add_mset x (mset xs)"
  by (induction xs) auto

lemma set_insort_cmp [simp]: "set (insort_cmp cmp x xs) = insert x (set xs)"
  by (induction xs) auto

lemma length_insort_cmp [simp]: "length (insort_cmp cmp x xs) = Suc (length xs)"
  by (induction xs) auto

lemma distinct_insort_cmp [simp]:
  "distinct (insort_cmp cmp x xs) \<longleftrightarrow> x \<notin> set xs \<and> distinct xs"
  by (induction xs) auto

lemma insort_cmp_append:
  "(\<forall>y \<in> set ys. \<not> cmp x y < 0) \<Longrightarrow> insort_cmp cmp x (ys @ zs) = ys @ insort_cmp cmp x zs"
  by (induction ys) auto

section \<open>Comparison functions\<close>

text \<open>
  The comparison functions passed to a \<^verbatim>\<open>SortedList\<close> return a negative, zero or positive
  number; a list is sorted when each item is not bigger than the later ones.
\<close>

definition cmp_order :: "('a \<Rightarrow> 'a \<Rightarrow> int) \<Rightarrow> bool" where
  "cmp_order cmp \<longleftrightarrow> (\<forall>x y. cmp x y < 0 \<longleftrightarrow> cmp y x > 0) \<and>
     (\<forall>x y z. cmp x y \<le> 0 \<longrightarrow> cmp y z \<le> 0 \<longrightarrow> cmp x z \<le> 0)"

definition cmp_sorted :: "('a \<Rightarrow> 'a \<Rightarrow> int) \<Rightarrow> 'a list \<Rightarrow> bool" where
  "cmp_sorted cmp xs \<longleftrightarrow> sorted_wrt (\<lambda>x y. cmp x y \<le> 0) xs"

lemma cmp_order_trans: "cmp_order cmp \<Longrightarrow> cmp x y \<le> 0 \<Longrightarrow> cmp y z \<le> 0 \<Longrightarrow> cmp x z \<le> 0"
  by (auto simp: cmp_order_def)

lemma cmp_order_flip: "cmp_order cmp \<Longrightarrow> \<not> cmp x y < 0 \<Longrightarrow> cmp y x \<le> 0"
  by (metis cmp_order_def linorder_not_less)

lemma cmp_sorted_insort:
  assumes c: "cmp_order cmp" and s: "cmp_sorted cmp xs"
  shows "cmp_sorted cmp (insort_cmp cmp x xs)"
  using s
proof (induction xs)
  case Nil
  then show ?case by (simp add: cmp_sorted_def)
next
  case (Cons y ys)
  show ?case
  proof (cases "cmp x y < 0")
    case True
    then have "\<forall>z \<in> set ys. cmp x z \<le> 0"
      using Cons.prems cmp_order_trans [OF c, of x y] by (auto simp: cmp_sorted_def)
    then show ?thesis using True Cons.prems by (auto simp: cmp_sorted_def)
  next
    case False
    then show ?thesis using Cons cmp_order_flip [OF c False] by (auto simp: cmp_sorted_def)
  qed
qed

section \<open>Sequences of calls\<close>

fun append_all :: "('l \<Rightarrow> 'a \<Rightarrow> 'l result) \<Rightarrow> 'l \<Rightarrow> 'a list \<Rightarrow> 'l result" where
  "append_all app l [] = Inr l"
| "append_all app l (x # xs) = rbind (app l x) (\<lambda>l1. append_all app l1 xs)"

fun drain :: "('l \<Rightarrow> ('a \<times> 'l) result) \<Rightarrow> nat \<Rightarrow> 'l \<Rightarrow> ('a list \<times> 'l) result" where
  "drain rf 0 l = Inr ([], l)"
| "drain rf (Suc n) l = rbind (rf l) (\<lambda>(x, l1). rbind (drain rf n l1) (\<lambda>(xs, l2). Inr (x # xs, l2)))"

lemma fold_insort_cmp_sorted:
  "cmp_order cmp \<Longrightarrow> cmp_sorted cmp ys \<Longrightarrow> cmp_sorted cmp (fold (insort_cmp cmp) xs ys)"
  by (induction xs arbitrary: ys) (auto intro: cmp_sorted_insort)

lemma mset_fold_insort_cmp [simp]: "mset (fold (insort_cmp cmp) xs ys) = mset xs + mset ys"
  by (induction xs arbitrary: ys) auto

section \<open>The interface\<close>

locale item_list =
  fixes rep :: "'l \<Rightarrow> 'a list \<Rightarrow> bool"
    and append :: "'l \<Rightarrow> 'a \<Rightarrow> 'l result"
    and prepend :: "'l \<Rightarrow> 'a \<Rightarrow> 'l result"
    and remove_front :: "'l \<Rightarrow> ('a \<times> 'l) result"
    and remove :: "'l \<Rightarrow> 'a \<Rightarrow> 'l result"
    and is_in :: "'l \<Rightarrow> 'a \<Rightarrow> bool result"
    and num :: "'l \<Rightarrow> int"
  assumes append_law: "rep l xs \<Longrightarrow> rel_sum (=) rep (append l x) (seq_append xs x)"
    and prepend_law: "rep l xs \<Longrightarrow> rel_sum (=) rep (prepend l x) (seq_prepend xs x)"
    and remove_front_law:
      "rep l xs \<Longrightarrow> rel_sum (=) (rel_prod (=) rep) (remove_front l) (seq_remove_front xs)"
    and remove_law: "rep l xs \<Longrightarrow> rel_sum (=) rep (remove l x) (seq_remove xs x)"
    and is_in_law: "rep l xs \<Longrightarrow> is_in l x = Inr (x \<in> set xs)"
    and num_law: "rep l xs \<Longrightarrow> num l = int (length xs)"
    and rep_distinct: "rep l xs \<Longrightarrow> distinct xs"
begin

lemma append_ok: "rep l xs \<Longrightarrow> x \<notin> set xs \<Longrightarrow> \<exists>l'. append l x = Inr l' \<and> rep l' (xs @ [x])"
  using append_law [of l xs x] by (cases "append l x") (auto simp: seq_append_def)

lemma remove_front_ok: "rep l (x # xs) \<Longrightarrow> \<exists>l'. remove_front l = Inr (x, l') \<and> rep l' xs"
  using remove_front_law [of l "x # xs"] by (cases "remove_front l") (auto simp: seq_remove_front_def)

lemma remove_ok: "rep l xs \<Longrightarrow> x \<in> set xs \<Longrightarrow> \<exists>l'. remove l x = Inr l' \<and> rep l' (remove1 x xs)"
  using remove_law [of l xs x] by (cases "remove l x") (auto simp: seq_remove_def)

lemma append_all_ok:
  "rep l xs \<Longrightarrow> distinct (xs @ ys) \<Longrightarrow> \<exists>l'. append_all append l ys = Inr l' \<and> rep l' (xs @ ys)"
proof (induction ys arbitrary: l xs)
  case Nil
  then show ?case by simp
next
  case (Cons y ys)
  then obtain l1 where l1: "append l y = Inr l1" "rep l1 (xs @ [y])"
    using append_ok [of l xs y] by auto
  then show ?case using Cons.IH [of l1 "xs @ [y]"] Cons.prems(2) by auto
qed

lemma drain_ok: "rep l xs \<Longrightarrow> \<exists>l'. drain remove_front (length xs) l = Inr (xs, l') \<and> rep l' []"
proof (induction xs arbitrary: l)
  case Nil
  then show ?case by simp
next
  case (Cons x xs)
  then obtain l1 where l1: "remove_front l = Inr (x, l1)" "rep l1 xs" using remove_front_ok by blast
  then show ?case using Cons.IH [of l1] by auto
qed

text \<open>Items leave the list in the order in which they were appended.\<close>

lemma fifo:
  assumes "rep l []" "distinct ys"
  shows "\<exists>l1 l2. append_all append l ys = Inr l1 \<and> drain remove_front (length ys) l1 = Inr (ys, l2) \<and> rep l2 []"
  using append_all_ok [of l "[]" ys] drain_ok assms by fastforce

lemma remove_all_ok:
  "rep l xs \<Longrightarrow> \<exists>l'. append_all remove l xs = Inr l' \<and> rep l' []"
proof (induction xs arbitrary: l)
  case Nil
  then show ?case by simp
next
  case (Cons x xs)
  then obtain l1 where l1: "remove l x = Inr l1" "rep l1 xs" using remove_ok [of l "x # xs" x] by auto
  then show ?case using Cons.IH [of l1] by auto
qed

end

text \<open>The specification operations satisfy their own interface on lists without duplicates.\<close>

interpretation seq: item_list "\<lambda>l xs. l = xs \<and> distinct xs" seq_append seq_prepend seq_remove_front
    seq_remove "\<lambda>l x. Inr (x \<in> set l)" "\<lambda>l. int (length l)"
  by unfold_locales
    (auto simp: seq_append_def seq_prepend_def seq_remove_front_def seq_remove_def split: list.splits)

locale sorted_item_list =
  item_list rep append prepend remove_front remove is_in num
  for rep :: "'l \<Rightarrow> 'a list \<Rightarrow> bool"
    and append prepend :: "'l \<Rightarrow> 'a \<Rightarrow> 'l result"
    and remove_front :: "'l \<Rightarrow> ('a \<times> 'l) result"
    and remove :: "'l \<Rightarrow> 'a \<Rightarrow> 'l result"
    and is_in :: "'l \<Rightarrow> 'a \<Rightarrow> bool result"
    and num :: "'l \<Rightarrow> int" +
  fixes insert_at :: "('a \<Rightarrow> 'a \<Rightarrow> int) \<Rightarrow> 'l \<Rightarrow> 'a \<Rightarrow> 'l result"
  assumes insert_law: "rep l xs \<Longrightarrow> rel_sum (=) rep (insert_at cmp l x) (seq_insert cmp xs x)"
begin

lemma insert_ok:
  "rep l xs \<Longrightarrow> x \<notin> set xs \<Longrightarrow> \<exists>l'. insert_at cmp l x = Inr l' \<and> rep l' (insort_cmp cmp x xs)"
  using insert_law [of l xs cmp x] by (cases "insert_at cmp l x") (auto simp: seq_insert_def)

lemma insert_all_ok:
  "rep l xs \<Longrightarrow> distinct (xs @ ys) \<Longrightarrow>
   \<exists>l'. append_all (insert_at cmp) l ys = Inr l' \<and> rep l' (fold (insort_cmp cmp) ys xs)"
proof (induction ys arbitrary: l xs)
  case Nil
  then show ?case by simp
next
  case (Cons y ys)
  then obtain l1 where l1: "insert_at cmp l y = Inr l1" "rep l1 (insort_cmp cmp y xs)"
    using insert_ok [of l xs y cmp] by auto
  then show ?case using Cons.IH [of l1 "insort_cmp cmp y xs"] Cons.prems(2) by auto
qed

text \<open>Inserting items and removing them from the front sorts them.\<close>

lemma insert_sorts:
  assumes "cmp_order cmp" "rep l []" "distinct ys"
  shows "\<exists>l1 zs l2. append_all (insert_at cmp) l ys = Inr l1 \<and>
    drain remove_front (length ys) l1 = Inr (zs, l2) \<and> rep l2 [] \<and> mset zs = mset ys \<and> cmp_sorted cmp zs"
proof -
  let ?zs = "fold (insort_cmp cmp) ys []"
  obtain l1 where l1: "append_all (insert_at cmp) l ys = Inr l1" "rep l1 ?zs"
    using insert_all_ok [of l "[]" ys] assms by auto
  have m: "mset ?zs = mset ys" by simp
  then have "length ?zs = length ys" by (rule mset_eq_length)
  moreover have "cmp_sorted cmp ?zs"
    using fold_insort_cmp_sorted [OF assms(1), of "[]" ys] by (simp add: cmp_sorted_def)
  ultimately show ?thesis using l1 drain_ok [OF l1(2)] m by auto
qed

end

interpretation sseq: sorted_item_list "\<lambda>l xs. l = xs \<and> distinct xs" seq_append seq_prepend
    seq_remove_front seq_remove "\<lambda>l x. Inr (x \<in> set l)" "\<lambda>l. int (length l)" seq_insert
  by unfold_locales (auto simp: seq_insert_def)

end
