(* ===== verification/Linked_List.thy ===== *)
theory Linked_List
  imports Sequence_Spec
begin

text \<open>
  The singly linked lists of \<^verbatim>\<open>lib/list.h\<close> and \<^verbatim>\<open>lib/list.cc\<close> (\<^verbatim>\<open>ListElement\<close>, \<^verbatim>\<open>List\<close>,
  \<^verbatim>\<open>SortedList\<close>, \<^verbatim>\<open>ListIterator\<close>). The elements live in an explicit store, so that the
  pointer updates of the code are visible: a list object owns the elements it allocated, at
  addresses \<open>0, 1, \<dots>\<close> in the order of allocation, and \<^verbatim>\<open>NULL\<close> is \<open>None\<close>. The relation
  \<open>list_rep\<close> connects a list object with the HOL list of its items; every operation is
  shown to implement the corresponding operation on HOL lists, in which form the other
  components use it.
\<close>

section \<open>Objects\<close>

record 'a ListElement =
  le_item :: 'a
  le_next :: "nat option"

record 'a List =
  l_first :: "nat option"
  l_last :: "nat option"
  numInList :: int
  l_store :: "nat \<rightharpoonup> 'a ListElement"
  l_fresh :: nat

definition new_List :: "'a List" where
  "new_List = \<lparr>l_first = None, l_last = None, numInList = 0, l_store = Map.empty, l_fresh = 0\<rparr>"

text \<open>\<^verbatim>\<open>new ListElement<T>(itm)\<close>: a fresh element with a \<^verbatim>\<open>NULL\<close> next pointer.\<close>

definition new_ListElement :: "'a \<Rightarrow> 'a List \<Rightarrow> nat \<times> 'a List" where
  "new_ListElement itm l =
     (l_fresh l, l\<lparr>l_store := (l_store l)(l_fresh l \<mapsto> \<lparr>le_item = itm, le_next = None\<rparr>),
                   l_fresh := Suc (l_fresh l)\<rparr>)"

definition deref :: "'a List \<Rightarrow> nat option \<Rightarrow> 'a ListElement result" where
  "deref l p = (case p of None \<Rightarrow> Inl NullPointer
                | Some a \<Rightarrow> (case l_store l a of None \<Rightarrow> Inl NullPointer | Some e \<Rightarrow> Inr e))"

text \<open>The assignment \<^verbatim>\<open>p->next = q\<close>.\<close>

definition set_next :: "'a List \<Rightarrow> nat option \<Rightarrow> nat option \<Rightarrow> 'a List result" where
  "set_next l p q =
     (case p of None \<Rightarrow> Inl NullPointer
      | Some a \<Rightarrow> rbind (deref l p) (\<lambda>e.
          Inr (l\<lparr>l_store := (l_store l)(a \<mapsto> e\<lparr>le_next := q\<rparr>)\<rparr>)))"

text \<open>\<^verbatim>\<open>delete element\<close>.\<close>

definition delete_elem :: "'a List \<Rightarrow> nat option \<Rightarrow> 'a List" where
  "delete_elem l p = (case p of None \<Rightarrow> l | Some a \<Rightarrow> l\<lparr>l_store := (l_store l)(a := None)\<rparr>)"

definition IsEmpty :: "'a List \<Rightarrow> bool" where
  "IsEmpty l \<longleftrightarrow> numInList l = 0"

definition NumInList :: "'a List \<Rightarrow> int" where
  "NumInList l = numInList l"

definition Front :: "'a List \<Rightarrow> 'a result" where
  "Front l = rbind (deref l (l_first l)) (\<lambda>e. Inr (le_item e))"

section \<open>Loops over the chain of next pointers\<close>

text \<open>
  Every pointer loop gets \<open>Suc (l_fresh l)\<close> units of fuel. A chain that is followed for more
  steps than elements were ever allocated has met an element twice and never ends, so
  running out of fuel is exactly divergence. The representation lemmas below show that
  well-formed lists never run out.
\<close>

fun find_item :: "nat \<Rightarrow> 'a List \<Rightarrow> 'a \<Rightarrow> nat option \<Rightarrow> bool result" where
  "find_item n l item None = Inr False"
| "find_item 0 l item (Some a) = Inl Diverges"
| "find_item (Suc n) l item (Some a) =
     rbind (deref l (Some a)) (\<lambda>e. if item = le_item e then Inr True else find_item n l item (le_next e))"

definition IsInList :: "'a List \<Rightarrow> 'a \<Rightarrow> bool result" where
  "IsInList l item = find_item (Suc (l_fresh l)) l item (l_first l)"

text \<open>\<^verbatim>\<open>Apply\<close> and a \<^verbatim>\<open>ListIterator\<close> both visit the items in list order.\<close>

fun visit_items :: "nat \<Rightarrow> 'a List \<Rightarrow> nat option \<Rightarrow> 'a list result" where
  "visit_items n l None = Inr []"
| "visit_items 0 l (Some a) = Inl Diverges"
| "visit_items (Suc n) l (Some a) =
     rbind (deref l (Some a)) (\<lambda>e. rbind (visit_items n l (le_next e)) (\<lambda>xs. Inr (le_item e # xs)))"

definition Apply :: "'a List \<Rightarrow> 'a list result" where
  "Apply l = visit_items (Suc (l_fresh l)) l (l_first l)"

section \<open>Append, Prepend, RemoveFront, Remove\<close>

definition Append :: "'a List \<Rightarrow> 'a \<Rightarrow> 'a List result" where
  "Append l0 item =
     (let (element, l) = new_ListElement item l0 in
      rbind (IsInList l item) (\<lambda>b. rbind (rassert (\<not> b)) (\<lambda>_.
      rbind (if IsEmpty l then Inr (l\<lparr>l_first := Some element, l_last := Some element\<rparr>)
             else rbind (set_next l (l_last l) (Some element)) (\<lambda>l1.
                  Inr (l1\<lparr>l_last := Some element\<rparr>))) (\<lambda>l2.
      let l3 = l2\<lparr>numInList := numInList l2 + 1\<rparr> in
      rbind (IsInList l3 item) (\<lambda>b. rbind (rassert b) (\<lambda>_. Inr l3))))))"

definition Prepend :: "'a List \<Rightarrow> 'a \<Rightarrow> 'a List result" where
  "Prepend l0 item =
     (let (element, l) = new_ListElement item l0 in
      rbind (IsInList l item) (\<lambda>b. rbind (rassert (\<not> b)) (\<lambda>_.
      rbind (if IsEmpty l then Inr (l\<lparr>l_first := Some element, l_last := Some element\<rparr>)
             else rbind (set_next l (Some element) (l_first l)) (\<lambda>l1.
                  Inr (l1\<lparr>l_first := Some element\<rparr>))) (\<lambda>l2.
      let l3 = l2\<lparr>numInList := numInList l2 + 1\<rparr> in
      rbind (IsInList l3 item) (\<lambda>b. rbind (rassert b) (\<lambda>_. Inr l3))))))"

definition RemoveFront :: "'a List \<Rightarrow> ('a \<times> 'a List) result" where
  "RemoveFront l =
     (let element = l_first l in
      rbind (rassert (\<not> IsEmpty l)) (\<lambda>_.
      rbind (deref l (l_first l)) (\<lambda>e.
      let thing = le_item e;
          l1 = (if l_first l = l_last l then l\<lparr>l_first := None, l_last := None\<rparr>
                else l\<lparr>l_first := le_next e\<rparr>);
          l2 = l1\<lparr>numInList := numInList l1 - 1\<rparr>
      in Inr (thing, delete_elem l2 element))))"

text \<open>The search loop of \<^verbatim>\<open>Remove\<close>, with its \<^verbatim>\<open>prev\<close> and \<^verbatim>\<open>ptr\<close>; \<open>None\<close> as the found pointer
  means the loop ran off the end.\<close>

fun remove_loop :: "nat \<Rightarrow> 'a List \<Rightarrow> 'a \<Rightarrow> nat option \<Rightarrow> nat option \<Rightarrow> ('a List \<times> nat option) result" where
  "remove_loop n l item prev None = Inr (l, None)"
| "remove_loop 0 l item prev (Some p) = Inl Diverges"
| "remove_loop (Suc n) l item prev (Some p) =
     rbind (deref l (Some p)) (\<lambda>e.
     if item = le_item e
     then rbind (set_next l prev (le_next e)) (\<lambda>l1.
          let l2 = (if le_next e = None then l1\<lparr>l_last := prev\<rparr> else l1);
              l3 = delete_elem l2 (Some p)
          in Inr (l3\<lparr>numInList := numInList l3 - 1\<rparr>, Some p))
     else remove_loop n l item (Some p) (le_next e))"

definition Remove :: "'a List \<Rightarrow> 'a \<Rightarrow> 'a List result" where
  "Remove l item =
     rbind (IsInList l item) (\<lambda>b. rbind (rassert b) (\<lambda>_.
     rbind (deref l (l_first l)) (\<lambda>f.
     rbind (if item = le_item f
            then rbind (RemoveFront l) (\<lambda>(removed, l1).
                 rbind (rassert (item = removed)) (\<lambda>_. Inr l1))
            else rbind (remove_loop (Suc (l_fresh l)) l item (l_first l) (le_next f)) (\<lambda>(l1, ptr).
                 rbind (rassert (ptr \<noteq> None)) (\<lambda>_. Inr l1))) (\<lambda>l2.
     rbind (IsInList l2 item) (\<lambda>b2. rbind (rassert (\<not> b2)) (\<lambda>_. Inr l2))))))"

section \<open>SortedList::Insert and SanityCheck\<close>

text \<open>The loop that looks for the first element bigger than the new one; it returns whether it
  linked the element in.\<close>

fun insert_loop :: "nat \<Rightarrow> ('a \<Rightarrow> 'a \<Rightarrow> int) \<Rightarrow> 'a List \<Rightarrow> 'a \<Rightarrow> nat \<Rightarrow> nat option \<Rightarrow> ('a List \<times> bool) result" where
  "insert_loop 0 cmp l item element ptr = Inl Diverges"
| "insert_loop (Suc n) cmp l item element ptr =
     rbind (deref l ptr) (\<lambda>e.
     case le_next e of None \<Rightarrow> Inr (l, False)
     | Some q \<Rightarrow> rbind (deref l (Some q)) (\<lambda>eq.
         if cmp item (le_item eq) < 0
         then rbind (set_next l (Some element) (Some q)) (\<lambda>l1.
              rbind (set_next l1 ptr (Some element)) (\<lambda>l2.
              Inr (l2\<lparr>numInList := numInList l2 + 1\<rparr>, True)))
         else insert_loop n cmp l item element (Some q)))"

definition Insert :: "('a \<Rightarrow> 'a \<Rightarrow> int) \<Rightarrow> 'a List \<Rightarrow> 'a \<Rightarrow> 'a List result" where
  "Insert cmp l0 item =
     (let (element, l) = new_ListElement item l0;
          finish = (\<lambda>l2. let l3 = l2\<lparr>numInList := numInList l2 + 1\<rparr> in
                    rbind (IsInList l3 item) (\<lambda>b. rbind (rassert b) (\<lambda>_. Inr l3)))
      in
      rbind (IsInList l item) (\<lambda>b. rbind (rassert (\<not> b)) (\<lambda>_.
      if IsEmpty l then finish (l\<lparr>l_first := Some element, l_last := Some element\<rparr>)
      else rbind (deref l (l_first l)) (\<lambda>f.
        if cmp item (le_item f) < 0
        then rbind (set_next l (Some element) (l_first l)) (\<lambda>l1.
             finish (l1\<lparr>l_first := Some element\<rparr>))
        else rbind (insert_loop (Suc (l_fresh l)) cmp l item element (l_first l)) (\<lambda>(l1, done).
             if done then Inr l1
             else rbind (set_next l1 (l_last l1) (Some element)) (\<lambda>l2.
                  finish (l2\<lparr>l_last := Some element\<rparr>)))))))"

fun count_to_last :: "nat \<Rightarrow> 'a List \<Rightarrow> int \<Rightarrow> nat option \<Rightarrow> int result" where
  "count_to_last 0 l numFound ptr = Inl Diverges"
| "count_to_last (Suc n) l numFound ptr =
     (if ptr = l_last l then Inr numFound
      else rbind (rassert (numFound + 1 \<le> numInList l)) (\<lambda>_.
           rbind (deref l ptr) (\<lambda>e. count_to_last n l (numFound + 1) (le_next e))))"

definition SanityCheck :: "'a List \<Rightarrow> unit result" where
  "SanityCheck l =
     (if l_first l = None then rassert (numInList l = 0 \<and> l_last l = None)
      else if l_first l = l_last l
      then rbind (deref l (l_last l)) (\<lambda>e. rassert (numInList l = 1 \<and> le_next e = None))
      else rbind (count_to_last (Suc (l_fresh l)) l 1 (l_first l)) (\<lambda>numFound.
           rbind (rassert (numFound = numInList l)) (\<lambda>_.
           rbind (deref l (l_last l)) (\<lambda>e. rassert (le_next e = None)))))"

fun sorted_check :: "nat \<Rightarrow> ('a \<Rightarrow> 'a \<Rightarrow> int) \<Rightarrow> 'a List \<Rightarrow> 'a \<Rightarrow> nat option \<Rightarrow> unit result" where
  "sorted_check n cmp l prev None = Inr ()"
| "sorted_check 0 cmp l prev (Some p) = Inl Diverges"
| "sorted_check (Suc n) cmp l prev (Some p) =
     rbind (deref l (Some p)) (\<lambda>e. rbind (rassert (cmp prev (le_item e) \<le> 0)) (\<lambda>_.
     sorted_check n cmp l (le_item e) (le_next e)))"

definition SanityCheck_Sorted :: "('a \<Rightarrow> 'a \<Rightarrow> int) \<Rightarrow> 'a List \<Rightarrow> unit result" where
  "SanityCheck_Sorted cmp l =
     rbind (SanityCheck l) (\<lambda>_.
     if l_first l \<noteq> l_last l
     then rbind (deref l (l_first l)) (\<lambda>f.
          sorted_check (Suc (l_fresh l)) cmp l (le_item f) (le_next f))
     else Inr ())"

text \<open>
  The self tests: the array of \<^verbatim>\<open>numEntries\<close> items is the list \<open>p\<close>. \<^verbatim>\<open>List::SelfTest\<close> calls the
  virtual methods \<^verbatim>\<open>Append\<close> and \<^verbatim>\<open>SanityCheck\<close>, which a \<^verbatim>\<open>SortedList\<close> overrides by \<^verbatim>\<open>Insert\<close>
  and its own \<^verbatim>\<open>SanityCheck\<close>: they are the parameters \<open>app\<close> and \<open>check\<close>. The iterator over the
  empty list must not reach its body.
\<close>

fun append_each :: "('a List \<Rightarrow> 'a \<Rightarrow> 'a List result) \<Rightarrow> 'a List \<Rightarrow> 'a list \<Rightarrow> 'a List result" where
  "append_each app l [] = Inr l"
| "append_each app l (x # p) =
     rbind (app l x) (\<lambda>l1. rbind (IsInList l1 x) (\<lambda>b. rbind (rassert b) (\<lambda>_.
     rbind (rassert (\<not> IsEmpty l1)) (\<lambda>_. append_each app l1 p))))"

fun remove_each :: "'a List \<Rightarrow> 'a list \<Rightarrow> 'a List result" where
  "remove_each l [] = Inr l"
| "remove_each l (x # p) =
     rbind (Remove l x) (\<lambda>l1. rbind (IsInList l1 x) (\<lambda>b. rbind (rassert (\<not> b)) (\<lambda>_. remove_each l1 p)))"

definition SelfTest_List ::
  "('a List \<Rightarrow> 'a \<Rightarrow> 'a List result) \<Rightarrow> ('a List \<Rightarrow> unit result) \<Rightarrow> 'a List \<Rightarrow> 'a list \<Rightarrow> 'a List result" where
  "SelfTest_List app check l p =
     rbind (check l) (\<lambda>_.
     rbind (rassert (IsEmpty l \<and> l_first l = None)) (\<lambda>_.
     rbind (Apply l) (\<lambda>visited. rbind (rassert (visited = [])) (\<lambda>_.
     rbind (append_each app l p) (\<lambda>l1.
     rbind (check l1) (\<lambda>_.
     rbind (remove_each l1 p) (\<lambda>l2.
     rbind (rassert (IsEmpty l2)) (\<lambda>_.
     rbind (check l2) (\<lambda>_. Inr l2)))))))))"

fun insert_each :: "('a \<Rightarrow> 'a \<Rightarrow> int) \<Rightarrow> 'a List \<Rightarrow> 'a list \<Rightarrow> 'a List result" where
  "insert_each cmp l [] = Inr l"
| "insert_each cmp l (x # p) =
     rbind (Insert cmp l x) (\<lambda>l1. rbind (IsInList l1 x) (\<lambda>b. rbind (rassert b) (\<lambda>_. insert_each cmp l1 p)))"

fun drain_each :: "nat \<Rightarrow> 'a List \<Rightarrow> ('a list \<times> 'a List) result" where
  "drain_each 0 l = Inr ([], l)"
| "drain_each (Suc n) l =
     rbind (RemoveFront l) (\<lambda>(x, l1). rbind (IsInList l1 x) (\<lambda>b. rbind (rassert (\<not> b)) (\<lambda>_.
     rbind (drain_each n l1) (\<lambda>(q, l2). Inr (x # q, l2)))))"

fun check_order :: "('a \<Rightarrow> 'a \<Rightarrow> int) \<Rightarrow> 'a list \<Rightarrow> unit result" where
  "check_order cmp (x # y # q) = rbind (rassert (cmp x y \<le> 0)) (\<lambda>_. check_order cmp (y # q))"
| "check_order cmp q = Inr ()"

definition SelfTest_Sorted :: "('a \<Rightarrow> 'a \<Rightarrow> int) \<Rightarrow> 'a List \<Rightarrow> 'a list \<Rightarrow> 'a List result" where
  "SelfTest_Sorted cmp l p =
     rbind (SelfTest_List (Insert cmp) (SanityCheck_Sorted cmp) l p) (\<lambda>l1.
     rbind (insert_each cmp l1 p) (\<lambda>l2.
     rbind (SanityCheck_Sorted cmp l2) (\<lambda>_.
     rbind (drain_each (length p) l2) (\<lambda>(q, l3).
     rbind (rassert (IsEmpty l3)) (\<lambda>_.
     rbind (check_order cmp q) (\<lambda>_.
     rbind (SanityCheck_Sorted cmp l3) (\<lambda>_. Inr l3)))))))"

section \<open>Paths through the store\<close>

fun path :: "(nat \<rightharpoonup> 'a ListElement) \<Rightarrow> nat option \<Rightarrow> (nat \<times> 'a) list \<Rightarrow> nat option \<Rightarrow> bool" where
  "path st p [] q \<longleftrightarrow> p = q"
| "path st p ((a, x) # ns) q \<longleftrightarrow>
     p = Some a \<and> (\<exists>n. st a = Some \<lparr>le_item = x, le_next = n\<rparr> \<and> path st n ns q)"

lemma path_append [simp]:
  "path st p (ms @ ns) q \<longleftrightarrow> (\<exists>r. path st p ms r \<and> path st r ns q)"
proof (induction ms arbitrary: p)
  case Nil
  then show ?case by simp
next
  case (Cons ax ms)
  then show ?case by (cases ax) (simp, blast)
qed

lemma path_upd [simp]:
  "a \<notin> fst ` set ns \<Longrightarrow> path (st(a := v)) p ns q = path st p ns q"
  by (induction ns arbitrary: p) auto

lemma path_None [simp]: "path st None ns q \<longleftrightarrow> ns = [] \<and> q = None"
  by (cases ns) auto

text \<open>\<open>list_nodes l ns\<close>: the chain from \<^verbatim>\<open>first\<close> consists of the (address, item) pairs \<open>ns\<close>.\<close>

definition list_nodes :: "'a List \<Rightarrow> (nat \<times> 'a) list \<Rightarrow> bool" where
  "list_nodes l ns \<longleftrightarrow> path (l_store l) (l_first l) ns None \<and> distinct (map fst ns) \<and>
     distinct (map snd ns) \<and> l_last l = (if ns = [] then None else Some (fst (last ns))) \<and>
     numInList l = int (length ns) \<and> (\<forall>a \<in> fst ` set ns. a < l_fresh l)"

definition list_rep :: "'a List \<Rightarrow> 'a list \<Rightarrow> bool" where
  "list_rep l xs \<longleftrightarrow> (\<exists>ns. list_nodes l ns \<and> xs = map snd ns)"

lemma list_nodes_length: "list_nodes l ns \<Longrightarrow> length ns \<le> l_fresh l"
proof -
  assume a: "list_nodes l ns"
  then have "set (map fst ns) \<subseteq> {..<l_fresh l}" by (auto simp: list_nodes_def)
  then have "card (set (map fst ns)) \<le> card {..<l_fresh l}" by (intro card_mono) auto
  moreover have "card (set (map fst ns)) = length ns"
    using a distinct_card [of "map fst ns"] by (simp add: list_nodes_def)
  ultimately show ?thesis by simp
qed

lemma list_nodes_fresh: "list_nodes l ns \<Longrightarrow> l_fresh l \<notin> fst ` set ns"
  by (auto simp: list_nodes_def)

section \<open>The pointer loops on well-formed lists\<close>

lemma find_item_path:
  "path (l_store l) p ns None \<Longrightarrow> length ns \<le> n \<Longrightarrow>
   find_item n l x p = Inr (x \<in> snd ` set ns)"
proof (induction ns arbitrary: p n)
  case Nil
  then show ?case by simp
next
  case (Cons ax ns)
  then obtain m where "n = Suc m" by (cases n) auto
  then show ?case using Cons by (cases ax) (auto simp: deref_def)
qed

lemma visit_items_path:
  "path (l_store l) p ns None \<Longrightarrow> length ns \<le> n \<Longrightarrow> visit_items n l p = Inr (map snd ns)"
proof (induction ns arbitrary: p n)
  case Nil
  then show ?case by simp
next
  case (Cons ax ns)
  then obtain m where "n = Suc m" by (cases n) auto
  then show ?case using Cons by (cases ax) (auto simp: deref_def)
qed

lemma IsInList_nodes: "list_nodes l ns \<Longrightarrow> IsInList l x = Inr (x \<in> snd ` set ns)"
  using list_nodes_length [of l ns]
  by (auto simp: IsInList_def list_nodes_def intro!: find_item_path)

lemma Apply_nodes: "list_nodes l ns \<Longrightarrow> Apply l = Inr (map snd ns)"
  using list_nodes_length [of l ns]
  by (auto simp: Apply_def list_nodes_def intro!: visit_items_path)

lemma new_ListElement_nodes:
  assumes "list_nodes l0 ns"
  shows "new_ListElement x l0 = (a, l) \<Longrightarrow>
    a = l_fresh l0 \<and> list_nodes l ns \<and> l_store l a = Some \<lparr>le_item = x, le_next = None\<rparr> \<and>
    l_fresh l = Suc a \<and> a \<notin> fst ` set ns"
  using assms list_nodes_fresh [OF assms]
  by (auto simp: new_ListElement_def list_nodes_def)

section \<open>Append and Prepend\<close>

text \<open>A fresh element \<open>a\<close> holding \<open>x\<close>, not yet linked into the chain \<open>ns\<close>.\<close>

definition unlinked :: "'a List \<Rightarrow> (nat \<times> 'a) list \<Rightarrow> nat \<Rightarrow> 'a \<Rightarrow> bool" where
  "unlinked l ns a x \<longleftrightarrow> list_nodes l ns \<and> l_store l a = Some \<lparr>le_item = x, le_next = None\<rparr> \<and>
     a \<notin> fst ` set ns \<and> x \<notin> snd ` set ns \<and> a < l_fresh l"

lemma unlinked_new:
  assumes "list_nodes l0 ns" "x \<notin> snd ` set ns"
  obtains l where "new_ListElement x l0 = (l_fresh l0, l)" "unlinked l ns (l_fresh l0) x"
    "IsInList l x = Inr False"
proof -
  obtain a l where new: "new_ListElement x l0 = (a, l)" by force
  note n = new_ListElement_nodes [OF assms(1) new]
  then have "unlinked l ns a x" "a = l_fresh l0" using assms(2) by (auto simp: unlinked_def)
  moreover have "IsInList l x = Inr False" using IsInList_nodes [of l ns x] n assms(2) by simp
  ultimately show thesis using that new by simp
qed

lemma link_at_end:
  assumes u: "unlinked l ns a x" and ne: "ns \<noteq> []"
  shows "\<exists>l3. set_next l (l_last l) (Some a) = Inr l3 \<and>
           list_nodes (l3\<lparr>l_last := Some a, numInList := numInList l3 + 1\<rparr>) (ns @ [(a, x)])"
proof (cases ns rule: rev_cases)
  case Nil
  then show ?thesis using ne by simp
next
  case (snoc ms cz)
  obtain c z where "cz = (c, z)" by force
  then show ?thesis using u snoc
    by (auto simp: unlinked_def list_nodes_def set_next_def deref_def)
qed

lemma link_only:
  "unlinked l [] a x \<Longrightarrow>
   list_nodes (l\<lparr>l_first := Some a, l_last := Some a, numInList := numInList l + 1\<rparr>) [(a, x)]"
  by (simp add: unlinked_def list_nodes_def)

lemma link_in_front:
  assumes "unlinked l ns a x" "ns \<noteq> []"
  shows "\<exists>l1. set_next l (Some a) (l_first l) = Inr l1 \<and>
           list_nodes (l1\<lparr>l_first := Some a, numInList := numInList l1 + 1\<rparr>) ((a, x) # ns)"
  using assms by (auto simp: unlinked_def list_nodes_def set_next_def deref_def)

lemma IsEmpty_nodes: "list_nodes l ns \<Longrightarrow> IsEmpty l \<longleftrightarrow> ns = []"
  by (simp add: list_nodes_def IsEmpty_def)

text \<open>The closing assertion \<^verbatim>\<open>ASSERT(IsInList(item))\<close>.\<close>

lemma assert_in_list:
  "list_nodes l ms \<Longrightarrow> x \<in> snd ` set ms \<Longrightarrow>
   rbind (IsInList l x) (\<lambda>b. rbind (rassert b) (\<lambda>_. Inr l)) = Inr l"
  using IsInList_nodes [of l ms x] by simp

lemma Append_nodes:
  assumes ln: "list_nodes l0 ns" and x: "x \<notin> snd ` set ns"
  shows "\<exists>l. Append l0 x = Inr l \<and> list_nodes l (ns @ [(l_fresh l0, x)])"
proof -
  let ?a = "l_fresh l0"
  obtain l where new: "new_ListElement x l0 = (?a, l)" and u: "unlinked l ns ?a x"
      and notin: "IsInList l x = Inr False"
    using unlinked_new [OF ln x] by blast
  have e: "IsEmpty l \<longleftrightarrow> ns = []" using IsEmpty_nodes [of l ns] u by (simp add: unlinked_def)
  show ?thesis
  proof (cases "ns = []")
    case True
    have n: "list_nodes (l\<lparr>l_first := Some ?a, l_last := Some ?a, numInList := numInList l + 1\<rparr>) [(?a, x)]"
      using link_only u True by auto
    show ?thesis using True e notin n assert_in_list [OF n, of x] by (simp add: Append_def new Let_def)
  next
    case False
    obtain l3 where l3: "set_next l (l_last l) (Some ?a) = Inr l3"
        "list_nodes (l3\<lparr>l_last := Some ?a, numInList := numInList l3 + 1\<rparr>) (ns @ [(?a, x)])"
      using link_at_end [OF u False] by blast
    show ?thesis using False e notin l3 assert_in_list [OF l3(2), of x]
      by (simp add: Append_def new Let_def)
  qed
qed

lemma Prepend_nodes:
  assumes ln: "list_nodes l0 ns" and x: "x \<notin> snd ` set ns"
  shows "\<exists>l. Prepend l0 x = Inr l \<and> list_nodes l ((l_fresh l0, x) # ns)"
proof -
  let ?a = "l_fresh l0"
  obtain l where new: "new_ListElement x l0 = (?a, l)" and u: "unlinked l ns ?a x"
      and notin: "IsInList l x = Inr False"
    using unlinked_new [OF ln x] by blast
  have e: "IsEmpty l \<longleftrightarrow> ns = []" using IsEmpty_nodes [of l ns] u by (simp add: unlinked_def)
  show ?thesis
  proof (cases "ns = []")
    case True
    have n: "list_nodes (l\<lparr>l_first := Some ?a, l_last := Some ?a, numInList := numInList l + 1\<rparr>) [(?a, x)]"
      using link_only u True by auto
    show ?thesis using True e notin n assert_in_list [OF n, of x] by (simp add: Prepend_def new Let_def)
  next
    case False
    obtain l1 where l1: "set_next l (Some ?a) (l_first l) = Inr l1"
        "list_nodes (l1\<lparr>l_first := Some ?a, numInList := numInList l1 + 1\<rparr>) ((?a, x) # ns)"
      using link_in_front [OF u False] by blast
    show ?thesis using False e notin l1 assert_in_list [OF l1(2), of x]
      by (simp add: Prepend_def new Let_def)
  qed
qed

lemma Append_duplicate:
  assumes "list_nodes l0 ns" and "x \<in> snd ` set ns"
  shows "Append l0 x = Inl AssertFailed" and "Prepend l0 x = Inl AssertFailed"
proof -
  obtain a l where new: "new_ListElement x l0 = (a, l)" by force
  have "IsInList l x = Inr True"
    using IsInList_nodes [of l ns x] new_ListElement_nodes [OF assms(1) new] assms(2) by simp
  then show "Append l0 x = Inl AssertFailed" and "Prepend l0 x = Inl AssertFailed"
    by (simp_all add: Append_def Prepend_def new)
qed

section \<open>RemoveFront and Remove\<close>

lemma RemoveFront_nodes:
  assumes "list_nodes l ((a, x) # ns)"
  shows "\<exists>l'. RemoveFront l = Inr (x, l') \<and> list_nodes l' ns \<and> l_fresh l' = l_fresh l"
proof (cases ns)
  case Nil
  then show ?thesis using assms
    by (auto simp: RemoveFront_def list_nodes_def IsEmpty_def deref_def delete_elem_def Let_def)
next
  case (Cons bz ms)
  have "last ns \<in> set ns" using Cons by simp
  then have "fst (last ns) \<noteq> a" using assms by (auto simp: list_nodes_def)
  then show ?thesis using assms Cons
    by (auto simp: RemoveFront_def list_nodes_def IsEmpty_def deref_def delete_elem_def Let_def)
qed

lemma RemoveFront_empty: "list_nodes l [] \<Longrightarrow> RemoveFront l = Inl AssertFailed"
  by (simp add: RemoveFront_def list_nodes_def IsEmpty_def Let_def)

lemma remove_loop_hit:
  assumes ln: "list_nodes l (ms @ (b, y) # (p, x) # r2)"
    and b: "l_store l b = Some \<lparr>le_item = y, le_next = Some p\<rparr>"
  shows "\<exists>l'. remove_loop (Suc n) l x (Some b) (Some p) = Inr (l', Some p) \<and>
           list_nodes l' (ms @ (b, y) # r2)"
proof -
  obtain q where p: "l_store l p = Some \<lparr>le_item = x, le_next = q\<rparr>" and q: "path (l_store l) q r2 None"
    using ln by (auto simp: list_nodes_def)
  have dist: "b \<noteq> p" "p \<notin> fst ` set ms" "p \<notin> fst ` set r2" "b \<notin> fst ` set ms" "b \<notin> fst ` set r2"
    using ln by (auto simp: list_nodes_def)
  define l' where "l' = l\<lparr>l_store := (l_store l)(b \<mapsto> \<lparr>le_item = y, le_next = q\<rparr>, p := None),
    l_last := if q = None then Some b else l_last l, numInList := numInList l - 1\<rparr>"
  have "remove_loop (Suc n) l x (Some b) (Some p) = Inr (l', Some p)"
    using b p by (simp add: deref_def set_next_def delete_elem_def Let_def l'_def)
  moreover have "q = None \<longleftrightarrow> r2 = []" using q by (cases r2) auto
  then have "list_nodes l' (ms @ (b, y) # r2)"
    using ln b dist q by (auto simp: list_nodes_def l'_def)
  ultimately show ?thesis by blast
qed

lemma remove_loop_nodes:
  assumes "list_nodes l (ms @ (b, y) # r1 @ (p, x) # r2)" "length r1 < n"
    "l_store l b = Some \<lparr>le_item = y, le_next = ptr\<rparr>"
  shows "\<exists>l'. remove_loop n l x (Some b) ptr = Inr (l', Some p) \<and>
           list_nodes l' (ms @ (b, y) # r1 @ r2)"
  using assms
proof (induction r1 arbitrary: ms b y n ptr)
  case Nil
  then have "ptr = Some p" by (auto simp: list_nodes_def)
  moreover obtain m where "n = Suc m" using Nil by (cases n) auto
  ultimately show ?case using remove_loop_hit Nil by auto
next
  case (Cons cz r1)
  obtain c z where cz: "cz = (c, z)" by force
  obtain m where m: "n = Suc m" using Cons.prems(2) by (cases n) auto
  obtain q where q: "ptr = Some c" "l_store l c = Some \<lparr>le_item = z, le_next = q\<rparr>"
    using Cons.prems cz by (auto simp: list_nodes_def)
  have "z \<noteq> x" using Cons.prems cz by (auto simp: list_nodes_def)
  moreover have "\<exists>l'. remove_loop m l x (Some c) q = Inr (l', Some p) \<and>
      list_nodes l' ((ms @ [(b, y)]) @ (c, z) # r1 @ r2)"
    using Cons.IH [of "ms @ [(b, y)]" c z m q] Cons.prems cz q m by simp
  ultimately show ?case using q m cz by (auto simp: deref_def)
qed

lemma Remove_nodes:
  assumes ln: "list_nodes l (r1 @ (p, x) # r2)"
  shows "\<exists>l'. Remove l x = Inr l' \<and> list_nodes l' (r1 @ r2)"
proof (cases r1)
  case Nil
  obtain l' where l': "RemoveFront l = Inr (x, l')" "list_nodes l' r2"
    using RemoveFront_nodes ln Nil by force
  have "x \<notin> snd ` set r2" using ln Nil by (simp add: list_nodes_def)
  then have "IsInList l' x = Inr False" using IsInList_nodes [OF l'(2), of x] by simp
  then have "Remove l x = Inr l'"
    using l' ln Nil IsInList_nodes [OF ln, of x]
    by (auto simp: Remove_def list_nodes_def deref_def)
  then show ?thesis using l' Nil by simp
next
  case (Cons bz ms)
  obtain b y where bz: "bz = (b, y)" by force
  obtain ptr where b: "l_first l = Some b" "l_store l b = Some \<lparr>le_item = y, le_next = ptr\<rparr>"
    using ln Cons bz by (auto simp: list_nodes_def)
  have "length ms < Suc (l_fresh l)" using list_nodes_length [OF ln] Cons by simp
  then obtain l' where l': "remove_loop (Suc (l_fresh l)) l x (Some b) ptr = Inr (l', Some p)"
      "list_nodes l' (r1 @ r2)"
    using remove_loop_nodes [of l "[]" b y ms p x r2 _ ptr] ln Cons bz b by auto
  have "x \<notin> snd ` set (r1 @ r2)" using ln by (auto simp: list_nodes_def image_Un)
  then have "IsInList l' x = Inr False" using IsInList_nodes [OF l'(2), of x] by simp
  moreover have "x \<noteq> y" using ln Cons bz by (auto simp: list_nodes_def)
  ultimately have "Remove l x = Inr l'"
    using l'(1) b IsInList_nodes [OF ln, of x] by (simp add: Remove_def deref_def)
  then show ?thesis using l' by blast
qed

section \<open>Insert into a sorted list\<close>

text \<open>Linking the fresh element \<open>a\<close> in behind the element \<open>b\<close>.\<close>

lemma link_after:
  assumes ln: "list_nodes l (ms @ (b, y) # (q, z) # r)"
    and b: "l_store l b = Some \<lparr>le_item = y, le_next = Some q\<rparr>"
    and a: "l_store l a = Some \<lparr>le_item = x, le_next = None\<rparr>"
    and fresh: "a \<notin> fst ` set (ms @ (b, y) # (q, z) # r)" "x \<notin> snd ` set (ms @ (b, y) # (q, z) # r)"
      "a < l_fresh l"
  shows "list_nodes (l\<lparr>l_store := (l_store l)(a \<mapsto> \<lparr>le_item = x, le_next = Some q\<rparr>,
            b \<mapsto> \<lparr>le_item = y, le_next = Some a\<rparr>), numInList := numInList l + 1\<rparr>)
          (ms @ (b, y) # (a, x) # (q, z) # r)"
proof -
  have "b \<notin> fst ` set ms" "b \<noteq> q" "b \<notin> fst ` set r" "q \<notin> fst ` set r"
    using ln by (auto simp: list_nodes_def)
  moreover have "a \<notin> fst ` set ms" "a \<notin> fst ` set r" using fresh by auto
  ultimately show ?thesis using ln b fresh by (auto simp: list_nodes_def)
qed

lemma insert_loop_nodes:
  assumes "list_nodes l (ms @ (b, y) # r)" "length r < n"
    "l_store l b = Some \<lparr>le_item = y, le_next = ptr\<rparr>"
    "l_store l a = Some \<lparr>le_item = x, le_next = None\<rparr>"
    "a \<notin> fst ` set (ms @ (b, y) # r)" "x \<notin> snd ` set (ms @ (b, y) # r)" "a < l_fresh l"
  shows "if \<forall>z \<in> snd ` set r. \<not> cmp x z < 0
         then insert_loop n cmp l x a (Some b) = Inr (l, False)
         else \<exists>l' ns. insert_loop n cmp l x a (Some b) = Inr (l', True) \<and> list_nodes l' ns \<and>
                map snd ns = map snd (ms @ [(b, y)]) @ insort_cmp cmp x (map snd r)"
  using assms
proof (induction r arbitrary: ms b y n ptr)
  case Nil
  then show ?case by (cases n) (auto simp: list_nodes_def deref_def)
next
  case (Cons qz r)
  obtain q z where qz: "qz = (q, z)" by force
  obtain m where m: "n = Suc m" using Cons.prems(2) by (cases n) auto
  obtain q2 where q: "ptr = Some q" "l_store l q = Some \<lparr>le_item = z, le_next = q2\<rparr>"
    using Cons.prems(1,3) qz by (auto simp: list_nodes_def)
  show ?case
  proof (cases "cmp x z < 0")
    case True
    let ?l = "l\<lparr>l_store := (l_store l)(a \<mapsto> \<lparr>le_item = x, le_next = Some q\<rparr>,
            b \<mapsto> \<lparr>le_item = y, le_next = Some a\<rparr>), numInList := numInList l + 1\<rparr>"
    have ab: "a \<noteq> b" using Cons.prems(5) by auto
    have "list_nodes ?l (ms @ (b, y) # (a, x) # (q, z) # r)"
      using link_after [of l ms b y q z r a x] Cons.prems q qz by simp
    moreover have "insert_loop n cmp l x a (Some b) = Inr (?l, True)"
      using True m q Cons.prems(3,4) ab by (simp add: deref_def set_next_def)
    ultimately have "\<exists>l' ns. insert_loop n cmp l x a (Some b) = Inr (l', True) \<and> list_nodes l' ns \<and>
        map snd ns = map snd (ms @ [(b, y)]) @ insort_cmp cmp x (map snd (qz # r))"
      using True qz by (intro exI [of _ ?l] exI [of _ "ms @ (b, y) # (a, x) # (q, z) # r"]) simp
    then show ?thesis using True qz by auto
  next
    case False
    then have "insert_loop n cmp l x a (Some b) = insert_loop m cmp l x a (Some q)"
      using m q Cons.prems(3) by (simp add: deref_def)
    moreover have "if \<forall>z \<in> snd ` set r. \<not> cmp x z < 0
         then insert_loop m cmp l x a (Some q) = Inr (l, False)
         else \<exists>l' ns. insert_loop m cmp l x a (Some q) = Inr (l', True) \<and> list_nodes l' ns \<and>
                map snd ns = map snd ((ms @ [(b, y)]) @ [(q, z)]) @ insort_cmp cmp x (map snd r)"
      using Cons.IH [of "ms @ [(b, y)]" q z m q2] Cons.prems q m qz by simp
    ultimately show ?thesis using False qz
      by (auto simp del: insert_loop.simps split: if_splits)
  qed
qed

lemma insert_behind_first:
  assumes u: "unlinked l ((b, y) # r) a x" and y: "\<not> cmp x y < 0"
  shows "\<exists>l' ms. rbind (insert_loop (Suc (l_fresh l)) cmp l x a (l_first l)) (\<lambda>(l1, done).
            if done then Inr l1
            else rbind (set_next l1 (l_last l1) (Some a)) (\<lambda>l2.
              let l3 = l2\<lparr>l_last := Some a, numInList := numInList (l2\<lparr>l_last := Some a\<rparr>) + 1\<rparr> in
              rbind (IsInList l3 x) (\<lambda>b. rbind (rassert b) (\<lambda>_. Inr l3)))) = Inr l' \<and>
          list_nodes l' ms \<and> map snd ms = insort_cmp cmp x (map snd ((b, y) # r))"
proof -
  have nodes0: "list_nodes l ([] @ (b, y) # r)" using u by (simp add: unlinked_def)
  obtain ptr where b: "l_first l = Some b" "l_store l b = Some \<lparr>le_item = y, le_next = ptr\<rparr>"
    using nodes0 by (auto simp: list_nodes_def)
  have len: "length r < Suc (l_fresh l)" using list_nodes_length [OF nodes0] by simp
  have loop: "if \<forall>z \<in> snd ` set r. \<not> cmp x z < 0
     then insert_loop (Suc (l_fresh l)) cmp l x a (Some b) = Inr (l, False)
     else \<exists>l' ns. insert_loop (Suc (l_fresh l)) cmp l x a (Some b) = Inr (l', True) \<and> list_nodes l' ns \<and>
            map snd ns = map snd ([] @ [(b, y)]) @ insort_cmp cmp x (map snd r)"
    using insert_loop_nodes [OF nodes0 len b(2), of a x cmp] u by (simp add: unlinked_def)
  show ?thesis
  proof (cases "\<forall>z \<in> snd ` set r. \<not> cmp x z < 0")
    case True
    obtain l3 where l3: "set_next l (l_last l) (Some a) = Inr l3"
        "list_nodes (l3\<lparr>l_last := Some a, numInList := numInList l3 + 1\<rparr>) (((b, y) # r) @ [(a, x)])"
      using link_at_end [OF u] by blast
    have "insert_loop (Suc (l_fresh l)) cmp l x a (l_first l) = Inr (l, False)"
      using loop True b(1) by simp
    moreover have "insort_cmp cmp x (map snd ((b, y) # r)) = map snd ((b, y) # r) @ [x]"
      using insort_cmp_append [of "map snd ((b, y) # r)" cmp x "[]"] True y by simp
    ultimately show ?thesis using l3 assert_in_list [OF l3(2), of x]
      by (intro exI [of _ "l3\<lparr>l_last := Some a, numInList := numInList l3 + 1\<rparr>"]
          exI [of _ "((b, y) # r) @ [(a, x)]"]) (simp add: Let_def del: insert_loop.simps)
  next
    case False
    then obtain l' ms where l': "insert_loop (Suc (l_fresh l)) cmp l x a (l_first l) = Inr (l', True)"
        "list_nodes l' ms" "map snd ms = map snd ([] @ [(b, y)]) @ insort_cmp cmp x (map snd r)"
      using loop b(1) by (auto simp del: insert_loop.simps split: if_splits)
    then show ?thesis using y
      by (intro exI [of _ l'] exI [of _ ms]) (simp del: insert_loop.simps)
  qed
qed

lemma Insert_nodes:
  assumes ln: "list_nodes l0 ns" and x: "x \<notin> snd ` set ns"
  shows "\<exists>l ms. Insert cmp l0 x = Inr l \<and> list_nodes l ms \<and> map snd ms = insort_cmp cmp x (map snd ns)"
proof -
  let ?a = "l_fresh l0"
  obtain l where new: "new_ListElement x l0 = (?a, l)" and u: "unlinked l ns ?a x"
      and notin: "IsInList l x = Inr False"
    using unlinked_new [OF ln x] by blast
  have e: "IsEmpty l \<longleftrightarrow> ns = []" using IsEmpty_nodes [of l ns] u by (simp add: unlinked_def)
  show ?thesis
  proof (cases ns)
    case Nil
    have n: "list_nodes (l\<lparr>l_first := Some ?a, l_last := Some ?a, numInList := numInList l + 1\<rparr>) [(?a, x)]"
      using link_only u Nil by auto
    show ?thesis using Nil e notin n assert_in_list [OF n, of x]
      by (auto simp: Insert_def new Let_def intro!: exI [of _ "[(?a, x)]"])
  next
    case (Cons bz r)
    obtain b y where bz: "bz = (b, y)" by force
    have f: "\<exists>e. deref l (l_first l) = Inr e \<and> le_item e = y"
      using u Cons bz by (auto simp: unlinked_def list_nodes_def deref_def)
    show ?thesis
    proof (cases "cmp x y < 0")
      case True
      obtain l1 where l1: "set_next l (Some ?a) (l_first l) = Inr l1"
          "list_nodes (l1\<lparr>l_first := Some ?a, numInList := numInList l1 + 1\<rparr>) ((?a, x) # ns)"
        using link_in_front [OF u] Cons by auto
      then show ?thesis using True Cons bz e notin f assert_in_list [OF l1(2), of x]
        by (auto simp: Insert_def new Let_def intro!: exI [of _ "(?a, x) # ns"])
    next
      case False
      have ub: "unlinked l ((b, y) # r) ?a x" using u Cons bz by simp
      obtain l' ms where l': "rbind (insert_loop (Suc (l_fresh l)) cmp l x ?a (l_first l)) (\<lambda>(l1, done).
            if done then Inr l1
            else rbind (set_next l1 (l_last l1) (Some ?a)) (\<lambda>l2.
              let l3 = l2\<lparr>l_last := Some ?a, numInList := numInList (l2\<lparr>l_last := Some ?a\<rparr>) + 1\<rparr> in
              rbind (IsInList l3 x) (\<lambda>b. rbind (rassert b) (\<lambda>_. Inr l3)))) = Inr l'"
          "list_nodes l' ms" "map snd ms = insort_cmp cmp x (map snd ((b, y) # r))"
        using insert_behind_first [of l b y r ?a x cmp, OF ub False] by blast
      obtain e where e: "deref l (l_first l) = Inr e" "le_item e = y" using f by blast
      have "Insert cmp l0 x = Inr l'"
        using l'(1) e False notin \<open>IsEmpty l \<longleftrightarrow> ns = []\<close> Cons
        by (simp only: Insert_def new Let_def) (simp del: insert_loop.simps)
      then show ?thesis using l'(2,3) Cons bz by auto
    qed
  qed
qed

section \<open>The lists implement their interface\<close>

lemma Insert_duplicate:
  assumes "list_nodes l0 ns" and "x \<in> snd ` set ns"
  shows "Insert cmp l0 x = Inl AssertFailed"
proof -
  obtain a l where new: "new_ListElement x l0 = (a, l)" by force
  have "list_nodes l ns" using new_ListElement_nodes [OF assms(1) new] by simp
  then have "IsInList l x = Inr True" using IsInList_nodes [of l ns x] assms(2) by simp
  then show ?thesis by (simp add: Insert_def new Let_def)
qed

lemma list_rep_new: "list_rep new_List []"
  by (simp add: list_rep_def list_nodes_def new_List_def)

lemma list_rep_distinct: "list_rep l xs \<Longrightarrow> distinct xs"
  by (auto simp: list_rep_def list_nodes_def)

lemma Apply_rep: "list_rep l xs \<Longrightarrow> Apply l = Inr xs"
  by (auto simp: list_rep_def Apply_nodes)

lemma list_rep_unique: "list_rep l xs \<Longrightarrow> list_rep l ys \<Longrightarrow> xs = ys"
  using Apply_rep [of l xs] Apply_rep [of l ys] by simp

lemma IsInList_rep: "list_rep l xs \<Longrightarrow> IsInList l x = Inr (x \<in> set xs)"
  by (auto simp: list_rep_def dest: IsInList_nodes)

lemma IsEmpty_rep: "list_rep l xs \<Longrightarrow> IsEmpty l \<longleftrightarrow> xs = []"
  by (auto simp: list_rep_def dest: IsEmpty_nodes)

lemma NumInList_rep: "list_rep l xs \<Longrightarrow> NumInList l = int (length xs)"
  by (auto simp: list_rep_def list_nodes_def NumInList_def)

lemma Front_rep: "list_rep l (x # xs) \<Longrightarrow> Front l = Inr x"
  by (auto simp: list_rep_def list_nodes_def Front_def deref_def)

lemma Append_rep: "list_rep l xs \<Longrightarrow> rel_sum (=) list_rep (Append l x) (seq_append xs x)"
proof -
  assume "list_rep l xs"
  then obtain ns where ns: "list_nodes l ns" "xs = map snd ns" by (auto simp: list_rep_def)
  show ?thesis
  proof (cases "x \<in> set xs")
    case True
    then show ?thesis using Append_duplicate(1) [OF ns(1)] ns(2) by (simp add: seq_append_def)
  next
    case False
    then show ?thesis using Append_nodes [OF ns(1), of x] ns(2)
      by (force simp: seq_append_def list_rep_def)
  qed
qed

lemma Prepend_rep: "list_rep l xs \<Longrightarrow> rel_sum (=) list_rep (Prepend l x) (seq_prepend xs x)"
proof -
  assume "list_rep l xs"
  then obtain ns where ns: "list_nodes l ns" "xs = map snd ns" by (auto simp: list_rep_def)
  show ?thesis
  proof (cases "x \<in> set xs")
    case True
    then show ?thesis using Append_duplicate(2) [OF ns(1)] ns(2) by (simp add: seq_prepend_def)
  next
    case False
    then show ?thesis using Prepend_nodes [OF ns(1), of x] ns(2)
      by (force simp: seq_prepend_def list_rep_def)
  qed
qed

lemma RemoveFront_rep:
  "list_rep l xs \<Longrightarrow> rel_sum (=) (rel_prod (=) list_rep) (RemoveFront l) (seq_remove_front xs)"
proof -
  assume "list_rep l xs"
  then obtain ns where ns: "list_nodes l ns" "xs = map snd ns" by (auto simp: list_rep_def)
  show ?thesis
  proof (cases ns)
    case Nil
    then show ?thesis using RemoveFront_empty [of l] ns by (auto simp: seq_remove_front_def)
  next
    case (Cons ay r)
    then show ?thesis using RemoveFront_nodes [of l "fst ay" "snd ay" r] ns
      by (force simp: seq_remove_front_def list_rep_def)
  qed
qed

lemma remove1_map_snd:
  "distinct (map snd (r1 @ (p, x) # r2)) \<Longrightarrow> remove1 x (map snd (r1 @ (p, x) # r2)) = map snd (r1 @ r2)"
  by (auto simp: remove1_append)

lemma Remove_rep: "list_rep l xs \<Longrightarrow> rel_sum (=) list_rep (Remove l x) (seq_remove xs x)"
proof -
  assume "list_rep l xs"
  then obtain ns where ns: "list_nodes l ns" "xs = map snd ns" by (auto simp: list_rep_def)
  show ?thesis
  proof (cases "x \<in> set xs")
    case False
    then show ?thesis using IsInList_nodes [OF ns(1), of x] ns(2)
      by (simp add: seq_remove_def Remove_def)
  next
    case True
    then obtain p where "(p, x) \<in> set ns" using ns(2) by auto
    then obtain r1 r2 where r: "ns = r1 @ (p, x) # r2" by (meson split_list)
    obtain l' where l': "Remove l x = Inr l'" "list_nodes l' (r1 @ r2)"
      using Remove_nodes [of l r1 p x r2] ns(1) r by auto
    have "distinct (map snd ns)" using ns(1) by (simp add: list_nodes_def)
    then have "remove1 x xs = map snd (r1 @ r2)" using remove1_map_snd r ns(2) by simp
    then show ?thesis using l' True by (auto simp: seq_remove_def list_rep_def)
  qed
qed

lemma Insert_rep: "list_rep l xs \<Longrightarrow> rel_sum (=) list_rep (Insert cmp l x) (seq_insert cmp xs x)"
proof -
  assume "list_rep l xs"
  then obtain ns where ns: "list_nodes l ns" "xs = map snd ns" by (auto simp: list_rep_def)
  show ?thesis
  proof (cases "x \<in> set xs")
    case True
    then show ?thesis using Insert_duplicate [OF ns(1)] ns(2) by (simp add: seq_insert_def)
  next
    case False
    then show ?thesis using Insert_nodes [OF ns(1), of x cmp] ns(2)
      by (force simp: seq_insert_def list_rep_def)
  qed
qed

interpretation ll: sorted_item_list list_rep Append Prepend RemoveFront Remove IsInList NumInList Insert
  by unfold_locales
    (simp_all add: Append_rep Prepend_rep RemoveFront_rep Remove_rep IsInList_rep NumInList_rep
      Insert_rep list_rep_distinct)

section \<open>The sanity checks accept well-formed lists\<close>

lemma count_to_last_path:
  assumes "path (l_store l) p ns None" "ns \<noteq> []" "distinct (map fst ns)"
    "l_last l = Some (fst (last ns))" "length ns \<le> n" "k + int (length ns) - 1 \<le> numInList l"
  shows "count_to_last n l k p = Inr (k + int (length ns) - 1)"
  using assms
proof (induction ns arbitrary: p n k)
  case Nil
  then show ?case by simp
next
  case (Cons ax ns)
  obtain a x where ax: "ax = (a, x)" by force
  obtain m where m: "n = Suc m" using Cons.prems(5) by (cases n) auto
  obtain nx where nx: "p = Some a" "l_store l a = Some \<lparr>le_item = x, le_next = nx\<rparr>"
      "path (l_store l) nx ns None"
    using Cons.prems(1) ax by auto
  show ?case
  proof (cases "ns = []")
    case True
    then show ?thesis using Cons.prems m nx ax by simp
  next
    case False
    then have "fst (last ns) \<in> set (map fst ns)" by simp
    then have ne: "Some a \<noteq> l_last l" using Cons.prems(3,4) False ax by auto
    have "count_to_last m l (k + 1) nx = Inr (k + 1 + int (length ns) - 1)"
      using Cons.IH [of nx m "k + 1"] Cons.prems False m nx(3) by simp
    moreover have "k + 1 \<le> numInList l" using Cons.prems(6) False by (cases ns) auto
    ultimately show ?thesis using m nx ne by (simp add: deref_def)
  qed
qed

lemma path_last_next:
  "path st p (ms @ [(a, x)]) None \<Longrightarrow> st a = Some \<lparr>le_item = x, le_next = None\<rparr>"
  by (auto simp: path_append)

lemma SanityCheck_nodes:
  assumes ln: "list_nodes l ns"
  shows "SanityCheck l = Inr ()"
proof (cases ns rule: rev_cases)
  case Nil
  then show ?thesis using ln by (simp add: SanityCheck_def list_nodes_def)
next
  case (snoc ms ax)
  obtain a x where ax: "ax = (a, x)" by force
  have pth: "path (l_store l) (l_first l) (ms @ [(a, x)]) None"
    using ln snoc ax by (simp only: list_nodes_def)
  have la: "l_last l = Some a" "l_store l a = Some \<lparr>le_item = x, le_next = None\<rparr>"
    using ln snoc ax path_last_next [OF pth] by (simp_all add: list_nodes_def)
  have f: "l_first l \<noteq> None" using ln snoc ax by (cases ms) (auto simp: list_nodes_def)
  show ?thesis
  proof (cases "l_first l = l_last l")
    case True
    then have "ms = []" using ln la snoc ax by (cases ms) (auto simp: list_nodes_def)
    then show ?thesis using True f la ln snoc ax
      by (simp add: SanityCheck_def deref_def list_nodes_def)
  next
    case False
    have "count_to_last (Suc (l_fresh l)) l 1 (l_first l) = Inr (1 + int (length ns) - 1)"
      using ln snoc list_nodes_length [OF ln]
      by (intro count_to_last_path) (simp_all add: list_nodes_def)
    moreover have "numInList l = int (length ns)" using ln by (simp add: list_nodes_def)
    ultimately show ?thesis using False f la
      by (simp add: SanityCheck_def deref_def del: count_to_last.simps)
  qed
qed

lemma sorted_check_path:
  assumes "path (l_store l) p ns None" "length ns \<le> n" "cmp_sorted cmp (y # map snd ns)"
  shows "sorted_check n cmp l y p = Inr ()"
  using assms
proof (induction ns arbitrary: p n y)
  case Nil
  then show ?case by simp
next
  case (Cons ax ns)
  obtain a x where ax: "ax = (a, x)" by force
  obtain m where m: "n = Suc m" using Cons.prems(2) by (cases n) auto
  show ?case using Cons.IH [of _ m x] Cons.prems ax m by (auto simp: deref_def cmp_sorted_def)
qed

lemma SanityCheck_rep: "list_rep l xs \<Longrightarrow> SanityCheck l = Inr ()"
  by (auto simp: list_rep_def SanityCheck_nodes)

lemma SanityCheck_Sorted_rep:
  assumes "list_rep l xs" "cmp_sorted cmp xs"
  shows "SanityCheck_Sorted cmp l = Inr ()"
proof -
  obtain ns where ns: "list_nodes l ns" "xs = map snd ns" using assms(1) by (auto simp: list_rep_def)
  show ?thesis
  proof (cases ns)
    case Nil
    then show ?thesis using ns SanityCheck_nodes [OF ns(1)]
      by (simp add: SanityCheck_Sorted_def list_nodes_def)
  next
    case (Cons ax r)
    obtain a x where ax: "ax = (a, x)" by force
    obtain nx where f: "l_first l = Some a" "l_store l a = Some \<lparr>le_item = x, le_next = nx\<rparr>"
        "path (l_store l) nx r None"
      using ns(1) Cons ax by (auto simp: list_nodes_def)
    have "sorted_check (Suc (l_fresh l)) cmp l x nx = Inr ()"
      using list_nodes_length [OF ns(1)] assms(2) ns(2) Cons ax
      by (intro sorted_check_path [OF f(3)]) auto
    then show ?thesis using f SanityCheck_nodes [OF ns(1)]
      by (simp add: SanityCheck_Sorted_def deref_def del: sorted_check.simps)
  qed
qed

section \<open>The self tests succeed\<close>

lemma append_each_ok:
  assumes app: "\<And>l xs x. list_rep l xs \<Longrightarrow> x \<notin> set xs \<Longrightarrow> \<exists>l'. app l x = Inr l' \<and> list_rep l' (upd x xs)"
    and upd: "\<And>x xs. set (upd x xs) = insert x (set xs)"
  shows "list_rep l xs \<Longrightarrow> distinct (xs @ ys) \<Longrightarrow>
    \<exists>l'. append_each app l ys = Inr l' \<and> list_rep l' (fold upd ys xs)"
proof (induction ys arbitrary: l xs)
  case Nil
  then show ?case by simp
next
  case (Cons y ys)
  obtain l1 where l1: "app l y = Inr l1" "list_rep l1 (upd y xs)"
    using app [of l xs y] Cons.prems by auto
  have ne: "upd y xs \<noteq> []" using upd [of y xs] by force
  have "distinct (upd y xs @ ys)" using Cons.prems(2) list_rep_distinct [OF l1(2)] upd by auto
  then show ?case using Cons.IH [OF l1(2)] l1 IsInList_rep [OF l1(2), of y] upd ne IsEmpty_rep [OF l1(2)]
    by auto
qed

lemma insert_each_append_each:
  "list_rep l xs \<Longrightarrow> distinct (xs @ ys) \<Longrightarrow>
   \<exists>l'. insert_each cmp l ys = Inr l' \<and> list_rep l' (fold (insort_cmp cmp) ys xs)"
proof (induction ys arbitrary: l xs)
  case Nil
  then show ?case by simp
next
  case (Cons y ys)
  obtain l1 where l1: "Insert cmp l y = Inr l1" "list_rep l1 (insort_cmp cmp y xs)"
    using ll.insert_ok [of l xs y cmp] Cons.prems by auto
  then show ?case using Cons.IH [OF l1(2)] Cons.prems(2) IsInList_rep [OF l1(2), of y] by auto
qed

lemma remove_each_ok:
  "list_rep l xs \<Longrightarrow> distinct ys \<Longrightarrow> set xs = set ys \<Longrightarrow>
   \<exists>l'. remove_each l ys = Inr l' \<and> list_rep l' []"
proof (induction ys arbitrary: l xs)
  case Nil
  then show ?case by simp
next
  case (Cons y ys)
  obtain l1 where l1: "Remove l y = Inr l1" "list_rep l1 (remove1 y xs)"
    using ll.remove_ok [of l xs y] Cons.prems by auto
  have s: "set (remove1 y xs) = set ys"
    using Cons.prems list_rep_distinct [OF Cons.prems(1)] by auto
  then show ?case using Cons.IH [OF l1(2)] Cons.prems(2) l1 IsInList_rep [OF l1(2), of y] by auto
qed

lemma drain_each_ok: "list_rep l xs \<Longrightarrow> \<exists>l'. drain_each (length xs) l = Inr (xs, l') \<and> list_rep l' []"
proof (induction xs arbitrary: l)
  case Nil
  then show ?case by simp
next
  case (Cons x xs)
  obtain l1 where l1: "RemoveFront l = Inr (x, l1)" "list_rep l1 xs"
    using ll.remove_front_ok [OF Cons.prems] by blast
  have "x \<notin> set xs" using list_rep_distinct [OF Cons.prems] by simp
  then show ?case using Cons.IH [OF l1(2)] l1 IsInList_rep [OF l1(2), of x] by auto
qed

lemma check_order_sorted: "cmp_sorted cmp q \<Longrightarrow> check_order cmp q = Inr ()"
  by (induction cmp q rule: check_order.induct) (auto simp: cmp_sorted_def)

lemma SelfTest_List_ok:
  assumes app: "\<And>l xs x. list_rep l xs \<Longrightarrow> x \<notin> set xs \<Longrightarrow> \<exists>l'. app l x = Inr l' \<and> list_rep l' (upd x xs)"
    and upd: "\<And>x xs. set (upd x xs) = insert x (set xs)"
    and check: "\<And>l xs. list_rep l xs \<Longrightarrow> good xs \<Longrightarrow> check l = Inr ()"
    and good: "good []" "good (fold upd p [])" and p: "distinct p" and l: "list_rep l []"
  shows "\<exists>l'. SelfTest_List app check l p = Inr l' \<and> list_rep l' []"
proof -
  obtain l1 where l1: "append_each app l p = Inr l1" "list_rep l1 (fold upd p [])"
    using append_each_ok [of app upd l "[]" p, OF app upd l] p by auto
  have "set (fold upd p xs) = set p \<union> set xs" for xs
    by (induction p arbitrary: xs) (auto simp: upd)
  then obtain l2 where l2: "remove_each l1 p = Inr l2" "list_rep l2 []"
    using remove_each_ok [OF l1(2) p] by auto
  have "l_first l = None" using l by (auto simp: list_rep_def list_nodes_def)
  then show ?thesis using l1 l2 l good check Apply_rep [OF l] IsEmpty_rep [OF l] IsEmpty_rep [OF l2(2)]
    by (simp add: SelfTest_List_def)
qed

lemma SelfTest_List_plain:
  assumes "distinct p"
  shows "\<exists>l'. SelfTest_List Append SanityCheck new_List p = Inr l' \<and> list_rep l' []"
  by (rule SelfTest_List_ok [where upd = "\<lambda>x xs. xs @ [x]" and good = "\<lambda>_. True"])
    (auto intro: ll.append_ok SanityCheck_rep list_rep_new simp: assms)

lemma SelfTest_Sorted_ok:
  assumes c: "cmp_order cmp" and p: "distinct p"
  shows "\<exists>l'. SelfTest_Sorted cmp new_List p = Inr l' \<and> list_rep l' []"
proof -
  let ?q = "fold (insort_cmp cmp) p []"
  have nil: "cmp_sorted cmp []" by (simp add: cmp_sorted_def)
  have q: "cmp_sorted cmp ?q" by (rule fold_insort_cmp_sorted [OF c nil])
  have len: "length ?q = length p" by (rule mset_eq_length) simp
  obtain l1 where l1: "SelfTest_List (Insert cmp) (SanityCheck_Sorted cmp) new_List p = Inr l1" "list_rep l1 []"
    using SelfTest_List_ok [of "Insert cmp" "insort_cmp cmp" "cmp_sorted cmp" "SanityCheck_Sorted cmp" p new_List]
      ll.insert_ok SanityCheck_Sorted_rep nil q p list_rep_new by (metis set_insort_cmp)
  obtain l2 where l2: "insert_each cmp l1 p = Inr l2" "list_rep l2 ?q"
    using insert_each_append_each [OF l1(2), of p cmp] p by auto
  obtain l3 where l3: "drain_each (length p) l2 = Inr (?q, l3)" "list_rep l3 []"
    using drain_each_ok [OF l2(2)] len by auto
  show ?thesis
    using l1 l2 l3 SanityCheck_Sorted_rep [OF l2(2) q] SanityCheck_Sorted_rep [OF l3(2) nil]
      check_order_sorted [OF q] IsEmpty_rep [OF l3(2)]
    by (simp add: SelfTest_Sorted_def)
qed

section \<open>Properties\<close>

text \<open>
  C20: a linked list object simulates the sequence of its items. Whatever well-formed pointer
  structure \<open>l\<close> represents \<open>xs\<close>, every operation either fails the same assertion as the operation on
  sequences, or returns a well-formed structure that represents the updated sequence.
\<close>

theorem lists_implement_sequences:
  assumes "list_rep l xs"
  shows "rel_sum (=) list_rep (Append l x) (seq_append xs x) \<and>
    rel_sum (=) list_rep (Prepend l x) (seq_prepend xs x) \<and>
    rel_sum (=) list_rep (Remove l x) (seq_remove xs x) \<and>
    rel_sum (=) (rel_prod (=) list_rep) (RemoveFront l) (seq_remove_front xs) \<and>
    rel_sum (=) list_rep (Insert cmp l x) (seq_insert cmp xs x) \<and>
    IsInList l x = Inr (x \<in> set xs) \<and> Apply l = Inr xs \<and> NumInList l = int (length xs) \<and>
    SanityCheck l = Inr ()"
  using ll.append_law [OF assms] ll.prepend_law [OF assms] ll.remove_law [OF assms]
    ll.remove_front_law [OF assms] ll.insert_law [OF assms] ll.is_in_law [OF assms]
    ll.num_law [OF assms] Apply_rep [OF assms] SanityCheck_rep [OF assms] by simp

theorem lists_implement_sequences_witness:
  "list_rep new_List ([] :: int list) \<and>
   rel_sum (=) list_rep (Append new_List (7 :: int)) (seq_append [] 7) \<and>
   RemoveFront (new_List :: int List) = Inl AssertFailed"
  using lists_implement_sequences [OF list_rep_new, of "7 :: int" "\<lambda>x y. x - y"] list_rep_new
  by (simp add: RemoveFront_empty list_nodes_def new_List_def)

text \<open>
  items appended one after the other to an empty list, pairwise different, leave it by
  \<^verbatim>\<open>RemoveFront\<close> in the order of arrival, and the list is empty again.
\<close>

theorem Append_RemoveFront_fifo:
  assumes "distinct ys"
  shows "\<exists>l1 l2. append_all Append new_List ys = Inr l1 \<and>
    drain RemoveFront (length ys) l1 = Inr (ys, l2) \<and> list_rep l2 []"
  by (rule ll.fifo [OF list_rep_new assms])

theorem Append_RemoveFront_fifo_witness:
  "distinct [9, 5, 7 :: int] \<and> (\<exists>l1 l2. append_all Append new_List [9, 5, 7 :: int] = Inr l1 \<and>
     drain RemoveFront 3 l1 = Inr ([9, 5, 7], l2) \<and> IsEmpty l2)"
proof -
  obtain l1 l2 where "append_all Append new_List [9, 5, 7 :: int] = Inr l1"
      "drain RemoveFront (length [9, 5, 7 :: int]) l1 = Inr ([9, 5, 7], l2)" "list_rep l2 []"
    using Append_RemoveFront_fifo [of "[9, 5, 7 :: int]"] by auto
  then show ?thesis using IsEmpty_rep [of l2 "[]"] by (simp add: numeral_3_eq_3)
qed

text \<open>
  under a comparison function that is a total preorder, inserting pairwise different items into
  an empty \<^verbatim>\<open>SortedList\<close> and removing them from the front returns the same items in sorted order.
\<close>

theorem SortedList_sorts:
  assumes "cmp_order cmp" "distinct ys"
  shows "\<exists>l1 zs l2. append_all (Insert cmp) new_List ys = Inr l1 \<and>
    drain RemoveFront (length ys) l1 = Inr (zs, l2) \<and> list_rep l2 [] \<and> mset zs = mset ys \<and>
    cmp_sorted cmp zs"
  by (rule ll.insert_sorts [OF assms(1) list_rep_new assms(2)])

theorem SortedList_sorts_witness:
  "\<exists>l1 zs l2. append_all (Insert (\<lambda>x y. x - y)) new_List [9, 5, 7 :: int] = Inr l1 \<and>
     drain RemoveFront 3 l1 = Inr (zs, l2) \<and> mset zs = {#5, 7, 9#} \<and> cmp_sorted (\<lambda>x y. x - y) zs"
proof -
  have "cmp_order (\<lambda>x y. x - y :: int)" by (auto simp: cmp_order_def)
  then show ?thesis using SortedList_sorts [of "\<lambda>x y. x - y :: int" "[9, 5, 7]"]
    by (auto simp: numeral_3_eq_3 add_mset_commute)
qed

end
