(* ===== verification/Hash_Table.thy ===== *)
theory Hash_Table
  imports Linked_List
begin

text \<open>
  The self-expanding hash table of \<^verbatim>\<open>lib/hash.h\<close> and \<^verbatim>\<open>lib/hash.cc\<close>: an array of linked lists
  (\<^verbatim>\<open>List<T>\<close>, as modelled in \<open>Linked_List\<close>), grown fourfold by \<^verbatim>\<open>ReHash\<close> when there are three or more
  items per bucket. The function pointers \<^verbatim>\<open>getKey\<close> and \<^verbatim>\<open>hash\<close> of a table object are the arguments
  \<open>gk\<close> and \<open>hf\<close> of the operations; \<^verbatim>\<open>unsigned\<close> is \<open>32 word\<close>. A table is viewed as the set of its items,
  in which no two items have the same key.
\<close>

definition InitialBuckets :: int where [nachos_consts]: "InitialBuckets = 4"
definition ResizeRatio :: int where [nachos_consts]: "ResizeRatio = 3"
definition IncreaseSizeBy :: int where [nachos_consts]: "IncreaseSizeBy = 4"

record 'a HashTable =
  buckets :: "'a List list"
  numBuckets :: int
  numItems :: int

section \<open>Operations\<close>

definition InitBuckets :: "int \<Rightarrow> 'a HashTable \<Rightarrow> 'a HashTable" where
  "InitBuckets sz t = t\<lparr>numBuckets := sz, buckets := replicate (nat sz) new_List\<rparr>"

definition new_HashTable :: "'a HashTable" where
  "new_HashTable = InitBuckets InitialBuckets \<lparr>buckets = [], numBuckets = 0, numItems = 0\<rparr>"

text \<open>\<^verbatim>\<open>(*hash)(key) % numBuckets\<close> is computed in \<^verbatim>\<open>unsigned\<close> and converted back to \<^verbatim>\<open>int\<close>.\<close>

definition HashValue :: "('k \<Rightarrow> 32 word) \<Rightarrow> 'a HashTable \<Rightarrow> 'k \<Rightarrow> int result" where
  "HashValue hf t key =
     (let n = (word_of_int (numBuckets t) :: 32 word) in
      if n = 0 then Inl HostTrap
      else let r = sint (hf key mod n) in
           rbind (rassert (r \<ge> 0 \<and> r < numBuckets t)) (\<lambda>_. Inr r))"

text \<open>The iterator loop of \<^verbatim>\<open>FindInBucket\<close>; \<open>None\<close> is the result \<^verbatim>\<open>FALSE\<close> with a \<^verbatim>\<open>NULL\<close> item.\<close>

fun find_key :: "('a \<Rightarrow> 'k) \<Rightarrow> nat \<Rightarrow> 'a List \<Rightarrow> 'k \<Rightarrow> nat option \<Rightarrow> 'a option result" where
  "find_key gk n l key None = Inr None"
| "find_key gk 0 l key (Some p) = Inl Diverges"
| "find_key gk (Suc n) l key (Some p) =
     rbind (deref l (Some p)) (\<lambda>e.
     if key = gk (le_item e) then Inr (Some (le_item e)) else find_key gk n l key (le_next e))"

definition FindInBucket :: "('a \<Rightarrow> 'k) \<Rightarrow> 'a HashTable \<Rightarrow> int \<Rightarrow> 'k \<Rightarrow> 'a option result" where
  "FindInBucket gk t bucket key =
     rbind (aread (buckets t) bucket) (\<lambda>l. find_key gk (Suc (l_fresh l)) l key (l_first l))"

definition Find :: "('a \<Rightarrow> 'k) \<Rightarrow> ('k \<Rightarrow> 32 word) \<Rightarrow> 'a HashTable \<Rightarrow> 'k \<Rightarrow> 'a option result" where
  "Find gk hf t key = rbind (HashValue hf t key) (\<lambda>bucket. FindInBucket gk t bucket key)"

definition IsInTable :: "('a \<Rightarrow> 'k) \<Rightarrow> ('k \<Rightarrow> 32 word) \<Rightarrow> 'a HashTable \<Rightarrow> 'k \<Rightarrow> bool result" where
  "IsInTable gk hf t key = rbind (Find gk hf t key) (\<lambda>r. Inr (r \<noteq> None))"

definition IsEmpty_Table :: "'a HashTable \<Rightarrow> bool" where
  "IsEmpty_Table t \<longleftrightarrow> numItems t = 0"

text \<open>\<^verbatim>\<open>SanityCheck\<close>: the iterator loop over one bucket, then the loop over the buckets.\<close>

fun check_items :: "('a \<Rightarrow> 'k) \<Rightarrow> ('k \<Rightarrow> 32 word) \<Rightarrow> 'a HashTable \<Rightarrow> int \<Rightarrow> 'a list \<Rightarrow> unit result" where
  "check_items gk hf t i [] = Inr ()"
| "check_items gk hf t i (x # xs) =
     rbind (HashValue hf t (gk x)) (\<lambda>h. rbind (rassert (i = h)) (\<lambda>_. check_items gk hf t i xs))"

fun check_buckets :: "('a \<Rightarrow> 'k) \<Rightarrow> ('k \<Rightarrow> 32 word) \<Rightarrow> 'a HashTable \<Rightarrow> int \<Rightarrow> 'a List list \<Rightarrow> int \<Rightarrow> int result" where
  "check_buckets gk hf t i [] numFound = Inr numFound"
| "check_buckets gk hf t i (b # bs) numFound =
     rbind (SanityCheck b) (\<lambda>_. rbind (Apply b) (\<lambda>xs. rbind (check_items gk hf t i xs) (\<lambda>_.
     check_buckets gk hf t (i + 1) bs (numFound + NumInList b))))"

definition SanityCheck_Table :: "('a \<Rightarrow> 'k) \<Rightarrow> ('k \<Rightarrow> 32 word) \<Rightarrow> 'a HashTable \<Rightarrow> unit result" where
  "SanityCheck_Table gk hf t =
     rbind (check_buckets gk hf t 0 (buckets t) 0) (\<lambda>numFound. rassert (numItems t = numFound))"

text \<open>\<^verbatim>\<open>buckets[HashValue(getKey(item))]->Append(item)\<close>.\<close>

definition put_item :: "('a \<Rightarrow> 'k) \<Rightarrow> ('k \<Rightarrow> 32 word) \<Rightarrow> 'a HashTable \<Rightarrow> 'a \<Rightarrow> 'a HashTable result" where
  "put_item gk hf t item =
     rbind (HashValue hf t (gk item)) (\<lambda>h. rbind (aread (buckets t) h) (\<lambda>l.
     rbind (Append l item) (\<lambda>l1. rbind (awrite (buckets t) h l1) (\<lambda>bs. Inr (t\<lparr>buckets := bs\<rparr>)))))"

text \<open>The inner loop of \<^verbatim>\<open>ReHash\<close> ends after as many rounds as the old bucket has items, since
  \<^verbatim>\<open>RemoveFront\<close> decrements the counter that \<^verbatim>\<open>IsEmpty\<close> tests.\<close>

fun move_bucket :: "('a \<Rightarrow> 'k) \<Rightarrow> ('k \<Rightarrow> 32 word) \<Rightarrow> nat \<Rightarrow> 'a List \<Rightarrow> 'a HashTable \<Rightarrow> 'a HashTable result" where
  "move_bucket gk hf 0 l t = (if IsEmpty l then Inr t else Inl Diverges)"
| "move_bucket gk hf (Suc n) l t =
     (if IsEmpty l then Inr t
      else rbind (RemoveFront l) (\<lambda>(item, l1). rbind (put_item gk hf t item) (\<lambda>t1. move_bucket gk hf n l1 t1)))"

fun move_buckets :: "('a \<Rightarrow> 'k) \<Rightarrow> ('k \<Rightarrow> 32 word) \<Rightarrow> 'a List list \<Rightarrow> 'a HashTable \<Rightarrow> 'a HashTable result" where
  "move_buckets gk hf [] t = Inr t"
| "move_buckets gk hf (l # ls) t =
     rbind (move_bucket gk hf (nat (numInList l)) l t) (\<lambda>t1. move_buckets gk hf ls t1)"

definition ReHash :: "('a \<Rightarrow> 'k) \<Rightarrow> ('k \<Rightarrow> 32 word) \<Rightarrow> 'a HashTable \<Rightarrow> 'a HashTable result" where
  "ReHash gk hf t =
     (let oldTable = buckets t in
      rbind (SanityCheck_Table gk hf t) (\<lambda>_.
      rbind (move_buckets gk hf oldTable (InitBuckets (numBuckets t * IncreaseSizeBy) t)) (\<lambda>t1.
      rbind (SanityCheck_Table gk hf t1) (\<lambda>_. Inr t1))))"

definition Insert_Table :: "('a \<Rightarrow> 'k) \<Rightarrow> ('k \<Rightarrow> 32 word) \<Rightarrow> 'a HashTable \<Rightarrow> 'a \<Rightarrow> 'a HashTable result" where
  "Insert_Table gk hf t item =
     (let key = gk item in
      rbind (IsInTable gk hf t key) (\<lambda>b. rbind (rassert (\<not> b)) (\<lambda>_.
      rbind (if numItems t sdiv numBuckets t \<ge> ResizeRatio then ReHash gk hf t else Inr t) (\<lambda>t1.
      rbind (put_item gk hf t1 item) (\<lambda>t2.
      let t3 = t2\<lparr>numItems := numItems t2 + 1\<rparr> in
      rbind (IsInTable gk hf t3 key) (\<lambda>b. rbind (rassert b) (\<lambda>_. Inr t3)))))))"

definition Remove_Table :: "('a \<Rightarrow> 'k) \<Rightarrow> ('k \<Rightarrow> 32 word) \<Rightarrow> 'a HashTable \<Rightarrow> 'k \<Rightarrow> ('a \<times> 'a HashTable) result" where
  "Remove_Table gk hf t key =
     rbind (HashValue hf t key) (\<lambda>bucket. rbind (FindInBucket gk t bucket key) (\<lambda>found.
     case found of None \<Rightarrow> Inl AssertFailed
     | Some item \<Rightarrow>
         rbind (aread (buckets t) bucket) (\<lambda>l. rbind (Remove l item) (\<lambda>l1.
         rbind (awrite (buckets t) bucket l1) (\<lambda>bs.
         let t1 = t\<lparr>buckets := bs, numItems := numItems t - 1\<rparr> in
         rbind (IsInTable gk hf t1 key) (\<lambda>b. rbind (rassert (\<not> b)) (\<lambda>_. Inr (item, t1))))))))"

fun apply_buckets :: "'a List list \<Rightarrow> 'a list result" where
  "apply_buckets [] = Inr []"
| "apply_buckets (b # bs) = rbind (Apply b) (\<lambda>xs. rbind (apply_buckets bs) (\<lambda>ys. Inr (xs @ ys)))"

text \<open>The items \<^verbatim>\<open>Apply\<close> calls its function on, in order.\<close>

definition Apply_Table :: "'a HashTable \<Rightarrow> 'a list result" where
  "Apply_Table t = apply_buckets (buckets t)"

section \<open>Iterators\<close>

fun next_full :: "'a List list \<Rightarrow> int \<Rightarrow> int" where
  "next_full [] bucket = bucket"
| "next_full (b # bs) bucket = (if \<not> IsEmpty b then bucket else next_full bs (bucket + 1))"

definition FindNextFullBucket :: "'a HashTable \<Rightarrow> int \<Rightarrow> int result" where
  "FindNextFullBucket t bucket =
     (if bucket < 0 then Inl OutOfBounds else Inr (next_full (drop (nat bucket) (buckets t)) bucket))"

record HashIterator =
  hi_bucket :: int
  hi_current :: "nat option"

definition start_bucket :: "'a HashTable \<Rightarrow> int \<Rightarrow> HashIterator result" where
  "start_bucket t bucket =
     (if bucket < numBuckets t
      then rbind (aread (buckets t) bucket) (\<lambda>l. Inr \<lparr>hi_bucket = bucket, hi_current = l_first l\<rparr>)
      else Inr \<lparr>hi_bucket = bucket, hi_current = None\<rparr>)"

definition new_HashIterator :: "'a HashTable \<Rightarrow> HashIterator result" where
  "new_HashIterator t = rbind (FindNextFullBucket t 0) (start_bucket t)"

definition IsDone_Hash :: "'a HashTable \<Rightarrow> HashIterator \<Rightarrow> bool" where
  "IsDone_Hash t it \<longleftrightarrow> hi_bucket it = numBuckets t"

definition Item_Hash :: "'a HashTable \<Rightarrow> HashIterator \<Rightarrow> 'a result" where
  "Item_Hash t it =
     rbind (rassert (\<not> IsDone_Hash t it)) (\<lambda>_.
     rbind (aread (buckets t) (hi_bucket it)) (\<lambda>l. rbind (deref l (hi_current it)) (\<lambda>e. Inr (le_item e))))"

definition Next_Hash :: "'a HashTable \<Rightarrow> HashIterator \<Rightarrow> HashIterator result" where
  "Next_Hash t it =
     rbind (aread (buckets t) (hi_bucket it)) (\<lambda>l. rbind (deref l (hi_current it)) (\<lambda>e.
     case le_next e of
       None \<Rightarrow> rbind (FindNextFullBucket t (hi_bucket it + 1)) (start_bucket t)
     | Some q \<Rightarrow> Inr (it\<lparr>hi_current := Some q\<rparr>)))"

section \<open>Self test\<close>

fun insert_each_key :: "('a \<Rightarrow> 'k) \<Rightarrow> ('k \<Rightarrow> 32 word) \<Rightarrow> 'a HashTable \<Rightarrow> 'a list \<Rightarrow> 'a HashTable result" where
  "insert_each_key gk hf t [] = Inr t"
| "insert_each_key gk hf t (x # p) =
     rbind (Insert_Table gk hf t x) (\<lambda>t1. rbind (IsInTable gk hf t1 (gk x)) (\<lambda>b. rbind (rassert b) (\<lambda>_.
     rbind (rassert (\<not> IsEmpty_Table t1)) (\<lambda>_. insert_each_key gk hf t1 p))))"

fun remove_each_key :: "('a \<Rightarrow> 'k) \<Rightarrow> ('k \<Rightarrow> 32 word) \<Rightarrow> 'a HashTable \<Rightarrow> 'a list \<Rightarrow> 'a HashTable result" where
  "remove_each_key gk hf t [] = Inr t"
| "remove_each_key gk hf t (x # p) =
     rbind (Remove_Table gk hf t (gk x)) (\<lambda>(y, t1). rbind (rassert (y = x)) (\<lambda>_. remove_each_key gk hf t1 p))"

definition SelfTest_Table :: "('a \<Rightarrow> 'k) \<Rightarrow> ('k \<Rightarrow> 32 word) \<Rightarrow> 'a HashTable \<Rightarrow> 'a list \<Rightarrow> 'a HashTable result" where
  "SelfTest_Table gk hf t p =
     rbind (new_HashIterator t) (\<lambda>it.
     rbind (SanityCheck_Table gk hf t) (\<lambda>_.
     rbind (rassert (IsEmpty_Table t)) (\<lambda>_.
     rbind (rassert (IsDone_Hash t it)) (\<lambda>_.
     rbind (insert_each_key gk hf t p) (\<lambda>t1.
     rbind (remove_each_key gk hf t1 p) (\<lambda>t2.
     rbind (rassert (IsEmpty_Table t2)) (\<lambda>_.
     rbind (SanityCheck_Table gk hf t2) (\<lambda>_. Inr t2))))))))"

section \<open>The items of a well-formed table\<close>

definition slot :: "('k \<Rightarrow> 32 word) \<Rightarrow> int \<Rightarrow> 'k \<Rightarrow> int" where
  "slot hf n k = uint (hf k) mod n"

lemma HashValue_slot:
  assumes "0 < numBuckets t" "numBuckets t < 2 ^ 31"
  shows "HashValue hf t k = Inr (slot hf (numBuckets t) k)"
proof -
  let ?n = "word_of_int (numBuckets t) :: 32 word"
  have n: "uint ?n = numBuckets t" using assms by (simp add: uint_word_of_int take_bit_int_eq_self)
  then have n0: "?n \<noteq> 0" using assms(1) by force
  have m: "uint (hf k mod ?n) = slot hf (numBuckets t) k" by (simp add: uint_mod n slot_def)
  have r: "0 \<le> slot hf (numBuckets t) k" "slot hf (numBuckets t) k < numBuckets t"
    using assms by (simp_all add: slot_def)
  have "sint (hf k mod ?n) = slot hf (numBuckets t) k"
    using m r assms(2) by (simp add: sint_uint signed_take_bit_int_eq_self)
  then show ?thesis using n0 r by (simp add: HashValue_def Let_def)
qed

text \<open>\<open>placed\<close>: every item of the bucket contents \<open>cs\<close> is in the bucket its key hashes to.\<close>

definition placed :: "('a \<Rightarrow> 'k) \<Rightarrow> ('k \<Rightarrow> 32 word) \<Rightarrow> 'a list list \<Rightarrow> bool" where
  "placed gk hf cs \<longleftrightarrow>
     (\<forall>i < length cs. \<forall>x \<in> set (cs ! i). slot hf (int (length cs)) (gk x) = int i)"

definition items :: "'a list list \<Rightarrow> 'a set" where
  "items cs = set (concat cs)"

lemma items_simps [simp]: "items [] = {}" "items (c # cs) = set c \<union> items cs"
  by (simp_all add: items_def)

lemma items_iff: "x \<in> items cs \<longleftrightarrow> (\<exists>i < length cs. x \<in> set (cs ! i))"
  by (auto simp: items_def in_set_conv_nth [of _ cs] dest: nth_mem)

lemma finite_items [simp]: "finite (items cs)"
  by (simp add: items_def)

lemma items_replicate [simp]: "items (replicate n []) = {}"
  by (simp add: items_def)

definition table_rep :: "('a \<Rightarrow> 'k) \<Rightarrow> ('k \<Rightarrow> 32 word) \<Rightarrow> 'a HashTable \<Rightarrow> 'a list list \<Rightarrow> bool" where
  "table_rep gk hf t cs \<longleftrightarrow> list_all2 list_rep (buckets t) cs \<and> numBuckets t = int (length cs) \<and>
     0 < length cs \<and> int (length cs) < 2 ^ 31 \<and> placed gk hf cs"

definition table_items :: "('a \<Rightarrow> 'k) \<Rightarrow> ('k \<Rightarrow> 32 word) \<Rightarrow> 'a HashTable \<Rightarrow> 'a set \<Rightarrow> bool" where
  "table_items gk hf t S \<longleftrightarrow> (\<exists>cs. table_rep gk hf t cs \<and> S = items cs \<and> inj_on gk S \<and>
     numItems t = int (card S))"

lemma table_rep_slot:
  assumes "table_rep gk hf t cs"
  shows "HashValue hf t k = Inr (slot hf (numBuckets t) k)"
    and "0 \<le> slot hf (numBuckets t) k" and "slot hf (numBuckets t) k < int (length cs)"
  using assms HashValue_slot [of t hf k] by (simp_all add: table_rep_def slot_def)

lemma table_rep_length: "table_rep gk hf t cs \<Longrightarrow> length (buckets t) = length cs"
  by (auto simp: table_rep_def dest: list_all2_lengthD)

lemma table_rep_bucket:
  "table_rep gk hf t cs \<Longrightarrow> i < length cs \<Longrightarrow> list_rep (buckets t ! i) (cs ! i)"
  by (simp add: table_rep_def list_all2_conv_all_nth)

lemma in_bucket:
  assumes "table_rep gk hf t cs"
  shows "x \<in> items cs \<longleftrightarrow> x \<in> set (cs ! nat (slot hf (numBuckets t) (gk x)))"
proof -
  let ?i = "nat (slot hf (numBuckets t) (gk x))"
  have i: "?i < length cs" using table_rep_slot [OF assms, of "gk x"] by simp
  show ?thesis
  proof
    assume "x \<in> items cs"
    then obtain j where "j < length cs" "x \<in> set (cs ! j)" by (auto simp: items_iff)
    then show "x \<in> set (cs ! ?i)" using assms by (auto simp: table_rep_def placed_def)
  next
    assume "x \<in> set (cs ! ?i)"
    then show "x \<in> items cs" using i by (auto simp: items_iff)
  qed
qed

lemma find_key_path:
  "path (l_store l) p ns None \<Longrightarrow> length ns \<le> n \<Longrightarrow>
   find_key gk n l key p = Inr (List.find (\<lambda>x. key = gk x) (map snd ns))"
proof (induction ns arbitrary: p n)
  case Nil
  then show ?case by simp
next
  case (Cons ax ns)
  then obtain m where "n = Suc m" by (cases n) auto
  then show ?case using Cons by (cases ax) (auto simp: deref_def)
qed

lemma find_key_rep:
  assumes "list_rep l xs"
  shows "find_key gk (Suc (l_fresh l)) l key (l_first l) = Inr (List.find (\<lambda>x. key = gk x) xs)"
proof -
  obtain ns where ns: "list_nodes l ns" "xs = map snd ns" using assms by (auto simp: list_rep_def)
  show ?thesis unfolding ns(2) using ns(1) list_nodes_length [OF ns(1)]
    by (intro find_key_path) (simp_all add: list_nodes_def)
qed

lemma Find_rep:
  assumes "table_rep gk hf t cs"
  shows "Find gk hf t key = Inr (List.find (\<lambda>x. key = gk x) (cs ! nat (slot hf (numBuckets t) key)))"
    and "FindInBucket gk t (slot hf (numBuckets t) key) key =
           Inr (List.find (\<lambda>x. key = gk x) (cs ! nat (slot hf (numBuckets t) key)))"
proof -
  let ?i = "slot hf (numBuckets t) key"
  note s = table_rep_slot [OF assms, of key]
  have "list_rep (buckets t ! nat ?i) (cs ! nat ?i)" using s by (intro table_rep_bucket [OF assms]) simp
  from find_key_rep [OF this] show b: "FindInBucket gk t ?i key =
      Inr (List.find (\<lambda>x. key = gk x) (cs ! nat ?i))"
    using s table_rep_length [OF assms] by (simp add: FindInBucket_def del: find_key.simps)
  show "Find gk hf t key = Inr (List.find (\<lambda>x. key = gk x) (cs ! nat ?i))"
    using s(1) b by (simp add: Find_def)
qed

lemma find_unique:
  assumes "inj_on gk S" "x \<in> S" "set xs \<subseteq> S" "x \<in> set xs"
  shows "List.find (\<lambda>y. gk x = gk y) xs = Some x"
  using assms(3,4)
proof (induction xs)
  case Nil
  then show ?case by simp
next
  case (Cons y ys)
  then show ?case using assms(1,2) by (auto simp: inj_on_def)
qed

lemma bucket_subset:
  assumes "table_rep gk hf t cs"
  shows "set (cs ! nat (slot hf (numBuckets t) key)) \<subseteq> items cs"
  using table_rep_slot [OF assms, of key] by (auto simp: items_iff intro!: exI [of _ "nat (slot hf (numBuckets t) key)"])

lemma Find_present:
  assumes r: "table_rep gk hf t cs" and inj: "inj_on gk (items cs)" and x: "x \<in> items cs"
  shows "List.find (\<lambda>y. gk x = gk y) (cs ! nat (slot hf (numBuckets t) (gk x))) = Some x"
  using find_unique [OF inj x bucket_subset [OF r]] in_bucket [OF r, of x] x by simp

lemma Find_absent:
  assumes r: "table_rep gk hf t cs" and k: "k \<notin> gk ` items cs"
  shows "List.find (\<lambda>y. k = gk y) (cs ! nat (slot hf (numBuckets t) k)) = None"
  using k bucket_subset [OF r, of k] by (force simp: find_None_iff)

lemma Find_items:
  assumes "table_items gk hf t S"
  shows "x \<in> S \<Longrightarrow> Find gk hf t (gk x) = Inr (Some x)"
    and "k \<notin> gk ` S \<Longrightarrow> Find gk hf t k = Inr None"
proof -
  obtain cs where cs: "table_rep gk hf t cs" "S = items cs" "inj_on gk S"
    using assms by (auto simp: table_items_def)
  show "Find gk hf t (gk x) = Inr (Some x)" if "x \<in> S"
    using Find_rep(1) [OF cs(1)] Find_present [OF cs(1)] cs that by simp
  show "Find gk hf t k = Inr None" if "k \<notin> gk ` S"
    using Find_rep(1) [OF cs(1)] Find_absent [OF cs(1)] cs that by simp
qed

lemma IsInTable_items:
  assumes "table_items gk hf t S"
  shows "IsInTable gk hf t k = Inr (k \<in> gk ` S)"
  using Find_items [OF assms] by (cases "k \<in> gk ` S") (auto simp: IsInTable_def)

section \<open>Sanity check\<close>

lemma card_concat:
  assumes "\<forall>i < length cs. distinct (cs ! i) \<and> (\<forall>x \<in> set (cs ! i). h x = int i + off)"
  shows "int (card (items cs)) = (\<Sum>c\<leftarrow>cs. int (length c))"
  using assms
proof (induction cs arbitrary: off)
  case Nil
  then show ?case by simp
next
  case (Cons c cs)
  have hd: "distinct c" "\<forall>x \<in> set c. h x = off" using Cons.prems [rule_format, of 0] by auto
  have tl: "distinct (cs ! i) \<and> (\<forall>x \<in> set (cs ! i). h x = int i + (off + 1))" if "i < length cs" for i
    using Cons.prems [rule_format, of "Suc i"] that by simp
  have "\<forall>x \<in> items cs. h x > off" using tl by (fastforce simp: items_iff)
  then have "set c \<inter> items cs = {}" using hd(2) by fastforce
  then have "card (items (c # cs)) = card (set c) + card (items cs)"
    by (simp add: card_Un_disjoint)
  then show ?case using Cons.IH [of "off + 1"] tl distinct_card [OF hd(1)] by simp
qed

lemma table_rep_card:
  assumes "table_rep gk hf t cs"
  shows "int (card (items cs)) = (\<Sum>c\<leftarrow>cs. int (length c))"
  by (rule card_concat [where h = "\<lambda>x. slot hf (int (length cs)) (gk x)" and off = 0])
    (use assms table_rep_bucket [OF assms] list_rep_distinct in \<open>auto simp: table_rep_def placed_def\<close>)

lemma check_items_ok:
  assumes "table_rep gk hf t cs"
  shows "\<forall>x \<in> set xs. slot hf (numBuckets t) (gk x) = i \<Longrightarrow> check_items gk hf t i xs = Inr ()"
  by (induction xs) (auto simp: table_rep_slot(1) [OF assms])

lemma check_buckets_ok:
  assumes r: "table_rep gk hf t cs"
  shows "list_all2 list_rep bs ds \<Longrightarrow>
    \<forall>j < length ds. \<forall>x \<in> set (ds ! j). slot hf (numBuckets t) (gk x) = i + int j \<Longrightarrow>
    check_buckets gk hf t i bs k = Inr (k + (\<Sum>c\<leftarrow>ds. int (length c)))"
proof (induction bs arbitrary: ds i k)
  case Nil
  then show ?case by simp
next
  case (Cons b bs)
  obtain d ds' where ds: "ds = d # ds'" "list_rep b d" "list_all2 list_rep bs ds'"
    using Cons.prems(1) by (auto simp: list_all2_Cons1)
  have hd: "\<forall>x \<in> set d. slot hf (numBuckets t) (gk x) = i" using Cons.prems(2) ds(1) by force
  have tl: "\<forall>j < length ds'. \<forall>x \<in> set (ds' ! j). slot hf (numBuckets t) (gk x) = (i + 1) + int j"
    using Cons.prems(2) ds(1) by (auto dest: spec [of _ "Suc _"])
  show ?case
    using Cons.IH [OF ds(3) tl] SanityCheck_rep [OF ds(2)] Apply_rep [OF ds(2)] NumInList_rep [OF ds(2)]
      check_items_ok [OF r hd] ds(1) by simp
qed

lemma SanityCheck_Table_ok:
  assumes "table_items gk hf t S"
  shows "SanityCheck_Table gk hf t = Inr ()"
proof -
  obtain cs where cs: "table_rep gk hf t cs" "S = items cs" "numItems t = int (card S)"
    using assms by (auto simp: table_items_def)
  have "check_buckets gk hf t 0 (buckets t) 0 = Inr (0 + (\<Sum>c\<leftarrow>cs. int (length c)))"
    using cs(1) by (intro check_buckets_ok [OF cs(1)]) (auto simp: table_rep_def placed_def)
  then show ?thesis using table_rep_card [OF cs(1)] cs by (simp add: SanityCheck_Table_def)
qed

section \<open>Inserting, growing and removing\<close>

lemma concat_update_append:
  "i < length cs \<Longrightarrow> items (cs[i := cs ! i @ [x]]) = insert x (items cs)"
  by (induction cs arbitrary: i) (auto split: nat.splits)

lemma placed_append:
  assumes "placed gk hf cs" "slot hf (int (length cs)) (gk x) = int i" "i < length cs"
  shows "placed gk hf (cs[i := cs ! i @ [x]])"
  using assms(1) unfolding placed_def length_list_update
  by (intro allI impI ballI) (use assms(2,3) in \<open>auto simp: nth_list_update split: if_splits\<close>)

lemma put_item_rep:
  assumes r: "table_rep gk hf t cs" and x: "x \<notin> items cs"
  shows "\<exists>t' ds. put_item gk hf t x = Inr t' \<and> table_rep gk hf t' ds \<and>
    items ds = insert x (items cs) \<and> numItems t' = numItems t \<and> numBuckets t' = numBuckets t"
proof -
  let ?h = "slot hf (numBuckets t) (gk x)"
  let ?i = "nat ?h"
  note s = table_rep_slot [OF r, of "gk x"]
  have i: "?i < length cs" using s by simp
  have "x \<notin> set (cs ! ?i)" using x in_bucket [OF r, of x] by simp
  then obtain l where l: "Append (buckets t ! ?i) x = Inr l" "list_rep l (cs ! ?i @ [x])"
    using ll.append_ok [OF table_rep_bucket [OF r i], of x] by blast
  let ?t = "t\<lparr>buckets := (buckets t)[?i := l]\<rparr>" and ?ds = "cs[?i := cs ! ?i @ [x]]"
  have "put_item gk hf t x = Inr ?t" using s l table_rep_length [OF r] by (simp add: put_item_def)
  moreover have "list_all2 list_rep ((buckets t)[?i := l]) ?ds"
    using r l(2) by (intro list_all2_update_cong) (auto simp: table_rep_def)
  moreover have "placed gk hf ?ds"
    using r i s by (intro placed_append) (simp_all add: table_rep_def)
  ultimately show ?thesis using r concat_update_append [OF i, of x]
    by (intro exI [of _ ?t] exI [of _ ?ds]) (auto simp: table_rep_def)
qed

lemma move_bucket_rep:
  "table_rep gk hf t cs \<Longrightarrow> list_rep l xs \<Longrightarrow> set xs \<inter> items cs = {} \<Longrightarrow>
   \<exists>t' ds. move_bucket gk hf (length xs) l t = Inr t' \<and> table_rep gk hf t' ds \<and>
     items ds = items cs \<union> set xs \<and> numItems t' = numItems t \<and> numBuckets t' = numBuckets t"
proof (induction xs arbitrary: l t cs)
  case Nil
  then show ?case using IsEmpty_rep [OF Nil.prems(2)] by auto
next
  case (Cons x xs)
  obtain l1 where l1: "RemoveFront l = Inr (x, l1)" "list_rep l1 xs"
    using ll.remove_front_ok [OF Cons.prems(2)] by blast
  obtain t1 ds where t1: "put_item gk hf t x = Inr t1" "table_rep gk hf t1 ds"
      "items ds = insert x (items cs)" "numItems t1 = numItems t" "numBuckets t1 = numBuckets t"
    using put_item_rep [OF Cons.prems(1), of x] Cons.prems(3) by auto
  have "set xs \<inter> items ds = {}"
    using t1(3) Cons.prems(3) list_rep_distinct [OF Cons.prems(2)] by auto
  from Cons.IH [OF t1(2) l1(2) this] show ?case
    using l1 t1 IsEmpty_rep [OF Cons.prems(2)] by auto
qed

lemma move_buckets_rep:
  "table_rep gk hf t cs \<Longrightarrow> list_all2 list_rep ls xss \<Longrightarrow> distinct (concat xss) \<Longrightarrow>
   items xss \<inter> items cs = {} \<Longrightarrow>
   \<exists>t' ds. move_buckets gk hf ls t = Inr t' \<and> table_rep gk hf t' ds \<and>
     items ds = items cs \<union> items xss \<and> numItems t' = numItems t \<and>
     numBuckets t' = numBuckets t"
proof (induction ls arbitrary: t cs xss)
  case Nil
  then show ?case by auto
next
  case (Cons l ls)
  obtain xs yss where y: "xss = xs # yss" "list_rep l xs" "list_all2 list_rep ls yss"
    using Cons.prems(2) by (auto simp: list_all2_Cons1)
  have "nat (numInList l) = length xs" using NumInList_rep [OF y(2)] by (simp add: NumInList_def)
  then obtain t1 ds where t1: "move_bucket gk hf (nat (numInList l)) l t = Inr t1" "table_rep gk hf t1 ds"
      "items ds = items cs \<union> set xs" "numItems t1 = numItems t" "numBuckets t1 = numBuckets t"
    using move_bucket_rep [OF Cons.prems(1) y(2)] Cons.prems(4) y(1) by auto
  have "items yss \<inter> items ds = {}" "distinct (concat yss)"
    using t1(3) Cons.prems(3,4) y(1) by (auto simp: items_def)
  from Cons.IH [OF t1(2) y(3) this(2,1)] show ?case using t1 y(1) by auto
qed

lemma distinct_concat_placed:
  assumes "table_rep gk hf t cs"
  shows "distinct (concat cs)"
proof -
  have "int (length (concat cs)) = (\<Sum>c\<leftarrow>cs. int (length c))"
    by (induction cs) simp_all
  then have "length (concat cs) = card (items cs)" using table_rep_card [OF assms] by simp
  then show ?thesis by (simp only: items_def card_distinct)
qed

lemma InitBuckets_rep:
  "0 < sz \<Longrightarrow> sz < 2 ^ 31 \<Longrightarrow> table_rep gk hf (InitBuckets sz t) (replicate (nat sz) [])"
  by (auto simp: table_rep_def InitBuckets_def placed_def list_all2_conv_all_nth list_rep_new)

lemma ReHash_rep:
  assumes r: "table_rep gk hf t cs" and inj: "inj_on gk (items cs)"
    and num: "numItems t = int (card (items cs))" and sz: "numBuckets t * 4 < 2 ^ 31"
  shows "\<exists>t' ds. ReHash gk hf t = Inr t' \<and> table_rep gk hf t' ds \<and> items ds = items cs \<and>
    numItems t' = numItems t \<and> numBuckets t' = 4 * numBuckets t"
proof -
  let ?t0 = "InitBuckets (numBuckets t * 4) t"
  have "0 < numBuckets t * 4" using r by (auto simp: table_rep_def)
  then have r0: "table_rep gk hf ?t0 (replicate (nat (numBuckets t * 4)) [])"
    using sz by (intro InitBuckets_rep) auto
  obtain t1 ds where t1: "move_buckets gk hf (buckets t) ?t0 = Inr t1" "table_rep gk hf t1 ds"
      "items ds = items cs" "numItems t1 = numItems ?t0" "numBuckets t1 = numBuckets ?t0"
    using move_buckets_rep [OF r0 _ distinct_concat_placed [OF r], of "buckets t"] r
    by (auto simp: table_rep_def)
  have i0: "table_items gk hf t (items cs)" using r inj num by (auto simp: table_items_def)
  have i1: "table_items gk hf t1 (items cs)"
    using t1 inj num by (auto simp: table_items_def InitBuckets_def)
  show ?thesis using t1 SanityCheck_Table_ok [OF i0] SanityCheck_Table_ok [OF i1]
    by (auto simp: ReHash_def IncreaseSizeBy_def InitBuckets_def)
qed

lemma Insert_grow:
  assumes r: "table_rep gk hf t cs" and inj: "inj_on gk (items cs)"
    and num: "numItems t = int (card (items cs))" and n: "numItems t < 2 ^ 30"
  shows "\<exists>t' ds. (if numItems t sdiv numBuckets t \<ge> ResizeRatio then ReHash gk hf t else Inr t) = Inr t' \<and>
    table_rep gk hf t' ds \<and> items ds = items cs \<and> numItems t' = numItems t"
proof (cases "numItems t sdiv numBuckets t \<ge> ResizeRatio")
  case True
  have b: "0 < numBuckets t" using r by (auto simp: table_rep_def)
  then have "3 \<le> numItems t div numBuckets t" using True num by (simp add: sdiv_nonneg ResizeRatio_def)
  then have "numBuckets t * 3 \<le> numBuckets t * (numItems t div numBuckets t)" using b by simp
  also have "\<dots> \<le> numItems t" using b
    by (metis add_increasing2 le_add_same_cancel1 mult_div_mod_eq pos_mod_sign)
  finally have "numBuckets t * 3 \<le> numItems t" .
  then have "numBuckets t * 4 < 2 ^ 31" using n by simp
  then show ?thesis using ReHash_rep [OF r inj num] True by auto
next
  case False
  then show ?thesis using r by auto
qed

lemma Insert_items:
  assumes t: "table_items gk hf t S" and x: "gk x \<notin> gk ` S" and n: "card S < 2 ^ 30"
  shows "\<exists>t'. Insert_Table gk hf t x = Inr t' \<and> table_items gk hf t' (insert x S)"
proof -
  obtain cs where cs: "table_rep gk hf t cs" "S = items cs" "inj_on gk S" "numItems t = int (card S)"
    using t by (auto simp: table_items_def)
  have "numItems t < 2 ^ 30" using n cs(4) by simp
  then obtain t1 ds where t1: "(if numItems t sdiv numBuckets t \<ge> ResizeRatio then ReHash gk hf t else Inr t) = Inr t1"
      "table_rep gk hf t1 ds" "items ds = S" "numItems t1 = numItems t"
    using Insert_grow [OF cs(1)] cs by auto
  have xS: "x \<notin> S" using x by auto
  obtain t2 es where t2: "put_item gk hf t1 x = Inr t2" "table_rep gk hf t2 es" "items es = insert x S"
      "numItems t2 = numItems t1"
    using put_item_rep [OF t1(2), of x] xS t1(3) by auto
  let ?t3 = "t2\<lparr>numItems := numItems t2 + 1\<rparr>"
  have "table_rep gk hf ?t3 es" using t2(2) by (simp add: table_rep_def)
  moreover have "inj_on gk (insert x S)" using cs(3) x by auto
  moreover have "numItems ?t3 = int (card (insert x S))" using t2(4) t1(4) cs(2,4) xS by simp
  ultimately have i3: "table_items gk hf ?t3 (insert x S)" using t2(3) by (auto simp: table_items_def)
  show ?thesis
    using IsInTable_items [OF t, of "gk x"] x t1(1) t2(1) IsInTable_items [OF i3, of "gk x"] i3
    by (simp add: Insert_Table_def Let_def)
qed

lemma Insert_duplicate_key:
  "table_items gk hf t S \<Longrightarrow> gk x \<in> gk ` S \<Longrightarrow> Insert_Table gk hf t x = Inl AssertFailed"
  using IsInTable_items [of gk hf t S "gk x"] by (simp add: Insert_Table_def Let_def)

lemma items_update_remove:
  assumes r: "table_rep gk hf t cs" and i: "i < length cs" and x: "x \<in> set (cs ! i)"
  shows "items (cs[i := remove1 x (cs ! i)]) = items cs - {x}"
proof -
  have d: "distinct (cs ! j)" if "j < length cs" for j
    using list_rep_distinct [OF table_rep_bucket [OF r that]] .
  have "x \<notin> set (cs ! j)" if "j < length cs" "j \<noteq> i" for j
    using r i x that unfolding table_rep_def placed_def by (metis of_nat_eq_iff)
  then show ?thesis using d i by (auto simp: items_iff nth_list_update split: if_splits)
qed

lemma placed_remove:
  assumes "placed gk hf cs" "i < length cs"
  shows "placed gk hf (cs[i := remove1 x (cs ! i)])"
  using assms(1) unfolding placed_def length_list_update
  by (intro allI impI ballI)
    (use assms(2) in \<open>auto simp: nth_list_update split: if_splits dest: notin_set_remove1\<close>)

lemma Remove_items:
  assumes t: "table_items gk hf t S" and x: "x \<in> S"
  shows "\<exists>t'. Remove_Table gk hf t (gk x) = Inr (x, t') \<and> table_items gk hf t' (S - {x})"
proof -
  obtain cs where cs: "table_rep gk hf t cs" "S = items cs" "inj_on gk S" "numItems t = int (card S)"
    using t by (auto simp: table_items_def)
  let ?h = "slot hf (numBuckets t) (gk x)"
  let ?i = "nat ?h"
  note s = table_rep_slot [OF cs(1), of "gk x"]
  have i: "?i < length cs" using s by simp
  have xi: "x \<in> set (cs ! ?i)" using x in_bucket [OF cs(1), of x] cs(2) by simp
  have found: "FindInBucket gk t ?h (gk x) = Inr (Some x)"
    using Find_rep(2) [OF cs(1)] Find_present [OF cs(1)] cs x by simp
  obtain l where l: "Remove (buckets t ! ?i) x = Inr l" "list_rep l (remove1 x (cs ! ?i))"
    using ll.remove_ok [OF table_rep_bucket [OF cs(1) i] xi] by blast
  let ?t = "t\<lparr>buckets := (buckets t)[?i := l], numItems := numItems t - 1\<rparr>"
  let ?ds = "cs[?i := remove1 x (cs ! ?i)]"
  have "list_all2 list_rep ((buckets t)[?i := l]) ?ds"
    using cs(1) l(2) by (intro list_all2_update_cong) (auto simp: table_rep_def)
  moreover have "placed gk hf ?ds" using cs(1) i by (intro placed_remove) (simp_all add: table_rep_def)
  ultimately have "table_rep gk hf ?t ?ds" using cs(1) by (simp add: table_rep_def)
  moreover have "items ?ds = S - {x}" using items_update_remove [OF cs(1) i xi] cs(2) by simp
  moreover have "card S > 0" using x cs(2) by (metis card_gt_0_iff empty_iff finite_items)
  then have "numItems t - 1 = int (card (S - {x}))" using cs(2,4) x by (simp add: of_nat_diff)
  moreover have "inj_on gk (S - {x})" using cs(3) by (rule inj_on_diff)
  ultimately have i1: "table_items gk hf ?t (S - {x})" by (auto simp: table_items_def)
  have "gk x \<notin> gk ` (S - {x})" using cs(3) x by (auto simp: inj_on_def)
  then show ?thesis using i1 s found l(1) table_rep_length [OF cs(1)] IsInTable_items [OF i1, of "gk x"]
    by (simp add: Remove_Table_def)
qed

lemma Remove_absent_key:
  assumes "table_items gk hf t S" "k \<notin> gk ` S"
  shows "Remove_Table gk hf t k = Inl AssertFailed"
proof -
  obtain cs where cs: "table_rep gk hf t cs" "S = items cs"
    using assms(1) by (auto simp: table_items_def)
  show ?thesis using table_rep_slot(1) [OF cs(1)] Find_rep(2) [OF cs(1)] Find_absent [OF cs(1)] assms(2) cs(2)
    by (simp add: Remove_Table_def)
qed

lemma table_items_inj: "table_items gk hf t S \<Longrightarrow> inj_on gk S"
  by (auto simp: table_items_def)

lemma table_items_new: "table_items gk hf new_HashTable {}"
proof -
  have "table_rep gk hf new_HashTable (replicate (nat 4) [])"
    unfolding new_HashTable_def InitialBuckets_def by (rule InitBuckets_rep) simp_all
  moreover have "numItems new_HashTable = 0" by (simp add: new_HashTable_def InitBuckets_def)
  ultimately show ?thesis by (auto simp: table_items_def intro!: exI [of _ "replicate (nat 4) []"])
qed

lemma IsEmpty_items: "table_items gk hf t S \<Longrightarrow> IsEmpty_Table t \<longleftrightarrow> S = {}"
  by (auto simp: table_items_def IsEmpty_Table_def)

lemma apply_buckets_ok: "list_all2 list_rep bs cs \<Longrightarrow> apply_buckets bs = Inr (concat cs)"
  by (induction rule: list_all2_induct) (auto simp: Apply_rep)

lemma Apply_items:
  assumes "table_items gk hf t S"
  shows "\<exists>xs. Apply_Table t = Inr xs \<and> set xs = S \<and> distinct xs"
proof -
  obtain cs where cs: "table_rep gk hf t cs" "S = items cs" using assms by (auto simp: table_items_def)
  then have "Apply_Table t = Inr (concat cs)"
    using apply_buckets_ok by (auto simp: Apply_Table_def table_rep_def)
  then show ?thesis using distinct_concat_placed [OF cs(1)] cs(2) by (auto simp: items_def)
qed

section \<open>The interface of a keyed table\<close>

locale keyed_table =
  fixes rep :: "'t \<Rightarrow> 'a set \<Rightarrow> bool"
    and key :: "'a \<Rightarrow> 'k"
    and find_it :: "'t \<Rightarrow> 'k \<Rightarrow> 'a option result"
    and insert_it :: "'t \<Rightarrow> 'a \<Rightarrow> 't result"
    and remove_it :: "'t \<Rightarrow> 'k \<Rightarrow> ('a \<times> 't) result"
    and capacity :: nat
  assumes find_present: "rep t S \<Longrightarrow> x \<in> S \<Longrightarrow> find_it t (key x) = Inr (Some x)"
    and find_absent: "rep t S \<Longrightarrow> k \<notin> key ` S \<Longrightarrow> find_it t k = Inr None"
    and insert_law: "rep t S \<Longrightarrow> key x \<notin> key ` S \<Longrightarrow> card S < capacity \<Longrightarrow>
          \<exists>t'. insert_it t x = Inr t' \<and> rep t' (insert x S)"
    and insert_dup: "rep t S \<Longrightarrow> key x \<in> key ` S \<Longrightarrow> insert_it t x = Inl AssertFailed"
    and remove_law: "rep t S \<Longrightarrow> x \<in> S \<Longrightarrow> \<exists>t'. remove_it t (key x) = Inr (x, t') \<and> rep t' (S - {x})"
    and remove_dup: "rep t S \<Longrightarrow> k \<notin> key ` S \<Longrightarrow> remove_it t k = Inl AssertFailed"
    and rep_inj: "rep t S \<Longrightarrow> inj_on key S"
begin

text \<open>An insertion is seen under its own key and changes no other lookup.\<close>

lemma find_after_insert:
  assumes r: "rep t S" and x: "key x \<notin> key ` S" and c: "card S < capacity"
  shows "\<exists>t'. insert_it t x = Inr t' \<and> rep t' (insert x S) \<and> find_it t' (key x) = Inr (Some x) \<and>
    (\<forall>k. k \<noteq> key x \<longrightarrow> find_it t' k = find_it t k)"
proof -
  obtain t' where t': "insert_it t x = Inr t'" "rep t' (insert x S)" using insert_law [OF r x c] by blast
  have "find_it t' k = find_it t k" if "k \<noteq> key x" for k
  proof (cases "k \<in> key ` S")
    case True
    then obtain y where "y \<in> S" "k = key y" by blast
    then show ?thesis using find_present [OF r] find_present [OF t'(2)] by simp
  next
    case False
    then show ?thesis using that find_absent [OF r] find_absent [OF t'(2)] by simp
  qed
  then show ?thesis using t' find_present [OF t'(2)] by simp
qed

text \<open>Removing an inserted item gives back every lookup of the table before the insertion.\<close>

lemma insert_remove:
  assumes r: "rep t S" and x: "key x \<notin> key ` S" and c: "card S < capacity"
  shows "\<exists>t1 t2. insert_it t x = Inr t1 \<and> remove_it t1 (key x) = Inr (x, t2) \<and> rep t2 S \<and>
    (\<forall>k. find_it t2 k = find_it t k)"
proof -
  obtain t1 where t1: "insert_it t x = Inr t1" "rep t1 (insert x S)" using insert_law [OF r x c] by blast
  have "insert x S - {x} = S" using x by auto
  then obtain t2 where t2: "remove_it t1 (key x) = Inr (x, t2)" "rep t2 S"
    using remove_law [OF t1(2), of x] by auto
  have "find_it t2 k = find_it t k" for k
    using find_present [OF r] find_present [OF t2(2)] find_absent [OF r] find_absent [OF t2(2)]
    by (cases "k \<in> key ` S") auto
  then show ?thesis using t1 t2 by blast
qed

end

interpretation ht: keyed_table "table_items gk hf" gk "Find gk hf" "Insert_Table gk hf"
    "Remove_Table gk hf" "2 ^ 30" for gk :: "'a \<Rightarrow> 'k" and hf :: "'k \<Rightarrow> 32 word"
  by unfold_locales
    (simp_all add: Find_items Insert_duplicate_key Remove_absent_key Insert_items Remove_items table_items_inj)

section \<open>The self test succeeds\<close>

lemma insert_each_key_ok:
  "table_items gk hf t S \<Longrightarrow> finite S \<Longrightarrow> distinct (map gk p) \<Longrightarrow> gk ` S \<inter> gk ` set p = {} \<Longrightarrow>
   card S + length p < 2 ^ 30 \<Longrightarrow>
   \<exists>t'. insert_each_key gk hf t p = Inr t' \<and> table_items gk hf t' (S \<union> set p)"
proof (induction p arbitrary: t S)
  case Nil
  then show ?case by simp
next
  case (Cons x p)
  obtain t1 where t1: "Insert_Table gk hf t x = Inr t1" "table_items gk hf t1 (insert x S)"
    using ht.insert_law [OF Cons.prems(1), of x] Cons.prems(4,5) by auto
  have "gk ` insert x S \<inter> gk ` set p = {}" using Cons.prems(3,4) by auto
  moreover have "card (insert x S) + length p < 2 ^ 30"
    using Cons.prems(2,5) by (simp add: card_insert_if)
  ultimately obtain t2 where "insert_each_key gk hf t1 p = Inr t2" "table_items gk hf t2 (insert x S \<union> set p)"
    using Cons.IH [OF t1(2)] Cons.prems(2,3) by auto
  then show ?case using t1 IsInTable_items [OF t1(2), of "gk x"] IsEmpty_items [OF t1(2)] by simp
qed

lemma remove_each_key_ok:
  "table_items gk hf t S \<Longrightarrow> distinct p \<Longrightarrow> S = set p \<Longrightarrow>
   \<exists>t'. remove_each_key gk hf t p = Inr t' \<and> table_items gk hf t' {}"
proof (induction p arbitrary: t S)
  case Nil
  then show ?case by simp
next
  case (Cons x p)
  obtain t1 where t1: "Remove_Table gk hf t (gk x) = Inr (x, t1)" "table_items gk hf t1 (S - {x})"
    using ht.remove_law [OF Cons.prems(1), of x] Cons.prems(3) by auto
  have "S - {x} = set p" using Cons.prems(2,3) by auto
  then show ?case using Cons.IH [OF t1(2)] Cons.prems(2) t1(1) by simp
qed

lemma new_HashIterator_empty: "new_HashIterator new_HashTable = Inr \<lparr>hi_bucket = 4, hi_current = None\<rparr>"
  by (simp add: new_HashIterator_def FindNextFullBucket_def start_bucket_def new_HashTable_def
      InitBuckets_def InitialBuckets_def numeral_eq_Suc IsEmpty_def new_List_def)

lemma IsDone_empty: "IsDone_Hash new_HashTable \<lparr>hi_bucket = 4, hi_current = None\<rparr>"
  by (simp add: IsDone_Hash_def new_HashTable_def InitBuckets_def InitialBuckets_def)

lemma SelfTest_Table_ok:
  assumes "distinct (map gk p)" "length p < 2 ^ 30"
  shows "\<exists>t. SelfTest_Table gk hf new_HashTable p = Inr t \<and> table_items gk hf t {}"
proof -
  note new = table_items_new [of gk hf]
  obtain t1 where t1: "insert_each_key gk hf new_HashTable p = Inr t1" "table_items gk hf t1 (set p)"
    using insert_each_key_ok [OF new, of p] assms by auto
  obtain t2 where t2: "remove_each_key gk hf t1 p = Inr t2" "table_items gk hf t2 {}"
    using remove_each_key_ok [OF t1(2)] assms(1) by (auto simp: distinct_map)
  show ?thesis
    using t1 t2 SanityCheck_Table_ok [OF new] SanityCheck_Table_ok [OF t2(2)] IsEmpty_items [OF new]
      IsEmpty_items [OF t2(2)]
    by (simp add: SelfTest_Table_def new_HashIterator_empty IsDone_empty)
qed

section \<open>Properties\<close>

text \<open>
  on a well-formed table with the item set \<open>S\<close> and fewer than \<open>2^30\<close> items, inserting an item
  whose key is new succeeds, growing the table when needed, and the new table has the item set
  \<open>insert x S\<close>; from then on \<^verbatim>\<open>Find\<close> returns the item under its key and answers every other key
  as before.
\<close>

theorem hash_find_after_insert:
  assumes "table_items gk hf t S" "gk x \<notin> gk ` S" "card S < 2 ^ 30"
  shows "\<exists>t'. Insert_Table gk hf t x = Inr t' \<and> table_items gk hf t' (insert x S) \<and>
    Find gk hf t' (gk x) = Inr (Some x) \<and> (\<forall>k. k \<noteq> gk x \<longrightarrow> Find gk hf t' k = Find gk hf t k)"
  by (rule ht.find_after_insert [OF assms])

theorem hash_find_after_insert_witness:
  "\<exists>t'. Insert_Table (\<lambda>x. x) (\<lambda>k. k) new_HashTable (7 :: 32 word) = Inr t' \<and>
     Find (\<lambda>x. x) (\<lambda>k. k) t' 7 = Inr (Some 7)"
  using hash_find_after_insert [OF table_items_new [of "\<lambda>x. x" "\<lambda>k. k :: 32 word"], of 7] by auto

text \<open>
  inserting an item with a new key and removing it by this key returns that item and a table on
  which every \<^verbatim>\<open>Find\<close> answers as on the original; inserting a key twice and removing a key that is
  absent fail their assertions.
\<close>

theorem hash_insert_remove_roundtrip:
  assumes "table_items gk hf t S" "gk x \<notin> gk ` S" "card S < 2 ^ 30"
  shows "(\<exists>t1 t2. Insert_Table gk hf t x = Inr t1 \<and> Remove_Table gk hf t1 (gk x) = Inr (x, t2) \<and>
      table_items gk hf t2 S \<and> (\<forall>k. Find gk hf t2 k = Find gk hf t k)) \<and>
    Remove_Table gk hf t (gk x) = Inl AssertFailed \<and>
    (\<forall>y \<in> S. Insert_Table gk hf t y = Inl AssertFailed)"
  using ht.insert_remove [OF assms] ht.remove_dup [OF assms(1,2)] ht.insert_dup [OF assms(1)] by simp

theorem hash_insert_remove_roundtrip_witness:
  "\<exists>t1 t2. Insert_Table (\<lambda>x. x) (\<lambda>k. k) new_HashTable (7 :: 32 word) = Inr t1 \<and>
     Remove_Table (\<lambda>x. x) (\<lambda>k. k) t1 7 = Inr (7, t2)"
  using hash_insert_remove_roundtrip [OF table_items_new [of "\<lambda>x. x" "\<lambda>k. k :: 32 word"], of 7] by auto

end
