(* ===== verification/Lib_Selftest.thy ===== *)
theory Lib_Selftest
  imports Bitmap Hash_Table
begin

text \<open>
  The library self test of \<^verbatim>\<open>lib/libtest.cc\<close>, run by \<^verbatim>\<open>Kernel::ThreadSelfTest\<close>: it exercises a bitmap,
  a list, a sorted list and a hash table on fixed vectors.
\<close>

definition IntCompare :: "int \<Rightarrow> int \<Rightarrow> int" where
  "IntCompare x y = (if x < y then -1 else if x = y then 0 else 1)"

definition HashInt :: "int \<Rightarrow> 32 word" where
  "HashInt key = word_of_int key"

text \<open>The digits part of the C function \<^verbatim>\<open>atoi\<close>, which is all the test vector uses.\<close>

definition digit :: "char \<Rightarrow> int" where
  "digit c = int (of_char c) - 48"

fun atoi_digits :: "string \<Rightarrow> int \<Rightarrow> int" where
  "atoi_digits [] acc = acc"
| "atoi_digits (c # cs) acc = (if 0 \<le> digit c \<and> digit c \<le> 9 then atoi_digits cs (10 * acc + digit c) else acc)"

definition HashKey :: "string \<Rightarrow> int" where
  "HashKey str = (case str of
       CHR ''-'' # cs \<Rightarrow> - atoi_digits cs 0
     | CHR ''+'' # cs \<Rightarrow> atoi_digits cs 0
     | cs \<Rightarrow> atoi_digits cs 0)"

definition listTestVector :: "int list" where
  "listTestVector = [9, 5, 7]"

definition hashTestVector :: "string list" where
  "hashTestVector = [''0'', ''1'', ''2'', ''3'', ''4'', ''5'', ''6'', ''7'', ''8'', ''9'', ''10'', ''11'',
     ''12'', ''13'', ''14'']"

definition LibSelfTest :: "unit result" where
  "LibSelfTest =
     rbind (new_Bitmap 200) (\<lambda>map.
     rbind (SelfTest_Bitmap map) (\<lambda>_.
     rbind (SelfTest_List Append SanityCheck new_List listTestVector) (\<lambda>_.
     rbind (SelfTest_Sorted IntCompare new_List listTestVector) (\<lambda>_.
     rbind (SelfTest_Table HashKey HashInt new_HashTable hashTestVector) (\<lambda>t.
     rassert (IsEmpty_Table t))))))"

lemma IntCompare_order: "cmp_order IntCompare"
  by (auto simp: cmp_order_def IntCompare_def split: if_splits)

lemma hash_keys_distinct: "map HashKey hashTestVector = [0, 1, 2, 3, 4, 5, 6, 7, 8, 9, 10, 11, 12, 13, 14]"
  by (simp add: hashTestVector_def HashKey_def digit_def)

text \<open>
  the library self test runs to the end without a failed assertion. Its parts pass for every
  input they accept: \<^verbatim>\<open>Bitmap::SelfTest\<close> for every bitmap of at least a word, the list tests
  for every vector without duplicates, the hash table test for every vector with different keys.
\<close>

theorem LibSelfTest_passes: "LibSelfTest = Inr ()"
proof -
  obtain bm bm' where b: "new_Bitmap 200 = Inr bm" "SelfTest_Bitmap bm = Inr bm'"
    using SelfTest_Bitmap_passes [of 200] by auto
  have d: "distinct listTestVector" by (simp add: listTestVector_def)
  obtain t where t: "SelfTest_Table HashKey HashInt new_HashTable hashTestVector = Inr t"
      "table_items HashKey HashInt t {}"
    using SelfTest_Table_ok [of HashKey hashTestVector HashInt] hash_keys_distinct
    by (auto simp: hashTestVector_def)
  show ?thesis
    using b t SelfTest_List_plain [OF d] SelfTest_Sorted_ok [OF IntCompare_order d] IsEmpty_items [OF t(2)]
    by (auto simp: LibSelfTest_def)
qed

end
