(* ===== verification/Paged_View.thy ===== *)
theory Paged_View
  imports Nachos_Prelude
begin

text \<open>
  Storage seen through a list of blocks. A user program sees physical memory through its list of page
  frames, and a file sees the disk through its list of sectors: byte \<open>i\<close> of the view is byte \<open>i mod sz\<close> of block
  \<open>fr ! (i div sz)\<close>. A store into one block is the same store into the view, and stores into other blocks do not
  show.
\<close>

section \<open>Replacing a run of bytes\<close>

definition patch :: "byte list \<Rightarrow> nat \<Rightarrow> byte list \<Rightarrow> byte list" where
  "patch mem p bs = take p mem @ bs @ drop (p + length bs) mem"

definition view :: "nat \<Rightarrow> byte list \<Rightarrow> nat list \<Rightarrow> byte list" where
  "view sz mem fr = map (\<lambda>i. mem ! (fr ! (i div sz) * sz + i mod sz)) [0..<length fr * sz]"

text \<open>The blocks exist and are pairwise different.\<close>

definition blocks_ok :: "nat \<Rightarrow> byte list \<Rightarrow> nat list \<Rightarrow> bool" where
  "blocks_ok sz mem fr \<longleftrightarrow> 0 < sz \<and> distinct fr \<and> (\<forall>f \<in> set fr. f * sz + sz \<le> length mem)"

lemma length_patch: "p + length bs \<le> length mem \<Longrightarrow> length (patch mem p bs) = length mem"
  by (simp add: patch_def)

lemma nth_patch:
  "p + length bs \<le> length mem \<Longrightarrow>
   patch mem p bs ! k = (if p \<le> k \<and> k < p + length bs then bs ! (k - p) else mem ! k)"
  by (auto simp: patch_def nth_append)

lemma patch_Nil [simp]: "patch mem p [] = mem"
  by (simp add: patch_def)

lemma patch_Cons:
  assumes "Suc (p + length bs) \<le> length mem"
  shows "patch (mem[p := b]) (Suc p) bs = patch mem p (b # bs)"
  by (rule nth_equalityI) (use assms in \<open>auto simp: length_patch nth_patch nth_list_update nth_Cons'\<close>)

lemma patch_append:
  assumes "p + length as + length bs \<le> length mem"
  shows "patch (patch mem p as) (p + length as) bs = patch mem p (as @ bs)"
  by (rule nth_equalityI) (use assms in \<open>auto simp: length_patch nth_patch nth_append\<close>)

lemma patch_commute:
  assumes "p + length as \<le> q" "q + length bs \<le> length mem"
  shows "patch (patch mem q bs) p as = patch (patch mem p as) q bs"
  by (rule nth_equalityI) (use assms in \<open>auto simp: length_patch nth_patch\<close>)

lemma take_drop_patch: "p + length bs \<le> length mem \<Longrightarrow> take (length bs) (drop p (patch mem p bs)) = bs"
  by (simp add: patch_def)

section \<open>Views\<close>

lemma length_view [simp]: "length (view sz mem fr) = length fr * sz"
  by (simp add: view_def)

lemma nth_view: "i < length fr * sz \<Longrightarrow> view sz mem fr ! i = mem ! (fr ! (i div sz) * sz + i mod sz)"
  by (simp add: view_def)

lemma view_index: "0 < sz \<Longrightarrow> i < length fr * sz \<Longrightarrow> i div sz < length (fr :: nat list)"
  by (simp add: less_mult_imp_div_less)

lemma block_index:
  fixes f g :: nat
  assumes "a < sz" "b < sz"
  shows "f * sz + a = g * sz + b \<longleftrightarrow> f = g \<and> a = b"
proof
  assume "f * sz + a = g * sz + b"
  then have "(f * sz + a) div sz = (g * sz + b) div sz" "(f * sz + a) mod sz = (g * sz + b) mod sz" by simp_all
  then show "f = g \<and> a = b" using assms by simp
qed simp

lemma blocks_okD:
  assumes "blocks_ok sz mem fr" "i < length fr * sz"
  shows "fr ! (i div sz) * sz + i mod sz < length mem" "i div sz < length fr" "fr ! (i div sz) * sz + sz \<le> length mem"
proof -
  have j: "i div sz < length fr" using assms view_index [of sz i fr] by (simp add: blocks_ok_def)
  then show "i div sz < length fr" .
  have "fr ! (i div sz) * sz + sz \<le> length mem" using assms(1) j by (simp add: blocks_ok_def)
  then show "fr ! (i div sz) * sz + sz \<le> length mem" .
  moreover have "i mod sz < sz" using assms(1) by (simp add: blocks_ok_def)
  ultimately show "fr ! (i div sz) * sz + i mod sz < length mem" by linarith
qed

lemma nth_patch_block:
  fixes f g :: nat
  assumes "f * sz + sz \<le> length mem" "off + length bs \<le> sz" "b < sz"
  shows "patch mem (f * sz + off) bs ! (g * sz + b) =
    (if f = g \<and> off \<le> b \<and> b < off + length bs then bs ! (b - off) else mem ! (g * sz + b))"
proof (cases "f = g")
  case True
  then show ?thesis using assms by (auto simp: nth_patch)
next
  case False
  have "\<not> (f * sz + off \<le> g * sz + b \<and> g * sz + b < f * sz + off + length bs)"
  proof
    assume a: "f * sz + off \<le> g * sz + b \<and> g * sz + b < f * sz + off + length bs"
    then have "g * sz + b = f * sz + (g * sz + b - f * sz)" "g * sz + b - f * sz < sz" using assms(2) by linarith+
    then show False using block_index [of b sz "g * sz + b - f * sz" g f] assms(3) False by simp
  qed
  then show ?thesis using False assms by (auto simp: nth_patch)
qed

text \<open>A store into block \<open>j\<close> of the view.\<close>

lemma view_patch:
  assumes ok: "blocks_ok sz mem fr" and j: "j < length fr" and l: "off + length bs \<le> sz"
  shows "view sz (patch mem (fr ! j * sz + off) bs) fr = patch (view sz mem fr) (j * sz + off) bs"
proof (rule nth_equalityI)
  have s: "0 < sz" using ok by (simp add: blocks_ok_def)
  have "Suc j * sz \<le> length fr * sz" using j by (intro mult_le_mono1) simp
  then have r: "j * sz + off + length bs \<le> length (view sz mem fr)" using l by simp
  then show "length (view sz (patch mem (fr ! j * sz + off) bs) fr) = length (patch (view sz mem fr) (j * sz + off) bs)"
    by (simp add: length_patch)
  fix i assume "i < length (view sz (patch mem (fr ! j * sz + off) bs) fr)"
  then have i: "i < length fr * sz" by simp
  note b = blocks_okD [OF ok i]
  have m: "i mod sz < sz" using s by simp
  have f: "fr ! j * sz + sz \<le> length mem" using ok j by (simp add: blocks_ok_def)
  have e: "fr ! j = fr ! (i div sz) \<longleftrightarrow> j = i div sz" using ok j b(2) by (simp add: blocks_ok_def nth_eq_iff_index_eq)
  have d: "i = i div sz * sz + i mod sz" by simp
  have p: "patch (view sz mem fr) (j * sz + off) bs ! i =
      (if j * sz + off \<le> i \<and> i < j * sz + off + length bs then bs ! (i - (j * sz + off)) else view sz mem fr ! i)"
    using r by (simp add: nth_patch)
  show "view sz (patch mem (fr ! j * sz + off) bs) fr ! i = patch (view sz mem fr) (j * sz + off) bs ! i"
  proof (cases "j = i div sz")
    case True
    then have "i = j * sz + i mod sz" by simp
    then have "j * sz + off \<le> i \<longleftrightarrow> off \<le> i mod sz" "i < j * sz + off + length bs \<longleftrightarrow> i mod sz < off + length bs"
      "i - (j * sz + off) = i mod sz - off" by linarith+
    then show ?thesis using i p True nth_patch_block [OF f l m, of "fr ! (i div sz)"] by (simp add: nth_view)
  next
    case False
    have "\<not> (j * sz + off \<le> i \<and> i < j * sz + off + length bs)"
    proof
      assume a: "j * sz + off \<le> i \<and> i < j * sz + off + length bs"
      then have "i = j * sz + (i - j * sz)" "i - j * sz < sz" using l by linarith+
      then have "i div sz = j" using s by (metis add.commute div_mult_self3 div_less add.right_neutral less_not_refl2)
      then show False using False by simp
    qed
    then show ?thesis using i p False e nth_patch_block [OF f l m, of "fr ! (i div sz)"] by (auto simp: nth_view)
  qed
qed

text \<open>A store into a block outside the view.\<close>

lemma view_patch_other:
  assumes ok: "blocks_ok sz mem fr" and f: "f \<notin> set fr" "f * sz + sz \<le> length mem" and l: "off + length bs \<le> sz"
  shows "view sz (patch mem (f * sz + off) bs) fr = view sz mem fr"
proof (rule nth_equalityI)
  show "length (view sz (patch mem (f * sz + off) bs) fr) = length (view sz mem fr)" by simp
  fix i assume "i < length (view sz (patch mem (f * sz + off) bs) fr)"
  then have i: "i < length fr * sz" by simp
  have m: "i mod sz < sz" using ok by (simp add: blocks_ok_def)
  have "fr ! (i div sz) \<in> set fr" using blocks_okD(2) [OF ok i] by simp
  then have "f \<noteq> fr ! (i div sz)" using f(1) by auto
  then show "view sz (patch mem (f * sz + off) bs) fr ! i = view sz mem fr ! i"
    using i nth_patch_block [OF f(2) l m, of "fr ! (i div sz)"] by (simp add: nth_view)
qed

lemma blocks_ok_patch: "p + length bs \<le> length mem \<Longrightarrow> blocks_ok sz (patch mem p bs) fr = blocks_ok sz mem fr"
  by (simp add: blocks_ok_def length_patch)

text \<open>Bytes of a view that equal bytes elsewhere make equal views.\<close>

lemma view_cong:
  assumes "blocks_ok sz mem fr" "\<And>k. k < length mem \<Longrightarrow> k div sz \<in> set fr \<Longrightarrow> mem' ! k = mem ! k"
  shows "view sz mem' fr = view sz mem fr"
proof (rule nth_equalityI)
  fix i assume "i < length (view sz mem' fr)"
  then have i: "i < length fr * sz" by simp
  let ?k = "fr ! (i div sz) * sz + i mod sz"
  have "?k div sz = fr ! (i div sz)" using assms(1) by (simp add: blocks_ok_def)
  then have "?k div sz \<in> set fr" using blocks_okD(2) [OF assms(1) i] by simp
  then show "view sz mem' fr ! i = view sz mem fr ! i"
    using assms(2) blocks_okD(1) [OF assms(1) i] i by (simp add: nth_view)
qed simp

section \<open>Stores into a view\<close>

text \<open>
  \<open>stored sz fr mem mem' a bs\<close>: \<open>bs\<close> was stored at address \<open>a\<close> of the view, and nothing outside its blocks changed.
\<close>

definition stored :: "nat \<Rightarrow> nat list \<Rightarrow> byte list \<Rightarrow> byte list \<Rightarrow> nat \<Rightarrow> byte list \<Rightarrow> bool" where
  "stored sz fr mem mem' a bs \<longleftrightarrow> length mem' = length mem \<and> view sz mem' fr = patch (view sz mem fr) a bs \<and>
     (\<forall>k < length mem. k div sz \<notin> set fr \<longrightarrow> mem' ! k = mem ! k)"

lemma stored_Nil: "stored sz fr mem mem a []"
  by (simp add: stored_def)

lemma stored_block:
  assumes ok: "blocks_ok sz mem fr" and a: "a div sz < length fr" and l: "a mod sz + length bs \<le> sz"
  shows "stored sz fr mem (patch mem (fr ! (a div sz) * sz + a mod sz) bs) a bs"
proof -
  let ?f = "fr ! (a div sz)"
  have f: "?f * sz + sz \<le> length mem" using ok a by (simp add: blocks_ok_def)
  have "view sz (patch mem (?f * sz + a mod sz) bs) fr = patch (view sz mem fr) (a div sz * sz + a mod sz) bs"
    by (rule view_patch [OF ok a l])
  moreover have "patch mem (?f * sz + a mod sz) bs ! k = mem ! k" if k: "k div sz \<notin> set fr" for k
  proof -
    have "k mod sz < sz" using ok by (simp add: blocks_ok_def)
    moreover have "?f \<noteq> k div sz" using k nth_mem [OF a] by metis
    ultimately show ?thesis using nth_patch_block [OF f l, of "k mod sz" "k div sz"] by simp
  qed
  ultimately show ?thesis using f l by (simp add: stored_def length_patch)
qed

lemma stored_append:
  assumes "stored sz fr m1 m2 a as" "stored sz fr m2 m3 b bs" "b = a + length as \<or> bs = []"
    "a + length as + length bs \<le> length fr * sz"
  shows "stored sz fr m1 m3 a (as @ bs)"
  using assms patch_append [of a as bs "view sz m1 fr"] by (auto simp: stored_def)

lemma stored_blocks_ok: "stored sz fr mem mem' a bs \<Longrightarrow> blocks_ok sz mem' g = blocks_ok sz mem g"
  by (simp add: stored_def blocks_ok_def)

text \<open>A view through other blocks is not affected.\<close>

lemma stored_other:
  assumes "stored sz fr mem mem' a bs" "blocks_ok sz mem g" "set fr \<inter> set g = {}"
  shows "view sz mem' g = view sz mem g"
  by (rule view_cong) (use assms in \<open>auto simp: stored_def\<close>)

text \<open>As \<open>stored\<close>, with any content of the view afterwards.\<close>

definition viewed :: "nat \<Rightarrow> nat list \<Rightarrow> byte list \<Rightarrow> byte list \<Rightarrow> byte list \<Rightarrow> bool" where
  "viewed sz fr mem mem' V \<longleftrightarrow> length mem' = length mem \<and> view sz mem' fr = V \<and>
     (\<forall>k < length mem. k div sz \<notin> set fr \<longrightarrow> mem' ! k = mem ! k)"

lemma stored_viewed: "stored sz fr mem mem' a bs \<longleftrightarrow> viewed sz fr mem mem' (patch (view sz mem fr) a bs)"
  by (simp add: stored_def viewed_def)

lemma viewed_refl: "viewed sz fr mem mem (view sz mem fr)"
  by (simp add: viewed_def)

lemma viewed_trans: "viewed sz fr m1 m2 V \<Longrightarrow> viewed sz fr m2 m3 W \<Longrightarrow> viewed sz fr m1 m3 W"
  by (simp add: viewed_def)

end
