(* ===== verification/Machine_Memory.thy ===== *)
theory Machine_Memory
  imports Paged_View
begin

text \<open>
  The memory system of the simulated MIPS workstation (\<^verbatim>\<open>machine/machine.h\<close>, \<^verbatim>\<open>machine/machine.cc\<close>,
  \<^verbatim>\<open>machine/translate.h\<close>, \<^verbatim>\<open>machine/translate.cc\<close>): registers, physical memory, the page table or TLB,
  address translation, and reads and writes of user memory. An \<^verbatim>\<open>int\<close> of the simulated machine is a
  \<open>32 word\<close>. The host is little-endian with a signed \<^verbatim>\<open>char\<close>.
  \<^verbatim>\<open>RaiseException\<close> enters the kernel; in \<^verbatim>\<open>machine/\<close> every call of it is followed by a return to \<^verbatim>\<open>Run\<close>, so
  the routines here return the exception as their outcome, with the machine state in which the
  kernel's \<^verbatim>\<open>ExceptionHandler\<close> is entered.
\<close>

datatype ExceptionType = NoException | SyscallException | PageFaultException | ReadOnlyException
  | BusErrorException | AddressErrorException | OverflowException | IllegalInstrException

definition StackReg :: nat where [nachos_consts]: "StackReg = 29"
definition RetAddrReg :: nat where [nachos_consts]: "RetAddrReg = 31"
definition NumGPRegs :: nat where [nachos_consts]: "NumGPRegs = 32"
definition HiReg :: nat where [nachos_consts]: "HiReg = 32"
definition LoReg :: nat where [nachos_consts]: "LoReg = 33"
definition PCReg :: nat where [nachos_consts]: "PCReg = 34"
definition NextPCReg :: nat where [nachos_consts]: "NextPCReg = 35"
definition PrevPCReg :: nat where [nachos_consts]: "PrevPCReg = 36"
definition LoadReg :: nat where [nachos_consts]: "LoadReg = 37"
definition LoadValueReg :: nat where [nachos_consts]: "LoadValueReg = 38"
definition BadVAddrReg :: nat where [nachos_consts]: "BadVAddrReg = 39"
definition NumTotalRegs :: nat where [nachos_consts]: "NumTotalRegs = 40"

record TranslationEntry =
  virtualPage :: "32 word"
  physicalPage :: "32 word"
  valid :: bool
  readOnly :: bool
  use_bit :: bool
  dirty :: bool

record machine =
  registers :: "32 word list"
  mainMemory :: "byte list"
  m_tlb :: "TranslationEntry list option"
  m_pageTable :: "TranslationEntry list option"
  pageTableSize :: "32 word"

section \<open>Byte order\<close>

definition WordToHost :: "32 word \<Rightarrow> 32 word" where
  "WordToHost w = w"

definition ShortToHost :: "16 word \<Rightarrow> 16 word" where
  "ShortToHost w = w"

definition WordToMachine :: "32 word \<Rightarrow> 32 word" where
  "WordToMachine w = WordToHost w"

definition ShortToMachine :: "16 word \<Rightarrow> 16 word" where
  "ShortToMachine w = ShortToHost w"

section \<open>Registers\<close>

text \<open>The constructor, without \<^verbatim>\<open>USE_TLB\<close>; \<^verbatim>\<open>CheckEndian\<close> passes on a little-endian host.\<close>

definition CheckEndian :: "unit result" where
  "CheckEndian = rassert (bytes_word 1 2 3 4 = 0x04030201)"

definition new_Machine :: "machine result" where
  "new_Machine =
     rbind CheckEndian (\<lambda>_. Inr \<lparr>registers = replicate NumTotalRegs 0,
        mainMemory = replicate (nat MemorySize) 0, m_tlb = None, m_pageTable = None, pageTableSize = 0\<rparr>)"

definition reg :: "machine \<Rightarrow> nat \<Rightarrow> 32 word" where
  "reg m k = registers m ! k"

definition set_reg :: "machine \<Rightarrow> nat \<Rightarrow> 32 word \<Rightarrow> machine" where
  "set_reg m k v = m\<lparr>registers := (registers m)[k := v]\<rparr>"

definition ReadRegister :: "machine \<Rightarrow> int \<Rightarrow> 32 word result" where
  "ReadRegister m num = rbind (rassert (num \<ge> 0 \<and> num < int NumTotalRegs)) (\<lambda>_. aread (registers m) num)"

definition WriteRegister :: "machine \<Rightarrow> int \<Rightarrow> 32 word \<Rightarrow> machine result" where
  "WriteRegister m num v =
     rbind (rassert (num \<ge> 0 \<and> num < int NumTotalRegs)) (\<lambda>_.
     rbind (awrite (registers m) num v) (\<lambda>rs. Inr (m\<lparr>registers := rs\<rparr>)))"

text \<open>\<^verbatim>\<open>registers[registers[LoadReg]] = registers[LoadValueReg]\<close> indexes with a register value.\<close>

definition DelayedLoad :: "machine \<Rightarrow> 32 word \<Rightarrow> 32 word \<Rightarrow> machine result" where
  "DelayedLoad m nextReg nextValue =
     rbind (awrite (registers m) (sint (reg m LoadReg)) (reg m LoadValueReg)) (\<lambda>rs.
     Inr (set_reg (set_reg (set_reg (m\<lparr>registers := rs\<rparr>) LoadReg nextReg) LoadValueReg nextValue) 0 0))"

text \<open>The part of \<^verbatim>\<open>RaiseException\<close> that changes the machine, up to the call of \<^verbatim>\<open>ExceptionHandler\<close>.\<close>

definition RaiseException :: "machine \<Rightarrow> 32 word \<Rightarrow> machine result" where
  "RaiseException m badVAddr = DelayedLoad (set_reg m BadVAddrReg badVAddr) 0 0"

section \<open>Translate\<close>

fun find_tlb :: "TranslationEntry list \<Rightarrow> nat \<Rightarrow> nat \<Rightarrow> 32 word \<Rightarrow> nat option" where
  "find_tlb t 0 i vpn = None"
| "find_tlb t (Suc n) i vpn =
     (if valid (t ! i) \<and> virtualPage (t ! i) = vpn then Some i else find_tlb t n (Suc i) vpn)"

definition misaligned :: "32 word \<Rightarrow> int \<Rightarrow> bool" where
  "misaligned virtAddr sz \<longleftrightarrow> (sz = 4 \<and> virtAddr AND 3 \<noteq> 0) \<or> (sz = 2 \<and> virtAddr AND 1 \<noteq> 0)"

text \<open>
  The check of one entry, common to page table and TLB: the exception, or the physical address and
  the entry with its use and dirty bits set.
\<close>

definition check_entry ::
  "TranslationEntry \<Rightarrow> 32 word \<Rightarrow> int \<Rightarrow> bool \<Rightarrow> (ExceptionType + int \<times> TranslationEntry) result" where
  "check_entry entry offset sz writing =
     (if readOnly entry \<and> writing then Inr (Inl ReadOnlyException)
      else let pageFrame = physicalPage entry in
        if uint pageFrame \<ge> NumPhysPages then Inr (Inl BusErrorException)
        else let e1 = entry\<lparr>use_bit := True\<rparr>;
                 e2 = (if writing then e1\<lparr>dirty := True\<rparr> else e1);
                 physAddr = uint pageFrame * PageSize + uint offset
             in rbind (rassert (physAddr \<ge> 0 \<and> physAddr + sz \<le> MemorySize)) (\<lambda>_.
                Inr (Inr (physAddr, e2))))"

definition Translate ::
  "machine \<Rightarrow> 32 word \<Rightarrow> int \<Rightarrow> bool \<Rightarrow> (ExceptionType + int \<times> machine) result" where
  "Translate m virtAddr sz writing =
     (if misaligned virtAddr sz then Inr (Inl AddressErrorException)
      else rbind (rassert (m_tlb m = None \<or> m_pageTable m = None)) (\<lambda>_.
      rbind (rassert (m_tlb m \<noteq> None \<or> m_pageTable m \<noteq> None)) (\<lambda>_.
      let vpn = virtAddr div word_of_int PageSize;
          offset = virtAddr mod word_of_int PageSize in
      case m_tlb m of
        None \<Rightarrow>
          if vpn \<ge> pageTableSize m then Inr (Inl AddressErrorException)
          else let pt = the (m_pageTable m) in
            rbind (aread pt (uint vpn)) (\<lambda>entry.
            if \<not> valid entry then Inr (Inl PageFaultException)
            else rbind (check_entry entry offset sz writing) (\<lambda>r. Inr (map_sum id
                   (\<lambda>(p, e). (p, m\<lparr>m_pageTable := Some (pt[unat vpn := e])\<rparr>)) r)))
      | Some tlb \<Rightarrow>
          if length tlb < nat TLBSize then Inl OutOfBounds
          else (case find_tlb tlb (nat TLBSize) 0 vpn of
              None \<Rightarrow> Inr (Inl PageFaultException)
            | Some i \<Rightarrow> rbind (check_entry (tlb ! i) offset sz writing) (\<lambda>r. Inr (map_sum id
                   (\<lambda>(p, e). (p, m\<lparr>m_tlb := Some (tlb[i := e])\<rparr>)) r))))))"

section \<open>ReadMem and WriteMem\<close>

text \<open>An access ends in a trap, or goes on with a value.\<close>

datatype 'a access = Trap ExceptionType machine | Done 'a machine

definition read_byte :: "machine \<Rightarrow> int \<Rightarrow> byte result" where
  "read_byte m p = aread (mainMemory m) p"

definition raise :: "machine \<Rightarrow> ExceptionType \<Rightarrow> 32 word \<Rightarrow> 'a access result" where
  "raise m e badVAddr = rbind (RaiseException m badVAddr) (\<lambda>m1. Inr (Trap e m1))"

definition ReadMem :: "machine \<Rightarrow> 32 word \<Rightarrow> int \<Rightarrow> 32 word access result" where
  "ReadMem m addr sz =
     rbind (Translate m addr sz False) (\<lambda>r. case r of
       Inl e \<Rightarrow> raise m e addr
     | Inr (p, m1) \<Rightarrow>
         if sz = 1 then rbind (read_byte m1 p) (\<lambda>a. Inr (Done (scast a) m1))
         else if sz = 2 then
           rbind (read_byte m1 p) (\<lambda>a. rbind (read_byte m1 (p + 1)) (\<lambda>b.
           Inr (Done (ucast (ShortToHost (ucast (bytes_word a b 0 0)))) m1)))
         else if sz = 4 then
           rbind (read_byte m1 p) (\<lambda>a. rbind (read_byte m1 (p + 1)) (\<lambda>b.
           rbind (read_byte m1 (p + 2)) (\<lambda>c. rbind (read_byte m1 (p + 3)) (\<lambda>d.
           Inr (Done (WordToHost (bytes_word a b c d)) m1)))))
         else Inl AssertFailed)"

fun write_bytes :: "byte list \<Rightarrow> int \<Rightarrow> byte list \<Rightarrow> byte list result" where
  "write_bytes mem p [] = Inr mem"
| "write_bytes mem p (b # bs) = rbind (awrite mem p b) (\<lambda>mem1. write_bytes mem1 (p + 1) bs)"

definition store_image :: "int \<Rightarrow> 32 word \<Rightarrow> byte list" where
  "store_image sz v =
     (if sz = 1 then [ucast (v AND 0xff)]
      else if sz = 2 then take 2 (word_bytes (ucast (ShortToMachine (ucast (v AND 0xffff)))))
      else word_bytes (WordToMachine v))"

definition WriteMem :: "machine \<Rightarrow> 32 word \<Rightarrow> int \<Rightarrow> 32 word \<Rightarrow> unit access result" where
  "WriteMem m addr sz v =
     rbind (Translate m addr sz True) (\<lambda>r. case r of
       Inl e \<Rightarrow> raise m e addr
     | Inr (p, m1) \<Rightarrow>
         if sz = 1 \<or> sz = 2 \<or> sz = 4
         then rbind (write_bytes (mainMemory m1) p (store_image sz v)) (\<lambda>mem.
              Inr (Done () (m1\<lparr>mainMemory := mem\<rparr>)))
         else Inl AssertFailed)"

section \<open>Well-formed machines\<close>

text \<open>
  The register file has its 40 registers, register 0 is zero, a pending delayed load targets a general
  purpose register, memory has its size, and exactly one of page table and TLB is installed.
\<close>

definition map_ok :: "machine \<Rightarrow> bool" where
  "map_ok m \<longleftrightarrow> (case (m_tlb m, m_pageTable m) of
       (None, Some pt) \<Rightarrow> length pt = unat (pageTableSize m)
     | (Some tlb, None) \<Rightarrow> length tlb = nat TLBSize
     | _ \<Rightarrow> False)"

definition cpu_ok :: "machine \<Rightarrow> bool" where
  "cpu_ok m \<longleftrightarrow> length (registers m) = NumTotalRegs \<and> reg m LoadReg < 32 \<and>
     length (mainMemory m) = nat MemorySize \<and> map_ok m"

definition machine_ok :: "machine \<Rightarrow> bool" where
  "machine_ok m \<longleftrightarrow> cpu_ok m \<and> reg m 0 = 0"

text \<open>The translation entries of the installed page table or TLB.\<close>

definition entries :: "machine \<Rightarrow> TranslationEntry list" where
  "entries m = (case m_tlb m of Some tlb \<Rightarrow> tlb | None \<Rightarrow> the (m_pageTable m))"

definition set_entries :: "machine \<Rightarrow> TranslationEntry list \<Rightarrow> machine" where
  "set_entries m es = (case m_tlb m of Some tlb \<Rightarrow> m\<lparr>m_tlb := Some es\<rparr> | None \<Rightarrow> m\<lparr>m_pageTable := Some es\<rparr>)"

text \<open>The index of the entry that maps a virtual page, or the exception the lookup ends in.\<close>

definition lookup :: "machine \<Rightarrow> 32 word \<Rightarrow> ExceptionType + nat" where
  "lookup m vpn = (case m_tlb m of
       None \<Rightarrow> if vpn \<ge> pageTableSize m then Inl AddressErrorException
               else if \<not> valid (entries m ! unat vpn) then Inl PageFaultException else Inr (unat vpn)
     | Some tlb \<Rightarrow> (case find_tlb tlb (nat TLBSize) 0 vpn of None \<Rightarrow> Inl PageFaultException | Some i \<Rightarrow> Inr i))"

lemma entries_memory [simp]:
  "entries (m\<lparr>mainMemory := mem\<rparr>) = entries m" "entries (m\<lparr>registers := rs\<rparr>) = entries m"
  by (simp_all add: entries_def split: option.splits)

lemma mod_PageSize: "uint (a mod word_of_int PageSize :: 32 word) = uint a mod 128"
  by (simp add: PageSize_def uint_mod)

lemma div_PageSize: "uint (a div word_of_int PageSize :: 32 word) = uint a div 128"
  by (simp add: PageSize_def uint_div)

lemma misaligned_iff:
  "misaligned a sz \<longleftrightarrow> (sz = 4 \<and> uint a mod 4 \<noteq> 0) \<or> (sz = 2 \<and> uint a mod 2 \<noteq> 0)"
  using uint_and_3 [of a] uint_and_1 [of a] by (auto simp: misaligned_def simp flip: uint_0_iff)

text \<open>An aligned access of 1, 2 or 4 bytes stays within its page.\<close>

lemma aligned_in_page:
  assumes "\<not> misaligned a sz" "sz \<in> {1, 2, 4}"
  shows "uint a mod 128 + sz \<le> 128"
proof -
  have "sz = 4 \<longrightarrow> (uint a mod 128) mod 4 = 0" "sz = 2 \<longrightarrow> (uint a mod 128) mod 2 = 0"
    using assms(1) by (auto simp: misaligned_iff mod_mod_cancel)
  moreover have "0 \<le> uint a mod 128" "uint a mod 128 < 128" by simp_all
  ultimately show ?thesis using assms(2) by auto
qed

lemma find_tlb_Some:
  "find_tlb t n i vpn = Some j \<Longrightarrow> i \<le> j \<and> j < i + n \<and> valid (t ! j) \<and> virtualPage (t ! j) = vpn"
  by (induction t n i vpn rule: find_tlb.induct) (auto split: if_splits)

lemma lookup_index:
  assumes "map_ok m" "lookup m vpn = Inr i"
  shows "i < length (entries m)" and "valid (entries m ! i)"
proof -
  have "i < length (entries m) \<and> valid (entries m ! i)"
  proof (cases "m_tlb m")
    case None
    then show ?thesis using assms
      by (auto simp: lookup_def map_ok_def entries_def word_le_nat_alt not_le split: if_splits option.splits)
  next
    case (Some tlb)
    then show ?thesis using assms find_tlb_Some [of tlb "nat TLBSize" 0 vpn i]
      by (auto simp: lookup_def map_ok_def entries_def split: option.splits)
  qed
  then show "i < length (entries m)" "valid (entries m ! i)" by simp_all
qed

text \<open>\<^verbatim>\<open>Translate\<close> on a well-formed machine, with the two kinds of tables treated alike.\<close>

lemma Translate_lookup:
  assumes "map_ok m"
  shows "Translate m a sz writing =
    (if misaligned a sz then Inr (Inl AddressErrorException)
     else case lookup m (a div word_of_int PageSize) of
       Inl e \<Rightarrow> Inr (Inl e)
     | Inr i \<Rightarrow> rbind (check_entry (entries m ! i) (a mod word_of_int PageSize) sz writing) (\<lambda>r.
         Inr (map_sum id (\<lambda>(p, e). (p, set_entries m ((entries m)[i := e]))) r)))"
proof (cases "m_tlb m")
  case None
  then obtain pt where pt: "m_pageTable m = Some pt" "length pt = unat (pageTableSize m)"
    using assms by (auto simp: map_ok_def split: option.splits)
  have "uint v < int (length pt)" if "\<not> v \<ge> pageTableSize m" for v
    using that pt(2) by (simp add: word_le_def)
  then have "\<not> v \<ge> pageTableSize m \<Longrightarrow> aread pt (uint v) = Inr (pt ! unat v)" for v
    by simp
  then show ?thesis using None pt
    by (simp add: Translate_def lookup_def entries_def set_entries_def Let_def)
next
  case (Some tlb)
  then have "length tlb = nat TLBSize" "m_pageTable m = None"
    using assms by (auto simp: map_ok_def split: option.splits)
  then show ?thesis using Some
    by (auto simp: Translate_def lookup_def entries_def set_entries_def Let_def split: option.splits)
qed

lemma check_entry_ok:
  assumes "\<not> misaligned a sz" "sz \<in> {1, 2, 4}"
  shows "check_entry e (a mod word_of_int PageSize) sz writing =
    Inr (if readOnly e \<and> writing then Inl ReadOnlyException
         else if uint (physicalPage e) \<ge> 128 then Inl BusErrorException
         else Inr (uint (physicalPage e) * 128 + uint a mod 128,
                   e\<lparr>use_bit := True, dirty := dirty e \<or> writing\<rparr>))"
  using aligned_in_page [OF assms]
  by (auto simp: check_entry_def Let_def uint_mod nachos_consts rassert_def not_le)

section \<open>Registers of well-formed machines\<close>

lemma reg_set_reg: "k < length (registers m) \<Longrightarrow> reg (set_reg m k v) j = (if j = k then v else reg m j)"
  by (simp add: reg_def set_reg_def)

lemma set_reg_simps [simp]:
  "length (registers (set_reg m k v)) = length (registers m)"
  "mainMemory (set_reg m k v) = mainMemory m" "m_tlb (set_reg m k v) = m_tlb m"
  "m_pageTable (set_reg m k v) = m_pageTable m" "pageTableSize (set_reg m k v) = pageTableSize m"
  by (simp_all add: set_reg_def)

lemma map_ok_set_reg [simp]: "map_ok (set_reg m k v) = map_ok m"
  by (simp add: map_ok_def split: option.splits)

lemma map_ok_registers [simp]: "map_ok (m\<lparr>registers := rs\<rparr>) = map_ok m"
  "map_ok (m\<lparr>mainMemory := mem\<rparr>) = map_ok m"
  by (simp_all add: map_ok_def split: option.splits)

lemma cpu_ok_set_reg:
  "cpu_ok m \<Longrightarrow> k < 40 \<Longrightarrow> k \<noteq> LoadReg \<Longrightarrow> cpu_ok (set_reg m k v)"
  by (simp add: cpu_ok_def reg_set_reg nachos_consts)

text \<open>The state \<^verbatim>\<open>DelayedLoad\<close> leaves when the pending load targets a general purpose register.\<close>

definition after_load :: "machine \<Rightarrow> 32 word \<Rightarrow> 32 word \<Rightarrow> machine" where
  "after_load m nextReg nextValue =
     set_reg (set_reg (set_reg (set_reg m (unat (reg m LoadReg)) (reg m LoadValueReg)) LoadReg nextReg)
       LoadValueReg nextValue) 0 0"

lemma small_word: "(w :: 32 word) < 32 \<Longrightarrow> sint w = int (unat w) \<and> unat w < 32 \<and> uint w < 32"
proof -
  assume w: "w < 32"
  then have u: "uint w < 32" by (simp add: word_less_def)
  then have "sint w = uint w" by (simp add: sint_small)
  then show ?thesis using w u by (simp add: word_less_nat_alt)
qed

lemma DelayedLoad_ok:
  assumes "cpu_ok m"
  shows "DelayedLoad m nextReg nextValue = Inr (after_load m nextReg nextValue)"
  using assms small_word [of "reg m LoadReg"]
  by (simp add: DelayedLoad_def after_load_def cpu_ok_def NumTotalRegs_def awrite_def set_reg_def
      nat_less_iff unat_eq_nat_uint del: unat_eq_nat_uint)

lemma after_load_simps [simp]:
  "mainMemory (after_load m r v) = mainMemory m" "m_tlb (after_load m r v) = m_tlb m"
  "m_pageTable (after_load m r v) = m_pageTable m" "pageTableSize (after_load m r v) = pageTableSize m"
  by (simp_all add: after_load_def)

lemma after_load_ok:
  assumes "cpu_ok m" "nextReg < 32"
  shows "machine_ok (after_load m nextReg nextValue)"
  using assms small_word [of "reg m LoadReg"]
  by (simp add: machine_ok_def cpu_ok_def after_load_def reg_set_reg nachos_consts)

lemma raise_ok:
  assumes "cpu_ok m"
  shows "\<exists>m'. raise m e badVAddr = Inr (Trap e m') \<and> machine_ok m' \<and> mainMemory m' = mainMemory m \<and>
    m_tlb m' = m_tlb m \<and> m_pageTable m' = m_pageTable m \<and> pageTableSize m' = pageTableSize m"
proof -
  have c: "cpu_ok (set_reg m BadVAddrReg badVAddr)"
    using assms by (intro cpu_ok_set_reg) (simp_all add: nachos_consts)
  have z: "(0 :: 32 word) < 32" by simp
  show ?thesis using DelayedLoad_ok [OF c] after_load_ok [OF c z]
    by (simp add: raise_def RaiseException_def)
qed

section \<open>Memory accesses of well-formed machines\<close>

text \<open>\<open>hit m a sz w i\<close>: the access is aligned and the entry \<open>i\<close> maps it and allows it.\<close>

definition hit :: "machine \<Rightarrow> 32 word \<Rightarrow> int \<Rightarrow> bool \<Rightarrow> nat \<Rightarrow> bool" where
  "hit m a sz writing i \<longleftrightarrow> \<not> misaligned a sz \<and> lookup m (a div word_of_int PageSize) = Inr i \<and>
     \<not> (readOnly (entries m ! i) \<and> writing) \<and> uint (physicalPage (entries m ! i)) < 128"

definition phys :: "machine \<Rightarrow> 32 word \<Rightarrow> nat \<Rightarrow> int" where
  "phys m a i = uint (physicalPage (entries m ! i)) * 128 + uint a mod 128"

definition touched :: "machine \<Rightarrow> nat \<Rightarrow> bool \<Rightarrow> machine" where
  "touched m i writing = set_entries m ((entries m)[i := (entries m ! i)
     \<lparr>use_bit := True, dirty := dirty (entries m ! i) \<or> writing\<rparr>])"

lemma Translate_hit:
  assumes "map_ok m" "sz \<in> {1, 2, 4}" "hit m a sz writing i"
  shows "Translate m a sz writing = Inr (Inr (phys m a i, touched m i writing))"
  using assms
  by (simp add: Translate_lookup hit_def check_entry_ok phys_def touched_def not_le)

lemma Translate_miss:
  assumes "map_ok m" "sz \<in> {1, 2, 4}" "\<nexists>i. hit m a sz writing i"
  shows "\<exists>e. Translate m a sz writing = Inr (Inl e) \<and> e \<noteq> NoException"
proof (cases "misaligned a sz")
  case True
  then show ?thesis using assms(1) by (simp add: Translate_lookup)
next
  case al: False
  show ?thesis
  proof (cases "lookup m (a div word_of_int PageSize)")
    case (Inl e)
    then show ?thesis using al assms(1)
      by (auto simp: Translate_lookup) (auto simp: lookup_def split: option.splits if_splits)
  next
    case (Inr i)
    then show ?thesis using al assms by (auto simp: Translate_lookup hit_def check_entry_ok not_less)
  qed
qed

lemma hit_phys:
  assumes "sz \<in> {1, 2, 4}" "hit m a sz writing i"
  shows "0 \<le> phys m a i" and "phys m a i + sz \<le> 16384"
    and "0 \<le> k \<Longrightarrow> k < sz \<Longrightarrow> (phys m a i + k) div 128 = uint (physicalPage (entries m ! i))"
proof -
  have o: "uint a mod 128 + sz \<le> 128" using assms aligned_in_page by (simp add: hit_def)
  have f: "0 \<le> uint (physicalPage (entries m ! i))" "uint (physicalPage (entries m ! i)) < 128"
    using assms(2) by (simp_all add: hit_def)
  show "0 \<le> phys m a i" using f by (simp add: phys_def)
  show "phys m a i + sz \<le> 16384" using f o by (simp add: phys_def)
  show "(phys m a i + k) div 128 = uint (physicalPage (entries m ! i))" if "0 \<le> k" "k < sz"
  proof -
    have "0 \<le> uint a mod 128 + k" "uint a mod 128 + k < 128" using that o by simp_all
    then have "(uint a mod 128 + k) div 128 = 0" by simp
    then show ?thesis by (simp add: phys_def add.assoc)
  qed
qed

lemma entries_touched:
  "map_ok m \<Longrightarrow> entries (touched m i w) = (entries m)[i := (entries m ! i)
     \<lparr>use_bit := True, dirty := dirty (entries m ! i) \<or> w\<rparr>]"
  by (auto simp: touched_def set_entries_def entries_def split: option.splits)

lemma touched_simps [simp]:
  "registers (touched m i w) = registers m" "mainMemory (touched m i w) = mainMemory m"
  "pageTableSize (touched m i w) = pageTableSize m" "reg (touched m i w) k = reg m k"
  by (simp_all add: touched_def set_entries_def reg_def split: option.splits)

lemma map_ok_touched [simp]: "map_ok m \<Longrightarrow> map_ok (touched m i w)"
  by (auto simp: touched_def set_entries_def entries_def map_ok_def split: option.splits)

lemma cpu_ok_touched [simp]: "cpu_ok m \<Longrightarrow> cpu_ok (touched m i w)"
  by (simp add: cpu_ok_def)

lemma cpu_ok_memory [simp]:
  "cpu_ok m \<Longrightarrow> length mem = length (mainMemory m) \<Longrightarrow> cpu_ok (m\<lparr>mainMemory := mem\<rparr>)"
  by (simp add: cpu_ok_def reg_def)

text \<open>The value a read of \<open>sz\<close> bytes at a physical address delivers.\<close>

definition load_value :: "byte list \<Rightarrow> int \<Rightarrow> int \<Rightarrow> 32 word" where
  "load_value mem p sz =
     (if sz = 1 then scast (mem ! nat p)
      else if sz = 2 then ucast (ucast (bytes_word (mem ! nat p) (mem ! nat (p + 1)) 0 0) :: 16 word)
      else bytes_word (mem ! nat p) (mem ! nat (p + 1)) (mem ! nat (p + 2)) (mem ! nat (p + 3)))"

lemma ReadMem_hit:
  assumes c: "cpu_ok m" and sz: "sz \<in> {1, 2, 4}" and h: "hit m a sz False i"
  shows "ReadMem m a sz = Inr (Done (load_value (mainMemory m) (phys m a i) sz) (touched m i False))"
proof -
  have l: "length (mainMemory m) = 16384" using c by (simp add: cpu_ok_def nachos_consts)
  note t = Translate_hit [OF _ sz h]
  show ?thesis using c sz l hit_phys(1,2) [OF sz h]
    by (auto simp: ReadMem_def t cpu_ok_def read_byte_def load_value_def WordToHost_def ShortToHost_def)
qed

lemma ReadMem_miss:
  assumes "cpu_ok m" "sz \<in> {1, 2, 4}" "\<nexists>i. hit m a sz False i"
  shows "\<exists>e m'. ReadMem m a sz = Inr (Trap e m') \<and> e \<noteq> NoException \<and> machine_ok m' \<and>
    mainMemory m' = mainMemory m \<and> m_tlb m' = m_tlb m \<and> m_pageTable m' = m_pageTable m \<and>
    pageTableSize m' = pageTableSize m"
proof -
  obtain e where e: "Translate m a sz False = Inr (Inl e)" "e \<noteq> NoException"
    using Translate_miss [of m sz a False] assms cpu_ok_def by blast
  then show ?thesis using raise_ok [OF assms(1), of e a] by (auto simp: ReadMem_def)
qed

lemma write_bytes_patch:
  "0 \<le> p \<Longrightarrow> p + int (length bs) \<le> int (length mem) \<Longrightarrow>
   write_bytes mem p bs = Inr (patch mem (nat p) bs)"
proof (induction bs arbitrary: mem p)
  case Nil
  then show ?case by (simp add: patch_def)
next
  case (Cons b bs)
  have "write_bytes (mem[nat p := b]) (p + 1) bs = Inr (patch (mem[nat p := b]) (nat (p + 1)) bs)"
    using Cons.prems by (intro Cons.IH) simp_all
  moreover have "patch (mem[nat p := b]) (nat (p + 1)) bs = patch mem (nat p) (b # bs)"
    using Cons.prems patch_Cons [of "nat p" bs mem b] by (simp add: nat_add_distrib)
  ultimately show ?case using Cons.prems by simp
qed

lemma length_store_image: "sz \<in> {1, 2, 4} \<Longrightarrow> int (length (store_image sz v)) = sz"
  by (auto simp: store_image_def)

lemma WriteMem_hit:
  assumes c: "cpu_ok m" and sz: "sz \<in> {1, 2, 4}" and h: "hit m a sz True i"
  shows "WriteMem m a sz v = Inr (Done () ((touched m i True)
    \<lparr>mainMemory := patch (mainMemory m) (nat (phys m a i)) (store_image sz v)\<rparr>))"
proof -
  have l: "length (mainMemory m) = 16384" using c by (simp add: cpu_ok_def nachos_consts)
  have "write_bytes (mainMemory m) (phys m a i) (store_image sz v) =
      Inr (patch (mainMemory m) (nat (phys m a i)) (store_image sz v))"
    using hit_phys(1,2) [OF sz h] l length_store_image [OF sz, of v] by (intro write_bytes_patch) simp_all
  then show ?thesis using c sz Translate_hit [OF _ sz h] by (auto simp: WriteMem_def cpu_ok_def)
qed

lemma WriteMem_miss:
  assumes "cpu_ok m" "sz \<in> {1, 2, 4}" "\<nexists>i. hit m a sz True i"
  shows "\<exists>e m'. WriteMem m a sz v = Inr (Trap e m') \<and> e \<noteq> NoException \<and> machine_ok m' \<and>
    mainMemory m' = mainMemory m \<and> m_tlb m' = m_tlb m \<and> m_pageTable m' = m_pageTable m \<and>
    pageTableSize m' = pageTableSize m"
proof -
  obtain e where e: "Translate m a sz True = Inr (Inl e)" "e \<noteq> NoException"
    using Translate_miss [of m sz a True] assms cpu_ok_def by blast
  then show ?thesis using raise_ok [OF assms(1), of e a] by (auto simp: WriteMem_def)
qed

section \<open>A translation stays valid after it was used\<close>

lemma find_tlb_cong:
  "(\<And>k. i \<le> k \<Longrightarrow> k < i + n \<Longrightarrow> valid (t ! k) = valid (t' ! k) \<and> virtualPage (t ! k) = virtualPage (t' ! k)) \<Longrightarrow>
   find_tlb t n i vpn = find_tlb t' n i vpn"
  by (induction n arbitrary: i) auto

lemma lookup_touched:
  assumes "map_ok m" "i < length (entries m)"
  shows "lookup (touched m i w) vpn = lookup m vpn"
proof (cases "m_tlb m")
  case None
  then show ?thesis using assms entries_touched [OF assms(1), of i w]
    by (auto simp: lookup_def touched_def set_entries_def entries_def nth_list_update)
next
  case (Some tlb)
  let ?t = "tlb[i := (tlb ! i)\<lparr>use_bit := True, dirty := dirty (tlb ! i) \<or> w\<rparr>]"
  have "find_tlb ?t (nat TLBSize) 0 vpn = find_tlb tlb (nat TLBSize) 0 vpn"
    using assms(2) Some by (intro find_tlb_cong) (auto simp: nth_list_update entries_def)
  then show ?thesis using Some by (simp add: lookup_def touched_def set_entries_def entries_def)
qed

lemma hit_index: "map_ok m \<Longrightarrow> hit m a sz w i \<Longrightarrow> i < length (entries m)"
  using lookup_index by (auto simp: hit_def)

lemma hit_touched:
  assumes "map_ok m" "i < length (entries m)"
  shows "hit (touched m i w) a sz w' j = hit m a sz w' j" and "phys (touched m i w) a j = phys m a j"
  using assms lookup_touched [OF assms] by (auto simp: hit_def phys_def entries_touched nth_list_update)

lemma hit_memory [simp]:
  "hit (m\<lparr>mainMemory := mem\<rparr>) a sz w j = hit m a sz w j" "phys (m\<lparr>mainMemory := mem\<rparr>) a j = phys m a j"
  by (simp_all add: hit_def phys_def lookup_def entries_def split: option.splits)

lemma hit_read: "hit m a sz True i \<Longrightarrow> hit m a sz False i"
  by (simp add: hit_def)

text \<open>What a load of \<open>sz\<close> bytes sees of a stored value.\<close>

definition narrow :: "int \<Rightarrow> 32 word \<Rightarrow> 32 word" where
  "narrow sz v = (if sz = 1 then scast (ucast v :: byte) else if sz = 2 then v AND 0xffff else v)"

lemma and_ffff: "ucast (ucast (v AND 0xffff :: 32 word) :: 16 word) = v AND 0xffff"
  by (rule bit_word_eqI) (auto simp only: bit_unsigned_iff bit_and_iff bit_low_mask, simp_all)

lemma half_word_image:
  "(ucast (bytes_word (word_bytes (ucast h) ! 0) (word_bytes (ucast h) ! 1) 0 0) :: 16 word) = h"
  by (rule bit_word_eqI) (auto simp: bit_bytes_word word_bytes_def bit_simps)

lemma load_store_image:
  assumes "sz \<in> {1, 2, 4}" "0 \<le> p" "p + sz \<le> int (length mem)"
  shows "load_value (patch mem (nat p) (store_image sz v)) p sz = narrow sz v"
proof -
  have k: "nat p + length (store_image sz v) \<le> length mem"
    using assms length_store_image [OF assms(1), of v] by (simp add: nat_le_iff flip: of_nat_le_iff)
  consider "sz = 1" | "sz = 2" | "sz = 4" using assms(1) by auto
  then show ?thesis
  proof cases
    case 1
    have "(ucast (v AND 0xff) :: byte) = ucast v"
      by (rule bit_word_eqI) (auto simp only: bit_unsigned_iff bit_and_iff bit_low_mask, simp)
    then show ?thesis using 1 k by (simp add: load_value_def nth_patch store_image_def narrow_def)
  next
    case 2
    then show ?thesis using k assms(2) half_word_image [of "ucast (v AND 0xffff)"] and_ffff [of v]
      by (simp add: load_value_def nth_patch store_image_def narrow_def nat_add_distrib
          ShortToMachine_def ShortToHost_def)
  next
    case 4: 3
    have "bytes_word (word_bytes v ! 0) (word_bytes v ! 1) (word_bytes v ! 2) (word_bytes v ! 3) = v"
      by (rule bytes_word_bytes)
    then show ?thesis using 4 k assms(2)
      by (simp add: load_value_def nth_patch store_image_def narrow_def nat_add_distrib
          WordToMachine_def WordToHost_def)
  qed
qed

section \<open>Protection\<close>

text \<open>
  \<open>user_step m m'\<close>: the mapping from virtual to physical pages and the protection bits are the same in
  both states, and every byte of physical memory that differs lies in a frame that a valid,
  writable entry maps.
\<close>

definition same_mapping :: "machine \<Rightarrow> machine \<Rightarrow> bool" where
  "same_mapping m m' \<longleftrightarrow> pageTableSize m' = pageTableSize m \<and> (m_tlb m' = None \<longleftrightarrow> m_tlb m = None) \<and>
     map (\<lambda>e. (virtualPage e, physicalPage e, valid e, readOnly e)) (entries m') =
     map (\<lambda>e. (virtualPage e, physicalPage e, valid e, readOnly e)) (entries m)"

definition writable_frames :: "machine \<Rightarrow> int set" where
  "writable_frames m = {uint (physicalPage e) | e. e \<in> set (entries m) \<and> valid e \<and> \<not> readOnly e}"

definition user_step :: "machine \<Rightarrow> machine \<Rightarrow> bool" where
  "user_step m m' \<longleftrightarrow> same_mapping m m' \<and> length (mainMemory m') = length (mainMemory m) \<and>
     (\<forall>k < length (mainMemory m). mainMemory m' ! k \<noteq> mainMemory m ! k \<longrightarrow> int k div 128 \<in> writable_frames m)"

lemma writable_frames_map:
  "writable_frames m = (\<lambda>(v, p, va, ro). uint p) ` {t \<in> set (map (\<lambda>e. (virtualPage e, physicalPage e, valid e, readOnly e))
     (entries m)). fst (snd (snd t)) \<and> \<not> snd (snd (snd t))}"
  by (force simp: writable_frames_def)

lemma same_mapping_frames: "same_mapping m m' \<Longrightarrow> writable_frames m' = writable_frames m"
  unfolding writable_frames_map by (simp only: same_mapping_def)

lemma user_step_refl [simp, intro]: "user_step m m"
  by (simp add: user_step_def same_mapping_def)

lemma user_step_trans: "user_step m1 m2 \<Longrightarrow> user_step m2 m3 \<Longrightarrow> user_step m1 m3"
  using same_mapping_frames [of m1 m2] unfolding user_step_def
  by (auto simp: same_mapping_def)

lemma user_step_same:
  assumes "mainMemory m' = mainMemory m" "m_tlb m' = m_tlb m" "m_pageTable m' = m_pageTable m"
    "pageTableSize m' = pageTableSize m"
  shows "user_step m m'"
  using assms by (simp add: user_step_def same_mapping_def entries_def split: option.splits)

lemma user_step_set_reg [simp]: "user_step m (set_reg m k v)"
  by (rule user_step_same) simp_all

lemma user_step_after_load [simp]: "user_step m (after_load m r v)"
  by (rule user_step_same) simp_all

lemma same_mapping_touched:
  assumes "map_ok m"
  shows "same_mapping m (touched m i w)"
proof -
  have "map (\<lambda>e. (virtualPage e, physicalPage e, valid e, readOnly e)) (entries (touched m i w)) =
      map (\<lambda>e. (virtualPage e, physicalPage e, valid e, readOnly e)) (entries m)"
    by (cases "i < length (entries m)", rule nth_equalityI)
      (auto simp: entries_touched [OF assms] nth_list_update list_update_beyond)
  moreover have "m_tlb (touched m i w) = None \<longleftrightarrow> m_tlb m = None"
    by (simp add: touched_def set_entries_def split: option.splits)
  ultimately show ?thesis by (simp add: same_mapping_def)
qed

lemma user_step_touched: "map_ok m \<Longrightarrow> user_step m (touched m i w)"
  using same_mapping_touched by (simp add: user_step_def)

lemma user_step_write:
  assumes c: "cpu_ok m" and sz: "sz \<in> {1, 2, 4}" and h: "hit m a sz True i"
  shows "user_step m ((touched m i True)\<lparr>mainMemory := patch (mainMemory m) (nat (phys m a i)) (store_image sz v)\<rparr>)"
    (is "user_step m ?m'")
proof -
  let ?p = "nat (phys m a i)"
  have ok: "map_ok m" using c by (simp add: cpu_ok_def)
  note ph = hit_phys [OF sz h]
  have l: "?p + length (store_image sz v) \<le> length (mainMemory m)"
    using ph(1,2) length_store_image [OF sz, of v] c by (simp add: cpu_ok_def nachos_consts)
  have "uint (physicalPage (entries m ! i)) \<in> writable_frames m"
    using h hit_index [OF ok h] lookup_index(2) [OF ok]
    by (auto simp: writable_frames_def hit_def intro!: exI [of _ "entries m ! i"])
  moreover have "int k div 128 = uint (physicalPage (entries m ! i))"
    if "?p \<le> k" "k < ?p + length (store_image sz v)" for k
    using ph(1) ph(3) [of "int k - phys m a i"] that length_store_image [OF sz, of v] by simp
  moreover have "same_mapping m ?m'"
    using same_mapping_touched [OF ok, of i True] by (simp add: same_mapping_def)
  ultimately show ?thesis using l
    by (auto simp: user_step_def length_patch nth_patch split: if_splits)
qed

text \<open>Both kinds of access, seen by the instructions that make them.\<close>

lemma ReadMem_cases:
  assumes c: "cpu_ok m" and sz: "sz \<in> {1, 2, 4}"
  obtains (hit) i m' where "hit m a sz False i" "m' = touched m i False" "cpu_ok m'" "user_step m m'"
      "registers m' = registers m" "ReadMem m a sz = Inr (Done (load_value (mainMemory m) (phys m a i) sz) m')"
  | (miss) e m' where "ReadMem m a sz = Inr (Trap e m')" "e \<noteq> NoException" "machine_ok m'" "user_step m m'"
proof (cases "\<exists>i. hit m a sz False i")
  case True
  then obtain i where i: "hit m a sz False i" by blast
  have "map_ok m" using c by (simp add: cpu_ok_def)
  then show ?thesis
    using that(1) [OF i refl] ReadMem_hit [OF c sz i] cpu_ok_touched [OF c] user_step_touched by simp
next
  case False
  then show ?thesis using that(2) ReadMem_miss [OF c sz False] user_step_same by metis
qed

lemma WriteMem_cases:
  assumes c: "cpu_ok m" and sz: "sz \<in> {1, 2, 4}"
  obtains (hit) i m' where "hit m a sz True i" "cpu_ok m'" "user_step m m'" "registers m' = registers m"
      "m' = (touched m i True)\<lparr>mainMemory := patch (mainMemory m) (nat (phys m a i)) (store_image sz v)\<rparr>"
      "WriteMem m a sz v = Inr (Done () m')"
  | (miss) e m' where "WriteMem m a sz v = Inr (Trap e m')" "e \<noteq> NoException" "machine_ok m'" "user_step m m'"
proof (cases "\<exists>i. hit m a sz True i")
  case True
  then obtain i where i: "hit m a sz True i" by blast
  have "nat (phys m a i) + length (store_image sz v) \<le> length (mainMemory m)"
    using hit_phys(1,2) [OF sz i] length_store_image [OF sz, of v] c by (simp add: cpu_ok_def nachos_consts)
  then have "cpu_ok ((touched m i True)\<lparr>mainMemory := patch (mainMemory m) (nat (phys m a i)) (store_image sz v)\<rparr>)"
    using cpu_ok_touched [OF c] by (simp add: length_patch)
  then show ?thesis
    using that(1) [OF i] WriteMem_hit [OF c sz i] user_step_write [OF c sz i] by simp
next
  case False
  then show ?thesis using that(2) WriteMem_miss [OF c sz False] user_step_same by metis
qed

section \<open>Properties\<close>

text \<open>
  \<open>maps_page m i v\<close>: entry \<open>i\<close> is the one that translates virtual page \<open>v\<close>: the valid entry at index \<open>v\<close> of a page table, the
  first valid entry of a TLB that holds \<open>v\<close>.
\<close>

definition maps_page :: "machine \<Rightarrow> nat \<Rightarrow> int \<Rightarrow> bool" where
  "maps_page m i v \<longleftrightarrow> i < length (entries m) \<and> valid (entries m ! i) \<and>
     (if m_tlb m = None then int i = v
      else uint (virtualPage (entries m ! i)) = v \<and>
        (\<forall>j < i. \<not> (valid (entries m ! j) \<and> uint (virtualPage (entries m ! j)) = v)))"

lemma find_tlb_first:
  "find_tlb t n i vpn = Some j \<Longrightarrow> \<forall>k. i \<le> k \<and> k < j \<longrightarrow> \<not> (valid (t ! k) \<and> virtualPage (t ! k) = vpn)"
proof (induction t n i vpn rule: find_tlb.induct)
  case (2 t n i vpn)
  have "\<not> (valid (t ! k) \<and> virtualPage (t ! k) = vpn)" if "i \<le> k" "k < j" for k
    using 2 that by (cases "k = i") (auto split: if_splits)
  then show ?case by blast
qed simp

lemma find_tlb_None:
  "find_tlb t n i vpn = None \<longleftrightarrow> (\<forall>k. i \<le> k \<and> k < i + n \<longrightarrow> \<not> (valid (t ! k) \<and> virtualPage (t ! k) = vpn))"
proof (induction t n i vpn rule: find_tlb.induct)
  case (2 t n i vpn)
  have "(\<forall>k. i \<le> k \<and> k < i + Suc n \<longrightarrow> P k) \<longleftrightarrow> P i \<and> (\<forall>k. Suc i \<le> k \<and> k < Suc i + n \<longrightarrow> P k)" for P
    by (auto simp: Suc_le_eq) (metis Suc_leI add_Suc le_eq_less_or_eq)
  then show ?case using 2 by simp
qed auto

lemma maps_page_unique: "maps_page m i v \<Longrightarrow> maps_page m j v \<Longrightarrow> i = j"
  by (auto simp: maps_page_def split: if_splits) (metis nat_neq_iff)

lemma lookup_maps:
  assumes "map_ok m" "lookup m vpn = Inr i"
  shows "maps_page m i (uint vpn)"
proof (cases "m_tlb m")
  case None
  then show ?thesis using lookup_index [OF assms] assms(2) by (auto simp: maps_page_def lookup_def split: if_splits)
next
  case (Some tlb)
  then have f: "find_tlb tlb (nat TLBSize) 0 vpn = Some i" using assms(2) by (auto simp: lookup_def split: option.splits)
  show ?thesis using lookup_index [OF assms] find_tlb_Some [OF f] find_tlb_first [OF f] Some
    by (simp add: maps_page_def entries_def word_uint_eq_iff)
qed

lemma lookup_error:
  assumes "map_ok m" "lookup m vpn = Inl e"
  shows "(m_tlb m = None \<and> uint (pageTableSize m) \<le> uint vpn \<and> e = AddressErrorException) \<or>
    (\<not> (m_tlb m = None \<and> uint (pageTableSize m) \<le> uint vpn) \<and> (\<nexists>i. maps_page m i (uint vpn)) \<and> e = PageFaultException)"
proof (cases "m_tlb m")
  case None
  have "i = unat vpn" if "int i = uint vpn" for i using that by (metis nat_int unat_eq_nat_uint)
  then show ?thesis using None assms(2) by (auto simp: maps_page_def lookup_def word_le_def split: if_splits)
next
  case (Some tlb)
  then have "find_tlb tlb (nat TLBSize) 0 vpn = None" "e = PageFaultException" "length tlb = nat TLBSize"
    using assms by (auto simp: lookup_def map_ok_def split: option.splits)
  then show ?thesis using Some by (auto simp: find_tlb_None maps_page_def entries_def word_uint_eq_iff)
qed

lemma lookup_in_table:
  "lookup m vpn = Inr i \<Longrightarrow> \<not> (m_tlb m = None \<and> uint (pageTableSize m) \<le> uint vpn)"
  by (auto simp: lookup_def word_le_def split: if_splits option.splits)

lemma misaligned_mod: "sz \<in> {1, 2, 4} \<Longrightarrow> misaligned a sz \<longleftrightarrow> uint a mod sz \<noteq> 0"
  by (auto simp: misaligned_iff)

lemma Translate_mapped:
  assumes "map_ok m" "sz \<in> {1, 2, 4}" "\<not> misaligned a sz" "lookup m (a div word_of_int PageSize) = Inr i"
  shows "let e = entries m ! i in
        if w \<and> readOnly e then Translate m a sz w = Inr (Inl ReadOnlyException)
        else if NumPhysPages \<le> uint (physicalPage e) then Translate m a sz w = Inr (Inl BusErrorException)
        else \<exists>p. Translate m a sz w = Inr (Inr (p, set_entries m ((entries m)[i := e\<lparr>use_bit := True, dirty := dirty e \<or> w\<rparr>]))) \<and>
          p = uint (physicalPage e) * PageSize + uint a mod PageSize"
proof -
  have "PageSize = 128" "NumPhysPages = 128" by (simp_all add: nachos_consts)
  then show ?thesis
    using assms Translate_lookup [OF assms(1), of a sz w] check_entry_ok [OF assms(3,2), of "entries m ! i" w]
    by (auto simp: Let_def)
qed

text \<open>
  C25: address translation, exactly. On a machine with exactly one of page table and TLB, \<^verbatim>\<open>Translate\<close> of an access of 1, 2 or 4
  bytes never fails an assertion nor indexes out of the table. An unaligned address, or one beyond the page table, is an
  address error; a page that no valid entry maps is a page fault; a write through a read-only entry and a frame that does
  not exist raise their exceptions; every other access succeeds, with the frame of the entry that maps the page of the
  address (at its index in the page table, found by its virtual page in the TLB) and the offset of the address, and sets the
  use bit, and on a write the dirty bit, of that entry. The accessed bytes then all lie within main memory and in that
  frame, and the mapping, the registers and memory are unchanged.
\<close>

theorem Translate_safe:
  assumes "map_ok m" "sz \<in> {1, 2, 4}"
  shows "(if uint a mod sz \<noteq> 0 \<or> (m_tlb m = None \<and> uint (pageTableSize m) \<le> uint a div PageSize)
     then Translate m a sz w = Inr (Inl AddressErrorException)
     else if \<nexists>i. maps_page m i (uint a div PageSize) then Translate m a sz w = Inr (Inl PageFaultException)
     else \<exists>i. maps_page m i (uint a div PageSize) \<and>
       (let e = entries m ! i in
        if w \<and> readOnly e then Translate m a sz w = Inr (Inl ReadOnlyException)
        else if NumPhysPages \<le> uint (physicalPage e) then Translate m a sz w = Inr (Inl BusErrorException)
        else \<exists>p. Translate m a sz w = Inr (Inr (p, set_entries m ((entries m)[i := e\<lparr>use_bit := True, dirty := dirty e \<or> w\<rparr>]))) \<and>
          p = uint (physicalPage e) * PageSize + uint a mod PageSize)) \<and>
    (\<forall>p m'. Translate m a sz w = Inr (Inr (p, m')) \<longrightarrow> 0 \<le> p \<and> p + sz \<le> MemorySize \<and>
       (\<forall>k. 0 \<le> k \<and> k < sz \<longrightarrow> (p + k) div PageSize = p div PageSize) \<and>
       same_mapping m m' \<and> registers m' = registers m \<and> mainMemory m' = mainMemory m)"
proof (intro conjI allI impI)
  let ?v = "a div word_of_int PageSize :: 32 word"
  have v: "uint ?v = uint a div PageSize" by (simp only: div_PageSize) (simp add: PageSize_def)
  show "if uint a mod sz \<noteq> 0 \<or> (m_tlb m = None \<and> uint (pageTableSize m) \<le> uint a div PageSize)
     then Translate m a sz w = Inr (Inl AddressErrorException)
     else if \<nexists>i. maps_page m i (uint a div PageSize) then Translate m a sz w = Inr (Inl PageFaultException)
     else \<exists>i. maps_page m i (uint a div PageSize) \<and>
       (let e = entries m ! i in
        if w \<and> readOnly e then Translate m a sz w = Inr (Inl ReadOnlyException)
        else if NumPhysPages \<le> uint (physicalPage e) then Translate m a sz w = Inr (Inl BusErrorException)
        else \<exists>p. Translate m a sz w = Inr (Inr (p, set_entries m ((entries m)[i := e\<lparr>use_bit := True, dirty := dirty e \<or> w\<rparr>]))) \<and>
          p = uint (physicalPage e) * PageSize + uint a mod PageSize)"
  proof (cases "misaligned a sz")
    case True
    then show ?thesis using misaligned_mod [OF assms(2)] Translate_lookup [OF assms(1)] by simp
  next
    case al: False
    show ?thesis
    proof (cases "lookup m ?v")
      case (Inl e)
      then show ?thesis using al misaligned_mod [OF assms(2), of a] lookup_error [OF assms(1) Inl, unfolded v]
          Translate_lookup [OF assms(1), of a sz w] by (simp only: sum.case if_False) auto
    next
      case (Inr i)
      have i: "maps_page m i (uint a div PageSize)" using lookup_maps [OF assms(1) Inr] v by simp
      have c1: "\<not> (uint a mod sz \<noteq> 0 \<or> (m_tlb m = None \<and> uint (pageTableSize m) \<le> uint a div PageSize))"
        using lookup_in_table [OF Inr] v al misaligned_mod [OF assms(2), of a] by simp
      have c2: "\<not> (\<nexists>i. maps_page m i (uint a div PageSize))" using i by blast
      show ?thesis using i Translate_mapped [OF assms al Inr] unfolding if_not_P [OF c1] if_not_P [OF c2] by blast
    qed
  qed
next
  fix p m' assume t: "Translate m a sz w = Inr (Inr (p, m'))"
  obtain i where h: "hit m a sz w i" using t Translate_miss [OF assms, of a w] by fastforce
  have "m' = touched m i w" "p = phys m a i" using t Translate_hit [OF assms h] by simp_all
  moreover have "(phys m a i + 0) div PageSize = uint (physicalPage (entries m ! i))"
    using hit_phys(3) [OF assms(2) h, of 0] assms(2) by (auto simp: nachos_consts)
  ultimately show "0 \<le> p" "p + sz \<le> MemorySize"
      "\<And>k. 0 \<le> k \<and> k < sz \<Longrightarrow> (p + k) div PageSize = p div PageSize"
      "same_mapping m m'" "registers m' = registers m" "mainMemory m' = mainMemory m"
    using hit_phys [OF assms(2) h] same_mapping_touched [OF assms(1), of i w] by (auto simp: nachos_consts)
qed

definition demo_machine :: machine where
  "demo_machine = \<lparr>registers = replicate 40 0, mainMemory = replicate 16384 0, m_tlb = None,
     m_pageTable = Some [\<lparr>virtualPage = 0, physicalPage = 5, valid = True, readOnly = False,
       use_bit = False, dirty = False\<rparr>], pageTableSize = 1\<rparr>"

lemma demo_machine_ok: "machine_ok demo_machine"
  by (simp add: machine_ok_def cpu_ok_def map_ok_def demo_machine_def reg_def nachos_consts)

lemma demo_map_ok: "map_ok demo_machine"
  using demo_machine_ok by (simp add: machine_ok_def cpu_ok_def)

theorem Translate_safe_witness:
  "Translate demo_machine 8 4 True = Inr (Inr (5 * 128 + 8, set_entries demo_machine
     ((entries demo_machine)[0 := (entries demo_machine ! 0)\<lparr>use_bit := True, dirty := True\<rparr>])))"
proof -
  have "maps_page demo_machine i 0 \<longleftrightarrow> i = 0" for i
    by (auto simp: maps_page_def demo_machine_def entries_def)
  moreover have "m_tlb demo_machine = None" "pageTableSize demo_machine = 1" "readOnly (entries demo_machine ! 0) = False"
    "physicalPage (entries demo_machine ! 0) = 5" by (simp_all add: demo_machine_def entries_def)
  moreover have "uint (8 :: 32 word) = 8" "uint (5 :: 32 word) = 5" by simp_all
  ultimately show ?thesis using conjunct1 [OF Translate_safe [OF demo_map_ok, of 4 8 True]]
    by (simp add: nachos_consts Let_def)
qed

text \<open>
  C22: a value written to user memory is read back. After a successful \<^verbatim>\<open>WriteMem\<close> of 1, 2 or 4 bytes,
  \<^verbatim>\<open>ReadMem\<close> at the same address with the same size succeeds and delivers the value: the whole word for
  4 bytes, its low half zero-extended for 2, its low byte sign-extended for 1.
\<close>

theorem read_after_write:
  assumes "cpu_ok m" "sz \<in> {1, 2, 4}" "WriteMem m a sz v = Inr (Done () m')"
  shows "\<exists>m''. ReadMem m' a sz = Inr (Done (narrow sz v) m'') \<and> mainMemory m'' = mainMemory m'"
  using assms(1,2)
proof (cases rule: WriteMem_cases [of m sz a v])
  case (hit i m1)
  have mo: "map_ok m" using assms(1) by (simp add: cpu_ok_def)
  have m': "m' = m1" using hit(6) assms(3) by simp
  have ix: "i < length (entries m)" using hit_index [OF mo hit(1)] .
  have h: "hit m' a sz False i" "phys m' a i = phys m a i"
    using hit_read [OF hit(1)] hit_touched [OF mo ix] hit(5) m' by simp_all
  have "load_value (mainMemory m') (phys m a i) sz = narrow sz v"
    using hit_phys(1,2) [OF assms(2) hit(1)] assms(1,2) hit(5) m'
    by (simp add: load_store_image cpu_ok_def nachos_consts)
  then show ?thesis using ReadMem_hit [OF _ assms(2) h(1)] hit(2) m' h(2) by simp
next
  case (miss e m1)
  then show ?thesis using assms(3) by simp
qed

theorem read_after_write_witness:
  "\<exists>m' m''. WriteMem demo_machine 8 4 77 = Inr (Done () m') \<and> ReadMem m' 8 4 = Inr (Done 77 m'')"
proof -
  have "cpu_ok demo_machine" using demo_machine_ok by (simp add: machine_ok_def)
  moreover have "hit demo_machine 8 4 True 0"
    by (simp add: hit_def misaligned_def lookup_def demo_machine_def entries_def nachos_consts)
  ultimately obtain m' where "WriteMem demo_machine 8 4 77 = Inr (Done () m')"
    using WriteMem_hit [of demo_machine 4 8 0 77] by auto
  then show ?thesis using read_after_write [of demo_machine 4 8 77 m'] \<open>cpu_ok demo_machine\<close>
    by (auto simp: narrow_def)
qed

end
