(* ===== verification/Mips_Mult.thy ===== *)
theory Mips_Mult
  imports Nachos_Prelude
begin

text \<open>
  The shift-and-add multiplication \<^verbatim>\<open>Mult\<close> of \<^verbatim>\<open>machine/mipssim.cc\<close>, which leaves the double-length
  product of two registers in a pair of words, and its correctness for signed and unsigned operands.
\<close>

section \<open>Mult\<close>

fun mult_loop :: "nat \<Rightarrow> 32 word \<Rightarrow> 32 word \<Rightarrow> 32 word \<Rightarrow> 32 word \<Rightarrow> 32 word \<Rightarrow> 32 word \<times> 32 word" where
  "mult_loop 0 a bHi bLo hi lo = (hi, lo)"
| "mult_loop (Suc n) a bHi bLo hi lo =
     (let (hi1, lo1, stop) =
        (if a AND 1 \<noteq> 0
         then let lo1 = lo + bLo;
                  hi1 = (if lo1 < bLo then hi + 1 else hi) + bHi
              in (hi1, lo1, a AND 0xfffffffe = 0)
         else (hi, lo, False))
      in if stop then (hi1, lo1)
         else mult_loop n (signed_drop_bit 1 a)
                (if bLo AND 0x80000000 \<noteq> 0 then push_bit 1 bHi OR 1 else push_bit 1 bHi)
                (push_bit 1 bLo) hi1 lo1)"

definition Mult :: "32 word \<Rightarrow> 32 word \<Rightarrow> bool \<Rightarrow> 32 word \<times> 32 word" where
  "Mult a b signedArith =
     (if a = 0 \<or> b = 0 then (0, 0)
      else let (neg1, a1) = (if signedArith \<and> sint a < 0 then (True, - a) else (False, a));
               (negative, b1) = (if signedArith \<and> sint b < 0 then (\<not> neg1, - b) else (neg1, b));
               (hi, lo) = mult_loop 32 a1 0 b1 0 0
           in if negative
              then let hi1 = NOT hi; lo1 = NOT lo + 1 in (if lo1 = 0 then hi1 + 1 else hi1, lo1)
              else (hi, lo))"

section \<open>Signed and unsigned readings of a word\<close>

lemma sint_uint_bit: "sint (w :: 32 word) = uint w - (if bit w 31 then 2 ^ 32 else 0)"
proof -
  have "take_bit 32 (uint w) = uint w" using uint_lt2p [of w] by (intro take_bit_int_eq_self) simp_all
  then show ?thesis by (simp add: sint_uint signed_take_bit_eq_take_bit_minus bit_uint_iff)
qed

lemma sign_bit_bit: "(w AND 0x80000000 \<noteq> 0) \<longleftrightarrow> bit (w :: 32 word) 31"
  using and_exp_eq_0_iff_not_bit [of w 31] by simp

lemma sint_neg_bit: "sint (w :: 32 word) < 0 \<longleftrightarrow> bit w 31"
  using bit_last_iff [of w] by simp

lemma uint_ge_bit: "2 ^ 31 \<le> uint (w :: 32 word) \<longleftrightarrow> bit w 31"
proof -
  have "uint w < 2 ^ 32" using uint_lt2p [of w] by simp
  moreover have "- (2 ^ 31) \<le> sint w" "sint w < 2 ^ 31" using sint_ge [of w] sint_lt [of w] by simp_all
  ultimately show ?thesis using sint_uint_bit [of w] by (cases "bit w 31") auto
qed

section \<open>Double words\<close>

definition val :: "32 word \<Rightarrow> 32 word \<Rightarrow> int" where
  "val hi lo = uint hi * 2 ^ 32 + uint lo"

lemma val_bounds: "0 \<le> val hi lo" "val hi lo < 2 ^ 64"
proof -
  have "uint hi < 2 ^ 32" "uint lo < 2 ^ 32" using uint_lt2p [of hi] uint_lt2p [of lo] by simp_all
  then show "0 \<le> val hi lo" "val hi lo < 2 ^ 64" by (simp_all add: val_def)
qed

lemma uint_add_carry:
  fixes x y :: "32 word"
  shows "uint (x + y) = uint x + uint y - (if x + y < y then 2 ^ 32 else 0)"
proof -
  have b: "uint x < 2 ^ 32" "uint y < 2 ^ 32" "0 \<le> uint x" "0 \<le> uint y"
    using uint_lt2p [of x] uint_lt2p [of y] by simp_all
  have s: "uint (x + y) = (uint x + uint y) mod 2 ^ 32" by (simp add: uint_word_ariths)
  show ?thesis
  proof (cases "uint x + uint y < 2 ^ 32")
    case True
    then have "uint (x + y) = uint x + uint y" using s b by simp
    then show ?thesis using b(3) by (simp add: word_less_def)
  next
    case False
    have "(uint x + uint y - 2 ^ 32) mod 2 ^ 32 = uint x + uint y - 2 ^ 32"
      using b False by (intro mod_pos_pos_trivial) linarith+
    then have "uint (x + y) = uint x + uint y - 2 ^ 32" using s by (simp only: minus_mod_self2)
    moreover from this have "x + y < y" using b(1) by (simp add: word_less_def)
    ultimately show ?thesis by simp
  qed
qed

lemma uint_add_wrap: "\<exists>k. uint (x + y :: 32 word) = uint x + uint y - k * 2 ^ 32"
proof (cases "x + y < y")
  case True
  then show ?thesis using uint_add_carry [of x y] by (intro exI [of _ 1]) simp
next
  case False
  then show ?thesis using uint_add_carry [of x y] by (intro exI [of _ 0]) simp
qed

text \<open>Adding a double word with the carry of the low halves.\<close>

lemma add_double:
  "(2 ^ 64 :: int) dvd val ((if lo + bLo < bLo then hi + 1 else hi) + bHi) (lo + bLo) - (val hi lo + val bHi bLo)"
proof -
  define c :: "32 word" where "c = (if lo + bLo < bLo then 1 else 0)"
  have h: "(if lo + bLo < bLo then hi + 1 else hi) = hi + c" by (simp add: c_def)
  obtain k1 where k1: "uint (hi + c) = uint hi + uint c - k1 * 2 ^ 32" using uint_add_wrap by blast
  obtain k2 where k2: "uint (hi + c + bHi) = uint (hi + c) + uint bHi - k2 * 2 ^ 32" using uint_add_wrap by blast
  have l: "uint (lo + bLo) = uint lo + uint bLo - uint c * 2 ^ 32"
    using uint_add_carry [of lo bLo] by (simp add: c_def)
  have "val (hi + c + bHi) (lo + bLo) - (val hi lo + val bHi bLo) = (- k1 - k2) * 2 ^ 64"
    unfolding val_def k2 k1 l by (simp add: algebra_simps)
  then show ?thesis unfolding h by (metis dvd_triv_right)
qed

text \<open>Doubling a double word.\<close>

lemma double_double:
  "(2 ^ 64 :: int) dvd val (if bLo AND 0x80000000 \<noteq> 0 then push_bit 1 bHi OR 1 else push_bit 1 bHi) (push_bit 1 bLo)
     - 2 * val bHi bLo"
proof -
  define c :: "32 word" where "c = (if bLo AND 0x80000000 \<noteq> 0 then 1 else 0)"
  have p: "push_bit 1 w = w + w" for w :: "32 word" by (simp add: push_bit_eq_mult)
  have "push_bit 1 bHi OR 1 = push_bit 1 bHi + 1" by (simp add: or_one_eq push_bit_eq_mult)
  then have h: "(if bLo AND 0x80000000 \<noteq> 0 then push_bit 1 bHi OR 1 else push_bit 1 bHi) = bHi + bHi + c"
    by (simp add: c_def p)
  obtain k1 where k1: "uint (bHi + bHi) = uint bHi + uint bHi - k1 * 2 ^ 32" using uint_add_wrap by blast
  obtain k2 where k2: "uint (bHi + bHi + c) = uint (bHi + bHi) + uint c - k2 * 2 ^ 32" using uint_add_wrap by blast
  have g: "0 \<le> uint (bLo + bLo)" "uint (bLo + bLo) < 2 ^ 32" using uint_lt2p [of "bLo + bLo"] by simp_all
  have e: "(2 :: int) ^ 32 = 2 * 2 ^ 31" by simp
  have "bLo + bLo < bLo \<longleftrightarrow> 2 ^ 31 \<le> uint bLo"
  proof (cases "bLo + bLo < bLo")
    case True
    then have "uint (bLo + bLo) = uint bLo + uint bLo - 2 ^ 32" using uint_add_carry [of bLo bLo] by simp
    then have "2 ^ 31 \<le> uint bLo" using g(1) e by linarith
    then show ?thesis using True by simp
  next
    case False
    then have "uint (bLo + bLo) = uint bLo + uint bLo" using uint_add_carry [of bLo bLo] by simp
    then have "\<not> 2 ^ 31 \<le> uint bLo" using g(2) e by linarith
    then show ?thesis using False by simp
  qed
  then have l: "uint (bLo + bLo) = uint bLo + uint bLo - uint c * 2 ^ 32"
    using uint_add_carry [of bLo bLo] uint_ge_bit [of bLo] by (simp add: c_def sign_bit_bit)
  have ring: "(x + x - k1 * p + d - k2 * p) * p + (y + y - d * p) - 2 * (x * p + y) = (- k1 - k2) * (p * p)"
    for x y d p :: int by (simp add: algebra_simps)
  have "val (bHi + bHi + c) (bLo + bLo) - 2 * val bHi bLo = (- k1 - k2) * (2 ^ 32 * 2 ^ 32)"
    unfolding val_def k2 k1 l by (rule ring)
  moreover have "(2 ^ 64 :: int) = 2 ^ 32 * 2 ^ 32" by simp
  ultimately show ?thesis unfolding h unfolding p by (simp only: dvd_triv_right)
qed

section \<open>The loop\<close>

lemma shift_low_bits:
  assumes "n \<le> 31"
  shows "uint (a :: 32 word) mod 2 ^ Suc n = uint a mod 2 + 2 * (uint (signed_drop_bit 1 a) mod 2 ^ n)"
proof -
  have "take_bit n (uint (signed_drop_bit 1 a)) = take_bit n (uint a div 2)"
    using assms by (auto simp: bit_eq_iff bit_simps bit_uint_iff simp flip: drop_bit_Suc drop_bit_eq_div [of 1, simplified])
  then have "uint (signed_drop_bit 1 a) mod 2 ^ n = (uint a div 2) mod 2 ^ n" by (simp add: take_bit_eq_mod)
  moreover have "uint a mod (2 * 2 ^ n) = 2 * (uint a div 2 mod 2 ^ n) + uint a mod 2"
    by (rule zmod_zmult2_eq) simp
  ultimately show ?thesis by simp
qed

lemma low_bit: "(a AND 1 \<noteq> 0) \<longleftrightarrow> uint (a :: 32 word) mod 2 = 1"
  using uint_and_1 [of a] uint_0_iff [of "a AND 1"] by (simp only: odd_iff_mod_2_eq_one) linarith

lemma only_low_bit: "(a :: 32 word) AND 0xfffffffe = 0 \<Longrightarrow> a AND 1 \<noteq> 0 \<Longrightarrow> a = 1"
proof -
  assume a: "a AND 0xfffffffe = 0" "a AND 1 \<noteq> 0"
  have n: "(0xfffffffe :: 32 word) = NOT 1" by simp
  have "a AND NOT 1 = 0" using a(1) unfolding n .
  moreover have "a = (a AND 1) OR (a AND NOT 1)" by (simp add: bit_eq_iff bit_simps) blast
  ultimately have "a = a AND 1" by simp
  then show "a = 1" using a(2) by (metis and_one_eq even_mod_2_iff mod2_eq_if)
qed

lemma mult_loop_val:
  "n \<le> 32 \<Longrightarrow> mult_loop n a bHi bLo hi lo = (hi', lo') \<Longrightarrow>
   (2 ^ 64 :: int) dvd val hi' lo' - (val hi lo + val bHi bLo * (uint a mod 2 ^ n))"
proof (induction n arbitrary: a bHi bLo hi lo)
  case 0
  then show ?case by simp
next
  case (Suc n)
  define hi1 lo1 where "hi1 = (if a AND 1 \<noteq> 0 then (if lo + bLo < bLo then hi + 1 else hi) + bHi else hi)"
    and "lo1 = (if a AND 1 \<noteq> 0 then lo + bLo else lo)"
  let ?bHi = "if bLo AND 0x80000000 \<noteq> 0 then push_bit 1 bHi OR 1 else push_bit 1 bHi"
  let ?bLo = "push_bit 1 bLo"
  let ?a = "signed_drop_bit 1 a"
  have step: "(2 ^ 64 :: int) dvd val hi1 lo1 - (val hi lo + val bHi bLo * (uint a mod 2))"
    using add_double [of lo bLo hi bHi] low_bit [of a] by (auto simp: hi1_def lo1_def)
  show ?case
  proof (cases "a AND 1 \<noteq> 0 \<and> a AND 0xfffffffe = 0")
    case True
    then have "a = 1" using only_low_bit by blast
    moreover have "hi' = hi1" "lo' = lo1" using Suc.prems(2) True by (auto simp: hi1_def lo1_def Let_def)
    moreover have "(1 :: int) mod 2 ^ Suc n = 1" by (intro mod_pos_pos_trivial one_less_power) simp_all
    ultimately show ?thesis using step by simp
  next
    case False
    then have "mult_loop n ?a ?bHi ?bLo hi1 lo1 = (hi', lo')"
      using Suc.prems(2) by (auto simp: hi1_def lo1_def Let_def split: if_splits)
    from Suc.IH [OF _ this] Suc.prems(1)
    have ih: "(2 ^ 64 :: int) dvd val hi' lo' - (val hi1 lo1 + val ?bHi ?bLo * (uint ?a mod 2 ^ n))" by simp
    have d: "(2 ^ 64 :: int) dvd (val ?bHi ?bLo - 2 * val bHi bLo) * (uint ?a mod 2 ^ n)"
      by (rule dvd_mult2 [OF double_double])
    have "val hi' lo' - (val hi lo + val bHi bLo * (uint a mod 2 ^ Suc n)) =
        (val hi' lo' - (val hi1 lo1 + val ?bHi ?bLo * (uint ?a mod 2 ^ n))) +
        (val hi1 lo1 - (val hi lo + val bHi bLo * (uint a mod 2))) +
        (val ?bHi ?bLo - 2 * val bHi bLo) * (uint ?a mod 2 ^ n)"
      using shift_low_bits [of n a] Suc.prems(1) by (simp add: algebra_simps)
    then show ?thesis using ih step d by (simp only: dvd_add)
  qed
qed

lemma mult_loop_product:
  assumes "mult_loop 32 a 0 b 0 0 = (hi, lo)"
  shows "val hi lo = uint a * uint b"
proof -
  have u: "uint a < 2 ^ 32" "uint b < 2 ^ 32" "0 \<le> uint a" "0 \<le> uint b"
    using uint_lt2p [of a] uint_lt2p [of b] by simp_all
  have "(2 ^ 64 :: int) dvd val hi lo - uint a * uint b"
    using mult_loop_val [OF _ assms] u by (simp add: val_def mult.commute)
  moreover have "uint a * uint b < 2 ^ 32 * 2 ^ 32" using u by (intro mult_strict_mono') simp_all
  then have "0 \<le> uint a * uint b" "uint a * uint b < 2 ^ 64" using u by simp_all
  ultimately have "val hi lo mod 2 ^ 64 = (uint a * uint b) mod 2 ^ 64" by (simp only: mod_eq_dvd_iff)
  then show ?thesis using val_bounds [of hi lo] \<open>0 \<le> uint a * uint b\<close> \<open>uint a * uint b < 2 ^ 64\<close>
    by (simp add: mod_pos_pos_trivial)
qed

section \<open>Signed products\<close>

lemma uint_minus: "uint (- a :: 32 word) = (if a = 0 then 0 else 2 ^ 32 - uint a)"
proof (cases "a = 0")
  case False
  then have "uint a \<noteq> 0" by (simp add: uint_0_iff)
  then have u: "0 < uint a" "uint a < 2 ^ 32" using uint_lt2p [of a] uint_ge_0 [of a] by (linarith, simp)
  have "uint (- a) = (- uint a) mod 2 ^ 32" by (simp add: uint_word_ariths)
  also have "\<dots> = (- uint a + 2 ^ 32) mod 2 ^ 32" by (simp only: mod_add_self2)
  also have "\<dots> = - uint a + 2 ^ 32" using u by (intro mod_pos_pos_trivial) linarith+
  finally show ?thesis using False by simp
qed simp

lemma uint_not: "uint (NOT a :: 32 word) = 2 ^ 32 - 1 - uint a"
proof -
  have "uint (NOT a + 1) = uint (NOT a) + 1 - (if NOT a + 1 < 1 then 2 ^ 32 else 0)"
    using uint_add_carry [of "NOT a" 1] by simp
  moreover have m: "NOT a + 1 = - a" by (simp add: minus_eq_not_plus_1)
  moreover have "- a < 1 \<longleftrightarrow> a = 0" by (simp add: word_less_1)
  ultimately show ?thesis using uint_minus [of a] by (cases "a = 0") simp_all
qed

lemma uint_minus_neg: "bit a 31 \<Longrightarrow> uint (- a :: 32 word) = - sint a"
  using uint_minus [of a] sint_uint_bit [of a] by auto

text \<open>The absolute value of an operand, as \<^verbatim>\<open>Mult\<close> computes it, read as unsigned.\<close>

lemma uint_abs: "uint (if sint a < 0 then - a else a :: 32 word) = \<bar>sint a\<bar>"
proof (cases "sint a < 0")
  case True
  then show ?thesis using uint_minus_neg [of a] by (simp add: sint_neg_bit [symmetric])
next
  case False
  then have "\<not> bit a 31" by (simp add: sint_neg_bit)
  then show ?thesis using False sint_uint_bit [of a] by simp
qed

lemma negate_double:
  assumes "val hi lo \<noteq> 0"
  shows "val (if NOT lo + 1 = 0 then NOT hi + 1 else NOT hi) (NOT lo + 1) = 2 ^ 64 - val hi lo"
proof -
  have m: "NOT w + 1 = - w" for w :: "32 word" by (simp add: minus_eq_not_plus_1)
  show ?thesis
  proof (cases "lo = 0")
    case True
    then have "hi \<noteq> 0" using assms by (auto simp: val_def)
    then show ?thesis using True unfolding m by (simp add: val_def uint_minus)
  next
    case False
    then show ?thesis unfolding m by (simp add: val_def uint_minus uint_not)
  qed
qed

lemma product_bounds:
  fixes a b :: "32 word"
  shows "\<bar>sint a * sint b\<bar> \<le> 2 ^ 62"
proof -
  have "\<bar>sint w\<bar> \<le> 2 ^ 31" for w :: "32 word" using sint_ge [of w] sint_lt [of w] by simp
  then have "\<bar>sint a\<bar> * \<bar>sint b\<bar> \<le> 2 ^ 31 * 2 ^ 31" by (intro mult_mono) simp_all
  then show ?thesis by (simp add: abs_mult)
qed

text \<open>The double word read as a signed number.\<close>

lemma val_signed: "sint hi * 2 ^ 32 + uint lo = val hi lo - (if 2 ^ 63 \<le> val hi lo then 2 ^ 64 else 0)"
proof -
  have l: "uint lo < 4294967296" "0 \<le> uint lo" using uint_lt2p [of lo] by simp_all
  have "9223372036854775808 \<le> uint hi * 4294967296 + uint lo \<longleftrightarrow> 2147483648 \<le> uint hi"
    using l by linarith
  then show ?thesis using uint_ge_bit [of hi] sint_uint_bit [of hi] by (simp add: val_def)
qed

lemma Mult_unsigned:
  assumes "Mult a b False = (hi, lo)"
  shows "val hi lo = uint a * uint b"
  using assms mult_loop_product [of a b]
  by (auto simp: Mult_def val_def Let_def split: if_splits prod.splits)

lemma Mult_signed:
  assumes "Mult a b True = (hi, lo)"
  shows "sint hi * 2 ^ 32 + uint lo = sint a * sint b"
proof (cases "a = 0 \<or> b = 0")
  case True
  then show ?thesis using assms by (auto simp: Mult_def)
next
  case False
  let ?a = "if sint a < 0 then - a else a" and ?b = "if sint b < 0 then - b else b"
  obtain h l where hl: "mult_loop 32 ?a 0 ?b 0 0 = (h, l)" by force
  have v: "val h l = \<bar>sint a * sint b\<bar>"
    using mult_loop_product [OF hl] by (simp only: uint_abs abs_mult)
  have nz: "sint a \<noteq> 0" "sint b \<noteq> 0" using False by (simp_all add: signed_eq_0_iff)
  note bnd = product_bounds [of a b]
  have r: "(hi, lo) = (if (sint a < 0) \<noteq> (sint b < 0)
      then (if NOT l + 1 = 0 then NOT h + 1 else NOT h, NOT l + 1) else (h, l))"
    using assms False hl by (auto simp: Mult_def Let_def split: if_splits)
  show ?thesis
  proof (cases "(sint a < 0) \<noteq> (sint b < 0)")
    case True
    then have neg: "sint a * sint b < 0" using nz by (auto simp: mult_less_0_iff)
    have "val h l \<noteq> 0" using v nz by simp
    from negate_double [OF this] have "val hi lo = 2 ^ 64 - val h l" using r True by simp
    then have w: "val hi lo = 2 ^ 64 + sint a * sint b" using v neg by simp
    then have "2 ^ 63 \<le> val hi lo" using bnd by simp
    then show ?thesis using w val_signed [of hi lo] by simp
  next
    case sameSign: False
    then have pos: "0 \<le> sint a * sint b" using nz by (auto simp: zero_le_mult_iff)
    have w: "val hi lo = sint a * sint b" using v pos r sameSign by simp
    then have "\<not> 2 ^ 63 \<le> val hi lo" using bnd by simp
    then show ?thesis using w val_signed [of hi lo] by simp
  qed
qed

section \<open>Properties\<close>

text \<open>
  C21: \<^verbatim>\<open>Mult\<close> computes the exact 64-bit product of its operands, in the pair (high word, low word): for
  unsigned arithmetic of the unsigned operands, and for signed arithmetic, in two's complement, of
  the signed operands, \<^verbatim>\<open>INT_MIN\<close> included.
\<close>

theorem Mult_correct:
  "(case Mult a b False of (hi, lo) \<Rightarrow> uint hi * 2 ^ 32 + uint lo = uint a * uint b) \<and>
   (case Mult a b True of (hi, lo) \<Rightarrow> sint hi * 2 ^ 32 + uint lo = sint a * sint b)"
  using Mult_unsigned [of a b] Mult_signed [of a b] by (auto simp: val_def split: prod.splits)

end
