(* ===== verification/Mips.thy ===== *)
theory Mips
  imports Machine_Memory Mips_Mult
begin

text \<open>
  The instruction set simulator (\<^verbatim>\<open>machine/mipssim.h\<close>, \<^verbatim>\<open>machine/mipssim.cc\<close>), in the configuration the
  Makefiles build (\<^verbatim>\<open>SIM_FIX\<close>). One definition per case of the switch of \<^verbatim>\<open>Machine::OneInstruction\<close>; a
  case yields the exception it raised, or the new machine together with \<^verbatim>\<open>pcAfter\<close>,
  \<^verbatim>\<open>nextLoadReg\<close> and \<^verbatim>\<open>nextLoadValue\<close>. Arithmetic on \<^verbatim>\<open>int\<close> registers wraps around, as the overflow
  checks of the code presuppose.
\<close>

datatype opcode = OP_ADD | OP_ADDI | OP_ADDIU | OP_ADDU | OP_AND | OP_ANDI | OP_BEQ | OP_BGEZ | OP_BGEZAL
  | OP_BGTZ | OP_BLEZ | OP_BLTZ | OP_BLTZAL | OP_BNE | OP_DIV | OP_DIVU | OP_J | OP_JAL | OP_JALR | OP_JR
  | OP_LB | OP_LBU | OP_LH | OP_LHU | OP_LUI | OP_LW | OP_LWL | OP_LWR | OP_MFHI | OP_MFLO | OP_MTHI
  | OP_MTLO | OP_MULT | OP_MULTU | OP_NOR | OP_OR | OP_ORI | OP_RFE | OP_SB | OP_SH | OP_SLL | OP_SLLV
  | OP_SLT | OP_SLTI | OP_SLTIU | OP_SLTU | OP_SRA | OP_SRAV | OP_SRL | OP_SRLV | OP_SUB | OP_SUBU | OP_SW
  | OP_SWL | OP_SWR | OP_XOR | OP_XORI | OP_SYSCALL | OP_UNIMP | OP_RES | SPECIAL | BCOND

datatype op_format = IFMT | JFMT | RFMT

record Instruction =
  i_opCode :: opcode
  i_rs :: "5 word"
  i_rt :: "5 word"
  i_rd :: "5 word"
  i_extra :: "32 word"

definition SIGN_BIT :: "32 word" where "SIGN_BIT = 0x80000000"
definition R31 :: nat where [nachos_consts]: "R31 = 31"

definition IndexToAddr :: "32 word \<Rightarrow> 32 word" where
  "IndexToAddr x = push_bit 2 x"

section \<open>Decode\<close>

definition opTable :: "(opcode \<times> op_format) list" where
  "opTable =
    [(SPECIAL, RFMT), (BCOND, IFMT), (OP_J, JFMT), (OP_JAL, JFMT), (OP_BEQ, IFMT), (OP_BNE, IFMT),
     (OP_BLEZ, IFMT), (OP_BGTZ, IFMT), (OP_ADDI, IFMT), (OP_ADDIU, IFMT), (OP_SLTI, IFMT), (OP_SLTIU, IFMT),
     (OP_ANDI, IFMT), (OP_ORI, IFMT), (OP_XORI, IFMT), (OP_LUI, IFMT), (OP_UNIMP, IFMT), (OP_UNIMP, IFMT),
     (OP_UNIMP, IFMT), (OP_UNIMP, IFMT), (OP_RES, IFMT), (OP_RES, IFMT), (OP_RES, IFMT), (OP_RES, IFMT),
     (OP_RES, IFMT), (OP_RES, IFMT), (OP_RES, IFMT), (OP_RES, IFMT), (OP_RES, IFMT), (OP_RES, IFMT),
     (OP_RES, IFMT), (OP_RES, IFMT), (OP_LB, IFMT), (OP_LH, IFMT), (OP_LWL, IFMT), (OP_LW, IFMT),
     (OP_LBU, IFMT), (OP_LHU, IFMT), (OP_LWR, IFMT), (OP_RES, IFMT), (OP_SB, IFMT), (OP_SH, IFMT),
     (OP_SWL, IFMT), (OP_SW, IFMT), (OP_RES, IFMT), (OP_RES, IFMT), (OP_SWR, IFMT), (OP_RES, IFMT),
     (OP_UNIMP, IFMT), (OP_UNIMP, IFMT), (OP_UNIMP, IFMT), (OP_UNIMP, IFMT), (OP_RES, IFMT), (OP_RES, IFMT),
     (OP_RES, IFMT), (OP_RES, IFMT), (OP_UNIMP, IFMT), (OP_UNIMP, IFMT), (OP_UNIMP, IFMT), (OP_UNIMP, IFMT),
     (OP_RES, IFMT), (OP_RES, IFMT), (OP_RES, IFMT), (OP_RES, IFMT)]"

definition specialTable :: "opcode list" where
  "specialTable =
    [OP_SLL, OP_RES, OP_SRL, OP_SRA, OP_SLLV, OP_RES, OP_SRLV, OP_SRAV,
     OP_JR, OP_JALR, OP_RES, OP_RES, OP_SYSCALL, OP_UNIMP, OP_RES, OP_RES,
     OP_MFHI, OP_MTHI, OP_MFLO, OP_MTLO, OP_RES, OP_RES, OP_RES, OP_RES,
     OP_MULT, OP_MULTU, OP_DIV, OP_DIVU, OP_RES, OP_RES, OP_RES, OP_RES,
     OP_ADD, OP_ADDU, OP_SUB, OP_SUBU, OP_AND, OP_OR, OP_XOR, OP_NOR,
     OP_RES, OP_RES, OP_SLT, OP_SLTU, OP_RES, OP_RES, OP_RES, OP_RES,
     OP_RES, OP_RES, OP_RES, OP_RES, OP_RES, OP_RES, OP_RES, OP_RES,
     OP_RES, OP_RES, OP_RES, OP_RES, OP_RES, OP_RES, OP_RES, OP_RES]"

definition decode_extra :: "op_format \<Rightarrow> 32 word \<Rightarrow> 32 word" where
  "decode_extra fmt v =
     (case fmt of
        IFMT \<Rightarrow> let extra = v AND 0xffff in if extra AND 0x8000 \<noteq> 0 then extra OR 0xffff0000 else extra
      | RFMT \<Rightarrow> drop_bit 6 v AND 0x1f
      | JFMT \<Rightarrow> v AND 0x3ffffff)"

definition decode_op :: "opcode \<Rightarrow> 32 word \<Rightarrow> opcode" where
  "decode_op opc v =
     (if opc = SPECIAL then specialTable ! unat (v AND 0x3f)
      else if opc = BCOND then
        (let i = v AND 0x1f0000 in
         if i = 0 then OP_BLTZ else if i = 0x10000 then OP_BGEZ
         else if i = 0x100000 then OP_BLTZAL else if i = 0x110000 then OP_BGEZAL else OP_UNIMP)
      else opc)"

definition Decode :: "32 word \<Rightarrow> Instruction" where
  "Decode v =
     (let (opc, fmt) = opTable ! unat (drop_bit 26 v AND 0x3f) in
      \<lparr>i_opCode = decode_op opc v, i_rs = ucast (drop_bit 21 v AND 0x1f), i_rt = ucast (drop_bit 16 v AND 0x1f),
       i_rd = ucast (drop_bit 11 v AND 0x1f), i_extra = decode_extra fmt v\<rparr>)"

section \<open>The cases of the switch\<close>

type_synonym exec = "(32 word \<times> 32 word \<times> 32 word) access result"

text \<open>The end of a case without a delayed load, and the two forms of a register result.\<close>

definition go :: "machine \<Rightarrow> 32 word \<Rightarrow> exec" where
  "go m pcAfter = Inr (Done (pcAfter, 0, 0) m)"

definition put_rd :: "Instruction \<Rightarrow> machine \<Rightarrow> 32 word \<Rightarrow> 32 word \<Rightarrow> exec" where
  "put_rd i m pcAfter v = go (set_reg m (unat (i_rd i)) v) pcAfter"

definition put_rt :: "Instruction \<Rightarrow> machine \<Rightarrow> 32 word \<Rightarrow> 32 word \<Rightarrow> exec" where
  "put_rt i m pcAfter v = go (set_reg m (unat (i_rt i)) v) pcAfter"

definition rS :: "Instruction \<Rightarrow> machine \<Rightarrow> 32 word" where
  "rS i m = reg m (unat (i_rs i))"

definition rT :: "Instruction \<Rightarrow> machine \<Rightarrow> 32 word" where
  "rT i m = reg m (unat (i_rt i))"

definition exec_ADD :: "Instruction \<Rightarrow> machine \<Rightarrow> 32 word \<Rightarrow> exec" where
  "exec_ADD i m pcAfter =
     (let sum = rS i m + rT i m in
      if (rS i m XOR rT i m) AND SIGN_BIT = 0 \<and> (rS i m XOR sum) AND SIGN_BIT \<noteq> 0
      then raise m OverflowException 0
      else put_rd i m pcAfter sum)"

definition exec_ADDI :: "Instruction \<Rightarrow> machine \<Rightarrow> 32 word \<Rightarrow> exec" where
  "exec_ADDI i m pcAfter =
     (let sum = rS i m + i_extra i in
      if (rS i m XOR i_extra i) AND SIGN_BIT = 0 \<and> (i_extra i XOR sum) AND SIGN_BIT \<noteq> 0
      then raise m OverflowException 0
      else put_rt i m pcAfter sum)"

definition exec_ADDIU :: "Instruction \<Rightarrow> machine \<Rightarrow> 32 word \<Rightarrow> exec" where
  "exec_ADDIU i m pcAfter = put_rt i m pcAfter (rS i m + i_extra i)"

definition exec_ADDU :: "Instruction \<Rightarrow> machine \<Rightarrow> 32 word \<Rightarrow> exec" where
  "exec_ADDU i m pcAfter = put_rd i m pcAfter (rS i m + rT i m)"

definition exec_AND :: "Instruction \<Rightarrow> machine \<Rightarrow> 32 word \<Rightarrow> exec" where
  "exec_AND i m pcAfter = put_rd i m pcAfter (rS i m AND rT i m)"

definition exec_ANDI :: "Instruction \<Rightarrow> machine \<Rightarrow> 32 word \<Rightarrow> exec" where
  "exec_ANDI i m pcAfter = put_rt i m pcAfter (rS i m AND (i_extra i AND 0xffff))"

definition branch :: "Instruction \<Rightarrow> machine \<Rightarrow> 32 word \<Rightarrow> bool \<Rightarrow> exec" where
  "branch i m pcAfter taken =
     go m (if taken then reg m NextPCReg + IndexToAddr (i_extra i) else pcAfter)"

definition exec_BEQ :: "Instruction \<Rightarrow> machine \<Rightarrow> 32 word \<Rightarrow> exec" where
  "exec_BEQ i m pcAfter = branch i m pcAfter (rS i m = rT i m)"

definition exec_BGEZ :: "Instruction \<Rightarrow> machine \<Rightarrow> 32 word \<Rightarrow> exec" where
  "exec_BGEZ i m pcAfter = branch i m pcAfter (rS i m AND SIGN_BIT = 0)"

definition exec_BGEZAL :: "Instruction \<Rightarrow> machine \<Rightarrow> 32 word \<Rightarrow> exec" where
  "exec_BGEZAL i m pcAfter = exec_BGEZ i (set_reg m R31 (reg m NextPCReg + 4)) pcAfter"

definition exec_BGTZ :: "Instruction \<Rightarrow> machine \<Rightarrow> 32 word \<Rightarrow> exec" where
  "exec_BGTZ i m pcAfter = branch i m pcAfter (sint (rS i m) > 0)"

definition exec_BLEZ :: "Instruction \<Rightarrow> machine \<Rightarrow> 32 word \<Rightarrow> exec" where
  "exec_BLEZ i m pcAfter = branch i m pcAfter (sint (rS i m) \<le> 0)"

definition exec_BLTZ :: "Instruction \<Rightarrow> machine \<Rightarrow> 32 word \<Rightarrow> exec" where
  "exec_BLTZ i m pcAfter = branch i m pcAfter (rS i m AND SIGN_BIT \<noteq> 0)"

definition exec_BLTZAL :: "Instruction \<Rightarrow> machine \<Rightarrow> 32 word \<Rightarrow> exec" where
  "exec_BLTZAL i m pcAfter = exec_BLTZ i (set_reg m R31 (reg m NextPCReg + 4)) pcAfter"

definition exec_BNE :: "Instruction \<Rightarrow> machine \<Rightarrow> 32 word \<Rightarrow> exec" where
  "exec_BNE i m pcAfter = branch i m pcAfter (rS i m \<noteq> rT i m)"

text \<open>The quotient of \<^verbatim>\<open>INT_MIN\<close> and \<open>-1\<close> does not fit an \<^verbatim>\<open>int\<close>; the host CPU traps.\<close>

definition exec_DIV :: "Instruction \<Rightarrow> machine \<Rightarrow> 32 word \<Rightarrow> exec" where
  "exec_DIV i m pcAfter =
     (if rT i m = 0 then go (set_reg (set_reg m LoReg 0) HiReg 0) pcAfter
      else if sint (rS i m) = - (2 ^ 31) \<and> sint (rT i m) = -1 then Inl HostTrap
      else let m1 = set_reg m LoReg (word_of_int (sint (rS i m) sdiv sint (rT i m))) in
           go (set_reg m1 HiReg (word_of_int (sint (rS i m1) smod sint (rT i m1)))) pcAfter)"

definition exec_DIVU :: "Instruction \<Rightarrow> machine \<Rightarrow> 32 word \<Rightarrow> exec" where
  "exec_DIVU i m pcAfter =
     (let s = rS i m; t = rT i m in
      if t = 0 then go (set_reg (set_reg m LoReg 0) HiReg 0) pcAfter
      else go (set_reg (set_reg m LoReg (s div t)) HiReg (s mod t)) pcAfter)"

definition exec_J :: "Instruction \<Rightarrow> machine \<Rightarrow> 32 word \<Rightarrow> exec" where
  "exec_J i m pcAfter = go m ((pcAfter AND 0xf0000000) OR IndexToAddr (i_extra i))"

definition exec_JAL :: "Instruction \<Rightarrow> machine \<Rightarrow> 32 word \<Rightarrow> exec" where
  "exec_JAL i m pcAfter = exec_J i (set_reg m R31 (reg m NextPCReg + 4)) pcAfter"

definition exec_JR :: "Instruction \<Rightarrow> machine \<Rightarrow> 32 word \<Rightarrow> exec" where
  "exec_JR i m pcAfter = go m (rS i m)"

definition exec_JALR :: "Instruction \<Rightarrow> machine \<Rightarrow> 32 word \<Rightarrow> exec" where
  "exec_JALR i m pcAfter = exec_JR i (set_reg m (unat (i_rd i)) (reg m NextPCReg + 4)) pcAfter"

text \<open>Loads; \<open>load_then\<close> is the pattern \<^verbatim>\<open>if (!ReadMem(addr, size, &value)) return;\<close>.\<close>

definition load_then :: "machine \<Rightarrow> 32 word \<Rightarrow> int \<Rightarrow> (32 word \<Rightarrow> machine \<Rightarrow> exec) \<Rightarrow> exec" where
  "load_then m addr sz k =
     rbind (ReadMem m addr sz) (\<lambda>r. case r of Trap e m1 \<Rightarrow> Inr (Trap e m1) | Done v m1 \<Rightarrow> k v m1)"

definition store_then :: "machine \<Rightarrow> 32 word \<Rightarrow> int \<Rightarrow> 32 word \<Rightarrow> (machine \<Rightarrow> exec) \<Rightarrow> exec" where
  "store_then m addr sz v k =
     rbind (WriteMem m addr sz v) (\<lambda>r. case r of Trap e m1 \<Rightarrow> Inr (Trap e m1) | Done u m1 \<Rightarrow> k m1)"

definition delay :: "Instruction \<Rightarrow> machine \<Rightarrow> 32 word \<Rightarrow> 32 word \<Rightarrow> exec" where
  "delay i m pcAfter v = Inr (Done (pcAfter, ucast (i_rt i), v) m)"

definition exec_LB :: "Instruction \<Rightarrow> machine \<Rightarrow> 32 word \<Rightarrow> exec" where
  "exec_LB i m pcAfter =
     load_then m (rS i m + i_extra i) 1 (\<lambda>v m1.
       delay i m1 pcAfter (if v AND 0x80 \<noteq> 0 \<and> i_opCode i = OP_LB then v OR 0xffffff00 else v AND 0xff))"

definition exec_LH :: "Instruction \<Rightarrow> machine \<Rightarrow> 32 word \<Rightarrow> exec" where
  "exec_LH i m pcAfter =
     (let tmp = rS i m + i_extra i in
      if tmp AND 1 \<noteq> 0 then raise m AddressErrorException tmp
      else load_then m tmp 2 (\<lambda>v m1.
        delay i m1 pcAfter (if v AND 0x8000 \<noteq> 0 \<and> i_opCode i = OP_LH then v OR 0xffff0000 else v AND 0xffff)))"

definition exec_LUI :: "Instruction \<Rightarrow> machine \<Rightarrow> 32 word \<Rightarrow> exec" where
  "exec_LUI i m pcAfter = put_rt i m pcAfter (push_bit 16 (i_extra i))"

definition exec_LW :: "Instruction \<Rightarrow> machine \<Rightarrow> 32 word \<Rightarrow> exec" where
  "exec_LW i m pcAfter =
     (let tmp = rS i m + i_extra i in
      if tmp AND 3 \<noteq> 0 then raise m AddressErrorException tmp
      else load_then m tmp 4 (\<lambda>v m1. delay i m1 pcAfter v))"

text \<open>The value register \<^verbatim>\<open>rt\<close> will have when a pending load of it completes.\<close>

definition pending_rt :: "Instruction \<Rightarrow> machine \<Rightarrow> 32 word" where
  "pending_rt i m = (if reg m LoadReg = ucast (i_rt i) then reg m LoadValueReg else rT i m)"

definition merge_LWL :: "32 word \<Rightarrow> 32 word \<Rightarrow> 32 word \<Rightarrow> 32 word" where
  "merge_LWL byte old v =
     (if 3 - byte = 0 then v
      else if 3 - byte = 1 then (old AND 0xff) OR push_bit 8 v
      else if 3 - byte = 2 then (old AND 0xffff) OR push_bit 16 v
      else if 3 - byte = 3 then (old AND 0xffffff) OR push_bit 24 v
      else old)"

definition exec_LWL :: "Instruction \<Rightarrow> machine \<Rightarrow> 32 word \<Rightarrow> exec" where
  "exec_LWL i m pcAfter =
     (let tmp = rS i m + i_extra i; byte = tmp AND 3 in
      load_then m (tmp - byte) 4 (\<lambda>v m1. delay i m1 pcAfter (merge_LWL byte (pending_rt i m1) v)))"

text \<open>\<^verbatim>\<open>value >> k\<close> shifts an \<^verbatim>\<open>int\<close>: the sign bit is copied in.\<close>

definition merge_LWR :: "32 word \<Rightarrow> 32 word \<Rightarrow> 32 word \<Rightarrow> 32 word" where
  "merge_LWR byte old v =
     (if 3 - byte = 0 then (old AND 0xffffff00) OR (signed_drop_bit 24 v AND 0xff)
      else if 3 - byte = 1 then (old AND 0xffff0000) OR (signed_drop_bit 16 v AND 0xffff)
      else if 3 - byte = 2 then (old AND 0xff000000) OR (signed_drop_bit 8 v AND 0xffffff)
      else if 3 - byte = 3 then v
      else old)"

definition exec_LWR :: "Instruction \<Rightarrow> machine \<Rightarrow> 32 word \<Rightarrow> exec" where
  "exec_LWR i m pcAfter =
     (let tmp = rS i m + i_extra i; byte = tmp AND 3 in
      load_then m (tmp - byte) 4 (\<lambda>v m1. delay i m1 pcAfter (merge_LWR byte (pending_rt i m1) v)))"

definition exec_MFHI :: "Instruction \<Rightarrow> machine \<Rightarrow> 32 word \<Rightarrow> exec" where
  "exec_MFHI i m pcAfter = put_rd i m pcAfter (reg m HiReg)"

definition exec_MFLO :: "Instruction \<Rightarrow> machine \<Rightarrow> 32 word \<Rightarrow> exec" where
  "exec_MFLO i m pcAfter = put_rd i m pcAfter (reg m LoReg)"

definition exec_MTHI :: "Instruction \<Rightarrow> machine \<Rightarrow> 32 word \<Rightarrow> exec" where
  "exec_MTHI i m pcAfter = go (set_reg m HiReg (rS i m)) pcAfter"

definition exec_MTLO :: "Instruction \<Rightarrow> machine \<Rightarrow> 32 word \<Rightarrow> exec" where
  "exec_MTLO i m pcAfter = go (set_reg m LoReg (rS i m)) pcAfter"

definition exec_MULT :: "Instruction \<Rightarrow> machine \<Rightarrow> 32 word \<Rightarrow> exec" where
  "exec_MULT i m pcAfter =
     (let (hi, lo) = Mult (rS i m) (rT i m) True in go (set_reg (set_reg m HiReg hi) LoReg lo) pcAfter)"

definition exec_MULTU :: "Instruction \<Rightarrow> machine \<Rightarrow> 32 word \<Rightarrow> exec" where
  "exec_MULTU i m pcAfter =
     (let (hi, lo) = Mult (rS i m) (rT i m) False in go (set_reg (set_reg m HiReg hi) LoReg lo) pcAfter)"

definition exec_NOR :: "Instruction \<Rightarrow> machine \<Rightarrow> 32 word \<Rightarrow> exec" where
  "exec_NOR i m pcAfter = put_rd i m pcAfter (NOT (rS i m OR rT i m))"

definition exec_OR :: "Instruction \<Rightarrow> machine \<Rightarrow> 32 word \<Rightarrow> exec" where
  "exec_OR i m pcAfter = put_rd i m pcAfter (rS i m OR rT i m)"

definition exec_ORI :: "Instruction \<Rightarrow> machine \<Rightarrow> 32 word \<Rightarrow> exec" where
  "exec_ORI i m pcAfter = put_rt i m pcAfter (rS i m OR (i_extra i AND 0xffff))"

definition exec_SB :: "Instruction \<Rightarrow> machine \<Rightarrow> 32 word \<Rightarrow> exec" where
  "exec_SB i m pcAfter = store_then m (rS i m + i_extra i) 1 (rT i m) (\<lambda>m1. go m1 pcAfter)"

definition exec_SH :: "Instruction \<Rightarrow> machine \<Rightarrow> 32 word \<Rightarrow> exec" where
  "exec_SH i m pcAfter = store_then m (rS i m + i_extra i) 2 (rT i m) (\<lambda>m1. go m1 pcAfter)"

definition exec_SLL :: "Instruction \<Rightarrow> machine \<Rightarrow> 32 word \<Rightarrow> exec" where
  "exec_SLL i m pcAfter = put_rd i m pcAfter (push_bit (unat (i_extra i)) (rT i m))"

definition exec_SLLV :: "Instruction \<Rightarrow> machine \<Rightarrow> 32 word \<Rightarrow> exec" where
  "exec_SLLV i m pcAfter = put_rd i m pcAfter (push_bit (unat (rS i m AND 0x1f)) (rT i m))"

definition exec_SLT :: "Instruction \<Rightarrow> machine \<Rightarrow> 32 word \<Rightarrow> exec" where
  "exec_SLT i m pcAfter = put_rd i m pcAfter (if sint (rS i m) < sint (rT i m) then 1 else 0)"

definition exec_SLTI :: "Instruction \<Rightarrow> machine \<Rightarrow> 32 word \<Rightarrow> exec" where
  "exec_SLTI i m pcAfter = put_rt i m pcAfter (if sint (rS i m) < sint (i_extra i) then 1 else 0)"

definition exec_SLTIU :: "Instruction \<Rightarrow> machine \<Rightarrow> 32 word \<Rightarrow> exec" where
  "exec_SLTIU i m pcAfter = put_rt i m pcAfter (if rS i m < i_extra i then 1 else 0)"

definition exec_SLTU :: "Instruction \<Rightarrow> machine \<Rightarrow> 32 word \<Rightarrow> exec" where
  "exec_SLTU i m pcAfter = put_rd i m pcAfter (if rS i m < rT i m then 1 else 0)"

definition exec_SRA :: "Instruction \<Rightarrow> machine \<Rightarrow> 32 word \<Rightarrow> exec" where
  "exec_SRA i m pcAfter = put_rd i m pcAfter (signed_drop_bit (unat (i_extra i)) (rT i m))"

definition exec_SRAV :: "Instruction \<Rightarrow> machine \<Rightarrow> 32 word \<Rightarrow> exec" where
  "exec_SRAV i m pcAfter = put_rd i m pcAfter (signed_drop_bit (unat (rS i m AND 0x1f)) (rT i m))"

text \<open>\<^verbatim>\<open>tmp\<close> is an \<^verbatim>\<open>int\<close>, so \<^verbatim>\<open>tmp >>= k\<close> is an arithmetic shift here as well.\<close>

definition exec_SRL :: "Instruction \<Rightarrow> machine \<Rightarrow> 32 word \<Rightarrow> exec" where
  "exec_SRL i m pcAfter = (let tmp = rT i m in put_rd i m pcAfter (signed_drop_bit (unat (i_extra i)) tmp))"

definition exec_SRLV :: "Instruction \<Rightarrow> machine \<Rightarrow> 32 word \<Rightarrow> exec" where
  "exec_SRLV i m pcAfter = (let tmp = rT i m in put_rd i m pcAfter (signed_drop_bit (unat (rS i m AND 0x1f)) tmp))"

definition exec_SUB :: "Instruction \<Rightarrow> machine \<Rightarrow> 32 word \<Rightarrow> exec" where
  "exec_SUB i m pcAfter =
     (let diff = rS i m - rT i m in
      if (rS i m XOR rT i m) AND SIGN_BIT \<noteq> 0 \<and> (rS i m XOR diff) AND SIGN_BIT \<noteq> 0
      then raise m OverflowException 0
      else put_rd i m pcAfter diff)"

definition exec_SUBU :: "Instruction \<Rightarrow> machine \<Rightarrow> 32 word \<Rightarrow> exec" where
  "exec_SUBU i m pcAfter = put_rd i m pcAfter (rS i m - rT i m)"

definition exec_SW :: "Instruction \<Rightarrow> machine \<Rightarrow> 32 word \<Rightarrow> exec" where
  "exec_SW i m pcAfter = store_then m (rS i m + i_extra i) 4 (rT i m) (\<lambda>m1. go m1 pcAfter)"

definition merge_SWL :: "32 word \<Rightarrow> 32 word \<Rightarrow> 32 word \<Rightarrow> 32 word" where
  "merge_SWL byte t v =
     (if 3 - byte = 0 then t
      else if 3 - byte = 1 then (v AND 0xff000000) OR (signed_drop_bit 8 t AND 0xffffff)
      else if 3 - byte = 2 then (v AND 0xffff0000) OR (signed_drop_bit 16 t AND 0xffff)
      else if 3 - byte = 3 then (v AND 0xffffff00) OR (signed_drop_bit 24 t AND 0xff)
      else v)"

definition exec_SWL :: "Instruction \<Rightarrow> machine \<Rightarrow> 32 word \<Rightarrow> exec" where
  "exec_SWL i m pcAfter =
     (let tmp = rS i m + i_extra i; byte = tmp AND 3 in
      load_then m (tmp - byte) 4 (\<lambda>v m1.
      store_then m1 (tmp - byte) 4 (merge_SWL byte (rT i m1) v) (\<lambda>m2. go m2 pcAfter)))"

definition merge_SWR :: "32 word \<Rightarrow> 32 word \<Rightarrow> 32 word \<Rightarrow> 32 word" where
  "merge_SWR byte t v =
     (if 3 - byte = 0 then (v AND 0xffffff) OR push_bit 24 t
      else if 3 - byte = 1 then (v AND 0xffff) OR push_bit 16 t
      else if 3 - byte = 2 then (v AND 0xff) OR push_bit 8 t
      else if 3 - byte = 3 then t
      else v)"

definition exec_SWR :: "Instruction \<Rightarrow> machine \<Rightarrow> 32 word \<Rightarrow> exec" where
  "exec_SWR i m pcAfter =
     (let tmp = rS i m + i_extra i; byte = tmp AND 3 in
      load_then m (tmp - byte) 4 (\<lambda>v m1.
      store_then m1 (tmp - byte) 4 (merge_SWR byte (rT i m1) v) (\<lambda>m2. go m2 pcAfter)))"

definition exec_XOR :: "Instruction \<Rightarrow> machine \<Rightarrow> 32 word \<Rightarrow> exec" where
  "exec_XOR i m pcAfter = put_rd i m pcAfter (rS i m XOR rT i m)"

definition exec_XORI :: "Instruction \<Rightarrow> machine \<Rightarrow> 32 word \<Rightarrow> exec" where
  "exec_XORI i m pcAfter = put_rt i m pcAfter (rS i m XOR (i_extra i AND 0xffff))"

section \<open>OneInstruction\<close>

definition execute :: "Instruction \<Rightarrow> machine \<Rightarrow> 32 word \<Rightarrow> exec" where
  "execute i m pcAfter = (case i_opCode i of
       OP_ADD \<Rightarrow> exec_ADD i m pcAfter | OP_ADDI \<Rightarrow> exec_ADDI i m pcAfter | OP_ADDIU \<Rightarrow> exec_ADDIU i m pcAfter
     | OP_ADDU \<Rightarrow> exec_ADDU i m pcAfter | OP_AND \<Rightarrow> exec_AND i m pcAfter | OP_ANDI \<Rightarrow> exec_ANDI i m pcAfter
     | OP_BEQ \<Rightarrow> exec_BEQ i m pcAfter | OP_BGEZAL \<Rightarrow> exec_BGEZAL i m pcAfter | OP_BGEZ \<Rightarrow> exec_BGEZ i m pcAfter
     | OP_BGTZ \<Rightarrow> exec_BGTZ i m pcAfter | OP_BLEZ \<Rightarrow> exec_BLEZ i m pcAfter | OP_BLTZAL \<Rightarrow> exec_BLTZAL i m pcAfter
     | OP_BLTZ \<Rightarrow> exec_BLTZ i m pcAfter | OP_BNE \<Rightarrow> exec_BNE i m pcAfter | OP_DIV \<Rightarrow> exec_DIV i m pcAfter
     | OP_DIVU \<Rightarrow> exec_DIVU i m pcAfter | OP_JAL \<Rightarrow> exec_JAL i m pcAfter | OP_J \<Rightarrow> exec_J i m pcAfter
     | OP_JALR \<Rightarrow> exec_JALR i m pcAfter | OP_JR \<Rightarrow> exec_JR i m pcAfter | OP_LB \<Rightarrow> exec_LB i m pcAfter
     | OP_LBU \<Rightarrow> exec_LB i m pcAfter | OP_LH \<Rightarrow> exec_LH i m pcAfter | OP_LHU \<Rightarrow> exec_LH i m pcAfter
     | OP_LUI \<Rightarrow> exec_LUI i m pcAfter | OP_LW \<Rightarrow> exec_LW i m pcAfter | OP_LWL \<Rightarrow> exec_LWL i m pcAfter
     | OP_LWR \<Rightarrow> exec_LWR i m pcAfter | OP_MFHI \<Rightarrow> exec_MFHI i m pcAfter | OP_MFLO \<Rightarrow> exec_MFLO i m pcAfter
     | OP_MTHI \<Rightarrow> exec_MTHI i m pcAfter | OP_MTLO \<Rightarrow> exec_MTLO i m pcAfter | OP_MULT \<Rightarrow> exec_MULT i m pcAfter
     | OP_MULTU \<Rightarrow> exec_MULTU i m pcAfter | OP_NOR \<Rightarrow> exec_NOR i m pcAfter | OP_OR \<Rightarrow> exec_OR i m pcAfter
     | OP_ORI \<Rightarrow> exec_ORI i m pcAfter | OP_SB \<Rightarrow> exec_SB i m pcAfter | OP_SH \<Rightarrow> exec_SH i m pcAfter
     | OP_SLL \<Rightarrow> exec_SLL i m pcAfter | OP_SLLV \<Rightarrow> exec_SLLV i m pcAfter | OP_SLT \<Rightarrow> exec_SLT i m pcAfter
     | OP_SLTI \<Rightarrow> exec_SLTI i m pcAfter | OP_SLTIU \<Rightarrow> exec_SLTIU i m pcAfter | OP_SLTU \<Rightarrow> exec_SLTU i m pcAfter
     | OP_SRA \<Rightarrow> exec_SRA i m pcAfter | OP_SRAV \<Rightarrow> exec_SRAV i m pcAfter | OP_SRL \<Rightarrow> exec_SRL i m pcAfter
     | OP_SRLV \<Rightarrow> exec_SRLV i m pcAfter | OP_SUB \<Rightarrow> exec_SUB i m pcAfter | OP_SUBU \<Rightarrow> exec_SUBU i m pcAfter
     | OP_SW \<Rightarrow> exec_SW i m pcAfter | OP_SWL \<Rightarrow> exec_SWL i m pcAfter | OP_SWR \<Rightarrow> exec_SWR i m pcAfter
     | OP_SYSCALL \<Rightarrow> raise m SyscallException 0 | OP_XOR \<Rightarrow> exec_XOR i m pcAfter
     | OP_XORI \<Rightarrow> exec_XORI i m pcAfter | OP_RES \<Rightarrow> raise m IllegalInstrException 0
     | OP_UNIMP \<Rightarrow> raise m IllegalInstrException 0 | _ \<Rightarrow> Inl AssertFailed)"

definition advance :: "machine \<Rightarrow> 32 word \<Rightarrow> machine" where
  "advance m pcAfter =
     (let m1 = set_reg m PrevPCReg (reg m PCReg);
          m2 = set_reg m1 PCReg (reg m1 NextPCReg)
      in set_reg m2 NextPCReg pcAfter)"

text \<open>The result is the exception that was raised, if any, and the machine.\<close>

definition OneInstruction :: "machine \<Rightarrow> (ExceptionType option \<times> machine) result" where
  "OneInstruction m =
     rbind (ReadMem m (reg m PCReg) 4) (\<lambda>f. case f of
       Trap e m1 \<Rightarrow> Inr (Some e, m1)
     | Done raw m1 \<Rightarrow>
         rbind (execute (Decode raw) m1 (reg m1 NextPCReg + 4)) (\<lambda>x. case x of
           Trap e m2 \<Rightarrow> Inr (Some e, m2)
         | Done (pcAfter, nextLoadReg, nextLoadValue) m2 \<Rightarrow>
             rbind (DelayedLoad m2 nextLoadReg nextLoadValue) (\<lambda>m3. Inr (None, advance m3 pcAfter))))"

section \<open>Every word decodes to an implemented instruction\<close>

lemma index_mask:
  "unat (w AND 0x3f :: 32 word) < 64" "(w AND 0x1f :: 32 word) < 32"
proof -
  have m: "(0x3f :: 32 word) = mask 6" "(0x1f :: 32 word) = mask 5" by (simp_all add: mask_eq_exp_minus_1)
  have "w AND mask 6 < 2 ^ 6" "w AND mask 5 < 2 ^ 5" by (rule and_mask_less', simp)+
  then show "unat (w AND 0x3f :: 32 word) < 64" "(w AND 0x1f :: 32 word) < 32"
    unfolding m by (simp_all add: word_less_nat_alt)
qed

lemma opTable_no_RFE: "k < 64 \<Longrightarrow> fst (opTable ! k) \<noteq> OP_RFE"
proof -
  assume k: "k < 64"
  have "\<forall>x \<in> set opTable. fst x \<noteq> OP_RFE" by (simp add: opTable_def)
  moreover have "length opTable = 64" by (simp add: opTable_def)
  ultimately show ?thesis using k by (metis nth_mem)
qed

lemma specialTable_ops: "k < 64 \<Longrightarrow> specialTable ! k \<notin> {OP_RFE, SPECIAL, BCOND}"
proof -
  assume k: "k < 64"
  have "\<forall>x \<in> set specialTable. x \<notin> {OP_RFE, SPECIAL, BCOND}" by (simp add: specialTable_def)
  moreover have "length specialTable = 64" by (simp add: specialTable_def)
  ultimately show ?thesis using k by (metis nth_mem)
qed

lemma Decode_op: "i_opCode (Decode v) \<notin> {OP_RFE, SPECIAL, BCOND}"
  using opTable_no_RFE [OF index_mask(1), of "drop_bit 26 v"] specialTable_ops [OF index_mask(1), of v]
  by (auto simp: Decode_def decode_op_def Let_def split: prod.splits if_splits)

section \<open>Every instruction keeps the machine well-formed\<close>

text \<open>
  The outcome of a case of the switch: the exception and a machine ready for the kernel, or a machine
  in which a pending load targets a general purpose register. In both cases user memory changed
  only where the page table allows it.
\<close>

definition exec_fine :: "machine \<Rightarrow> exec \<Rightarrow> bool" where
  "exec_fine m x \<longleftrightarrow>
     (\<exists>e m'. x = Inr (Trap e m') \<and> e \<noteq> NoException \<and> machine_ok m' \<and> user_step m m') \<or>
     (\<exists>pc r v m'. x = Inr (Done (pc, r, v) m') \<and> cpu_ok m' \<and> r < 32 \<and> user_step m m')"

named_theorems fine_intros "introduction rules for exec_fine"

lemma fine_go [fine_intros]: "cpu_ok m' \<Longrightarrow> user_step m m' \<Longrightarrow> exec_fine m (go m' pc)"
  by (simp add: exec_fine_def go_def)

lemma reg_index: "unat (r :: 5 word) < 32"
  using unsigned_less [of r, where 'a = nat] by simp

lemma cpu_ok_gpr [fine_intros]: "cpu_ok m \<Longrightarrow> cpu_ok (set_reg m (unat (r :: 5 word)) v)"
  using reg_index [of r] by (intro cpu_ok_set_reg) (simp_all add: nachos_consts)

lemma cpu_ok_special [fine_intros]:
  "cpu_ok m \<Longrightarrow> cpu_ok (set_reg m HiReg v)" "cpu_ok m \<Longrightarrow> cpu_ok (set_reg m LoReg v)"
  "cpu_ok m \<Longrightarrow> cpu_ok (set_reg m R31 v)"
  by (rule cpu_ok_set_reg; simp add: nachos_consts)+

lemma user_step_set_reg_trans [fine_intros]: "user_step m m' \<Longrightarrow> user_step m (set_reg m' k v)"
  by (erule user_step_trans) simp

lemma fine_put_rd [fine_intros]: "cpu_ok m' \<Longrightarrow> user_step m m' \<Longrightarrow> exec_fine m (put_rd i m' pc v)"
  unfolding put_rd_def by (intro fine_intros)

lemma fine_put_rt [fine_intros]: "cpu_ok m' \<Longrightarrow> user_step m m' \<Longrightarrow> exec_fine m (put_rt i m' pc v)"
  unfolding put_rt_def by (intro fine_intros)

lemma fine_branch [fine_intros]: "cpu_ok m' \<Longrightarrow> user_step m m' \<Longrightarrow> exec_fine m (branch i m' pc t)"
  unfolding branch_def by (intro fine_intros)

lemma fine_delay [fine_intros]: "cpu_ok m' \<Longrightarrow> user_step m m' \<Longrightarrow> exec_fine m (delay i m' pc v)"
proof -
  have "(ucast (i_rt i) :: 32 word) < 32"
    using reg_index [of "i_rt i"] by (simp add: word_less_nat_alt unsigned_ucast_eq take_bit_nat_eq_self)
  then show "cpu_ok m' \<Longrightarrow> user_step m m' \<Longrightarrow> exec_fine m (delay i m' pc v)"
    by (simp add: exec_fine_def delay_def)
qed

lemma fine_raise [fine_intros]:
  assumes "cpu_ok m'" "user_step m m'" "e \<noteq> NoException"
  shows "exec_fine m (raise m' e a)"
proof -
  obtain m2 where r: "(raise m' e a :: exec) = Inr (Trap e m2) \<and> machine_ok m2 \<and> mainMemory m2 = mainMemory m' \<and>
      m_tlb m2 = m_tlb m' \<and> m_pageTable m2 = m_pageTable m' \<and> pageTableSize m2 = pageTableSize m'"
    using raise_ok [OF assms(1), of e a, where 'a = "32 word \<times> 32 word \<times> 32 word"] by blast
  then have "user_step m m2" using assms(2) user_step_same user_step_trans by blast
  then show ?thesis using r assms(3) by (auto simp: exec_fine_def)
qed

lemma fine_load [fine_intros]:
  assumes "cpu_ok m'" "user_step m m'" "sz \<in> {1, 2, 4}"
    "\<And>v m1. cpu_ok m1 \<Longrightarrow> user_step m m1 \<Longrightarrow> exec_fine m (k v m1)"
  shows "exec_fine m (load_then m' a sz k)"
  using assms(1,3)
proof (cases rule: ReadMem_cases [of m' sz a])
  case (hit i m1)
  then show ?thesis using assms(4) user_step_trans [OF assms(2)] by (simp add: load_then_def)
next
  case (miss e m1)
  then show ?thesis using user_step_trans [OF assms(2)] by (auto simp: load_then_def exec_fine_def)
qed

lemma fine_store [fine_intros]:
  assumes "cpu_ok m'" "user_step m m'" "sz \<in> {1, 2, 4}"
    "\<And>m1. cpu_ok m1 \<Longrightarrow> user_step m m1 \<Longrightarrow> exec_fine m (k m1)"
  shows "exec_fine m (store_then m' a sz v k)"
  using assms(1,3)
proof (cases rule: WriteMem_cases [of m' sz a v])
  case (hit i m1)
  then show ?thesis using assms(4) user_step_trans [OF assms(2)] by (simp add: store_then_def)
next
  case (miss e m1)
  then show ?thesis using user_step_trans [OF assms(2)] by (auto simp: store_then_def exec_fine_def)
qed

lemmas alu_defs = exec_ADD_def exec_ADDI_def exec_ADDIU_def exec_ADDU_def exec_AND_def exec_ANDI_def
  exec_NOR_def exec_OR_def exec_ORI_def exec_SLL_def exec_SLLV_def exec_SLT_def exec_SLTI_def
  exec_SLTIU_def exec_SLTU_def exec_SRA_def exec_SRAV_def exec_SRL_def exec_SRLV_def exec_SUB_def
  exec_SUBU_def exec_XOR_def exec_XORI_def exec_LUI_def exec_MFHI_def exec_MFLO_def

lemmas jump_defs = exec_BEQ_def exec_BGEZ_def exec_BGEZAL_def exec_BGTZ_def exec_BLEZ_def exec_BLTZ_def
  exec_BLTZAL_def exec_BNE_def exec_J_def exec_JAL_def exec_JR_def exec_JALR_def exec_MTHI_def exec_MTLO_def
  exec_DIVU_def exec_MULT_def exec_MULTU_def

lemmas memory_defs = exec_LB_def exec_LH_def exec_LW_def exec_LWL_def exec_LWR_def exec_SB_def exec_SH_def
  exec_SW_def exec_SWL_def exec_SWR_def

text \<open>Whether the host divides \<^verbatim>\<open>INT_MIN\<close> by \<open>-1\<close>.\<close>

definition div_traps :: "Instruction \<Rightarrow> machine \<Rightarrow> bool" where
  "div_traps i m \<longleftrightarrow> i_opCode i = OP_DIV \<and> sint (rS i m) = - (2 ^ 31) \<and> sint (rT i m) = -1"

lemma alu_fine:
  assumes "cpu_ok m"
  shows "exec_fine m (exec_ADD i m pc)" "exec_fine m (exec_ADDI i m pc)" "exec_fine m (exec_ADDIU i m pc)"
    "exec_fine m (exec_ADDU i m pc)" "exec_fine m (exec_AND i m pc)" "exec_fine m (exec_ANDI i m pc)"
    "exec_fine m (exec_NOR i m pc)" "exec_fine m (exec_OR i m pc)" "exec_fine m (exec_ORI i m pc)"
    "exec_fine m (exec_SLL i m pc)" "exec_fine m (exec_SLLV i m pc)" "exec_fine m (exec_SLT i m pc)"
    "exec_fine m (exec_SLTI i m pc)" "exec_fine m (exec_SLTIU i m pc)" "exec_fine m (exec_SLTU i m pc)"
    "exec_fine m (exec_SRA i m pc)" "exec_fine m (exec_SRAV i m pc)" "exec_fine m (exec_SRL i m pc)"
    "exec_fine m (exec_SRLV i m pc)" "exec_fine m (exec_SUB i m pc)" "exec_fine m (exec_SUBU i m pc)"
    "exec_fine m (exec_XOR i m pc)" "exec_fine m (exec_XORI i m pc)" "exec_fine m (exec_LUI i m pc)"
    "exec_fine m (exec_MFHI i m pc)" "exec_fine m (exec_MFLO i m pc)"
  using assms by (auto simp: alu_defs Let_def intro!: fine_intros)

lemma jump_fine:
  assumes "cpu_ok m"
  shows "exec_fine m (exec_BEQ i m pc)" "exec_fine m (exec_BGEZ i m pc)" "exec_fine m (exec_BGEZAL i m pc)"
    "exec_fine m (exec_BGTZ i m pc)" "exec_fine m (exec_BLEZ i m pc)" "exec_fine m (exec_BLTZ i m pc)"
    "exec_fine m (exec_BLTZAL i m pc)" "exec_fine m (exec_BNE i m pc)" "exec_fine m (exec_J i m pc)"
    "exec_fine m (exec_JAL i m pc)" "exec_fine m (exec_JR i m pc)" "exec_fine m (exec_JALR i m pc)"
    "exec_fine m (exec_MTHI i m pc)" "exec_fine m (exec_MTLO i m pc)" "exec_fine m (exec_DIVU i m pc)"
    "exec_fine m (exec_MULT i m pc)" "exec_fine m (exec_MULTU i m pc)"
  using assms by (auto simp: jump_defs Let_def split: prod.splits intro!: fine_intros)

lemma memory_fine:
  assumes "cpu_ok m"
  shows "exec_fine m (exec_LB i m pc)" "exec_fine m (exec_LH i m pc)" "exec_fine m (exec_LW i m pc)"
    "exec_fine m (exec_LWL i m pc)" "exec_fine m (exec_LWR i m pc)" "exec_fine m (exec_SB i m pc)"
    "exec_fine m (exec_SH i m pc)" "exec_fine m (exec_SW i m pc)" "exec_fine m (exec_SWL i m pc)"
    "exec_fine m (exec_SWR i m pc)"
  using assms by (auto simp: memory_defs Let_def intro!: fine_intros)

lemma div_fine:
  assumes "cpu_ok m" "\<not> (sint (rS i m) = - (2 ^ 31) \<and> sint (rT i m) = -1)"
  shows "exec_fine m (exec_DIV i m pc)"
  unfolding exec_DIV_def Let_def using assms by (auto intro!: fine_intros)

lemma execute_fine:
  assumes "cpu_ok m" "i_opCode i \<notin> {OP_RFE, SPECIAL, BCOND}" "\<not> div_traps i m"
  shows "exec_fine m (execute i m pc)"
  using assms(2,3) alu_fine [OF assms(1)] jump_fine [OF assms(1)] memory_fine [OF assms(1)]
    div_fine [OF assms(1)] fine_raise [OF assms(1)]
  unfolding execute_def div_traps_def by (cases "i_opCode i") simp_all

lemma advance_ok: "machine_ok m \<Longrightarrow> machine_ok (advance m pc)"
  by (simp add: machine_ok_def cpu_ok_def advance_def Let_def reg_set_reg nachos_consts)

lemma user_step_advance [simp]: "user_step m (advance m pc)"
  by (rule user_step_same) (simp_all add: advance_def Let_def)

lemma OneInstruction_step:
  assumes m: "machine_ok m" and f: "ReadMem m (reg m PCReg) 4 = Inr (Done raw m1)" and c: "cpu_ok m1"
    and u: "user_step m m1" and d: "\<not> div_traps (Decode raw) m1"
  shows "\<exists>e m'. OneInstruction m = Inr (e, m') \<and> machine_ok m' \<and> user_step m m' \<and> e \<noteq> Some NoException"
proof -
  have "exec_fine m1 (execute (Decode raw) m1 (reg m1 NextPCReg + 4))"
    by (rule execute_fine [OF c Decode_op d])
  then consider (trap) e m2 where "execute (Decode raw) m1 (reg m1 NextPCReg + 4) = Inr (Trap e m2)"
      "e \<noteq> NoException" "machine_ok m2" "user_step m1 m2"
    | (go) pc r v m2 where "execute (Decode raw) m1 (reg m1 NextPCReg + 4) = Inr (Done (pc, r, v) m2)"
      "cpu_ok m2" "r < 32" "user_step m1 m2"
    by (auto simp: exec_fine_def)
  then show ?thesis
  proof cases
    case trap
    then show ?thesis using f user_step_trans [OF u] by (auto simp: OneInstruction_def)
  next
    case go
    have "user_step m (advance (after_load m2 r v) pc)"
      using user_step_trans [OF u go(4)] user_step_after_load user_step_advance user_step_trans by blast
    then show ?thesis using f go DelayedLoad_ok [OF go(2)] advance_ok [OF after_load_ok [OF go(2,3)]]
      by (auto simp: OneInstruction_def)
  qed
qed

section \<open>Overflow detection\<close>

lemma SIGN_BIT_bit: "w AND SIGN_BIT = 0 \<longleftrightarrow> \<not> bit w 31"
  unfolding SIGN_BIT_def using sign_bit_bit [of w] by blast

lemma sint_range: "- (2 ^ 31) \<le> sint (w :: 32 word)" "sint (w :: 32 word) < 2 ^ 31"
  using sint_ge [of w] sint_lt [of w] by simp_all

lemma sint_add_wrap: "\<exists>k. sint (x + y :: 32 word) = sint x + sint y + k * 2 ^ 32"
proof -
  have u: "\<exists>k. uint w = sint w + k * 2 ^ 32" for w :: "32 word"
    using sint_uint_bit [of w] by (cases "bit w 31") (auto intro: exI [of _ 1] exI [of _ 0])
  obtain k1 k2 k3 where k: "uint x = sint x + k1 * 2 ^ 32" "uint y = sint y + k2 * 2 ^ 32"
      "uint (x + y) = sint (x + y) + k3 * 2 ^ 32" using u by meson
  obtain k4 where "uint (x + y) = uint x + uint y - k4 * 2 ^ 32" using uint_add_wrap by blast
  then have "sint (x + y) = sint x + sint y + (k1 + k2 - k3 - k4) * 2 ^ 32" using k by (simp add: algebra_simps)
  then show ?thesis by blast
qed

text \<open>The sign test of \<^verbatim>\<open>OP_ADD\<close> holds exactly when the mathematical sum is not representable.\<close>

lemma add_overflow:
  "((x XOR y) AND SIGN_BIT = 0 \<and> (x XOR (x + y)) AND SIGN_BIT \<noteq> 0) \<longleftrightarrow>
   \<not> (- (2 ^ 31) \<le> sint x + sint y \<and> sint x + sint y < 2 ^ 31)"
  and add_exact: "- (2 ^ 31) \<le> sint x + sint y \<Longrightarrow> sint x + sint y < 2 ^ 31 \<Longrightarrow> sint (x + y) = sint x + sint y"
proof -
  obtain k where k: "sint (x + y) = sint x + sint y + k * 4294967296" using sint_add_wrap [of x y] by auto
  have r: "- 2147483648 \<le> sint x" "sint x < 2147483648" "- 2147483648 \<le> sint y" "sint y < 2147483648"
      "- 2147483648 \<le> sint (x + y)" "sint (x + y) < 2147483648"
    using sint_range [of x] sint_range [of y] sint_range [of "x + y"] by simp_all
  have b: "((x XOR y) AND SIGN_BIT = 0 \<and> (x XOR (x + y)) AND SIGN_BIT \<noteq> 0) \<longleftrightarrow>
      (sint x < 0 \<longleftrightarrow> sint y < 0) \<and> (sint x < 0 \<longleftrightarrow> \<not> sint (x + y) < 0)"
    by (auto simp: SIGN_BIT_bit bit_xor_iff sint_neg_bit)
  have "k = 0 \<or> k = 1 \<or> k = -1" using k r by linarith
  then show "((x XOR y) AND SIGN_BIT = 0 \<and> (x XOR (x + y)) AND SIGN_BIT \<noteq> 0) \<longleftrightarrow>
      \<not> (- (2 ^ 31) \<le> sint x + sint y \<and> sint x + sint y < 2 ^ 31)"
    unfolding b using k r by auto
  show "sint (x + y) = sint x + sint y" if "- (2 ^ 31) \<le> sint x + sint y" "sint x + sint y < 2 ^ 31"
    using that k r \<open>k = 0 \<or> k = 1 \<or> k = -1\<close> by auto
qed

lemma sub_overflow:
  "((x XOR y) AND SIGN_BIT \<noteq> 0 \<and> (x XOR (x - y)) AND SIGN_BIT \<noteq> 0) \<longleftrightarrow>
   \<not> (- (2 ^ 31) \<le> sint x - sint y \<and> sint x - sint y < 2 ^ 31)"
  and sub_exact: "- (2 ^ 31) \<le> sint x - sint y \<Longrightarrow> sint x - sint y < 2 ^ 31 \<Longrightarrow> sint (x - y) = sint x - sint y"
proof -
  obtain k where k0: "sint (x - y + y) = sint (x - y) + sint y + k * 4294967296"
    using sint_add_wrap [of "x - y" y] by auto
  then have k: "sint (x - y) = sint x - sint y - k * 4294967296" by simp
  have r: "- 2147483648 \<le> sint x" "sint x < 2147483648" "- 2147483648 \<le> sint y" "sint y < 2147483648"
      "- 2147483648 \<le> sint (x - y)" "sint (x - y) < 2147483648"
    using sint_range [of x] sint_range [of y] sint_range [of "x - y"] by simp_all
  have b: "((x XOR y) AND SIGN_BIT \<noteq> 0 \<and> (x XOR (x - y)) AND SIGN_BIT \<noteq> 0) \<longleftrightarrow>
      (sint x < 0 \<longleftrightarrow> \<not> sint y < 0) \<and> (sint x < 0 \<longleftrightarrow> \<not> sint (x - y) < 0)"
    by (auto simp: SIGN_BIT_bit bit_xor_iff sint_neg_bit)
  have "k = 0 \<or> k = 1 \<or> k = -1" using k r by linarith
  then show "((x XOR y) AND SIGN_BIT \<noteq> 0 \<and> (x XOR (x - y)) AND SIGN_BIT \<noteq> 0) \<longleftrightarrow>
      \<not> (- (2 ^ 31) \<le> sint x - sint y \<and> sint x - sint y < 2 ^ 31)"
    unfolding b using k r by auto
  show "sint (x - y) = sint x - sint y" if "- (2 ^ 31) \<le> sint x - sint y" "sint x - sint y < 2 ^ 31"
    using that k r \<open>k = 0 \<or> k = 1 \<or> k = -1\<close> by auto
qed

lemma put_rd_inject:
  assumes "length (registers m) = 40" "put_rd i m pc x = put_rd i m pc y"
  shows "x = y"
proof -
  have "set_reg m (unat (i_rd i)) x = set_reg m (unat (i_rd i)) y"
    using assms(2) by (simp add: put_rd_def go_def)
  moreover have "unat (i_rd i) < length (registers m)" using assms(1) reg_index [of "i_rd i"] by simp
  ultimately show ?thesis using reg_set_reg [of "unat (i_rd i)" m _ "unat (i_rd i)"] by metis
qed

section \<open>Unaligned loads and stores\<close>

lemma merge_LWR_bytes:
  "merge_LWR 0 (bytes_word p q r s) (bytes_word a b c d) = bytes_word a b c d"
  "merge_LWR 1 (bytes_word p q r s) (bytes_word a b c d) = bytes_word b c d s"
  "merge_LWR 2 (bytes_word p q r s) (bytes_word a b c d) = bytes_word c d r s"
  "merge_LWR 3 (bytes_word p q r s) (bytes_word a b c d) = bytes_word d q r s"
  by (simp add: merge_LWR_def;
      rule bit_word_eqI; auto simp: bit_bytes_word bit_simps bit_low_mask bit_high_mask
        simp del: bit_numeral_word_iff)+

lemma merge_LWL_bytes:
  "merge_LWL 3 (bytes_word p q r s) (bytes_word a b c d) = bytes_word a b c d"
  "merge_LWL 0 (bytes_word p q r s) (bytes_word a b c d) = bytes_word p q r a"
  "merge_LWL 1 (bytes_word p q r s) (bytes_word a b c d) = bytes_word p q a b"
  "merge_LWL 2 (bytes_word p q r s) (bytes_word a b c d) = bytes_word p a b c"
  by (simp add: merge_LWL_def;
      rule bit_word_eqI; auto simp: bit_bytes_word bit_simps bit_low_mask bit_high_mask
        simp del: bit_numeral_word_iff)+

lemma merge_SWR_bytes:
  "merge_SWR 0 (bytes_word p q r s) (bytes_word a b c d) = bytes_word p q r s"
  "merge_SWR 1 (bytes_word p q r s) (bytes_word a b c d) = bytes_word a p q r"
  "merge_SWR 2 (bytes_word p q r s) (bytes_word a b c d) = bytes_word a b p q"
  "merge_SWR 3 (bytes_word p q r s) (bytes_word a b c d) = bytes_word a b c p"
  by (simp add: merge_SWR_def;
      rule bit_word_eqI; auto simp: bit_bytes_word bit_simps bit_low_mask bit_high_mask
        simp del: bit_numeral_word_iff)+

lemma merge_SWL_bytes:
  "merge_SWL 3 (bytes_word p q r s) (bytes_word a b c d) = bytes_word p q r s"
  "merge_SWL 0 (bytes_word p q r s) (bytes_word a b c d) = bytes_word s b c d"
  "merge_SWL 1 (bytes_word p q r s) (bytes_word a b c d) = bytes_word r s c d"
  "merge_SWL 2 (bytes_word p q r s) (bytes_word a b c d) = bytes_word q r s d"
  by (simp add: merge_SWL_def;
      rule bit_word_eqI; auto simp: bit_bytes_word bit_simps bit_low_mask bit_high_mask
        simp del: bit_numeral_word_iff)+

section \<open>Properties\<close>

lemma OneInstruction_outcome:
  assumes "machine_ok m"
  shows "(\<exists>e m'. OneInstruction m = Inr (e, m') \<and> machine_ok m' \<and> user_step m m' \<and> e \<noteq> Some NoException) \<or>
    (\<exists>raw m1. ReadMem m (reg m PCReg) 4 = Inr (Done raw m1) \<and> div_traps (Decode raw) m1 \<and>
       OneInstruction m = Inl HostTrap)"
proof -
  have c: "cpu_ok m" using assms by (simp add: machine_ok_def)
  have sz: "(4 :: int) \<in> {1, 2, 4}" by simp
  from c sz show ?thesis
  proof (cases rule: ReadMem_cases [of m 4 "reg m PCReg"])
    case (hit i m1)
    define raw where "raw = load_value (mainMemory m) (phys m (reg m PCReg) i) 4"
    have f: "ReadMem m (reg m PCReg) 4 = Inr (Done raw m1)" using hit(6) by (simp add: raw_def)
    show ?thesis
    proof (cases "div_traps (Decode raw) m1")
      case True
      then have "rT (Decode raw) m1 \<noteq> 0" by (auto simp: div_traps_def)
      then have "execute (Decode raw) m1 pc = Inl HostTrap" for pc
        using True by (simp add: div_traps_def execute_def exec_DIV_def)
      then show ?thesis using f True by (auto simp: OneInstruction_def)
    next
      case False
      then show ?thesis using OneInstruction_step [OF assms f hit(3,4)] by blast
    qed
  next
    case (miss e m1)
    then show ?thesis by (auto simp: OneInstruction_def)
  qed
qed

text \<open>
  C2: executing one instruction of a user program on a well-formed machine never fails an assertion
  (in particular every instruction word decodes to an operation the simulator handles), never indexes
  out of the register file, the page table or memory, and leaves a well-formed machine, with register 0
  equal to zero. It changes no mapping and no protection bit, and physical memory only inside frames
  that the page table maps writable. The one exception is a signed division of the smallest
  integer by \<open>-1\<close>, which traps the host.
\<close>

theorem OneInstruction_safe:
  assumes "machine_ok m"
  shows "(\<exists>e m'. OneInstruction m = Inr (e, m') \<and> machine_ok m' \<and> user_step m m' \<and> e \<noteq> Some NoException) \<or>
    (\<exists>raw m1. ReadMem m (reg m PCReg) 4 = Inr (Done raw m1) \<and> div_traps (Decode raw) m1 \<and>
       OneInstruction m = Inl HostTrap)"
  by (rule OneInstruction_outcome [OF assms])

theorem OneInstruction_safe_witness:
  "(\<exists>e m'. OneInstruction demo_machine = Inr (e, m') \<and> machine_ok m' \<and> user_step demo_machine m' \<and>
      e \<noteq> Some NoException) \<or>
   (\<exists>raw m1. ReadMem demo_machine (reg demo_machine PCReg) 4 = Inr (Done raw m1) \<and>
      div_traps (Decode raw) m1 \<and> OneInstruction demo_machine = Inl HostTrap)"
  by (rule OneInstruction_safe [OF demo_machine_ok])

text \<open>
  C26: the instructions \<^verbatim>\<open>ADD\<close>, \<^verbatim>\<open>ADDI\<close> and \<^verbatim>\<open>SUB\<close> raise an overflow exception exactly when the exact signed
  result does not fit into 32 bits, and store the exact result otherwise.
\<close>

theorem overflow_detected_exactly:
  "exec_ADD i m pc =
     (if - (2 ^ 31) \<le> sint (rS i m) + sint (rT i m) \<and> sint (rS i m) + sint (rT i m) < 2 ^ 31
      then put_rd i m pc (word_of_int (sint (rS i m) + sint (rT i m))) else raise m OverflowException 0) \<and>
   exec_ADDI i m pc =
     (if - (2 ^ 31) \<le> sint (rS i m) + sint (i_extra i) \<and> sint (rS i m) + sint (i_extra i) < 2 ^ 31
      then put_rt i m pc (word_of_int (sint (rS i m) + sint (i_extra i))) else raise m OverflowException 0) \<and>
   exec_SUB i m pc =
     (if - (2 ^ 31) \<le> sint (rS i m) - sint (rT i m) \<and> sint (rS i m) - sint (rT i m) < 2 ^ 31
      then put_rd i m pc (word_of_int (sint (rS i m) - sint (rT i m))) else raise m OverflowException 0)"
proof -
  have w: "word_of_int (sint x + sint y) = x + y" "word_of_int (sint x - sint y) = x - y" for x y :: "32 word"
    by simp_all
  have c: "(y XOR (x + y)) AND SIGN_BIT \<noteq> 0 \<longleftrightarrow> (x XOR (x + y)) AND SIGN_BIT \<noteq> 0"
    if "(x XOR y) AND SIGN_BIT = 0" for x y :: "32 word"
    using that by (auto simp: SIGN_BIT_bit bit_xor_iff)
  show ?thesis
    unfolding exec_ADD_def exec_ADDI_def exec_SUB_def Let_def w
    using add_overflow [of "rS i m" "rT i m"] add_overflow [of "rS i m" "i_extra i"]
      sub_overflow [of "rS i m" "rT i m"] c [of "rS i m" "i_extra i"] by presburger
qed

definition word_at :: "(nat \<Rightarrow> byte) \<Rightarrow> nat \<Rightarrow> 32 word" where
  "word_at f j = bytes_word (f j) (f (j + 1)) (f (j + 2)) (f (j + 3))"

text \<open>
  the unaligned access idioms work at every alignment \<open>k\<close>. With \<open>f\<close> the eight bytes from the aligned
  address below: \<^verbatim>\<open>LWR\<close> at the address and \<^verbatim>\<open>LWL\<close> three bytes further assemble the word starting at
  byte \<open>k\<close>; \<^verbatim>\<open>SWR\<close> and \<^verbatim>\<open>SWL\<close> write a register to the bytes \<open>k\<close> to \<open>k + 3\<close> and no others.
\<close>

theorem unaligned_access:
  assumes "k < 4"
  shows "merge_LWL (of_nat ((k + 3) mod 4)) (merge_LWR (of_nat k) old (word_at f 0)) (word_at f (if k = 0 then 0 else 4))
      = word_at f k \<and>
    (let g = (\<lambda>j. if k \<le> j \<and> j < k + 4 then word_bytes t ! (j - k) else f j) in
      merge_SWR (of_nat k) t (word_at f 0) = word_at g 0 \<and>
      merge_SWL (of_nat ((k + 3) mod 4)) t (word_at f (if k = 0 then 0 else 4)) = word_at g (if k = 0 then 0 else 4))"
proof -
  obtain p q r s where o: "old = bytes_word p q r s" using bytes_word_bytes [of old] by metis
  obtain a b c d where t: "t = bytes_word a b c d" using bytes_word_bytes [of t] by metis
  have k: "k = 0 \<or> k = 1 \<or> k = 2 \<or> k = 3" using assms by linarith
  have "merge_LWL (of_nat ((k + 3) mod 4)) (merge_LWR (of_nat k) old (word_at f 0))
      (word_at f (if k = 0 then 0 else 4)) = word_at f k"
    using k by (elim disjE) (simp_all add: o word_at_def merge_LWL_bytes merge_LWR_bytes flip: numeral_2_eq_2)
  moreover have "let g = (\<lambda>j. if k \<le> j \<and> j < k + 4 then word_bytes t ! (j - k) else f j) in
      merge_SWR (of_nat k) t (word_at f 0) = word_at g 0 \<and>
      merge_SWL (of_nat ((k + 3) mod 4)) t (word_at f (if k = 0 then 0 else 4)) = word_at g (if k = 0 then 0 else 4)"
    using k by (elim disjE) (simp_all add: t word_at_def merge_SWL_bytes merge_SWR_bytes Let_def)
  ultimately show ?thesis by blast
qed

theorem unaligned_access_witness:
  "merge_LWL 0 (merge_LWR 1 0 (word_at of_nat 0)) (word_at of_nat 4) = word_at of_nat 1"
  using unaligned_access [of 1 0 of_nat 0] by simp

text \<open>
  \<^verbatim>\<open>SRL\<close> and \<^verbatim>\<open>SRLV\<close> shift in copies of the sign bit, like \<^verbatim>\<open>SRA\<close> and \<^verbatim>\<open>SRAV\<close>: for a negative operand
  and a shift of at least one bit their result is not that of the logical shift the MIPS
  instruction set prescribes.
\<close>

theorem SRL_is_arithmetic:
  "exec_SRL i m pc = exec_SRA i m pc \<and> exec_SRLV i m pc = exec_SRAV i m pc \<and>
   (length (registers m) = 40 \<and> sint (rT i m) < 0 \<and> 0 < unat (i_extra i) \<and> unat (i_extra i) < 32 \<longrightarrow>
    exec_SRL i m pc \<noteq> put_rd i m pc (drop_bit (unat (i_extra i)) (rT i m)))"
proof -
  have "signed_drop_bit n w \<noteq> drop_bit n w" if "sint w < 0" "0 < n" "n < 32" for n and w :: "32 word"
  proof -
    have "bit w 31" using that(1) by (simp add: sint_neg_bit)
    then have "bit (signed_drop_bit n w) 31" "\<not> bit (drop_bit n w) 31"
      using that(2,3) by (simp_all add: bit_simps) (auto dest: bit_imp_le_length)
    then show ?thesis by metis
  qed
  then show ?thesis using put_rd_inject [of m i pc]
    by (auto simp: exec_SRL_def exec_SRA_def exec_SRLV_def exec_SRAV_def Let_def)
qed

theorem SRL_is_arithmetic_witness:
  "let m = set_reg demo_machine 2 (- 8);
       i = \<lparr>i_opCode = OP_SRL, i_rs = 0, i_rt = 2, i_rd = 3, i_extra = 1\<rparr>
   in exec_SRL i m 4 \<noteq> put_rd i m 4 (drop_bit 1 (- 8))"
proof -
  let ?m = "set_reg demo_machine 2 (- 8)"
  let ?i = "\<lparr>i_opCode = OP_SRL, i_rs = 0, i_rt = 2, i_rd = 3, i_extra = 1\<rparr>"
  have "length (registers ?m) = 40" by (simp add: demo_machine_def)
  moreover have "rT ?i ?m = - 8" by (simp add: rT_def demo_machine_def reg_set_reg)
  moreover have "sint (- 8 :: 32 word) < 0" by (simp add: sint_neg_bit)
  ultimately show ?thesis using SRL_is_arithmetic [of ?i ?m 4] by (auto simp: Let_def)
qed

end
