(* ===== verification/Interrupts.thy ===== *)
theory Interrupts
  imports Machine_Memory Linked_List
begin

text \<open>
  Simulated time and hardware interrupts (\<^verbatim>\<open>machine/interrupt.h\<close>, \<^verbatim>\<open>machine/interrupt.cc\<close>,
  \<^verbatim>\<open>machine/stats.h\<close>), the timer device (\<^verbatim>\<open>machine/timer.cc\<close>) and the alarm clock (\<^verbatim>\<open>threads/alarm.cc\<close>).
  The pending interrupts are a \<^verbatim>\<open>SortedList\<close>, used through the sequence operations that \<open>Linked_List\<close> shows
  the pointer lists to implement; a \<^verbatim>\<open>PendingInterrupt*\<close> carries the number of its allocation as its
  identity. A callback object is a value of type \<open>'cb\<close> that the handler parameter interprets; the
  part of the system the handlers work on is the component \<open>world\<close> of the state.
\<close>

datatype IntStatus = IntOff | IntOn
datatype MachineStatus = IdleMode | SystemMode | UserMode
datatype IntType = TimerInt | DiskInt | ConsoleWriteInt | ConsoleReadInt | NetworkSendInt | NetworkRecvInt

definition UserTick :: int where [nachos_consts]: "UserTick = 1"
definition SystemTick :: int where [nachos_consts]: "SystemTick = 10"
definition TimerTicks :: int where [nachos_consts]: "TimerTicks = 100"

record 'cb PendingInterrupt =
  pi_id :: nat
  callOnInterrupt :: 'cb
  when_due :: int
  pi_type :: IntType

record Statistics =
  totalTicks :: int
  idleTicks :: int
  systemTicks :: int
  userTicks :: int

record ('cb, 'w) Interrupt =
  level :: IntStatus
  pending :: "'cb PendingInterrupt list"
  inHandler :: bool
  yieldOnReturn :: bool
  status :: MachineStatus
  stats :: Statistics
  next_id :: nat
  i_machine :: "machine option"
  world :: 'w

definition new_Statistics :: Statistics where
  "new_Statistics = \<lparr>totalTicks = 0, idleTicks = 0, systemTicks = 0, userTicks = 0\<rparr>"

definition PendingCompare :: "'cb PendingInterrupt \<Rightarrow> 'cb PendingInterrupt \<Rightarrow> int" where
  "PendingCompare x y = (if when_due x < when_due y then -1 else if when_due x > when_due y then 1 else 0)"

definition new_Interrupt :: "machine option \<Rightarrow> 'w \<Rightarrow> ('cb, 'w) Interrupt" where
  "new_Interrupt m w = \<lparr>level = IntOff, pending = [], inHandler = False, yieldOnReturn = False,
     status = SystemMode, stats = new_Statistics, next_id = 0, i_machine = m, world = w\<rparr>"

section \<open>Operations\<close>

definition ChangeLevel :: "IntStatus \<Rightarrow> IntStatus \<Rightarrow> ('cb, 'w) Interrupt \<Rightarrow> ('cb, 'w) Interrupt" where
  "ChangeLevel old now s = s\<lparr>level := now\<rparr>"

definition YieldOnReturn :: "('cb, 'w) Interrupt \<Rightarrow> ('cb, 'w) Interrupt result" where
  "YieldOnReturn s = rbind (rassert (inHandler s)) (\<lambda>_. Inr (s\<lparr>yieldOnReturn := True\<rparr>))"

definition Schedule :: "'cb \<Rightarrow> int \<Rightarrow> IntType \<Rightarrow> ('cb, 'w) Interrupt \<Rightarrow> ('cb, 'w) Interrupt result" where
  "Schedule toCall fromNow type s =
     (let toOccur = \<lparr>pi_id = next_id s, callOnInterrupt = toCall,
            when_due = totalTicks (stats s) + fromNow, pi_type = type\<rparr>;
          s1 = s\<lparr>next_id := Suc (next_id s)\<rparr> in
      rbind (rassert (fromNow > 0)) (\<lambda>_.
      rbind (seq_insert PendingCompare (pending s1) toOccur) (\<lambda>p. Inr (s1\<lparr>pending := p\<rparr>))))"

text \<open>
  The do-while loop of \<^verbatim>\<open>CheckIfDue\<close>. It ends only if the handlers leave nothing that is due; the
  value \<open>None\<close> stands for a loop that does not return.
\<close>

partial_function (option) fire_due ::
  "('cb \<Rightarrow> ('cb, 'w) Interrupt \<Rightarrow> ('cb, 'w) Interrupt result) \<Rightarrow> ('cb, 'w) Interrupt \<Rightarrow>
   ('cb, 'w) Interrupt result option" where
  "fire_due handler s =
     (case seq_remove_front (pending s) of
        Inl e \<Rightarrow> Some (Inl e)
      | Inr (nxt, rest) \<Rightarrow>
          (case handler (callOnInterrupt nxt) (s\<lparr>pending := rest\<rparr>) of
             Inl e \<Rightarrow> Some (Inl e)
           | Inr s1 \<Rightarrow>
               if pending s1 \<noteq> [] \<and> when_due (hd (pending s1)) \<le> totalTicks (stats s1)
               then fire_due handler s1 else Some (Inr s1)))"

definition complete_load :: "('cb, 'w) Interrupt \<Rightarrow> ('cb, 'w) Interrupt result" where
  "complete_load s = (case i_machine s of None \<Rightarrow> Inr s
     | Some m \<Rightarrow> rbind (DelayedLoad m 0 0) (\<lambda>m1. Inr (s\<lparr>i_machine := Some m1\<rparr>)))"

definition CheckIfDue ::
  "('cb \<Rightarrow> ('cb, 'w) Interrupt \<Rightarrow> ('cb, 'w) Interrupt result) \<Rightarrow> bool \<Rightarrow> ('cb, 'w) Interrupt \<Rightarrow>
   (bool \<times> ('cb, 'w) Interrupt) result option" where
  "CheckIfDue handler advanceClock s =
     (if level s \<noteq> IntOff then Some (Inl AssertFailed)
      else if pending s = [] then Some (Inr (False, s))
      else let nxt = hd (pending s); st = stats s in
        if when_due nxt > totalTicks st \<and> \<not> advanceClock then Some (Inr (False, s))
        else let s1 = (if when_due nxt > totalTicks st
               then s\<lparr>stats := st\<lparr>idleTicks := idleTicks st + (when_due nxt - totalTicks st),
                      totalTicks := when_due nxt\<rparr>\<rparr> else s) in
          (case complete_load s1 of
             Inl e \<Rightarrow> Some (Inl e)
           | Inr s2 \<Rightarrow> map_option (\<lambda>r. rbind r (\<lambda>s3. Inr (True, s3\<lparr>inHandler := False\<rparr>)))
               (fire_due handler (s2\<lparr>inHandler := True\<rparr>))))"

text \<open>\<open>yield\<close> is \<^verbatim>\<open>kernel->currentThread->Yield()\<close>.\<close>

definition OneTick ::
  "('cb \<Rightarrow> ('cb, 'w) Interrupt \<Rightarrow> ('cb, 'w) Interrupt result) \<Rightarrow>
   (('cb, 'w) Interrupt \<Rightarrow> ('cb, 'w) Interrupt result option) \<Rightarrow> ('cb, 'w) Interrupt \<Rightarrow>
   ('cb, 'w) Interrupt result option" where
  "OneTick handler yield s =
     (let oldStatus = status s; st = stats s;
          s1 = s\<lparr>stats := (if oldStatus = SystemMode
             then st\<lparr>totalTicks := totalTicks st + SystemTick, systemTicks := systemTicks st + SystemTick\<rparr>
             else st\<lparr>totalTicks := totalTicks st + UserTick, userTicks := userTicks st + UserTick\<rparr>)\<rparr>
      in case CheckIfDue handler False (ChangeLevel IntOn IntOff s1) of
           None \<Rightarrow> None
         | Some (Inl e) \<Rightarrow> Some (Inl e)
         | Some (Inr (b, s2)) \<Rightarrow>
             let s3 = ChangeLevel IntOff IntOn s2 in
             if yieldOnReturn s3
             then map_option (\<lambda>r. rbind r (\<lambda>s4. Inr (s4\<lparr>status := oldStatus\<rparr>)))
                    (yield (s3\<lparr>yieldOnReturn := False, status := SystemMode\<rparr>))
             else Some (Inr s3))"

definition SetLevel ::
  "('cb \<Rightarrow> ('cb, 'w) Interrupt \<Rightarrow> ('cb, 'w) Interrupt result) \<Rightarrow>
   (('cb, 'w) Interrupt \<Rightarrow> ('cb, 'w) Interrupt result option) \<Rightarrow> IntStatus \<Rightarrow> ('cb, 'w) Interrupt \<Rightarrow>
   (IntStatus \<times> ('cb, 'w) Interrupt) result option" where
  "SetLevel handler yield now s =
     (let old = level s in
      if \<not> (now = IntOff \<or> \<not> inHandler s) then Some (Inl AssertFailed)
      else let s1 = ChangeLevel old now s in
        if now = IntOn \<and> old = IntOff
        then map_option (\<lambda>r. rbind r (\<lambda>s2. Inr (old, s2))) (OneTick handler yield s1)
        else Some (Inr (old, s1)))"

text \<open>\<^verbatim>\<open>Idle\<close> returns the state in which the scheduler looks for a thread again, or halts Nachos.\<close>

datatype 's idle_outcome = Resume 's | Halted 's

definition Idle ::
  "('cb \<Rightarrow> ('cb, 'w) Interrupt \<Rightarrow> ('cb, 'w) Interrupt result) \<Rightarrow> ('cb, 'w) Interrupt \<Rightarrow>
   ('cb, 'w) Interrupt idle_outcome result option" where
  "Idle handler s =
     map_option (\<lambda>r. rbind r (\<lambda>(fired, s1).
       Inr (if fired then Resume (s1\<lparr>status := SystemMode\<rparr>) else Halted s1)))
     (CheckIfDue handler True (s\<lparr>status := IdleMode\<rparr>))"

section \<open>Timer and alarm\<close>

record Timer =
  randomize :: bool
  tm_disable :: bool

text \<open>\<open>rnd\<close> is \<^verbatim>\<open>RandomNumber()\<close>, the C library's generator, on the component \<open>'r\<close> of the world.\<close>

definition SetInterrupt ::
  "('r \<Rightarrow> nat \<times> 'r) \<Rightarrow> (unit, Timer \<times> 'r) Interrupt \<Rightarrow> (unit, Timer \<times> 'r) Interrupt result" where
  "SetInterrupt rnd s =
     (let (tm, r) = world s in
      if tm_disable tm then Inr s
      else let (delay, r1) = (if randomize tm
                 then (let (n, r1) = rnd r in (1 + int n mod (TimerTicks * 2), r1))
                 else (TimerTicks, r))
           in Schedule () delay TimerInt (s\<lparr>world := (tm, r1)\<rparr>))"

definition Alarm_CallBack :: "('cb, 'w) Interrupt \<Rightarrow> ('cb, 'w) Interrupt result" where
  "Alarm_CallBack s = (if status s \<noteq> IdleMode then YieldOnReturn s else Inr s)"

definition Timer_CallBack ::
  "('r \<Rightarrow> nat \<times> 'r) \<Rightarrow> unit \<Rightarrow> (unit, Timer \<times> 'r) Interrupt \<Rightarrow> (unit, Timer \<times> 'r) Interrupt result" where
  "Timer_CallBack rnd _ s = rbind (Alarm_CallBack s) (SetInterrupt rnd)"

definition new_Alarm ::
  "('r \<Rightarrow> nat \<times> 'r) \<Rightarrow> bool \<Rightarrow> (unit, Timer \<times> 'r) Interrupt \<Rightarrow> (unit, Timer \<times> 'r) Interrupt result" where
  "new_Alarm rnd doRandom s =
     SetInterrupt rnd (s\<lparr>world := (\<lparr>randomize = doRandom, tm_disable = False\<rparr>, snd (world s))\<rparr>)"

section \<open>Well-formed interrupt states\<close>

lemma PendingCompare_order: "cmp_order PendingCompare"
  by (auto simp: cmp_order_def PendingCompare_def split: if_splits)

text \<open>
  The pending interrupts are sorted by time, different objects with used identities, the clock is the
  sum of the idle, system and user ticks, and the machine, if any, is well-formed.
\<close>

definition intr_ok :: "('cb, 'w) Interrupt \<Rightarrow> bool" where
  "intr_ok s \<longleftrightarrow> cmp_sorted PendingCompare (pending s) \<and> distinct (pending s) \<and>
     (\<forall>p \<in> set (pending s). pi_id p < next_id s) \<and>
     totalTicks (stats s) = idleTicks (stats s) + systemTicks (stats s) + userTicks (stats s) \<and>
     (\<forall>m. i_machine s = Some m \<longrightarrow> machine_ok m)"

definition due :: "int \<Rightarrow> 'cb PendingInterrupt \<Rightarrow> bool" where
  "due t p \<longleftrightarrow> when_due p \<le> t"

text \<open>
  \<open>handled s s'\<close>: between \<open>s\<close> and \<open>s'\<close> no time passed, interrupts stayed off, and the only change to
  the pending interrupts was that future ones were added; those due now are still there in the same order.
\<close>

definition handled :: "('cb, 'w) Interrupt \<Rightarrow> ('cb, 'w) Interrupt \<Rightarrow> bool" where
  "handled s s' \<longleftrightarrow> stats s' = stats s \<and> level s' = level s \<and> inHandler s' = inHandler s \<and> status s' = status s \<and>
     filter (due (totalTicks (stats s))) (pending s') = filter (due (totalTicks (stats s))) (pending s) \<and>
     (\<exists>new. mset (pending s') = mset (pending s) + mset new \<and> (\<forall>p \<in> set new. \<not> due (totalTicks (stats s)) p))"

lemma handled_refl [simp]: "handled s s"
  by (auto simp: handled_def intro: exI [of _ "[]"])

lemma handled_trans: "handled s1 s2 \<Longrightarrow> handled s2 s3 \<Longrightarrow> handled s1 s3"
proof -
  assume a: "handled s1 s2" "handled s2 s3"
  obtain n1 where n1: "mset (pending s2) = mset (pending s1) + mset n1"
      "\<forall>p \<in> set n1. \<not> due (totalTicks (stats s1)) p" using a(1) by (auto simp: handled_def)
  obtain n2 where n2: "mset (pending s3) = mset (pending s2) + mset n2"
      "\<forall>p \<in> set n2. \<not> due (totalTicks (stats s2)) p" using a(2) by (auto simp: handled_def)
  have "mset (pending s3) = mset (pending s1) + mset (n1 @ n2)" using n1 n2 by simp
  moreover have "\<forall>p \<in> set (n1 @ n2). \<not> due (totalTicks (stats s1)) p"
    using n1(2) n2(2) a(1) by (auto simp: handled_def)
  moreover have "stats s3 = stats s1 \<and> level s3 = level s1 \<and> inHandler s3 = inHandler s1 \<and> status s3 = status s1 \<and>
      filter (due (totalTicks (stats s1))) (pending s3) = filter (due (totalTicks (stats s1))) (pending s1)"
    using a by (simp add: handled_def)
  ultimately show ?thesis unfolding handled_def by blast
qed

lemma filter_mset_none: "\<forall>x \<in> set xs. \<not> P x \<Longrightarrow> filter_mset P (mset xs) = {#}"
  by (induction xs) auto

lemma filter_mset_all: "\<forall>x \<in> set xs. P x \<Longrightarrow> filter_mset P (mset xs) = mset xs"
  by (induction xs) auto

lemma filter_insort_cmp: "\<not> P x \<Longrightarrow> filter P (insort_cmp cmp x xs) = filter P xs"
  by (induction xs) auto

lemma Schedule_ok:
  assumes ok: "intr_ok s" and f: "0 < fromNow"
  shows "\<exists>s'. Schedule cb fromNow type s = Inr s' \<and> intr_ok s' \<and> handled s s' \<and> world s' = world s \<and>
    yieldOnReturn s' = yieldOnReturn s"
proof -
  let ?p = "\<lparr>pi_id = next_id s, callOnInterrupt = cb, when_due = totalTicks (stats s) + fromNow, pi_type = type\<rparr>"
  let ?s = "s\<lparr>next_id := Suc (next_id s), pending := insort_cmp PendingCompare ?p (pending s)\<rparr>"
  have fresh: "?p \<notin> set (pending s)" using ok by (force simp: intr_ok_def)
  then have "Schedule cb fromNow type s = Inr ?s" using f by (simp add: Schedule_def Let_def seq_insert_def)
  moreover have "intr_ok ?s"
    using ok fresh cmp_sorted_insort [OF PendingCompare_order, of "pending s" ?p]
    by (auto simp: intr_ok_def less_SucI)
  moreover have "handled s ?s" using f
    by (auto simp: handled_def due_def filter_insort_cmp intro!: exI [of _ "[?p]"])
  ultimately show ?thesis by auto
qed

section \<open>The interface of interrupt handlers\<close>

text \<open>
  What \<^verbatim>\<open>CheckIfDue\<close> relies on when it calls a handler with interrupts off: the handler returns, keeps
  the state well-formed and at most schedules further interrupts in the future.
\<close>

definition well_behaved :: "('cb \<Rightarrow> ('cb, 'w) Interrupt \<Rightarrow> ('cb, 'w) Interrupt result) \<Rightarrow> bool" where
  "well_behaved handler \<longleftrightarrow> (\<forall>cb s. intr_ok s \<and> level s = IntOff \<and> inHandler s \<longrightarrow>
     (\<exists>s'. handler cb s = Inr s' \<and> intr_ok s' \<and> handled s s'))"

text \<open>Calling the handlers of the interrupts \<open>ps\<close> one after the other, each removed from the pending list before its call.\<close>

fun calls ::
  "('cb \<Rightarrow> ('cb, 'w) Interrupt \<Rightarrow> ('cb, 'w) Interrupt result) \<Rightarrow> 'cb PendingInterrupt list \<Rightarrow>
   ('cb, 'w) Interrupt \<Rightarrow> ('cb, 'w) Interrupt result" where
  "calls handler [] s = Inr s"
| "calls handler (p # ps) s =
     rbind (handler (callOnInterrupt p) (s\<lparr>pending := remove1 p (pending s)\<rparr>)) (calls handler ps)"

definition fires :: "bool \<Rightarrow> ('cb, 'w) Interrupt \<Rightarrow> bool" where
  "fires adv s \<longleftrightarrow> pending s \<noteq> [] \<and> (adv \<or> due (totalTicks (stats s)) (hd (pending s)))"

definition clock_after :: "bool \<Rightarrow> ('cb, 'w) Interrupt \<Rightarrow> int" where
  "clock_after adv s = (if adv \<and> pending s \<noteq> [] then max (totalTicks (stats s)) (when_due (hd (pending s)))
     else totalTicks (stats s))"

text \<open>The clock moved on to the time \<open>t\<close>, the difference being idle time.\<close>

definition idle_until :: "int \<Rightarrow> ('cb, 'w) Interrupt \<Rightarrow> ('cb, 'w) Interrupt" where
  "idle_until t s = s\<lparr>stats := (stats s)\<lparr>idleTicks := idleTicks (stats s) + (t - totalTicks (stats s)), totalTicks := t\<rparr>\<rparr>"

lemma sorted_not_due:
  assumes "intr_ok s" "pending s = p # ps" "\<not> due t p"
  shows "\<forall>q \<in> set (pending s). \<not> due t q"
proof -
  have "when_due p \<le> when_due q" if "q \<in> set ps" for q
    using assms(1,2) that by (auto simp: intr_ok_def cmp_sorted_def PendingCompare_def split: if_splits)
  then show ?thesis using assms(2,3) by (force simp: due_def)
qed

locale interrupt_handlers =
  fixes handler :: "'cb \<Rightarrow> ('cb, 'w) Interrupt \<Rightarrow> ('cb, 'w) Interrupt result"
  assumes handler_law: "intr_ok s \<Longrightarrow> level s = IntOff \<Longrightarrow> inHandler s \<Longrightarrow>
    \<exists>s'. handler cb s = Inr s' \<and> intr_ok s' \<and> handled s s'"
begin

lemma fire_due_ok:
  assumes "intr_ok s" "level s = IntOff" "inHandler s" "pending s \<noteq> []"
    "due (totalTicks (stats s)) (hd (pending s))"
  shows "\<exists>s' new. fire_due handler s = Some (Inr s') \<and> intr_ok s' \<and> stats s' = stats s \<and> level s' = IntOff \<and>
    status s' = status s \<and> calls handler (filter (due (totalTicks (stats s))) (pending s)) s = Inr s' \<and>
    mset (pending s') = filter_mset (\<lambda>p. \<not> due (totalTicks (stats s)) p) (mset (pending s)) + mset new \<and>
    (\<forall>p \<in> set new. \<not> due (totalTicks (stats s)) p)"
  using assms
proof (induction "size (filter_mset (due (totalTicks (stats s))) (mset (pending s)))" arbitrary: s rule: less_induct)
  case less
  let ?t = "totalTicks (stats s)"
  obtain n r where p: "pending s = n # r" using less.prems(4) by (cases "pending s") auto
  let ?s0 = "s\<lparr>pending := r\<rparr>"
  have ok0: "intr_ok ?s0" using less.prems(1) p by (auto simp: intr_ok_def cmp_sorted_def)
  obtain s1 where h: "handler (callOnInterrupt n) ?s0 = Inr s1" "intr_ok s1" "handled ?s0 s1"
    using handler_law [OF ok0, of "callOnInterrupt n"] less.prems(2,3) by auto
  obtain new where new: "mset (pending s1) = mset r + mset new" "\<forall>q \<in> set new. \<not> due ?t q"
    using h(3) by (auto simp: handled_def)
  have same: "stats s1 = stats s" "level s1 = IntOff" "inHandler s1" "status s1 = status s"
    using h(3) less.prems(2,3) by (auto simp: handled_def)
  have dn: "due ?t n" using less.prems(5) p by simp
  have cs: "calls handler (filter (due ?t) (pending s)) s = calls handler (filter (due ?t) (pending s1)) s1"
    using h(1,3) p dn by (simp add: handled_def)
  have nnew: "filter_mset (due ?t) (mset new) = {#}" "filter_mset (\<lambda>q. \<not> due ?t q) (mset new) = mset new"
    using new(2) by (simp_all add: filter_mset_none filter_mset_all)
  show ?case
  proof (cases "pending s1 \<noteq> [] \<and> due ?t (hd (pending s1))")
    case True
    have "size (filter_mset (due (totalTicks (stats s1))) (mset (pending s1))) <
        size (filter_mset (due ?t) (mset (pending s)))"
      using new(1) nnew dn p same(1) by simp
    from less.hyps [OF this h(2) same(2,3)] True same(1)
    obtain s' new' where r: "fire_due handler s1 = Some (Inr s')" "intr_ok s'" "stats s' = stats s" "level s' = IntOff"
        "status s' = status s1" "calls handler (filter (due ?t) (pending s1)) s1 = Inr s'"
        "mset (pending s') = filter_mset (\<lambda>q. \<not> due ?t q) (mset (pending s1)) + mset new'"
        "\<forall>q \<in> set new'. \<not> due ?t q" by auto
    have "fire_due handler s = Some (Inr s')"
      using r(1) h(1) p True same(1) by (subst fire_due.simps) (simp add: seq_remove_front_def due_def)
    moreover have "mset (pending s') = filter_mset (\<lambda>q. \<not> due ?t q) (mset (pending s)) + mset (new @ new')"
      using r(7) new(1) nnew dn p by simp
    ultimately show ?thesis using r(2-6,8) new(2) same(4) cs
      by (intro exI [of _ s'] exI [of _ "new @ new'"]) auto
  next
    case False
    then have "fire_due handler s = Some (Inr s1)"
      using h(1) p same(1) by (subst fire_due.simps) (auto simp: seq_remove_front_def due_def)
    moreover have later: "\<forall>q \<in> set r. \<not> due ?t q"
    proof
      fix q assume "q \<in> set r"
      then have q: "q \<in> set (pending s1)" using new(1) by (metis mset_subset_eq_add_left mset_subset_eqD set_mset_mset)
      then obtain x xs where xs: "pending s1 = x # xs" by (cases "pending s1") auto
      have "\<not> due ?t x" using False xs by simp
      moreover have "when_due x \<le> when_due q"
        using h(2) q xs by (auto simp: intr_ok_def cmp_sorted_def PendingCompare_def split: if_splits)
      ultimately show "\<not> due ?t q" by (simp add: due_def)
    qed
    then have "filter_mset (\<lambda>q. \<not> due ?t q) (mset (pending s)) = mset r"
      using p dn by (simp add: filter_mset_all)
    moreover have "filter (due ?t) (pending s1) = []" using later h(3) by (simp add: handled_def filter_empty_conv)
    ultimately show ?thesis using h(2) same new cs by (intro exI [of _ s1] exI [of _ new]) auto
  qed
qed

lemma complete_load_ok:
  assumes "intr_ok s"
  shows "\<exists>m. complete_load s = Inr (s\<lparr>i_machine := m\<rparr>) \<and> intr_ok (s\<lparr>i_machine := m\<rparr>)"
proof (cases "i_machine s")
  case None
  then have "s\<lparr>i_machine := None\<rparr> = s" by simp
  then show ?thesis using None assms by (intro exI [of _ None]) (simp add: complete_load_def intr_ok_def)
next
  case (Some m)
  then have "cpu_ok m" using assms by (simp add: intr_ok_def machine_ok_def)
  then have "DelayedLoad m 0 0 = Inr (after_load m 0 0)" "machine_ok (after_load m 0 0)"
    using DelayedLoad_ok after_load_ok [of m 0 0] by simp_all
  then show ?thesis using Some assms
    by (intro exI [of _ "Some (after_load m 0 0)"]) (simp add: complete_load_def intr_ok_def)
qed

text \<open>The clock after \<^verbatim>\<open>CheckIfDue\<close>, and whether it fires anything.\<close>

lemma CheckIfDue_ok:
  assumes ok: "intr_ok s" and off: "level s = IntOff"
  shows "\<exists>s' new. CheckIfDue handler adv s = Some (Inr (fires adv s, s')) \<and> intr_ok s' \<and> level s' = IntOff \<and>
    status s' = status s \<and> totalTicks (stats s') = clock_after adv s \<and>
    systemTicks (stats s') = systemTicks (stats s) \<and> userTicks (stats s') = userTicks (stats s) \<and>
    (fires adv s \<longrightarrow> \<not> inHandler s') \<and>
    (if fires adv s
     then \<exists>s1 s2. complete_load (idle_until (clock_after adv s) s) = Inr s1 \<and>
       calls handler (filter (due (clock_after adv s)) (pending s)) (s1\<lparr>inHandler := True\<rparr>) = Inr s2 \<and> s' = s2\<lparr>inHandler := False\<rparr>
     else s' = s) \<and>
    mset (pending s') = filter_mset (\<lambda>p. \<not> due (clock_after adv s) p) (mset (pending s)) + mset new \<and>
    (\<forall>p \<in> set new. \<not> due (clock_after adv s) p)"
proof (cases "fires adv s")
  case False
  have none: "filter_mset (\<lambda>p. \<not> due (totalTicks (stats s)) p) (mset (pending s)) = mset (pending s)"
    using False sorted_not_due [OF ok] by (cases "pending s") (auto simp: fires_def intro!: filter_mset_all)
  have "clock_after adv s = totalTicks (stats s)" using False by (auto simp: fires_def clock_after_def due_def)
  moreover have "CheckIfDue handler adv s = Some (Inr (False, s))"
    using False off by (auto simp: CheckIfDue_def fires_def due_def Let_def)
  ultimately show ?thesis using False ok off none by (intro exI [of _ s] exI [of _ "[]"]) simp
next
  case True
  define st where "st = (if due (totalTicks (stats s)) (hd (pending s)) then stats s
     else (stats s)\<lparr>idleTicks := idleTicks (stats s) + (when_due (hd (pending s)) - totalTicks (stats s)),
            totalTicks := when_due (hd (pending s))\<rparr>)"
  have t: "totalTicks st = clock_after adv s"
    using True by (auto simp: st_def clock_after_def fires_def due_def)
  have idle: "idle_until (clock_after adv s) s = s\<lparr>stats := st\<rparr>"
    using True by (auto simp: idle_until_def st_def clock_after_def fires_def due_def)
  have ok1: "intr_ok (s\<lparr>stats := st\<rparr>)" using ok by (auto simp: intr_ok_def st_def)
  obtain m where m: "complete_load (s\<lparr>stats := st\<rparr>) = Inr (s\<lparr>stats := st, i_machine := m\<rparr>)"
      "intr_ok (s\<lparr>stats := st, i_machine := m\<rparr>)" using complete_load_ok [OF ok1] by auto
  let ?s2 = "s\<lparr>stats := st, i_machine := m, inHandler := True\<rparr>"
  have ok2: "intr_ok ?s2" using m(2) by (simp add: intr_ok_def)
  have ne: "pending s \<noteq> []" using True by (simp add: fires_def)
  have "due (totalTicks (stats ?s2)) (hd (pending ?s2))" by (simp add: st_def due_def)
  from fire_due_ok [OF ok2 _ _ _ this] off ne
  obtain s' new where f: "fire_due handler ?s2 = Some (Inr s')" "intr_ok s'" "stats s' = st" "level s' = IntOff"
      "status s' = status s" "calls handler (filter (due (totalTicks st)) (pending s)) ?s2 = Inr s'"
      "mset (pending s') = filter_mset (\<lambda>p. \<not> due (totalTicks st) p) (mset (pending s)) + mset new"
      "\<forall>p \<in> set new. \<not> due (totalTicks st) p" by auto
  have s1: "(if when_due (hd (pending s)) > totalTicks (stats s)
      then s\<lparr>stats := (stats s)\<lparr>idleTicks := idleTicks (stats s) + (when_due (hd (pending s)) - totalTicks (stats s)),
             totalTicks := when_due (hd (pending s))\<rparr>\<rparr> else s) = s\<lparr>stats := st\<rparr>"
    by (auto simp: st_def due_def)
  have "CheckIfDue handler adv s = Some (Inr (True, s'\<lparr>inHandler := False\<rparr>))"
    unfolding CheckIfDue_def Let_def s1 using off ne True m(1) f(1)
    by (auto simp: fires_def due_def)
  moreover have "intr_ok (s'\<lparr>inHandler := False\<rparr>)" using f(2) by (simp add: intr_ok_def)
  moreover have "systemTicks st = systemTicks (stats s)" "userTicks st = userTicks (stats s)"
    by (simp_all add: st_def)
  ultimately show ?thesis using True f t idle m(1)
    by (intro exI [of _ "s'\<lparr>inHandler := False\<rparr>"] exI [of _ new]) simp
qed

lemma OneTick_ok:
  assumes ok: "intr_ok s" and y: "\<And>s1. intr_ok s1 \<Longrightarrow> level s1 = IntOn \<Longrightarrow> status s1 = SystemMode \<Longrightarrow>
      \<exists>s2. yield s1 = Some (Inr s2) \<and> intr_ok s2"
  shows "\<exists>s'. OneTick handler yield s = Some (Inr s') \<and> intr_ok s'"
proof -
  define s0 where "s0 = s\<lparr>stats := (if status s = SystemMode
      then (stats s)\<lparr>totalTicks := totalTicks (stats s) + SystemTick, systemTicks := systemTicks (stats s) + SystemTick\<rparr>
      else (stats s)\<lparr>totalTicks := totalTicks (stats s) + UserTick, userTicks := userTicks (stats s) + UserTick\<rparr>),
      level := IntOff\<rparr>"
  have "intr_ok s0" "level s0 = IntOff" using ok by (auto simp: s0_def intr_ok_def)
  then obtain s2 where c: "CheckIfDue handler False s0 = Some (Inr (fires False s0, s2))" "intr_ok s2"
    using CheckIfDue_ok by blast
  let ?s3 = "s2\<lparr>level := IntOn\<rparr>"
  have run: "OneTick handler yield s = (if yieldOnReturn ?s3
      then map_option (\<lambda>r. rbind r (\<lambda>s4. Inr (s4\<lparr>status := status s\<rparr>)))
             (yield (?s3\<lparr>yieldOnReturn := False, status := SystemMode\<rparr>)) else Some (Inr ?s3))"
    using c(1) by (simp add: OneTick_def ChangeLevel_def s0_def Let_def)
  have ok3: "intr_ok ?s3" "intr_ok (?s3\<lparr>yieldOnReturn := False, status := SystemMode\<rparr>)"
    using c(2) by (simp_all add: intr_ok_def)
  show ?thesis
  proof (cases "yieldOnReturn ?s3")
    case True
    obtain s4 where s4: "yield (?s3\<lparr>yieldOnReturn := False, status := SystemMode\<rparr>) = Some (Inr s4)" "intr_ok s4"
      using y [OF ok3(2)] by auto
    then show ?thesis using run True by (simp add: intr_ok_def)
  next
    case False
    then show ?thesis using run ok3(1) by simp
  qed
qed

lemma SetLevel_ok:
  assumes ok: "intr_ok s" and h: "now = IntOff \<or> \<not> inHandler s"
    and y: "\<And>s1. intr_ok s1 \<Longrightarrow> level s1 = IntOn \<Longrightarrow> status s1 = SystemMode \<Longrightarrow>
      \<exists>s2. yield s1 = Some (Inr s2) \<and> intr_ok s2"
  shows "\<exists>s'. SetLevel handler yield now s = Some (Inr (level s, s')) \<and> intr_ok s'"
proof -
  have ok1: "intr_ok (s\<lparr>level := now\<rparr>)" using ok by (simp add: intr_ok_def)
  have "\<exists>s'. OneTick handler yield (s\<lparr>level := now\<rparr>) = Some (Inr s') \<and> intr_ok s'"
    by (rule OneTick_ok [OF ok1]) (rule y)
  then show ?thesis using h ok1 by (auto simp: SetLevel_def ChangeLevel_def Let_def)
qed

end

section \<open>The timer is a well-behaved device\<close>

lemma SetInterrupt_ok:
  assumes "intr_ok s"
  shows "\<exists>s'. SetInterrupt rnd s = Inr s' \<and> intr_ok s' \<and> handled s s'"
proof (cases "tm_disable (fst (world s))")
  case True
  then show ?thesis using assms by (auto simp: SetInterrupt_def split: prod.splits)
next
  case False
  define d where "d = (if randomize (fst (world s)) then 1 + int (fst (rnd (snd (world s)))) mod (TimerTicks * 2)
    else TimerTicks)"
  define r where "r = (if randomize (fst (world s)) then snd (rnd (snd (world s))) else snd (world s))"
  have "0 < d" by (auto simp: d_def TimerTicks_def intro!: add_pos_nonneg)
  moreover have ok: "intr_ok (s\<lparr>world := (fst (world s), r)\<rparr>)" using assms by (simp add: intr_ok_def)
  ultimately obtain s' where "Schedule () d TimerInt (s\<lparr>world := (fst (world s), r)\<rparr>) = Inr s'" "intr_ok s'"
      "handled (s\<lparr>world := (fst (world s), r)\<rparr>) s'"
    using Schedule_ok [of "s\<lparr>world := (fst (world s), r)\<rparr>" d "()" TimerInt] by blast
  moreover have "SetInterrupt rnd s = Schedule () d TimerInt (s\<lparr>world := (fst (world s), r)\<rparr>)"
    using False by (simp add: SetInterrupt_def Let_def d_def r_def split_beta)
  moreover have "handled s (s\<lparr>world := (fst (world s), r)\<rparr>)" by (simp add: handled_def)
  ultimately show ?thesis using handled_trans by metis
qed

lemma Timer_well_behaved:
  assumes "intr_ok s" "level s = IntOff" "inHandler s"
  shows "\<exists>s'. Timer_CallBack rnd cb s = Inr s' \<and> intr_ok s' \<and> handled s s'"
proof -
  have y: "intr_ok (s\<lparr>yieldOnReturn := True\<rparr>)" "handled s (s\<lparr>yieldOnReturn := True\<rparr>)"
    using assms by (auto simp: intr_ok_def handled_def intro!: exI [of _ "[]"])
  obtain s1 where s1: "Alarm_CallBack s = Inr s1" "intr_ok s1" "handled s s1"
    using assms y by (cases "status s = IdleMode") (auto simp: Alarm_CallBack_def YieldOnReturn_def)
  then show ?thesis using SetInterrupt_ok [OF s1(2), of rnd] handled_trans by (auto simp: Timer_CallBack_def)
qed

interpretation tm: interrupt_handlers "Timer_CallBack rnd" for rnd :: "'r \<Rightarrow> nat \<times> 'r"
  by unfold_locales (rule Timer_well_behaved)

lemma well_behaved_locale: "well_behaved handler \<longleftrightarrow> interrupt_handlers handler"
  by (auto simp: well_behaved_def interrupt_handlers_def)

section \<open>Properties\<close>

text \<open>
  C23: with well-behaved handlers, \<^verbatim>\<open>CheckIfDue\<close> returns: its do-while loop ends. When it fires, it moves the clock to the time
  it reaches (now, or when idling the time of the next interrupt), completes the delayed load and calls, with \<^verbatim>\<open>inHandler\<close> set,
  the handler of each interrupt due at that time exactly once and in the order of the pending list; nothing else happens to
  the state. So it removes all due interrupts and none of the later ones; those the handlers scheduled meanwhile are all in
  the future. When it does not fire, it leaves the state as it is.
\<close>

theorem CheckIfDue_fires_all_due:
  assumes "well_behaved handler" "intr_ok s" "level s = IntOff"
  shows "\<exists>s' new. CheckIfDue handler adv s = Some (Inr (fires adv s, s')) \<and> intr_ok s' \<and>
    totalTicks (stats s') = clock_after adv s \<and>
    (if fires adv s
     then \<exists>s1 s2. complete_load (idle_until (clock_after adv s) s) = Inr s1 \<and>
       calls handler (filter (due (clock_after adv s)) (pending s)) (s1\<lparr>inHandler := True\<rparr>) = Inr s2 \<and> s' = s2\<lparr>inHandler := False\<rparr>
     else s' = s) \<and>
    mset (pending s') = filter_mset (\<lambda>p. \<not> due (clock_after adv s) p) (mset (pending s)) + mset new \<and>
    (\<forall>p \<in> set new. \<not> due (clock_after adv s) p)"
  using interrupt_handlers.CheckIfDue_ok [OF assms(1) [unfolded well_behaved_locale] assms(2,3), of adv] by blast

theorem CheckIfDue_fires_all_due_witness:
  "\<exists>s s' new. SetInterrupt (\<lambda>r. (0, r)) (new_Interrupt None (\<lparr>randomize = True, tm_disable = False\<rparr>, ())) = Inr s \<and>
     CheckIfDue (Timer_CallBack (\<lambda>r. (0, r))) True s = Some (Inr (fires True s, s')) \<and>
     mset (pending s') = filter_mset (\<lambda>p. \<not> due (clock_after True s) p) (mset (pending s)) + mset new"
proof -
  let ?s0 = "new_Interrupt None (\<lparr>randomize = True, tm_disable = False\<rparr>, ())"
  let ?rnd = "\<lambda>r :: unit. (0 :: nat, r)"
  have "intr_ok ?s0" by (simp add: intr_ok_def new_Interrupt_def new_Statistics_def cmp_sorted_def)
  then obtain s where s: "SetInterrupt ?rnd ?s0 = Inr s" "intr_ok s" "handled ?s0 s"
    using SetInterrupt_ok [of ?s0 ?rnd] by blast
  have off: "level s = IntOff" using s(3) by (simp add: handled_def new_Interrupt_def)
  have w: "well_behaved (Timer_CallBack ?rnd)"
    unfolding well_behaved_locale by (rule tm.interrupt_handlers_axioms)
  show ?thesis using CheckIfDue_fires_all_due [OF w s(2) off, of True] s(1) by blast
qed

text \<open>
  a timer tick. With well-behaved handlers and a \<^verbatim>\<open>Yield\<close> that returns, enabling interrupts by \<^verbatim>\<open>SetLevel\<close>
  outside a handler returns the old level and a well-formed state; inside a handler it fails the
  assertion.
\<close>

theorem SetLevel_returns:
  assumes "well_behaved handler" "intr_ok s"
    "\<And>s1. intr_ok s1 \<Longrightarrow> level s1 = IntOn \<Longrightarrow> status s1 = SystemMode \<Longrightarrow> \<exists>s2. yield s1 = Some (Inr s2) \<and> intr_ok s2"
  shows "if now = IntOn \<and> inHandler s then SetLevel handler yield now s = Some (Inl AssertFailed)
    else \<exists>s'. SetLevel handler yield now s = Some (Inr (level s, s')) \<and> intr_ok s'"
proof (cases "now = IntOn \<and> inHandler s")
  case True
  then show ?thesis by (simp add: SetLevel_def)
next
  case False
  then have "now = IntOff \<or> \<not> inHandler s" by (cases now) auto
  then have "\<exists>s'. SetLevel handler yield now s = Some (Inr (level s, s')) \<and> intr_ok s'"
    by (rule interrupt_handlers.SetLevel_ok [OF assms(1) [unfolded well_behaved_locale] assms(2)]) (rule assms(3))
  then show ?thesis using False by auto
qed

theorem SetLevel_returns_witness:
  "let s = new_Interrupt None (\<lparr>randomize = False, tm_disable = False\<rparr>, ()) in
   \<exists>s'. SetLevel (Timer_CallBack (\<lambda>r. (0, r))) (\<lambda>s. Some (Inr s)) IntOn s = Some (Inr (IntOff, s')) \<and> intr_ok s'"
proof -
  let ?s = "new_Interrupt None (\<lparr>randomize = False, tm_disable = False\<rparr>, ())"
  have w: "well_behaved (Timer_CallBack (\<lambda>r :: unit. (0, r)))"
    unfolding well_behaved_locale by (rule tm.interrupt_handlers_axioms)
  have ok: "intr_ok ?s" by (simp add: intr_ok_def new_Interrupt_def new_Statistics_def cmp_sorted_def)
  show ?thesis using SetLevel_returns [OF w ok, of "\<lambda>s. Some (Inr s)" IntOn]
    by (simp add: Let_def new_Interrupt_def)
qed

end
