(* ===== verification/Kernel_Threads.thy ===== *)
theory Kernel_Threads
  imports Interrupts
begin

text \<open>
  Threads, the scheduler and the synchronization primitives (\<^verbatim>\<open>threads/thread.cc\<close>, \<^verbatim>\<open>threads/scheduler.cc\<close>,
  \<^verbatim>\<open>threads/synch.cc\<close>). Threads, semaphores, locks and conditions are named by
  numbers. The remaining work of a thread is a list of operations on the synchronization objects; the head is
  the one it is executing. A routine that can lose the CPU in the middle is a sequence of operations
  whose boundaries are the points where interrupts are enabled again: \<^verbatim>\<open>Lock::Acquire\<close> is the \<^verbatim>\<open>P\<close> of the
  lock's semaphore followed by the assignment to \<^verbatim>\<open>lockHolder\<close>, and so on. Each operation runs with
  interrupts disabled; the step relation interleaves them with time slices and with interrupt
  handlers that signal semaphores. \<open>OpUser rs\<close> is a period in which the thread, given an address space, runs
  user code and leaves \<open>rs\<close> in the machine registers.
\<close>

datatype ThreadStatus = JUST_CREATED | RUNNING | READY | BLOCKED

text \<open>Semaphores of the kernel, of a lock, and of a waiter in \<^verbatim>\<open>Condition::Wait\<close>.\<close>

datatype semid = SUser nat | SLock nat | SWait nat

datatype op =
    OpP semid | OpV semid
  | OpAcquire nat | OpSetHolder nat
  | OpRelease nat
  | OpWait nat nat | OpDelete nat
  | OpSignal nat nat | OpBroadcast nat nat
  | OpYield | OpFork nat "op list"
  | OpUser "32 word list"

record Semaphore =
  sem_value :: int
  sem_queue :: "nat list"

record Thread =
  th_status :: ThreadStatus
  th_ops :: "op list"
  th_space :: bool
  th_begun :: bool
  userRegisters :: "32 word list"

record kernel =
  threads :: "nat \<rightharpoonup> Thread"
  currentThread :: nat
  readyList :: "nat list"
  toBeDestroyed :: "nat option"
  k_level :: IntStatus
  k_idle :: "bool option"
  sems :: "semid \<Rightarrow> Semaphore"
  lockHolder :: "nat \<Rightarrow> nat option"
  waitQueue :: "nat \<Rightarrow> nat list"
  next_waiter :: nat
  k_registers :: "32 word list"

section \<open>Thread control blocks\<close>

definition the_thread :: "kernel \<Rightarrow> nat \<Rightarrow> Thread result" where
  "the_thread k t = (case threads k t of None \<Rightarrow> Inl NullPointer | Some th \<Rightarrow> Inr th)"

definition upd_thread :: "kernel \<Rightarrow> nat \<Rightarrow> (Thread \<Rightarrow> Thread) \<Rightarrow> kernel result" where
  "upd_thread k t f = rbind (the_thread k t) (\<lambda>th. Inr (k\<lparr>threads := (threads k)(t \<mapsto> f th)\<rparr>))"

definition setStatus :: "kernel \<Rightarrow> nat \<Rightarrow> ThreadStatus \<Rightarrow> kernel result" where
  "setStatus k t st = upd_thread k t (\<lambda>th. th\<lparr>th_status := st\<rparr>)"

definition SaveUserState :: "kernel \<Rightarrow> nat \<Rightarrow> kernel result" where
  "SaveUserState k t = upd_thread k t (\<lambda>th. th\<lparr>userRegisters := k_registers k\<rparr>)"

definition RestoreUserState :: "kernel \<Rightarrow> nat \<Rightarrow> kernel result" where
  "RestoreUserState k t = rbind (the_thread k t) (\<lambda>th. Inr (k\<lparr>k_registers := userRegisters th\<rparr>))"

section \<open>Scheduler\<close>

definition ReadyToRun :: "kernel \<Rightarrow> nat \<Rightarrow> kernel result" where
  "ReadyToRun k t =
     rbind (rassert (k_level k = IntOff)) (\<lambda>_.
     rbind (setStatus k t READY) (\<lambda>k1.
     rbind (seq_append (readyList k1) t) (\<lambda>r. Inr (k1\<lparr>readyList := r\<rparr>))))"

definition FindNextToRun :: "kernel \<Rightarrow> (nat option \<times> kernel) result" where
  "FindNextToRun k =
     rbind (rassert (k_level k = IntOff)) (\<lambda>_.
     if readyList k = [] then Inr (None, k)
     else rbind (seq_remove_front (readyList k)) (\<lambda>(t, r). Inr (Some t, k\<lparr>readyList := r\<rparr>)))"

text \<open>The destructor of \<^verbatim>\<open>Thread\<close> asserts that it does not delete the running thread.\<close>

definition CheckToBeDestroyed :: "kernel \<Rightarrow> kernel result" where
  "CheckToBeDestroyed k = (case toBeDestroyed k of
       None \<Rightarrow> Inr k
     | Some t \<Rightarrow> rbind (rassert (t \<noteq> currentThread k)) (\<lambda>_.
         Inr (k\<lparr>threads := (threads k)(t := None), toBeDestroyed := None\<rparr>)))"

text \<open>
  \<^verbatim>\<open>Scheduler::Run\<close> up to \<^verbatim>\<open>SWITCH\<close>, and what happens in the context switched to: a thread that was
  switched out continues behind its own \<^verbatim>\<open>SWITCH\<close>, a new thread in \<^verbatim>\<open>Thread::Begin\<close>.
\<close>

definition Run_out :: "kernel \<Rightarrow> nat \<Rightarrow> bool \<Rightarrow> kernel result" where
  "Run_out k nextThread finishing =
     (let oldThread = currentThread k in
      rbind (rassert (k_level k = IntOff)) (\<lambda>_.
      rbind (if finishing
             then rbind (rassert (toBeDestroyed k = None)) (\<lambda>_. Inr (k\<lparr>toBeDestroyed := Some oldThread\<rparr>))
             else Inr k) (\<lambda>k1.
      rbind (the_thread k1 oldThread) (\<lambda>old.
      rbind (if th_space old then SaveUserState k1 oldThread else Inr k1) (\<lambda>k2.
      setStatus (k2\<lparr>currentThread := nextThread\<rparr>) nextThread RUNNING)))))"

definition Run_in :: "kernel \<Rightarrow> kernel result" where
  "Run_in k =
     (let t = currentThread k in
      rbind (rassert (k_level k = IntOff)) (\<lambda>_.
      rbind (CheckToBeDestroyed k) (\<lambda>k1.
      rbind (the_thread k1 t) (\<lambda>th.
      if th_begun th then (if th_space th then RestoreUserState k1 t else Inr k1)
      else upd_thread k1 t (\<lambda>th. th\<lparr>th_begun := True\<rparr>)))))"

definition Run :: "kernel \<Rightarrow> nat \<Rightarrow> bool \<Rightarrow> kernel result" where
  "Run k nextThread finishing = rbind (Run_out k nextThread finishing) Run_in"

section \<open>Thread operations\<close>

text \<open>
  \<^verbatim>\<open>Sleep\<close>: with no ready thread the loop around \<^verbatim>\<open>Interrupt::Idle\<close> is entered, recorded in \<open>k_idle\<close> with the
  \<^verbatim>\<open>finishing\<close> argument; \<open>Sleep_continue\<close> is a further round of the loop.
\<close>

definition Sleep_continue :: "kernel \<Rightarrow> bool \<Rightarrow> kernel result" where
  "Sleep_continue k finishing =
     rbind (FindNextToRun k) (\<lambda>(next, k1). case next of
       None \<Rightarrow> Inr (k1\<lparr>k_idle := Some finishing\<rparr>)
     | Some t \<Rightarrow> Run (k1\<lparr>k_idle := None\<rparr>) t finishing)"

definition Sleep :: "kernel \<Rightarrow> bool \<Rightarrow> kernel result" where
  "Sleep k finishing =
     rbind (rassert (k_level k = IntOff)) (\<lambda>_.
     rbind (setStatus k (currentThread k) BLOCKED) (\<lambda>k1. Sleep_continue k1 finishing))"

definition Finish :: "kernel \<Rightarrow> kernel result" where
  "Finish k = Sleep k True"

definition Yield :: "kernel \<Rightarrow> kernel result" where
  "Yield k =
     rbind (FindNextToRun k) (\<lambda>(next, k1). case next of
       None \<Rightarrow> Inr k1
     | Some t \<Rightarrow> rbind (ReadyToRun k1 (currentThread k1)) (\<lambda>k2. Run k2 t False))"

definition Fork :: "kernel \<Rightarrow> nat \<Rightarrow> op list \<Rightarrow> kernel result" where
  "Fork k t prog =
     rbind (rassert (threads k t = None)) (\<lambda>_.
     ReadyToRun (k\<lparr>threads := (threads k)(t \<mapsto> \<lparr>th_status = JUST_CREATED, th_ops = prog, th_space = False,
       th_begun = False, userRegisters = replicate NumTotalRegs 0\<rparr>)\<rparr>) t)"

section \<open>Semaphores\<close>

definition set_ops :: "kernel \<Rightarrow> op list \<Rightarrow> kernel result" where
  "set_ops k ops = upd_thread k (currentThread k) (\<lambda>th. th\<lparr>th_ops := ops\<rparr>)"

definition upd_sem :: "kernel \<Rightarrow> semid \<Rightarrow> (Semaphore \<Rightarrow> Semaphore) \<Rightarrow> kernel" where
  "upd_sem k s f = k\<lparr>sems := (sems k)(s := f (sems k s))\<rparr>"

text \<open>One round of the loop of \<^verbatim>\<open>P\<close>: with the value 0 the thread queues up and sleeps, and will test again.\<close>

definition P_round :: "kernel \<Rightarrow> semid \<Rightarrow> op list \<Rightarrow> kernel result" where
  "P_round k s rest =
     (if sem_value (sems k s) = 0
      then rbind (seq_append (sem_queue (sems k s)) (currentThread k)) (\<lambda>q.
           Sleep (upd_sem k s (\<lambda>sm. sm\<lparr>sem_queue := q\<rparr>)) False)
      else set_ops (upd_sem k s (\<lambda>sm. sm\<lparr>sem_value := sem_value sm - 1\<rparr>)) rest)"

definition V_sem :: "kernel \<Rightarrow> semid \<Rightarrow> kernel result" where
  "V_sem k s =
     rbind (if sem_queue (sems k s) = [] then Inr k
            else rbind (seq_remove_front (sem_queue (sems k s))) (\<lambda>(t, q).
                 ReadyToRun (upd_sem k s (\<lambda>sm. sm\<lparr>sem_queue := q\<rparr>)) t)) (\<lambda>k1.
     Inr (upd_sem k1 s (\<lambda>sm. sm\<lparr>sem_value := sem_value sm + 1\<rparr>)))"

section \<open>Locks and condition variables\<close>

definition IsHeldByCurrentThread :: "kernel \<Rightarrow> nat \<Rightarrow> bool" where
  "IsHeldByCurrentThread k l \<longleftrightarrow> lockHolder k l = Some (currentThread k)"

definition Release_lock :: "kernel \<Rightarrow> nat \<Rightarrow> op list \<Rightarrow> kernel result" where
  "Release_lock k l rest =
     rbind (rassert (IsHeldByCurrentThread k l)) (\<lambda>_.
     set_ops (k\<lparr>lockHolder := (lockHolder k)(l := None)\<rparr>) (OpV (SLock l) # rest))"

definition Wait_cond :: "kernel \<Rightarrow> nat \<Rightarrow> nat \<Rightarrow> op list \<Rightarrow> kernel result" where
  "Wait_cond k c l rest =
     rbind (rassert (IsHeldByCurrentThread k l)) (\<lambda>_.
     let w = next_waiter k;
         k1 = (upd_sem k (SWait w) (\<lambda>_. \<lparr>sem_value = 0, sem_queue = []\<rparr>))\<lparr>next_waiter := Suc w\<rparr> in
     rbind (seq_append (waitQueue k1 c) w) (\<lambda>q.
     set_ops (k1\<lparr>waitQueue := (waitQueue k1)(c := q)\<rparr>)
       (OpRelease l # OpP (SWait w) # OpAcquire l # OpDelete w # rest)))"

definition Signal_cond :: "kernel \<Rightarrow> nat \<Rightarrow> nat \<Rightarrow> op list \<Rightarrow> kernel result" where
  "Signal_cond k c l rest =
     rbind (rassert (IsHeldByCurrentThread k l)) (\<lambda>_.
     if waitQueue k c = [] then set_ops k rest
     else rbind (seq_remove_front (waitQueue k c)) (\<lambda>(w, q).
          set_ops (k\<lparr>waitQueue := (waitQueue k)(c := q)\<rparr>) (OpV (SWait w) # rest)))"

definition Broadcast_cond :: "kernel \<Rightarrow> nat \<Rightarrow> nat \<Rightarrow> op list \<Rightarrow> kernel result" where
  "Broadcast_cond k c l rest =
     (if waitQueue k c = [] then set_ops k rest else set_ops k (OpSignal c l # OpBroadcast c l # rest))"

section \<open>Steps\<close>

fun exec_op :: "kernel \<Rightarrow> op \<Rightarrow> op list \<Rightarrow> kernel result" where
  "exec_op k (OpP s) rest = P_round k s rest"
| "exec_op k (OpV s) rest = rbind (V_sem k s) (\<lambda>k1. set_ops k1 rest)"
| "exec_op k (OpAcquire l) rest = P_round k (SLock l) (OpSetHolder l # rest)"
| "exec_op k (OpSetHolder l) rest = set_ops (k\<lparr>lockHolder := (lockHolder k)(l := Some (currentThread k))\<rparr>) rest"
| "exec_op k (OpRelease l) rest = Release_lock k l rest"
| "exec_op k (OpWait c l) rest = Wait_cond k c l rest"
| "exec_op k (OpDelete w) rest = set_ops k rest"
| "exec_op k (OpSignal c l) rest = Signal_cond k c l rest"
| "exec_op k (OpBroadcast c l) rest = Broadcast_cond k c l rest"
| "exec_op k OpYield rest = rbind (set_ops k rest) Yield"
| "exec_op k (OpFork t prog) rest = rbind (Fork k t prog) (\<lambda>k1. set_ops k1 rest)"
| "exec_op k (OpUser rs) rest =
     upd_thread (k\<lparr>k_registers := rs\<rparr>) (currentThread k) (\<lambda>th. th\<lparr>th_space := True, th_ops := rest\<rparr>)"

text \<open>The current thread executes its next operation with interrupts off, or finishes.\<close>

definition run_current :: "kernel \<Rightarrow> kernel result" where
  "run_current k =
     rbind (the_thread k (currentThread k)) (\<lambda>th.
     rbind (case th_ops th of
         [] \<Rightarrow> Finish (k\<lparr>k_level := IntOff\<rparr>)
       | op # rest \<Rightarrow> exec_op (k\<lparr>k_level := IntOff\<rparr>) op rest) (\<lambda>k1.
     Inr (k1\<lparr>k_level := if k_idle k1 = None then IntOn else IntOff\<rparr>)))"

text \<open>
  A step of the system: the running thread executes an operation; a time slice ends (\<^verbatim>\<open>OneTick\<close> calls
  \<^verbatim>\<open>Yield\<close>); an interrupt handler signals a kernel semaphore, also while the CPU idles; the loop of \<^verbatim>\<open>Sleep\<close> looks
  for a ready thread again. A fault is a step to no state, so progress is a theorem.
\<close>

inductive kstep :: "kernel \<Rightarrow> kernel \<Rightarrow> bool" where
  step_run: "k_idle k = None \<Longrightarrow> run_current k = Inr k' \<Longrightarrow> kstep k k'"
| step_slice: "k_idle k = None \<Longrightarrow> Yield (k\<lparr>k_level := IntOff\<rparr>) = Inr k' \<Longrightarrow> kstep k (k'\<lparr>k_level := IntOn\<rparr>)"
| step_intr: "V_sem (k\<lparr>k_level := IntOff\<rparr>) (SUser n) = Inr k' \<Longrightarrow> kstep k (k'\<lparr>k_level := k_level k\<rparr>)"
| step_idle: "k_idle k = Some f \<Longrightarrow> Sleep_continue k f = Inr k' \<Longrightarrow>
    kstep k (k'\<lparr>k_level := if k_idle k' = None then IntOn else IntOff\<rparr>)"

inductive_cases kstepE: "kstep k k'"

text \<open>
  The kernel after start-up: the main thread runs a program, semaphores have non-negative initial
  values, locks are free.
\<close>

definition init_kernel :: "op list \<Rightarrow> (nat \<Rightarrow> int) \<Rightarrow> kernel" where
  "init_kernel prog v = \<lparr>threads = [0 \<mapsto> \<lparr>th_status = RUNNING, th_ops = prog, th_space = False, th_begun = True,
       userRegisters = replicate NumTotalRegs 0\<rparr>],
     currentThread = 0, readyList = [], toBeDestroyed = None, k_level = IntOn, k_idle = None,
     sems = (\<lambda>s. \<lparr>sem_value = (case s of SUser n \<Rightarrow> v n | SLock l \<Rightarrow> 1 | SWait w \<Rightarrow> 0), sem_queue = []\<rparr>),
     lockHolder = (\<lambda>_. None), waitQueue = (\<lambda>_. []), next_waiter = 0, k_registers = replicate NumTotalRegs 0\<rparr>"

section \<open>The programs of the threads\<close>

text \<open>
  A program given to \<^verbatim>\<open>Fork\<close> uses kernel semaphores, locks and conditions through their
  public operations. While it runs, the internal operations of the lock and of \<^verbatim>\<open>Wait\<close> appear in front of it.
\<close>

fun plain_op :: "op \<Rightarrow> bool" where
  "plain_op (OpP s) = (case s of SUser n \<Rightarrow> True | _ \<Rightarrow> False)"
| "plain_op (OpV s) = (case s of SUser n \<Rightarrow> True | _ \<Rightarrow> False)"
| "plain_op (OpSetHolder l) = False"
| "plain_op (OpDelete w) = False"
| "plain_op (OpFork t prog) = list_all plain_op prog"
| "plain_op _ = True"

definition later_op :: "nat \<Rightarrow> op \<Rightarrow> bool" where
  "later_op n x \<longleftrightarrow> plain_op x \<or> (\<exists>w<n. x = OpP (SWait w)) \<or> (\<exists>w. x = OpDelete w)"

definition head_op :: "nat \<Rightarrow> op \<Rightarrow> bool" where
  "head_op n x \<longleftrightarrow> later_op n x \<or> (\<exists>l. x = OpSetHolder l) \<or> (\<exists>l. x = OpV (SLock l)) \<or> (\<exists>w<n. x = OpV (SWait w))"

definition ops_ok :: "nat \<Rightarrow> op list \<Rightarrow> bool" where
  "ops_ok n ops \<longleftrightarrow> (case ops of [] \<Rightarrow> True | x # rest \<Rightarrow> head_op n x \<and> list_all (later_op n) rest)"

fun waits :: "op list \<Rightarrow> semid option" where
  "waits (OpP s # rest) = Some s"
| "waits (OpAcquire l # rest) = Some (SLock l)"
| "waits _ = None"

definition ops_of :: "kernel \<Rightarrow> nat \<Rightarrow> op list" where
  "ops_of k t = (case threads k t of None \<Rightarrow> [] | Some th \<Rightarrow> th_ops th)"

lemma ops_ok_Nil [simp]: "ops_ok n []"
  by (simp add: ops_ok_def)

lemma ops_ok_Cons [simp]: "ops_ok n (x # rest) \<longleftrightarrow> head_op n x \<and> list_all (later_op n) rest"
  by (simp add: ops_ok_def)

lemma later_head: "later_op n x \<Longrightarrow> head_op n x"
  by (simp add: head_op_def)

lemma ops_ok_later: "list_all (later_op n) ops \<Longrightarrow> ops_ok n ops"
  by (cases ops) (simp_all add: later_head)

lemma later_op_mono: "later_op n x \<Longrightarrow> n \<le> m \<Longrightarrow> later_op m x"
  by (auto simp: later_op_def)

lemma list_all_later_mono: "list_all (later_op n) xs \<Longrightarrow> n \<le> m \<Longrightarrow> list_all (later_op m) xs"
  using later_op_mono [of n _ m] by (auto simp: list_all_iff)

lemma ops_ok_mono: "ops_ok n ops \<Longrightarrow> n \<le> m \<Longrightarrow> ops_ok m ops"
  using later_op_mono [of n _ m] list_all_later_mono [of n _ m]
  by (cases ops) (auto simp: head_op_def)

lemma plain_later: "list_all plain_op ops \<Longrightarrow> list_all (later_op n) ops"
  by (auto simp: list_all_iff later_op_def)

section \<open>Every thread has its place\<close>

text \<open>
  Except for the threads in \<open>X\<close>, which the kernel is handling, a thread is ready and on the ready list, or blocked
  and in the queue of the semaphore its next operation waits for; nothing else is on the lists.
\<close>

definition place :: "kernel \<Rightarrow> nat set \<Rightarrow> nat \<Rightarrow> bool" where
  "place k X t \<longleftrightarrow> (case (if t \<in> X then None else threads k t) of
      None \<Rightarrow> t \<notin> set (readyList k) \<and> (\<forall>s. t \<notin> set (sem_queue (sems k s)))
    | Some th \<Rightarrow>
        (th_status th = READY \<or> th_status th = BLOCKED \<and> waits (th_ops th) \<noteq> None) \<and>
        (t \<in> set (readyList k) \<longleftrightarrow> th_status th = READY) \<and>
        (\<forall>s. t \<in> set (sem_queue (sems k s)) \<longleftrightarrow> th_status th = BLOCKED \<and> waits (th_ops th) = Some s))"

definition sched_core :: "kernel \<Rightarrow> nat set \<Rightarrow> bool" where
  "sched_core k X \<longleftrightarrow> distinct (readyList k) \<and> (\<forall>s. distinct (sem_queue (sems k s))) \<and>
     finite (dom (threads k)) \<and> (\<forall>t. place k X t)"

definition sched_ok :: "kernel \<Rightarrow> bool" where
  "sched_ok k \<longleftrightarrow> toBeDestroyed k = None \<and> (\<exists>th. threads k (currentThread k) = Some th \<and> (case k_idle k of
       None \<Rightarrow> th_status th = RUNNING \<and> k_level k = IntOn \<and> sched_core k {currentThread k}
     | Some True \<Rightarrow> th_status th = BLOCKED \<and> th_ops th = [] \<and> k_level k = IntOff \<and> sched_core k {currentThread k}
     | Some False \<Rightarrow> k_level k = IntOff \<and> sched_core k {}))"

text \<open>What the scheduler leaves alone.\<close>

definition same_sync :: "kernel \<Rightarrow> kernel \<Rightarrow> bool" where
  "same_sync k k' \<longleftrightarrow> ops_of k' = ops_of k \<and> sems k' = sems k \<and> lockHolder k' = lockHolder k \<and>
     waitQueue k' = waitQueue k \<and> next_waiter k' = next_waiter k"

lemma same_sync_refl [simp]: "same_sync k k"
  by (simp add: same_sync_def)

lemma same_sync_trans [trans]: "same_sync k k1 \<Longrightarrow> same_sync k1 k2 \<Longrightarrow> same_sync k k2"
  by (simp add: same_sync_def)

lemma sched_coreI:
  assumes "distinct (readyList k)" "\<And>s. distinct (sem_queue (sems k s))" "finite (dom (threads k))" "\<And>t. place k X t"
  shows "sched_core k X"
  using assms by (simp add: sched_core_def)

lemma ops_of_upd:
  "threads k t = Some th \<Longrightarrow> th_ops th' = th_ops th \<Longrightarrow>
   ops_of (k\<lparr>threads := (threads k)(t \<mapsto> th')\<rparr>) = ops_of k"
  by (auto simp: ops_of_def fun_eq_iff)

section \<open>Scheduler operations keep the places\<close>

lemma ReadyToRun_ok:
  assumes c: "sched_core k (insert t X)" and t: "t \<notin> X" and th: "threads k t = Some th" and lv: "k_level k = IntOff"
  shows "\<exists>k'. ReadyToRun k t = Inr k' \<and> sched_core k' X \<and> same_sync k k' \<and> threads k' = (threads k)(t \<mapsto> th\<lparr>th_status := READY\<rparr>) \<and>
    currentThread k' = currentThread k \<and> toBeDestroyed k' = toBeDestroyed k \<and> k_level k' = IntOff \<and> k_idle k' = k_idle k \<and>
    k_registers k' = k_registers k"
proof -
  let ?k = "k\<lparr>threads := (threads k)(t \<mapsto> th\<lparr>th_status := READY\<rparr>), readyList := readyList k @ [t]\<rparr>"
  have p: "place k (insert t X) u" for u using c by (simp add: sched_core_def)
  then have n: "t \<notin> set (readyList k)" "\<And>s. t \<notin> set (sem_queue (sems k s))"
    using p [of t] by (auto simp: place_def)
  have "place ?k X u" for u
    using p [of u] n t by (auto simp: place_def split: option.splits if_splits)
  then have "sched_core ?k X" using c n by (simp add: sched_core_def)
  moreover have "ReadyToRun k t = Inr ?k"
    using th lv n by (simp add: ReadyToRun_def setStatus_def upd_thread_def the_thread_def seq_append_def)
  moreover have "same_sync k ?k"
    using th by (auto simp: same_sync_def ops_of_def fun_eq_iff)
  ultimately show ?thesis using lv by simp
qed

lemma upd_thread_ok: "threads k t = Some th \<Longrightarrow> upd_thread k t f = Inr (k\<lparr>threads := (threads k)(t \<mapsto> f th)\<rparr>)"
  by (simp add: upd_thread_def the_thread_def)

lemma sched_core_upd:
  assumes c: "sched_core k X" and th: "threads k t = Some th"
    and u: "t \<in> X \<or> th_status th' = th_status th \<and> th_ops th' = th_ops th"
    and k': "threads k' = (threads k)(t \<mapsto> th')" "readyList k' = readyList k" "sems k' = sems k"
  shows "sched_core k' X"
proof -
  have "place k' X a" for a
  proof -
    have "place k X a" using c by (simp add: sched_core_def)
    then show ?thesis using th u unfolding place_def k'
      by (cases "a = t") (auto split: if_splits)
  qed
  then show ?thesis using c unfolding sched_core_def k' by auto
qed

lemma sched_core_same:
  assumes "sched_core k X" "threads k' = threads k" "readyList k' = readyList k" "sems k' = sems k"
  shows "sched_core k' X"
  using assms(1) unfolding sched_core_def place_def assms(2-4) .

text \<open>
  The user registers of a thread: those of the machine while it is the current thread, those in its control
  block otherwise. A thread obtains an address space only once it runs.
\<close>

definition uregs :: "kernel \<Rightarrow> nat \<Rightarrow> 32 word list option" where
  "uregs k t = (case threads k t of None \<Rightarrow> None
     | Some th \<Rightarrow> if th_space th then Some (if currentThread k = t then k_registers k else userRegisters th) else None)"

definition space_begun :: "kernel \<Rightarrow> bool" where
  "space_begun k \<longleftrightarrow> (\<forall>t th. threads k t = Some th \<longrightarrow> th_space th \<longrightarrow> th_begun th)"

definition begun_ok :: "kernel \<Rightarrow> bool" where
  "begun_ok k \<longleftrightarrow> space_begun k \<and> (\<exists>th. threads k (currentThread k) = Some th \<and> th_begun th)"

definition same_user :: "kernel \<Rightarrow> kernel \<Rightarrow> bool" where
  "same_user k k' \<longleftrightarrow> (\<forall>u. threads k u \<noteq> None \<longrightarrow> threads k' u \<noteq> None \<longrightarrow> uregs k' u = uregs k u)"

text \<open>What the kernel has achieved when a context switch to \<open>t\<close> is over.\<close>

definition switched :: "kernel \<Rightarrow> nat \<Rightarrow> kernel \<Rightarrow> bool" where
  "switched k t k' \<longleftrightarrow> sched_core k' {t} \<and> currentThread k' = t \<and> toBeDestroyed k' = None \<and> k_level k' = IntOff \<and>
     k_idle k' = k_idle k \<and> same_sync k k' \<and> (\<exists>th'. threads k' t = Some th' \<and> th_status th' = RUNNING) \<and>
     (\<forall>u. threads k' u \<noteq> None \<longrightarrow> threads k u \<noteq> None) \<and>
     (space_begun k \<longrightarrow> begun_ok k' \<and> same_user k k')"

lemma Run_in_ok:
  assumes c: "sched_core k {t}" and cur: "currentThread k = t" and th: "threads k t = Some th" "th_status th = RUNNING"
    and lv: "k_level k = IntOff" and tbd: "toBeDestroyed k = None"
  shows "\<exists>k' th'. Run_in k = Inr k' \<and> sched_core k' {t} \<and> currentThread k' = t \<and> toBeDestroyed k' = None \<and> k_level k' = IntOff \<and>
    k_idle k' = k_idle k \<and> same_sync k k' \<and> threads k' = (threads k)(t \<mapsto> th') \<and> th_status th' = RUNNING \<and>
    th' = th\<lparr>th_begun := True\<rparr> \<and> (th_begun th \<longrightarrow> th_space th \<longrightarrow> k_registers k' = userRegisters th)"
proof (cases "th_begun th")
  case True
  let ?k = "if th_space th then k\<lparr>k_registers := userRegisters th\<rparr> else k"
  have "Run_in k = Inr ?k"
    using True cur th lv tbd
    by (simp add: Run_in_def CheckToBeDestroyed_def the_thread_def RestoreUserState_def Let_def)
  moreover have "sched_core ?k {t}" using sched_core_same [OF c, of ?k] by simp
  moreover have "th\<lparr>th_begun := True\<rparr> = th" using True by (cases th) simp
  moreover have "threads ?k = (threads k)(t \<mapsto> th)" using th by auto
  ultimately show ?thesis using True cur th lv tbd
    by (intro exI [of _ ?k] exI [of _ th]) (auto simp: same_sync_def ops_of_def)
next
  case False
  let ?th = "th\<lparr>th_begun := True\<rparr>" let ?k = "k\<lparr>threads := (threads k)(t \<mapsto> ?th)\<rparr>"
  have "Run_in k = Inr ?k"
    using False cur th lv tbd
    by (simp add: Run_in_def CheckToBeDestroyed_def the_thread_def upd_thread_ok Let_def)
  moreover have "sched_core ?k {t}" using sched_core_upd [OF c th(1), of ?th ?k] by simp
  ultimately show ?thesis using False cur th lv tbd
    by (intro exI [of _ ?k] exI [of _ ?th]) (auto simp: same_sync_def ops_of_upd)
qed

lemma CheckToBeDestroyed_ok:
  assumes c: "sched_core k {t, old}" and cur: "currentThread k = t" "t \<noteq> old" and tbd: "toBeDestroyed k = Some old"
    and ops: "ops_of k old = []"
  shows "\<exists>k'. CheckToBeDestroyed k = Inr k' \<and> sched_core k' {t} \<and> threads k' = (threads k)(old := None) \<and> same_sync k k' \<and>
    currentThread k' = t \<and> toBeDestroyed k' = None \<and> k_level k' = k_level k \<and> k_idle k' = k_idle k \<and> k_registers k' = k_registers k"
proof -
  let ?k = "k\<lparr>threads := (threads k)(old := None), toBeDestroyed := None\<rparr>"
  have "place ?k {t} u" for u
  proof -
    have "place k {t, old} u" using c by (simp add: sched_core_def)
    then show ?thesis by (auto simp: place_def split: option.splits if_splits)
  qed
  then have "sched_core ?k {t}" using c by (auto simp: sched_core_def)
  moreover have "same_sync k ?k" using ops by (auto simp: same_sync_def ops_of_def fun_eq_iff)
  ultimately show ?thesis using cur tbd by (simp add: CheckToBeDestroyed_def)
qed

lemma Run_in_destroys:
  assumes "CheckToBeDestroyed k = Inr k1" "toBeDestroyed k1 = None" "currentThread k1 = currentThread k" "k_level k1 = k_level k"
  shows "Run_in k = Run_in k1"
  using assms by (simp add: Run_in_def CheckToBeDestroyed_def [of k1] Let_def)

definition saved_out :: "kernel \<Rightarrow> kernel \<Rightarrow> bool" where
  "saved_out k k' \<longleftrightarrow> (\<forall>u x. threads k u = Some x \<longrightarrow> (\<exists>y. threads k' u = Some y \<and> th_space y = th_space x \<and> th_begun y = th_begun x \<and>
     userRegisters y = (if u = currentThread k \<and> th_space x then k_registers k else userRegisters x)))"

lemma Run_out_ok:
  assumes c: "sched_core k X" "t \<in> X" and th: "threads k t = Some th" and old: "threads k (currentThread k) = Some old"
    and lv: "k_level k = IntOff" and tbd: "toBeDestroyed k = None"
  shows "\<exists>k' th'. Run_out k t fin = Inr k' \<and> sched_core k' X \<and> same_sync k k' \<and> currentThread k' = t \<and> k_level k' = IntOff \<and>
    k_idle k' = k_idle k \<and> toBeDestroyed k' = (if fin then Some (currentThread k) else None) \<and>
    threads k' t = Some th' \<and> th_status th' = RUNNING \<and>
    (\<forall>u. threads k' u = None \<longleftrightarrow> threads k u = None) \<and>
    saved_out k k'"
proof -
  let ?o = "currentThread k"
  let ?old = "if th_space old then old\<lparr>userRegisters := k_registers k\<rparr> else old"
  let ?m = "(threads k)(?o \<mapsto> ?old)"
  let ?k1 = "(if fin then k\<lparr>toBeDestroyed := Some ?o\<rparr> else k)\<lparr>threads := ?m, currentThread := t\<rparr>"
  obtain th1 where th1: "?m t = Some th1" "th_ops th1 = th_ops th"
    using th old by (cases "t = ?o") auto
  let ?k2 = "?k1\<lparr>threads := ?m(t \<mapsto> th1\<lparr>th_status := RUNNING\<rparr>)\<rparr>"
  have m: "?m = threads k" if "\<not> th_space old" using that old by auto
  have "Run_out k t fin = setStatus ?k1 t RUNNING"
    using old lv tbd m by (auto simp: Run_out_def the_thread_def SaveUserState_def upd_thread_def Let_def)
  then have r: "Run_out k t fin = Inr ?k2"
    using th1 by (simp add: setStatus_def upd_thread_ok)
  have "sched_core ?k1 X" using sched_core_upd [OF c(1) old, of ?old ?k1] by simp
  then have s: "sched_core ?k2 X"
    using sched_core_upd [of ?k1 X t th1 "th1\<lparr>th_status := RUNNING\<rparr>" ?k2] c(2) th1 by simp
  have "ops_of ?k1 = ops_of k" using old by (auto simp: ops_of_def fun_eq_iff)
  then have "ops_of ?k2 = ops_of k" using ops_of_upd [of ?k1 t th1 "th1\<lparr>th_status := RUNNING\<rparr>"] th1 by simp
  then have y: "same_sync k ?k2" by (simp add: same_sync_def)
  show ?thesis
    using r s y lv th old th1 tbd
    by (intro exI [of _ ?k2] exI [of _ "th1\<lparr>th_status := RUNNING\<rparr>"]) (auto simp: saved_out_def)
qed

lemma uregs_switched:
  assumes o: "saved_out k k1"
    and th1: "threads k1 t = Some th1" "threads k2 t = Some (th1\<lparr>th_begun := True\<rparr>)" "currentThread k2 = t"
    and r: "th_begun th1 \<longrightarrow> th_space th1 \<longrightarrow> k_registers k2 = userRegisters th1"
    and oth: "\<forall>u. u \<noteq> t \<longrightarrow> threads k2 u \<noteq> None \<longrightarrow> threads k2 u = threads k1 u"
    and ex: "\<forall>u. threads k1 u = None \<longleftrightarrow> threads k u = None" and b: "space_begun k"
  shows "begun_ok k2 \<and> same_user k k2"
proof -
  have b1: "th_space y \<longrightarrow> th_begun y" if "threads k1 u = Some y" for u y
    using o b that ex unfolding space_begun_def saved_out_def by (metis not_Some_eq option.inject)
  have "space_begun k2"
    unfolding space_begun_def using b1 oth th1(2) by (metis Thread.select_convs(4) Thread.simps(10) Thread.surjective option.discI option.inject)
  moreover have "uregs k2 u = uregs k u" if u: "threads k u \<noteq> None" "threads k2 u \<noteq> None" for u
  proof -
    obtain x y where xy: "threads k u = Some x" "threads k1 u = Some y" "th_space y = th_space x" "th_begun y = th_begun x"
       "userRegisters y = (if u = currentThread k \<and> th_space x then k_registers k else userRegisters x)"
      using o u unfolding saved_out_def by blast
    show ?thesis
    proof (cases "u = t")
      case True
      then show ?thesis using xy th1 r b1 [of t th1] by (auto simp: uregs_def)
    next
      case False
      then have "threads k2 u = Some y" using oth u xy by simp
      then show ?thesis using False xy th1(3) by (auto simp: uregs_def)
    qed
  qed
  ultimately show ?thesis using th1 by (simp add: begun_ok_def same_user_def)
qed

lemma Run_keep_ok:
  assumes c: "sched_core k {t}" and th: "threads k t = Some th" and old: "threads k (currentThread k) = Some old"
    and lv: "k_level k = IntOff" and tbd: "toBeDestroyed k = None"
  shows "\<exists>k'. Run k t False = Inr k' \<and> switched k t k'"
proof -
  obtain k1 th1 where k1: "Run_out k t False = Inr k1" "sched_core k1 {t}" "same_sync k k1" "currentThread k1 = t"
    "k_level k1 = IntOff" "k_idle k1 = k_idle k" "toBeDestroyed k1 = None" "threads k1 t = Some th1" "th_status th1 = RUNNING"
    and ex: "\<forall>u. threads k1 u = None \<longleftrightarrow> threads k u = None"
    and o: "saved_out k k1"
    using Run_out_ok [OF c _ th old lv tbd, of False] by auto
  obtain k2 th2 where k2: "Run_in k1 = Inr k2" "sched_core k2 {t}" "currentThread k2 = t" "toBeDestroyed k2 = None"
    "k_level k2 = IntOff" "k_idle k2 = k_idle k1" "same_sync k1 k2" "threads k2 = (threads k1)(t \<mapsto> th2)" "th_status th2 = RUNNING"
    "th2 = th1\<lparr>th_begun := True\<rparr>" "th_begun th1 \<longrightarrow> th_space th1 \<longrightarrow> k_registers k2 = userRegisters th1"
    using Run_in_ok [OF k1(2) k1(4) k1(8) k1(9) k1(5) k1(7)] by blast
  have "begun_ok k2 \<and> same_user k k2" if "space_begun k"
    using uregs_switched [OF o k1(8) _ k2(3) k2(11) _ ex that] k2(8,10) by simp
  moreover have "\<forall>u. threads k2 u \<noteq> None \<longrightarrow> threads k u \<noteq> None" using k2(8) ex th by (simp del: not_None_eq)
  ultimately have "switched k t k2"
    unfolding switched_def using k1 k2 same_sync_trans [OF k1(3) k2(7)] by simp
  then show ?thesis using k1 k2 by (auto simp: Run_def)
qed

lemma Run_finish_ok:
  assumes c: "sched_core k {t, currentThread k}" "t \<noteq> currentThread k" and th: "threads k t = Some th"
    and old: "threads k (currentThread k) = Some old" "th_ops old = []"
    and lv: "k_level k = IntOff" and tbd: "toBeDestroyed k = None"
  shows "\<exists>k'. Run k t True = Inr k' \<and> switched k t k' \<and> threads k' (currentThread k) = None"
proof -
  let ?o = "currentThread k"
  obtain k1 th1 where k1: "Run_out k t True = Inr k1" "sched_core k1 {t, ?o}" "same_sync k k1" "currentThread k1 = t"
    "k_level k1 = IntOff" "k_idle k1 = k_idle k" "toBeDestroyed k1 = Some ?o" "threads k1 t = Some th1" "th_status th1 = RUNNING"
    and ex: "\<forall>u. threads k1 u = None \<longleftrightarrow> threads k u = None"
    and o: "saved_out k k1"
    using Run_out_ok [OF c(1) _ th old(1) lv tbd, of True] by auto
  have "ops_of k ?o = []" using old by (simp add: ops_of_def)
  then have "ops_of k1 ?o = []" using k1(3) by (simp add: same_sync_def)
  then obtain k2 where k2: "CheckToBeDestroyed k1 = Inr k2" "sched_core k2 {t}"
    "threads k2 = (threads k1)(?o := None)" "same_sync k1 k2" "currentThread k2 = t" "toBeDestroyed k2 = None"
    "k_level k2 = IntOff" "k_idle k2 = k_idle k" "k_registers k2 = k_registers k1"
    using CheckToBeDestroyed_ok [OF k1(2) k1(4) c(2) k1(7)] k1(5,6) by auto
  have t2: "threads k2 t = Some th1" using k2(3) k1(8) c(2) by simp
  obtain k3 th3 where k3: "Run_in k2 = Inr k3" "sched_core k3 {t}" "currentThread k3 = t" "toBeDestroyed k3 = None"
    "k_level k3 = IntOff" "k_idle k3 = k_idle k2" "same_sync k2 k3" "threads k3 = (threads k2)(t \<mapsto> th3)" "th_status th3 = RUNNING"
    "th3 = th1\<lparr>th_begun := True\<rparr>" "th_begun th1 \<longrightarrow> th_space th1 \<longrightarrow> k_registers k3 = userRegisters th1"
    using Run_in_ok [OF k2(2) k2(5) t2 k1(9) k2(7) k2(6)] by blast
  have "Run k t True = Inr k3"
    using k1(1) k3(1) Run_in_destroys [OF k2(1) k2(6)] k1(4,5) k2(5,7) by (simp add: Run_def)
  moreover have "begun_ok k3 \<and> same_user k k3" if "space_begun k"
    using uregs_switched [OF o k1(8) _ k3(3) k3(11) _ ex that] k3(8,10) k2(3) by simp
  moreover have "\<forall>u. threads k3 u \<noteq> None \<longrightarrow> threads k u \<noteq> None" using k3(8) k2(3) ex th by (simp del: not_None_eq)
  ultimately have "switched k t k3"
    unfolding switched_def
    using k2 k3 same_sync_trans [OF k1(3) same_sync_trans [OF k2(4) k3(7)]] by simp
  moreover have "threads k3 ?o = None" using k3(8) k2(3) c(2) by simp
  ultimately show ?thesis using \<open>Run k t True = Inr k3\<close> by blast
qed

lemma FindNextToRun_None: "k_level k = IntOff \<Longrightarrow> readyList k = [] \<Longrightarrow> FindNextToRun k = Inr (None, k)"
  by (simp add: FindNextToRun_def)

lemma FindNextToRun_Some:
  assumes c: "sched_core k X" and lv: "k_level k = IntOff" and r: "readyList k = t # ts"
  shows "FindNextToRun k = Inr (Some t, k\<lparr>readyList := ts\<rparr>) \<and> sched_core (k\<lparr>readyList := ts\<rparr>) (insert t X) \<and> t \<notin> X \<and>
    (\<exists>th. threads k t = Some th \<and> th_status th = READY)"
proof -
  have p: "place k X u" for u using c by (simp add: sched_core_def)
  have d: "t \<notin> set ts" "distinct ts" using c r by (auto simp: sched_core_def)
  have t: "t \<notin> X" "\<exists>th. threads k t = Some th \<and> th_status th = READY"
    using p [of t] r by (auto simp: place_def split: option.splits if_splits)
  have "place (k\<lparr>readyList := ts\<rparr>) (insert t X) u" for u
    using p [of u] r d t by (auto simp: place_def split: option.splits if_splits)
  then show ?thesis using c t d lv r by (simp add: FindNextToRun_def seq_remove_front_def sched_core_def)
qed

text \<open>
  The state after an operation that ran with interrupts off, before the level is restored: the current thread
  runs, or sleeps in the idle loop. \<open>settled\<close> also says what was left alone.
\<close>

definition restore_level :: "kernel \<Rightarrow> kernel" where
  "restore_level k = k\<lparr>k_level := if k_idle k = None then IntOn else IntOff\<rparr>"

definition settled :: "kernel \<Rightarrow> kernel \<Rightarrow> bool" where
  "settled k k' \<longleftrightarrow> sched_ok (restore_level k') \<and> k_level k' = IntOff \<and> same_sync k k' \<and>
     (begun_ok k \<longrightarrow> begun_ok k' \<and> same_user k k') \<and> (\<forall>u. threads k' u \<noteq> None \<longrightarrow> threads k u \<noteq> None)"

lemma sched_core_simps [simp]:
  "sched_core (k\<lparr>k_level := lv\<rparr>) X = sched_core k X" "sched_core (k\<lparr>k_idle := i\<rparr>) X = sched_core k X"
  "sched_core (k\<lparr>currentThread := c\<rparr>) X = sched_core k X" "sched_core (k\<lparr>lockHolder := h\<rparr>) X = sched_core k X"
  "sched_core (k\<lparr>waitQueue := q\<rparr>) X = sched_core k X" "sched_core (k\<lparr>next_waiter := n\<rparr>) X = sched_core k X"
  "sched_core (k\<lparr>k_registers := rs\<rparr>) X = sched_core k X"
  by (simp_all add: sched_core_def place_def cong: option.case_cong)

lemma ops_of_simps [simp]:
  "ops_of (k\<lparr>k_level := lv\<rparr>) = ops_of k" "ops_of (k\<lparr>k_idle := i\<rparr>) = ops_of k" "ops_of (k\<lparr>readyList := r\<rparr>) = ops_of k"
  "ops_of (k\<lparr>sems := m\<rparr>) = ops_of k" "ops_of (k\<lparr>lockHolder := h\<rparr>) = ops_of k" "ops_of (k\<lparr>waitQueue := q\<rparr>) = ops_of k"
  "ops_of (k\<lparr>next_waiter := n\<rparr>) = ops_of k" "ops_of (k\<lparr>k_registers := rs\<rparr>) = ops_of k"
  by (simp_all add: ops_of_def fun_eq_iff)

lemma switched_settled:
  assumes "switched k1 t k'" "k_idle k1 = None" "same_sync k k1" "begun_ok k \<Longrightarrow> space_begun k1 \<and> same_user k k1"
    "\<forall>u. threads k1 u \<noteq> None \<longleftrightarrow> threads k u \<noteq> None"
  shows "settled k k'"
proof -
  have "same_user k k'" if "same_user k k1" "same_user k1 k'"
    using that assms(1,5) by (auto simp: same_user_def switched_def)
  moreover have "\<forall>u. threads k' u \<noteq> None \<longrightarrow> threads k u \<noteq> None"
    using assms(1,5) by (auto simp: switched_def)
  ultimately show ?thesis
    using assms same_sync_trans [OF assms(3), of k']
    by (auto simp: settled_def switched_def sched_ok_def restore_level_def)
qed

lemma uregs_simps [simp]:
  "uregs (k\<lparr>k_level := lv\<rparr>) = uregs k" "uregs (k\<lparr>k_idle := i\<rparr>) = uregs k" "uregs (k\<lparr>readyList := r\<rparr>) = uregs k"
  "uregs (k\<lparr>sems := m\<rparr>) = uregs k" "uregs (k\<lparr>lockHolder := h\<rparr>) = uregs k" "uregs (k\<lparr>waitQueue := q\<rparr>) = uregs k"
  "uregs (k\<lparr>next_waiter := n\<rparr>) = uregs k"
  by (auto simp: uregs_def fun_eq_iff split: option.splits)

lemma uregs_status:
  "threads k t = Some th \<Longrightarrow> uregs (k\<lparr>threads := (threads k)(t \<mapsto> th\<lparr>th_status := st\<rparr>)\<rparr>) = uregs k"
  "threads k t = Some th \<Longrightarrow> uregs (k\<lparr>threads := (threads k)(t \<mapsto> th\<lparr>th_ops := ops\<rparr>)\<rparr>) = uregs k"
  by (auto simp: uregs_def fun_eq_iff split: option.splits)

lemma Sleep_continue_ok:
  assumes th: "threads k (currentThread k) = Some th" and lv: "k_level k = IntOff" and tbd: "toBeDestroyed k = None"
    and c: "if fin then sched_core k {currentThread k} \<and> th_ops th = [] \<and> th_status th = BLOCKED else sched_core k {}"
  shows "\<exists>k'. Sleep_continue k fin = Inr k' \<and> settled k k'"
proof (cases "readyList k")
  case Nil
  let ?k = "k\<lparr>k_idle := Some fin\<rparr>"
  have "Sleep_continue k fin = Inr ?k"
    using FindNextToRun_None [OF lv Nil] by (simp add: Sleep_continue_def)
  moreover have "settled k ?k"
    using th lv tbd c by (auto simp: settled_def sched_ok_def restore_level_def same_sync_def same_user_def begun_ok_def space_begun_def
      split: if_splits)
  ultimately show ?thesis by blast
next
  case (Cons t ts)
  let ?X = "if fin then {currentThread k} else {}"
  let ?k = "k\<lparr>readyList := ts, k_idle := None\<rparr>"
  have "sched_core k ?X" using c by (simp split: if_splits)
  from FindNextToRun_Some [OF this lv Cons] obtain tt where
    f: "FindNextToRun k = Inr (Some t, k\<lparr>readyList := ts\<rparr>)" "sched_core ?k (insert t ?X)" "t \<notin> ?X" "threads k t = Some tt"
    by auto
  have "\<exists>k'. Run ?k t fin = Inr k' \<and> switched ?k t k'"
  proof (cases fin)
    case True
    then show ?thesis using Run_finish_ok [of ?k t tt th] f c th lv tbd by auto
  next
    case False
    then show ?thesis using Run_keep_ok [of ?k t tt th] f th lv tbd by auto
  qed
  then obtain k' where k': "Run ?k t fin = Inr k'" "switched ?k t k'" by blast
  have "settled k k'"
    by (rule switched_settled [OF k'(2)]) (auto simp: same_sync_def same_user_def begun_ok_def space_begun_def)
  then show ?thesis using f(1) k'(1) by (auto simp: Sleep_continue_def)
qed

lemma same_user_trans:
  assumes "same_user k k1" "same_user k1 k2" "\<forall>u. threads k2 u \<noteq> None \<longrightarrow> threads k1 u \<noteq> None"
  shows "same_user k k2"
  using assms by (auto simp: same_user_def)

lemma settled_after:
  assumes s: "settled k1 k'" and y: "same_sync k k1" and u: "begun_ok k \<Longrightarrow> begun_ok k1 \<and> same_user k k1"
    and t: "\<forall>u. threads k1 u \<noteq> None \<longrightarrow> threads k u \<noteq> None"
  shows "settled k k'"
  using s t same_sync_trans [OF y, of k'] u same_user_trans [of k k1 k'] unfolding settled_def by blast

lemma Sleep_ok:
  assumes th: "threads k (currentThread k) = Some th" and lv: "k_level k = IntOff" and tbd: "toBeDestroyed k = None"
    and c: "if fin then sched_core k {currentThread k} \<and> th_ops th = []
            else sched_core (k\<lparr>threads := (threads k)(currentThread k \<mapsto> th\<lparr>th_status := BLOCKED\<rparr>)\<rparr>) {}"
  shows "\<exists>k'. Sleep k fin = Inr k' \<and> settled k k'"
proof -
  let ?th = "th\<lparr>th_status := BLOCKED\<rparr>"
  let ?k = "k\<lparr>threads := (threads k)(currentThread k \<mapsto> ?th)\<rparr>"
  have "sched_core ?k {currentThread k}" if "sched_core k {currentThread k}"
    using sched_core_upd [OF that th, of ?th ?k] by simp
  then have "\<exists>k'. Sleep_continue ?k fin = Inr k' \<and> settled ?k k'"
    using Sleep_continue_ok [of ?k ?th fin] lv tbd c th by (auto split: if_splits)
  then obtain k' where k': "Sleep_continue ?k fin = Inr k'" "settled ?k k'" by blast
  have "same_sync k ?k" using th by (simp add: same_sync_def ops_of_upd)
  moreover have "begun_ok ?k \<and> same_user k ?k" if "begun_ok k"
    using that th by (auto simp: begun_ok_def space_begun_def same_user_def uregs_status)
  ultimately have "settled k k'"
    using settled_after [OF k'(2), of k] th by auto
  then show ?thesis using k'(1) lv th by (auto simp: Sleep_def setStatus_def upd_thread_ok)
qed

lemma Yield_ok:
  assumes th: "threads k (currentThread k) = Some th" "th_status th = RUNNING" and lv: "k_level k = IntOff" and tbd: "toBeDestroyed k = None"
    and c: "sched_core k {currentThread k}" and i: "k_idle k = None"
  shows "\<exists>k'. Yield k = Inr k' \<and> settled k k' \<and> k_idle k' = None"
proof (cases "readyList k")
  case Nil
  then have "Yield k = Inr k" using FindNextToRun_None [OF lv] by (simp add: Yield_def)
  then show ?thesis using assms by (auto simp: settled_def sched_ok_def restore_level_def same_user_def)
next
  case (Cons t ts)
  let ?o = "currentThread k" let ?k = "k\<lparr>readyList := ts\<rparr>"
  from FindNextToRun_Some [OF c lv Cons] obtain tt where
    f: "FindNextToRun k = Inr (Some t, ?k)" "sched_core ?k {t, ?o}" "t \<noteq> ?o" "threads k t = Some tt"
    by auto
  then have f2: "sched_core ?k (insert ?o {t})" by (simp add: insert_commute)
  obtain k1 where k1: "ReadyToRun ?k ?o = Inr k1" "sched_core k1 {t}" "same_sync ?k k1"
    "threads k1 = (threads k)(?o \<mapsto> th\<lparr>th_status := READY\<rparr>)" "currentThread k1 = ?o" "toBeDestroyed k1 = None" "k_level k1 = IntOff"
    "k_idle k1 = None" "k_registers k1 = k_registers k"
    using ReadyToRun_ok [OF f2, of th] f(3) th(1) lv tbd i by auto
  obtain k' where k': "Run k1 t False = Inr k'" "switched k1 t k'"
    using Run_keep_ok [OF k1(2), of tt "th\<lparr>th_status := READY\<rparr>"] k1 f by auto
  have "settled k k'"
  proof (rule switched_settled [OF k'(2) k1(8)])
    show "same_sync k k1" using k1(3) by (simp add: same_sync_def)
    show "space_begun k1 \<and> same_user k k1" if "begun_ok k"
      using that th k1(4,5,9) by (auto simp: begun_ok_def space_begun_def same_user_def uregs_def)
    show "\<forall>u. (threads k1 u \<noteq> None) = (threads k u \<noteq> None)" using k1(4) th by simp
  qed
  moreover have "k_idle k' = None" using k'(2) k1(8) by (simp add: switched_def)
  ultimately show ?thesis using f(1) k1(1) k'(1) by (auto simp: Yield_def)
qed

end
