(* ===== verification/Kernel_Sync.thy ===== *)
theory Kernel_Sync
  imports Kernel_Threads
begin

text \<open>
  Invariants of the synchronization primitives over all interleavings of threads, time slices and interrupts:
  a lock has one token, a signal reaches its waiter, a positive semaphore is not slept on, no thread is lost,
  and the kernel's own assertions fail only for a caller that breaks the rules.
\<close>

section \<open>Counting over threads\<close>

definition tally :: "(op list \<Rightarrow> nat) \<Rightarrow> (nat \<Rightarrow> op list) \<Rightarrow> nat" where
  "tally c g = (\<Sum>t | g t \<noteq> []. c (g t))"

definition at_head :: "op \<Rightarrow> op list \<Rightarrow> nat" where
  "at_head x ops = (case ops of [] \<Rightarrow> 0 | y # rest \<Rightarrow> if y = x then 1 else 0)"

definition wants :: "semid \<Rightarrow> op list \<Rightarrow> nat" where
  "wants s ops = (if waits ops = Some s then 1 else 0)"

definition pendingP :: "nat \<Rightarrow> op list \<Rightarrow> nat" where
  "pendingP w ops = count_list ops (OpP (SWait w))"

lemma at_head_simps [simp]: "at_head x [] = 0" "at_head x (y # rest) = (if y = x then 1 else 0)"
  by (simp_all add: at_head_def)

lemma wants_Nil [simp]: "wants s [] = 0"
  by (simp add: wants_def)

lemma pendingP_simps [simp]: "pendingP w [] = 0"
  "pendingP w (x # rest) = (if x = OpP (SWait w) then 1 else 0) + pendingP w rest"
  by (simp_all add: pendingP_def)

lemma tally_alt:
  assumes "finite {t. g t \<noteq> []}" "c [] = 0" "finite A" "{t. g t \<noteq> []} \<subseteq> A"
  shows "tally c g = (\<Sum>t\<in>A. c (g t))"
  unfolding tally_def using assms by (intro sum.mono_neutral_left) auto

lemma finite_upd: "finite {t. g t \<noteq> []} \<Longrightarrow> finite {u. (g(t := new)) u \<noteq> []}"
  by (rule finite_subset [of _ "insert t {t. g t \<noteq> []}"]) auto

lemma tally_upd:
  assumes f: "finite {t. g t \<noteq> []}" and c: "c [] = 0"
  shows "tally c (g(t := new)) + c (g t) = tally c g + c new"
proof -
  let ?A = "insert t {t. g t \<noteq> []}"
  have "tally c g = (\<Sum>u\<in>?A. c (g u))"
    by (rule tally_alt) (use f c in auto)
  moreover have "tally c (g(t := new)) = (\<Sum>u\<in>?A. c ((g(t := new)) u))"
    by (rule tally_alt [OF finite_upd [OF f, of t new]]) (use f c in auto)
  moreover have "(\<Sum>u\<in>?A. c ((g(t := new)) u)) = c new + (\<Sum>u\<in>?A - {t}. c (g u))"
    "(\<Sum>u\<in>?A. c (g u)) = c (g t) + (\<Sum>u\<in>?A - {t}. c (g u))"
    using f by (subst sum.remove [of ?A t]; simp)+
  ultimately show ?thesis by simp
qed

lemma tally_ge: "finite {t. g t \<noteq> []} \<Longrightarrow> c [] = 0 \<Longrightarrow> c (g t) \<le> tally c g"
  using tally_upd [of g c t "[]"] by simp

lemma tally_ge2:
  assumes "finite {t. g t \<noteq> []}" "c [] = 0" "t \<noteq> u"
  shows "c (g t) + c (g u) \<le> tally c g"
  using tally_upd [of g c t "[]"] tally_ge [of "g(t := [])" c u] finite_upd [of g t "[]"] assms by simp

lemma tally_zero: "(\<And>t. c (g t) = 0) \<Longrightarrow> tally c g = 0"
  by (simp add: tally_def)

lemma tally_length:
  assumes f: "finite {t. g t \<noteq> []}" and d: "distinct q" and w: "\<forall>t\<in>set q. wants s (g t) = 1"
  shows "length q \<le> tally (wants s) g"
proof -
  have "length q = (\<Sum>t\<in>set q. wants s (g t))" using d w by (simp add: distinct_card)
  also have "\<dots> \<le> (\<Sum>t\<in>{t. g t \<noteq> []}. wants s (g t))"
    using f w by (intro sum_mono2) (auto simp: wants_def)
  finally show ?thesis by (simp add: tally_def)
qed

section \<open>Invariants of locks, conditions and semaphores\<close>

text \<open>
  The token of a lock is in its semaphore, or with the one thread that is about to become the holder, is the holder,
  or is about to return it.
\<close>

definition lock_inv :: "(nat \<Rightarrow> op list) \<Rightarrow> (semid \<Rightarrow> Semaphore) \<Rightarrow> (nat \<Rightarrow> nat option) \<Rightarrow> bool" where
  "lock_inv g sm h \<longleftrightarrow> (\<forall>l. sem_value (sm (SLock l)) + int (tally (at_head (OpSetHolder l)) g) +
     int (tally (at_head (OpV (SLock l))) g) + (if h l = None then 0 else 1) = 1)"

text \<open>
  For each waiter of a condition exactly one wake-up is under way: it is still queued, or its signal is
  about to be delivered, or has been delivered to its semaphore.
\<close>

definition cond_inv :: "(nat \<Rightarrow> op list) \<Rightarrow> (semid \<Rightarrow> Semaphore) \<Rightarrow> (nat \<Rightarrow> nat list) \<Rightarrow> bool" where
  "cond_inv g sm wq \<longleftrightarrow> (\<forall>w. sem_value (sm (SWait w)) + int (tally (at_head (OpV (SWait w))) g) +
     int (card {c. w \<in> set (wq c)}) = int (tally (pendingP w) g))"

text \<open>While threads sleep on a semaphore, each unit of its value has a runnable thread about to take it.\<close>

definition wake_inv :: "(nat \<Rightarrow> op list) \<Rightarrow> (semid \<Rightarrow> Semaphore) \<Rightarrow> bool" where
  "wake_inv g sm \<longleftrightarrow> (\<forall>s. sem_queue (sm s) \<noteq> [] \<longrightarrow>
     sem_value (sm s) + int (length (sem_queue (sm s))) \<le> int (tally (wants s) g))"

definition queue_inv :: "(nat \<Rightarrow> nat list) \<Rightarrow> nat \<Rightarrow> bool" where
  "queue_inv wq nw \<longleftrightarrow> finite {c. wq c \<noteq> []} \<and> (\<forall>c. distinct (wq c) \<and> (\<forall>w\<in>set (wq c). w < nw))"

definition prog_inv :: "(nat \<Rightarrow> op list) \<Rightarrow> nat \<Rightarrow> bool" where
  "prog_inv g nw \<longleftrightarrow> finite {t. g t \<noteq> []} \<and> (\<forall>t. ops_ok nw (g t))"

definition sync_ok :: "kernel \<Rightarrow> bool" where
  "sync_ok k \<longleftrightarrow> prog_inv (ops_of k) (next_waiter k) \<and> queue_inv (waitQueue k) (next_waiter k) \<and>
     (\<forall>s. 0 \<le> sem_value (sems k s)) \<and> lock_inv (ops_of k) (sems k) (lockHolder k) \<and>
     cond_inv (ops_of k) (sems k) (waitQueue k) \<and> wake_inv (ops_of k) (sems k)"

lemma sync_fin: "sync_ok k \<Longrightarrow> finite {t. ops_of k t \<noteq> []}"
  and sync_ops: "sync_ok k \<Longrightarrow> ops_ok (next_waiter k) (ops_of k t)"
  and sync_pos: "sync_ok k \<Longrightarrow> 0 \<le> sem_value (sems k s)"
  and sync_lock: "sync_ok k \<Longrightarrow> sem_value (sems k (SLock l)) + int (tally (at_head (OpSetHolder l)) (ops_of k)) +
     int (tally (at_head (OpV (SLock l))) (ops_of k)) + (if lockHolder k l = None then 0 else 1) = 1"
  and sync_cond: "sync_ok k \<Longrightarrow> sem_value (sems k (SWait w)) + int (tally (at_head (OpV (SWait w))) (ops_of k)) +
     int (card {c. w \<in> set (waitQueue k c)}) = int (tally (pendingP w) (ops_of k))"
  and sync_wake: "sync_ok k \<Longrightarrow> sem_queue (sems k s) \<noteq> [] \<Longrightarrow>
     sem_value (sems k s) + int (length (sem_queue (sems k s))) \<le> int (tally (wants s) (ops_of k))"
  and sync_queue: "sync_ok k \<Longrightarrow> queue_inv (waitQueue k) (next_waiter k)"
  by (simp_all add: sync_ok_def prog_inv_def lock_inv_def cond_inv_def wake_inv_def)

lemma sync_okI:
  assumes "finite {t. ops_of k t \<noteq> []}" "\<And>t. ops_ok (next_waiter k) (ops_of k t)" "\<And>s. 0 \<le> sem_value (sems k s)"
    and "\<And>l. sem_value (sems k (SLock l)) + int (tally (at_head (OpSetHolder l)) (ops_of k)) +
     int (tally (at_head (OpV (SLock l))) (ops_of k)) + (if lockHolder k l = None then 0 else 1) = 1"
    and "\<And>w. sem_value (sems k (SWait w)) + int (tally (at_head (OpV (SWait w))) (ops_of k)) +
     int (card {c. w \<in> set (waitQueue k c)}) = int (tally (pendingP w) (ops_of k))"
    and "\<And>s. sem_queue (sems k s) \<noteq> [] \<Longrightarrow>
     sem_value (sems k s) + int (length (sem_queue (sems k s))) \<le> int (tally (wants s) (ops_of k))"
    and "queue_inv (waitQueue k) (next_waiter k)"
  shows "sync_ok k"
  using assms by (simp add: sync_ok_def prog_inv_def lock_inv_def cond_inv_def wake_inv_def)

lemma sync_ok_same: "same_sync k k' \<Longrightarrow> sync_ok k' = sync_ok k"
  by (simp add: sync_ok_def same_sync_def)

text \<open>Counts that vanish on the internal operations a thread has not reached.\<close>

lemma later_not: "\<not> later_op n (OpSetHolder l)" "\<not> later_op n (OpV (SLock l))" "\<not> later_op n (OpV (SWait w))"
  by (simp_all add: later_op_def)

lemma at_head_later [simp]:
  assumes "list_all (later_op n) ops"
  shows "at_head (OpSetHolder l) ops = 0" "at_head (OpV (SLock l)) ops = 0" "at_head (OpV (SWait w)) ops = 0"
  using assms later_not [of n] by (cases ops; auto)+

lemma pendingP_later: "list_all (later_op n) ops \<Longrightarrow> n \<le> w \<Longrightarrow> pendingP w ops = 0"
  by (induction ops) (auto simp: later_op_def)

lemma pendingP_plain: "list_all plain_op ops \<Longrightarrow> pendingP w ops = 0"
  by (induction ops) auto

lemma pendingP_ok: "ops_ok n ops \<Longrightarrow> n \<le> w \<Longrightarrow> pendingP w ops = 0"
  by (cases ops) (auto simp: pendingP_later head_op_def later_op_def)
section \<open>Effects of the operations\<close>

text \<open>A thread moves on without touching a token, a waiter or a semaphore.\<close>

definition neutral :: "op list \<Rightarrow> op list \<Rightarrow> bool" where
  "neutral old new \<longleftrightarrow> (\<forall>l. at_head (OpSetHolder l) new = at_head (OpSetHolder l) old) \<and>
     (\<forall>s. at_head (OpV s) new = at_head (OpV s) old \<or> (\<exists>n. s = SUser n)) \<and>
     (\<forall>w. pendingP w new = pendingP w old) \<and> waits old = None"

lemma tally_neutral:
  assumes f: "finite {t. g t \<noteq> []}" and n: "neutral (g t) new"
  shows "tally (at_head (OpSetHolder l)) (g(t := new)) = tally (at_head (OpSetHolder l)) g"
    "tally (at_head (OpV (SLock l))) (g(t := new)) = tally (at_head (OpV (SLock l))) g"
    "tally (at_head (OpV (SWait w))) (g(t := new)) = tally (at_head (OpV (SWait w))) g"
    "tally (pendingP w) (g(t := new)) = tally (pendingP w) g"
    "tally (wants s) g \<le> tally (wants s) (g(t := new))"
proof -
  have h: "at_head (OpSetHolder l) new = at_head (OpSetHolder l) (g t)" "at_head (OpV (SLock l)) new = at_head (OpV (SLock l)) (g t)"
    "at_head (OpV (SWait w)) new = at_head (OpV (SWait w)) (g t)" "pendingP w new = pendingP w (g t)" "wants s (g t) = 0"
    using n unfolding neutral_def wants_def by auto
  show "tally (at_head (OpSetHolder l)) (g(t := new)) = tally (at_head (OpSetHolder l)) g"
    "tally (at_head (OpV (SLock l))) (g(t := new)) = tally (at_head (OpV (SLock l))) g"
    "tally (at_head (OpV (SWait w))) (g(t := new)) = tally (at_head (OpV (SWait w))) g"
    "tally (pendingP w) (g(t := new)) = tally (pendingP w) g"
    "tally (wants s) g \<le> tally (wants s) (g(t := new))"
    using tally_upd [OF f, of "at_head (OpSetHolder l)" t new] tally_upd [OF f, of "at_head (OpV (SLock l))" t new]
      tally_upd [OF f, of "at_head (OpV (SWait w))" t new] tally_upd [OF f, of "pendingP w" t new] tally_upd [OF f, of "wants s" t new] h
    by simp_all
qed

lemma prog_inv_upd: "prog_inv g nw \<Longrightarrow> ops_ok nw new \<Longrightarrow> prog_inv (g(t := new)) nw"
  using finite_upd [of g t new] by (auto simp: prog_inv_def)

lemma sync_fin_upd: "sync_ok k \<Longrightarrow> finite {u. ((ops_of k)(t := new)) u \<noteq> []}"
  using finite_upd [OF sync_fin [of k], of t new] by simp

lemma sync_ops_upd: "sync_ok k \<Longrightarrow> ops_ok (next_waiter k) new \<Longrightarrow> ops_ok (next_waiter k) (((ops_of k)(t := new)) u)"
  using sync_ops [of k u] by simp

lemma sync_tally:
  "sync_ok k \<Longrightarrow> c [] = 0 \<Longrightarrow> tally c ((ops_of k)(t := new)) + c (ops_of k t) = tally c (ops_of k) + c new"
  using tally_upd [of "ops_of k" c t new] sync_fin [of k] by simp

lemma sync_neutral:
  assumes k: "sync_ok k" and o: "ops_of k' = (ops_of k)(t := new)" "sems k' = sems k" "lockHolder k' = lockHolder k"
      "waitQueue k' = waitQueue k" "next_waiter k' = next_waiter k"
    and n: "neutral (ops_of k t) new" and ok: "ops_ok (next_waiter k) new"
  shows "sync_ok k'"
proof (rule sync_okI, unfold o)
  note t = tally_neutral [OF sync_fin [OF k] n]
  show "sem_value (sems k s) + int (length (sem_queue (sems k s))) \<le> int (tally (wants s) ((ops_of k)(t := new)))"
    if "sem_queue (sems k s) \<noteq> []" for s
    using sync_wake [OF k that] t(5) [of s] by linarith
qed (use sync_lock [OF k] sync_cond [OF k] sync_pos [OF k] sync_queue [OF k] sync_fin_upd [OF k] sync_ops_upd [OF k ok]
    tally_neutral [OF sync_fin [OF k] n] in auto)

text \<open>A successful \<^verbatim>\<open>P\<close>.\<close>

lemma sync_P_take:
  assumes k: "sync_ok k" and o: "ops_of k' = (ops_of k)(t := new)" "lockHolder k' = lockHolder k"
      "waitQueue k' = waitQueue k" "next_waiter k' = next_waiter k"
    and sm: "sems k' = (sems k)(s := (sems k s)\<lparr>sem_value := sem_value (sems k s) - 1\<rparr>)" and v: "sem_value (sems k s) \<noteq> 0"
    and x: "ops_of k t = x # rest" "waits (x # rest) = Some s"
    and new: "x = OpP s \<and> new = rest \<or> (\<exists>l. x = OpAcquire l \<and> new = OpSetHolder l # rest)"
  shows "sync_ok k'"
proof (rule sync_okI, unfold o)
  let ?g = "ops_of k"
  have l: "list_all (later_op (next_waiter k)) rest" "head_op (next_waiter k) x"
    using sync_ops [OF k, of t] x(1) by auto
  have s: "x = OpAcquire l" if "s = SLock l" for l
    using new x(2) l(2) that by (auto simp: head_op_def later_op_def)
  have d: "tally c (?g(t := new)) + c (x # rest) = tally c ?g + c new" if "c [] = 0" for c
    using sync_tally [OF k, of c t new] that x(1) by simp
  have nok: "ops_ok (next_waiter k) new" using new ops_ok_later [OF l(1)] l(1) by (auto simp: head_op_def)
  show "ops_ok (next_waiter k) ((?g(t := new)) u)" for u by (rule sync_ops_upd [OF k nok])
  show "finite {u. (?g(t := new)) u \<noteq> []}" by (rule sync_fin_upd [OF k])
  show "queue_inv (waitQueue k) (next_waiter k)" by (rule sync_queue [OF k])
  show "0 \<le> sem_value (sems k' s')" for s' using sync_pos [OF k, of s'] sync_pos [OF k, of s] v by (simp add: sm)
  show "sem_value (sems k' (SLock l')) + int (tally (at_head (OpSetHolder l')) (?g(t := new))) +
       int (tally (at_head (OpV (SLock l'))) (?g(t := new))) + (if lockHolder k l' = None then 0 else 1) = 1" for l'
    using sync_lock [OF k, of l'] d [of "at_head (OpSetHolder l')"] d [of "at_head (OpV (SLock l'))"] new x(2) l(1) s [of l']
    by (auto simp: sm)
  show "sem_value (sems k' (SWait w)) + int (tally (at_head (OpV (SWait w))) (?g(t := new))) +
       int (card {c. w \<in> set (waitQueue k c)}) = int (tally (pendingP w) (?g(t := new)))" for w
    using sync_cond [OF k, of w] d [of "at_head (OpV (SWait w))"] d [of "pendingP w"] new x(2) l(1) by (auto simp: sm)
  show "sem_value (sems k' s') + int (length (sem_queue (sems k' s'))) \<le> int (tally (wants s') (?g(t := new)))"
    if "sem_queue (sems k' s') \<noteq> []" for s'
    using that sync_wake [OF k, of s'] d [of "wants s'"] x(2) by (auto simp: sm wants_def split: if_splits)
qed

text \<open>A thread queues up.\<close>

lemma sync_P_block:
  assumes k: "sync_ok k" and o: "ops_of k' = ops_of k" "lockHolder k' = lockHolder k"
      "waitQueue k' = waitQueue k" "next_waiter k' = next_waiter k"
    and sm: "sems k' = (sems k)(s := (sems k s)\<lparr>sem_queue := q\<rparr>)" and v: "sem_value (sems k s) = 0"
    and q: "distinct q" "\<forall>t\<in>set q. waits (ops_of k t) = Some s"
  shows "sync_ok k'"
proof -
  have vs: "sem_value (sems k' s') = sem_value (sems k s')" for s' by (simp add: sm)
  have "sem_value (sems k s') + int (length (sem_queue (sems k' s'))) \<le> int (tally (wants s') (ops_of k))"
    if "sem_queue (sems k' s') \<noteq> []" for s'
    using that sync_wake [OF k, of s'] tally_length [OF sync_fin [OF k] q(1), of s] q(2) v
    by (auto simp: sm wants_def split: if_splits)
  then show ?thesis
    using k unfolding sync_ok_def lock_inv_def cond_inv_def wake_inv_def o vs by simp
qed

text \<open>\<^verbatim>\<open>V\<close>, by a thread or by an interrupt handler.\<close>

definition V_value :: "Semaphore \<Rightarrow> Semaphore" where
  "V_value sm = sm\<lparr>sem_queue := tl (sem_queue sm), sem_value := sem_value sm + 1\<rparr>"

lemma sync_V:
  assumes k: "sync_ok k" and o: "ops_of k' = (ops_of k)(t := rest)" "lockHolder k' = lockHolder k"
      "waitQueue k' = waitQueue k" "next_waiter k' = next_waiter k"
    and sm: "sems k' = (sems k)(s := V_value (sems k s))"
    and x: "ops_of k t = OpV s # rest \<or> (\<exists>n. s = SUser n) \<and> ops_of k t = rest"
  shows "sync_ok k'"
proof (rule sync_okI, unfold o)
  let ?g = "ops_of k"
  have l: "ops_of k t = OpV s # rest \<Longrightarrow> list_all (later_op (next_waiter k)) rest"
    using sync_ops [OF k, of t] by auto
  have d: "tally c (?g(t := rest)) + c (?g t) = tally c ?g + c rest" if "c [] = 0" for c
    using sync_tally [OF k, of c t rest] that by simp
  have nok: "ops_ok (next_waiter k) rest" using x ops_ok_later [OF l] sync_ops [OF k, of t] by auto
  show "ops_ok (next_waiter k) ((?g(t := rest)) u)" for u by (rule sync_ops_upd [OF k nok])
  show "finite {u. (?g(t := rest)) u \<noteq> []}" by (rule sync_fin_upd [OF k])
  show "queue_inv (waitQueue k) (next_waiter k)" by (rule sync_queue [OF k])
  show "0 \<le> sem_value (sems k' s')" for s' using sync_pos [OF k, of s'] by (auto simp: sm V_value_def)
  show "sem_value (sems k' (SLock l')) + int (tally (at_head (OpSetHolder l')) (?g(t := rest))) +
       int (tally (at_head (OpV (SLock l'))) (?g(t := rest))) + (if lockHolder k l' = None then 0 else 1) = 1" for l'
    using sync_lock [OF k, of l'] d [of "at_head (OpSetHolder l')"] d [of "at_head (OpV (SLock l'))"] x l
    by (auto simp: sm V_value_def)
  show "sem_value (sems k' (SWait w)) + int (tally (at_head (OpV (SWait w))) (?g(t := rest))) +
       int (card {c. w \<in> set (waitQueue k c)}) = int (tally (pendingP w) (?g(t := rest)))" for w
    using sync_cond [OF k, of w] d [of "at_head (OpV (SWait w))"] d [of "pendingP w"] x l by (auto simp: sm V_value_def)
  show "sem_value (sems k' s') + int (length (sem_queue (sems k' s'))) \<le> int (tally (wants s') (?g(t := rest)))"
    if "sem_queue (sems k' s') \<noteq> []" for s'
  proof -
    have "sem_queue (sems k s') \<noteq> []" using that by (cases "s' = s") (auto simp: sm V_value_def)
    moreover have "tally (wants s') ?g \<le> tally (wants s') (?g(t := rest))" using d [of "wants s'"] x by (auto simp: wants_def)
    ultimately show ?thesis using sync_wake [OF k, of s']
      by (cases "s' = s"; cases "sem_queue (sems k s')") (auto simp: sm V_value_def)
  qed
qed

text \<open>The holder of a lock is recorded and erased.\<close>

lemma sync_holder:
  assumes k: "sync_ok k" and o: "ops_of k' = (ops_of k)(t := new)" "lockHolder k' = (lockHolder k)(l := ho)" "sems k' = sems k"
      "waitQueue k' = waitQueue k" "next_waiter k' = next_waiter k"
    and x: "ops_of k t = OpSetHolder l # rest \<and> new = rest \<and> ho = Some t \<or>
            ops_of k t = OpRelease l # rest \<and> lockHolder k l \<noteq> None \<and> ho = None \<and> new = OpV (SLock l) # rest"
  shows "sync_ok k'"
proof (rule sync_okI, unfold o)
  let ?g = "ops_of k"
  have l: "list_all (later_op (next_waiter k)) rest" using sync_ops [OF k, of t] x by auto
  have d: "tally c (?g(t := new)) + c (?g t) = tally c ?g + c new" if "c [] = 0" for c
    using sync_tally [OF k, of c t new] that by simp
  have nok: "ops_ok (next_waiter k) new" using x ops_ok_later [OF l] l by (auto simp: head_op_def)
  have g1: "at_head (OpSetHolder l) (?g t) \<le> tally (at_head (OpSetHolder l)) ?g" using tally_ge [OF sync_fin [OF k]] by simp
  show "ops_ok (next_waiter k) ((?g(t := new)) u)" for u by (rule sync_ops_upd [OF k nok])
  show "finite {u. (?g(t := new)) u \<noteq> []}" by (rule sync_fin_upd [OF k])
  show "queue_inv (waitQueue k) (next_waiter k)" by (rule sync_queue [OF k])
  show "0 \<le> sem_value (sems k s')" for s' by (rule sync_pos [OF k])
  show "sem_value (sems k (SLock l')) + int (tally (at_head (OpSetHolder l')) (?g(t := new))) +
       int (tally (at_head (OpV (SLock l'))) (?g(t := new))) + (if ((lockHolder k)(l := ho)) l' = None then 0 else 1) = 1" for l'
    using sync_lock [OF k, of l'] sync_pos [OF k, of "SLock l'"] d [of "at_head (OpSetHolder l')"] d [of "at_head (OpV (SLock l'))"] x l g1
    by (auto split: if_splits)
  show "sem_value (sems k (SWait w)) + int (tally (at_head (OpV (SWait w))) (?g(t := new))) +
       int (card {c. w \<in> set (waitQueue k c)}) = int (tally (pendingP w) (?g(t := new)))" for w
    using sync_cond [OF k, of w] d [of "at_head (OpV (SWait w))"] d [of "pendingP w"] x l by auto
  show "sem_value (sems k s') + int (length (sem_queue (sems k s'))) \<le> int (tally (wants s') (?g(t := new)))"
    if "sem_queue (sems k s') \<noteq> []" for s'
    using sync_wake [OF k that] d [of "wants s'"] x by (auto simp: wants_def)
qed

text \<open>A thread enters a condition's queue with a semaphore of its own, and is taken out by a signal.\<close>

lemma card_queue_add:
  assumes "queue_inv wq nw"
  shows "card {c'. w \<in> set ((wq(c := wq c @ [nw])) c')} = card {c'. w \<in> set (wq c')} + (if w = nw then 1 else 0)"
proof (cases "w = nw")
  case True
  then have "{c'. w \<in> set (wq c')} = {}" "{c'. w \<in> set ((wq(c := wq c @ [nw])) c')} = {c}"
    using assms by (auto simp: queue_inv_def split: if_splits)
  then show ?thesis using True by simp
next
  case False
  then have "{c'. w \<in> set ((wq(c := wq c @ [nw])) c')} = {c'. w \<in> set (wq c')}" by auto
  then show ?thesis using False by simp
qed

lemma card_queue_remove:
  assumes q: "queue_inv wq nw" and c: "wq c = v # q"
  shows "card {c'. w \<in> set ((wq(c := q)) c')} + (if w = v then 1 else 0) = card {c'. w \<in> set (wq c')}"
proof (cases "w = v")
  case True
  have "v \<notin> set q" using q c by (metis distinct.simps(2) queue_inv_def)
  then have e: "{c'. w \<in> set ((wq(c := q)) c')} = {c'. w \<in> set (wq c')} - {c}" using True by auto
  have "finite {c'. w \<in> set (wq c')}" using q by (auto simp: queue_inv_def elim!: finite_subset [rotated])
  moreover have "c \<in> {c'. w \<in> set (wq c')}" using c True by simp
  ultimately show ?thesis using True e card_Suc_Diff1 by fastforce
next
  case False
  then have "{c'. w \<in> set ((wq(c := q)) c')} = {c'. w \<in> set (wq c')}" using c by auto
  then show ?thesis using False by simp
qed

lemma queue_inv_add: "queue_inv wq nw \<Longrightarrow> queue_inv (wq(c := wq c @ [nw])) (Suc nw)"
  using finite_upd [of wq c "wq c @ [nw]"] by (auto simp: queue_inv_def less_Suc_eq)

lemma queue_inv_remove:
  assumes q: "queue_inv wq nw" and c: "wq c = v # q"
  shows "queue_inv (wq(c := q)) nw"
proof -
  have "finite {c'. (wq(c := q)) c' \<noteq> []}"
    using q finite_upd [of wq c q] by (simp add: queue_inv_def)
  moreover have "distinct (wq c)" "\<forall>w\<in>set (wq c). w < nw" using q unfolding queue_inv_def by blast+
  then have "distinct q" "\<forall>w\<in>set q. w < nw" using c by auto
  ultimately show ?thesis using q by (auto simp: queue_inv_def)
qed

lemma sync_Wait:
  assumes k: "sync_ok k" and o: "ops_of k' = (ops_of k)(t := new)" "lockHolder k' = lockHolder k"
      "waitQueue k' = (waitQueue k)(c := waitQueue k c @ [next_waiter k])" "next_waiter k' = Suc (next_waiter k)"
    and sm: "sems k' = (sems k)(SWait (next_waiter k) := \<lparr>sem_value = 0, sem_queue = []\<rparr>)"
    and x: "ops_of k t = OpWait c l # rest"
      "new = OpRelease l # OpP (SWait (next_waiter k)) # OpAcquire l # OpDelete (next_waiter k) # rest"
  shows "sync_ok k'"
proof (rule sync_okI, unfold o)
  let ?g = "ops_of k" let ?n = "next_waiter k"
  have l: "list_all (later_op ?n) rest" using sync_ops [OF k, of t] x by auto
  have d: "tally c (?g(t := new)) + c (?g t) = tally c ?g + c new" if "c [] = 0" for c
    using sync_tally [OF k, of c t new] that by simp
  have n0: "tally (pendingP ?n) ?g = 0" by (rule tally_zero) (rule pendingP_ok [OF sync_ops [OF k]], simp)
  have nok: "ops_ok (Suc ?n) new" using l x(2) list_all_later_mono [OF l, of "Suc ?n"] by (auto simp: head_op_def later_op_def)
  show "ops_ok (Suc ?n) ((?g(t := new)) u)" for u using nok ops_ok_mono [OF sync_ops [OF k, of u], of "Suc ?n"] by auto
  show "finite {u. (?g(t := new)) u \<noteq> []}" by (rule sync_fin_upd [OF k])
  show "queue_inv ((waitQueue k)(c := waitQueue k c @ [?n])) (Suc ?n)" by (rule queue_inv_add [OF sync_queue [OF k]])
  show "0 \<le> sem_value (sems k' s')" for s' using sync_pos [OF k, of s'] by (auto simp: sm)
  show "sem_value (sems k' (SLock l')) + int (tally (at_head (OpSetHolder l')) (?g(t := new))) +
       int (tally (at_head (OpV (SLock l'))) (?g(t := new))) + (if lockHolder k l' = None then 0 else 1) = 1" for l'
    using sync_lock [OF k, of l'] d [of "at_head (OpSetHolder l')"] d [of "at_head (OpV (SLock l'))"] x by (auto simp: sm)
  show "sem_value (sems k' (SWait w)) + int (tally (at_head (OpV (SWait w))) (?g(t := new))) +
       int (card {c'. w \<in> set (((waitQueue k)(c := waitQueue k c @ [?n])) c')}) = int (tally (pendingP w) (?g(t := new)))" for w
    using sync_cond [OF k, of w] sync_pos [OF k, of "SWait w"] d [of "at_head (OpV (SWait w))"] d [of "pendingP w"] x n0
    unfolding card_queue_add [OF sync_queue [OF k]] by (auto simp: sm)
  show "sem_value (sems k' s') + int (length (sem_queue (sems k' s'))) \<le> int (tally (wants s') (?g(t := new)))"
    if "sem_queue (sems k' s') \<noteq> []" for s'
    using that sync_wake [OF k, of s'] d [of "wants s'"] x by (auto simp: sm wants_def split: if_splits)
qed

lemma sync_Signal:
  assumes k: "sync_ok k" and o: "ops_of k' = (ops_of k)(t := new)" "lockHolder k' = lockHolder k" "sems k' = sems k"
      "waitQueue k' = (waitQueue k)(c := q)" "next_waiter k' = next_waiter k"
    and x: "ops_of k t = OpSignal c l # rest" "waitQueue k c = v # q" "new = OpV (SWait v) # rest"
  shows "sync_ok k'"
proof (rule sync_okI, unfold o)
  let ?g = "ops_of k"
  have l: "list_all (later_op (next_waiter k)) rest" using sync_ops [OF k, of t] x by auto
  have d: "tally c (?g(t := new)) + c (?g t) = tally c ?g + c new" if "c [] = 0" for c
    using sync_tally [OF k, of c t new] that by simp
  have "v < next_waiter k" using sync_queue [OF k] x(2) unfolding queue_inv_def by (metis list.set_intros(1))
  then have nok: "ops_ok (next_waiter k) new" using l x by (auto simp: head_op_def)
  show "ops_ok (next_waiter k) ((?g(t := new)) u)" for u by (rule sync_ops_upd [OF k nok])
  show "finite {u. (?g(t := new)) u \<noteq> []}" by (rule sync_fin_upd [OF k])
  show "queue_inv ((waitQueue k)(c := q)) (next_waiter k)" by (rule queue_inv_remove [OF sync_queue [OF k] x(2)])
  show "0 \<le> sem_value (sems k s')" for s' by (rule sync_pos [OF k])
  show "sem_value (sems k (SLock l')) + int (tally (at_head (OpSetHolder l')) (?g(t := new))) +
       int (tally (at_head (OpV (SLock l'))) (?g(t := new))) + (if lockHolder k l' = None then 0 else 1) = 1" for l'
    using sync_lock [OF k, of l'] d [of "at_head (OpSetHolder l')"] d [of "at_head (OpV (SLock l'))"] x by auto
  show "sem_value (sems k (SWait w)) + int (tally (at_head (OpV (SWait w))) (?g(t := new))) +
       int (card {c'. w \<in> set (((waitQueue k)(c := q)) c')}) = int (tally (pendingP w) (?g(t := new)))" for w
    using sync_cond [OF k, of w] d [of "at_head (OpV (SWait w))"] d [of "pendingP w"] x
      card_queue_remove [OF sync_queue [OF k] x(2), of w] by (simp del: fun_upd_apply split: if_splits)
  show "sem_value (sems k s') + int (length (sem_queue (sems k s'))) \<le> int (tally (wants s') (?g(t := new)))"
    if "sem_queue (sems k s') \<noteq> []" for s'
    using sync_wake [OF k that] d [of "wants s'"] x by (auto simp: wants_def)
qed

section \<open>The operations keep the invariant\<close>

definition running :: "kernel \<Rightarrow> Thread \<Rightarrow> bool" where
  "running k th \<longleftrightarrow> threads k (currentThread k) = Some th \<and> th_status th = RUNNING \<and> k_level k = IntOff \<and> k_idle k = None \<and>
     toBeDestroyed k = None \<and> sched_core k {currentThread k}"

definition kernel_inv :: "kernel \<Rightarrow> bool" where
  "kernel_inv k \<longleftrightarrow> sched_ok k \<and> sync_ok k \<and> begun_ok k"

lemma sched_core_queues:
  assumes c: "sched_core k X" and t: "threads k' = threads k" "readyList k' = readyList k"
    and q: "\<And>s. sem_queue (sems k' s) = sem_queue (sems k s)"
  shows "sched_core k' X"
  using c unfolding sched_core_def place_def t q .

lemma sched_core_queues_upd:
  assumes c: "sched_core k X" and th: "threads k t = Some th" "t \<in> X" and t: "threads k' = (threads k)(t \<mapsto> th')" "readyList k' = readyList k"
    and q: "\<And>s. sem_queue (sems k' s) = sem_queue (sems k s)"
  shows "sched_core k' X"
proof (rule sched_core_queues [of "k\<lparr>threads := (threads k)(t \<mapsto> th')\<rparr>"])
  show "sched_core (k\<lparr>threads := (threads k)(t \<mapsto> th')\<rparr>) X" using sched_core_upd [OF c th(1), of th'] th(2) by simp
qed (use t q in auto)

lemma stay_running:
  assumes r: "running k th" and k': "threads k' = (threads k)(currentThread k \<mapsto> th')" "th_status th' = RUNNING"
      "readyList k' = readyList k" "\<And>s. sem_queue (sems k' s) = sem_queue (sems k s)"
      "currentThread k' = currentThread k" "toBeDestroyed k' = None" "k_idle k' = None" "k_level k' = IntOff"
  shows "running k' th'"
proof -
  have r1: "sched_core k {currentThread k}" "threads k (currentThread k) = Some th" using r by (auto simp: running_def)
  have "sched_core k' {currentThread k}"
    by (rule sched_core_queues_upd [OF r1 _ k'(1,3,4)]) simp
  then show ?thesis using k' by (simp add: running_def)
qed

lemma running_sched: "running k th \<Longrightarrow> sched_ok (restore_level k)"
  by (auto simp: running_def sched_ok_def restore_level_def)

lemma sync_restore [simp]: "sync_ok (restore_level k) = sync_ok k" "sync_ok (k\<lparr>k_level := lv\<rparr>) = sync_ok k"
  by (simp_all add: sync_ok_def restore_level_def)

lemma begun_restore [simp]: "begun_ok (restore_level k) = begun_ok k" "begun_ok (k\<lparr>k_level := lv\<rparr>) = begun_ok k"
  by (simp_all add: begun_ok_def space_begun_def restore_level_def)

lemma same_user_restore [simp]: "same_user k (restore_level k') = same_user k k'" "same_user k (k'\<lparr>k_level := lv\<rparr>) = same_user k k'"
  "same_user (k\<lparr>k_level := lv\<rparr>) k' = same_user k k'"
  by (simp_all add: same_user_def restore_level_def)

lemma ops_of_current:
  "threads k' = (threads k)(t \<mapsto> th') \<Longrightarrow> ops_of k' = (ops_of k)(t := th_ops th')"
  by (auto simp: ops_of_def fun_eq_iff)

lemma same_user_upd:
  assumes "threads k t = Some th" "threads k' = (threads k)(t \<mapsto> th')" "currentThread k' = currentThread k" "k_registers k' = k_registers k"
    "th_space th' = th_space th" "userRegisters th' = userRegisters th"
  shows "same_user k k'"
  using assms by (auto simp: same_user_def uregs_def)

lemma begun_ok_upd:
  assumes "threads k t = Some th" "threads k' = (threads k)(t \<mapsto> th')" "currentThread k' = currentThread k"
    "th_space th' \<longrightarrow> th_begun th'" "th_begun th' = th_begun th" "begun_ok k"
  shows "begun_ok k'"
  using assms by (auto simp: begun_ok_def space_begun_def)

text \<open>An operation that ends with the thread's next operations in place and the thread still running.\<close>

lemma finish_op:
  assumes r: "running k th" and b: "begun_ok k"
    and k1: "threads k1 = threads k" "readyList k1 = readyList k" "\<forall>s. sem_queue (sems k1 s) = sem_queue (sems k s)"
      "currentThread k1 = currentThread k" "toBeDestroyed k1 = None" "k_idle k1 = None" "k_level k1 = IntOff" "k_registers k1 = k_registers k"
  shows "\<exists>k'. set_ops k1 ops = Inr k' \<and> running k' (th\<lparr>th_ops := ops\<rparr>) \<and> begun_ok k' \<and> same_user k k' \<and>
     ops_of k' = (ops_of k)(currentThread k := ops) \<and> sems k' = sems k1 \<and> lockHolder k' = lockHolder k1 \<and>
     waitQueue k' = waitQueue k1 \<and> next_waiter k' = next_waiter k1 \<and> currentThread k' = currentThread k"
proof -
  let ?th = "th\<lparr>th_ops := ops\<rparr>" let ?k = "k1\<lparr>threads := (threads k)(currentThread k \<mapsto> ?th)\<rparr>"
  have t: "threads k (currentThread k) = Some th" "th_status th = RUNNING" using r by (auto simp: running_def)
  have "set_ops k1 ops = Inr ?k" using t k1 by (simp add: set_ops_def upd_thread_ok)
  moreover have "running ?k ?th" by (rule stay_running [OF r]) (use t k1 in auto)
  moreover have "begun_ok ?k" using b k1 t begun_ok_upd [OF t(1), of ?k ?th] by (auto simp: begun_ok_def space_begun_def)
  moreover have "same_user k ?k" by (rule same_user_upd [OF t(1), of _ ?th]) (use k1 in auto)
  moreover have "ops_of ?k = (ops_of k)(currentThread k := ops)" using ops_of_current [of ?k k "currentThread k" ?th] by simp
  ultimately show ?thesis using k1 by auto
qed

lemma place_cong:
  assumes "u \<in> X' \<longleftrightarrow> u \<in> X" "threads k' u = threads k u" "u \<in> set (readyList k') \<longleftrightarrow> u \<in> set (readyList k)"
    "\<And>s. u \<in> set (sem_queue (sems k' s)) \<longleftrightarrow> u \<in> set (sem_queue (sems k s))"
  shows "place k' X' u = place k X u"
  unfolding place_def assms ..

lemma sched_core_pop:
  assumes c: "sched_core k X" and q: "sem_queue (sems k s) = t # ts"
  shows "sched_core (upd_sem k s (\<lambda>sm. sm\<lparr>sem_queue := ts\<rparr>)) (insert t X) \<and> t \<notin> X \<and> (\<exists>th. threads k t = Some th)"
proof -
  have p: "place k X u" for u using c by (simp add: sched_core_def)
  have d: "distinct (sem_queue (sems k s))" using c by (simp add: sched_core_def)
  have m: "t \<in> set (sem_queue (sems k s))" using q by simp
  then have t: "t \<notin> X \<and> (\<exists>th. threads k t = Some th \<and> th_status th = BLOCKED \<and> waits (th_ops th) = Some s)"
    using p [of t] by (auto simp: place_def split: option.splits if_splits)
  then obtain th where th: "t \<notin> X" "threads k t = Some th" "th_status th = BLOCKED" "waits (th_ops th) = Some s" by blast
  have n: "t \<notin> set (readyList k)" "\<And>s'. s' \<noteq> s \<Longrightarrow> t \<notin> set (sem_queue (sems k s'))"
    using p [of t] th by (auto simp: place_def)
  let ?k = "upd_sem k s (\<lambda>sm. sm\<lparr>sem_queue := ts\<rparr>)"
  have "place ?k (insert t X) u" for u
  proof (cases "u = t")
    case True
    then show ?thesis using n d q by (auto simp: place_def upd_sem_def)
  next
    case False
    then have "u \<in> set (sem_queue (sems ?k s')) \<longleftrightarrow> u \<in> set (sem_queue (sems k s'))" for s' using q by (simp add: upd_sem_def)
    then have "place ?k (insert t X) u = place k X u" using False by (intro place_cong) (auto simp: upd_sem_def)
    then show ?thesis using p by simp
  qed
  then show ?thesis using c q th d by (auto simp: sched_core_def upd_sem_def)
qed

lemma V_sem_ok:
  assumes c: "sched_core k X" and lv: "k_level k = IntOff"
  shows "\<exists>k'. V_sem k s = Inr k' \<and> sched_core k' X \<and> sems k' = (sems k)(s := V_value (sems k s)) \<and>
    ops_of k' = ops_of k \<and> lockHolder k' = lockHolder k \<and> waitQueue k' = waitQueue k \<and> next_waiter k' = next_waiter k \<and>
    currentThread k' = currentThread k \<and> toBeDestroyed k' = toBeDestroyed k \<and> k_level k' = IntOff \<and> k_idle k' = k_idle k \<and>
    k_registers k' = k_registers k \<and>
    (\<forall>u. threads k' u = threads k u \<or> u \<notin> X \<and> (\<exists>th. threads k u = Some th \<and> threads k' u = Some (th\<lparr>th_status := READY\<rparr>)))"
proof (cases "sem_queue (sems k s)")
  case Nil
  let ?k = "upd_sem k s (\<lambda>sm. sm\<lparr>sem_value := sem_value sm + 1\<rparr>)"
  have "sched_core ?k X" by (rule sched_core_queues [OF c]) (auto simp: upd_sem_def)
  moreover have "sems ?k = (sems k)(s := V_value (sems k s))" using Nil by (cases "sems k s") (simp add: upd_sem_def V_value_def)
  ultimately show ?thesis using Nil lv by (auto simp: V_sem_def upd_sem_def)
next
  case (Cons t ts)
  let ?k1 = "upd_sem k s (\<lambda>sm. sm\<lparr>sem_queue := ts\<rparr>)"
  obtain th where th: "sched_core ?k1 (insert t X)" "t \<notin> X" "threads k t = Some th" using sched_core_pop [OF c Cons] by blast
  then obtain k2 where k2: "ReadyToRun ?k1 t = Inr k2" "sched_core k2 X" "same_sync ?k1 k2" "threads k2 = (threads k)(t \<mapsto> th\<lparr>th_status := READY\<rparr>)"
    "currentThread k2 = currentThread k" "toBeDestroyed k2 = toBeDestroyed k" "k_level k2 = IntOff" "k_idle k2 = k_idle k"
    "k_registers k2 = k_registers k"
    using ReadyToRun_ok [OF th(1,2), of th] lv by (auto simp: upd_sem_def)
  let ?k = "upd_sem k2 s (\<lambda>sm. sm\<lparr>sem_value := sem_value sm + 1\<rparr>)"
  have "sched_core ?k X" by (rule sched_core_queues [OF k2(2)]) (auto simp: upd_sem_def)
  moreover have "sems ?k = (sems k)(s := V_value (sems k s))"
    using k2(3) Cons by (cases "sems k s") (auto simp: upd_sem_def V_value_def same_sync_def)
  moreover have "V_sem k s = Inr ?k" using Cons k2(1) by (simp add: V_sem_def seq_remove_front_def)
  moreover have "ops_of ?k = ops_of k" using k2(3) by (simp add: same_sync_def upd_sem_def)
  ultimately show ?thesis using k2 th by (auto simp: upd_sem_def same_sync_def)
qed

lemma V_sem_user:
  assumes "\<forall>u. threads k' u = threads k u \<or> u \<notin> X \<and> (\<exists>th. threads k u = Some th \<and> threads k' u = Some (th\<lparr>th_status := READY\<rparr>))"
    and "currentThread k' = currentThread k" "k_registers k' = k_registers k" "begun_ok k"
  shows "begun_ok k' \<and> same_user k k'"
proof -
  have s: "\<exists>y. threads k' u = Some y \<and> th_space y = th_space x \<and> th_begun y = th_begun x \<and> userRegisters y = userRegisters x"
    if "threads k u = Some x" for u x
    using assms(1) [rule_format, of u] that by auto
  have n: "threads k u = None \<Longrightarrow> threads k' u = None" for u using assms(1) [rule_format, of u] by auto
  have "uregs k' u = uregs k u" for u
    using s [of u] n [of u] assms(2,3) by (cases "threads k u") (auto simp: uregs_def)
  moreover have "th_space y \<longrightarrow> th_begun y" if "threads k' u = Some y" for u y
    using s [of u] n [of u] that assms(4) by (cases "threads k u") (auto simp: begun_ok_def space_begun_def)
  moreover have "\<exists>y. threads k' (currentThread k) = Some y \<and> th_begun y"
    using assms(4) s [of "currentThread k"] by (auto simp: begun_ok_def)
  ultimately show ?thesis using assms(2) by (auto simp: same_user_def begun_ok_def space_begun_def)
qed

lemma P_round_ok:
  assumes r: "running k th" and i: "sync_ok k" "begun_ok k" and x: "th_ops th = x # rest" "waits (x # rest) = Some s"
    and new: "x = OpP s \<and> new = rest \<or> (\<exists>l. x = OpAcquire l \<and> new = OpSetHolder l # rest)"
  shows "\<exists>k'. P_round k s new = Inr k' \<and> kernel_inv (restore_level k') \<and> same_user k k'"
proof (cases "sem_value (sems k s) = 0")
  case False
  let ?k1 = "upd_sem k s (\<lambda>sm. sm\<lparr>sem_value := sem_value sm - 1\<rparr>)"
  have q: "\<forall>s'. sem_queue (sems ?k1 s') = sem_queue (sems k s')" by (simp add: upd_sem_def)
  obtain k' where k': "set_ops ?k1 new = Inr k'" "running k' (th\<lparr>th_ops := new\<rparr>)" "begun_ok k'" "same_user k k'"
     "ops_of k' = (ops_of k)(currentThread k := new)" "sems k' = sems ?k1" "lockHolder k' = lockHolder k"
     "waitQueue k' = waitQueue k" "next_waiter k' = next_waiter k"
    using finish_op [OF r i(2) _ _ q, of new] r by (auto simp: upd_sem_def running_def)
  have "ops_of k (currentThread k) = x # rest" using r x by (simp add: running_def ops_of_def)
  then have "sync_ok k'"
    using sync_P_take [OF i(1) k'(5,7,8,9) _ False _ x(2) new] k'(6) by (simp add: upd_sem_def)
  then show ?thesis using k' False running_sched [OF k'(2)] by (simp add: P_round_def kernel_inv_def)
next
  case True
  let ?c = "currentThread k"
  have t: "threads k ?c = Some th" "k_level k = IntOff" "toBeDestroyed k = None" "sched_core k {?c}"
    using r by (auto simp: running_def)
  have p: "place k {?c} u" for u using t(4) by (simp add: sched_core_def)
  have n: "?c \<notin> set (readyList k)" "\<And>s'. ?c \<notin> set (sem_queue (sems k s'))" using p [of ?c] by (auto simp: place_def)
  let ?q = "sem_queue (sems k s) @ [?c]"
  let ?k1 = "upd_sem k s (\<lambda>sm. sm\<lparr>sem_queue := ?q\<rparr>)"
  let ?k2 = "?k1\<lparr>threads := (threads k)(?c \<mapsto> th\<lparr>th_status := BLOCKED\<rparr>)\<rparr>"
  have "place ?k2 {} u" for u
  proof (cases "u = ?c")
    case False
    then have "place ?k2 {} u = place k {?c} u" by (intro place_cong) (auto simp: upd_sem_def)
    then show ?thesis using p by simp
  qed (use n x in \<open>auto simp: place_def upd_sem_def\<close>)
  then have "sched_core ?k2 {}" using t(4) n by (auto simp: sched_core_def upd_sem_def)
  then obtain k' where k': "Sleep ?k1 False = Inr k'" "settled ?k1 k'"
    using Sleep_ok [of ?k1 th False] t by (auto simp: upd_sem_def)
  have g: "waits (ops_of k u) = Some s" if "u \<in> set ?q" for u
  proof (cases "u = ?c")
    case False
    then show ?thesis using p [of u] that by (auto simp: place_def ops_of_def split: option.splits if_splits)
  qed (use t x in \<open>simp add: ops_of_def\<close>)
  have "distinct ?q" using t(4) n by (simp add: sched_core_def)
  then have "sync_ok ?k1" using sync_P_block [OF i(1), of ?k1 s ?q] g True by (auto simp: upd_sem_def)
  then have "sync_ok k'" using k'(2) sync_ok_same [of ?k1 k'] by (simp add: settled_def)
  moreover have "begun_ok ?k1" "same_user k ?k1" "same_user ?k1 k' \<Longrightarrow> same_user k k'"
    using i(2) by (auto simp: begun_ok_def space_begun_def same_user_def uregs_def upd_sem_def)
  moreover have "P_round k s new = Inr k'" using True n k'(1) by (simp add: P_round_def seq_append_def)
  ultimately show ?thesis using k'(2) by (auto simp: kernel_inv_def settled_def)
qed

lemma Fork_ok:
  assumes r: "running k th" and i: "begun_ok k" and t: "threads k t = None"
  shows "\<exists>k'. Fork k t prog = Inr k' \<and> running k' th \<and> begun_ok k' \<and> same_user k k' \<and> ops_of k' = (ops_of k)(t := prog) \<and>
    sems k' = sems k \<and> lockHolder k' = lockHolder k \<and> waitQueue k' = waitQueue k \<and> next_waiter k' = next_waiter k \<and>
    currentThread k' = currentThread k"
proof -
  let ?c = "currentThread k"
  let ?th = "\<lparr>th_status = JUST_CREATED, th_ops = prog, th_space = False, th_begun = False, userRegisters = replicate NumTotalRegs 0\<rparr>"
  let ?k = "k\<lparr>threads := (threads k)(t \<mapsto> ?th)\<rparr>"
  have c: "threads k ?c = Some th" "sched_core k {?c}" "k_level k = IntOff" using r by (auto simp: running_def)
  then have tc: "t \<noteq> ?c" using t by auto
  have "place ?k {t, ?c} u" for u
  proof (cases "u = t")
    case True
    then show ?thesis using c(2) tc t unfolding sched_core_def by (auto simp: place_def dest!: spec [of _ t])
  next
    case False
    then have "place ?k {t, ?c} u = place k {?c} u" by (intro place_cong) auto
    then show ?thesis using c(2) by (simp add: sched_core_def)
  qed
  then have "sched_core ?k {t, ?c}" using c(2) by (simp add: sched_core_def)
  then obtain k' where k': "ReadyToRun ?k t = Inr k'" "sched_core k' {?c}" "same_sync ?k k'"
    "threads k' = (threads k)(t \<mapsto> ?th\<lparr>th_status := READY\<rparr>)" "currentThread k' = ?c" "toBeDestroyed k' = toBeDestroyed k"
    "k_level k' = IntOff" "k_idle k' = k_idle k" "k_registers k' = k_registers k"
    using ReadyToRun_ok [of ?k t "{?c}" ?th] tc c by auto
  have "Fork k t prog = Inr k'" using t k'(1) by (simp add: Fork_def)
  moreover have "running k' th" using r k' tc by (auto simp: running_def)
  moreover have "begun_ok k'" using i k' tc by (auto simp: begun_ok_def space_begun_def)
  moreover have "same_user k k'" using k' t by (auto simp: same_user_def uregs_def)
  moreover have "ops_of k' = (ops_of k)(t := prog)" using ops_of_current [OF k'(4)] by simp
  ultimately show ?thesis using k'(3,5) by (auto simp: same_sync_def)
qed

text \<open>The rules a caller has to keep: only the holder of the lock may release, wait or signal; a new thread is new.\<close>

definition misuse :: "kernel \<Rightarrow> bool" where
  "misuse k \<longleftrightarrow> (case ops_of k (currentThread k) of
      OpRelease l # rest \<Rightarrow> lockHolder k l \<noteq> Some (currentThread k)
    | OpWait c l # rest \<Rightarrow> lockHolder k l \<noteq> Some (currentThread k)
    | OpSignal c l # rest \<Rightarrow> lockHolder k l \<noteq> Some (currentThread k)
    | OpFork t prog # rest \<Rightarrow> threads k t \<noteq> None
    | _ \<Rightarrow> False)"

lemma finish_inv:
  assumes r: "running k th" and b: "begun_ok k"
    and k1: "threads k1 = threads k" "readyList k1 = readyList k" "\<forall>s. sem_queue (sems k1 s) = sem_queue (sems k s)"
      "currentThread k1 = currentThread k" "toBeDestroyed k1 = None" "k_idle k1 = None" "k_level k1 = IntOff" "k_registers k1 = k_registers k"
    and s: "\<And>k'. ops_of k' = (ops_of k)(currentThread k := ops) \<Longrightarrow> lockHolder k' = lockHolder k1 \<Longrightarrow> sems k' = sems k1 \<Longrightarrow>
      waitQueue k' = waitQueue k1 \<Longrightarrow> next_waiter k' = next_waiter k1 \<Longrightarrow> sync_ok k'"
  shows "\<exists>k'. set_ops k1 ops = Inr k' \<and> kernel_inv (restore_level k') \<and> same_user k k'"
proof -
  obtain k' where k': "set_ops k1 ops = Inr k'" "running k' (th\<lparr>th_ops := ops\<rparr>)" "begun_ok k'" "same_user k k'"
     "ops_of k' = (ops_of k)(currentThread k := ops)" "sems k' = sems k1" "lockHolder k' = lockHolder k1"
     "waitQueue k' = waitQueue k1" "next_waiter k' = next_waiter k1"
    using finish_op [OF r b k1, of ops] by blast
  then show ?thesis using s [OF k'(5,7,6,8,9)] running_sched [OF k'(2)] by (auto simp: kernel_inv_def)
qed

lemma neutral_later:
  assumes "list_all (later_op n) rest" "waits (x # rest) = None" "\<And>l. x \<noteq> OpSetHolder l" "\<And>s. x = OpV s \<Longrightarrow> \<exists>n. s = SUser n"
  shows "neutral (x # rest) rest"
  using assms later_not [of n] unfolding neutral_def
  by (auto simp: at_head_def split: list.splits) (metis semid.exhaust)

lemma cur_ops: "running k th \<Longrightarrow> ops_of k (currentThread k) = th_ops th"
  by (simp add: running_def ops_of_def)

lemma cur_later:
  assumes "running k th" "sync_ok k" "th_ops th = x # rest"
  shows "list_all (later_op (next_waiter k)) rest" "head_op (next_waiter k) x" "ops_ok (next_waiter k) rest"
  using sync_ops [OF assms(2), of "currentThread k"] cur_ops [OF assms(1)] assms(3) ops_ok_later [of "next_waiter k" rest] by auto

lemma skip_ok:
  assumes r: "running k th" and i: "sync_ok k" "begun_ok k" and x: "th_ops th = x # rest"
    and n: "neutral (x # rest) new" "ops_ok (next_waiter k) new"
  shows "\<exists>k'. set_ops k new = Inr k' \<and> kernel_inv (restore_level k') \<and> same_user k k'"
proof (rule finish_inv [OF r i(2)])
  show "sync_ok k'" if "ops_of k' = (ops_of k)(currentThread k := new)" "lockHolder k' = lockHolder k" "sems k' = sems k"
    "waitQueue k' = waitQueue k" "next_waiter k' = next_waiter k" for k'
    using sync_neutral [OF i(1) that(1,3,2,4,5)] n x cur_ops [OF r] by simp
qed (use r in \<open>auto simp: running_def\<close>)

lemma exec_V_ok:
  assumes r: "running k th" and i: "sync_ok k" "begun_ok k" and x: "th_ops th = OpV s # rest"
  shows "\<exists>k'. exec_op k (OpV s) rest = Inr k' \<and> kernel_inv (restore_level k') \<and> same_user k k'"
proof -
  let ?c = "currentThread k"
  have c: "sched_core k {?c}" "k_level k = IntOff" using r by (auto simp: running_def)
  obtain k1 where k1: "V_sem k s = Inr k1" "sched_core k1 {?c}" "sems k1 = (sems k)(s := V_value (sems k s))"
    "ops_of k1 = ops_of k" "lockHolder k1 = lockHolder k" "waitQueue k1 = waitQueue k" "next_waiter k1 = next_waiter k"
    "currentThread k1 = ?c" "toBeDestroyed k1 = toBeDestroyed k" "k_level k1 = IntOff" "k_idle k1 = k_idle k" "k_registers k1 = k_registers k"
    and u: "\<forall>u. threads k1 u = threads k u \<or> u \<notin> {?c} \<and> (\<exists>th. threads k u = Some th \<and> threads k1 u = Some (th\<lparr>th_status := READY\<rparr>))"
    using V_sem_ok [OF c, of s] by (elim exE conjE) (rule that)
  have "threads k1 ?c = Some th" using u [rule_format, of ?c] r by (auto simp: running_def)
  then have r1: "running k1 th" using r k1 by (simp add: running_def)
  have b: "begun_ok k1 \<and> same_user k k1" using V_sem_user [OF u k1(8,12) i(2)] .
  have "\<exists>k'. set_ops k1 rest = Inr k' \<and> kernel_inv (restore_level k') \<and> same_user k1 k'"
  proof (rule finish_inv [OF r1])
    show "sync_ok k'" if "ops_of k' = (ops_of k1)(currentThread k1 := rest)" "lockHolder k' = lockHolder k1" "sems k' = sems k1"
      "waitQueue k' = waitQueue k1" "next_waiter k' = next_waiter k1" for k'
      using sync_V [OF i(1), of k' ?c rest s] that k1 cur_ops [OF r] x by simp
  qed (use r1 b in \<open>auto simp: running_def\<close>)
  then obtain k' where k': "set_ops k1 rest = Inr k'" "kernel_inv (restore_level k')" "same_user k1 k'" by blast
  have "threads k1 u \<noteq> None \<longleftrightarrow> threads k u \<noteq> None" for u
    using u [rule_format, of u] by (elim disjE) (simp, force)
  then have "same_user k k'" using b k'(3) by (auto simp: same_user_def)
  then show ?thesis using k1(1) k' by auto
qed

lemma exec_Yield_ok:
  assumes r: "running k th" and i: "sync_ok k" "begun_ok k" and x: "th_ops th = OpYield # rest"
  shows "\<exists>k'. exec_op k OpYield rest = Inr k' \<and> kernel_inv (restore_level k') \<and> same_user k k'"
proof -
  have n: "neutral (OpYield # rest) rest" by (rule neutral_later [OF cur_later(1) [OF r i(1) x]]) auto
  let ?c = "currentThread k" let ?th = "th\<lparr>th_ops := rest\<rparr>" let ?k = "k\<lparr>threads := (threads k)(?c \<mapsto> ?th)\<rparr>"
  have t: "threads k ?c = Some th" "th_status th = RUNNING" "k_level k = IntOff" "toBeDestroyed k = None" "k_idle k = None"
    using r by (auto simp: running_def)
  have e: "set_ops k rest = Inr ?k" using t by (simp add: set_ops_def upd_thread_ok)
  obtain k1 where k1: "set_ops k rest = Inr k1" "kernel_inv (restore_level k1)" "same_user k k1"
    using skip_ok [OF r i x n cur_later(3) [OF r i(1) x]] by blast
  have "running ?k ?th" by (rule stay_running [OF r]) (use t in auto)
  then obtain k' where k': "Yield ?k = Inr k'" "settled ?k k'" using Yield_ok [of ?k ?th] by (auto simp: running_def)
  have "sync_ok ?k" "begun_ok ?k" "same_user k ?k" using k1 e by (auto simp: kernel_inv_def)
  then have "sync_ok k'" "begun_ok k'" "same_user k k'"
    using k'(2) sync_ok_same [of ?k k'] same_user_trans [of k ?k k'] by (auto simp: settled_def)
  then show ?thesis using k' e by (auto simp: kernel_inv_def settled_def)
qed

lemma exec_Fork_ok:
  assumes r: "running k th" and i: "sync_ok k" "begun_ok k" and x: "th_ops th = OpFork t prog # rest" and t: "threads k t = None"
  shows "\<exists>k'. exec_op k (OpFork t prog) rest = Inr k' \<and> kernel_inv (restore_level k') \<and> same_user k k'"
proof -
  obtain k1 where k1: "Fork k t prog = Inr k1" "running k1 th" "begun_ok k1" "same_user k k1" "ops_of k1 = (ops_of k)(t := prog)"
    "sems k1 = sems k" "lockHolder k1 = lockHolder k" "waitQueue k1 = waitQueue k" "next_waiter k1 = next_waiter k"
    "currentThread k1 = currentThread k"
    using Fork_ok [OF r i(2) t, of prog] by blast
  have p: "list_all plain_op prog" using cur_later(2) [OF r i(1) x] by (auto simp: head_op_def later_op_def)
  have l: "list_all (later_op (next_waiter k)) prog" using plain_later [OF p] by simp
  have "neutral [] prog" using l p by (auto simp: neutral_def pendingP_plain) (metis at_head_later(2,3) semid.exhaust)
  moreover have "ops_of k t = []" using t by (simp add: ops_of_def)
  ultimately have s1: "sync_ok k1" using sync_neutral [OF i(1) k1(5,6,7,8,9)] ops_ok_later [OF l] by simp
  have n: "neutral (OpFork t prog # rest) rest" by (rule neutral_later [OF cur_later(1) [OF r i(1) x]]) auto
  obtain k' where k': "set_ops k1 rest = Inr k'" "kernel_inv (restore_level k')" "same_user k1 k'"
    using skip_ok [OF k1(2) s1 k1(3) x n] cur_later(3) [OF r i(1) x] k1(9) by auto
  have u: "threads k u \<noteq> None \<Longrightarrow> threads k1 u \<noteq> None" for u
  proof -
    assume "threads k u \<noteq> None"
    then show ?thesis using k1(1) t by (auto simp: Fork_def ReadyToRun_def setStatus_def upd_thread_def the_thread_def seq_append_def
      rbind_eq_Inr split: if_splits)
  qed
  have "same_user k k'" using k1(4) k'(3) u by (auto simp: same_user_def)
  then show ?thesis using k1(1) k' by auto
qed

lemma exec_lock_ok:
  assumes r: "running k th" and i: "sync_ok k" "begun_ok k"
    and x: "th_ops th = OpSetHolder l # rest \<and> new = rest \<and> ho = Some (currentThread k) \<or>
            th_ops th = OpRelease l # rest \<and> lockHolder k l \<noteq> None \<and> ho = None \<and> new = OpV (SLock l) # rest"
  shows "\<exists>k'. set_ops (k\<lparr>lockHolder := (lockHolder k)(l := ho)\<rparr>) new = Inr k' \<and> kernel_inv (restore_level k') \<and> same_user k k'"
proof (rule finish_inv [OF r i(2)])
  let ?k = "k\<lparr>lockHolder := (lockHolder k)(l := ho)\<rparr>"
  show "sync_ok k'" if "ops_of k' = (ops_of k)(currentThread k := new)" "lockHolder k' = lockHolder ?k" "sems k' = sems ?k"
      "waitQueue k' = waitQueue ?k" "next_waiter k' = next_waiter ?k" for k'
    using sync_holder [OF i(1), of k' "currentThread k" new l ho rest] that x cur_ops [OF r] by simp
qed (use r in \<open>auto simp: running_def\<close>)

lemma swait_fresh:
  assumes r: "running k th" and i: "sync_ok k"
  shows "sem_queue (sems k (SWait (next_waiter k))) = []"
proof (rule ccontr)
  let ?n = "next_waiter k"
  assume "sem_queue (sems k (SWait ?n)) \<noteq> []"
  then obtain t where t: "t \<in> set (sem_queue (sems k (SWait ?n)))" using last_in_set by blast
  have "place k {currentThread k} t" using r by (simp add: running_def sched_core_def)
  then have "waits (ops_of k t) = Some (SWait ?n)"
    using t by (auto simp: place_def ops_of_def split: option.splits if_splits)
  then obtain rest where "ops_of k t = OpP (SWait ?n) # rest" by (cases "ops_of k t" rule: waits.cases) auto
  then show False using sync_ops [OF i, of t] by (auto simp: head_op_def later_op_def)
qed

lemma exec_Wait_ok:
  assumes r: "running k th" and i: "sync_ok k" "begun_ok k" and x: "th_ops th = OpWait c l # rest"
    and h: "lockHolder k l = Some (currentThread k)"
  shows "\<exists>k'. exec_op k (OpWait c l) rest = Inr k' \<and> kernel_inv (restore_level k') \<and> same_user k k'"
proof -
  let ?n = "next_waiter k" let ?wq = "(waitQueue k)(c := waitQueue k c @ [?n])"
  let ?sm = "(sems k)(SWait ?n := \<lparr>sem_value = 0, sem_queue = []\<rparr>)"
  let ?k = "k\<lparr>sems := ?sm, next_waiter := Suc ?n, waitQueue := ?wq\<rparr>"
  let ?new = "OpRelease l # OpP (SWait ?n) # OpAcquire l # OpDelete ?n # rest"
  have f: "?n \<notin> set (waitQueue k c)" using sync_queue [OF i(1)] unfolding queue_inv_def by blast
  have e: "exec_op k (OpWait c l) rest = set_ops ?k ?new"
    using h f by (simp add: Wait_cond_def IsHeldByCurrentThread_def upd_sem_def Let_def seq_append_def)
  have "\<exists>k'. set_ops ?k ?new = Inr k' \<and> kernel_inv (restore_level k') \<and> same_user k k'"
  proof (rule finish_inv [OF r i(2)])
    show "sync_ok k'" if "ops_of k' = (ops_of k)(currentThread k := ?new)" "lockHolder k' = lockHolder ?k" "sems k' = sems ?k"
        "waitQueue k' = waitQueue ?k" "next_waiter k' = next_waiter ?k" for k'
      using sync_Wait [OF i(1), of k' "currentThread k" ?new c l rest] that cur_ops [OF r] x by simp
    show "\<forall>s. sem_queue (sems ?k s) = sem_queue (sems k s)" using swait_fresh [OF r i(1)] by simp
  qed (use r in \<open>auto simp: running_def\<close>)
  then show ?thesis using e by simp
qed

lemma exec_Signal_ok:
  assumes r: "running k th" and i: "sync_ok k" "begun_ok k" and x: "th_ops th = OpSignal c l # rest"
    and h: "lockHolder k l = Some (currentThread k)"
  shows "\<exists>k'. exec_op k (OpSignal c l) rest = Inr k' \<and> kernel_inv (restore_level k') \<and> same_user k k'"
proof (cases "waitQueue k c")
  case Nil
  have "neutral (OpSignal c l # rest) rest" by (rule neutral_later [OF cur_later(1) [OF r i(1) x]]) auto
  then show ?thesis using skip_ok [OF r i x _ cur_later(3) [OF r i(1) x]] Nil h
    by (simp add: Signal_cond_def IsHeldByCurrentThread_def)
next
  case (Cons w q)
  let ?k = "k\<lparr>waitQueue := (waitQueue k)(c := q)\<rparr>" let ?new = "OpV (SWait w) # rest"
  have "\<exists>k'. set_ops ?k ?new = Inr k' \<and> kernel_inv (restore_level k') \<and> same_user k k'"
  proof (rule finish_inv [OF r i(2)])
    show "sync_ok k'" if "ops_of k' = (ops_of k)(currentThread k := ?new)" "lockHolder k' = lockHolder ?k" "sems k' = sems ?k"
        "waitQueue k' = waitQueue ?k" "next_waiter k' = next_waiter ?k" for k'
      using sync_Signal [OF i(1), of k' "currentThread k" ?new c q l rest w] that cur_ops [OF r] x Cons by simp
  qed (use r in \<open>auto simp: running_def\<close>)
  then show ?thesis using Cons h by (simp add: Signal_cond_def IsHeldByCurrentThread_def seq_remove_front_def)
qed

lemma exec_Broadcast_ok:
  assumes r: "running k th" and i: "sync_ok k" "begun_ok k" and x: "th_ops th = OpBroadcast c l # rest"
  shows "\<exists>k'. exec_op k (OpBroadcast c l) rest = Inr k' \<and> kernel_inv (restore_level k') \<and> same_user k k'"
proof -
  note l = cur_later [OF r i(1) x]
  have n: "neutral (OpBroadcast c l # rest) rest" by (rule neutral_later [OF l(1)]) auto
  moreover have "neutral (OpBroadcast c l # rest) (OpSignal c l # OpBroadcast c l # rest)" using n by (simp add: neutral_def)
  ultimately show ?thesis
    using skip_ok [OF r i x, of rest] skip_ok [OF r i x, of "OpSignal c l # OpBroadcast c l # rest"] l
    by (auto simp: Broadcast_cond_def head_op_def later_op_def)
qed

lemma exec_User_ok:
  assumes r: "running k th" and i: "sync_ok k" "begun_ok k" and x: "th_ops th = OpUser rs # rest"
  shows "\<exists>k'. exec_op k (OpUser rs) rest = Inr k' \<and> kernel_inv (restore_level k') \<and> uregs k' (currentThread k) = Some rs \<and>
    (\<forall>u. u \<noteq> currentThread k \<longrightarrow> uregs k' u = uregs k u)"
proof -
  let ?c = "currentThread k" let ?th = "th\<lparr>th_space := True, th_ops := rest\<rparr>"
  let ?k = "k\<lparr>k_registers := rs, threads := (threads k)(?c \<mapsto> ?th)\<rparr>"
  have t: "threads k ?c = Some th" "th_status th = RUNNING" "k_level k = IntOff" "toBeDestroyed k = None" "k_idle k = None"
    using r by (auto simp: running_def)
  have e: "exec_op k (OpUser rs) rest = Inr ?k" using t by (simp add: upd_thread_ok)
  have "running ?k ?th" by (rule stay_running [OF r]) (use t in auto)
  moreover have "begun_ok ?k" using i(2) t by (auto simp: begun_ok_def space_begun_def)
  moreover have "ops_of ?k = (ops_of k)(?c := rest)" using ops_of_current [of ?k k ?c ?th] by simp
  moreover have "neutral (ops_of k ?c) rest" unfolding cur_ops [OF r] x by (rule neutral_later [OF cur_later(1) [OF r i(1) x]]) auto
  ultimately have "kernel_inv (restore_level ?k)"
    using sync_neutral [OF i(1), of ?k ?c rest] cur_later(3) [OF r i(1) x] running_sched [of ?k ?th] by (simp add: kernel_inv_def)
  moreover have "uregs ?k ?c = Some rs" "\<forall>u. u \<noteq> ?c \<longrightarrow> uregs ?k u = uregs k u" by (auto simp: uregs_def split: option.splits)
  ultimately show ?thesis using e by auto
qed

definition is_user :: "op \<Rightarrow> bool" where
  "is_user x \<longleftrightarrow> (case x of OpUser rs \<Rightarrow> True | _ \<Rightarrow> False)"

lemma exec_op_ok:
  assumes r: "running k th" and i: "sync_ok k" "begun_ok k" and x: "th_ops th = x # rest" and m: "\<not> misuse k"
  shows "\<exists>k'. exec_op k x rest = Inr k' \<and> kernel_inv (restore_level k') \<and> (\<not> is_user x \<longrightarrow> same_user k k') \<and>
    (is_user x \<longrightarrow> (\<forall>u. u \<noteq> currentThread k \<longrightarrow> uregs k' u = uregs k u))"
proof (cases x)
  case (OpP s) then show ?thesis using P_round_ok [OF r i x, of s rest] by (auto simp: is_user_def)
next
  case (OpV s) then show ?thesis using exec_V_ok [OF r i] x by (auto simp: is_user_def)
next
  case (OpAcquire l) then show ?thesis using P_round_ok [OF r i x, of "SLock l" "OpSetHolder l # rest"] by (auto simp: is_user_def)
next
  case (OpSetHolder l)
  then show ?thesis using exec_lock_ok [OF r i, of l rest rest "Some (currentThread k)"] x by (auto simp: is_user_def)
next
  case (OpRelease l)
  then have "lockHolder k l = Some (currentThread k)" using m cur_ops [OF r] x by (simp add: misuse_def)
  then show ?thesis using exec_lock_ok [OF r i, of l rest "OpV (SLock l) # rest" None] x OpRelease
    by (auto simp: Release_lock_def IsHeldByCurrentThread_def is_user_def)
next
  case (OpWait c l)
  then show ?thesis using exec_Wait_ok [OF r i, of c l rest] x m cur_ops [OF r] by (auto simp: misuse_def is_user_def)
next
  case (OpDelete w)
  have "neutral (OpDelete w # rest) rest" by (rule neutral_later [OF cur_later(1) [OF r i(1) x]]) auto
  then show ?thesis using skip_ok [OF r i x _ cur_later(3) [OF r i(1) x]] OpDelete by (auto simp: is_user_def)
next
  case (OpSignal c l)
  then show ?thesis using exec_Signal_ok [OF r i, of c l rest] x m cur_ops [OF r] by (auto simp: misuse_def is_user_def)
next
  case (OpBroadcast c l) then show ?thesis using exec_Broadcast_ok [OF r i, of c l rest] x by (auto simp: is_user_def)
next
  case OpYield then show ?thesis using exec_Yield_ok [OF r i, of rest] x by (auto simp: is_user_def)
next
  case (OpFork t prog)
  then show ?thesis using exec_Fork_ok [OF r i, of t prog rest] x m cur_ops [OF r] by (auto simp: misuse_def is_user_def)
next
  case (OpUser rs) then show ?thesis using exec_User_ok [OF r i, of rs rest] x by (auto simp: is_user_def)
qed

lemma exec_op_misuse:
  assumes r: "running k th" and x: "th_ops th = x # rest" and m: "misuse k"
  shows "exec_op k x rest = Inl AssertFailed"
  using m x unfolding misuse_def cur_ops [OF r]
  by (auto simp: Release_lock_def Wait_cond_def Signal_cond_def Fork_def IsHeldByCurrentThread_def rassert_def split: op.splits)

lemma inv_running:
  assumes "kernel_inv k" "k_idle k = None"
  obtains th where "running (k\<lparr>k_level := IntOff\<rparr>) th" "threads k (currentThread k) = Some th"
  using assms by (auto simp: kernel_inv_def sched_ok_def running_def)

lemma misuse_level [simp]: "misuse (k\<lparr>k_level := lv\<rparr>) = misuse k"
  by (simp add: misuse_def cong: list.case_cong op.case_cong)

lemma Finish_ok:
  assumes r: "running k th" and i: "sync_ok k" "begun_ok k" and x: "th_ops th = []"
  shows "\<exists>k'. Finish k = Inr k' \<and> kernel_inv (restore_level k') \<and> same_user k k'"
proof -
  obtain k' where k': "Sleep k True = Inr k'" "settled k k'" using Sleep_ok [of k th True] r x by (auto simp: running_def)
  then show ?thesis using i sync_ok_same [of k k'] by (auto simp: Finish_def kernel_inv_def settled_def)
qed

text \<open>
  One operation of the running thread succeeds and keeps the invariant, or fails an assertion because its
  caller broke a rule.
\<close>

lemma run_current_ok:
  assumes i: "kernel_inv k" and n: "k_idle k = None"
  shows "if misuse k then run_current k = Inl AssertFailed
    else \<exists>k'. run_current k = Inr k' \<and> kernel_inv k' \<and>
      (\<forall>u. threads k u \<noteq> None \<longrightarrow> threads k' u \<noteq> None \<longrightarrow>
        u \<noteq> currentThread k \<or> \<not> list_ex is_user (take 1 (ops_of k (currentThread k))) \<longrightarrow> uregs k' u = uregs k u)"
proof -
  obtain th where r: "running (k\<lparr>k_level := IntOff\<rparr>) th" and t: "threads k (currentThread k) = Some th"
    by (rule inv_running [OF i n])
  have o: "ops_of k (currentThread k) = th_ops th" using t by (simp add: ops_of_def)
  have s: "sync_ok (k\<lparr>k_level := IntOff\<rparr>)" "begun_ok (k\<lparr>k_level := IntOff\<rparr>)" using i by (auto simp: kernel_inv_def)
  show ?thesis
  proof (cases "th_ops th")
    case Nil
    have "\<not> misuse k" by (simp add: misuse_def o Nil)
    then show ?thesis using Finish_ok [OF r s Nil] t Nil o
      by (auto simp: run_current_def the_thread_def restore_level_def same_user_def)
  next
    case (Cons x rest)
    show ?thesis
    proof (cases "misuse k")
      case True
      then show ?thesis using exec_op_misuse [OF r Cons] t Cons by (simp add: run_current_def the_thread_def)
    next
      case False
      then obtain k' where k': "exec_op (k\<lparr>k_level := IntOff\<rparr>) x rest = Inr k'" "kernel_inv (restore_level k')"
          "\<not> is_user x \<longrightarrow> same_user k k'" "is_user x \<longrightarrow> (\<forall>u. u \<noteq> currentThread k \<longrightarrow> uregs k' u = uregs k u)"
        using exec_op_ok [OF r s Cons] by auto
      then show ?thesis using False t Cons o
        by (cases "is_user x") (auto simp: run_current_def the_thread_def restore_level_def same_user_def)
    qed
  qed
qed

lemma slice_ok:
  assumes i: "kernel_inv k" and n: "k_idle k = None"
  shows "\<exists>k'. Yield (k\<lparr>k_level := IntOff\<rparr>) = Inr k' \<and> kernel_inv (k'\<lparr>k_level := IntOn\<rparr>) \<and> same_user k k'"
proof -
  let ?k = "k\<lparr>k_level := IntOff\<rparr>"
  obtain th where r: "running ?k th" by (rule inv_running [OF i n])
  then obtain k' where k': "Yield ?k = Inr k'" "settled ?k k'" "k_idle k' = None"
    using Yield_ok [of ?k th] unfolding running_def by blast
  then show ?thesis using i sync_ok_same [of ?k k'] by (auto simp: kernel_inv_def settled_def restore_level_def)
qed

lemma idle_ok:
  assumes i: "kernel_inv k" and n: "k_idle k = Some f"
  shows "\<exists>k'. Sleep_continue k f = Inr k' \<and> kernel_inv (restore_level k') \<and> same_user k k'"
proof -
  obtain th where t: "threads k (currentThread k) = Some th" "k_level k = IntOff" "toBeDestroyed k = None"
    "if f then sched_core k {currentThread k} \<and> th_ops th = [] \<and> th_status th = BLOCKED else sched_core k {}"
    using i n by (auto simp: kernel_inv_def sched_ok_def split: bool.splits)
  obtain k' where k': "Sleep_continue k f = Inr k'" "settled k k'" using Sleep_continue_ok [OF t] by blast
  then show ?thesis using i sync_ok_same [of k k'] by (auto simp: kernel_inv_def settled_def)
qed

lemma intr_ok:
  assumes i: "kernel_inv k"
  shows "\<exists>k'. V_sem (k\<lparr>k_level := IntOff\<rparr>) (SUser n) = Inr k' \<and> kernel_inv (k'\<lparr>k_level := k_level k\<rparr>) \<and> same_user k k'"
proof -
  let ?k = "k\<lparr>k_level := IntOff\<rparr>" let ?c = "currentThread k"
  let ?X = "if k_idle k = Some False then {} else {?c}"
  have lv: "k_level ?k = IntOff" by simp
  obtain th where th: "threads k ?c = Some th" and c: "sched_core ?k ?X"
    using i by (cases "k_idle k"; cases "the (k_idle k)") (auto simp: kernel_inv_def sched_ok_def)
  obtain k1 where k1: "V_sem ?k (SUser n) = Inr k1" "sched_core k1 ?X" "sems k1 = (sems ?k)(SUser n := V_value (sems ?k (SUser n)))"
    "ops_of k1 = ops_of ?k" "lockHolder k1 = lockHolder ?k" "waitQueue k1 = waitQueue ?k" "next_waiter k1 = next_waiter ?k"
    "currentThread k1 = currentThread ?k" "toBeDestroyed k1 = toBeDestroyed ?k" "k_level k1 = IntOff" "k_idle k1 = k_idle ?k"
    "k_registers k1 = k_registers ?k"
    and u: "\<forall>u. threads k1 u = threads ?k u \<or> u \<notin> ?X \<and> (\<exists>th. threads ?k u = Some th \<and> threads k1 u = Some (th\<lparr>th_status := READY\<rparr>))"
    using V_sem_ok [OF c lv, of "SUser n"] by (elim exE conjE) (rule that)
  have b: "begun_ok k1 \<and> same_user ?k k1" by (rule V_sem_user [OF u k1(8,12)]) (use i in \<open>simp add: kernel_inv_def\<close>)
  have y: "sync_ok k1"
    using sync_V [of k k1 ?c "ops_of k ?c" "SUser n"] i k1 by (simp add: kernel_inv_def)
  have tc: "\<exists>th'. threads k1 ?c = Some th' \<and> (th' = th \<or> k_idle k = Some False)"
    using u [rule_format, of ?c] th by (auto split: if_splits)
  have "sched_ok (k1\<lparr>k_level := k_level k\<rparr>)"
    using i k1 tc th by (cases "k_idle k"; cases "the (k_idle k)") (auto simp: kernel_inv_def sched_ok_def)
  then show ?thesis using k1(1) y b by (auto simp: kernel_inv_def)
qed

section \<open>Reachable states\<close>

inductive reachable :: "op list \<Rightarrow> (nat \<Rightarrow> int) \<Rightarrow> kernel \<Rightarrow> bool" for prog :: "op list" and v :: "nat \<Rightarrow> int" where
  reach_init: "reachable prog v (init_kernel prog v)"
| reach_step: "reachable prog v k \<Longrightarrow> kstep k k' \<Longrightarrow> reachable prog v k'"

text \<open>Programs as the kernel is given them: the public operations only, semaphores created with non-negative values.\<close>

definition good_start :: "op list \<Rightarrow> (nat \<Rightarrow> int) \<Rightarrow> bool" where
  "good_start prog v \<longleftrightarrow> list_all plain_op prog \<and> (\<forall>n. 0 \<le> v n)"

lemma kstep_inv:
  assumes i: "kernel_inv k" and s: "kstep k k'"
  shows "kernel_inv k'"
  using s
proof (cases rule: kstep.cases)
  case step_run
  then show ?thesis using run_current_ok [OF i] by (cases "misuse k") auto
next
  case (step_slice k1)
  then show ?thesis using slice_ok [OF i] by auto
next
  case (step_intr n k1)
  then show ?thesis using intr_ok [OF i, of n] by auto
next
  case (step_idle f k1)
  then show ?thesis using idle_ok [OF i] by (auto simp: restore_level_def)
qed

lemma init_inv:
  assumes g: "good_start prog v"
  shows "kernel_inv (init_kernel prog v)"
proof -
  let ?k = "init_kernel prog v"
  have p: "list_all plain_op prog" and l: "list_all (later_op 0) prog" using g plain_later by (auto simp: good_start_def)
  have o: "ops_of ?k = (\<lambda>_. [])(0 := prog)" by (auto simp: ops_of_def init_kernel_def)
  have "sync_ok ?k"
  proof (rule sync_okI)
    show "finite {t. ops_of ?k t \<noteq> []}" unfolding o by (rule finite_upd) simp
    have "next_waiter ?k = 0" by (simp add: init_kernel_def)
    then show "ops_ok (next_waiter ?k) (ops_of ?k t)" for t using ops_ok_later [OF l] by (simp add: o)
    show "0 \<le> sem_value (sems ?k s)" for s using g by (cases s) (auto simp: init_kernel_def good_start_def)
    have z: "tally c (ops_of ?k) = c prog" if "c [] = 0" for c
      using tally_upd [of "\<lambda>_. []" c 0 prog] that unfolding o by (simp add: tally_def)
    show "sem_value (sems ?k (SLock l)) + int (tally (at_head (OpSetHolder l)) (ops_of ?k)) +
       int (tally (at_head (OpV (SLock l))) (ops_of ?k)) + (if lockHolder ?k l = None then 0 else 1) = 1" for l
      using z \<open>list_all (later_op 0) prog\<close> by (simp add: init_kernel_def)
    show "sem_value (sems ?k (SWait w)) + int (tally (at_head (OpV (SWait w))) (ops_of ?k)) +
       int (card {c. w \<in> set (waitQueue ?k c)}) = int (tally (pendingP w) (ops_of ?k))" for w
      using z \<open>list_all (later_op 0) prog\<close> pendingP_plain [OF p] by (simp add: init_kernel_def)
  qed (simp_all add: init_kernel_def queue_inv_def)
  moreover have "sched_ok ?k" by (simp add: sched_ok_def sched_core_def place_def init_kernel_def)
  moreover have "begun_ok ?k" by (simp add: begun_ok_def space_begun_def init_kernel_def)
  ultimately show ?thesis by (simp add: kernel_inv_def)
qed

lemma reachable_inv: "good_start prog v \<Longrightarrow> reachable prog v k \<Longrightarrow> kernel_inv k"
  by (rotate_tac, induction rule: reachable.induct) (auto intro: init_inv kstep_inv)

text \<open>An executable run without interrupts, for concrete states.\<close>

fun runs :: "nat \<Rightarrow> kernel \<Rightarrow> kernel option" where
  "runs 0 k = Some k"
| "runs (Suc n) k = (if k_idle k = None then (case run_current k of Inl e \<Rightarrow> None | Inr k' \<Rightarrow> runs n k') else None)"

lemma runs_reachable: "reachable prog v k \<Longrightarrow> runs n k = Some k' \<Longrightarrow> reachable prog v k'"
  by (induction n k rule: runs.induct) (auto split: if_splits sum.splits intro: reach_step step_run)

section \<open>Properties\<close>

lemma inv_lists:
  assumes i: "kernel_inv k"
  shows "distinct (readyList k) \<and> (\<forall>s. distinct (sem_queue (sems k s))) \<and>
    (\<forall>t. threads k t = None \<longrightarrow> t \<notin> set (readyList k) \<and> (\<forall>s. t \<notin> set (sem_queue (sems k s))))"
proof -
  obtain X where c: "sched_core k X" using i by (auto simp: kernel_inv_def sched_ok_def split: option.splits bool.splits)
  have "t \<notin> set (readyList k) \<and> (\<forall>s. t \<notin> set (sem_queue (sems k s)))" if "threads k t = None" for t
  proof -
    have "place k X t" using c by (simp add: sched_core_def)
    then show ?thesis using that by (auto simp: place_def split: if_splits)
  qed
  then show ?thesis using c by (simp add: sched_core_def)
qed

lemma inv_place:
  assumes i: "kernel_inv k" and t: "threads k t = Some th"
  shows "th_status th \<noteq> JUST_CREATED \<and>
    (th_status th = RUNNING \<longleftrightarrow> t = currentThread k \<and> k_idle k = None) \<and>
    (th_status th = READY \<longleftrightarrow> t \<in> set (readyList k)) \<and>
    (\<forall>s. t \<in> set (sem_queue (sems k s)) \<longleftrightarrow> th_status th = BLOCKED \<and> waits (th_ops th) = Some s) \<and>
    (th_status th = BLOCKED \<longrightarrow> waits (th_ops th) \<noteq> None \<or> t = currentThread k \<and> k_idle k = Some True \<and> th_ops th = [])"
proof -
  let ?c = "currentThread k"
  obtain tc where tc: "threads k ?c = Some tc" using i by (auto simp: kernel_inv_def sched_ok_def)
  consider (run) "k_idle k = None" "th_status tc = RUNNING" "place k {?c} t"
    | (fin) "k_idle k = Some True" "th_status tc = BLOCKED" "th_ops tc = []" "place k {?c} t"
    | (idle) "k_idle k = Some False" "place k {} t"
    using i tc by (cases "k_idle k"; cases "the (k_idle k)") (auto simp: kernel_inv_def sched_ok_def sched_core_def)
  then show ?thesis
  proof cases
    case run
    then show ?thesis using t tc by (cases "t = ?c") (auto simp: place_def)
  next
    case fin
    then show ?thesis using t tc by (cases "t = ?c") (auto simp: place_def)
  next
    case idle
    then show ?thesis using t by (auto simp: place_def)
  qed
qed

text \<open>
  C4: In every reachable state a thread runs, is on the ready list, or is blocked in the queue of exactly the
  semaphore that its next operation waits for (or has finished and idles until another thread can delete it); the
  lists have no duplicates and hold no deleted thread.
\<close>
theorem every_thread_has_its_place:
  assumes "good_start prog v" and "reachable prog v k"
  shows "distinct (readyList k) \<and> (\<forall>s. distinct (sem_queue (sems k s))) \<and>
    (\<forall>t. threads k t = None \<longrightarrow> t \<notin> set (readyList k) \<and> (\<forall>s. t \<notin> set (sem_queue (sems k s)))) \<and>
    (\<forall>t th. threads k t = Some th \<longrightarrow>
       th_status th \<noteq> JUST_CREATED \<and>
       (th_status th = RUNNING \<longleftrightarrow> t = currentThread k \<and> k_idle k = None) \<and>
       (th_status th = READY \<longleftrightarrow> t \<in> set (readyList k)) \<and>
       (\<forall>s. t \<in> set (sem_queue (sems k s)) \<longleftrightarrow> th_status th = BLOCKED \<and> waits (th_ops th) = Some s) \<and>
       (th_status th = BLOCKED \<longrightarrow> waits (th_ops th) \<noteq> None \<or> t = currentThread k \<and> k_idle k = Some True \<and> th_ops th = []))"
  using inv_lists [OF reachable_inv [OF assms]] inv_place [OF reachable_inv [OF assms]] by blast

definition owns_lock :: "kernel \<Rightarrow> nat \<Rightarrow> nat \<Rightarrow> bool" where
  "owns_lock k t l \<longleftrightarrow> lockHolder k l = Some t \<or>
     (\<exists>rest. ops_of k t = OpSetHolder l # rest) \<or> (\<exists>rest. ops_of k t = OpV (SLock l) # rest)"

lemma at_head_1: "at_head x ops = 1 \<longleftrightarrow> (\<exists>rest. ops = x # rest)"
  by (cases ops) auto

text \<open>
  C1: Mutual exclusion: from its return out of the \<^verbatim>\<open>P\<close> of \<^verbatim>\<open>Lock::Acquire\<close> until it has called the \<^verbatim>\<open>V\<close> of \<^verbatim>\<open>Lock::Release\<close>
  a thread is the only one in possession of the lock, and the lock's semaphore is 0, whatever the interleaving.
\<close>
theorem lock_mutual_exclusion:
  assumes "good_start prog v" and "reachable prog v k" and "owns_lock k t l"
  shows "sem_value (sems k (SLock l)) = 0 \<and> (\<forall>u. owns_lock k u l \<longrightarrow> u = t)"
proof -
  have s: "sync_ok k" using reachable_inv [OF assms(1,2)] by (simp add: kernel_inv_def)
  let ?a = "at_head (OpSetHolder l)" let ?b = "at_head (OpV (SLock l))" let ?g = "ops_of k"
  note e = sync_lock [OF s, of l] sync_pos [OF s, of "SLock l"]
  have ge: "?a (?g u) \<le> tally ?a ?g" "?b (?g u) \<le> tally ?b ?g" for u using tally_ge [OF sync_fin [OF s]] by simp_all
  have ge2: "?a (?g u) + ?a (?g t) \<le> tally ?a ?g" "?b (?g u) + ?b (?g t) \<le> tally ?b ?g" if "u \<noteq> t" for u
    using tally_ge2 [OF sync_fin [OF s] _ that] by simp_all
  have o: "owns_lock k u l \<longleftrightarrow> lockHolder k l = Some u \<or> ?a (?g u) = 1 \<or> ?b (?g u) = 1" for u
    by (simp add: owns_lock_def flip: at_head_1)
  have "sem_value (sems k (SLock l)) = 0" using e assms(3) ge [of t] unfolding o by (auto split: if_splits)
  moreover have "u = t" if u: "owns_lock k u l" for u
  proof (rule ccontr)
    assume n: "u \<noteq> t"
    show False using u assms(3) ge2 [OF n] ge [of t] ge [of u] e n unfolding o by (auto split: if_splits)
  qed
  ultimately show ?thesis by blast
qed

lemma tally_wants_le:
  assumes q: "\<forall>u. wants s (g u) = 1 \<longrightarrow> u \<in> set q" and f: "finite {t. g t \<noteq> []}"
  shows "tally (wants s) g \<le> length q"
proof -
  have "tally (wants s) g = (\<Sum>t\<in>{t. g t \<noteq> []} \<inter> {t. wants s (g t) = 1}. wants s (g t))"
    unfolding tally_def using f by (intro sum.mono_neutral_right) (auto simp: wants_def)
  also have "\<dots> = card ({t. g t \<noteq> []} \<inter> {t. wants s (g t) = 1})" by simp
  also have "\<dots> \<le> card (set q)" using q by (intro card_mono) auto
  finally show ?thesis using card_length [of q] by linarith
qed


text \<open>
  C18: No missed signal: as long as a thread has the \<^verbatim>\<open>P\<close> of its \<^verbatim>\<open>Condition::Wait\<close> before it, its semaphore is in the queue of a
  condition, or a signaller is about to call \<^verbatim>\<open>V\<close> on it, or the signal has arrived and the semaphore is positive, although the lock is
  released before the \<^verbatim>\<open>P\<close>.
\<close>
theorem condition_no_missed_signal:
  assumes "good_start prog v" and "reachable prog v k" and "OpP (SWait w) \<in> set (ops_of k t)"
  shows "(\<exists>c. w \<in> set (waitQueue k c)) \<or> (\<exists>u rest. ops_of k u = OpV (SWait w) # rest) \<or> sem_value (sems k (SWait w)) > 0"
proof (rule ccontr)
  assume n: "\<not> ?thesis"
  have s: "sync_ok k" using reachable_inv [OF assms(1,2)] by (simp add: kernel_inv_def)
  have "pendingP w (ops_of k t) \<noteq> 0" using assms(3) by (simp add: pendingP_def count_list_0_iff)
  moreover have "pendingP w (ops_of k t) \<le> tally (pendingP w) (ops_of k)" using tally_ge [OF sync_fin [OF s]] by simp
  moreover have "tally (at_head (OpV (SWait w))) (ops_of k) = 0"
    by (rule tally_zero) (use n in \<open>auto simp: at_head_def split: list.splits\<close>)
  moreover have "{c. w \<in> set (waitQueue k c)} = {}" using n by auto
  ultimately show False using sync_cond [OF s, of w] n by simp
qed


text \<open>
  No step of the system, context switches and deletions of threads included, changes the user registers of a thread,
  except the thread's own user code.
\<close>
theorem user_registers_kept:
  assumes "good_start prog v" and "reachable prog v k" and "kstep k k'"
    and "threads k t \<noteq> None" and "threads k' t \<noteq> None"
    and "t \<noteq> currentThread k \<or> (\<forall>rs rest. ops_of k t \<noteq> OpUser rs # rest)"
  shows "uregs k' t = uregs k t"
proof -
  have i: "kernel_inv k" using reachable_inv [OF assms(1,2)] .
  have u: "t \<noteq> currentThread k \<or> \<not> list_ex is_user (take 1 (ops_of k (currentThread k)))"
    using assms(6) by (cases "ops_of k (currentThread k)") (auto simp: is_user_def split: op.splits)
  show ?thesis using assms(3)
  proof (cases rule: kstep.cases)
    case step_run
    then show ?thesis using run_current_ok [OF i] u assms(4,5) by (cases "misuse k") auto
  next
    case (step_slice k1)
    then show ?thesis using slice_ok [OF i] assms(4,5) by (auto simp: same_user_def)
  next
    case (step_intr n k1)
    then show ?thesis using intr_ok [OF i, of n] assms(4,5) by (auto simp: same_user_def)
  next
    case (step_idle f k1)
    then show ?thesis using idle_ok [OF i] assms(4,5) by (auto simp: same_user_def)
  qed
qed

section \<open>Concrete runs\<close>

lemmas kernel_exec = run_current_def init_kernel_def the_thread_def upd_thread_def set_ops_def upd_sem_def P_round_def V_sem_def
  Sleep_def Sleep_continue_def FindNextToRun_def Run_def Run_out_def Run_in_def CheckToBeDestroyed_def setStatus_def
  ReadyToRun_def Fork_def Yield_def Finish_def seq_append_def seq_remove_front_def Release_lock_def Wait_cond_def Signal_cond_def
  Broadcast_cond_def IsHeldByCurrentThread_def SaveUserState_def RestoreUserState_def Let_def eval_nat_numeral

lemma demo_blocked: "\<exists>k. runs 3 (init_kernel [OpFork 1 [OpP (SUser 0)], OpYield] (\<lambda>_. 0)) = Some k \<and>
    sem_queue (sems k (SUser 0)) = [1] \<and> threads k 1 \<noteq> None \<and> k_idle k = None"
  by (simp add: kernel_exec)

lemma demo_locked: "\<exists>k. runs 2 (init_kernel [OpAcquire 0] (\<lambda>_. 0)) = Some k \<and> owns_lock k 0 0"
  by (simp add: kernel_exec owns_lock_def)

lemma demo_waiting: "\<exists>k. runs 3 (init_kernel [OpAcquire 0, OpWait 0 0] (\<lambda>_. 0)) = Some k \<and> OpP (SWait 0) \<in> set (ops_of k 0)"
  by (simp add: kernel_exec ops_of_def)


lemma demo_woken: "\<exists>k. runs 6 (init_kernel [OpFork 1 [OpP (SUser 0)], OpFork 2 [OpP (SUser 0)], OpYield, OpV (SUser 0)] (\<lambda>_. 0)) = Some k \<and>
    sem_queue (sems k (SUser 0)) = [2] \<and> sem_value (sems k (SUser 0)) = 1"
  by (simp add: kernel_exec)

lemma demo_switch: "\<exists>k k'. runs 2 (init_kernel [OpUser [7], OpFork 1 [], OpYield] (\<lambda>_. 0)) = Some k \<and> k_idle k = None \<and>
    run_current k = Inr k' \<and> currentThread k = 0 \<and> currentThread k' = 1 \<and> threads k 0 \<noteq> None \<and> threads k' 0 \<noteq> None \<and>
    ops_of k 0 = [OpYield] \<and> uregs k 0 = Some [7]"
  by (simp add: kernel_exec ops_of_def uregs_def)

lemma good_start_simps: "good_start prog (\<lambda>_. 0) \<longleftrightarrow> list_all plain_op prog"
  by (simp add: good_start_def)

lemmas demo_reachable = runs_reachable [OF reach_init]

theorem every_thread_has_its_place_witness:
  "\<exists>k th. reachable [OpFork 1 [OpP (SUser 0)], OpYield] (\<lambda>_. 0) k \<and> threads k 1 = Some th \<and> th_status th = BLOCKED"
proof -
  obtain k where k: "runs 3 (init_kernel [OpFork 1 [OpP (SUser 0)], OpYield] (\<lambda>_. 0)) = Some k"
    "sem_queue (sems k (SUser 0)) = [1]" "threads k 1 \<noteq> None" using demo_blocked by blast
  have r: "reachable [OpFork 1 [OpP (SUser 0)], OpYield] (\<lambda>_. 0) k" by (rule demo_reachable [OF k(1)])
  obtain th where th: "threads k 1 = Some th" using k(3) by blast
  have "1 \<in> set (sem_queue (sems k (SUser 0))) \<longleftrightarrow> th_status th = BLOCKED \<and> waits (th_ops th) = Some (SUser 0)"
    using every_thread_has_its_place [OF _ r] th by (simp add: good_start_simps)
  then show ?thesis using r th k(2) by auto
qed

theorem lock_mutual_exclusion_witness:
  "\<exists>k. reachable [OpAcquire 0] (\<lambda>_. 0) k \<and> owns_lock k 0 0 \<and> sem_value (sems k (SLock 0)) = 0 \<and> \<not> owns_lock k 1 0"
proof -
  obtain k where k: "runs 2 (init_kernel [OpAcquire 0] (\<lambda>_. 0)) = Some k" "owns_lock k 0 0" using demo_locked by blast
  have r: "reachable [OpAcquire 0] (\<lambda>_. 0) k" by (rule demo_reachable [OF k(1)])
  then show ?thesis using lock_mutual_exclusion [OF _ r k(2)] k(2) by (auto simp: good_start_simps)
qed


theorem condition_no_missed_signal_witness:
  "\<exists>k. reachable [OpAcquire 0, OpWait 0 0] (\<lambda>_. 0) k \<and>
    ((\<exists>c. 0 \<in> set (waitQueue k c)) \<or> (\<exists>u rest. ops_of k u = OpV (SWait 0) # rest) \<or> sem_value (sems k (SWait 0)) > 0)"
proof -
  obtain k where k: "runs 3 (init_kernel [OpAcquire 0, OpWait 0 0] (\<lambda>_. 0)) = Some k" "OpP (SWait 0) \<in> set (ops_of k 0)"
    using demo_waiting by blast
  have r: "reachable [OpAcquire 0, OpWait 0 0] (\<lambda>_. 0) k" by (rule demo_reachable [OF k(1)])
  show ?thesis using condition_no_missed_signal [OF _ r k(2)] r by (auto simp: good_start_simps)
qed


theorem user_registers_kept_witness:
  "\<exists>k k'. reachable [OpUser [7], OpFork 1 [], OpYield] (\<lambda>_. 0) k \<and> kstep k k' \<and> currentThread k = 0 \<and> currentThread k' = 1 \<and>
    uregs k' 0 = Some [7]"
proof -
  let ?p = "[OpUser [7], OpFork 1 [], OpYield]"
  obtain k k' where k: "runs 2 (init_kernel ?p (\<lambda>_. 0)) = Some k" "k_idle k = None" "run_current k = Inr k'" "currentThread k = 0"
    "currentThread k' = 1" "threads k 0 \<noteq> None" "threads k' 0 \<noteq> None" "ops_of k 0 = [OpYield]" "uregs k 0 = Some [7]"
    using demo_switch by blast
  have r: "reachable ?p (\<lambda>_. 0) k" by (rule demo_reachable [OF k(1)])
  have s: "kstep k k'" by (rule step_run [OF k(2,3)])
  show ?thesis using user_registers_kept [OF _ r s k(6,7)] r s k by (auto simp: good_start_simps)
qed

end
