(* ===== verification/Host_Files.thy ===== *)
theory Host_Files
  imports Nachos_Prelude
begin

text \<open>
  The files of the stub file system: the wrappers of \<^verbatim>\<open>lib/sysdep.cc\<close> around the UNIX calls and the stub
  version of \<^verbatim>\<open>OpenFile\<close> (\<^verbatim>\<open>filesys/openfile.cc\<close> under \<^verbatim>\<open>FILESYS_STUB\<close>). The UNIX calls themselves and the
  console are a parameter, the record \<open>unix\<close>, acting on a host state of type \<open>'h\<close>; \<open>unix_ok\<close> collects the
  documented behaviour of \<^verbatim>\<open>lseek\<close>, \<^verbatim>\<open>read\<close> and \<^verbatim>\<open>write\<close> on regular files that the theorems rely on.
\<close>

type_synonym byte = "8 word"

datatype open_flags = O_RDONLY | O_RDWR | O_RDWR_CREAT_TRUNC
datatype whence = SEEK_SET | SEEK_CUR | SEEK_END

record 'h unix =
  u_open :: "string \<Rightarrow> open_flags \<Rightarrow> 'h \<Rightarrow> int \<times> 'h"
  u_close :: "int \<Rightarrow> 'h \<Rightarrow> int \<times> 'h"
  u_read :: "int \<Rightarrow> int \<Rightarrow> 'h \<Rightarrow> (int \<times> byte list) \<times> 'h"
  u_write :: "int \<Rightarrow> byte list \<Rightarrow> 'h \<Rightarrow> int \<times> 'h"
  u_lseek :: "int \<Rightarrow> int \<Rightarrow> whence \<Rightarrow> 'h \<Rightarrow> int \<times> 'h"
  u_unlink :: "string \<Rightarrow> 'h \<Rightarrow> int \<times> 'h"
  u_socket :: "'h \<Rightarrow> int \<times> 'h"
  u_pton :: "string \<Rightarrow> int"
  u_connect :: "int \<Rightarrow> string \<Rightarrow> int \<Rightarrow> 'h \<Rightarrow> int \<times> 'h"
  u_send :: "int \<Rightarrow> byte list \<Rightarrow> 'h \<Rightarrow> int \<times> 'h"
  u_recv :: "int \<Rightarrow> int \<Rightarrow> 'h \<Rightarrow> (int \<times> byte list) \<times> 'h"
  u_getchar :: "'h \<Rightarrow> byte \<times> 'h"
  u_putchar :: "byte \<Rightarrow> 'h \<Rightarrow> 'h"

section \<open>System-dependent calls\<close>

text \<open>\<open>select\<close> is the UNIX call on one descriptor, with a time-out of 0.\<close>

definition PollFile :: "(int \<Rightarrow> 'h \<Rightarrow> int \<times> 'h) \<Rightarrow> int \<Rightarrow> 'h \<Rightarrow> (bool \<times> 'h) result" where
  "PollFile select fd h =
     (let (retVal, h1) = select fd h in rbind (rassert (retVal = 0 \<or> retVal = 1)) (\<lambda>_. Inr (retVal \<noteq> 0, h1)))"

definition OpenForRead :: "'h unix \<Rightarrow> string \<Rightarrow> bool \<Rightarrow> 'h \<Rightarrow> (int \<times> 'h) result" where
  "OpenForRead u name crashOnError h =
     (let (fd, h1) = u_open u name O_RDONLY h in
      rbind (rassert (\<not> crashOnError \<or> fd \<ge> 0)) (\<lambda>_. Inr (fd, h1)))"

definition OpenForWrite :: "'h unix \<Rightarrow> string \<Rightarrow> bool \<Rightarrow> 'h \<Rightarrow> (int \<times> 'h) result" where
  "OpenForWrite u name crashOnError h =
     (let (fd, h1) = u_open u name O_RDWR_CREAT_TRUNC h in
      rbind (rassert (\<not> crashOnError \<or> fd \<ge> 0)) (\<lambda>_. Inr (fd, h1)))"

definition OpenForReadWrite :: "'h unix \<Rightarrow> string \<Rightarrow> bool \<Rightarrow> 'h \<Rightarrow> (int \<times> 'h) result" where
  "OpenForReadWrite u name crashOnError h =
     (let (fd, h1) = u_open u name O_RDWR h in
      rbind (rassert (\<not> crashOnError \<or> fd \<ge> 0)) (\<lambda>_. Inr (fd, h1)))"

definition ReadPartial :: "'h unix \<Rightarrow> int \<Rightarrow> int \<Rightarrow> 'h \<Rightarrow> ((int \<times> byte list) \<times> 'h) result" where
  "ReadPartial u fd nBytes h = Inr (u_read u fd nBytes h)"

definition WritePartial :: "'h unix \<Rightarrow> int \<Rightarrow> byte list \<Rightarrow> 'h \<Rightarrow> (int \<times> 'h) result" where
  "WritePartial u fd buffer h = Inr (u_write u fd buffer h)"

definition ReadFile :: "'h unix \<Rightarrow> int \<Rightarrow> int \<Rightarrow> 'h \<Rightarrow> (byte list \<times> 'h) result" where
  "ReadFile u fd nBytes h =
     (let ((retVal, bs), h1) = u_read u fd nBytes h in rbind (rassert (retVal = nBytes)) (\<lambda>_. Inr (bs, h1)))"

definition WriteFile :: "'h unix \<Rightarrow> int \<Rightarrow> byte list \<Rightarrow> 'h \<Rightarrow> 'h result" where
  "WriteFile u fd buffer h =
     (let (retVal, h1) = u_write u fd buffer h in rbind (rassert (retVal = int (length buffer))) (\<lambda>_. Inr h1))"

definition Lseek :: "'h unix \<Rightarrow> int \<Rightarrow> int \<Rightarrow> whence \<Rightarrow> 'h \<Rightarrow> 'h result" where
  "Lseek u fd offset whence h =
     (let (retVal, h1) = u_lseek u fd offset whence h in rbind (rassert (retVal \<ge> 0)) (\<lambda>_. Inr h1))"

definition Tell :: "'h unix \<Rightarrow> int \<Rightarrow> 'h \<Rightarrow> int \<times> 'h" where
  "Tell u fd h = u_lseek u fd 0 SEEK_CUR h"

definition Close_fd :: "'h unix \<Rightarrow> int \<Rightarrow> 'h \<Rightarrow> (int \<times> 'h) result" where
  "Close_fd u fd h =
     (let (retVal, h1) = u_close u fd h in rbind (rassert (retVal \<ge> 0)) (\<lambda>_. Inr (retVal, h1)))"

text \<open>\<^verbatim>\<open>Unlink\<close> converts the result of \<^verbatim>\<open>unlink\<close> to \<^verbatim>\<open>bool\<close>: \<open>True\<close> is failure.\<close>

definition Unlink :: "'h unix \<Rightarrow> string \<Rightarrow> 'h \<Rightarrow> bool \<times> 'h" where
  "Unlink u name h = (let (retVal, h1) = u_unlink u name h in (retVal \<noteq> 0, h1))"

definition OpenSocketInternet :: "'h unix \<Rightarrow> 'h \<Rightarrow> (int \<times> 'h) result" where
  "OpenSocketInternet u h = (let (sockID, h1) = u_socket u h in rbind (rassert (sockID \<ge> 0)) (\<lambda>_. Inr (sockID, h1)))"

definition Connect :: "'h unix \<Rightarrow> int \<Rightarrow> string \<Rightarrow> int \<Rightarrow> 'h \<Rightarrow> int \<times> 'h" where
  "Connect u fd ip port h = (if u_pton u ip \<le> 0 then (-1, h) else u_connect u fd ip port h)"

definition Send :: "'h unix \<Rightarrow> int \<Rightarrow> byte list \<Rightarrow> 'h \<Rightarrow> int \<times> 'h" where
  "Send u fd buffer h = u_send u fd buffer h"

definition Receive :: "'h unix \<Rightarrow> int \<Rightarrow> int \<Rightarrow> 'h \<Rightarrow> (int \<times> byte list) \<times> 'h" where
  "Receive u fd len h = u_recv u fd len h"

section \<open>Open files of the stub\<close>

definition MODE_READWRITE :: int where "MODE_READWRITE = 0"
definition MODE_READ :: int where "MODE_READ = 1"

record OpenFile =
  of_fd :: int
  of_mode :: int
  currentOffset :: int
  of_fileName :: "string option"
  of_isSocket :: bool

definition new_OpenFile :: "int \<Rightarrow> int \<Rightarrow> string option \<Rightarrow> bool \<Rightarrow> OpenFile" where
  "new_OpenFile fd mode fileName isSocket =
     \<lparr>of_fd = fd, of_mode = mode, currentOffset = 0, of_fileName = fileName, of_isSocket = isSocket\<rparr>"

definition delete_OpenFile :: "'h unix \<Rightarrow> OpenFile \<Rightarrow> 'h \<Rightarrow> 'h result" where
  "delete_OpenFile u f h = rbind (Close_fd u (of_fd f) h) (\<lambda>(r, h1). Inr h1)"

definition ReadAt :: "'h unix \<Rightarrow> OpenFile \<Rightarrow> int \<Rightarrow> int \<Rightarrow> 'h \<Rightarrow> ((int \<times> byte list) \<times> 'h) result" where
  "ReadAt u f numBytes position h =
     (if of_isSocket f then Inr ((-1, []), h)
      else rbind (Lseek u (of_fd f) position SEEK_SET h) (\<lambda>h1. ReadPartial u (of_fd f) numBytes h1))"

definition WriteAt :: "'h unix \<Rightarrow> OpenFile \<Rightarrow> byte list \<Rightarrow> int \<Rightarrow> 'h \<Rightarrow> (int \<times> 'h) result" where
  "WriteAt u f from position h =
     (if of_isSocket f then Inr (-1, h)
      else rbind (Lseek u (of_fd f) position SEEK_SET h) (\<lambda>h1. WritePartial u (of_fd f) from h1))"

definition OpenFile_Read :: "'h unix \<Rightarrow> OpenFile \<Rightarrow> int \<Rightarrow> 'h \<Rightarrow> ((int \<times> byte list) \<times> OpenFile \<times> 'h) result" where
  "OpenFile_Read u f numBytes h =
     (if of_isSocket f then (let (r, h1) = Receive u (of_fd f) numBytes h in Inr (r, f, h1))
      else rbind (ReadAt u f numBytes (currentOffset f) h) (\<lambda>((numRead, bs), h1).
           Inr ((numRead, bs), f\<lparr>currentOffset := currentOffset f + numRead\<rparr>, h1)))"

definition OpenFile_Write :: "'h unix \<Rightarrow> OpenFile \<Rightarrow> byte list \<Rightarrow> 'h \<Rightarrow> (int \<times> OpenFile \<times> 'h) result" where
  "OpenFile_Write u f from h =
     (if of_isSocket f then (let (r, h1) = Send u (of_fd f) from h in Inr (r, f, h1))
      else rbind (WriteAt u f from (currentOffset f) h) (\<lambda>(numWritten, h1).
           Inr (numWritten, f\<lparr>currentOffset := currentOffset f + numWritten\<rparr>, h1)))"

definition OpenFile_Length :: "'h unix \<Rightarrow> OpenFile \<Rightarrow> 'h \<Rightarrow> (int \<times> 'h) result" where
  "OpenFile_Length u f h =
     (if of_isSocket f then Inr (-1, h)
      else rbind (Lseek u (of_fd f) 0 SEEK_END h) (\<lambda>h1. Inr (Tell u (of_fd f) h1)))"

definition OpenFile_Seek :: "'h unix \<Rightarrow> OpenFile \<Rightarrow> int \<Rightarrow> 'h \<Rightarrow> (int \<times> OpenFile \<times> 'h) result" where
  "OpenFile_Seek u f position h =
     (if of_isSocket f then Inr (-1, f, h)
      else rbind (OpenFile_Length u f h) (\<lambda>(len, h1).
           if position = -1 then Inr (len, f\<lparr>currentOffset := len\<rparr>, h1)
           else if position < 0 \<or> position > len then Inr (-1, f, h1)
           else Inr (position, f\<lparr>currentOffset := position\<rparr>, h1)))"

section \<open>The host's files\<close>

text \<open>Overwriting a byte sequence at a position, extending it (with zero bytes in a gap) as needed.\<close>

definition overwrite :: "byte list \<Rightarrow> nat \<Rightarrow> byte list \<Rightarrow> byte list" where
  "overwrite c p bs = take p c @ replicate (p - length c) 0 @ bs @ drop (p + length bs) c"

text \<open>
  \<open>file h fd\<close> is the content and position of the regular file open under descriptor \<open>fd\<close>, if there is one.
  The laws are those of \<^verbatim>\<open>lseek(2)\<close>, \<^verbatim>\<open>read(2)\<close> and \<^verbatim>\<open>write(2)\<close> for regular files: a read delivers what is
  there up to the end of the file, a write may store only a first part of its data or fail.
\<close>

definition unix_ok :: "'h unix \<Rightarrow> ('h \<Rightarrow> int \<Rightarrow> (byte list \<times> nat) option) \<Rightarrow> bool" where
  "unix_ok u file \<longleftrightarrow> (\<forall>h fd c p. file h fd = Some (c, p) \<longrightarrow>
     (\<forall>off\<ge>0. \<exists>h'. u_lseek u fd off SEEK_SET h = (off, h') \<and> file h' fd = Some (c, nat off)) \<and>
     (\<exists>h'. u_lseek u fd 0 SEEK_CUR h = (int p, h') \<and> file h' fd = Some (c, p)) \<and>
     (\<exists>h'. u_lseek u fd 0 SEEK_END h = (int (length c), h') \<and> file h' fd = Some (c, length c)) \<and>
     (\<forall>n\<ge>0. \<exists>h'. u_read u fd n h = ((int (length (take (nat n) (drop p c))), take (nat n) (drop p c)), h') \<and>
        file h' fd = Some (c, p + length (take (nat n) (drop p c)))) \<and>
     (\<forall>bs. (\<exists>h' m. m \<le> length bs \<and> u_write u fd bs h = (int m, h') \<and>
           file h' fd = Some (overwrite c p (take m bs), p + m)) \<or>
        (\<exists>h'. u_write u fd bs h = (-1, h') \<and> file h' fd = Some (c, p))))"

text \<open>
  \<^verbatim>\<open>close(2)\<close> returns 0 for the descriptor of an open regular file (no I/O error is left to report); nothing is said of a
  descriptor that is not open, for which it fails with \<^verbatim>\<open>EBADF\<close>.
\<close>

definition host_closes :: "'h unix \<Rightarrow> ('h \<Rightarrow> int \<Rightarrow> (byte list \<times> nat) option) \<Rightarrow> bool" where
  "host_closes u file \<longleftrightarrow> (\<forall>fd h. file h fd \<noteq> None \<longrightarrow> (\<exists>h'. u_close u fd h = (0, h')))"

lemma length_overwrite: "length (overwrite c p bs) = max (length c) (p + length bs)"
  by (simp add: overwrite_def)

lemma take_drop_overwrite: "take (length bs) (drop p (overwrite c p bs)) = bs"
  by (simp add: overwrite_def)

lemma overwrite_elsewhere:
  "q + n \<le> p \<Longrightarrow> q + n \<le> length c \<Longrightarrow> take n (drop q (overwrite c p bs)) = take n (drop q c)"
  by (simp add: overwrite_def take_drop min_absorb2)

section \<open>Behaviour of open files\<close>

text \<open>\<open>is_file\<close>: an open regular file with a content, and an offset that is not negative.\<close>

definition is_file :: "('h \<Rightarrow> int \<Rightarrow> (byte list \<times> nat) option) \<Rightarrow> OpenFile \<Rightarrow> byte list \<Rightarrow> 'h \<Rightarrow> bool" where
  "is_file file f c h \<longleftrightarrow> \<not> of_isSocket f \<and> 0 \<le> currentOffset f \<and> (\<exists>p. file h (of_fd f) = Some (c, p))"

lemma unix_okD:
  assumes "unix_ok u file" "file h fd = Some (c, p)"
  shows "off \<ge> 0 \<Longrightarrow> \<exists>h'. u_lseek u fd off SEEK_SET h = (off, h') \<and> file h' fd = Some (c, nat off)"
    "\<exists>h'. u_lseek u fd 0 SEEK_CUR h = (int p, h') \<and> file h' fd = Some (c, p)"
    "\<exists>h'. u_lseek u fd 0 SEEK_END h = (int (length c), h') \<and> file h' fd = Some (c, length c)"
    "n \<ge> 0 \<Longrightarrow> \<exists>h'. u_read u fd n h = ((int (length (take (nat n) (drop p c))), take (nat n) (drop p c)), h') \<and>
        file h' fd = Some (c, p + length (take (nat n) (drop p c)))"
    "(\<exists>h' m. m \<le> length bs \<and> u_write u fd bs h = (int m, h') \<and> file h' fd = Some (overwrite c p (take m bs), p + m)) \<or>
        (\<exists>h'. u_write u fd bs h = (-1, h') \<and> file h' fd = Some (c, p))"
  using assms unfolding unix_ok_def by blast+

lemma ReadAt_file:
  assumes u: "unix_ok u file" and f: "is_file file f c h" and n: "0 \<le> n" "0 \<le> pos"
  shows "\<exists>h'. ReadAt u f n pos h = Inr ((int (length (take (nat n) (drop (nat pos) c))), take (nat n) (drop (nat pos) c)), h') \<and>
    is_file file f c h'"
proof -
  obtain p where p: "file h (of_fd f) = Some (c, p)" "\<not> of_isSocket f" using f by (auto simp: is_file_def)
  obtain h1 where h1: "u_lseek u (of_fd f) pos SEEK_SET h = (pos, h1)" "file h1 (of_fd f) = Some (c, nat pos)"
    using unix_okD(1) [OF u p(1) n(2)] by blast
  obtain h2 where "u_read u (of_fd f) n h1 = ((int (length (take (nat n) (drop (nat pos) c))), take (nat n) (drop (nat pos) c)), h2)"
      "file h2 (of_fd f) = Some (c, nat pos + length (take (nat n) (drop (nat pos) c)))"
    using unix_okD(4) [OF u h1(2) n(1)] by blast
  then show ?thesis using h1 p f n by (auto simp: ReadAt_def Lseek_def ReadPartial_def is_file_def)
qed

lemma WriteAt_file:
  assumes u: "unix_ok u file" and f: "is_file file f c h" and n: "0 \<le> pos"
  shows "\<exists>h' m. WriteAt u f bs pos h = Inr (int m, h') \<and> m \<le> length bs \<and> is_file file f (overwrite c (nat pos) (take m bs)) h' \<or>
    WriteAt u f bs pos h = Inr (-1, h') \<and> is_file file f c h'"
proof -
  obtain p where p: "file h (of_fd f) = Some (c, p)" "\<not> of_isSocket f" using f by (auto simp: is_file_def)
  obtain h1 where h1: "u_lseek u (of_fd f) pos SEEK_SET h = (pos, h1)" "file h1 (of_fd f) = Some (c, nat pos)"
    using unix_okD(1) [OF u p(1) n] by blast
  show ?thesis
    using unix_okD(5) [OF u h1(2), of bs] h1 p f n
    by (auto simp: WriteAt_def Lseek_def WritePartial_def is_file_def)
qed

lemma Length_file:
  assumes u: "unix_ok u file" and f: "is_file file f c h"
  shows "\<exists>h'. OpenFile_Length u f h = Inr (int (length c), h') \<and> is_file file f c h'"
proof -
  obtain p where p: "file h (of_fd f) = Some (c, p)" "\<not> of_isSocket f" using f by (auto simp: is_file_def)
  obtain h1 where h1: "u_lseek u (of_fd f) 0 SEEK_END h = (int (length c), h1)" "file h1 (of_fd f) = Some (c, length c)"
    using unix_okD(3) [OF u p(1)] by blast
  obtain h2 where "u_lseek u (of_fd f) 0 SEEK_CUR h1 = (int (length c), h2)" "file h2 (of_fd f) = Some (c, length c)"
    using unix_okD(2) [OF u h1(2)] by blast
  then show ?thesis using h1 p f by (auto simp: OpenFile_Length_def Lseek_def Tell_def is_file_def)
qed

text \<open>
  \<^verbatim>\<open>Seek\<close> moves to the end for -1, to a position within the file, and rejects any other position.
\<close>

lemma Seek_file:
  assumes u: "unix_ok u file" and f: "is_file file f c h"
  shows "\<exists>h'. OpenFile_Seek u f pos h =
      Inr (if pos = -1 then (int (length c), f\<lparr>currentOffset := int (length c)\<rparr>, h')
           else if 0 \<le> pos \<and> pos \<le> int (length c) then (pos, f\<lparr>currentOffset := pos\<rparr>, h') else (-1, f, h')) \<and>
    is_file file f c h'"
proof -
  obtain h1 where "OpenFile_Length u f h = Inr (int (length c), h1)" "is_file file f c h1" using Length_file [OF u f] by blast
  then show ?thesis using f by (auto simp: OpenFile_Seek_def is_file_def)
qed

lemma is_file_offset [simp]: "0 \<le> off \<Longrightarrow> is_file file f c h \<Longrightarrow> is_file file (f\<lparr>currentOffset := off\<rparr>) c h"
  by (simp add: is_file_def)

lemma Read_file:
  assumes u: "unix_ok u file" and f: "is_file file f c h" and n: "0 \<le> n"
  shows "\<exists>h' bs. bs = take (nat n) (drop (nat (currentOffset f)) c) \<and>
    OpenFile_Read u f n h = Inr ((int (length bs), bs), f\<lparr>currentOffset := currentOffset f + int (length bs)\<rparr>, h') \<and>
    is_file file (f\<lparr>currentOffset := currentOffset f + int (length bs)\<rparr>) c h'"
proof -
  have o: "0 \<le> currentOffset f" "\<not> of_isSocket f" using f by (auto simp: is_file_def)
  obtain h' where "ReadAt u f n (currentOffset f) h = Inr ((int (length (take (nat n) (drop (nat (currentOffset f)) c))),
      take (nat n) (drop (nat (currentOffset f)) c)), h')" "is_file file f c h'"
    using ReadAt_file [OF u f n o(1)] by blast
  then show ?thesis using o by (auto simp: OpenFile_Read_def)
qed

lemma Write_file:
  assumes u: "unix_ok u file" and f: "is_file file f c h" and w: "OpenFile_Write u f bs h = Inr (m, f', h')" and m: "0 \<le> m"
  shows "m \<le> int (length bs) \<and> f' = f\<lparr>currentOffset := currentOffset f + m\<rparr> \<and>
    is_file file f' (overwrite c (nat (currentOffset f)) (take (nat m) bs)) h'"
proof -
  have o: "0 \<le> currentOffset f" "\<not> of_isSocket f" using f by (auto simp: is_file_def)
  then show ?thesis using WriteAt_file [OF u f o(1), of bs] w m by (auto simp: OpenFile_Write_def)
qed

text \<open>
  What is written to an open file is read back: if \<^verbatim>\<open>Write\<close> stores \<open>m\<close> bytes, then after a \<^verbatim>\<open>Seek\<close> back to the
  position where it started, \<^verbatim>\<open>Read\<close> of \<open>m\<close> bytes delivers the first \<open>m\<close> bytes written and leaves the offset behind them.
\<close>
theorem OpenFile_write_seek_read:
  assumes "unix_ok u file" and "is_file file f c h" and "OpenFile_Write u f bs h = Inr (m, f1, h1)" and "0 \<le> m"
    and "currentOffset f \<le> int (length c)"
  shows "\<exists>f2 h2 f3 h3. OpenFile_Seek u f1 (currentOffset f) h1 = Inr (currentOffset f, f2, h2) \<and>
    OpenFile_Read u f2 m h2 = Inr ((m, take (nat m) bs), f3, h3) \<and> currentOffset f3 = currentOffset f + m"
proof -
  let ?o = "currentOffset f" let ?c = "overwrite c (nat ?o) (take (nat m) bs)"
  have o: "0 \<le> ?o" using assms(2) by (simp add: is_file_def)
  have w: "m \<le> int (length bs)" "is_file file f1 ?c h1" using Write_file [OF assms(1-4)] by auto
  have l: "length (take (nat m) bs) = nat m" using w(1) assms(4) by simp
  have le: "?o \<le> int (length ?c)" using assms(5) by (simp add: length_overwrite max_def)
  obtain h2 where h2: "OpenFile_Seek u f1 ?o h1 = Inr (?o, f1\<lparr>currentOffset := ?o\<rparr>, h2)" "is_file file f1 ?c h2"
    using Seek_file [OF assms(1) w(2), of ?o] o le by (auto split: if_splits)
  let ?f2 = "f1\<lparr>currentOffset := ?o\<rparr>"
  have i: "is_file file ?f2 ?c h2" using h2(2) o by simp
  have t: "take (nat m) (drop (nat ?o) ?c) = take (nat m) bs"
    using take_drop_overwrite [of "take (nat m) bs" "nat ?o" c] l by simp
  obtain h3 where "OpenFile_Read u ?f2 m h2 = Inr ((int (length (take (nat m) bs)), take (nat m) bs),
      ?f2\<lparr>currentOffset := ?o + int (length (take (nat m) bs))\<rparr>, h3)"
    using Read_file [OF assms(1) i assms(4)] t by auto
  then show ?thesis using h2(1) l assms(4) by auto
qed

text \<open>A host with one file, open under descriptor 5.\<close>

definition one_file :: "(byte list \<times> nat) unix" where
  "one_file = \<lparr>u_open = (\<lambda>n fl h. (5, h)), u_close = (\<lambda>fd h. (0, h)),
     u_read = (\<lambda>fd n h. let bs = take (nat n) (drop (snd h) (fst h)) in ((int (length bs), bs), (fst h, snd h + length bs))),
     u_write = (\<lambda>fd bs h. (int (length bs), (overwrite (fst h) (snd h) bs, snd h + length bs))),
     u_lseek = (\<lambda>fd off w h. let p = (case w of SEEK_SET \<Rightarrow> off | SEEK_CUR \<Rightarrow> int (snd h) + off | SEEK_END \<Rightarrow> int (length (fst h)) + off)
        in if p < 0 then (-1, h) else (p, (fst h, nat p))),
     u_unlink = (\<lambda>n h. (0, h)), u_socket = (\<lambda>h. (6, h)), u_pton = (\<lambda>ip. 1), u_connect = (\<lambda>fd ip port h. (0, h)),
     u_send = (\<lambda>fd bs h. (int (length bs), h)), u_recv = (\<lambda>fd n h. ((0, []), h)), u_getchar = (\<lambda>h. (-1, h)), u_putchar = (\<lambda>b h. h)\<rparr>"

lemma one_file_ok: "unix_ok one_file (\<lambda>h fd. if fd = 5 then Some h else None)"
  by (auto simp: unix_ok_def one_file_def Let_def)

section \<open>The descriptors of the host\<close>

text \<open>
  \<open>fds h\<close> is the set of open descriptors. A successful \<^verbatim>\<open>open(2)\<close> or \<^verbatim>\<open>socket(2)\<close> returns a descriptor that was not open and
  is open then; \<^verbatim>\<open>close(2)\<close> of an open descriptor returns 0 (no I/O error is left to report) and of any other one -1 (\<^verbatim>\<open>EBADF\<close>); the
  other calls open and close nothing.
\<close>

definition opens_fresh :: "('h \<Rightarrow> int set) \<Rightarrow> 'h \<Rightarrow> int \<times> 'h \<Rightarrow> bool" where
  "opens_fresh fds h r \<longleftrightarrow> (case r of (fd, h') \<Rightarrow> if fd < 0 then fds h' = fds h else fd \<notin> fds h \<and> fds h' = insert fd (fds h))"

definition descriptors_ok :: "'h unix \<Rightarrow> ('h \<Rightarrow> int set) \<Rightarrow> bool" where
  "descriptors_ok u fds \<longleftrightarrow>
     (\<forall>name fl h. opens_fresh fds h (u_open u name fl h)) \<and> (\<forall>h. opens_fresh fds h (u_socket u h)) \<and>
     (\<forall>fd h. case u_close u fd h of (r, h') \<Rightarrow>
        if fd \<in> fds h then r = 0 \<and> fds h' = fds h - {fd} else r = -1 \<and> fds h' = fds h) \<and>
     (\<forall>fd n h. fds (snd (u_read u fd n h)) = fds h) \<and> (\<forall>fd bs h. fds (snd (u_write u fd bs h)) = fds h) \<and>
     (\<forall>fd off wh h. fds (snd (u_lseek u fd off wh h)) = fds h) \<and> (\<forall>name h. fds (snd (u_unlink u name h)) = fds h) \<and>
     (\<forall>fd ip port h. fds (snd (u_connect u fd ip port h)) = fds h) \<and> (\<forall>fd bs h. fds (snd (u_send u fd bs h)) = fds h) \<and>
     (\<forall>fd n h. fds (snd (u_recv u fd n h)) = fds h) \<and> (\<forall>h. fds (snd (u_getchar u h)) = fds h) \<and>
     (\<forall>b h. fds (u_putchar u b h) = fds h)"

text \<open>\<open>uses u F h h'\<close>: the host gets from \<open>h\<close> to \<open>h'\<close> by calls on descriptors in \<open>F\<close> that neither open nor close, and by console calls.\<close>

inductive uses :: "'h unix \<Rightarrow> int set \<Rightarrow> 'h \<Rightarrow> 'h \<Rightarrow> bool" for u :: "'h unix" and F :: "int set" and h :: 'h where
  uses_refl: "uses u F h h"
| uses_read: "uses u F h h1 \<Longrightarrow> fd \<in> F \<Longrightarrow> uses u F h (snd (u_read u fd n h1))"
| uses_write: "uses u F h h1 \<Longrightarrow> fd \<in> F \<Longrightarrow> uses u F h (snd (u_write u fd bs h1))"
| uses_lseek: "uses u F h h1 \<Longrightarrow> fd \<in> F \<Longrightarrow> uses u F h (snd (u_lseek u fd off wh h1))"
| uses_connect: "uses u F h h1 \<Longrightarrow> fd \<in> F \<Longrightarrow> uses u F h (snd (u_connect u fd ip port h1))"
| uses_send: "uses u F h h1 \<Longrightarrow> fd \<in> F \<Longrightarrow> uses u F h (snd (u_send u fd bs h1))"
| uses_recv: "uses u F h h1 \<Longrightarrow> fd \<in> F \<Longrightarrow> uses u F h (snd (u_recv u fd n h1))"
| uses_getchar: "uses u F h h1 \<Longrightarrow> uses u F h (snd (u_getchar u h1))"
| uses_putchar: "uses u F h h1 \<Longrightarrow> uses u F h (u_putchar u b h1)"

text \<open>
  \<open>host_calls u F N h h'\<close>: such a use, or one call that opens a file or a socket, closes a descriptor of \<open>F\<close>, or unlinks a name
  that is not in \<open>N\<close>.
\<close>

definition host_calls :: "'h unix \<Rightarrow> int set \<Rightarrow> string set \<Rightarrow> 'h \<Rightarrow> 'h \<Rightarrow> bool" where
  "host_calls u F N h h' \<longleftrightarrow> uses u F h h' \<or> (\<exists>name fl. h' = snd (u_open u name fl h)) \<or> h' = snd (u_socket u h) \<or>
     (\<exists>fd \<in> F. h' = snd (u_close u fd h)) \<or> (\<exists>name. name \<notin> N \<and> h' = snd (u_unlink u name h))"

lemma host_callsI:
  "uses u F h h' \<Longrightarrow> host_calls u F N h h'"
  "u_open u name fl h = (r, h') \<Longrightarrow> host_calls u F N h h'"
  "u_socket u h = (r, h') \<Longrightarrow> host_calls u F N h h'"
  "fd \<in> F \<Longrightarrow> h' = snd (u_close u fd h) \<Longrightarrow> host_calls u F N h h'"
  "name \<notin> N \<Longrightarrow> u_unlink u name h = (r, h') \<Longrightarrow> host_calls u F N h h'"
  unfolding host_calls_def by (metis snd_conv)+

lemma uses_mono: "uses u F h h' \<Longrightarrow> F \<subseteq> G \<Longrightarrow> uses u G h h'"
  by (induction rule: uses.induct) (auto intro: uses.intros)

lemma uses_fds: "uses u F h h' \<Longrightarrow> descriptors_ok u fds \<Longrightarrow> fds h' = fds h"
  by (induction rule: uses.induct) (simp_all add: descriptors_ok_def)

lemma descriptors_okD:
  assumes "descriptors_ok u fds"
  shows "u_open u name fl h = (fd, h') \<Longrightarrow> 0 \<le> fd \<Longrightarrow> fd \<notin> fds h \<and> fds h' = insert fd (fds h)"
    "u_open u name fl h = (fd, h') \<Longrightarrow> fd < 0 \<Longrightarrow> fds h' = fds h"
    "u_socket u h = (fd, h') \<Longrightarrow> 0 \<le> fd \<Longrightarrow> fd \<notin> fds h \<and> fds h' = insert fd (fds h)"
    "fd \<in> fds h \<Longrightarrow> \<exists>h'. u_close u fd h = (0, h') \<and> fds h' = fds h - {fd}"
    "u_unlink u name h = (r, h') \<Longrightarrow> fds h' = fds h"
proof -
  note d = assms [unfolded descriptors_ok_def]
  have o: "opens_fresh fds h (u_open u name fl h)" and s: "opens_fresh fds h (u_socket u h)"
    using d by (simp, simp)
  show "u_open u name fl h = (fd, h') \<Longrightarrow> 0 \<le> fd \<Longrightarrow> fd \<notin> fds h \<and> fds h' = insert fd (fds h)"
    "u_open u name fl h = (fd, h') \<Longrightarrow> fd < 0 \<Longrightarrow> fds h' = fds h" using o by (simp_all add: opens_fresh_def split: if_splits)
  show "u_socket u h = (fd, h') \<Longrightarrow> 0 \<le> fd \<Longrightarrow> fd \<notin> fds h \<and> fds h' = insert fd (fds h)" using s by (simp add: opens_fresh_def split: if_splits)
  have c: "case u_close u fd h of (r, h') \<Rightarrow> if fd \<in> fds h then r = 0 \<and> fds h' = fds h - {fd} else r = -1 \<and> fds h' = fds h"
    using d [THEN conjunct2, THEN conjunct2, THEN conjunct1, rule_format] .
  then show "fd \<in> fds h \<Longrightarrow> \<exists>h'. u_close u fd h = (0, h') \<and> fds h' = fds h - {fd}" by (auto split: prod.splits)
  have "fds (snd (u_unlink u name h)) = fds h" using d by simp
  then show "u_unlink u name h = (r, h') \<Longrightarrow> fds h' = fds h" by simp
qed

text \<open>Every operation on an open file uses its own descriptor only, and keeps descriptor and name.\<close>

definition same_file :: "OpenFile \<Rightarrow> OpenFile \<Rightarrow> bool" where
  "same_file f f' \<longleftrightarrow> of_fd f' = of_fd f \<and> of_fileName f' = of_fileName f \<and> of_isSocket f' = of_isSocket f \<and> of_mode f' = of_mode f"

lemma snd_eqI: "f x = (r, h) \<Longrightarrow> h = snd (f x)"
  by simp

lemma ReadAt_uses: "ReadAt u f n pos h = Inr (r, h') \<Longrightarrow> uses u {of_fd f} h h'"
  by (auto simp: ReadAt_def Lseek_def ReadPartial_def rbind_eq_Inr split: if_splits prod.splits
    dest!: snd_eqI intro!: uses.intros)

lemma WriteAt_uses: "WriteAt u f bs pos h = Inr (r, h') \<Longrightarrow> uses u {of_fd f} h h'"
  by (auto simp: WriteAt_def Lseek_def WritePartial_def rbind_eq_Inr split: if_splits prod.splits
    dest!: snd_eqI intro!: uses.intros)

lemma Length_uses: "OpenFile_Length u f h = Inr (r, h') \<Longrightarrow> uses u {of_fd f} h h'"
  by (auto simp: OpenFile_Length_def Lseek_def Tell_def rbind_eq_Inr split: if_splits prod.splits
    dest!: snd_eqI intro!: uses.intros)

lemma OpenFile_Read_uses: "OpenFile_Read u f n h = Inr (r, f', h') \<Longrightarrow> uses u {of_fd f} h h' \<and> same_file f f'"
  by (auto simp: OpenFile_Read_def Receive_def rbind_eq_Inr same_file_def split: if_splits prod.splits
    dest!: snd_eqI ReadAt_uses intro!: uses.intros)

lemma OpenFile_Write_uses: "OpenFile_Write u f bs h = Inr (r, f', h') \<Longrightarrow> uses u {of_fd f} h h' \<and> same_file f f'"
  by (auto simp: OpenFile_Write_def Send_def rbind_eq_Inr same_file_def split: if_splits prod.splits
    dest!: snd_eqI WriteAt_uses intro!: uses.intros)

lemma OpenFile_Seek_uses: "OpenFile_Seek u f pos h = Inr (r, f', h') \<Longrightarrow> uses u {of_fd f} h h' \<and> same_file f f'"
  by (auto simp: OpenFile_Seek_def rbind_eq_Inr same_file_def split: if_splits prod.splits
    dest!: Length_uses intro!: uses.intros)

text \<open>A host that only keeps its open descriptors and hands out the one above the largest.\<close>

definition next_fd :: "int list \<Rightarrow> int" where
  "next_fd h = foldr max h 2 + 1"

definition fd_host :: "int list unix" where
  "fd_host = \<lparr>u_open = (\<lambda>n fl h. (next_fd h, next_fd h # h)), u_close = (\<lambda>fd h. if fd \<in> set h then (0, removeAll fd h) else (-1, h)),
     u_read = (\<lambda>fd n h. ((0, []), h)), u_write = (\<lambda>fd bs h. (int (length bs), h)), u_lseek = (\<lambda>fd off w h. (0, h)),
     u_unlink = (\<lambda>n h. (0, h)), u_socket = (\<lambda>h. (next_fd h, next_fd h # h)), u_pton = (\<lambda>ip. 1), u_connect = (\<lambda>fd ip port h. (0, h)),
     u_send = (\<lambda>fd bs h. (int (length bs), h)), u_recv = (\<lambda>fd n h. ((0, []), h)), u_getchar = (\<lambda>h. (-1, h)), u_putchar = (\<lambda>b h. h)\<rparr>"

lemma next_fd_above: "fd \<in> set h \<Longrightarrow> fd < next_fd h" "2 < next_fd h"
proof -
  have "\<forall>fd \<in> set h. fd \<le> foldr max h 2" "2 \<le> foldr max h 2" by (induction h) auto
  then show "fd \<in> set h \<Longrightarrow> fd < next_fd h" "2 < next_fd h" by (auto simp: next_fd_def)
qed

lemma fd_host_ok: "descriptors_ok fd_host set"
proof -
  have "next_fd h \<notin> set h" "\<not> next_fd h < 0" for h using next_fd_above(1) [of "next_fd h" h] next_fd_above(2) [of h] by auto
  then show ?thesis by (auto simp: descriptors_ok_def opens_fresh_def fd_host_def)
qed

theorem OpenFile_write_seek_read_witness:
  "\<exists>f2 h2 f3 h3. OpenFile_Seek one_file \<lparr>of_fd = 5, of_mode = 0, currentOffset = 3, of_fileName = None, of_isSocket = False\<rparr> 1
       ([1, 8, 9], 3) = Inr (1, f2, h2) \<and> OpenFile_Read one_file f2 2 h2 = Inr ((2, [8, 9]), f3, h3) \<and> currentOffset f3 = 3"
proof -
  let ?f = "\<lparr>of_fd = 5, of_mode = 0, currentOffset = 1, of_fileName = None, of_isSocket = False\<rparr>"
  let ?f1 = "\<lparr>of_fd = 5, of_mode = 0, currentOffset = 3, of_fileName = None, of_isSocket = False\<rparr>"
  have i: "is_file (\<lambda>h fd. if fd = 5 then Some h else None) ?f [1, 2] ([1, 2], 0)" by (simp add: is_file_def)
  have w: "OpenFile_Write one_file ?f [8, 9] ([1, 2], 0) = Inr (2, ?f1, ([1, 8, 9], 3))"
    by (simp add: OpenFile_Write_def WriteAt_def Lseek_def WritePartial_def one_file_def overwrite_def)
  show ?thesis using OpenFile_write_seek_read [OF one_file_ok i w] by auto
qed

end
