(* ===== verification/Stub_Files.thy ===== *)
theory Stub_Files
  imports Host_Files
begin

text \<open>
  The stub \<^verbatim>\<open>FileSystem\<close> (\<^verbatim>\<open>filesys/filesys.cc\<close> under \<^verbatim>\<open>FILESYS_STUB\<close>) with its global table of open files, and
  the per-process \<^verbatim>\<open>FileTable\<close> (\<^verbatim>\<open>threads/ftable.cc\<close>) that maps local slots to global ones. An
  operation returns its C result with the new state, or the fault it ends in.
\<close>

section \<open>The global table of open files\<close>

definition RESERVED_FD :: int where [nachos_consts]: "RESERVED_FD = 2"

definition GlobalFileTableSize :: int where [nachos_consts]: "GlobalFileTableSize = NumOpenFilesPerProcess * NumProcesses"

record 'h FileSystem =
  gtable :: "OpenFile option list"
  host :: 'h

definition VALID_SLOT :: "'h FileSystem \<Rightarrow> int \<Rightarrow> bool" where
  "VALID_SLOT fs slot \<longleftrightarrow> slot \<ge> RESERVED_FD \<and> slot < GlobalFileTableSize \<and> gtable fs ! nat slot \<noteq> None"

definition fs_findFreeSlot :: "'h FileSystem \<Rightarrow> int" where
  "fs_findFreeSlot fs = (case find (\<lambda>i. gtable fs ! nat i = None) [RESERVED_FD..GlobalFileTableSize - 1] of
     None \<Rightarrow> -1 | Some i \<Rightarrow> i)"

definition new_FileSystem :: "'h \<Rightarrow> 'h FileSystem" where
  "new_FileSystem h = \<lparr>gtable = replicate (nat GlobalFileTableSize) None, host = h\<rparr>"

definition set_slot :: "'h FileSystem \<Rightarrow> int \<Rightarrow> OpenFile option \<Rightarrow> 'h FileSystem" where
  "set_slot fs slot f = fs\<lparr>gtable := (gtable fs)[nat slot := f]\<rparr>"

text \<open>\<^verbatim>\<open>Open(name)\<close>, used by the loader: an open file outside the table.\<close>

definition fs_Open1 :: "'h unix \<Rightarrow> string \<Rightarrow> 'h FileSystem \<Rightarrow> (OpenFile option \<times> 'h FileSystem) result" where
  "fs_Open1 u name fs =
     rbind (OpenForReadWrite u name False (host fs)) (\<lambda>(fd, h1).
     Inr (if fd = -1 then None else Some (new_OpenFile fd MODE_READ (Some name) False), fs\<lparr>host := h1\<rparr>))"

definition fs_Close :: "'h unix \<Rightarrow> int \<Rightarrow> 'h FileSystem \<Rightarrow> (bool \<times> 'h FileSystem) result" where
  "fs_Close u slot fs =
     (if \<not> VALID_SLOT fs slot then Inr (False, fs)
      else rbind (delete_OpenFile u (the (gtable fs ! nat slot)) (host fs)) (\<lambda>h1.
           Inr (True, set_slot (fs\<lparr>host := h1\<rparr>) slot None)))"

text \<open>\<^verbatim>\<open>Create\<close> passes the UNIX descriptor to \<^verbatim>\<open>FileSystem::Close\<close>, which takes a slot of the table.\<close>

definition fs_Create :: "'h unix \<Rightarrow> string \<Rightarrow> 'h FileSystem \<Rightarrow> (bool \<times> 'h FileSystem) result" where
  "fs_Create u name fs =
     rbind (OpenForWrite u name False (host fs)) (\<lambda>(fileDescriptor, h1).
     let success = fileDescriptor \<ge> 0; fs1 = fs\<lparr>host := h1\<rparr> in
     if success then rbind (fs_Close u fileDescriptor fs1) (\<lambda>(r, fs2). Inr (success, fs2))
     else Inr (success, fs1))"

definition fs_Open :: "'h unix \<Rightarrow> string \<Rightarrow> int \<Rightarrow> 'h FileSystem \<Rightarrow> (int \<times> 'h FileSystem) result" where
  "fs_Open u name mode fs =
     (let slot = fs_findFreeSlot fs in
      if slot = -1 then Inr (-1, fs)
      else rbind (if mode = MODE_READWRITE then OpenForReadWrite u name False (host fs)
                  else if mode = MODE_READ then OpenForRead u name False (host fs)
                  else Inr (-1, host fs)) (\<lambda>(fd, h1).
           if fd < 0 then Inr (-1, fs\<lparr>host := h1\<rparr>)
           else Inr (slot, set_slot (fs\<lparr>host := h1\<rparr>) slot (Some (new_OpenFile fd mode (Some name) False)))))"

text \<open>The search of \<^verbatim>\<open>Remove\<close> for an open file of the name; \<^verbatim>\<open>strcmp\<close> on a socket's \<^verbatim>\<open>NULL\<close> name is undefined.\<close>

fun name_open :: "OpenFile option list \<Rightarrow> string \<Rightarrow> bool result" where
  "name_open [] name = Inr False"
| "name_open (None # rest) name = name_open rest name"
| "name_open (Some f # rest) name = (case of_fileName f of
      None \<Rightarrow> Inl NullPointer
    | Some fileName \<Rightarrow> if fileName = name then Inr True else name_open rest name)"

definition fs_Remove :: "'h unix \<Rightarrow> string \<Rightarrow> 'h FileSystem \<Rightarrow> (bool \<times> 'h FileSystem) result" where
  "fs_Remove u name fs =
     rbind (name_open (drop 2 (gtable fs)) name) (\<lambda>opened.
     if opened then Inr (False, fs)
     else (let (failed, h1) = Unlink u name (host fs) in Inr (\<not> failed, fs\<lparr>host := h1\<rparr>)))"

text \<open>
  The loop over console input stops at the character -1, to which \<^verbatim>\<open>EOF\<close> is converted; it is stored but not counted.
\<close>

fun console_in :: "'h unix \<Rightarrow> nat \<Rightarrow> 'h \<Rightarrow> (int \<times> byte list) \<times> 'h" where
  "console_in u 0 h = ((0, []), h)"
| "console_in u (Suc n) h = (let (c, h1) = u_getchar u h in
     if c = -1 then ((0, [c]), h1)
     else (let ((k, bs), h2) = console_in u n h1 in ((k + 1, c # bs), h2)))"

definition console_out :: "'h unix \<Rightarrow> byte list \<Rightarrow> 'h \<Rightarrow> 'h" where
  "console_out u bs h = fold (u_putchar u) bs h"

definition file_Read :: "'h unix \<Rightarrow> int \<Rightarrow> int \<Rightarrow> 'h FileSystem \<Rightarrow> ((int \<times> byte list) \<times> 'h FileSystem) result" where
  "file_Read u slot count fs =
     rbind (OpenFile_Read u (the (gtable fs ! nat slot)) count (host fs)) (\<lambda>(r, f, h1).
     Inr (r, set_slot (fs\<lparr>host := h1\<rparr>) slot (Some f)))"

definition file_Write :: "'h unix \<Rightarrow> int \<Rightarrow> byte list \<Rightarrow> 'h FileSystem \<Rightarrow> (int \<times> 'h FileSystem) result" where
  "file_Write u slot bs fs =
     rbind (OpenFile_Write u (the (gtable fs ! nat slot)) bs (host fs)) (\<lambda>(r, f, h1).
     Inr (r, set_slot (fs\<lparr>host := h1\<rparr>) slot (Some f)))"

definition fs_Read :: "'h unix \<Rightarrow> int \<Rightarrow> int \<Rightarrow> 'h FileSystem \<Rightarrow> ((int \<times> byte list) \<times> 'h FileSystem) result" where
  "fs_Read u slot count fs =
     (if slot = 0 then (let (r, h1) = console_in u (nat count) (host fs) in Inr (r, fs\<lparr>host := h1\<rparr>))
      else if \<not> VALID_SLOT fs slot then Inr ((-1, []), fs)
      else file_Read u slot count fs)"

definition fs_Write :: "'h unix \<Rightarrow> int \<Rightarrow> byte list \<Rightarrow> 'h FileSystem \<Rightarrow> (int \<times> 'h FileSystem) result" where
  "fs_Write u slot bs fs =
     (if slot = 1 then Inr (int (length bs), fs\<lparr>host := console_out u bs (host fs)\<rparr>)
      else if \<not> VALID_SLOT fs slot then Inr (-1, fs)
      else if of_mode (the (gtable fs ! nat slot)) = MODE_READ then Inr (-1, fs)
      else file_Write u slot bs fs)"

definition fs_Seek :: "'h unix \<Rightarrow> int \<Rightarrow> int \<Rightarrow> 'h FileSystem \<Rightarrow> (int \<times> 'h FileSystem) result" where
  "fs_Seek u slot pos fs =
     (if \<not> VALID_SLOT fs slot then Inr (-1, fs)
      else rbind (OpenFile_Seek u (the (gtable fs ! nat slot)) pos (host fs)) (\<lambda>(r, f, h1).
           Inr (r, set_slot (fs\<lparr>host := h1\<rparr>) slot (Some f))))"

definition open_socket :: "'h FileSystem \<Rightarrow> int \<Rightarrow> bool" where
  "open_socket fs slot \<longleftrightarrow> VALID_SLOT fs slot \<and> of_isSocket (the (gtable fs ! nat slot))"

definition fs_CreateTCPSocket :: "'h unix \<Rightarrow> 'h FileSystem \<Rightarrow> (int \<times> 'h FileSystem) result" where
  "fs_CreateTCPSocket u fs =
     (let slot = fs_findFreeSlot fs in
      if slot = -1 then Inr (-1, fs)
      else rbind (OpenSocketInternet u (host fs)) (\<lambda>(fd, h1).
           if fd < -1 then Inr (-1, fs\<lparr>host := h1\<rparr>)
           else Inr (slot, set_slot (fs\<lparr>host := h1\<rparr>) slot (Some (new_OpenFile fd MODE_READWRITE None True)))))"

definition fs_ConnectTCPSocket :: "'h unix \<Rightarrow> int \<Rightarrow> string \<Rightarrow> int \<Rightarrow> 'h FileSystem \<Rightarrow> (int \<times> 'h FileSystem) result" where
  "fs_ConnectTCPSocket u slot ip port fs =
     (if \<not> open_socket fs slot then Inr (-1, fs)
      else (let (r, h1) = Connect u (of_fd (the (gtable fs ! nat slot))) ip port (host fs) in Inr (r, fs\<lparr>host := h1\<rparr>)))"

definition fs_SendData :: "'h unix \<Rightarrow> int \<Rightarrow> byte list \<Rightarrow> 'h FileSystem \<Rightarrow> (int \<times> 'h FileSystem) result" where
  "fs_SendData u slot bs fs = (if \<not> open_socket fs slot then Inr (-1, fs) else file_Write u slot bs fs)"

definition fs_ReceiveData :: "'h unix \<Rightarrow> int \<Rightarrow> int \<Rightarrow> 'h FileSystem \<Rightarrow> ((int \<times> byte list) \<times> 'h FileSystem) result" where
  "fs_ReceiveData u slot count fs = (if \<not> open_socket fs slot then Inr ((-1, []), fs) else file_Read u slot count fs)"

definition fs_CloseTCPSocket :: "'h unix \<Rightarrow> int \<Rightarrow> 'h FileSystem \<Rightarrow> (bool \<times> 'h FileSystem) result" where
  "fs_CloseTCPSocket u slot fs =
     (if \<not> open_socket fs slot then Inr (False, fs)
      else rbind (delete_OpenFile u (the (gtable fs ! nat slot)) (host fs)) (\<lambda>h1.
           Inr (True, set_slot (fs\<lparr>host := h1\<rparr>) slot None)))"

section \<open>The table of a process\<close>

text \<open>A \<^verbatim>\<open>FileTable\<close> is its array \<^verbatim>\<open>table\<close> of global slots; -1 is a free entry.\<close>

type_synonym FileTable = "int list"

definition valid_local :: "FileTable \<Rightarrow> int \<Rightarrow> bool" where
  "valid_local t slot \<longleftrightarrow> slot \<ge> 0 \<and> slot < NumOpenFilesPerProcess \<and> t ! nat slot \<noteq> -1"

definition new_FileTable :: FileTable where
  "new_FileTable = (replicate (nat NumOpenFilesPerProcess) (-1))[0 := 0, 1 := 1]"

definition ft_findFreeSlot :: "FileTable \<Rightarrow> int" where
  "ft_findFreeSlot t = (case find (\<lambda>i. t ! nat i = -1) [0..NumOpenFilesPerProcess - 1] of None \<Rightarrow> -1 | Some i \<Rightarrow> i)"

definition ft_Open :: "'h unix \<Rightarrow> string \<Rightarrow> int \<Rightarrow> FileTable \<Rightarrow> 'h FileSystem \<Rightarrow> (int \<times> FileTable \<times> 'h FileSystem) result" where
  "ft_Open u name mode t fs =
     (let slot = ft_findFreeSlot t in
      if slot = -1 then Inr (-1, t, fs)
      else rbind (fs_Open u name mode fs) (\<lambda>(fd, fs1).
           if fd < 0 then Inr (-1, t, fs1) else Inr (slot, t[nat slot := fd], fs1)))"

definition ft_Close :: "'h unix \<Rightarrow> int \<Rightarrow> FileTable \<Rightarrow> 'h FileSystem \<Rightarrow> (bool \<times> FileTable \<times> 'h FileSystem) result" where
  "ft_Close u slot t fs =
     (if \<not> valid_local t slot then Inr (False, t, fs)
      else rbind (fs_Close u (t ! nat slot) fs) (\<lambda>(r, fs1). Inr (r, t[nat slot := -1], fs1)))"

definition ft_Read :: "'h unix \<Rightarrow> int \<Rightarrow> int \<Rightarrow> FileTable \<Rightarrow> 'h FileSystem \<Rightarrow> ((int \<times> byte list) \<times> 'h FileSystem) result" where
  "ft_Read u slot count t fs = (if \<not> valid_local t slot then Inr ((-1, []), fs) else fs_Read u (t ! nat slot) count fs)"

definition ft_Write :: "'h unix \<Rightarrow> int \<Rightarrow> byte list \<Rightarrow> FileTable \<Rightarrow> 'h FileSystem \<Rightarrow> (int \<times> 'h FileSystem) result" where
  "ft_Write u slot bs t fs = (if \<not> valid_local t slot then Inr (-1, fs) else fs_Write u (t ! nat slot) bs fs)"

definition ft_Seek :: "'h unix \<Rightarrow> int \<Rightarrow> int \<Rightarrow> FileTable \<Rightarrow> 'h FileSystem \<Rightarrow> (int \<times> 'h FileSystem) result" where
  "ft_Seek u slot pos t fs = (if \<not> valid_local t slot then Inr (-1, fs) else fs_Seek u (t ! nat slot) pos fs)"

definition ft_CreateTCPSocket :: "'h unix \<Rightarrow> FileTable \<Rightarrow> 'h FileSystem \<Rightarrow> (int \<times> FileTable \<times> 'h FileSystem) result" where
  "ft_CreateTCPSocket u t fs =
     (let slot = ft_findFreeSlot t in
      if slot = -1 then Inr (-1, t, fs)
      else rbind (fs_CreateTCPSocket u fs) (\<lambda>(fd, fs1).
           if fd < 0 then Inr (-1, t, fs1) else Inr (slot, t[nat slot := fd], fs1)))"

definition ft_ConnectTCPSocket :: "'h unix \<Rightarrow> int \<Rightarrow> string \<Rightarrow> int \<Rightarrow> FileTable \<Rightarrow> 'h FileSystem \<Rightarrow> (int \<times> 'h FileSystem) result" where
  "ft_ConnectTCPSocket u slot ip port t fs =
     (if \<not> valid_local t slot then Inr (-1, fs) else fs_ConnectTCPSocket u (t ! nat slot) ip port fs)"

definition ft_SendData :: "'h unix \<Rightarrow> int \<Rightarrow> byte list \<Rightarrow> FileTable \<Rightarrow> 'h FileSystem \<Rightarrow> (int \<times> 'h FileSystem) result" where
  "ft_SendData u slot bs t fs = (if \<not> valid_local t slot then Inr (-1, fs) else fs_SendData u (t ! nat slot) bs fs)"

definition ft_ReceiveData :: "'h unix \<Rightarrow> int \<Rightarrow> int \<Rightarrow> FileTable \<Rightarrow> 'h FileSystem \<Rightarrow> ((int \<times> byte list) \<times> 'h FileSystem) result" where
  "ft_ReceiveData u slot count t fs =
     (if \<not> valid_local t slot then Inr ((-1, []), fs) else fs_ReceiveData u (t ! nat slot) count fs)"

definition ft_CloseTCPSocket :: "'h unix \<Rightarrow> int \<Rightarrow> FileTable \<Rightarrow> 'h FileSystem \<Rightarrow> (bool \<times> FileTable \<times> 'h FileSystem) result" where
  "ft_CloseTCPSocket u slot t fs =
     (if \<not> valid_local t slot then Inr (False, t, fs)
      else rbind (fs_CloseTCPSocket u (t ! nat slot) fs) (\<lambda>(r, fs1). Inr (r, t[nat slot := -1], fs1)))"

text \<open>The destructor closes the slots from 2 on, and asserts that each \<^verbatim>\<open>Close\<close> succeeds.\<close>

fun close_from :: "'h unix \<Rightarrow> int list \<Rightarrow> 'h FileSystem \<Rightarrow> 'h FileSystem result" where
  "close_from u [] fs = Inr fs"
| "close_from u (fd # rest) fs =
     (if fd = -1 then close_from u rest fs
      else rbind (fs_Close u fd fs) (\<lambda>(r, fs1). rbind (rassert r) (\<lambda>_. close_from u rest fs1)))"

definition delete_FileTable :: "'h unix \<Rightarrow> FileTable \<Rightarrow> 'h FileSystem \<Rightarrow> 'h FileSystem result" where
  "delete_FileTable u t fs = close_from u (drop 2 t) fs"

section \<open>System calls on files\<close>

datatype file_call = FCreate string | FOpen string int | FClose int | FRemove string | FRead int int
  | FWrite int "byte list" | FSeek int int | FSocket | FConnect int string int | FSend int "byte list"
  | FReceive int int | FCloseSocket int

text \<open>The effect of a call of a process on its table and the file system.\<close>

fun do_call :: "'h unix \<Rightarrow> file_call \<Rightarrow> FileTable \<Rightarrow> 'h FileSystem \<Rightarrow> (FileTable \<times> 'h FileSystem) result" where
  "do_call u (FCreate name) t fs = rbind (fs_Create u name fs) (\<lambda>(r, fs1). Inr (t, fs1))"
| "do_call u (FOpen name mode) t fs = rbind (ft_Open u name mode t fs) (\<lambda>(r, t1, fs1). Inr (t1, fs1))"
| "do_call u (FClose slot) t fs = rbind (ft_Close u slot t fs) (\<lambda>(r, t1, fs1). Inr (t1, fs1))"
| "do_call u (FRemove name) t fs = rbind (fs_Remove u name fs) (\<lambda>(r, fs1). Inr (t, fs1))"
| "do_call u (FRead slot n) t fs = rbind (ft_Read u slot n t fs) (\<lambda>(r, fs1). Inr (t, fs1))"
| "do_call u (FWrite slot bs) t fs = rbind (ft_Write u slot bs t fs) (\<lambda>(r, fs1). Inr (t, fs1))"
| "do_call u (FSeek slot pos) t fs = rbind (ft_Seek u slot pos t fs) (\<lambda>(r, fs1). Inr (t, fs1))"
| "do_call u FSocket t fs = rbind (ft_CreateTCPSocket u t fs) (\<lambda>(r, t1, fs1). Inr (t1, fs1))"
| "do_call u (FConnect slot ip port) t fs = rbind (ft_ConnectTCPSocket u slot ip port t fs) (\<lambda>(r, fs1). Inr (t, fs1))"
| "do_call u (FSend slot bs) t fs = rbind (ft_SendData u slot bs t fs) (\<lambda>(r, fs1). Inr (t, fs1))"
| "do_call u (FReceive slot n) t fs = rbind (ft_ReceiveData u slot n t fs) (\<lambda>(r, fs1). Inr (t, fs1))"
| "do_call u (FCloseSocket slot) t fs = rbind (ft_CloseTCPSocket u slot t fs) (\<lambda>(r, t1, fs1). Inr (t1, fs1))"

section \<open>The tables of all processes\<close>

definition global_slot :: "int \<Rightarrow> bool" where
  "global_slot s \<longleftrightarrow> RESERVED_FD \<le> s \<and> s < GlobalFileTableSize"

text \<open>
  Every local slot is free, a console (the first two only), or refers to an open file; two local slots, of the same or of different
  processes, never refer to the same open file.
\<close>

definition table_ok :: "OpenFile option list \<Rightarrow> FileTable \<Rightarrow> bool" where
  "table_ok g t \<longleftrightarrow> length t = nat NumOpenFilesPerProcess \<and>
     (\<forall>i < length t. t ! i = -1 \<or> i < 2 \<and> t ! i \<in> {0, 1} \<or> global_slot (t ! i) \<and> g ! nat (t ! i) \<noteq> None)"

definition files_ok :: "OpenFile option list \<Rightarrow> (nat \<rightharpoonup> FileTable) \<Rightarrow> bool" where
  "files_ok g tabs \<longleftrightarrow> length g = nat GlobalFileTableSize \<and> (\<forall>p t. tabs p = Some t \<longrightarrow> table_ok g t) \<and>
     (\<forall>p q t t' i j. tabs p = Some t \<longrightarrow> tabs q = Some t' \<longrightarrow> i < length t \<longrightarrow> j < length t' \<longrightarrow>
        global_slot (t ! i) \<longrightarrow> t ! i = t' ! j \<longrightarrow> p = q \<and> i = j)"

text \<open>The ways in which a call may change the two tables.\<close>

inductive table_change :: "FileTable \<Rightarrow> OpenFile option list \<Rightarrow> FileTable \<Rightarrow> OpenFile option list \<Rightarrow> bool" where
  tc_same: "table_change t g t g"
| tc_drop: "i < length t \<Longrightarrow> table_change t g (t[i := -1]) g"
| tc_touch: "i < length t \<Longrightarrow> global_slot (t ! i) \<Longrightarrow> table_change t g t (g[nat (t ! i) := Some f])"
| tc_alloc: "i < length t \<Longrightarrow> global_slot s \<Longrightarrow> g ! nat s = None \<Longrightarrow> table_change t g (t[i := s]) (g[nat s := Some f])"
| tc_close: "i < length t \<Longrightarrow> global_slot (t ! i) \<Longrightarrow> table_change t g (t[i := -1]) (g[nat (t ! i) := None])"

lemma global_slot_VALID: "VALID_SLOT fs s \<longleftrightarrow> global_slot s \<and> gtable fs ! nat s \<noteq> None"
  by (auto simp: VALID_SLOT_def global_slot_def)

lemma global_slot_nat: "global_slot s \<Longrightarrow> global_slot s' \<Longrightarrow> nat s = nat s' \<longleftrightarrow> s = s'"
  by (auto simp: global_slot_def nachos_consts)

lemma global_slot_special [simp]: "\<not> global_slot (-1)" "\<not> global_slot 0" "\<not> global_slot 1"
  by (simp_all add: global_slot_def nachos_consts)

lemma global_slot_length: "length g = nat GlobalFileTableSize \<Longrightarrow> global_slot s \<Longrightarrow> nat s < length g"
  by (auto simp: global_slot_def nachos_consts)

lemma table_ok_slot: "table_ok g t \<Longrightarrow> i < length t \<Longrightarrow> t ! i \<in> {-1, 0, 1} \<or> global_slot (t ! i) \<and> g ! nat (t ! i) \<noteq> None"
  by (auto simp: table_ok_def)

lemma files_okD:
  assumes "files_ok g tabs"
  shows "length g = nat GlobalFileTableSize" "tabs p = Some t \<Longrightarrow> table_ok g t"
    "tabs p = Some t \<Longrightarrow> tabs q = Some t' \<Longrightarrow> i < length t \<Longrightarrow> j < length t' \<Longrightarrow> global_slot (t ! i) \<Longrightarrow> t ! i = t' ! j \<Longrightarrow>
      p = q \<and> i = j"
  using assms unfolding files_ok_def by blast+

text \<open>Which open file a local slot of a process stands for.\<close>

definition file_at :: "OpenFile option list \<Rightarrow> FileTable \<Rightarrow> nat \<Rightarrow> OpenFile option" where
  "file_at g t i = (if global_slot (t ! i) then g ! nat (t ! i) else None)"

lemma files_ok_upd:
  assumes f: "files_ok g tabs" and p: "tabs p = Some t" and l: "length t' = length t" "length g' = length g"
    and own: "\<And>i. i < length t \<Longrightarrow> t' ! i \<noteq> t ! i \<Longrightarrow> t' ! i \<in> {-1} \<or> global_slot (t' ! i) \<and> g ! nat (t' ! i) = None \<and> g' ! nat (t' ! i) \<noteq> None \<and>
        (\<forall>j < length t. j \<noteq> i \<longrightarrow> t' ! j \<noteq> t' ! i)"
    and keep: "\<And>i. i < length t \<Longrightarrow> global_slot (t ! i) \<Longrightarrow> t' ! i = t ! i \<Longrightarrow> g' ! nat (t ! i) \<noteq> None"
    and oth: "\<And>s. global_slot s \<Longrightarrow> g' ! nat s = None \<Longrightarrow> g ! nat s \<noteq> None \<Longrightarrow> s \<in> set t"
  shows "files_ok g' (tabs(p \<mapsto> t'))"
proof -
  have tp: "table_ok g t" using files_okD(2) [OF f p] .
  have tp': "table_ok g' t'"
    unfolding table_ok_def
  proof (intro conjI allI impI)
    show "length t' = nat NumOpenFilesPerProcess" using tp l by (simp add: table_ok_def)
    fix i assume i: "i < length t'"
    show "t' ! i = -1 \<or> i < 2 \<and> t' ! i \<in> {0, 1} \<or> global_slot (t' ! i) \<and> g' ! nat (t' ! i) \<noteq> None"
    proof (cases "t' ! i = t ! i")
      case True
      have "t ! i = -1 \<or> i < 2 \<and> t ! i \<in> {0, 1} \<or> global_slot (t ! i)" using tp i l by (auto simp: table_ok_def)
      then show ?thesis using True keep [of i] i l by auto
    next
      case False
      then show ?thesis using own [of i] i l by auto
    qed
  qed
  have new: "g ! nat (t' ! i) = None" if "i < length t" "t' ! i \<noteq> t ! i" "global_slot (t' ! i)" for i
    using own [OF that(1,2)] that(3) by auto
  have tq: "table_ok g' tq" if q: "tabs q = Some tq" "q \<noteq> p" for q tq
  proof -
    have o: "table_ok g tq" using files_okD(2) [OF f q(1)] .
    have "g' ! nat (tq ! i) \<noteq> None" if i: "i < length tq" "global_slot (tq ! i)" for i
    proof
      assume n: "g' ! nat (tq ! i) = None"
      have "g ! nat (tq ! i) \<noteq> None" using table_ok_slot [OF o i(1)] i(2) by auto
      then have "tq ! i \<in> set t" using oth [OF i(2) n] by simp
      then obtain j where "j < length t" "t ! j = tq ! i" by (auto simp: in_set_conv_nth)
      then show False using files_okD(3) [OF f q(1) p i(1)] i(2) q(2) by metis
    qed
    then show ?thesis using o by (auto simp: table_ok_def)
  qed
  have sep: "p = q \<and> i = j" if q: "tabs q = Some tq" "q \<noteq> p" and ij: "i < length t'" "j < length tq" "global_slot (tq ! j)" "t' ! i = tq ! j" for q tq i j
  proof (cases "t' ! i = t ! i")
    case True
    have e: "t ! i = tq ! j" using True ij(4) by (rule trans [OF sym])
    have "global_slot (t ! i)" "i < length t" unfolding e using ij(1,3) l(1) by auto
    then show ?thesis using files_okD(3) [OF f p q(1) _ ij(2) _ e] by blast
  next
    case False
    then have "g ! nat (tq ! j) = None" using new [of i] ij l by simp
    then show ?thesis using table_ok_slot [OF files_okD(2) [OF f q(1)] ij(2)] ij(3) by auto
  qed
  have self: "i = j" if ij: "i < length t'" "j < length t'" "global_slot (t' ! i)" "t' ! i = t' ! j" for i j
  proof (cases "t' ! i = t ! i \<and> t' ! j = t ! j")
    case True
    have e: "t ! i = t ! j" using True ij(4) by metis
    have "global_slot (t ! i)" "i < length t" "j < length t" using True ij(1-3) l(1) by metis+
    then show ?thesis using files_okD(3) [OF f p p _ _ _ e] by blast
  next
    case False
    then show ?thesis using own [of i] own [of j] ij l(1) global_slot_special(1) by (metis singletonD)
  qed
  show ?thesis
    unfolding files_ok_def
  proof (intro conjI allI impI)
    show "length g' = nat GlobalFileTableSize" using files_okD(1) [OF f] l(2) by simp
    show "table_ok g' ta" if "(tabs(p \<mapsto> t')) a = Some ta" for a ta
      using that tp' tq [of a ta] by (cases "a = p") auto
    fix a b ta tb i j
    assume a: "(tabs(p \<mapsto> t')) a = Some ta" "(tabs(p \<mapsto> t')) b = Some tb" "i < length ta" "j < length tb"
      "global_slot (ta ! i)" "ta ! i = tb ! j"
    have "a = b \<and> i = j"
    proof (cases "a = p"; cases "b = p")
      assume "a = p" "b = p" then show ?thesis using a self [of i j] by simp
    next
      assume "a = p" "b \<noteq> p" then show ?thesis using a sep [of b tb i j] by simp
    next
      assume "a \<noteq> p" "b = p" then show ?thesis using a sep [of a ta j i] by simp
    next
      assume "a \<noteq> p" "b \<noteq> p" then show ?thesis using a files_okD(3) [OF f, of a ta b tb i j] by simp
    qed
    then show "a = b" "i = j" by simp_all
  qed
qed

lemma table_change_ok:
  assumes c: "table_change t g t' g'" and f: "files_ok g tabs" and p: "tabs p = Some t"
  shows "files_ok g' (tabs(p \<mapsto> t'))"
proof -
  have tp: "table_ok g t" using files_okD(2) [OF f p] .
  have lg: "nat s < length g" if "global_slot s" for s using global_slot_length [OF files_okD(1) [OF f] that] .
  have sep: "i = j" if "i < length t" "j < length t" "global_slot (t ! i)" "t ! i = t ! j" for i j
    using files_okD(3) [OF f p p that] by simp
  show ?thesis using c
  proof (cases rule: table_change.cases)
    case tc_same
    then show ?thesis using f p by (simp add: fun_upd_idem)
  next
    case (tc_drop i)
    show ?thesis
    proof (rule files_ok_upd [OF f p])
      show "g' ! nat (t ! j) \<noteq> None" if "j < length t" "global_slot (t ! j)" for j
        using table_ok_slot [OF tp that(1)] that(2) tc_drop(2) by auto
    qed (use tc_drop in \<open>auto simp: nth_list_update split: if_splits\<close>)
  next
    case (tc_touch i x)
    show ?thesis
    proof (rule files_ok_upd [OF f p])
      show "g' ! nat (t ! j) \<noteq> None" if "j < length t" "global_slot (t ! j)" for j
        using table_ok_slot [OF tp that(1)] that(2) tc_touch lg [OF tc_touch(4)] by (auto simp: nth_list_update)
    qed (use tc_touch lg [OF tc_touch(4)] in \<open>auto simp: nth_list_update split: if_splits\<close>)
  next
    case (tc_alloc i s x)
    have n: "t ! j \<noteq> s" if "j < length t" for j using table_ok_slot [OF tp that] tc_alloc(4,5) by auto
    show ?thesis
    proof (rule files_ok_upd [OF f p])
      show "t' ! j \<in> {-1} \<or> global_slot (t' ! j) \<and> g ! nat (t' ! j) = None \<and> g' ! nat (t' ! j) \<noteq> None \<and>
          (\<forall>l < length t. l \<noteq> j \<longrightarrow> t' ! l \<noteq> t' ! j)" if "j < length t" "t' ! j \<noteq> t ! j" for j
        using that tc_alloc n lg [OF tc_alloc(4)] by (auto simp: nth_list_update split: if_splits)
      show "g' ! nat (t ! j) \<noteq> None" if "j < length t" "global_slot (t ! j)" "t' ! j = t ! j" for j
        using that tc_alloc table_ok_slot [OF tp that(1)] lg [OF tc_alloc(4)] by (auto simp: nth_list_update)
      show "s' \<in> set t" if "global_slot s'" "g' ! nat s' = None" "g ! nat s' \<noteq> None" for s'
        using that tc_alloc lg [OF tc_alloc(4)] by (auto simp: nth_list_update split: if_splits)
    qed (use tc_alloc in auto)
  next
    case (tc_close i)
    have u: "nat (t ! j) \<noteq> nat (t ! i)" if "j < length t" "global_slot (t ! j)" "j \<noteq> i" for j
      using sep [of j i] that tc_close(3,4) global_slot_nat [of "t ! j" "t ! i"] by auto
    show ?thesis
    proof (rule files_ok_upd [OF f p])
      show "g' ! nat (t ! j) \<noteq> None" if "j < length t" "global_slot (t ! j)" "t' ! j = t ! j" for j
      proof (cases "j = i")
        case True
        then have "t ! i = -1" using that tc_close(1,3) by simp
        then show ?thesis using tc_close(4) global_slot_special(1) by metis
      next
        case False
        then show ?thesis using u [OF that(1,2) False] table_ok_slot [OF tp that(1)] that(2) tc_close(2) by auto
      qed
      show "s' \<in> set t" if "global_slot s'" "g' ! nat s' = None" "g ! nat s' \<noteq> None" for s'
        using that tc_close global_slot_nat [OF that(1) tc_close(4)] by (auto simp: nth_list_update split: if_splits)
    qed (use tc_close in \<open>auto simp: nth_list_update split: if_splits\<close>)
  qed
qed

lemma table_change_isolated:
  assumes c: "table_change t g t' g'" and f: "files_ok g tabs" and p: "tabs p = Some t" and q: "tabs q = Some tq" "q \<noteq> p"
    and i: "i < length tq"
  shows "file_at g' tq i = file_at g tq i"
proof (cases "global_slot (tq ! i)")
  case True
  have no: "nat s \<noteq> nat (tq ! i)" if gs: "global_slot s" "s \<in> set t \<or> g ! nat s = None" for s
  proof
    assume "nat s = nat (tq ! i)"
    then have e: "s = tq ! i" using global_slot_nat [OF gs(1) True] by simp
    have "g ! nat s \<noteq> None" using table_ok_slot [OF files_okD(2) [OF f q(1)] i] True e by auto
    then obtain j where "j < length t" "t ! j = tq ! i" using gs(2) e by (auto simp: in_set_conv_nth)
    then show False using files_okD(3) [OF f p q(1) _ i] True q(2) by metis
  qed
  show ?thesis using c
    by (cases rule: table_change.cases) (use no True in \<open>auto simp: file_at_def nth_list_update\<close>)
qed (simp add: file_at_def)

lemma find_upto_Some:
  "find P [a..b] = Some i \<Longrightarrow> P i \<and> a \<le> i \<and> i \<le> b"
  by (auto simp: find_Some_iff nth_upto)

lemma fs_findFreeSlot_free:
  assumes "fs_findFreeSlot fs \<noteq> -1"
  shows "global_slot (fs_findFreeSlot fs)" "gtable fs ! nat (fs_findFreeSlot fs) = None"
  using assms find_upto_Some [of _ RESERVED_FD "GlobalFileTableSize - 1"]
  by (auto simp: fs_findFreeSlot_def global_slot_def split: option.splits dest!: find_upto_Some)

lemma ft_findFreeSlot_range:
  assumes "table_ok g t" "ft_findFreeSlot t \<noteq> -1"
  shows "nat (ft_findFreeSlot t) < length t"
  using assms by (auto simp: ft_findFreeSlot_def table_ok_def split: option.splits dest!: find_upto_Some)

lemma valid_local_slot:
  assumes "table_ok g t" "valid_local t slot"
  shows "nat slot < length t"
  using assms by (auto simp: valid_local_def table_ok_def nachos_consts)

lemma alloc_change:
  assumes t: "table_ok (gtable fs) t" and s: "ft_findFreeSlot t \<noteq> -1" and f: "fs_findFreeSlot fs \<noteq> -1"
  shows "table_change t (gtable fs) (t[nat (ft_findFreeSlot t) := fs_findFreeSlot fs])
    (gtable (set_slot (fs\<lparr>host := h\<rparr>) (fs_findFreeSlot fs) (Some x)))"
  using tc_alloc [OF ft_findFreeSlot_range [OF t s] fs_findFreeSlot_free [OF f], of x] by (simp add: set_slot_def)

lemma touch_change:
  assumes t: "table_ok (gtable fs) t" and l: "valid_local t slot" and v: "VALID_SLOT fs (t ! nat slot)"
  shows "table_change t (gtable fs) t (gtable (set_slot (fs\<lparr>host := h\<rparr>) (t ! nat slot) (Some x)))"
  using tc_touch [OF valid_local_slot [OF t l], of "gtable fs" x] v by (simp add: set_slot_def global_slot_VALID)

lemma close_change:
  assumes t: "table_ok (gtable fs) t" and l: "valid_local t slot" and v: "VALID_SLOT fs (t ! nat slot)"
  shows "table_change t (gtable fs) (t[nat slot := -1]) (gtable (set_slot (fs\<lparr>host := h\<rparr>) (t ! nat slot) None))"
  using tc_close [OF valid_local_slot [OF t l], of "gtable fs"] v by (simp add: set_slot_def global_slot_VALID)

lemma drop_change:
  assumes t: "table_ok (gtable fs) t" and l: "valid_local t slot"
  shows "table_change t (gtable fs) (t[nat slot := -1]) (gtable fs)"
  using tc_drop [OF valid_local_slot [OF t l]] .

definition is_create :: "file_call \<Rightarrow> bool" where
  "is_create c \<longleftrightarrow> (case c of FCreate name \<Rightarrow> True | _ \<Rightarrow> False)"

lemma file_Read_change:
  assumes "table_ok (gtable fs) t" "valid_local t slot" "VALID_SLOT fs (t ! nat slot)" "file_Read u (t ! nat slot) n fs = Inr (r, fs')"
  shows "table_change t (gtable fs) t (gtable fs')"
  using assms touch_change [OF assms(1-3)] by (auto simp: file_Read_def rbind_eq_Inr)

lemma file_Write_change:
  assumes "table_ok (gtable fs) t" "valid_local t slot" "VALID_SLOT fs (t ! nat slot)" "file_Write u (t ! nat slot) bs fs = Inr (r, fs')"
  shows "table_change t (gtable fs) t (gtable fs')"
  using assms touch_change [OF assms(1-3)] by (auto simp: file_Write_def rbind_eq_Inr)

lemma do_call_change:
  assumes t: "table_ok (gtable fs) t" and r: "do_call u c t fs = Inr (t', fs')" and n: "\<not> is_create c"
  shows "table_change t (gtable fs) t' (gtable fs')"
proof (cases c)
  case (FCreate name) then show ?thesis using n by (simp add: is_create_def)
next
  case (FOpen name mode)
  show ?thesis
  proof (cases "ft_findFreeSlot t = -1 \<or> fs_findFreeSlot fs = -1")
    case True
    then show ?thesis using r FOpen
      by (auto simp: ft_Open_def fs_Open_def Let_def rbind_eq_Inr OpenForRead_def OpenForReadWrite_def tc_same split: if_splits prod.splits)
  next
    case False
    then have "\<not> fs_findFreeSlot fs < 0" using fs_findFreeSlot_free(1) [of fs] by (auto simp: global_slot_def nachos_consts)
    then show ?thesis using False r FOpen alloc_change [OF t]
      by (auto simp: ft_Open_def fs_Open_def Let_def rbind_eq_Inr OpenForRead_def OpenForReadWrite_def tc_same set_slot_def
        split: if_splits prod.splits)
  qed
next
  case (FClose slot)
  then show ?thesis using r close_change [OF t, of slot] drop_change [OF t, of slot]
    by (auto simp: ft_Close_def fs_Close_def rbind_eq_Inr tc_same split: if_splits)
next
  case (FRemove name)
  then show ?thesis using r by (auto simp: fs_Remove_def rbind_eq_Inr tc_same split: if_splits prod.splits)
next
  case (FRead slot k)
  then show ?thesis using r file_Read_change [OF t, of slot u k]
    by (auto simp: ft_Read_def fs_Read_def rbind_eq_Inr tc_same split: if_splits prod.splits)
next
  case (FWrite slot bs)
  then show ?thesis using r file_Write_change [OF t, of slot u bs]
    by (auto simp: ft_Write_def fs_Write_def rbind_eq_Inr tc_same split: if_splits prod.splits)
next
  case (FSeek slot pos)
  then show ?thesis using r touch_change [OF t, of slot]
    by (auto simp: ft_Seek_def fs_Seek_def rbind_eq_Inr tc_same split: if_splits prod.splits)
next
  case FSocket
  show ?thesis
  proof (cases "ft_findFreeSlot t = -1 \<or> fs_findFreeSlot fs = -1")
    case True
    then show ?thesis using r FSocket
      by (auto simp: ft_CreateTCPSocket_def fs_CreateTCPSocket_def Let_def rbind_eq_Inr tc_same split: if_splits prod.splits)
  next
    case False
    then have "\<not> fs_findFreeSlot fs < 0" using fs_findFreeSlot_free(1) [of fs] by (auto simp: global_slot_def nachos_consts)
    then show ?thesis using False r FSocket alloc_change [OF t]
      by (auto simp: ft_CreateTCPSocket_def fs_CreateTCPSocket_def Let_def rbind_eq_Inr OpenSocketInternet_def tc_same set_slot_def
        split: if_splits prod.splits)
  qed
next
  case (FConnect slot ip port)
  then show ?thesis using r
    by (auto simp: ft_ConnectTCPSocket_def fs_ConnectTCPSocket_def rbind_eq_Inr tc_same split: if_splits prod.splits)
next
  case (FSend slot bs)
  then show ?thesis using r file_Write_change [OF t, of slot u bs]
    by (auto simp: ft_SendData_def fs_SendData_def open_socket_def rbind_eq_Inr tc_same split: if_splits prod.splits)
next
  case (FReceive slot k)
  then show ?thesis using r file_Read_change [OF t, of slot u k]
    by (auto simp: ft_ReceiveData_def fs_ReceiveData_def open_socket_def rbind_eq_Inr tc_same split: if_splits prod.splits)
next
  case (FCloseSocket slot)
  then show ?thesis using r close_change [OF t, of slot] drop_change [OF t, of slot]
    by (auto simp: ft_CloseTCPSocket_def fs_CloseTCPSocket_def open_socket_def rbind_eq_Inr tc_same split: if_splits)
qed

section \<open>What a call does to the host\<close>

text \<open>The descriptors of the files open in a process, and the names of all open files.\<close>

definition own_fds :: "OpenFile option list \<Rightarrow> FileTable \<Rightarrow> int set" where
  "own_fds g t = {of_fd f |f i. i < length t \<and> file_at g t i = Some f}"

definition open_names :: "OpenFile option list \<Rightarrow> string set" where
  "open_names g = {n. \<exists>i f. 2 \<le> i \<and> i < length g \<and> g ! i = Some f \<and> of_fileName f = Some n}"

lemma name_open_False: "name_open xs name = Inr False \<Longrightarrow> Some f \<in> set xs \<Longrightarrow> of_fileName f \<noteq> Some name"
  by (induction xs name rule: name_open.induct) (auto split: option.splits if_splits)

lemma not_open_name:
  assumes "name_open (drop 2 g) name = Inr False"
  shows "name \<notin> open_names g"
proof
  assume "name \<in> open_names g"
  then obtain i f where i: "2 \<le> i" "i < length g" "g ! i = Some f" "of_fileName f = Some name" by (auto simp: open_names_def)
  obtain j where "i = 2 + j" using le_Suc_ex [OF i(1)] by blast
  then have "drop 2 g ! j = Some f" "j < length (drop 2 g)" using i by simp_all
  then have "Some f \<in> set (drop 2 g)" by (metis nth_mem)
  then show False using name_open_False [OF assms] i(4) by blast
qed

lemma own_fds_slot:
  assumes "table_ok (gtable fs) t" "valid_local t slot" "VALID_SLOT fs (t ! nat slot)"
  shows "{of_fd (the (gtable fs ! nat (t ! nat slot)))} \<subseteq> own_fds (gtable fs) t"
proof -
  have "file_at (gtable fs) t (nat slot) = Some (the (gtable fs ! nat (t ! nat slot)))"
    using assms(3) by (auto simp: file_at_def global_slot_VALID)
  then show ?thesis using valid_local_slot [OF assms(1,2)] by (auto simp: own_fds_def)
qed

lemma file_Read_host: "file_Read u s n fs = Inr (r, fs') \<Longrightarrow> uses u {of_fd (the (gtable fs ! nat s))} (host fs) (host fs')"
  by (auto simp: file_Read_def rbind_eq_Inr set_slot_def dest: OpenFile_Read_uses)

lemma file_Write_host: "file_Write u s bs fs = Inr (r, fs') \<Longrightarrow> uses u {of_fd (the (gtable fs ! nat s))} (host fs) (host fs')"
  by (auto simp: file_Write_def rbind_eq_Inr set_slot_def dest: OpenFile_Write_uses)

lemma console_in_uses: "uses u F h0 h \<Longrightarrow> uses u F h0 (snd (console_in u n h))"
proof (induction n arbitrary: h)
  case (Suc n)
  have "uses u F h0 (snd (u_getchar u h))" using Suc.prems by (rule uses_getchar)
  then show ?case using Suc.IH [of "snd (u_getchar u h)"] by (simp add: Let_def split_beta)
qed simp

lemma console_out_uses: "uses u F h0 h \<Longrightarrow> uses u F h0 (console_out u bs h)"
  unfolding console_out_def by (induction bs arbitrary: h) (simp_all add: uses_putchar)

lemma close_host:
  "delete_OpenFile u f h = Inr h' \<Longrightarrow> h' = snd (u_close u (of_fd f) h)"
  by (auto simp: delete_OpenFile_def Close_fd_def rbind_eq_Inr split: prod.splits)

lemma ReadWrite_host:
  assumes t: "table_ok (gtable fs) t" and v: "valid_local t slot"
  shows "fs_Read u (t ! nat slot) n fs = Inr (r, fs') \<Longrightarrow> uses u (own_fds (gtable fs) t) (host fs) (host fs')"
    "fs_Write u (t ! nat slot) bs fs = Inr (q, fs') \<Longrightarrow> uses u (own_fds (gtable fs) t) (host fs) (host fs')"
proof -
  have o: "uses u (own_fds (gtable fs) t) (host fs) h'"
    if "VALID_SLOT fs (t ! nat slot)" "uses u {of_fd (the (gtable fs ! nat (t ! nat slot)))} (host fs) h'" for h'
    using uses_mono [OF that(2) own_fds_slot [OF t v that(1)]] .
  show "fs_Read u (t ! nat slot) n fs = Inr (r, fs') \<Longrightarrow> uses u (own_fds (gtable fs) t) (host fs) (host fs')"
    using o console_in_uses [OF uses_refl, of u _ "host fs" "nat n"]
    by (fastforce simp: fs_Read_def uses_refl split: if_splits prod.splits dest: file_Read_host)
  show "fs_Write u (t ! nat slot) bs fs = Inr (q, fs') \<Longrightarrow> uses u (own_fds (gtable fs) t) (host fs) (host fs')"
    using o console_out_uses [OF uses_refl, of u _ "host fs" bs]
    by (fastforce simp: fs_Write_def uses_refl split: if_splits dest: file_Write_host)
qed

lemma do_call_host:
  assumes t: "table_ok (gtable fs) t" and r: "do_call u c t fs = Inr (t', fs')" and n: "\<not> is_create c"
  shows "host_calls u (own_fds (gtable fs) t) (open_names (gtable fs)) (host fs) (host fs')"
proof -
  let ?F = "own_fds (gtable fs) t"
  have o: "host_calls u ?F (open_names (gtable fs)) (host fs) h'"
    if "valid_local t s" "VALID_SLOT fs (t ! nat s)" "uses u {of_fd (the (gtable fs ! nat (t ! nat s)))} (host fs) h'" for s h'
    using uses_mono [OF that(3) own_fds_slot [OF t that(1,2)]] by (rule host_callsI)
  have cl: "host_calls u ?F (open_names (gtable fs)) (host fs) h'"
    if "valid_local t s" "VALID_SLOT fs (t ! nat s)" "delete_OpenFile u (the (gtable fs ! nat (t ! nat s))) (host fs) = Inr h'" for s h'
    using own_fds_slot [OF t that(1,2)] close_host [OF that(3)] by (auto intro: host_callsI)
  have id: "host_calls u ?F (open_names (gtable fs)) (host fs) (host fs)" by (rule host_callsI) (rule uses_refl)
  show ?thesis
  proof (cases c)
    case (FCreate name) then show ?thesis using n by (simp add: is_create_def)
  next
    case (FOpen name mode)
    then show ?thesis using r id
      by (auto simp: ft_Open_def fs_Open_def Let_def rbind_eq_Inr OpenForRead_def OpenForReadWrite_def set_slot_def
        split: if_splits prod.splits intro: host_callsI(2))
  next
    case (FClose slot)
    then show ?thesis using r id cl
      by (auto simp: ft_Close_def fs_Close_def rbind_eq_Inr set_slot_def split: if_splits)
  next
    case (FRemove name)
    then show ?thesis using r id not_open_name [of "gtable fs" name]
      by (auto simp: fs_Remove_def Unlink_def rbind_eq_Inr split: if_splits prod.splits intro: host_callsI)
  next
    case (FRead slot k)
    then show ?thesis using r id ReadWrite_host(1) [OF t]
      by (auto simp: ft_Read_def rbind_eq_Inr split: if_splits intro: host_callsI(1))
  next
    case (FWrite slot bs)
    then show ?thesis using r id ReadWrite_host(2) [OF t]
      by (auto simp: ft_Write_def rbind_eq_Inr split: if_splits intro: host_callsI(1))
  next
    case (FSeek slot pos)
    then show ?thesis using r id o
      by (auto simp: ft_Seek_def fs_Seek_def rbind_eq_Inr set_slot_def split: if_splits dest: OpenFile_Seek_uses)
  next
    case FSocket
    have "host_calls u ?F (open_names (gtable fs)) (host fs) (host fs1)" if "fs_CreateTCPSocket u fs = Inr (k, fs1)" for k fs1
      using that id host_callsI(3) [of u "host fs"]
      by (cases "u_socket u (host fs)") (auto simp: fs_CreateTCPSocket_def Let_def rbind_eq_Inr OpenSocketInternet_def set_slot_def split: if_splits)
    then show ?thesis using r id FSocket by (auto simp: ft_CreateTCPSocket_def Let_def rbind_eq_Inr split: if_splits)
  next
    case (FConnect slot ip port)
    have "uses u {fd} (host fs) h'" if "u_connect u fd ip port (host fs) = (k, h')" for fd k h'
      using uses_connect [OF uses_refl, of fd "{fd}" u "host fs" ip port] that by simp
    then show ?thesis using r id o FConnect
      by (fastforce simp: ft_ConnectTCPSocket_def fs_ConnectTCPSocket_def open_socket_def Connect_def rbind_eq_Inr
        split: if_splits prod.splits)
  next
    case (FSend slot bs)
    then show ?thesis using r id o file_Write_host
      by (fastforce simp: ft_SendData_def fs_SendData_def open_socket_def rbind_eq_Inr split: if_splits)
  next
    case (FReceive slot k)
    then show ?thesis using r id o file_Read_host
      by (fastforce simp: ft_ReceiveData_def fs_ReceiveData_def open_socket_def rbind_eq_Inr split: if_splits)
  next
    case (FCloseSocket slot)
    then show ?thesis using r id cl
      by (auto simp: ft_CloseTCPSocket_def fs_CloseTCPSocket_def open_socket_def rbind_eq_Inr set_slot_def split: if_splits)
  qed
qed

section \<open>Open files have open descriptors\<close>

text \<open>The descriptors of the files in the global table are open at the host, and no two slots have the same one.\<close>

definition slots_open :: "('h \<Rightarrow> int set) \<Rightarrow> 'h FileSystem \<Rightarrow> bool" where
  "slots_open fds fs \<longleftrightarrow> length (gtable fs) = nat GlobalFileTableSize \<and>
     (\<forall>i < length (gtable fs). \<forall>f. gtable fs ! i = Some f \<longrightarrow> of_fd f \<in> fds (host fs)) \<and>
     (\<forall>i < length (gtable fs). \<forall>j < length (gtable fs). \<forall>f f'. gtable fs ! i = Some f \<longrightarrow> gtable fs ! j = Some f' \<longrightarrow>
        of_fd f = of_fd f' \<longrightarrow> i = j)"

lemma slots_open_host: "slots_open fds fs \<Longrightarrow> fds h' = fds (host fs) \<Longrightarrow> slots_open fds (fs\<lparr>host := h'\<rparr>)"
  by (simp add: slots_open_def)

lemma slots_openD:
  assumes "slots_open fds fs"
  shows "length (gtable fs) = nat GlobalFileTableSize" "i < length (gtable fs) \<Longrightarrow> gtable fs ! i = Some f \<Longrightarrow> of_fd f \<in> fds (host fs)"
    "i < length (gtable fs) \<Longrightarrow> j < length (gtable fs) \<Longrightarrow> gtable fs ! i = Some f \<Longrightarrow> gtable fs ! j = Some f' \<Longrightarrow> of_fd f = of_fd f' \<Longrightarrow> i = j"
  using assms unfolding slots_open_def by blast+

text \<open>One slot changes.\<close>

lemma slots_open_upd:
  assumes o: "slots_open fds fs"
    and new: "\<And>f. x = Some f \<Longrightarrow> of_fd f \<in> fds h' \<and>
      (\<forall>i < length (gtable fs). \<forall>f'. i \<noteq> nat s \<longrightarrow> gtable fs ! i = Some f' \<longrightarrow> of_fd f' \<noteq> of_fd f)"
    and old: "\<And>i f'. i < length (gtable fs) \<Longrightarrow> i \<noteq> nat s \<Longrightarrow> gtable fs ! i = Some f' \<Longrightarrow> of_fd f' \<in> fds h'"
  shows "slots_open fds (set_slot (fs\<lparr>host := h'\<rparr>) s x)"
proof -
  let ?g = "(gtable fs)[nat s := x]"
  have n: "?g ! i = (if i = nat s then x else gtable fs ! i)" if "i < length (gtable fs)" for i using that by (simp add: nth_list_update)
  have "of_fd f \<in> fds h'" if "i < length (gtable fs)" "?g ! i = Some f" for i f
    using that n new old by (cases "i = nat s") auto
  moreover have "i = j" if a: "i < length (gtable fs)" "j < length (gtable fs)" "?g ! i = Some f" "?g ! j = Some f'" "of_fd f = of_fd f'" for i j f f'
  proof (cases "i = nat s \<or> j = nat s")
    case True
    have "x = Some f" if "i = nat s" using that n [OF a(1)] a(3) by simp
    moreover have "x = Some f'" if "j = nat s" using that n [OF a(2)] a(4) by simp
    moreover have "gtable fs ! i = Some f" if "i \<noteq> nat s" using that n [OF a(1)] a(3) by simp
    moreover have "gtable fs ! j = Some f'" if "j \<noteq> nat s" using that n [OF a(2)] a(4) by simp
    ultimately show ?thesis using True new a(1,2,5) by metis
  next
    case False
    then have "gtable fs ! i = Some f" "gtable fs ! j = Some f'" using n [OF a(1)] n [OF a(2)] a(3,4) by simp_all
    then show ?thesis using slots_openD(3) [OF o a(1,2)] a(5) by blast
  qed
  ultimately show ?thesis using slots_openD(1) [OF o] by (simp add: slots_open_def set_slot_def)
qed

lemma VALID_index: "slots_open fds fs \<Longrightarrow> VALID_SLOT fs s \<Longrightarrow> nat s < length (gtable fs)"
  using global_slot_length [of "gtable fs" s] slots_openD(1) [of fds fs] by (simp add: global_slot_VALID)

lemma slots_open_touch:
  assumes "slots_open fds fs" "VALID_SLOT fs s" "of_fd f' = of_fd (the (gtable fs ! nat s))" "fds h' = fds (host fs)"
  shows "slots_open fds (set_slot (fs\<lparr>host := h'\<rparr>) s (Some f'))"
proof -
  obtain f where f: "gtable fs ! nat s = Some f" using assms(2) by (auto simp: VALID_SLOT_def)
  have i: "nat s < length (gtable fs)" by (rule VALID_index [OF assms(1,2)])
  have sep: "of_fd f'' \<noteq> of_fd f" if "j < length (gtable fs)" "j \<noteq> nat s" "gtable fs ! j = Some f''" for j f''
    using slots_openD(3) [OF assms(1) that(1) i that(3) f] that(2) by blast
  have e: "of_fd f' = of_fd f" "of_fd f \<in> fds h'" using assms(3,4) f slots_openD(2) [OF assms(1) i f] by simp_all
  show ?thesis
  proof (rule slots_open_upd [OF assms(1)])
    show "of_fd g \<in> fds h' \<and> (\<forall>i < length (gtable fs). \<forall>f''. i \<noteq> nat s \<longrightarrow> gtable fs ! i = Some f'' \<longrightarrow> of_fd f'' \<noteq> of_fd g)"
      if "Some f' = Some g" for g using that e sep by simp
  qed (use assms(4) slots_openD(2) [OF assms(1)] in simp)
qed

lemma slots_open_alloc:
  assumes "slots_open fds fs" "of_fd f' \<notin> fds (host fs)" "fds h' = insert (of_fd f') (fds (host fs))"
  shows "slots_open fds (set_slot (fs\<lparr>host := h'\<rparr>) s (Some f'))"
proof (rule slots_open_upd [OF assms(1)])
  have "of_fd f \<noteq> of_fd f'" if "i < length (gtable fs)" "gtable fs ! i = Some f" for i f
    using slots_openD(2) [OF assms(1) that] assms(2) by auto
  then show "of_fd g \<in> fds h' \<and> (\<forall>i < length (gtable fs). \<forall>f. i \<noteq> nat s \<longrightarrow> gtable fs ! i = Some f \<longrightarrow> of_fd f \<noteq> of_fd g)"
    if "Some f' = Some g" for g using that assms(3) by simp
qed (use assms(3) slots_openD(2) [OF assms(1)] in simp)

lemma fs_Close_open:
  assumes d: "descriptors_ok u fds" and o: "slots_open fds fs" and v: "VALID_SLOT fs s"
  shows "\<exists>h'. delete_OpenFile u (the (gtable fs ! nat s)) (host fs) = Inr h' \<and>
    fds h' = fds (host fs) - {of_fd (the (gtable fs ! nat s))} \<and> slots_open fds (set_slot (fs\<lparr>host := h'\<rparr>) s None)"
proof -
  obtain f where f: "gtable fs ! nat s = Some f" using v by (auto simp: VALID_SLOT_def)
  have i: "nat s < length (gtable fs)" by (rule VALID_index [OF o v])
  have fd: "of_fd f \<in> fds (host fs)" by (rule slots_openD(2) [OF o i f])
  obtain h' where h': "u_close u (of_fd f) (host fs) = (0, h')" "fds h' = fds (host fs) - {of_fd f}"
    using descriptors_okD(4) [OF d fd] by blast
  have "slots_open fds (set_slot (fs\<lparr>host := h'\<rparr>) s None)"
    by (rule slots_open_upd [OF o]) (use h'(2) slots_openD(2) [OF o] slots_openD(3) [OF o _ i _ f] in auto)
  then show ?thesis using f h' by (simp add: delete_OpenFile_def Close_fd_def)
qed

text \<open>Every call other than \<^verbatim>\<open>Create\<close> keeps this.\<close>

lemma file_ReadWrite_slots:
  assumes d: "descriptors_ok u fds" and o: "slots_open fds fs" and v: "VALID_SLOT fs s"
  shows "file_Read u s n fs = Inr (r, fs') \<Longrightarrow> slots_open fds fs'" "file_Write u s bs fs = Inr (q, fs') \<Longrightarrow> slots_open fds fs'"
  using slots_open_touch [OF o v] uses_fds [OF _ d]
  by (auto simp: file_Read_def file_Write_def rbind_eq_Inr same_file_def dest!: OpenFile_Read_uses OpenFile_Write_uses)

lemma fs_Read_slots:
  assumes d: "descriptors_ok u fds" and o: "slots_open fds fs"
  shows "fs_Read u s n fs = Inr (r, fs') \<Longrightarrow> slots_open fds fs'" "fs_Write u s bs fs = Inr (q, fs') \<Longrightarrow> slots_open fds fs'"
proof -
  have "fds (snd (console_in u k (host fs))) = fds (host fs)" for k
    using uses_fds [OF console_in_uses [OF uses_refl, of u "{}"] d] .
  then show "fs_Read u s n fs = Inr (r, fs') \<Longrightarrow> slots_open fds fs'"
    using o file_ReadWrite_slots(1) [OF d o] slots_open_host [OF o]
    by (cases "console_in u (nat n) (host fs)") (auto simp: fs_Read_def split: if_splits, metis snd_conv)
  have "fds (console_out u bs (host fs)) = fds (host fs)" using uses_fds [OF console_out_uses [OF uses_refl, of u "{}"] d] .
  then show "fs_Write u s bs fs = Inr (q, fs') \<Longrightarrow> slots_open fds fs'"
    using o file_ReadWrite_slots(2) [OF d o] slots_open_host [OF o] by (auto simp: fs_Write_def split: if_splits)
qed

lemma fs_Seek_slots:
  assumes d: "descriptors_ok u fds" and o: "slots_open fds fs" and r: "fs_Seek u s pos fs = Inr (k, fs')"
  shows "slots_open fds fs'"
proof (cases "VALID_SLOT fs s")
  case True
  then obtain f h1 where "OpenFile_Seek u (the (gtable fs ! nat s)) pos (host fs) = Inr (k, f, h1)"
      "fs' = set_slot (fs\<lparr>host := h1\<rparr>) s (Some f)" using r by (auto simp: fs_Seek_def rbind_eq_Inr)
  then show ?thesis using slots_open_touch [OF o True, of f h1] OpenFile_Seek_uses uses_fds [OF _ d] by (fastforce simp: same_file_def)
next
  case False
  then show ?thesis using r o by (simp add: fs_Seek_def)
qed

lemma fs_Open_slots:
  assumes d: "descriptors_ok u fds" and o: "slots_open fds fs" and r: "fs_Open u name mode fs = Inr (k, fs')"
  shows "slots_open fds fs'"
proof -
  have a: "slots_open fds (set_slot (fs\<lparr>host := h1\<rparr>) s (Some (new_OpenFile fd md (Some name) False)))"
    if "u_open u name fl (host fs) = (fd, h1)" "\<not> fd < 0" for fl fd h1 s md
    using slots_open_alloc [OF o, of "new_OpenFile fd md (Some name) False" h1 s] descriptors_okD(1) [OF d that(1)] that(2)
    by (simp add: new_OpenFile_def)
  have b: "slots_open fds (fs\<lparr>host := h1\<rparr>)" if "u_open u name fl (host fs) = (fd, h1)" "fd < 0" for fl fd h1
    using slots_open_host [OF o] descriptors_okD(2) [OF d that] .
  have "fs\<lparr>host := host fs\<rparr> = fs" by simp
  then show ?thesis using r o
    by (auto simp: fs_Open_def Let_def OpenForReadWrite_def OpenForRead_def rbind_eq_Inr split: if_splits prod.splits intro: a b)
qed

lemma fs_Socket_slots:
  assumes d: "descriptors_ok u fds" and o: "slots_open fds fs" and r: "fs_CreateTCPSocket u fs = Inr (k, fs')"
  shows "slots_open fds fs'"
proof -
  obtain fd h1 where s: "u_socket u (host fs) = (fd, h1)" by fastforce
  have "slots_open fds (set_slot (fs\<lparr>host := h1\<rparr>) s (Some (new_OpenFile fd MODE_READWRITE None True)))" if "0 \<le> fd" for s
    using slots_open_alloc [OF o, of "new_OpenFile fd MODE_READWRITE None True" h1 s] descriptors_okD(3) [OF d s that]
    by (simp add: new_OpenFile_def)
  then show ?thesis using r o s
    by (auto simp: fs_CreateTCPSocket_def Let_def OpenSocketInternet_def rbind_eq_Inr split: if_splits)
qed

lemma do_call_slots:
  assumes d: "descriptors_ok u fds" and o: "slots_open fds fs" and r: "do_call u c t fs = Inr (t', fs')" and n: "\<not> is_create c"
  shows "slots_open fds fs'"
proof (cases c)
  case (FCreate name) then show ?thesis using n by (simp add: is_create_def)
next
  case (FOpen name mode)
  then show ?thesis using r o fs_Open_slots [OF d o] by (auto simp: ft_Open_def Let_def rbind_eq_Inr split: if_splits)
next
  case (FClose slot)
  then show ?thesis using r o fs_Close_open [OF d o]
    by (fastforce simp: ft_Close_def fs_Close_def rbind_eq_Inr split: if_splits)
next
  case (FRemove name)
  then show ?thesis using r o slots_open_host [OF o] descriptors_okD(5) [OF d]
    by (auto simp: fs_Remove_def Unlink_def rbind_eq_Inr split: if_splits prod.splits)
next
  case (FRead slot k)
  then show ?thesis using r o fs_Read_slots(1) [OF d o] by (auto simp: ft_Read_def rbind_eq_Inr split: if_splits)
next
  case (FWrite slot bs)
  then show ?thesis using r o fs_Read_slots(2) [OF d o] by (auto simp: ft_Write_def rbind_eq_Inr split: if_splits)
next
  case (FSeek slot pos)
  then show ?thesis using r o fs_Seek_slots [OF d o] by (auto simp: ft_Seek_def rbind_eq_Inr split: if_splits)
next
  case FSocket
  then show ?thesis using r o fs_Socket_slots [OF d o] by (auto simp: ft_CreateTCPSocket_def Let_def rbind_eq_Inr split: if_splits)
next
  case (FConnect slot ip port)
  have "fds h1 = fds (host fs)" if "u_connect u fd ip port (host fs) = (k, h1)" for fd k h1
    using uses_fds [OF uses_connect [OF uses_refl, of fd "{fd}" u "host fs" ip port] d] that by simp
  then show ?thesis using r o FConnect slots_open_host [OF o]
    by (auto simp: ft_ConnectTCPSocket_def fs_ConnectTCPSocket_def Connect_def rbind_eq_Inr split: if_splits prod.splits)
next
  case (FSend slot bs)
  then show ?thesis using r o file_ReadWrite_slots(2) [OF d o]
    by (auto simp: ft_SendData_def fs_SendData_def open_socket_def rbind_eq_Inr split: if_splits)
next
  case (FReceive slot k)
  then show ?thesis using r o file_ReadWrite_slots(1) [OF d o]
    by (auto simp: ft_ReceiveData_def fs_ReceiveData_def open_socket_def rbind_eq_Inr split: if_splits)
next
  case (FCloseSocket slot)
  then show ?thesis using r o fs_Close_open [OF d o]
    by (fastforce simp: ft_CloseTCPSocket_def fs_CloseTCPSocket_def open_socket_def rbind_eq_Inr split: if_splits)
qed

text \<open>
  The calls that do not end in a fault of their own: a \<^verbatim>\<open>Read\<close>, \<^verbatim>\<open>Write\<close> or \<^verbatim>\<open>Seek\<close> asserts that the host's \<^verbatim>\<open>lseek\<close> succeeds, \<^verbatim>\<open>Remove\<close> compares
  the missing name of an open socket, and the creation of a socket asserts that the host grants one.
\<close>

definition may_fault :: "file_call \<Rightarrow> bool" where
  "may_fault c \<longleftrightarrow> (case c of FRead s n \<Rightarrow> True | FWrite s bs \<Rightarrow> True | FSeek s pos \<Rightarrow> True | FRemove name \<Rightarrow> True | FSocket \<Rightarrow> True | _ \<Rightarrow> False)"

lemma fs_Close_succeeds:
  assumes "descriptors_ok u fds" "slots_open fds fs"
  shows "\<exists>r fs'. fs_Close u s fs = Inr (r, fs')" "\<exists>r fs'. fs_CloseTCPSocket u s fs = Inr (r, fs')"
  using fs_Close_open [OF assms, of s] by (cases "VALID_SLOT fs s"; auto simp: fs_Close_def fs_CloseTCPSocket_def open_socket_def)+

lemma do_call_succeeds:
  assumes d: "descriptors_ok u fds" and o: "slots_open fds fs" and n: "\<not> is_create c" "\<not> may_fault c"
  shows "\<exists>x. do_call u c t fs = Inr x"
proof (cases c)
  case (FOpen name mode)
  then show ?thesis by (auto simp: ft_Open_def fs_Open_def Let_def OpenForReadWrite_def OpenForRead_def split: prod.splits)
next
  case (FClose slot)
  then show ?thesis using fs_Close_succeeds(1) [OF d o, of "t ! nat slot"] by (auto simp: ft_Close_def)
next
  case (FCloseSocket slot)
  then show ?thesis using fs_Close_succeeds(2) [OF d o, of "t ! nat slot"] by (auto simp: ft_CloseTCPSocket_def)
qed (use n in \<open>auto simp: is_create_def may_fault_def ft_ConnectTCPSocket_def fs_ConnectTCPSocket_def ft_SendData_def fs_SendData_def
  ft_ReceiveData_def fs_ReceiveData_def open_socket_def file_Read_def file_Write_def OpenFile_Read_def OpenFile_Write_def split: prod.splits\<close>)

section \<open>Properties\<close>


lemma files_ok_start: "files_ok (gtable (new_FileSystem h)) [0 \<mapsto> new_FileTable]"
  by (auto simp: files_ok_def table_ok_def new_FileSystem_def new_FileTable_def nachos_consts nth_list_update nth_Cons'
    global_slot_def split: if_splits)

text \<open>Process 1 has a file open under descriptor 3; process 0 opens another one and removes a third.\<close>

definition two_tables :: "nat \<rightharpoonup> FileTable" where
  "two_tables = [0 \<mapsto> new_FileTable, 1 \<mapsto> new_FileTable[2 := 2]]"

definition two_files :: "int list FileSystem" where
  "two_files = \<lparr>gtable = (replicate (nat GlobalFileTableSize) None)[2 := Some (new_OpenFile 3 MODE_READ (Some ''a'') False)], host = [3, 2, 1, 0]\<rparr>"

lemma new_FileTable_nth: "i < length new_FileTable \<Longrightarrow> new_FileTable ! i = (if i = 0 then 0 else if i = 1 then 1 else -1)"
  by (auto simp: new_FileTable_def nachos_consts nth_list_update)

lemma two_tables_ok: "files_ok (gtable two_files) two_tables"
proof -
  have l: "length new_FileTable = 20" by (simp add: new_FileTable_def nachos_consts)
  have g: "gtable two_files ! 2 \<noteq> None" "length (gtable two_files) = nat GlobalFileTableSize" "global_slot 2"
    by (simp_all add: two_files_def nachos_consts global_slot_def)
  have n: "table_ok (gtable two_files) new_FileTable"
    using new_FileTable_nth by (auto simp: table_ok_def l) (simp add: nachos_consts)
  have u: "(new_FileTable[2 := 2]) ! i = (if i = 2 then 2 else new_FileTable ! i)" if "i < 20" for i
    using that l by (simp add: nth_list_update)
  have n1: "table_ok (gtable two_files) (new_FileTable[2 := 2])"
    using n u g by (auto simp: table_ok_def l)
  have gs: "global_slot (new_FileTable ! i) \<longleftrightarrow> False" "global_slot ((new_FileTable[2 := 2]) ! i) \<longleftrightarrow> i = 2" if "i < 20" for i
    using new_FileTable_nth [of i] u [OF that] that l g(3) by auto
  have "\<not> global_slot (t ! i)" if "two_tables 0 = Some t" "i < length t" for t i using that gs(1) l by (simp add: two_tables_def)
  show ?thesis unfolding files_ok_def
  proof (intro conjI allI impI)
    show "length (gtable two_files) = nat GlobalFileTableSize" by (rule g(2))
    show "table_ok (gtable two_files) t" if "two_tables p = Some t" for p t
      using that n n1 by (auto simp: two_tables_def split: if_splits)
    fix p q t t' i j assume a: "two_tables p = Some t" "two_tables q = Some t'" "i < length t" "j < length t'" "global_slot (t ! i)" "t ! i = t' ! j"
    have "global_slot (t' ! j)" using a(5,6) by simp
    then show "p = q" "i = j" using a(1-5) gs l by (auto simp: two_tables_def split: if_splits)
  qed
qed


text \<open>
  C27: \<^verbatim>\<open>Create\<close> closes a file of somebody else: when the host returns a descriptor \<open>d\<close> for the new file and the global slot with
  the same number is in use, \<^verbatim>\<open>Create\<close> reports success, deletes the open file in slot \<open>d\<close>, whoever it belongs to, and closes that
  file's descriptor; the new descriptor \<open>d\<close> stays open, and no slot of the table has it, so that nothing can close it any more.
\<close>
theorem Create_closes_slot:
  assumes "descriptors_ok u fds" and "slots_open fds fs" and "u_open u name O_RDWR_CREAT_TRUNC (host fs) = (d, h1)" and "VALID_SLOT fs d"
  shows "\<exists>f fs'. gtable fs ! nat d = Some f \<and> of_fd f \<in> fds (host fs) \<and> fs_Create u name fs = Inr (True, fs') \<and>
    gtable fs' = (gtable fs)[nat d := None] \<and> fds (host fs') = insert d (fds (host fs) - {of_fd f}) \<and> d \<notin> fds (host fs) \<and>
    (\<forall>i < length (gtable fs'). \<forall>f'. gtable fs' ! i = Some f' \<longrightarrow> of_fd f' \<noteq> d)"
proof -
  have d: "0 \<le> d" using assms(4) by (simp add: VALID_SLOT_def nachos_consts)
  obtain f where f: "gtable fs ! nat d = Some f" using assms(4) by (auto simp: VALID_SLOT_def)
  have i: "nat d < length (gtable fs)" by (rule VALID_index [OF assms(2,4)])
  have fd: "of_fd f \<in> fds (host fs)" by (rule slots_openD(2) [OF assms(2) i f])
  have h1: "d \<notin> fds (host fs)" "fds h1 = insert d (fds (host fs))" using descriptors_okD(1) [OF assms(1,3) d] by auto
  obtain h2 where h2: "u_close u (of_fd f) h1 = (0, h2)" "fds h2 = fds h1 - {of_fd f}" using descriptors_okD(4) [OF assms(1)] fd h1(2) by blast
  have "VALID_SLOT (fs\<lparr>host := h1\<rparr>) d" using assms(4) by (simp add: VALID_SLOT_def)
  then have "fs_Create u name fs = Inr (True, set_slot (fs\<lparr>host := h2\<rparr>) d None)"
    using assms(3) d h2(1) f by (simp add: fs_Create_def OpenForWrite_def fs_Close_def delete_OpenFile_def Close_fd_def Let_def set_slot_def)
  moreover have "fds h2 = insert d (fds (host fs) - {of_fd f})" using h1 h2(2) fd by auto
  moreover have "of_fd f' \<noteq> d" if "j < length (gtable fs)" "(gtable fs)[nat d := None] ! j = Some f'" for j f'
    using that slots_openD(2) [OF assms(2)] h1(1) by (cases "j = nat d") auto
  ultimately show ?thesis using f fd h1(1) by (intro exI [of _ f] exI [of _ "set_slot (fs\<lparr>host := h2\<rparr>) d None"]) (simp add: set_slot_def)
qed

text \<open>A file is open in slot 5 under descriptor 3; the host has the descriptors 0 to 4 open and returns 5.\<close>

theorem Create_closes_slot_witness:
  "\<exists>fs'. fs_Create fd_host ''b'' \<lparr>gtable = (replicate 200 None)[5 := Some (new_OpenFile 3 0 (Some ''a'') False)], host = [4, 3, 2, 1, 0]\<rparr> =
      Inr (True, fs') \<and> gtable fs' ! 5 = None \<and> set (host fs') = {5, 4, 2, 1, 0}"
proof -
  let ?fs = "\<lparr>gtable = (replicate 200 None)[5 := Some (new_OpenFile 3 0 (Some ''a'') False)], host = [4, 3, 2, 1, 0 :: int]\<rparr>"
  have "slots_open set ?fs" by (auto simp: slots_open_def nth_list_update new_OpenFile_def nachos_consts split: if_splits)
  moreover have "u_open fd_host ''b'' O_RDWR_CREAT_TRUNC (host ?fs) = (5, [5, 4, 3, 2, 1, 0])" by (simp add: fd_host_def next_fd_def)
  moreover have "VALID_SLOT ?fs 5" by (simp add: VALID_SLOT_def nachos_consts)
  ultimately obtain f fs' where r: "gtable ?fs ! nat 5 = Some f" "fs_Create fd_host ''b'' ?fs = Inr (True, fs')"
      "gtable fs' = (gtable ?fs)[nat 5 := None]" "set (host fs') = insert 5 (set (host ?fs) - {of_fd f})"
    using Create_closes_slot [OF fd_host_ok] by blast
  have "f = new_OpenFile 3 0 (Some ''a'') False" using r(1) by simp
  then have "of_fd f = 3" by (simp add: new_OpenFile_def)
  moreover have "insert 5 ({4, 3, 2, 1, 0} - {3}) = {5, 4, 2, 1, 0 :: int}" by auto
  moreover have "gtable fs' ! 5 = None" using r(3) by simp
  ultimately show ?thesis using r(2,4) by (intro exI [of _ fs']) simp
qed

section \<open>The end of a file table\<close>

lemma fs_Close_True:
  "fs_Close u s fs = Inr (True, fs') \<Longrightarrow> VALID_SLOT fs s \<and> gtable fs' = (gtable fs)[nat s := None]"
  by (auto simp: fs_Close_def set_slot_def rbind_eq_Inr split: if_splits)

lemma close_from_length: "close_from u ss fs = Inr fs' \<Longrightarrow> length (gtable fs') = length (gtable fs)"
proof (induction ss arbitrary: fs)
  case (Cons s ss)
  then show ?case by (auto simp: fs_Close_def set_slot_def rbind_eq_Inr split: if_splits)
qed simp

text \<open>A destructor that returns has freed exactly its slots, whatever the host does.\<close>

lemma close_from_frees:
  assumes "close_from u ss fs = Inr fs'" "length (gtable fs) = nat GlobalFileTableSize"
  shows "\<forall>i. gtable fs' ! i = (if \<exists>s \<in> set ss. s \<noteq> -1 \<and> nat s = i then None else gtable fs ! i)"
  using assms
proof (induction ss arbitrary: fs)
  case (Cons s ss)
  show ?case
  proof (cases "s = -1")
    case True
    then show ?thesis using Cons by auto
  next
    case False
    then obtain fs1 where fs1: "fs_Close u s fs = Inr (True, fs1)" "close_from u ss fs1 = Inr fs'"
      using Cons.prems(1) by (auto simp: rbind_eq_Inr)
    have v: "VALID_SLOT fs s" "gtable fs1 = (gtable fs)[nat s := None]" using fs_Close_True [OF fs1(1)] by auto
    have "nat s < length (gtable fs)" using global_slot_length [OF Cons.prems(2), of s] v(1) by (simp add: global_slot_VALID)
    then show ?thesis using Cons.IH [OF fs1(2)] Cons.prems(2) v(2) False by (auto simp: nth_list_update)
  qed
qed simp

lemma close_from_succeeds:
  assumes d: "descriptors_ok u fds" and "slots_open fds fs" "\<forall>s \<in> set ss. s = -1 \<or> VALID_SLOT fs s" "distinct (filter (\<lambda>s. s \<noteq> -1) ss)"
  shows "\<exists>fs'. close_from u ss fs = Inr fs' \<and> slots_open fds fs'"
  using assms(2-)
proof (induction ss arbitrary: fs)
  case (Cons s ss)
  show ?case
  proof (cases "s = -1")
    case True
    then show ?thesis using Cons by auto
  next
    case False
    then have vs: "VALID_SLOT fs s" using Cons.prems(2) by auto
    obtain h1 where h1: "delete_OpenFile u (the (gtable fs ! nat s)) (host fs) = Inr h1" "slots_open fds (set_slot (fs\<lparr>host := h1\<rparr>) s None)"
      using fs_Close_open [OF d Cons.prems(1) vs] by blast
    let ?fs1 = "set_slot (fs\<lparr>host := h1\<rparr>) s None"
    have c: "fs_Close u s fs = Inr (True, ?fs1)" using h1(1) vs by (simp add: fs_Close_def)
    have "VALID_SLOT ?fs1 s'" if "s' \<in> set ss" "s' \<noteq> -1" for s'
    proof -
      have "VALID_SLOT fs s'" "s' \<noteq> s" using Cons.prems(2,3) that False by auto
      moreover have "nat s' \<noteq> nat s" using global_slot_nat [of s' s] calculation vs by (auto simp: global_slot_VALID)
      ultimately show ?thesis by (simp add: VALID_SLOT_def set_slot_def)
    qed
    then have "\<exists>fs'. close_from u ss ?fs1 = Inr fs' \<and> slots_open fds fs'" using Cons.IH [OF h1(2)] Cons.prems(3) False by auto
    then show ?thesis using c False by auto
  qed
qed simp

lemma table_slots_distinct:
  assumes "files_ok (gtable fs) tabs" and "tabs p = Some t"
  shows "\<forall>s \<in> set (drop 2 t). s = -1 \<or> VALID_SLOT fs s" "distinct (filter (\<lambda>s. s \<noteq> -1) (drop 2 t))"
proof -
  have t: "table_ok (gtable fs) t" using files_okD(2) [OF assms(1,2)] .
  show "\<forall>s \<in> set (drop 2 t). s = -1 \<or> VALID_SLOT fs s"
  proof
    fix s assume "s \<in> set (drop 2 t)"
    then obtain j where "j < length t" "t ! j = s" "2 \<le> j" using in_set_drop_nth by metis
    then show "s = -1 \<or> VALID_SLOT fs s" using t by (auto simp: table_ok_def global_slot_VALID)
  qed
  have u: "i = j" if "i < length t" "j < length t" "t ! i = t ! j" "t ! i \<noteq> -1" "2 \<le> i" for i j
  proof -
    have "global_slot (t ! i)" using t that by (auto simp: table_ok_def)
    then show ?thesis using files_okD(3) [OF assms(1,2,2) that(1,2) _ that(3)] by simp
  qed
  show "distinct (filter (\<lambda>s. s \<noteq> -1) (drop 2 t))"
  proof (rule distinct_filter_nth)
    show "i = j" if "i < length (drop 2 t)" "j < length (drop 2 t)" "drop 2 t ! i = drop 2 t ! j" "drop 2 t ! i \<noteq> -1" for i j
      using u [of "2 + i" "2 + j"] that by auto
  qed
qed

text \<open>
  The end of a process closes its files: on consistent tables over open descriptors, the destructor of
  \<^verbatim>\<open>FileTable\<close> passes its assertions and frees exactly the global slots its entries from 2 on stand for; entries 0 and 1 are
  left open even when they stand for files.
\<close>
theorem delete_FileTable_closes:
  assumes "files_ok (gtable fs) tabs" and "tabs p = Some t" and "descriptors_ok u fds" and "slots_open fds fs"
  shows "\<exists>fs'. delete_FileTable u t fs = Inr fs' \<and>
    (\<forall>i. gtable fs' ! i = (if \<exists>s \<in> set (drop 2 t). s \<noteq> -1 \<and> nat s = i then None else gtable fs ! i))"
proof -
  obtain fs' where "close_from u (drop 2 t) fs = Inr fs'"
    using close_from_succeeds [OF assms(3,4) table_slots_distinct [OF assms(1,2)]] by blast
  then show ?thesis using close_from_frees [OF _ files_okD(1) [OF assms(1)]] unfolding delete_FileTable_def by blast
qed

theorem delete_FileTable_closes_witness:
  "\<exists>fs'. delete_FileTable fd_host new_FileTable (new_FileSystem [2, 1, 0]) = Inr fs' \<and> gtable fs' ! 7 = None"
proof -
  have p: "[0 \<mapsto> new_FileTable] (0 :: nat) = Some new_FileTable" by simp
  have n: "gtable (new_FileSystem [2 :: int, 1, 0]) ! 7 = None" by (simp add: new_FileSystem_def nachos_consts)
  have o: "slots_open set (new_FileSystem [2, 1, 0 :: int])" by (simp add: slots_open_def new_FileSystem_def)
  show ?thesis using delete_FileTable_closes [OF files_ok_start p fd_host_ok o] n by metis
qed

text \<open>Processes come with a fresh table and go with a closed one.\<close>

lemma files_ok_new:
  assumes f: "files_ok g tabs"
  shows "files_ok g (tabs(p \<mapsto> new_FileTable))"
proof -
  have n: "\<not> global_slot (new_FileTable ! i)" if "i < length new_FileTable" for i
    using new_FileTable_nth [OF that] by simp
  have "table_ok g new_FileTable"
    using new_FileTable_nth by (auto simp: table_ok_def) (simp add: new_FileTable_def)
  then show ?thesis using f n unfolding files_ok_def by (auto split: if_splits)
qed

lemma files_ok_deleted:
  assumes f: "files_ok g tabs" and p: "tabs p = Some t" and l: "length g' = length g"
    and g': "\<forall>i. g' ! i = (if \<exists>s \<in> set (drop 2 t). s \<noteq> -1 \<and> nat s = i then None else g ! i)"
  shows "files_ok g' (tabs(p := None))"
proof -
  have keep: "g' ! nat (tq ! i) = g ! nat (tq ! i)" if q: "tabs q = Some tq" "q \<noteq> p" "i < length tq" "global_slot (tq ! i)" for q tq i
  proof -
    have "\<not> (\<exists>s \<in> set (drop 2 t). s \<noteq> -1 \<and> nat s = nat (tq ! i))"
    proof
      assume "\<exists>s \<in> set (drop 2 t). s \<noteq> -1 \<and> nat s = nat (tq ! i)"
      then obtain s where s: "s \<in> set (drop 2 t)" "s \<noteq> -1" "nat s = nat (tq ! i)" by blast
      obtain j where j: "j < length t" "t ! j = s" "2 \<le> j" using in_set_drop_nth [OF s(1)] by blast
      have "global_slot s" using files_okD(2) [OF f p] j s(2) by (auto simp: table_ok_def)
      then have "s = tq ! i" using global_slot_nat [of s "tq ! i"] q(4) s(3) by simp
      then show False using files_okD(3) [OF f q(1) p q(3) j(1) q(4)] j(2) q(2) by simp
    qed
    then show ?thesis using g' [rule_format, of "nat (tq ! i)"] by (simp only: if_False)
  qed
  have "table_ok g' tq" if q: "tabs q = Some tq" "q \<noteq> p" for q tq
    using files_okD(2) [OF f q(1)] keep [OF q] by (auto simp: table_ok_def)
  then show ?thesis using f l unfolding files_ok_def by (auto split: if_splits)
qed

end
