(* ===== verification/Address_Space.thy ===== *)
theory Address_Space
  imports Machine_Memory Stub_Files Bitmap
begin

text \<open>
  Address spaces of user programs (\<^verbatim>\<open>userprog/addrspace.cc\<close>): the page table over frames taken from the global
  bitmap of physical pages, loading of an executable in NOFF format (\<^verbatim>\<open>userprog/noff.h\<close>) with its
  command-line arguments, the initial registers, address translation for the kernel, and deletion. The build has
  \<^verbatim>\<open>RDATA\<close>. \<open>akernel\<close> holds the parts of the kernel these routines work on. \<^verbatim>\<open>RestoreState\<close> hands the machine the page
  table; the machine changes only its use and dirty bits (\<open>same_mapping\<close>).
\<close>

section \<open>Address spaces and executables\<close>

record AddrSpace =
  pageTable :: "TranslationEntry list option"
  numPages :: "32 word"
  argCount :: "32 word"
  argSize :: "32 word"

record 'h akernel =
  gPhysPageBitMap :: bitmap
  addrLock :: int
  a_machine :: machine
  a_fs :: "'h FileSystem"

record Segment =
  seg_virtualAddr :: "32 word"
  seg_inFileAddr :: "32 word"
  seg_size :: "32 word"

record NoffHeader =
  noffMagic :: "32 word"
  n_code :: Segment
  n_initData :: Segment
  n_readonlyData :: Segment
  n_uninitData :: Segment

definition NOFFMAGIC :: "32 word" where
  "NOFFMAGIC = 0xbadfad"

text \<open>The header as it lies in memory: thirteen integers, the first \<^verbatim>\<open>sizeof(noffH)\<close> bytes of the file.\<close>

definition sizeof_NoffHeader :: int where [nachos_consts]: "sizeof_NoffHeader = 52"

definition int_at :: "byte list \<Rightarrow> nat \<Rightarrow> 32 word" where
  "int_at bs i = bytes_word (bs ! (4 * i)) (bs ! (4 * i + 1)) (bs ! (4 * i + 2)) (bs ! (4 * i + 3))"

definition segment_at :: "byte list \<Rightarrow> nat \<Rightarrow> Segment" where
  "segment_at bs i = \<lparr>seg_virtualAddr = int_at bs i, seg_inFileAddr = int_at bs (i + 1), seg_size = int_at bs (i + 2)\<rparr>"

definition header_at :: "byte list \<Rightarrow> NoffHeader" where
  "header_at bs = \<lparr>noffMagic = int_at bs 0, n_code = segment_at bs 1, n_initData = segment_at bs 4,
     n_readonlyData = segment_at bs 7, n_uninitData = segment_at bs 10\<rparr>"

definition swap_segment :: "Segment \<Rightarrow> Segment" where
  "swap_segment s = \<lparr>seg_virtualAddr = WordToHost (seg_virtualAddr s), seg_inFileAddr = WordToHost (seg_inFileAddr s),
     seg_size = WordToHost (seg_size s)\<rparr>"

definition SwapHeader :: "NoffHeader \<Rightarrow> NoffHeader" where
  "SwapHeader n = \<lparr>noffMagic = WordToHost (noffMagic n), n_code = swap_segment (n_code n),
     n_initData = swap_segment (n_initData n), n_readonlyData = swap_segment (n_readonlyData n),
     n_uninitData = swap_segment (n_uninitData n)\<rparr>"

section \<open>Construction and deletion\<close>

definition new_AddrSpace :: AddrSpace where
  "new_AddrSpace = \<lparr>pageTable = None, numPages = 0, argCount = 0, argSize = 0\<rparr>"

definition get_pageTable :: "AddrSpace \<Rightarrow> TranslationEntry list result" where
  "get_pageTable as = (case pageTable as of None \<Rightarrow> Inl NullPointer | Some pt \<Rightarrow> Inr pt)"

fun free_pages :: "TranslationEntry list \<Rightarrow> nat \<Rightarrow> nat \<Rightarrow> bitmap \<Rightarrow> bitmap result" where
  "free_pages pt i 0 bm = Inr bm"
| "free_pages pt i (Suc n) bm =
     rbind (aread pt (int i)) (\<lambda>e.
     rbind (if valid e then Clear bm (sint (physicalPage e)) else Inr bm) (\<lambda>bm1. free_pages pt (Suc i) n bm1))"

definition delete_AddrSpace :: "AddrSpace \<Rightarrow> 'h akernel \<Rightarrow> 'h akernel result" where
  "delete_AddrSpace as k = (case pageTable as of
       None \<Rightarrow> Inr k
     | Some pt \<Rightarrow> rbind (free_pages pt 0 (unat (numPages as)) (gPhysPageBitMap k)) (\<lambda>bm. Inr (k\<lparr>gPhysPageBitMap := bm\<rparr>)))"

section \<open>The page table\<close>

text \<open>A \<^verbatim>\<open>P\<close> of \<^verbatim>\<open>addrLock\<close> at 0 would wait for the thread that holds it.\<close>

definition addrLock_P :: "'h akernel \<Rightarrow> 'h akernel result" where
  "addrLock_P k = (if addrLock k = 0 then Inl Diverges else Inr (k\<lparr>addrLock := addrLock k - 1\<rparr>))"

definition addrLock_V :: "'h akernel \<Rightarrow> 'h akernel" where
  "addrLock_V k = k\<lparr>addrLock := addrLock k + 1\<rparr>"

definition set_memory :: "'h akernel \<Rightarrow> byte list \<Rightarrow> 'h akernel" where
  "set_memory k mem = k\<lparr>a_machine := (a_machine k)\<lparr>mainMemory := mem\<rparr>\<rparr>"

definition set_host :: "'h akernel \<Rightarrow> 'h \<Rightarrow> 'h akernel" where
  "set_host k h = k\<lparr>a_fs := (a_fs k)\<lparr>host := h\<rparr>\<rparr>"

fun init_pages :: "nat \<Rightarrow> nat \<Rightarrow> 'h akernel \<Rightarrow> (TranslationEntry list \<times> 'h akernel) result" where
  "init_pages i 0 k = Inr ([], k)"
| "init_pages i (Suc n) k =
     rbind (FindAndSet (gPhysPageBitMap k)) (\<lambda>(f, bm).
     let e = \<lparr>virtualPage = word_of_nat i, physicalPage = word_of_int f, valid = True, readOnly = False, use_bit = False, dirty = False\<rparr> in
     rbind (write_bytes (mainMemory (a_machine k)) (f * PageSize) (replicate (nat PageSize) 0)) (\<lambda>mem.
     rbind (init_pages (Suc i) n (set_memory (k\<lparr>gPhysPageBitMap := bm\<rparr>) mem)) (\<lambda>(es, k2). Inr (e # es, k2))))"

definition InitPageTable :: "AddrSpace \<Rightarrow> 'h akernel \<Rightarrow> (bool \<times> AddrSpace \<times> 'h akernel) result" where
  "InitPageTable as k =
     rbind (rassert (pageTable as = None)) (\<lambda>_.
     rbind (addrLock_P k) (\<lambda>k1.
     rbind (NumClear (gPhysPageBitMap k1)) (\<lambda>free.
     if numPages as > word_of_int free then Inr (False, as, addrLock_V k1)
     else rbind (init_pages 0 (unat (numPages as)) k1) (\<lambda>(pt, k2). Inr (True, as\<lparr>pageTable := Some pt\<rparr>, addrLock_V k2)))))"

section \<open>Copying into the address space\<close>

text \<open>
  The page of a virtual address: the physical address, and the space with the use and dirty bits of the page set.
\<close>

definition page_of :: "AddrSpace \<Rightarrow> int \<Rightarrow> (int \<times> AddrSpace) result" where
  "page_of as virtualAddr =
     rbind (get_pageTable as) (\<lambda>pt.
     let vpn = virtualAddr sdiv PageSize; offset = virtualAddr smod PageSize in
     rbind (aread pt vpn) (\<lambda>e.
     Inr (sint (physicalPage e) * PageSize + offset,
       as\<lparr>pageTable := Some (pt[nat vpn := e\<lparr>use_bit := True, dirty := True\<rparr>])\<rparr>)))"

definition chunk :: "int \<Rightarrow> int \<Rightarrow> int" where
  "chunk sz virtualAddr = min (PageSize - virtualAddr smod PageSize) sz"

lemma chunk_pos: "0 < sz \<Longrightarrow> 0 < chunk sz va"
proof -
  have "va smod 128 < 128" using smod_int_range [of 128 va] by (auto split: if_splits)
  then show "0 < sz \<Longrightarrow> 0 < chunk sz va" by (simp add: chunk_def PageSize_def)
qed

function CopyFromFile :: "'h unix \<Rightarrow> OpenFile \<Rightarrow> int \<Rightarrow> int \<Rightarrow> int \<Rightarrow> AddrSpace \<Rightarrow> 'h akernel \<Rightarrow> (AddrSpace \<times> 'h akernel) result" where
  "CopyFromFile u file inFileAddr sz virtualAddr as k =
     (if sz > 0 then
        rbind (page_of as virtualAddr) (\<lambda>(p, as1).
        rbind (ReadAt u file (chunk sz virtualAddr) inFileAddr (host (a_fs k))) (\<lambda>((n, bs), h).
        rbind (write_bytes (mainMemory (a_machine k)) p bs) (\<lambda>mem.
        CopyFromFile u file (inFileAddr + chunk sz virtualAddr) (sz - chunk sz virtualAddr) (virtualAddr + chunk sz virtualAddr)
          as1 (set_memory (set_host k h) mem))))
      else Inr (as, k))"
  by pat_completeness auto
termination
  by (relation "measure (\<lambda>(u, file, inFileAddr, sz, virtualAddr, as, k). nat sz)") (auto simp: chunk_pos)

text \<open>\<open>buf\<close> is what the source buffer holds from the current position on.\<close>

function CopyFromBuffer :: "byte list \<Rightarrow> int \<Rightarrow> int \<Rightarrow> AddrSpace \<Rightarrow> 'h akernel \<Rightarrow> (AddrSpace \<times> 'h akernel) result" where
  "CopyFromBuffer buf sz virtualAddr as k =
     (if sz > 0 then
        rbind (page_of as virtualAddr) (\<lambda>(p, as1).
        let amount = chunk sz virtualAddr in
        if int (length buf) < amount then Inl OutOfBounds
        else rbind (write_bytes (mainMemory (a_machine k)) p (take (nat amount) buf)) (\<lambda>mem.
          CopyFromBuffer (drop (nat amount) buf) (sz - amount) (virtualAddr + amount) as1 (set_memory k mem)))
      else Inr (as, k))"
  by pat_completeness auto
termination
  by (relation "measure (\<lambda>(buf, sz, virtualAddr, as, k). nat sz)") (auto simp: chunk_pos)

declare CopyFromFile.simps [simp del] CopyFromBuffer.simps [simp del]

section \<open>Translation for the kernel\<close>

definition as_Translate :: "AddrSpace \<Rightarrow> 32 word \<Rightarrow> bool \<Rightarrow> (ExceptionType + 32 word \<times> AddrSpace) result" where
  "as_Translate as vaddr isReadWrite =
     (let vpn = vaddr div word_of_int PageSize; offset = vaddr mod word_of_int PageSize in
      if vpn \<ge> numPages as then Inr (Inl AddressErrorException)
      else rbind (get_pageTable as) (\<lambda>pt.
      rbind (aread pt (uint vpn)) (\<lambda>pte.
      if isReadWrite \<and> readOnly pte then Inr (Inl ReadOnlyException)
      else let pfn = physicalPage pte in
        if sint pfn \<ge> NumPhysPages then Inr (Inl BusErrorException)
        else let pte1 = pte\<lparr>use_bit := True\<rparr>;
                 pte2 = (if isReadWrite then pte1\<lparr>dirty := True\<rparr> else pte1);
                 paddr = pfn * word_of_int PageSize + offset
             in rbind (rassert (paddr < word_of_int MemorySize)) (\<lambda>_.
                Inr (Inr (paddr, as\<lparr>pageTable := Some (pt[unat vpn := pte2])\<rparr>))))))"

text \<open>\<^verbatim>\<open>ASSERT(Translate(...) == NoException)\<close>.\<close>

definition translate_or_abort :: "AddrSpace \<Rightarrow> 32 word \<Rightarrow> (32 word \<times> AddrSpace) result" where
  "translate_or_abort as vaddr =
     rbind (as_Translate as vaddr True) (\<lambda>r. case r of Inl e \<Rightarrow> Inl AssertFailed | Inr x \<Rightarrow> Inr x)"

section \<open>Load\<close>

text \<open>\<^verbatim>\<open>divRoundUp\<close> on \<^verbatim>\<open>unsigned int\<close> operands.\<close>

definition udivRoundUp :: "32 word \<Rightarrow> 32 word \<Rightarrow> 32 word" where
  "udivRoundUp n s = n div s + (if n mod s > 0 then 1 else 0)"

definition c_string :: "string \<Rightarrow> byte list" where
  "c_string s = map of_char s @ [0]"

definition args_size :: "string list \<Rightarrow> 32 word" where
  "args_size argv =
     (let n = (if argv = [] then 0
               else 4 * (word_of_nat (length argv) + 1) + (\<Sum>a\<leftarrow>argv. word_of_nat (length a) + 1)) in
      udivRoundUp n 4 * 4)"

definition space_size :: "NoffHeader \<Rightarrow> 32 word \<Rightarrow> 32 word" where
  "space_size n argsz = seg_size (n_code n) + seg_size (n_readonlyData n) + seg_size (n_initData n) +
     seg_size (n_uninitData n) + word_of_int UserStackSize + argsz"

definition load_segment :: "'h unix \<Rightarrow> OpenFile \<Rightarrow> Segment \<Rightarrow> AddrSpace \<Rightarrow> 'h akernel \<Rightarrow> (AddrSpace \<times> 'h akernel) result" where
  "load_segment u file s as k =
     (if sint (seg_size s) > 0
      then CopyFromFile u file (sint (seg_inFileAddr s)) (sint (seg_size s)) (sint (seg_virtualAddr s)) as k
      else Inr (as, k))"

definition load_segments :: "'h unix \<Rightarrow> OpenFile \<Rightarrow> NoffHeader \<Rightarrow> AddrSpace \<Rightarrow> 'h akernel \<Rightarrow> (AddrSpace \<times> 'h akernel) result" where
  "load_segments u file noffH as k =
     rbind (load_segment u file (n_code noffH) as k) (\<lambda>(as3, k3).
     rbind (load_segment u file (n_initData noffH) as3 k3) (\<lambda>(as4, k4). load_segment u file (n_readonlyData noffH) as4 k4))"

text \<open>The loop over the arguments: a pointer into the table at \<open>argAddr\<close>, the string at \<open>strAddr\<close>; the final 0.\<close>

fun write_args :: "string list \<Rightarrow> 32 word \<Rightarrow> 32 word \<Rightarrow> AddrSpace \<Rightarrow> 'h akernel \<Rightarrow> (AddrSpace \<times> 'h akernel) result" where
  "write_args [] argAddr strAddr as k =
     rbind (translate_or_abort as argAddr) (\<lambda>(physAddr, as1).
     rbind (write_bytes (mainMemory (a_machine k)) (uint physAddr) [0]) (\<lambda>mem. Inr (as1, set_memory k mem)))"
| "write_args (a # argv) argAddr strAddr as k =
     rbind (translate_or_abort as argAddr) (\<lambda>(physAddr, as1).
     rbind (write_bytes (mainMemory (a_machine k)) (uint physAddr) (word_bytes (WordToMachine strAddr))) (\<lambda>mem.
     rbind (CopyFromBuffer (c_string a) (int (length a) + 1) (sint strAddr) as1 (set_memory k mem)) (\<lambda>(as2, k2).
     write_args argv (argAddr + 4) (strAddr + word_of_nat (length a) + 1) as2 k2)))"

definition close_executable :: "'h unix \<Rightarrow> OpenFile \<Rightarrow> 'h akernel \<Rightarrow> 'h akernel result" where
  "close_executable u executable k =
     rbind (delete_OpenFile u executable (host (a_fs k))) (\<lambda>h. Inr (set_host k h))"

text \<open>\<^verbatim>\<open>Load\<close> once the page table is there.\<close>

definition copy_program :: "'h unix \<Rightarrow> OpenFile \<Rightarrow> NoffHeader \<Rightarrow> string list \<Rightarrow> 32 word \<Rightarrow> 32 word \<Rightarrow> AddrSpace \<Rightarrow> 'h akernel \<Rightarrow>
    (bool \<times> AddrSpace \<times> 'h akernel) result" where
  "copy_program u executable noffH argv sz argsz as k =
     rbind (load_segments u executable noffH as k) (\<lambda>(as3, k3).
     rbind (if argv = [] then Inr (as3, k3)
            else write_args argv (sz - argsz) (sz - argsz + 4 * (word_of_nat (length argv) + 1)) as3 k3) (\<lambda>(as4, k4).
     rbind (close_executable u executable k4) (\<lambda>k5. Inr (True, as4, k5))))"

text \<open>
  \<open>garbage\<close> is what the stack holds where \<^verbatim>\<open>noffH\<close> lies: a file shorter than the header overwrites only its
  first bytes.
\<close>

definition Load :: "'h unix \<Rightarrow> byte list \<Rightarrow> string \<Rightarrow> string list \<Rightarrow> AddrSpace \<Rightarrow> 'h akernel \<Rightarrow> (bool \<times> AddrSpace \<times> 'h akernel) result" where
  "Load u garbage fileName argv as k =
     rbind (fs_Open1 u fileName (a_fs k)) (\<lambda>(f, fs1).
     case f of
       None \<Rightarrow> Inr (False, as, k\<lparr>a_fs := fs1\<rparr>)
     | Some executable \<Rightarrow>
       rbind (ReadAt u executable sizeof_NoffHeader 0 (host fs1)) (\<lambda>((n, bs), h1).
       let k1 = k\<lparr>a_fs := fs1\<lparr>host := h1\<rparr>\<rparr>;
           noff0 = header_at (bs @ drop (length bs) garbage);
           noffH = (if noffMagic noff0 \<noteq> NOFFMAGIC \<and> WordToHost (noffMagic noff0) = NOFFMAGIC then SwapHeader noff0 else noff0) in
       rbind (rassert (noffMagic noffH = NOFFMAGIC)) (\<lambda>_.
       let argsz = args_size argv;
           pages = udivRoundUp (space_size noffH argsz) (word_of_int PageSize);
           sz = pages * word_of_int PageSize;
           as1 = as\<lparr>argCount := word_of_nat (length argv), argSize := argsz, numPages := pages\<rparr> in
       rbind (rassert (pages \<le> word_of_int NumPhysPages)) (\<lambda>_.
       rbind (InitPageTable as1 k1) (\<lambda>(ok, as2, k2).
       if \<not> ok then rbind (close_executable u executable k2) (\<lambda>k3. Inr (False, as2\<lparr>numPages := 0\<rparr>, k3))
       else copy_program u executable noffH argv sz argsz as2 k2)))))"

section \<open>Running a loaded program\<close>

fun clear_registers :: "nat \<Rightarrow> nat \<Rightarrow> machine \<Rightarrow> machine result" where
  "clear_registers i 0 m = Inr m"
| "clear_registers i (Suc n) m = rbind (WriteRegister m (int i) 0) (\<lambda>m1. clear_registers (Suc i) n m1)"

definition InitRegisters :: "AddrSpace \<Rightarrow> machine \<Rightarrow> machine result" where
  "InitRegisters as m =
     rbind (clear_registers 0 NumTotalRegs m) (\<lambda>m1.
     rbind (WriteRegister m1 (int PCReg) 0) (\<lambda>m2.
     rbind (WriteRegister m2 (int NextPCReg) 4) (\<lambda>m3.
     rbind (WriteRegister m3 (int StackReg) (numPages as * word_of_int PageSize - argSize as - 16)) (\<lambda>m4.
     if argCount as > 0
     then rbind (WriteRegister m4 4 (argCount as)) (\<lambda>m5.
          WriteRegister m5 5 (numPages as * word_of_int PageSize - argSize as))
     else Inr m4))))"

definition SaveState :: "AddrSpace \<Rightarrow> machine \<Rightarrow> machine" where
  "SaveState as m = m"

definition RestoreState :: "AddrSpace \<Rightarrow> machine \<Rightarrow> machine" where
  "RestoreState as m = m\<lparr>m_pageTable := pageTable as, pageTableSize := numPages as\<rparr>"

text \<open>\<^verbatim>\<open>Execute\<close> up to the call of \<^verbatim>\<open>Run\<close>; \<open>space\<close> is the space the current thread already has.\<close>

definition as_Execute :: "AddrSpace option \<Rightarrow> AddrSpace \<Rightarrow> machine \<Rightarrow> (AddrSpace option \<times> machine) result" where
  "as_Execute space as m =
     rbind (rassert (space = None)) (\<lambda>_.
     rbind (InitRegisters as m) (\<lambda>m1. Inr (Some as, RestoreState as m1)))"

section \<open>Well-formed address spaces\<close>

definition frames :: "AddrSpace \<Rightarrow> nat list" where
  "frames as = (case pageTable as of None \<Rightarrow> [] | Some pt \<Rightarrow> map (\<lambda>e. unat (physicalPage e)) pt)"

text \<open>Every page is valid and writable and has a frame of its own.\<close>

definition space_ok :: "AddrSpace \<Rightarrow> bool" where
  "space_ok as \<longleftrightarrow> length (frames as) = unat (numPages as) \<and> distinct (frames as) \<and> set (frames as) \<subseteq> {..<128} \<and>
     (\<forall>pt. pageTable as = Some pt \<longrightarrow> (\<forall>e \<in> set pt. valid e \<and> \<not> readOnly e))"

text \<open>Only use and dirty bits differ.\<close>

definition touched_space :: "AddrSpace \<Rightarrow> AddrSpace \<Rightarrow> bool" where
  "touched_space as as' \<longleftrightarrow> space_ok as' \<and> frames as' = frames as \<and> numPages as' = numPages as \<and>
     argCount as' = argCount as \<and> argSize as' = argSize as \<and> (pageTable as' = None \<longleftrightarrow> pageTable as = None)"

lemma touched_refl [simp]: "space_ok as \<Longrightarrow> touched_space as as"
  by (simp add: touched_space_def)

lemma touched_trans: "touched_space a b \<Longrightarrow> touched_space b c \<Longrightarrow> touched_space a c"
  by (simp add: touched_space_def)

lemma frames_small: "space_ok as \<Longrightarrow> f \<in> set (frames as) \<Longrightarrow> f < 128"
  by (auto simp: space_ok_def)

lemma frames_blocks: "space_ok as \<Longrightarrow> length mem = 16384 \<Longrightarrow> blocks_ok 128 mem (frames as)"
  using frames_small [of as] by (fastforce simp: blocks_ok_def space_ok_def)

lemma small_frame: "unat (w :: 32 word) < 128 \<Longrightarrow> sint w = int (unat w)"
proof -
  assume u: "unat w < 128"
  have e: "uint w = int (unat w)" by simp
  then have "uint w < 2147483648" using u by linarith
  then have "sint w = uint w" using sint_small [of w] by simp
  then show ?thesis by simp
qed

lemma touch_page_ok:
  assumes ok: "space_ok as" and pt: "pageTable as = Some pt" and i: "i < length pt"
    and e: "valid e = valid (pt ! i)" "readOnly e = readOnly (pt ! i)" "physicalPage e = physicalPage (pt ! i)"
  shows "touched_space as (as\<lparr>pageTable := Some (pt[i := e])\<rparr>)"
proof -
  have "map (\<lambda>e. unat (physicalPage e)) (pt[i := e]) = map (\<lambda>e. unat (physicalPage e)) pt"
    by (rule nth_equalityI) (use i e in \<open>auto simp: nth_list_update\<close>)
  then have f: "frames (as\<lparr>pageTable := Some (pt[i := e])\<rparr>) = frames as" using pt by (simp add: frames_def)
  have "valid x \<and> \<not> readOnly x" if "x \<in> set (pt[i := e])" for x
    using that ok pt i e set_update_subset_insert [of pt i e] by (auto simp: space_ok_def)
  then show ?thesis using ok f pt by (auto simp: touched_space_def space_ok_def)
qed

lemma page_of_ok:
  assumes ok: "space_ok as" and va: "a < 128 * length (frames as)"
  shows "\<exists>as'. page_of as (int a) = Inr (int (frames as ! (a div 128) * 128 + a mod 128), as') \<and> touched_space as as'"
proof -
  obtain pt where pt: "pageTable as = Some pt" using va by (cases "pageTable as") (auto simp: frames_def)
  have l: "length pt = length (frames as)" using pt by (simp add: frames_def)
  have i: "a div 128 < length pt" using va l by linarith
  have "frames as ! (a div 128) = unat (physicalPage (pt ! (a div 128)))" using pt i by (simp add: frames_def)
  moreover have "frames as ! (a div 128) < 128" using frames_small [OF ok] i l by simp
  ultimately have "sint (physicalPage (pt ! (a div 128))) = int (frames as ! (a div 128))" using small_frame by simp
  moreover have "int a div 128 = int (a div 128)" "int a mod 128 = int (a mod 128)" by (simp_all add: zdiv_int zmod_int)
  ultimately show ?thesis
    using pt i touch_page_ok [OF ok pt i, of "(pt ! (a div 128))\<lparr>use_bit := True, dirty := True\<rparr>"]
    by (simp add: page_of_def get_pageTable_def Let_def nachos_consts sdiv_nonneg smod_nonneg)
qed

section \<open>Copying\<close>

abbreviation memory :: "'h akernel \<Rightarrow> byte list" where
  "memory k \<equiv> mainMemory (a_machine k)"

lemma set_memory_simps [simp]:
  "memory (set_memory k mem) = mem" "memory (set_host k h) = memory k" "set_memory (set_memory k m1) m2 = set_memory k m2"
  "set_host (set_memory k mem) h = set_memory (set_host k h) mem" "set_host (set_host k h1) h2 = set_host k h2"
  "host (a_fs (set_memory k mem)) = host (a_fs k)" "host (a_fs (set_host k h)) = h"
  "gPhysPageBitMap (set_memory k mem) = gPhysPageBitMap k" "gPhysPageBitMap (set_host k h) = gPhysPageBitMap k"
  by (simp_all add: set_memory_def set_host_def)

lemma set_memory_id [simp]: "set_memory k (memory k) = k" "set_host k (host (a_fs k)) = k"
  by (simp_all add: set_memory_def set_host_def)

lemma chunk_int: "chunk (int s) (int a) = int (min (128 - a mod 128) s)"
proof -
  have "int a mod 128 = int (a mod 128)" by (simp add: zmod_int)
  moreover have "a mod 128 < 128" by simp
  ultimately have "128 - int a mod 128 = int (128 - a mod 128)" by linarith
  then show ?thesis by (simp add: chunk_def nachos_consts smod_nonneg)
qed

lemma chunk_cases: "s \<noteq> 0 \<Longrightarrow> \<exists>n. 0 < n \<and> n \<le> s \<and> a mod 128 + n \<le> 128 \<and> chunk (int s) (int a) = int n"
proof -
  assume "s \<noteq> 0"
  moreover have "a mod 128 < 128" by simp
  ultimately have "0 < min (128 - a mod 128) s \<and> min (128 - a mod 128) s \<le> s \<and> a mod 128 + min (128 - a mod 128) s \<le> 128" by linarith
  then show ?thesis using chunk_int by blast
qed

lemma write_page:
  assumes ok: "space_ok as" and m: "length mem = 16384" and a: "a < 128 * length (frames as)" and l: "a mod 128 + length bs \<le> 128"
  shows "\<exists>mem'. write_bytes mem (int (frames as ! (a div 128) * 128 + a mod 128)) bs = Inr mem' \<and> stored 128 (frames as) mem mem' a bs"
proof -
  let ?p = "frames as ! (a div 128) * 128 + a mod 128"
  have i: "a div 128 < length (frames as)" using a by linarith
  then have "frames as ! (a div 128) < 128" using frames_small [OF ok] by simp
  then have "?p + length bs \<le> length mem" using l m by linarith
  then have "write_bytes mem (int ?p) bs = Inr (patch mem ?p bs)" using write_bytes_patch [of "int ?p" bs mem] by (simp only: nat_int)
  then show ?thesis using stored_block [OF frames_blocks [OF ok m] i l] by simp
qed

lemma CopyFromBuffer_ok:
  "space_ok as \<Longrightarrow> length (memory k) = 16384 \<Longrightarrow> a + s \<le> 128 * length (frames as) \<Longrightarrow> s \<le> length buf \<Longrightarrow>
   \<exists>as' mem'. CopyFromBuffer buf (int s) (int a) as k = Inr (as', set_memory k mem') \<and> touched_space as as' \<and>
     stored 128 (frames as) (memory k) mem' a (take s buf)"
proof (induction s arbitrary: buf a as k rule: less_induct)
  case (less s)
  show ?case
  proof (cases "s = 0")
    case True
    then show ?thesis using less.prems(1)
      by (intro exI [of _ as] exI [of _ "memory k"]) (simp add: CopyFromBuffer.simps stored_Nil)
  next
    case False
    obtain n where n: "0 < n" "n \<le> s" "a mod 128 + n \<le> 128" "chunk (int s) (int a) = int n"
      using chunk_cases [of s a] False by blast
    have a: "a < 128 * length (frames as)" using less.prems(3) False by linarith
    obtain as1 where p: "page_of as (int a) = Inr (int (frames as ! (a div 128) * 128 + a mod 128), as1)" "touched_space as as1"
      using page_of_ok [OF less.prems(1) a] by blast
    have l: "length (take n buf) = n" using n(2) less.prems(4) by simp
    obtain mem1 where w: "write_bytes (memory k) (int (frames as ! (a div 128) * 128 + a mod 128)) (take n buf) = Inr mem1"
        "stored 128 (frames as) (memory k) mem1 a (take n buf)"
      using write_page [OF less.prems(1,2) a, of "take n buf", unfolded l, OF n(3)] by blast
    have m1: "length mem1 = 16384" using w(2) less.prems by (simp add: stored_def)
    have f: "frames as1 = frames as" "space_ok as1" using p(2) by (simp_all add: touched_space_def)
    obtain as' mem' where r: "CopyFromBuffer (drop n buf) (int (s - n)) (int (a + n)) as1 (set_memory k mem1) = Inr (as', set_memory k mem')"
        "touched_space as1 as'" "stored 128 (frames as) mem1 mem' (a + n) (take (s - n) (drop n buf))"
      using less.IH [of "s - n" as1 "set_memory k mem1" "a + n" "drop n buf"] n f less.prems(2-4) diff_le_mono [OF less.prems(4), of n] m1
      by auto
    have "stored 128 (frames as) (memory k) mem' a (take n buf @ take (s - n) (drop n buf))"
      by (rule stored_append [OF w(2) r(3)]) (use l n(2) less.prems(3,4) in auto)
    moreover have "take n buf @ take (s - n) (drop n buf) = take s buf"
      using take_add [of n "s - n" buf] n(2) by simp
    moreover have "CopyFromBuffer buf (int s) (int a) as k = Inr (as', set_memory k mem')"
      using p(1) w(1) r(1) n False less.prems(4)
      by (subst CopyFromBuffer.simps) (simp add: n(4) Let_def of_nat_diff)
    ultimately show ?thesis using touched_trans [OF p(2) r(2)] by auto
  qed
qed

lemma CopyFromFile_ok:
  "unix_ok u file \<Longrightarrow> is_file file f c (host (a_fs k)) \<Longrightarrow> space_ok as \<Longrightarrow> length (memory k) = 16384 \<Longrightarrow> a + s \<le> 128 * length (frames as) \<Longrightarrow>
   \<exists>as' mem' h'. CopyFromFile u f (int pos) (int s) (int a) as k = Inr (as', set_memory (set_host k h') mem') \<and> touched_space as as' \<and>
     is_file file f c h' \<and> stored 128 (frames as) (memory k) mem' a (take s (drop pos c))"
proof (induction s arbitrary: pos a as k rule: less_induct)
  case (less s)
  show ?case
  proof (cases "s = 0")
    case True
    then show ?thesis using less.prems(2,3)
      by (intro exI [of _ as] exI [of _ "memory k"] exI [of _ "host (a_fs k)"]) (simp add: CopyFromFile.simps stored_Nil)
  next
    case False
    obtain n where n: "0 < n" "n \<le> s" "a mod 128 + n \<le> 128" "chunk (int s) (int a) = int n"
      using chunk_cases [of s a] False by blast
    let ?bs = "take n (drop pos c)"
    have a: "a < 128 * length (frames as)" using less.prems(5) False by linarith
    obtain as1 where p: "page_of as (int a) = Inr (int (frames as ! (a div 128) * 128 + a mod 128), as1)" "touched_space as as1"
      using page_of_ok [OF less.prems(3) a] by blast
    obtain h where h: "ReadAt u f (int n) (int pos) (host (a_fs k)) = Inr ((int (length ?bs), ?bs), h)" "is_file file f c h"
      using ReadAt_file [OF less.prems(1,2), of "int n" "int pos"] by auto
    have l: "length ?bs \<le> n" by simp
    then have "a mod 128 + length ?bs \<le> 128" using n(3) by linarith
    then obtain mem1 where w: "write_bytes (memory k) (int (frames as ! (a div 128) * 128 + a mod 128)) ?bs = Inr mem1"
        "stored 128 (frames as) (memory k) mem1 a ?bs"
      using write_page [OF less.prems(3,4) a, of ?bs] by blast
    have m1: "length mem1 = 16384" using w(2) less.prems by (simp add: stored_def)
    have f: "frames as1 = frames as" "space_ok as1" using p(2) by (simp_all add: touched_space_def)
    let ?rest = "take (s - n) (drop (pos + n) c)"
    obtain as' mem' h' where r:
        "CopyFromFile u f (int (pos + n)) (int (s - n)) (int (a + n)) as1 (set_memory (set_host k h) mem1) = Inr (as', set_memory (set_host k h') mem')"
        "touched_space as1 as'" "is_file file f c h'" "stored 128 (frames as) mem1 mem' (a + n) ?rest"
      using less.IH [of "s - n" "set_memory (set_host k h) mem1" as1 "a + n" "pos + n"] n f h(2) less.prems m1
      by auto
    have e: "a + n = a + length ?bs \<or> ?rest = []" by auto
    have "stored 128 (frames as) (memory k) mem' a (?bs @ ?rest)"
      by (rule stored_append [OF w(2) r(4) e]) (use n(2) less.prems(5) in auto)
    moreover have "?bs @ ?rest = take s (drop pos c)"
      using take_add [of n "s - n" "drop pos c"] n(2) by (simp add: add.commute)
    moreover have "CopyFromFile u f (int pos) (int s) (int a) as k = Inr (as', set_memory (set_host k h') mem')"
      using p(1) h(1) w(1) r(1) n False
      by (subst CopyFromFile.simps) (simp add: n(4) Let_def of_nat_diff)
    ultimately show ?thesis using touched_trans [OF p(2) r(2)] r(3) by auto
  qed
qed

section \<open>New page tables\<close>

lemma set_bitmap_simps [simp]:
  "memory (k\<lparr>gPhysPageBitMap := bm\<rparr>) = memory k" "memory (k\<lparr>addrLock := l\<rparr>) = memory k"
  "(set_memory k mem)\<lparr>gPhysPageBitMap := bm\<rparr> = set_memory (k\<lparr>gPhysPageBitMap := bm\<rparr>) mem"
  "(set_memory k mem)\<lparr>addrLock := l\<rparr> = set_memory (k\<lparr>addrLock := l\<rparr>) mem" "addrLock (set_memory k mem) = addrLock k"
  by (simp_all add: set_memory_def)

lemma zero_frame:
  assumes "0 \<le> f" "f < 128" "length mem = 16384"
  shows "\<exists>mem'. write_bytes mem (f * 128) (replicate 128 0) = Inr mem' \<and> length mem' = 16384 \<and>
    (\<forall>j < 16384. mem' ! j = (if int (j div 128) = f then 0 else mem ! j))"
proof -
  let ?m = "patch mem (nat f * 128) (replicate 128 0)"
  have l: "nat f * 128 + 128 \<le> length mem" using assms by linarith
  have "write_bytes mem (f * 128) (replicate 128 0) = Inr ?m"
    using write_bytes_patch [of "f * 128" "replicate 128 0" mem] assms by (simp add: nat_mult_distrib)
  moreover have "?m ! j = (if int (j div 128) = f then 0 else mem ! j)" for j
  proof -
    have "nat f * 128 + 128 \<le> length mem" "0 + length (replicate 128 (0 :: byte)) \<le> 128" "j mod 128 < 128" using l by simp_all
    then have "?m ! (j div 128 * 128 + j mod 128) = (if nat f = j div 128 \<and> 0 \<le> j mod 128 \<and> j mod 128 < 0 + length (replicate 128 (0 :: byte))
        then replicate 128 0 ! (j mod 128 - 0) else mem ! (j div 128 * 128 + j mod 128))"
      using nth_patch_block [of "nat f" 128 mem 0 "replicate 128 0" "j mod 128" "j div 128"] by simp
    moreover have "nat f = j div 128 \<longleftrightarrow> int (j div 128) = f" using assms(1) by auto
    ultimately show ?thesis by simp
  qed
  ultimately show ?thesis using l assms(3) by (simp add: length_patch)
qed

lemma init_pages_take:
  "take_slots FindAndSet n (gPhysPageBitMap k) = Inr (xs, bm') \<Longrightarrow> set xs \<subseteq> {0..<128} \<Longrightarrow> length (memory k) = 16384 \<Longrightarrow>
   \<exists>pt mem'. init_pages i n k = Inr (pt, set_memory (k\<lparr>gPhysPageBitMap := bm'\<rparr>) mem') \<and>
     map physicalPage pt = map word_of_int xs \<and> (\<forall>e \<in> set pt. valid e \<and> \<not> readOnly e) \<and> length mem' = 16384 \<and>
     (\<forall>j < 16384. mem' ! j = (if int (j div 128) \<in> set xs then 0 else memory k ! j))"
proof (induction n arbitrary: i k xs)
  case 0
  then show ?case by (intro exI [of _ "[]"] exI [of _ "memory k"]) auto
next
  case (Suc n)
  obtain f bm1 ys where f: "FindAndSet (gPhysPageBitMap k) = Inr (f, bm1)" "take_slots FindAndSet n bm1 = Inr (ys, bm')" "xs = f # ys"
    using Suc.prems(1) by (auto simp: rbind_eq_Inr)
  obtain mem1 where m: "write_bytes (memory k) (f * 128) (replicate 128 0) = Inr mem1" "length mem1 = 16384"
      "\<And>j. j < 16384 \<Longrightarrow> mem1 ! j = (if int (j div 128) = f then 0 else memory k ! j)"
    using zero_frame [of f "memory k"] Suc.prems(2,3) f(3) by auto
  obtain pt mem' where r: "init_pages (Suc i) n (set_memory (k\<lparr>gPhysPageBitMap := bm1\<rparr>) mem1) = Inr (pt, set_memory (k\<lparr>gPhysPageBitMap := bm'\<rparr>) mem')"
      "map physicalPage pt = map word_of_int ys" "\<forall>e \<in> set pt. valid e \<and> \<not> readOnly e" "length mem' = 16384"
      "\<And>j. j < 16384 \<Longrightarrow> mem' ! j = (if int (j div 128) \<in> set ys then 0 else mem1 ! j)"
    using Suc.IH [of "set_memory (k\<lparr>gPhysPageBitMap := bm1\<rparr>) mem1" ys "Suc i"] f Suc.prems(2) m(2) by auto
  let ?e = "\<lparr>virtualPage = word_of_nat i, physicalPage = word_of_int f, valid = True, readOnly = False, use_bit = False, dirty = False\<rparr>"
  have "init_pages i (Suc n) k = Inr (?e # pt, set_memory (k\<lparr>gPhysPageBitMap := bm'\<rparr>) mem')"
    using f(1) m(1) r(1) by (simp add: nachos_consts)
  then show ?case using r(2-5) m(3) f(3) by auto
qed

text \<open>
  \<open>take_pages\<close>: a new page table over frames that were free, zeroed, with no other byte of memory changed.
\<close>

definition take_pages :: "'h akernel \<Rightarrow> AddrSpace \<Rightarrow> 'h akernel \<Rightarrow> bool" where
  "take_pages k as k' \<longleftrightarrow> space_ok as \<and> bitmap_ok (gPhysPageBitMap k') \<and> numBits (gPhysPageBitMap k') = 128 \<and>
     int ` set (frames as) \<inter> used_slots (gPhysPageBitMap k) = {} \<and>
     used_slots (gPhysPageBitMap k') = used_slots (gPhysPageBitMap k) \<union> int ` set (frames as) \<and> length (memory k') = 16384 \<and>
     (\<forall>j < 16384. memory k' ! j = (if j div 128 \<in> set (frames as) then 0 else memory k ! j))"

definition akernel_ok :: "'h akernel \<Rightarrow> bool" where
  "akernel_ok k \<longleftrightarrow> bitmap_ok (gPhysPageBitMap k) \<and> numBits (gPhysPageBitMap k) = 128 \<and> addrLock k = 1 \<and> length (memory k) = 16384"

definition free_frames :: "'h akernel \<Rightarrow> nat" where
  "free_frames k = card ({0..<128} - used_slots (gPhysPageBitMap k))"

lemma nat_of_small: "0 \<le> x \<Longrightarrow> x < 128 \<Longrightarrow> unat (word_of_int x :: 32 word) = nat x"
proof -
  assume x: "0 \<le> x" "x < 128"
  then have "take_bit 32 x = x" by (intro take_bit_int_eq_self) simp_all
  then have "uint (word_of_int x :: 32 word) = x" using x by (simp add: unsigned_of_int)
  then show ?thesis by (metis nat_int of_nat_unat)
qed

lemma InitPageTable_ok:
  assumes k: "akernel_ok k" and as: "pageTable as = None" "numPages as \<le> 128"
  shows "unat (numPages as) \<le> free_frames k \<Longrightarrow>
      \<exists>as' bm mem. InitPageTable as k = Inr (True, as', set_memory (k\<lparr>gPhysPageBitMap := bm\<rparr>) mem) \<and>
        take_pages k as' (set_memory (k\<lparr>gPhysPageBitMap := bm\<rparr>) mem) \<and> numPages as' = numPages as \<and> pageTable as' \<noteq> None \<and>
        argCount as' = argCount as \<and> argSize as' = argSize as \<and>
        (\<forall>f bm1. FindAndSet (gPhysPageBitMap k) = Inr (f, bm1) \<longrightarrow> 0 < unat (numPages as) \<longrightarrow> (\<exists>fr. frames as' = nat f # fr))"
    and "free_frames k < unat (numPages as) \<Longrightarrow> InitPageTable as k = Inr (False, as, k)"
proof -
  let ?bm = "gPhysPageBitMap k"
  let ?k1 = "k\<lparr>addrLock := 0\<rparr>"
  have b: "bitmap_ok ?bm" "numBits ?bm = 128" using k by (auto simp: akernel_ok_def)
  have c: "NumClear ?bm = Inr (int (free_frames k))" using bm.num_clear_law [OF b(1)] b(2) by (simp add: free_frames_def)
  have "free_frames k \<le> card {0..<128::int}" unfolding free_frames_def by (rule card_mono) auto
  then have "free_frames k \<le> 128" by simp
  then have w: "numPages as > word_of_int (int (free_frames k)) \<longleftrightarrow> unat (numPages as) > free_frames k"
    by (simp add: word_less_nat_alt unat_of_nat)
  have p: "addrLock_P k = Inr ?k1" using k by (simp add: addrLock_P_def akernel_ok_def)
  have v: "addrLock_V ?k1 = k" using k by (simp add: addrLock_V_def akernel_ok_def)
  show "InitPageTable as k = Inr (False, as, k)" if "free_frames k < unat (numPages as)"
    using as c w p v that by (simp add: InitPageTable_def)
  show "\<exists>as' bm mem. InitPageTable as k = Inr (True, as', set_memory (k\<lparr>gPhysPageBitMap := bm\<rparr>) mem) \<and>
        take_pages k as' (set_memory (k\<lparr>gPhysPageBitMap := bm\<rparr>) mem) \<and> numPages as' = numPages as \<and> pageTable as' \<noteq> None \<and>
        argCount as' = argCount as \<and> argSize as' = argSize as \<and>
        (\<forall>f bm1. FindAndSet (gPhysPageBitMap k) = Inr (f, bm1) \<longrightarrow> 0 < unat (numPages as) \<longrightarrow> (\<exists>fr. frames as' = nat f # fr))"
    if n: "unat (numPages as) \<le> free_frames k"
  proof -
    obtain xs bm' where t: "take_slots FindAndSet (unat (numPages as)) ?bm = Inr (xs, bm')" "length xs = unat (numPages as)" "distinct xs"
        "set xs \<subseteq> {0..<128} - used_slots ?bm" "bitmap_ok bm'" "numBits bm' = 128" "used_slots bm' = used_slots ?bm \<union> set xs"
      using bm.take_slots_ok [OF b(1), of "unat (numPages as)"] n b(2) unfolding free_frames_def of_nat_le_iff by auto
    have xs: "set xs \<subseteq> {0..<128}" using t(4) by auto
    obtain pt mem where q: "init_pages 0 (unat (numPages as)) ?k1 = Inr (pt, set_memory (?k1\<lparr>gPhysPageBitMap := bm'\<rparr>) mem)"
        "map physicalPage pt = map word_of_int xs" "\<forall>e \<in> set pt. valid e \<and> \<not> readOnly e" "length mem = 16384"
        "\<And>j. j < 16384 \<Longrightarrow> mem ! j = (if int (j div 128) \<in> set xs then 0 else memory k ! j)"
      using init_pages_take [of "unat (numPages as)" ?k1 xs bm' 0] t(1) xs k by (auto simp: akernel_ok_def)
    let ?as = "as\<lparr>pageTable := Some pt\<rparr>"
    have "map (\<lambda>e. unat (physicalPage e)) pt = map unat (map physicalPage pt)" by simp
    also have "\<dots> = map nat xs" unfolding q(2) using t(4) nat_of_small by (auto simp: subset_iff)
    finally have f: "frames ?as = map nat xs" by (simp add: frames_def)
    have i: "int ` nat ` set xs = set xs" using t(4) by (force simp: image_image subset_iff)
    have "inj_on nat (set xs)" by (rule inj_onI) (metis xs subsetD atLeastLessThan_iff eq_nat_nat_iff)
    moreover have "nat ` set xs \<subseteq> {..<128}" using xs by (auto simp: subset_iff nat_less_iff)
    ultimately have "space_ok ?as" using f t(2,3) q(3) by (auto simp: space_ok_def distinct_map)
    moreover have "int (j div 128) \<in> set xs \<longleftrightarrow> j div 128 \<in> nat ` set xs" for j
      using i by (metis image_eqI imageE nat_int)
    moreover have v2: "k\<lparr>gPhysPageBitMap := bm', addrLock := 1\<rparr> = k\<lparr>gPhysPageBitMap := bm'\<rparr>" using k by (cases k) (simp add: akernel_ok_def)
    ultimately have "take_pages k ?as (set_memory (k\<lparr>gPhysPageBitMap := bm'\<rparr>) mem)"
      using f i t(4-7) q(4,5) by (auto simp: take_pages_def)
    moreover have "InitPageTable as k = Inr (True, ?as, set_memory (k\<lparr>gPhysPageBitMap := bm'\<rparr>) mem)"
      using as c w p n q(1) v2 by (simp add: InitPageTable_def addrLock_V_def)
    moreover have "\<exists>fr. frames ?as = nat g # fr" if g: "FindAndSet ?bm = Inr (g, bm1)" "0 < unat (numPages as)" for g bm1
    proof -
      obtain m where "unat (numPages as) = Suc m" using g(2) gr0_conv_Suc by blast
      then obtain ys where "xs = g # ys" using t(1) g(1) by (auto simp: rbind_eq_Inr)
      then show ?thesis using f by simp
    qed
    ultimately show ?thesis by (intro exI [of _ ?as] exI [of _ bm'] exI [of _ mem]) auto
  qed
qed

section \<open>Arguments\<close>

lemma in_memory: "n < 16384 \<Longrightarrow> (word_of_nat n :: 32 word) < 16384"
  by (simp add: word_less_nat_alt unat_of_nat_small)

lemma as_Translate_ok:
  assumes ok: "space_ok as" and a: "a < 128 * length (frames as)"
  shows "\<exists>as'. as_Translate as (word_of_nat a) w = Inr (Inr (word_of_nat (frames as ! (a div 128) * 128 + a mod 128), as')) \<and>
    touched_space as as'"
proof -
  let ?i = "a div 128"
  obtain pt where pt: "pageTable as = Some pt" using a by (cases "pageTable as") (auto simp: frames_def)
  have l: "length pt = length (frames as)" "length pt = unat (numPages as)" using pt ok by (simp_all add: frames_def space_ok_def)
  have i: "?i < length pt" using a l by linarith
  have "length (frames as) = card (set (frames as))" using ok by (simp add: space_ok_def distinct_card)
  also have "\<dots> \<le> card {..<128::nat}" using ok by (intro card_mono) (auto simp: space_ok_def)
  finally have a': "a < 16384" using a by simp
  then have d: "(word_of_nat a :: 32 word) div 128 = word_of_nat ?i" "(word_of_nat a :: 32 word) mod 128 = word_of_nat (a mod 128)"
    using word_of_nat_div [of a 128] word_of_nat_mod [of a 128] by simp_all
  have u: "unat (word_of_nat ?i :: 32 word) = ?i" "uint (word_of_nat ?i :: 32 word) = int ?i"
    using a' by (simp_all add: unsigned_of_nat take_bit_nat_eq_self)
  let ?e = "pt ! ?i" let ?f = "frames as ! ?i"
  have f: "unat (physicalPage ?e) = ?f" using pt i by (simp add: frames_def)
  have f2: "?f < 128" using frames_small [OF ok nth_mem] i l(1) by simp
  have s: "sint (physicalPage ?e) = int ?f" using small_frame [of "physicalPage ?e"] f f2 by simp
  have e: "valid ?e" "\<not> readOnly ?e" using ok pt i by (auto simp: space_ok_def)
  have g: "\<not> numPages as \<le> word_of_nat ?i" using i l u by (simp add: word_le_nat_alt)
  have p: "physicalPage ?e * 128 + word_of_nat (a mod 128) = word_of_nat (?f * 128 + a mod 128)"
  proof -
    have "word_of_nat ?f = physicalPage ?e" unfolding f [symmetric] by simp
    then show ?thesis by simp
  qed
  have "?f * 128 + a mod 128 < 16384" using f2 mod_less_divisor [of 128 a] by linarith
  then have b: "(word_of_nat (?f * 128 + a mod 128) :: 32 word) < 16384" by (rule in_memory)
  have t: "touched_space as (as\<lparr>pageTable := Some (pt[?i := (?e\<lparr>use_bit := True\<rparr>)\<lparr>dirty := x\<rparr>])\<rparr>)" for x
    by (rule touch_page_ok [OF ok pt i]) simp_all
  then have "touched_space as (as\<lparr>pageTable := Some (pt[?i := ?e\<lparr>use_bit := True\<rparr>])\<rparr>)"
    using touch_page_ok [OF ok pt i, of "?e\<lparr>use_bit := True\<rparr>"] by simp
  then show ?thesis using pt i g d u e s p b f2 t
    by (simp add: as_Translate_def get_pageTable_def Let_def nachos_consts)
qed

lemma translate_or_abort_ok:
  assumes ok: "space_ok as" and a: "a < 128 * length (frames as)"
  shows "\<exists>p as'. translate_or_abort as (word_of_nat a) = Inr (p, as') \<and> uint p = int (frames as ! (a div 128) * 128 + a mod 128) \<and>
    touched_space as as'"
proof -
  have "frames as ! (a div 128) < 128" using frames_small [OF ok] a by (simp add: less_mult_imp_div_less mult.commute)
  then have "frames as ! (a div 128) * 128 + a mod 128 < 16384" using mod_less_divisor [of 128 a] by linarith
  then have "uint (word_of_nat (frames as ! (a div 128) * 128 + a mod 128) :: 32 word) = int (frames as ! (a div 128) * 128 + a mod 128)"
    by (intro uint_of_nat_small) simp
  then show ?thesis using as_Translate_ok [OF ok a, of True] by (auto simp: translate_or_abort_def)
qed

text \<open>The pointers to the strings that follow each other from address \<open>s\<close> on, and the strings.\<close>

fun arg_pointers :: "nat \<Rightarrow> string list \<Rightarrow> byte list" where
  "arg_pointers s [] = []"
| "arg_pointers s (a # argv) = word_bytes (word_of_nat s) @ arg_pointers (s + length a + 1) argv"

definition arg_strings :: "string list \<Rightarrow> byte list" where
  "arg_strings argv = concat (map c_string argv)"

lemma length_c_string [simp]: "length (c_string a) = length a + 1"
  by (simp add: c_string_def)

lemma length_arg_pointers [simp]: "length (arg_pointers s argv) = 4 * length argv"
  by (induction s argv rule: arg_pointers.induct) auto

lemma arg_strings_Cons [simp]: "arg_strings (a # argv) = c_string a @ arg_strings argv" "arg_strings [] = []"
  by (simp_all add: arg_strings_def)

lemma frames_bound: "space_ok as \<Longrightarrow> length (frames as) \<le> 128"
proof -
  assume ok: "space_ok as"
  have "length (frames as) = card (set (frames as))" using ok by (simp add: space_ok_def distinct_card)
  also have "\<dots> \<le> card {..<128::nat}" using ok by (intro card_mono) (auto simp: space_ok_def)
  finally show ?thesis by simp
qed

text \<open>A store through \<^verbatim>\<open>Translate\<close>, within one page.\<close>

lemma translate_store:
  assumes ok: "space_ok as" and m: "length (memory k) = 16384" and a: "a + length bs \<le> 128 * length (frames as)"
    and l: "a mod 128 + length bs \<le> 128" "bs \<noteq> []"
  shows "\<exists>p as' mem. translate_or_abort as (word_of_nat a) = Inr (p, as') \<and> write_bytes (memory k) (uint p) bs = Inr mem \<and>
    touched_space as as' \<and> stored 128 (frames as) (memory k) mem a bs"
proof -
  have a': "a < 128 * length (frames as)" using a l(2) by (cases bs) auto
  show ?thesis using translate_or_abort_ok [OF ok a'] write_page [OF ok m a' l(1)] by metis
qed

lemma write_args_ok:
  "space_ok as \<Longrightarrow> length (memory k) = 16384 \<Longrightarrow> a mod 4 = 0 \<Longrightarrow> a + 4 * length argv + 4 \<le> s \<Longrightarrow>
   s + length (arg_strings argv) \<le> 128 * length (frames as) \<Longrightarrow>
   \<exists>as' mem'. write_args argv (word_of_nat a) (word_of_nat s) as k = Inr (as', set_memory k mem') \<and> touched_space as as' \<and>
     viewed 128 (frames as) (memory k) mem'
       (patch (patch (view 128 (memory k) (frames as)) a (arg_pointers s argv @ [0])) s (arg_strings argv))"
proof (induction argv arbitrary: a s as k)
  case Nil
  have "a mod 128 < 128" by simp
  then have "a mod 128 + length [0::byte] \<le> 128" by (simp del: mod_less_divisor)
  then obtain p as' mem where t: "translate_or_abort as (word_of_nat a) = Inr (p, as')" "write_bytes (memory k) (uint p) [0] = Inr mem"
      "touched_space as as'" "stored 128 (frames as) (memory k) mem a [0]"
    using translate_store [OF Nil.prems(1,2), of a "[0]"] Nil.prems(4,5) by auto
  then show ?case by (auto simp: stored_viewed)
next
  case (Cons x argv)
  let ?w = "word_bytes (word_of_nat s)" let ?fr = "frames as" let ?V = "view 128 (memory k) (frames as)"
  let ?s = "s + length x + 1"
  have "a mod 128 mod 4 = 0" using Cons.prems(3) by (simp add: mod_mod_cancel)
  moreover have "a mod 128 < 128" by simp
  ultimately have g: "a mod 128 + length ?w \<le> 128" by (simp only: length_word_bytes) presburger
  obtain p as1 m1 where t: "translate_or_abort as (word_of_nat a) = Inr (p, as1)" "write_bytes (memory k) (uint p) ?w = Inr m1"
      "touched_space as as1" "stored 128 ?fr (memory k) m1 a ?w"
    using translate_store [OF Cons.prems(1,2) _ g] Cons.prems(4,5) by (auto simp: word_bytes_def)
  have f1: "frames as1 = ?fr" "space_ok as1" "length m1 = 16384" using t(3,4) Cons.prems(2) by (auto simp: touched_space_def stored_def)
  have b: "s + (length x + 1) \<le> 128 * length ?fr" using Cons.prems(5) by simp
  then have sb: "s < 2 ^ 31" using frames_bound [OF Cons.prems(1)] by simp
  obtain as2 m2 where c: "CopyFromBuffer (c_string x) (int (length x + 1)) (int s) as1 (set_memory k m1) = Inr (as2, set_memory k m2)"
      "touched_space as1 as2" "stored 128 ?fr m1 m2 s (c_string x)"
    using CopyFromBuffer_ok [of as1 "set_memory k m1" s "length x + 1" "c_string x"] f1 b by auto
  have f2: "frames as2 = ?fr" "space_ok as2" "length m2 = 16384" using c(2,3) f1 by (auto simp: touched_space_def stored_def)
  obtain as' m' where r: "write_args argv (word_of_nat (a + 4)) (word_of_nat ?s) as2 (set_memory k m2) = Inr (as', set_memory k m')"
      "touched_space as2 as'"
      "viewed 128 ?fr m2 m' (patch (patch (view 128 m2 ?fr) (a + 4) (arg_pointers ?s argv @ [0])) ?s (arg_strings argv))"
    using Cons.IH [of as2 "set_memory k m2" "a + 4" ?s] f2 Cons.prems(3-5) by (auto simp: mod_add_eq)
  let ?P = "arg_pointers ?s argv @ [0]" let ?V1 = "patch ?V a ?w"
  have l: "length ?V1 = 128 * length ?fr" using Cons.prems(4,5) by (simp add: length_patch)
  have V2: "view 128 m2 ?fr = patch ?V1 s (c_string x)" using t(4) c(3) by (simp add: stored_def)
  have "patch (patch ?V1 s (c_string x)) (a + 4) ?P = patch (patch ?V1 (a + 4) ?P) s (c_string x)"
    by (rule patch_commute) (use Cons.prems(4,5) l in auto)
  also have "patch ?V1 (a + 4) ?P = patch ?V a (?w @ ?P)"
    using patch_append [of a ?w ?P ?V] Cons.prems(4,5) by simp
  finally have e: "patch (view 128 m2 ?fr) (a + 4) ?P = patch (patch ?V a (?w @ ?P)) s (c_string x)" unfolding V2 .
  have "patch (patch (view 128 m2 ?fr) (a + 4) ?P) ?s (arg_strings argv) = patch (patch ?V a (?w @ ?P)) s (c_string x @ arg_strings argv)"
    unfolding e using patch_append [of s "c_string x" "arg_strings argv" "patch ?V a (?w @ ?P)"] Cons.prems(4,5)
    by (simp add: length_patch add.assoc)
  moreover have "viewed 128 ?fr (memory k) m2 (view 128 m2 ?fr)"
    using viewed_trans [OF t(4) [unfolded stored_viewed] c(3) [unfolded stored_viewed]] V2 t(4) by (simp add: stored_def)
  ultimately have "viewed 128 ?fr (memory k) m' (patch (patch ?V a (arg_pointers s (x # argv) @ [0])) s (arg_strings (x # argv)))"
    using viewed_trans [OF _ r(3)] by simp
  moreover have "write_args (x # argv) (word_of_nat a) (word_of_nat s) as k = Inr (as', set_memory k m')"
    using t(1,2) c(1) r(1) sint_of_nat_small [OF sb] by (simp add: WordToMachine_def WordToHost_def add.commute add.left_commute)
  ultimately show ?case using touched_trans [OF t(3) touched_trans [OF c(2) r(2)]] by blast
qed

section \<open>Loading a program\<close>

definition args_bytes :: "string list \<Rightarrow> nat" where
  "args_bytes argv = (if argv = [] then 0 else 4 * (length argv + 1) + length (arg_strings argv))"

definition exec_pages :: "byte list \<Rightarrow> string list \<Rightarrow> 32 word" where
  "exec_pages c argv = udivRoundUp (space_size (header_at c) (args_size argv)) (word_of_int PageSize)"

text \<open>The segment lies below \<open>lim\<close> in the address space; where it lies in the file is not negative.\<close>

definition seg_ok :: "nat \<Rightarrow> Segment \<Rightarrow> bool" where
  "seg_ok lim s \<longleftrightarrow> (sint (seg_size s) > 0 \<longrightarrow> 0 \<le> sint (seg_inFileAddr s) \<and> 0 \<le> sint (seg_virtualAddr s) \<and>
     sint (seg_virtualAddr s) + sint (seg_size s) \<le> int lim)"

text \<open>
  A file that can be loaded: a NOFF header, at most 128 pages, arguments of at most one memory that fit into the
  space, and the three segments with contents below the arguments.
\<close>

definition exec_ok :: "byte list \<Rightarrow> string list \<Rightarrow> bool" where
  "exec_ok c argv \<longleftrightarrow> 52 \<le> length c \<and> noffMagic (header_at c) = NOFFMAGIC \<and> exec_pages c argv \<le> 128 \<and>
     args_bytes argv \<le> 16384 \<and> unat (args_size argv) \<le> 128 * unat (exec_pages c argv) \<and>
     (\<forall>s \<in> {n_code (header_at c), n_initData (header_at c), n_readonlyData (header_at c)}.
        seg_ok (128 * unat (exec_pages c argv) - unat (args_size argv)) s)"

text \<open>The memory image of a program: zero bytes, the segments, and the arguments at the end.\<close>

definition seg_image :: "byte list \<Rightarrow> Segment \<Rightarrow> byte list \<Rightarrow> byte list" where
  "seg_image c s V = (if sint (seg_size s) > 0
     then patch V (nat (sint (seg_virtualAddr s))) (take (nat (sint (seg_size s))) (drop (nat (sint (seg_inFileAddr s))) c)) else V)"

definition arg_block :: "nat \<Rightarrow> string list \<Rightarrow> byte list" where
  "arg_block base argv = arg_pointers (base + 4 * (length argv + 1)) argv @ word_bytes 0 @ arg_strings argv"

definition program_image :: "byte list \<Rightarrow> string list \<Rightarrow> byte list" where
  "program_image c argv =
     (let h = header_at c; n = 128 * unat (exec_pages c argv); base = n - unat (args_size argv);
          V = seg_image c (n_readonlyData h) (seg_image c (n_initData h) (seg_image c (n_code h) (replicate n 0)))
      in if argv = [] then V else patch V base (arg_block base argv))"

lemma args_size_nat:
  assumes "args_bytes argv \<le> 16384"
  shows "unat (args_size argv) = (args_bytes argv + 3) div 4 * 4"
proof -
  let ?n = "args_bytes argv"
  have s: "(\<Sum>a\<leftarrow>argv. word_of_nat (length a) + 1) = (word_of_nat (length (arg_strings argv)) :: 32 word)" for argv :: "string list"
    by (induction argv) simp_all
  have e: "(if argv = [] then 0 else 4 * (word_of_nat (length argv) + 1) + (\<Sum>a\<leftarrow>argv. word_of_nat (length a) + 1)) = (word_of_nat ?n :: 32 word)"
    unfolding s by (simp add: args_bytes_def)
  have d: "(word_of_nat ?n :: 32 word) div 4 = word_of_nat (?n div 4)" "(word_of_nat ?n :: 32 word) mod 4 = word_of_nat (?n mod 4)"
    using word_of_nat_div [of ?n 4] word_of_nat_mod [of ?n 4] assms by simp_all
  have m: "(word_of_nat (?n mod 4) :: 32 word) > 0 \<longleftrightarrow> ?n mod 4 > 0"
    using mod_less_divisor [of 4 ?n] unat_of_nat_small [of "?n mod 4"] by (simp add: word_less_nat_alt)
  have "udivRoundUp (word_of_nat ?n) 4 * 4 = word_of_nat ((?n div 4 + (if ?n mod 4 > 0 then 1 else 0)) * 4)"
    unfolding udivRoundUp_def d m by simp
  also have "?n div 4 + (if ?n mod 4 > 0 then 1 else 0) = (?n + 3) div 4" by presburger
  finally have "args_size argv = word_of_nat ((?n + 3) div 4 * 4)" unfolding args_size_def e Let_def .
  moreover have "(?n + 3) div 4 * 4 < 2 ^ 32" using assms by simp
  ultimately show ?thesis by (simp only: unat_of_nat_small)
qed

lemma header_at_take: "52 \<le> length c \<Longrightarrow> header_at (take 52 c @ xs) = header_at c"
  by (simp add: header_at_def segment_at_def int_at_def nth_append)

lemma length_seg_image [simp]:
  "seg_ok lim s \<Longrightarrow> lim \<le> length V \<Longrightarrow> length (seg_image c s V) = length V"
  by (auto simp: seg_image_def seg_ok_def length_patch)

lemma seg_image_above:
  "seg_ok lim s \<Longrightarrow> lim \<le> i \<Longrightarrow> i < length V \<Longrightarrow> seg_image c s V ! i = V ! i"
  by (auto simp: seg_image_def seg_ok_def nth_patch)

lemma load_segment_ok:
  assumes "unix_ok u file" "is_file file f c (host (a_fs k))" "space_ok as" "length (memory k) = 16384"
    and s: "seg_ok lim s" "lim \<le> 128 * length (frames as)"
  shows "\<exists>as' mem' h'. load_segment u f s as k = Inr (as', set_memory (set_host k h') mem') \<and> touched_space as as' \<and>
    is_file file f c h' \<and> viewed 128 (frames as) (memory k) mem' (seg_image c s (view 128 (memory k) (frames as)))"
proof (cases "sint (seg_size s) > 0")
  case True
  let ?a = "nat (sint (seg_virtualAddr s))" let ?n = "nat (sint (seg_size s))" let ?p = "nat (sint (seg_inFileAddr s))"
  have i: "int ?a = sint (seg_virtualAddr s)" "int ?n = sint (seg_size s)" "int ?p = sint (seg_inFileAddr s)" "?a + ?n \<le> 128 * length (frames as)"
    using True s by (auto simp: seg_ok_def)
  then show ?thesis using CopyFromFile_ok [OF assms(1-4) i(4), of ?p] True
    by (auto simp: load_segment_def seg_image_def stored_viewed)
next
  case False
  then show ?thesis using assms viewed_refl
    by (intro exI [of _ as] exI [of _ "memory k"] exI [of _ "host (a_fs k)"]) (simp add: load_segment_def seg_image_def)
qed

text \<open>The three segments one after the other.\<close>

lemma load_segments_ok:
  assumes u: "unix_ok u file" and f: "is_file file f c (host (a_fs k))" and as: "space_ok as" and m: "length (memory k) = 16384"
    and s: "seg_ok lim (n_code n)" "seg_ok lim (n_initData n)" "seg_ok lim (n_readonlyData n)" "lim \<le> 128 * length (frames as)"
  shows "\<exists>as' mem' h'. load_segments u f n as k = Inr (as', set_memory (set_host k h') mem') \<and> touched_space as as' \<and> is_file file f c h' \<and>
    viewed 128 (frames as) (memory k) mem'
      (seg_image c (n_readonlyData n) (seg_image c (n_initData n) (seg_image c (n_code n) (view 128 (memory k) (frames as)))))"
proof -
  obtain a1 m1 h1 where 1: "load_segment u f (n_code n) as k = Inr (a1, set_memory (set_host k h1) m1)" "touched_space as a1" "is_file file f c h1"
      "viewed 128 (frames as) (memory k) m1 (seg_image c (n_code n) (view 128 (memory k) (frames as)))"
    using load_segment_ok [OF u f as m s(1,4)] by blast
  let ?k1 = "set_memory (set_host k h1) m1"
  have t1: "frames a1 = frames as" "space_ok a1" "length m1 = 16384" using 1 m by (auto simp: touched_space_def viewed_def)
  obtain a2 m2 h2 where 2: "load_segment u f (n_initData n) a1 ?k1 = Inr (a2, set_memory (set_host k h2) m2)" "touched_space a1 a2" "is_file file f c h2"
      "viewed 128 (frames as) m1 m2 (seg_image c (n_initData n) (view 128 m1 (frames as)))"
    using load_segment_ok [OF u _ t1(2), of f c ?k1 lim "n_initData n"] 1(3) t1 s by auto
  let ?k2 = "set_memory (set_host k h2) m2"
  have t2: "frames a2 = frames as" "space_ok a2" "length m2 = 16384" using 2 t1 by (auto simp: touched_space_def viewed_def)
  obtain a3 m3 h3 where 3: "load_segment u f (n_readonlyData n) a2 ?k2 = Inr (a3, set_memory (set_host k h3) m3)" "touched_space a2 a3" "is_file file f c h3"
      "viewed 128 (frames as) m2 m3 (seg_image c (n_readonlyData n) (view 128 m2 (frames as)))"
    using load_segment_ok [OF u _ t2(2), of f c ?k2 lim "n_readonlyData n"] 2(3) t2 s by auto
  have "viewed 128 (frames as) (memory k) m3 (seg_image c (n_readonlyData n) (view 128 m2 (frames as)))"
    using viewed_trans [OF viewed_trans [OF 1(4) 2(4)] 3(4)] .
  moreover have "view 128 m2 (frames as) = seg_image c (n_initData n) (seg_image c (n_code n) (view 128 (memory k) (frames as)))"
    using 1(4) 2(4) by (simp add: viewed_def)
  moreover have "touched_space as a3" using touched_trans [OF touched_trans [OF 1(2) 2(2)] 3(2)] .
  ultimately show ?thesis using 1(1) 2(1) 3(1,3) by (auto simp: load_segments_def)
qed

lemma close_executable_ok:
  assumes "host_closes u file" "is_file file f c (host (a_fs k))"
  shows "\<exists>h. close_executable u f k = Inr (set_host k h)"
proof -
  obtain h where "u_close u (of_fd f) (host (a_fs k)) = (0, h)" using assms unfolding host_closes_def is_file_def by fastforce
  then show ?thesis by (auto simp: close_executable_def delete_OpenFile_def Close_fd_def)
qed

lemma close_executable_host: "close_executable u f k = Inr k' \<Longrightarrow> \<exists>h. k' = set_host k h"
  by (auto simp: close_executable_def rbind_eq_Inr)

lemma take_pages_view:
  assumes "take_pages k as k'"
  shows "view 128 (memory k') (frames as) = replicate (128 * length (frames as)) 0"
proof (rule nth_equalityI)
  have ok: "space_ok as" "length (memory k') = 16384" using assms by (auto simp: take_pages_def)
  fix i assume "i < length (view 128 (memory k') (frames as))"
  then have i: "i < length (frames as) * 128" by simp
  let ?f = "frames as ! (i div 128)"
  have "?f \<in> set (frames as)" using blocks_okD(2) [OF frames_blocks [OF ok] i] by simp
  moreover have "?f * 128 + i mod 128 < 16384" using blocks_okD(1) [OF frames_blocks [OF ok] i] ok(2) by simp
  moreover have "(?f * 128 + i mod 128) div 128 = ?f" by simp
  ultimately have "memory k' ! (?f * 128 + i mod 128) = 0" using assms by (auto simp: take_pages_def)
  then show "view 128 (memory k') (frames as) ! i = replicate (128 * length (frames as)) 0 ! i" using i by (simp add: nth_view)
qed (simp add: mult.commute)

text \<open>The single zero byte that ends the pointers stands for a whole word: the bytes around it are zero already.\<close>

lemma final_zero:
  assumes l: "length V = n" and z: "\<And>i. base \<le> i \<Longrightarrow> i < n \<Longrightarrow> V ! i = 0"
    and b: "base + 4 * (length argv + 1) + length (arg_strings argv) \<le> n"
  shows "patch (patch V base (arg_pointers (base + 4 * (length argv + 1)) argv @ [0])) (base + 4 * (length argv + 1)) (arg_strings argv) =
    patch V base (arg_block base argv)"
proof (rule nth_equalityI)
  let ?P = "arg_pointers (base + 4 * (length argv + 1)) argv"
  let ?L = "patch (patch V base (?P @ [0])) (base + 4 * (length argv + 1)) (arg_strings argv)"
  have w: "word_bytes 0 = [0, 0, 0, 0]" by (simp add: word_bytes_def)
  have z4: "word_bytes 0 ! k = 0" if "k < 4" for k using that by (auto simp: w nth_Cons')
  show "length ?L = length (patch V base (arg_block base argv))" using l b by (simp add: length_patch arg_block_def)
  fix i assume "i < length ?L"
  then have i: "i < n" using l b by (simp add: length_patch)
  consider "i < base" | "base \<le> i" "i < base + 4 * length argv" | "base + 4 * length argv \<le> i" "i < base + 4 * (length argv + 1)"
    | "base + 4 * (length argv + 1) \<le> i" by linarith
  then show "?L ! i = patch V base (arg_block base argv) ! i"
  proof cases
    case 3
    then have "V ! i = 0" using z i by simp
    moreover have "i - base - 4 * length argv < 4" using 3 by auto
    ultimately show ?thesis using 3 l b z4 by (auto simp: nth_patch length_patch arg_block_def nth_append)
  qed (use l b in \<open>auto simp: nth_patch length_patch arg_block_def nth_append add.assoc add.commute [of 4]\<close>)
qed

lemma program_args:
  assumes e: "exec_ok c argv" and a: "argv \<noteq> []" and n: "n = 128 * unat (exec_pages c argv)" and b: "base = n - unat (args_size argv)"
  shows "base mod 4 = 0" "base + 4 * (length argv + 1) + length (arg_strings argv) \<le> n" "n \<le> 16384" "unat (args_size argv) \<le> n"
proof -
  have s: "unat (args_size argv) = (args_bytes argv + 3) div 4 * 4" using args_size_nat e by (simp add: exec_ok_def)
  show r: "unat (args_size argv) \<le> n" using e n by (simp add: exec_ok_def)
  have "unat (args_size argv) mod 4 = 0" "n mod 4 = 0" unfolding s n by (simp_all add: mod_mult_left_eq)
  then show "base mod 4 = 0" unfolding b using r by (metis mod_0_imp_dvd dvd_diff_nat dvd_imp_mod_0)
  have "args_bytes argv \<le> unat (args_size argv)" unfolding s by simp
  then show "base + 4 * (length argv + 1) + length (arg_strings argv) \<le> n"
    using b r a by (simp add: args_bytes_def)
  have "exec_pages c argv \<le> 128" using e by (simp add: exec_ok_def)
  then show "n \<le> 16384" unfolding n by (simp add: word_le_nat_alt)
qed

text \<open>
  The part of \<^verbatim>\<open>Load\<close> behind the page table: segments, arguments, closing the file.
\<close>

lemma copy_program_ok:
  assumes u: "unix_ok u file" and f: "is_file file f c (host (a_fs k2))" and e: "exec_ok c argv"
    and t: "take_pages k as k2" and p: "numPages as = exec_pages c argv"
    and sz: "sz = exec_pages c argv * 128" and argsz: "argsz = args_size argv"
  shows "\<exists>as' mem h. copy_program u f (header_at c) argv sz argsz as k2 =
      rbind (close_executable u f (set_memory (set_host k2 h) mem)) (\<lambda>k5. Inr (True, as', k5)) \<and>
    is_file file f c h \<and> touched_space as as' \<and> viewed 128 (frames as) (memory k2) mem (program_image c argv)"
proof -
  let ?n = "128 * unat (exec_pages c argv)" let ?base = "?n - unat (args_size argv)" let ?h = "header_at c"
  have ok: "space_ok as" "length (memory k2) = 16384" using t by (auto simp: take_pages_def)
  have fr: "128 * length (frames as) = ?n" using ok(1) p by (simp add: space_ok_def)
  have so: "seg_ok ?base (n_code ?h)" "seg_ok ?base (n_initData ?h)" "seg_ok ?base (n_readonlyData ?h)" using e by (auto simp: exec_ok_def)
  have le: "?base \<le> 128 * length (frames as)" using fr by simp
  let ?V = "seg_image c (n_readonlyData ?h) (seg_image c (n_initData ?h) (seg_image c (n_code ?h) (replicate ?n 0)))"
  obtain as3 m3 h3 where s: "load_segments u f ?h as k2 = Inr (as3, set_memory (set_host k2 h3) m3)" "touched_space as as3"
      "viewed 128 (frames as) (memory k2) m3 ?V" "is_file file f c h3"
    using load_segments_ok [OF u f ok so le] take_pages_view [OF t] fr by auto
  have as3: "frames as3 = frames as" "space_ok as3" "length m3 = 16384" using s ok by (auto simp: touched_space_def viewed_def)
  show ?thesis
  proof (cases "argv = []")
    case True
    have "program_image c argv = ?V" using True by (simp add: program_image_def Let_def)
    then show ?thesis using s True by (intro exI [of _ as3] exI [of _ m3] exI [of _ h3]) (simp add: copy_program_def)
  next
    case False
    note b = program_args [OF e False refl refl]
    let ?s = "?base + 4 * (length argv + 1)"
    have nz: "sz = word_of_nat ?n" unfolding sz by (simp add: mult.commute)
    have az: "argsz = word_of_nat (unat (args_size argv))" unfolding argsz by simp
    have w: "sz - argsz = word_of_nat ?base" "sz - argsz + 4 * (word_of_nat (length argv) + 1) = word_of_nat ?s"
      unfolding nz az using b(4) by (simp_all add: of_nat_diff)
    have l: "length (view 128 m3 (frames as)) = ?n" using fr by (simp add: mult.commute)
    have V: "view 128 m3 (frames as) = ?V" using s(3) by (simp add: viewed_def)
    obtain as4 m4 where r: "write_args argv (word_of_nat ?base) (word_of_nat ?s) as3 (set_memory (set_host k2 h3) m3) =
          Inr (as4, set_memory (set_host k2 h3) m4)" "touched_space as3 as4"
        "viewed 128 (frames as) m3 m4 (patch (patch ?V ?base (arg_pointers ?s argv @ [0])) ?s (arg_strings argv))"
      using write_args_ok [of as3 "set_memory (set_host k2 h3) m3" ?base argv ?s] as3 b(1,2) fr V by auto
    have z: "?V ! i = 0" if "?base \<le> i" "i < ?n" for i using that so le fr by (simp add: seg_image_above)
    have "patch (patch ?V ?base (arg_pointers ?s argv @ [0])) ?s (arg_strings argv) = program_image c argv"
      using final_zero [of ?V ?n ?base argv] l V z b(2) False by (simp add: program_image_def Let_def)
    then have v: "viewed 128 (frames as) (memory k2) m4 (program_image c argv)" using viewed_trans [OF s(3) r(3)] by simp
    have "write_args argv (sz - argsz) (sz - argsz + 4 * (word_of_nat (length argv) + 1)) as3 (set_memory (set_host k2 h3) m3) =
        Inr (as4, set_memory (set_host k2 h3) m4)"
      unfolding w(2) unfolding w(1) by (rule r(1))
    then show ?thesis using s(1,4) v False touched_trans [OF s(2) r(2)]
      by (intro exI [of _ as4] exI [of _ m4] exI [of _ h3]) (simp add: copy_program_def)
  qed
qed

text \<open>
  A new space over frames that were free: the bitmap marks them, and no memory outside them and no other part of the
  machine changes.
\<close>

definition space_added :: "'h akernel \<Rightarrow> AddrSpace \<Rightarrow> 'h akernel \<Rightarrow> bool" where
  "space_added k as k' \<longleftrightarrow> akernel_ok k' \<and> space_ok as \<and> int ` set (frames as) \<inter> used_slots (gPhysPageBitMap k) = {} \<and>
     used_slots (gPhysPageBitMap k') = used_slots (gPhysPageBitMap k) \<union> int ` set (frames as) \<and>
     a_machine k' = (a_machine k)\<lparr>mainMemory := memory k'\<rparr> \<and>
     (\<forall>j < 16384. j div 128 \<notin> set (frames as) \<longrightarrow> memory k' ! j = memory k ! j)"

text \<open>The result of loading the executable \<open>c\<close>: a new space that holds its image, and a file system with the same open files.\<close>

definition loaded :: "'h akernel \<Rightarrow> 'h FileSystem \<Rightarrow> byte list \<Rightarrow> string list \<Rightarrow> AddrSpace \<Rightarrow> 'h akernel \<Rightarrow> bool" where
  "loaded k fs1 c argv as' k' \<longleftrightarrow> space_added k as' k' \<and> gtable (a_fs k') = gtable fs1 \<and>
     numPages as' = exec_pages c argv \<and> argCount as' = word_of_nat (length argv) \<and> argSize as' = args_size argv \<and>
     view 128 (memory k') (frames as') = program_image c argv"

text \<open>\<^verbatim>\<open>Load\<close> up to the page table: the header is the one in the file.\<close>

lemma Load_header:
  assumes u: "unix_ok u file" and o: "fs_Open1 u name (a_fs k) = Inr (Some f, fs1)" "is_file file f c (host fs1)"
    and e: "52 \<le> length c" "noffMagic (header_at c) = NOFFMAGIC"
  shows "\<exists>h. is_file file f c h \<and> Load u garbage name argv as k =
    (let k1 = k\<lparr>a_fs := fs1\<lparr>host := h\<rparr>\<rparr>; argsz = args_size argv; pages = exec_pages c argv; sz = pages * word_of_int PageSize;
         as1 = as\<lparr>argCount := word_of_nat (length argv), argSize := argsz, numPages := pages\<rparr> in
       rbind (rassert (pages \<le> word_of_int NumPhysPages)) (\<lambda>_.
       rbind (InitPageTable as1 k1) (\<lambda>(ok, as2, k2).
       if \<not> ok then rbind (close_executable u f k2) (\<lambda>k3. Inr (False, as2\<lparr>numPages := 0\<rparr>, k3))
       else copy_program u f (header_at c) argv sz argsz as2 k2)))"
proof -
  have t: "take (nat 52) (drop (nat 0) c) = take 52 c" by simp
  obtain h where r: "ReadAt u f 52 0 (host fs1) = Inr ((int (length (take 52 c)), take 52 c), h)" "is_file file f c h"
    using ReadAt_file [OF u o(2), of 52 0] unfolding t by auto
  have g: "header_at (take 52 c @ drop (length (take 52 c)) garbage) = header_at c" by (rule header_at_take [OF e(1)])
  show ?thesis
    unfolding Load_def o(1) rbind_Inr prod.case option.case sizeof_NoffHeader_def r(1) Let_def g exec_pages_def using r(2) e(2)
    by (intro exI [of _ h]) simp
qed

text \<open>\<^verbatim>\<open>Load\<close> with enough frames, up to the closing of the executable.\<close>

lemma Load_run:
  assumes u: "unix_ok u file" and o: "fs_Open1 u name (a_fs k) = Inr (Some f, fs1)" "is_file file f c (host fs1)"
    and e: "exec_ok c argv" and k: "akernel_ok k" and as: "pageTable as = None" and n: "unat (exec_pages c argv) \<le> free_frames k"
  shows "\<exists>as' k3. Load u garbage name argv as k = rbind (close_executable u f k3) (\<lambda>k'. Inr (True, as', k')) \<and>
    is_file file f c (host (a_fs k3)) \<and> (\<forall>h. loaded k fs1 c argv as' (set_host k3 h))"
proof -
  have ec: "52 \<le> length c" "noffMagic (header_at c) = NOFFMAGIC" "exec_pages c argv \<le> 128" using e by (auto simp: exec_ok_def)
  obtain h where h: "is_file file f c h" and L: "Load u garbage name argv as k =
    (let k1 = k\<lparr>a_fs := fs1\<lparr>host := h\<rparr>\<rparr>; argsz = args_size argv; pages = exec_pages c argv; sz = pages * word_of_int PageSize;
         as1 = as\<lparr>argCount := word_of_nat (length argv), argSize := argsz, numPages := pages\<rparr> in
       rbind (rassert (pages \<le> word_of_int NumPhysPages)) (\<lambda>_.
       rbind (InitPageTable as1 k1) (\<lambda>(ok, as2, k2).
       if \<not> ok then rbind (close_executable u f k2) (\<lambda>k3. Inr (False, as2\<lparr>numPages := 0\<rparr>, k3))
       else copy_program u f (header_at c) argv sz argsz as2 k2)))"
    using Load_header [OF u o ec(1,2)] by blast
  let ?k1 = "k\<lparr>a_fs := fs1\<lparr>host := h\<rparr>\<rparr>"
  let ?as1 = "as\<lparr>argCount := word_of_nat (length argv), argSize := args_size argv, numPages := exec_pages c argv\<rparr>"
  have k1: "akernel_ok ?k1" "free_frames ?k1 = free_frames k" using k by (simp_all add: akernel_ok_def free_frames_def)
  obtain as2 bm mem2 where i: "InitPageTable ?as1 ?k1 = Inr (True, as2, set_memory (?k1\<lparr>gPhysPageBitMap := bm\<rparr>) mem2)"
      "take_pages ?k1 as2 (set_memory (?k1\<lparr>gPhysPageBitMap := bm\<rparr>) mem2)" "numPages as2 = exec_pages c argv"
      "argCount as2 = word_of_nat (length argv)" "argSize as2 = args_size argv"
    using InitPageTable_ok(1) [OF k1(1), of ?as1] as ec(3) n k1(2) by auto
  let ?k2 = "set_memory (?k1\<lparr>gPhysPageBitMap := bm\<rparr>) mem2"
  have f2: "is_file file f c (host (a_fs ?k2))" using h by simp
  obtain as' mem h' where r: "copy_program u f (header_at c) argv (exec_pages c argv * 128) (args_size argv) as2 ?k2 =
        rbind (close_executable u f (set_memory (set_host ?k2 h') mem)) (\<lambda>k5. Inr (True, as', k5))"
      "is_file file f c h'" "touched_space as2 as'" "viewed 128 (frames as2) (memory ?k2) mem (program_image c argv)"
    using copy_program_ok [OF u f2 e i(2,3) refl refl] by blast
  let ?k' = "set_memory (set_host ?k2 h') mem"
  have L': "Load u garbage name argv as k = rbind (close_executable u f ?k') (\<lambda>k'. Inr (True, as', k'))"
    unfolding L Let_def using i(1) r(1) ec(3) by (simp add: nachos_consts)
  have "space_added k as' (set_host ?k' g)" for g
    using i(2) r(3,4) k by (auto simp: space_added_def take_pages_def touched_space_def viewed_def akernel_ok_def set_memory_def set_host_def)
  moreover have "view 128 (memory (set_host ?k' g)) (frames as') = program_image c argv" for g
    using r(3,4) by (simp add: touched_space_def viewed_def set_memory_def set_host_def)
  ultimately have "loaded k fs1 c argv as' (set_host ?k' g)" for g
    using i(3-5) r(3) by (auto simp: loaded_def touched_space_def set_memory_def set_host_def)
  then show ?thesis using L' r(2) by (intro exI [of _ as'] exI [of _ ?k']) (auto simp: set_memory_def set_host_def)
qed

lemma Load_ok:
  assumes u: "unix_ok u file" "host_closes u file" and o: "fs_Open1 u name (a_fs k) = Inr (Some f, fs1)" "is_file file f c (host fs1)"
    and e: "exec_ok c argv" and k: "akernel_ok k" and as: "pageTable as = None" and n: "unat (exec_pages c argv) \<le> free_frames k"
  shows "\<exists>as' k'. Load u garbage name argv as k = Inr (True, as', k') \<and> loaded k fs1 c argv as' k'"
proof -
  obtain as' k3 where r: "Load u garbage name argv as k = rbind (close_executable u f k3) (\<lambda>k'. Inr (True, as', k'))"
      "is_file file f c (host (a_fs k3))" "\<And>h. loaded k fs1 c argv as' (set_host k3 h)"
    using Load_run [OF u(1) o e k as n, of garbage] by blast
  then show ?thesis using close_executable_ok [OF u(2) r(2)] by auto
qed

text \<open>A \<^verbatim>\<open>Load\<close> that returns has had its executable closed; no law of \<^verbatim>\<open>close\<close> is needed.\<close>

lemma Load_returned:
  assumes u: "unix_ok u file" and o: "fs_Open1 u name (a_fs k) = Inr (Some f, fs1)" "is_file file f c (host fs1)"
    and e: "exec_ok c argv" and k: "akernel_ok k" and as: "pageTable as = None" and n: "unat (exec_pages c argv) \<le> free_frames k"
    and r: "Load u garbage name argv as k = Inr (ok, as', k')"
  shows "loaded k fs1 c argv as' k'"
  using Load_run [OF u o e k as n, of garbage] r close_executable_host by (fastforce simp: rbind_eq_Inr)

lemma Load_no_frames:
  assumes u: "unix_ok u file" and o: "fs_Open1 u name (a_fs k) = Inr (Some f, fs1)" "is_file file f c (host fs1)"
    and e: "exec_ok c argv" and k: "akernel_ok k" and as: "pageTable as = None" and n: "free_frames k < unat (exec_pages c argv)"
  shows "\<exists>as' k3. Load u garbage name argv as k = rbind (close_executable u f k3) (\<lambda>k'. Inr (False, as', k')) \<and>
    is_file file f c (host (a_fs k3)) \<and> (\<forall>h. set_host k3 h = k\<lparr>a_fs := fs1\<lparr>host := h\<rparr>\<rparr>) \<and> pageTable as' = None \<and> numPages as' = 0"
proof -
  have ec: "52 \<le> length c" "noffMagic (header_at c) = NOFFMAGIC" "exec_pages c argv \<le> 128" using e by (auto simp: exec_ok_def)
  let ?as1 = "as\<lparr>argCount := word_of_nat (length argv), argSize := args_size argv, numPages := exec_pages c argv\<rparr>"
  have k1: "akernel_ok (k\<lparr>a_fs := fs1\<lparr>host := h\<rparr>\<rparr>)" "free_frames (k\<lparr>a_fs := fs1\<lparr>host := h\<rparr>\<rparr>) = free_frames k" for h
    using k by (simp_all add: akernel_ok_def free_frames_def)
  have i: "InitPageTable ?as1 (k\<lparr>a_fs := fs1\<lparr>host := h\<rparr>\<rparr>) = Inr (False, ?as1, k\<lparr>a_fs := fs1\<lparr>host := h\<rparr>\<rparr>)" for h
    using InitPageTable_ok(2) [OF k1(1), of ?as1] as ec(3) n k1(2) by simp
  obtain h where h: "is_file file f c h" "Load u garbage name argv as k =
      rbind (close_executable u f (k\<lparr>a_fs := fs1\<lparr>host := h\<rparr>\<rparr>)) (\<lambda>k3. Inr (False, ?as1\<lparr>numPages := 0\<rparr>, k3))"
    using Load_header [OF u o ec(1,2), of garbage argv as] i ec(3) by (auto simp: nachos_consts Let_def)
  then show ?thesis using as
    by (intro exI [of _ "?as1\<lparr>numPages := 0\<rparr>"] exI [of _ "k\<lparr>a_fs := fs1\<lparr>host := h\<rparr>\<rparr>"]) (simp add: set_host_def)
qed

section \<open>Deletion\<close>

lemma free_pages_clear:
  "i + n \<le> length pt \<Longrightarrow> \<forall>e \<in> set pt. valid e \<Longrightarrow>
   free_pages pt i n bm = clear_all Clear bm (map (\<lambda>e. sint (physicalPage e)) (take n (drop i pt)))"
proof (induction pt i n bm rule: free_pages.induct)
  case (2 pt i n bm)
  then have i: "i < length pt" by simp
  have d: "take (Suc n) (drop i pt) = pt ! i # take n (drop (Suc i) pt)" using i by (simp add: Cons_nth_drop_Suc [symmetric])
  have r: "aread pt (int i) = Inr (pt ! i)" "valid (pt ! i)" using i 2(3) by simp_all
  have IH: "free_pages pt (Suc i) n bm1 = clear_all Clear bm1 (map (\<lambda>e. sint (physicalPage e)) (take n (drop (Suc i) pt)))"
    if "Clear bm (sint (physicalPage (pt ! i))) = Inr bm1" for bm1
    using 2(1) [OF r(1), of bm1] that r 2(2,3) by simp
  show ?case unfolding d using r IH by (cases "Clear bm (sint (physicalPage (pt ! i)))") simp_all
qed simp

lemma delete_AddrSpace_ok:
  assumes k: "bitmap_ok (gPhysPageBitMap k)" "numBits (gPhysPageBitMap k) = 128" and ok: "space_ok as"
  shows "\<exists>bm. delete_AddrSpace as k = Inr (k\<lparr>gPhysPageBitMap := bm\<rparr>) \<and> bitmap_ok bm \<and> numBits bm = 128 \<and>
    used_slots bm = used_slots (gPhysPageBitMap k) - int ` set (frames as)"
proof (cases "pageTable as")
  case None
  then show ?thesis using k by (intro exI [of _ "gPhysPageBitMap k"]) (simp add: delete_AddrSpace_def frames_def)
next
  case (Some pt)
  have l: "length pt = unat (numPages as)" using ok Some by (simp add: space_ok_def frames_def)
  have v: "\<forall>e \<in> set pt. valid e" using ok Some by (auto simp: space_ok_def)
  have s: "map (\<lambda>e. sint (physicalPage e)) pt = map int (frames as)"
    using Some frames_small [OF ok] small_frame by (auto simp: frames_def)
  have "free_pages pt 0 (unat (numPages as)) (gPhysPageBitMap k) = clear_all Clear (gPhysPageBitMap k) (map int (frames as))"
    using free_pages_clear [OF _ v, of 0 "unat (numPages as)"] l s by simp
  moreover have "set (map int (frames as)) \<subseteq> {0..<numBits (gPhysPageBitMap k)}" using frames_small [OF ok] k(2) by auto
  ultimately show ?thesis using bm.clear_all_ok [OF k(1), of "map int (frames as)"] Some k(2) by (auto simp: delete_AddrSpace_def)
qed

section \<open>Properties\<close>


text \<open>A program of one instruction in a file, and a machine with all frames free.\<close>

definition demo_exec :: "byte list" where
  "demo_exec = [0xad, 0xdf, 0xba, 0, 0, 0, 0, 0, 52, 0, 0, 0, 4, 0, 0, 0] @ replicate 36 0 @ [7, 8, 9, 10]"

definition demo_kernel :: "(byte list \<times> nat) akernel" where
  "demo_kernel = \<lparr>gPhysPageBitMap = \<lparr>numBits = 128, numWords = 4, bm_map = [0, 0, 0, 0]\<rparr>, addrLock = 1,
     a_machine = \<lparr>registers = replicate NumTotalRegs 0, mainMemory = replicate 16384 0, m_tlb = None, m_pageTable = None, pageTableSize = 0\<rparr>,
     a_fs = new_FileSystem (demo_exec, 0)\<rparr>"

lemma demo_exec_ok: "exec_ok demo_exec [''ab'']"
  by code_simp

lemma demo_kernel_ok: "akernel_ok demo_kernel"
  by (simp add: akernel_ok_def demo_kernel_def bitmap_ok_def divRoundUp_nonneg nachos_consts)

lemma demo_kernel_unused: "used_slots (gPhysPageBitMap demo_kernel) = {}"
proof -
  have "bit ([0, 0, 0, 0 :: 32 word] ! n) m = False" if "n < 4" for n m
    using that by (auto simp: nth_Cons' numeral_eq_Suc)
  then show ?thesis by (auto simp: used_slots_def demo_kernel_def nat_less_iff)
qed

lemma demo_kernel_free: "free_frames demo_kernel = 128"
  by (simp add: free_frames_def demo_kernel_unused)

lemma demo_open: "fs_Open1 one_file ''a'' (a_fs demo_kernel) = Inr (Some (new_OpenFile 5 MODE_READ (Some ''a'') False), a_fs demo_kernel)"
  by (simp add: fs_Open1_def OpenForReadWrite_def one_file_def demo_kernel_def new_FileSystem_def)


text \<open>A page of a space whose entry may be anything with a frame number that is not negative, as the kernel and as the hardware see it.\<close>

lemma as_Translate_entry:
  assumes pt: "pageTable as = Some pt" "length pt = unat (numPages as)" and v: "\<not> a div word_of_int PageSize \<ge> numPages as"
    and e: "e = pt ! unat (a div word_of_int PageSize)" "0 \<le> sint (physicalPage e)"
  shows "as_Translate as a w =
    Inr (if w \<and> readOnly e then Inl ReadOnlyException
         else if uint (physicalPage e) \<ge> 128 then Inl BusErrorException
         else Inr (word_of_int (uint (physicalPage e) * 128 + uint a mod 128),
           as\<lparr>pageTable := Some (pt[unat (a div word_of_int PageSize) := e\<lparr>use_bit := True, dirty := dirty e \<or> w\<rparr>])\<rparr>))"
proof -
  let ?vpn = "a div word_of_int PageSize"
  define q where "q = uint (physicalPage e) * 128 + uint a mod 128"
  have s: "sint (physicalPage e) = uint (physicalPage e)" by (rule sint_nonneg [OF e(2)])
  have "uint ?vpn < int (length pt)" using v pt(2) by (simp add: word_le_def)
  then have r: "aread pt (uint ?vpn) = Inr e" using e(1) by simp
  have m: "a mod word_of_int PageSize = word_of_int (uint a mod 128)" using mod_PageSize [of a] by (metis word_of_int_uint)
  have p: "physicalPage e * word_of_int PageSize + a mod word_of_int PageSize = word_of_int q"
    unfolding m by (simp add: PageSize_def q_def)
  have b: "(word_of_int q :: 32 word) < word_of_int MemorySize" if "uint (physicalPage e) < 128"
  proof -
    have "q < 16384" "0 \<le> q" using that pos_mod_bound [of 128 "uint a"] by (simp_all add: q_def)
    then show ?thesis using in_memory [of "nat q"] by (simp add: nat_less_iff nachos_consts)
  qed
  show ?thesis unfolding q_def [symmetric]
    using v pt(1) r s b by (auto simp: as_Translate_def Let_def p get_pageTable_def NumPhysPages_def not_le)
qed

text \<open>
  C29: the kernel's own translation against the hardware's. For every address space whose page table has \<^verbatim>\<open>numPages\<close> entries with
  frame numbers that are not negative (they may be read-only, or frames that do not exist) and every virtual address,
  \<^verbatim>\<open>AddrSpace::Translate\<close> gives the exception or the physical address, and the page table with the use and dirty bits, that
  \<^verbatim>\<open>Machine::Translate\<close> of a one-byte access gives once \<^verbatim>\<open>RestoreState\<close> has installed the table; except that on an entry that is not valid
  the hardware raises a page fault, and \<^verbatim>\<open>AddrSpace::Translate\<close>, which does not look at the valid bit, never does.
\<close>
theorem kernel_translation_is_hardware_translation:
  assumes "pageTable as = Some pt" and "length pt = unat (numPages as)" and "\<forall>e \<in> set pt. 0 \<le> sint (physicalPage e)" and "m_tlb m = None"
  shows "if unat (a div word_of_int PageSize) < length pt \<and> \<not> valid (pt ! unat (a div word_of_int PageSize))
    then Translate (RestoreState as m) a 1 w = Inr (Inl PageFaultException) \<and> as_Translate as a w \<noteq> Inr (Inl PageFaultException)
    else as_Translate as a w = rbind (Translate (RestoreState as m) a 1 w)
      (\<lambda>r. Inr (map_sum id (\<lambda>(p, m'). (word_of_int p, as\<lparr>pageTable := m_pageTable m'\<rparr>)) r))"
proof -
  let ?m = "RestoreState as m" let ?vpn = "a div word_of_int PageSize" let ?e = "pt ! unat ?vpn"
  have ok: "map_ok ?m" using assms by (simp add: map_ok_def RestoreState_def)
  have na: "\<not> misaligned a 1" by (simp add: misaligned_def)
  have en: "entries ?m = pt" "m_tlb ?m = None" "pageTableSize ?m = numPages as"
    using assms(1,4) by (simp_all add: entries_def RestoreState_def)
  have T: "Translate ?m a 1 w = (case lookup ?m ?vpn of Inl e \<Rightarrow> Inr (Inl e)
     | Inr i \<Rightarrow> rbind (check_entry (pt ! i) (a mod word_of_int PageSize) 1 w) (\<lambda>r.
         Inr (map_sum id (\<lambda>(p, e). (p, set_entries ?m (pt[i := e]))) r)))"
    using Translate_lookup [OF ok, of a 1 w] na unfolding en(1) by simp
  have in_pt: "unat ?vpn < length pt \<longleftrightarrow> \<not> ?vpn \<ge> numPages as" using assms(2) by (simp add: word_le_nat_alt not_le)
  show ?thesis
  proof (cases "?vpn \<ge> numPages as")
    case True
    then have "lookup ?m ?vpn = Inl AddressErrorException" "\<not> unat ?vpn < length pt" using en in_pt by (simp_all add: lookup_def)
    then show ?thesis using True T by (simp add: as_Translate_def Let_def)
  next
    case False
    then have "?e \<in> set pt" using in_pt by simp
    then have K: "as_Translate as a w =
      Inr (if w \<and> readOnly ?e then Inl ReadOnlyException else if uint (physicalPage ?e) \<ge> 128 then Inl BusErrorException
         else Inr (word_of_int (uint (physicalPage ?e) * 128 + uint a mod 128),
           as\<lparr>pageTable := Some (pt[unat ?vpn := ?e\<lparr>use_bit := True, dirty := dirty ?e \<or> w\<rparr>])\<rparr>))"
      using as_Translate_entry [OF assms(1,2) False refl, of w] assms(3) by blast
    show ?thesis
    proof (cases "valid ?e")
      case True
      have "lookup ?m ?vpn = Inr (unat ?vpn)" using False True en by (simp add: lookup_def)
      moreover have "m_pageTable (set_entries ?m es) = Some es" for es using en by (simp add: set_entries_def)
      ultimately show ?thesis using True T K check_entry_ok [OF na, of ?e w] by simp
    next
      case inv: False
      have "lookup ?m ?vpn = Inl PageFaultException" using False inv en by (simp add: lookup_def)
      then show ?thesis using inv T K in_pt False by simp
    qed
  qed
qed

text \<open>An address space of two pages, in frames 3 and 1.\<close>

definition demo_space :: AddrSpace where
  "demo_space = \<lparr>pageTable = Some [\<lparr>virtualPage = 0, physicalPage = 3, valid = True, readOnly = False, use_bit = False, dirty = False\<rparr>,
       \<lparr>virtualPage = 1, physicalPage = 1, valid = True, readOnly = False, use_bit = False, dirty = False\<rparr>],
     numPages = 2, argCount = 0, argSize = 0\<rparr>"

lemma demo_space_ok: "space_ok demo_space"
  by (simp add: space_ok_def demo_space_def frames_def)

theorem kernel_translation_is_hardware_translation_witness:
  "as_Translate demo_space 130 True = rbind (Translate (RestoreState demo_space (a_machine demo_kernel)) 130 1 True)
     (\<lambda>r. Inr (map_sum id (\<lambda>(p, m'). (word_of_int p, demo_space\<lparr>pageTable := m_pageTable m'\<rparr>)) r))"
proof -
  let ?pt = "[\<lparr>virtualPage = 0, physicalPage = 3, valid = True, readOnly = False, use_bit = False, dirty = False\<rparr>,
       \<lparr>virtualPage = 1, physicalPage = 1, valid = True, readOnly = False, use_bit = False, dirty = False\<rparr>]"
  have p: "pageTable demo_space = Some ?pt" "length ?pt = unat (numPages demo_space)" "\<forall>e \<in> set ?pt. 0 \<le> sint (physicalPage e)"
    "m_tlb (a_machine demo_kernel) = None" by (simp_all add: demo_space_def demo_kernel_def)
  have v: "(130 :: 32 word) div word_of_int PageSize = 1" by (simp add: PageSize_def)
  show ?thesis using kernel_translation_is_hardware_translation [OF p, of 130 True] unfolding v by simp
qed

text \<open>A segment at a negative address above -128 is copied in front of the frame of page 0.\<close>

lemma CopyFromFile_negative:
  assumes "unix_ok u file" and "is_file file f c (host (a_fs k))" and "space_ok as" and "length (memory k) = 16384"
    and "frames as = F # fr" and "0 < F" and "0 < n" and "n \<le> v" and "v < 128" and "pos + n \<le> length c"
  shows "\<exists>as' h mem'. CopyFromFile u f (int pos) (int n) (- int v) as k = Inr (as', set_memory (set_host k h) mem') \<and>
    is_file file f c h \<and> frames as' = frames as \<and> (\<forall>i < n. mem' ! (F * 128 - v + i) = c ! (pos + i))"
proof -
  obtain pt where pt: "pageTable as = Some pt" using assms(5) by (cases "pageTable as") (auto simp: frames_def)
  have F: "F < 128" using frames_small [OF assms(3)] assms(5) by simp
  have p0: "pt \<noteq> []" "unat (physicalPage (pt ! 0)) = F" using pt assms(5) by (auto simp: frames_def)
  have sF: "sint (physicalPage (pt ! 0)) = int F" using small_frame [of "physicalPage (pt ! 0)"] F unfolding p0(2) by simp
  have d: "- int v sdiv 128 = 0" "- int v smod 128 = - int v"
    using assms(7-9) by (simp_all add: signed_divide_int_def signed_modulo_int_def sgn_if)
  let ?as = "as\<lparr>pageTable := Some (pt[0 := (pt ! 0)\<lparr>use_bit := True, dirty := True\<rparr>])\<rparr>"
  have pg: "page_of as (- int v) = Inr (int (F * 128 - v), ?as)"
    using pt p0 sF d assms(6,9) by (simp add: page_of_def get_pageTable_def Let_def PageSize_def of_nat_diff)
  have ch: "chunk (int n) (- int v) = int n" using d assms(8) by (simp add: chunk_def PageSize_def)
  let ?bs = "take n (drop pos c)"
  have l: "length ?bs = n" using assms(10) by simp
  obtain h where h: "ReadAt u f (int n) (int pos) (host (a_fs k)) = Inr ((int (length ?bs), ?bs), h)" "is_file file f c h"
    using ReadAt_file [OF assms(1,2), of "int n" "int pos"] by auto
  have fit: "F * 128 - v + length ?bs \<le> length (memory k)" unfolding l assms(4) using F assms(6,8,9) by linarith
  have "write_bytes (memory k) (int (F * 128 - v)) ?bs = Inr (patch (memory k) (nat (int (F * 128 - v))) ?bs)"
    by (rule write_bytes_patch) (use fit in simp_all)
  then have w: "write_bytes (memory k) (int (F * 128 - v)) ?bs = Inr (patch (memory k) (F * 128 - v) ?bs)" by (simp only: nat_int)
  have "CopyFromFile u f (int pos) (int n) (- int v) as k = Inr (?as, set_memory (set_host k h) (patch (memory k) (F * 128 - v) ?bs))"
    using pg h(1) w assms(7) by (subst CopyFromFile.simps) (simp add: ch CopyFromFile.simps [of u f _ 0])
  moreover have "patch (memory k) (F * 128 - v) ?bs ! (F * 128 - v + i) = c ! (pos + i)" if "i < n" for i
    using that fit l assms(10) by (simp add: nth_patch)
  moreover have "frames ?as = frames as" using pt p0(1) by (cases pt) (simp_all add: frames_def)
  ultimately show ?thesis using h(2)
    by (intro exI [of _ ?as] exI [of _ h] exI [of _ "patch (memory k) (F * 128 - v) ?bs"]) simp
qed

lemma before_frame: "0 < F \<Longrightarrow> 0 < n \<Longrightarrow> n \<le> v \<Longrightarrow> v < 128 \<Longrightarrow> i < n \<Longrightarrow> (F * 128 - v + i) div 128 = F - (1 :: nat)"
proof -
  assume a: "0 < F" "0 < n" "n \<le> v" "v < 128" "i < n"
  have "F * 128 - v + i = (F - 1) * 128 + (128 - v + i)" using a by (cases F) auto
  then show ?thesis using a by (simp add: div_add1_eq)
qed

text \<open>
  A NOFF file with a code segment of \<open>n\<close> bytes, at \<open>pos\<close> in the file, that is to be loaded at the address \<open>-v\<close> with \<open>n \<le> v < 128\<close>.
\<close>

definition negative_code :: "byte list \<Rightarrow> nat \<Rightarrow> nat \<Rightarrow> nat \<Rightarrow> bool" where
  "negative_code c v n pos \<longleftrightarrow> 52 \<le> length c \<and> noffMagic (header_at c) = NOFFMAGIC \<and> 0 < exec_pages c [] \<and> exec_pages c [] \<le> 128 \<and>
     sint (seg_virtualAddr (n_code (header_at c))) = - int v \<and> sint (seg_size (n_code (header_at c))) = int n \<and>
     sint (seg_inFileAddr (n_code (header_at c))) = int pos \<and> 0 < n \<and> n \<le> v \<and> v < 128 \<and> pos + n \<le> length c \<and>
     sint (seg_size (n_initData (header_at c))) \<le> 0 \<and> sint (seg_size (n_readonlyData (header_at c))) \<le> 0"

text \<open>
  C30: \<^verbatim>\<open>Load\<close> does not check the addresses of the segments. Of an executable whose code is to lie at the negative address \<open>-v\<close> it
  returns \<^verbatim>\<open>TRUE\<close>, and has copied the code in front of the frame \<open>F\<close> of page 0. \<open>F\<close> is the lowest frame that was free,
  so the frame \<open>F - 1\<close> the bytes are in was in use before the call and is none of the frames of the new space.
\<close>
theorem negative_segment_escapes:
  assumes "unix_ok u file" and "host_closes u file" and "fs_Open1 u name (a_fs k) = Inr (Some f, fs1)" and "is_file file f c (host fs1)"
    and "akernel_ok k" and "pageTable as = None" and "negative_code c v n pos" and "unat (exec_pages c []) \<le> free_frames k"
    and "0 < F" and "F < 128" and "int F \<notin> used_slots (gPhysPageBitMap k)" and "{0..<int F} \<subseteq> used_slots (gPhysPageBitMap k)"
  shows "\<exists>as' k'. Load u garbage name [] as k = Inr (True, as', k') \<and>
    int (F - 1) \<in> used_slots (gPhysPageBitMap k) \<and> F - 1 \<notin> set (frames as') \<and>
    (\<forall>i < n. memory k' ! (F * 128 - v + i) = c ! (pos + i) \<and> (F * 128 - v + i) div 128 = F - 1)"
proof -
  let ?P = "exec_pages c []" let ?h = "header_at c"
  note nc = assms(7) [unfolded negative_code_def]
  obtain h where h: "is_file file f c h" and L: "Load u garbage name [] as k =
    (let k1 = k\<lparr>a_fs := fs1\<lparr>host := h\<rparr>\<rparr>; argsz = args_size []; pages = ?P; sz = pages * word_of_int PageSize;
         as1 = as\<lparr>argCount := word_of_nat (length ([] :: string list)), argSize := argsz, numPages := pages\<rparr> in
       rbind (rassert (pages \<le> word_of_int NumPhysPages)) (\<lambda>_.
       rbind (InitPageTable as1 k1) (\<lambda>(ok, as2, k2).
       if \<not> ok then rbind (close_executable u f k2) (\<lambda>k3. Inr (False, as2\<lparr>numPages := 0\<rparr>, k3))
       else copy_program u f ?h [] sz argsz as2 k2)))"
    using Load_header [OF assms(1,3,4), of garbage "[]" as] nc by blast
  let ?k1 = "k\<lparr>a_fs := fs1\<lparr>host := h\<rparr>\<rparr>" let ?as1 = "as\<lparr>argCount := 0, argSize := args_size [], numPages := ?P\<rparr>"
  have k1: "akernel_ok ?k1" "free_frames ?k1 = free_frames k" using assms(5) by (simp_all add: akernel_ok_def free_frames_def)
  obtain bm1 where fa: "FindAndSet (gPhysPageBitMap k) = Inr (int F, bm1)"
    using FindAndSet_at [of "gPhysPageBitMap k" "int F"] assms(5,10-12) by (auto simp: akernel_ok_def)
  obtain as2 bm mem2 where i: "InitPageTable ?as1 ?k1 = Inr (True, as2, set_memory (?k1\<lparr>gPhysPageBitMap := bm\<rparr>) mem2)"
      "take_pages ?k1 as2 (set_memory (?k1\<lparr>gPhysPageBitMap := bm\<rparr>) mem2)" "\<exists>fr. frames as2 = nat (int F) # fr"
    using InitPageTable_ok(1) [OF k1(1), of ?as1] assms(6,8) k1(2) fa nc by (auto simp: word_less_nat_alt)
  let ?k2 = "set_memory (?k1\<lparr>gPhysPageBitMap := bm\<rparr>) mem2"
  obtain fr where fr: "frames as2 = F # fr" using i(3) by auto
  have t: "space_ok as2" "length (memory ?k2) = 16384" using i(2) by (auto simp: take_pages_def)
  have f2: "is_file file f c (host (a_fs ?k2))" using h by simp
  obtain as' g mem' where c: "CopyFromFile u f (int pos) (int n) (- int v) as2 ?k2 = Inr (as', set_memory (set_host ?k2 g) mem')"
      "is_file file f c g" "frames as' = frames as2" "\<forall>i < n. mem' ! (F * 128 - v + i) = c ! (pos + i)"
    using CopyFromFile_negative [OF assms(1) f2 t fr assms(9), of n v pos] nc by blast
  let ?k3 = "set_memory (set_host ?k2 g) mem'"
  have "is_file file f c (host (a_fs ?k3))" using c(2) by (simp add: set_host_def set_memory_def)
  then obtain g' where cl: "close_executable u f ?k3 = Inr (set_host ?k3 g')" using close_executable_ok [OF assms(2)] by blast
  have "copy_program u f ?h [] sz argsz as2 ?k2 = Inr (True, as', set_host ?k3 g')" for sz argsz
    using c(1) cl nc by (simp add: copy_program_def load_segments_def load_segment_def)
  then have "Load u garbage name [] as k = Inr (True, as', set_host ?k3 g')"
    unfolding L Let_def using i(1) nc by (simp add: nachos_consts)
  moreover have used: "int (F - 1) \<in> used_slots (gPhysPageBitMap k)" using assms(9,12) by (auto simp: subset_iff)
  moreover have "F - 1 \<notin> set (frames as')"
  proof
    assume "F - 1 \<in> set (frames as')"
    then have "int (F - 1) \<in> int ` set (frames as2)" using c(3) by auto
    then show False using i(2) used by (auto simp: take_pages_def)
  qed
  moreover have "memory (set_host ?k3 g') = mem'" by (simp add: set_host_def set_memory_def)
  ultimately show ?thesis using c(4) before_frame [OF assms(9), of n v] nc by auto
qed

text \<open>The demo executable with its code at address -4; the frames 0, 1 and 2 are in use.\<close>

definition negative_exec :: "byte list" where
  "negative_exec = [0xad, 0xdf, 0xba, 0, 0xfc, 0xff, 0xff, 0xff, 52, 0, 0, 0, 4, 0, 0, 0] @ replicate 36 0 @ [7, 8, 9, 10]"

definition busy_kernel :: "(byte list \<times> nat) akernel" where
  "busy_kernel = demo_kernel\<lparr>gPhysPageBitMap := \<lparr>numBits = 128, numWords = 4, bm_map = [7, 0, 0, 0]\<rparr>, a_fs := new_FileSystem (negative_exec, 0)\<rparr>"

lemma busy_kernel_used: "used_slots (gPhysPageBitMap busy_kernel) = {0, 1, 2}"
proof -
  have m7: "(7 :: 32 word) = mask 3" by (simp add: mask_eq_exp_minus_1)
  have b: "bit (7 :: 32 word) m \<longleftrightarrow> m < 3" for m unfolding m7 by (auto simp: bit_mask_iff)
  have "bit ([7, 0, 0, 0 :: 32 word] ! n) m \<longleftrightarrow> n = 0 \<and> m < 3" if "n < 4" for n m
  proof -
    have "n = 0 \<or> n = 1 \<or> n = 2 \<or> n = 3" using that by linarith
    then show ?thesis using b [of m] by (elim disjE) simp_all
  qed
  then show ?thesis by (auto simp: used_slots_def busy_kernel_def nat_less_iff)
qed

theorem negative_segment_escapes_witness:
  "\<exists>as' k'. Load one_file [] ''a'' [] new_AddrSpace busy_kernel = Inr (True, as', k') \<and> 2 \<notin> set (frames as') \<and>
     memory k' ! 380 = 7 \<and> 380 div 128 = (2 :: nat)"
proof -
  let ?file = "\<lambda>h fd. if fd = (5 :: int) then Some h else None"
  have o: "fs_Open1 one_file ''a'' (a_fs busy_kernel) = Inr (Some (new_OpenFile 5 MODE_READ (Some ''a'') False), a_fs busy_kernel)"
    by (simp add: fs_Open1_def OpenForReadWrite_def one_file_def busy_kernel_def demo_kernel_def new_FileSystem_def)
  have i: "is_file ?file (new_OpenFile 5 MODE_READ (Some ''a'') False) negative_exec (host (a_fs busy_kernel))"
    by (simp add: is_file_def new_OpenFile_def busy_kernel_def demo_kernel_def new_FileSystem_def)
  have c: "host_closes one_file ?file" by (simp add: host_closes_def one_file_def)
  have k: "akernel_ok busy_kernel" by (simp add: akernel_ok_def busy_kernel_def demo_kernel_def bitmap_ok_def divRoundUp_nonneg nachos_consts)
  have n: "negative_code negative_exec 4 4 52" by code_simp
  have p: "unat (exec_pages negative_exec []) = 9" by code_simp
  have "free_frames busy_kernel = card ({0..<128} - {0, 1, 2 :: int})" by (simp add: free_frames_def busy_kernel_used)
  also have "\<dots> = 125" by (subst card_Diff_subset) auto
  finally have fr: "unat (exec_pages negative_exec []) \<le> free_frames busy_kernel" using p by simp
  have F: "int 3 \<notin> used_slots (gPhysPageBitMap busy_kernel)" "{0..<int 3} \<subseteq> used_slots (gPhysPageBitMap busy_kernel)"
    unfolding busy_kernel_used by auto
  have e: "negative_exec ! 52 = 7" by code_simp
  show ?thesis
    using negative_segment_escapes [OF one_file_ok c o i k _ n fr _ _ F, of new_AddrSpace "[]"] e
    by (fastforce simp: new_AddrSpace_def dest: spec [of _ 0])
qed

end
