(* ===== verification/Isolation.thy ===== *)
theory Isolation
  imports Address_Space Mips
begin

text \<open>
  Several user programs in one memory: address spaces are loaded (\<^verbatim>\<open>AddrSpace::Load\<close>), run one instruction at a time
  on the machine after \<^verbatim>\<open>RestoreState\<close> (\<^verbatim>\<open>Machine::OneInstruction\<close>), and deleted when their thread is, in any order. The
  frames of the programs stay disjoint, the bitmap of physical pages marks exactly these frames, and no step of one program changes
  the memory of another one.
\<close>

record 'h isys =
  i_kernel :: "'h akernel"
  spaces :: "nat \<rightharpoonup> AddrSpace"

text \<open>The registers and the memory size of the machine, whatever page table is installed.\<close>

definition regs_ok :: "machine \<Rightarrow> bool" where
  "regs_ok m \<longleftrightarrow> length (registers m) = NumTotalRegs \<and> reg m LoadReg < 32 \<and> reg m 0 = 0 \<and> length (mainMemory m) = 16384 \<and> m_tlb m = None"

definition opens :: "'h unix \<Rightarrow> ('h \<Rightarrow> int \<Rightarrow> (byte list \<times> nat) option) \<Rightarrow> string \<Rightarrow> byte list \<Rightarrow> 'h FileSystem \<Rightarrow> bool" where
  "opens u files name c fs \<longleftrightarrow> (\<exists>f fs1. fs_Open1 u name fs = Inr (Some f, fs1) \<and> is_file files f c (host fs1))"

text \<open>
  The steps of program \<open>p\<close>. The kernel starts and resumes a program with registers of its own
  (\<^verbatim>\<open>InitRegisters\<close>, \<^verbatim>\<open>RestoreUserState\<close>); a \<^verbatim>\<open>Load\<close> that returns \<^verbatim>\<open>FALSE\<close> leaves a space without pages behind.
\<close>

inductive istep :: "'h unix \<Rightarrow> ('h \<Rightarrow> int \<Rightarrow> (byte list \<times> nat) option) \<Rightarrow> nat \<Rightarrow> 'h isys \<Rightarrow> 'h isys \<Rightarrow> bool"
  for u :: "'h unix" and files :: "'h \<Rightarrow> int \<Rightarrow> (byte list \<times> nat) option" where
  i_load: "spaces s p = None \<Longrightarrow> opens u files name c (a_fs (i_kernel s)) \<Longrightarrow> exec_ok c argv \<Longrightarrow>
    Load u garbage name argv new_AddrSpace (i_kernel s) = Inr (ok, as, k) \<Longrightarrow>
    istep u files p s (s\<lparr>i_kernel := k, spaces := (spaces s)(p \<mapsto> as)\<rparr>)"
| i_delete: "spaces s p = Some as \<Longrightarrow> delete_AddrSpace as (i_kernel s) = Inr k \<Longrightarrow>
    istep u files p s (s\<lparr>i_kernel := k, spaces := (spaces s)(p := None)\<rparr>)"
| i_resume: "spaces s p = Some as \<Longrightarrow> regs_ok m \<Longrightarrow> mainMemory m = mainMemory (a_machine (i_kernel s)) \<Longrightarrow>
    istep u files p s (s\<lparr>i_kernel := (i_kernel s)\<lparr>a_machine := m\<rparr>\<rparr>)"
| i_run: "spaces s p = Some as \<Longrightarrow> pageTable as \<noteq> None \<Longrightarrow> OneInstruction (RestoreState as (a_machine (i_kernel s))) = Inr (e, m) \<Longrightarrow>
    istep u files p s (s\<lparr>i_kernel := (i_kernel s)\<lparr>a_machine := m\<rparr>, spaces := (spaces s)(p \<mapsto> as\<lparr>pageTable := m_pageTable m\<rparr>)\<rparr>)"

definition frames_of :: "(nat \<rightharpoonup> AddrSpace) \<Rightarrow> nat \<Rightarrow> nat set" where
  "frames_of sp p = (case sp p of None \<Rightarrow> {} | Some as \<Rightarrow> set (frames as))"

text \<open>What program \<open>p\<close> sees in memory.\<close>

definition program_memory :: "'h isys \<Rightarrow> nat \<Rightarrow> byte list" where
  "program_memory s p = (case spaces s p of None \<Rightarrow> [] | Some as \<Rightarrow> view 128 (memory (i_kernel s)) (frames as))"

definition isys_ok :: "'h isys \<Rightarrow> bool" where
  "isys_ok s \<longleftrightarrow> akernel_ok (i_kernel s) \<and> regs_ok (a_machine (i_kernel s)) \<and> (\<forall>p as. spaces s p = Some as \<longrightarrow> space_ok as) \<and>
     (\<forall>p q. p \<noteq> q \<longrightarrow> frames_of (spaces s) p \<inter> frames_of (spaces s) q = {}) \<and>
     used_slots (gPhysPageBitMap (i_kernel s)) = int ` (\<Union>p. frames_of (spaces s) p)"

lemma frames_of_upd: "frames_of (sp(p \<mapsto> as)) q = (if q = p then set (frames as) else frames_of sp q)"
  "frames_of (sp(p := None)) q = (if q = p then {} else frames_of sp q)"
  by (simp_all add: frames_of_def)

text \<open>One program gets other frames, all other programs keep theirs.\<close>

lemma union_frames: "(\<Union>q. frames_of sp q) = frames_of sp p \<union> (\<Union>q \<in> - {p}. frames_of sp q)"
  by auto

lemma isys_ok_change:
  assumes ok: "isys_ok s" and k: "akernel_ok k" "regs_ok (a_machine k)"
    and sp: "\<And>q. q \<noteq> p \<Longrightarrow> sp q = spaces s q" "\<And>as. sp p = Some as \<Longrightarrow> space_ok as"
    and d: "\<And>q. q \<noteq> p \<Longrightarrow> frames_of sp p \<inter> frames_of (spaces s) q = {}"
    and us: "used_slots (gPhysPageBitMap k) = int ` (frames_of sp p \<union> (\<Union>q \<in> - {p}. frames_of (spaces s) q))"
  shows "isys_ok (s\<lparr>i_kernel := k, spaces := sp\<rparr>)"
proof -
  have f: "frames_of sp q = frames_of (spaces s) q" if "q \<noteq> p" for q using sp(1) [OF that] by (simp add: frames_of_def)
  have "space_ok as" if "sp q = Some as" for q as using that sp ok by (cases "q = p") (auto simp: isys_ok_def)
  moreover have "frames_of sp q \<inter> frames_of sp r = {}" if "q \<noteq> r" for q r
    using that f d [of q] d [of r] ok by (cases "q = p"; cases "r = p") (auto simp: isys_ok_def)
  moreover have "(\<Union>q \<in> - {p}. frames_of sp q) = (\<Union>q \<in> - {p}. frames_of (spaces s) q)" using f by auto
  ultimately show ?thesis using k us union_frames [of sp p] by (simp add: isys_ok_def)
qed

lemma regs_ok_machine: "machine_ok m \<Longrightarrow> m_tlb m = None \<Longrightarrow> regs_ok m"
  by (simp add: machine_ok_def cpu_ok_def regs_ok_def nachos_consts)

lemma restored_machine_ok:
  assumes "regs_ok m" "space_ok as" "pageTable as \<noteq> None"
  shows "machine_ok (RestoreState as m)"
proof -
  obtain pt where pt: "pageTable as = Some pt" using assms(3) by blast
  have "length pt = unat (numPages as)" using assms(2) pt by (simp add: space_ok_def frames_def)
  then show ?thesis using assms(1) pt
    by (auto simp: machine_ok_def cpu_ok_def regs_ok_def RestoreState_def map_ok_def reg_def nachos_consts)
qed

text \<open>A step of the machine keeps the frames of the space and writes only into them.\<close>

lemma user_step_space:
  assumes ok: "space_ok as" "pageTable as \<noteq> None" "m_tlb m = None" and u: "user_step (RestoreState as m) m'" "machine_ok m'"
  shows "m_tlb m' = None" "space_ok (as\<lparr>pageTable := m_pageTable m'\<rparr>)" "frames (as\<lparr>pageTable := m_pageTable m'\<rparr>) = frames as"
    "length (mainMemory m') = length (mainMemory m)"
    "\<And>j. j < length (mainMemory m) \<Longrightarrow> j div 128 \<notin> set (frames as) \<Longrightarrow> mainMemory m' ! j = mainMemory m ! j"
proof -
  let ?m = "RestoreState as m" let ?g = "\<lambda>e. (virtualPage e, physicalPage e, valid e, readOnly e)"
  obtain pt where pt: "pageTable as = Some pt" using ok(2) by blast
  have t: "m_tlb ?m = None" "entries ?m = pt" "mainMemory ?m = mainMemory m" using ok(3) pt by (simp_all add: RestoreState_def entries_def)
  show t': "m_tlb m' = None" using u(1) t(1) by (simp add: user_step_def same_mapping_def)
  obtain pt' where pt': "m_pageTable m' = Some pt'" using u(2) t' by (auto simp: machine_ok_def cpu_ok_def map_ok_def split: option.splits)
  have e: "entries m' = pt'" using t' pt' by (simp add: entries_def)
  have g: "map ?g pt' = map ?g pt" using u(1) t(2) e by (simp add: user_step_def same_mapping_def)
  have "map (\<lambda>x. unat (fst (snd x))) (map ?g pt') = map (\<lambda>x. unat (fst (snd x))) (map ?g pt)" unfolding g ..
  then have f: "map (\<lambda>e. unat (physicalPage e)) pt' = map (\<lambda>e. unat (physicalPage e)) pt" by (simp add: comp_def)
  then show fr: "frames (as\<lparr>pageTable := m_pageTable m'\<rparr>) = frames as" using pt pt' by (simp add: frames_def)
  have "valid x \<and> \<not> readOnly x" if "x \<in> set pt'" for x
  proof -
    have "?g x \<in> set (map ?g pt)" using that unfolding g [symmetric] by (simp add: image_iff) blast
    then show ?thesis using ok(1) pt by (auto simp: space_ok_def)
  qed
  then show "space_ok (as\<lparr>pageTable := m_pageTable m'\<rparr>)" using ok(1) fr pt' by (auto simp: space_ok_def)
  show "length (mainMemory m') = length (mainMemory m)" using u(1) t(3) by (simp add: user_step_def)
  have w: "writable_frames ?m \<subseteq> int ` set (frames as)" using t(2) pt by (auto simp: writable_frames_def frames_def image_iff)
  show "mainMemory m' ! j = mainMemory m ! j" if j: "j < length (mainMemory m)" "j div 128 \<notin> set (frames as)" for j
  proof (rule ccontr)
    assume "mainMemory m' ! j \<noteq> mainMemory m ! j"
    then have "int j div 128 \<in> writable_frames ?m" using u(1) t(3) j(1) by (simp add: user_step_def)
    then have "int (j div 128) \<in> int ` set (frames as)" using w by (auto simp: zdiv_int)
    then show False using j(2) by auto
  qed
qed

text \<open>Memory outside the frames of \<open>p\<close> is what the other programs see.\<close>

lemma others_unchanged:
  assumes ok: "isys_ok s" and q: "q \<noteq> p" "sp q = spaces s q" and d: "frames_of (spaces s) q \<inter> F = {}"
    and m: "\<And>j. j < 16384 \<Longrightarrow> j div 128 \<notin> F \<Longrightarrow> memory k ! j = memory (i_kernel s) ! j"
  shows "program_memory (s\<lparr>i_kernel := k, spaces := sp\<rparr>) q = program_memory s q"
proof (cases "spaces s q")
  case None
  then show ?thesis using q by (simp add: program_memory_def)
next
  case (Some as)
  have l: "length (memory (i_kernel s)) = 16384" "space_ok as" using ok Some by (auto simp: isys_ok_def akernel_ok_def)
  have "set (frames as) \<inter> F = {}" using d Some by (simp add: frames_of_def)
  then have "view 128 (memory k) (frames as) = view 128 (memory (i_kernel s)) (frames as)"
    using m l by (intro view_cong frames_blocks) auto
  then show ?thesis using Some q by (simp add: program_memory_def)
qed

lemma image_int_diff: "A \<inter> B = {} \<Longrightarrow> int ` (A \<union> B) - int ` A = int ` B"
  by auto

lemma istep_ok:
  assumes st: "istep u files p s s'" and ok: "isys_ok s" and u: "unix_ok u files"
  shows "isys_ok s' \<and> (\<forall>q. q \<noteq> p \<longrightarrow> program_memory s' q = program_memory s q)"
  using st
proof cases
  case (i_load name c argv garbage b as k)
  obtain f fs1 where o: "fs_Open1 u name (a_fs (i_kernel s)) = Inr (Some f, fs1)" "is_file files f c (host fs1)"
    using i_load(3) by (auto simp: opens_def)
  have k0: "akernel_ok (i_kernel s)" "pageTable new_AddrSpace = None" using ok by (simp_all add: isys_ok_def new_AddrSpace_def)
  have np: "frames_of (spaces s) p = {}" using i_load(2) by (simp add: frames_of_def)
  have us: "used_slots (gPhysPageBitMap (i_kernel s)) = int ` (\<Union>q \<in> - {p}. frames_of (spaces s) q)"
    using ok union_frames [of "spaces s" p] np by (simp add: isys_ok_def)
  show ?thesis
  proof (cases "unat (exec_pages c argv) \<le> free_frames (i_kernel s)")
    case True
    then have a: "space_added (i_kernel s) as k"
      using Load_returned [OF u o i_load(4) k0 _ i_load(5)] by (simp add: loaded_def)
    obtain mem where mem: "a_machine k = (a_machine (i_kernel s))\<lparr>mainMemory := mem\<rparr>" using a unfolding space_added_def by blast
    have k: "akernel_ok k" "space_ok as" using a by (auto simp: space_added_def)
    then have "length mem = 16384" using mem by (simp add: akernel_ok_def)
    then have r: "regs_ok (a_machine k)" using ok mem by (simp add: isys_ok_def regs_ok_def reg_def)
    have d: "set (frames as) \<inter> frames_of (spaces s) q = {}" if "q \<noteq> p" for q
    proof -
      have "int ` frames_of (spaces s) q \<subseteq> used_slots (gPhysPageBitMap (i_kernel s))" unfolding us using that by auto
      then have "int ` set (frames as) \<inter> int ` frames_of (spaces s) q = {}" using a by (auto simp: space_added_def)
      then show ?thesis by blast
    qed
    have "used_slots (gPhysPageBitMap k) = int ` (set (frames as) \<union> (\<Union>q \<in> - {p}. frames_of (spaces s) q))"
      using a us by (auto simp: space_added_def)
    then have "isys_ok s'" unfolding i_load(1)
      using isys_ok_change [OF ok k(1) r, of p "(spaces s)(p \<mapsto> as)"] k(2) d by (simp add: frames_of_upd)
    moreover have "program_memory s' q = program_memory s q" if "q \<noteq> p" for q unfolding i_load(1)
      by (rule others_unchanged [OF ok that, where F = "set (frames as)"]) (use a d that in \<open>auto simp: space_added_def\<close>)
    ultimately show ?thesis by blast
  next
    case False
    then obtain as' k3 where r: "Load u garbage name argv new_AddrSpace (i_kernel s) = rbind (close_executable u f k3) (\<lambda>k'. Inr (False, as', k'))"
        "\<And>h. set_host k3 h = (i_kernel s)\<lparr>a_fs := fs1\<lparr>host := h\<rparr>\<rparr>" "pageTable as' = None" "numPages as' = 0"
      using Load_no_frames [OF u o i_load(4) k0, of garbage] by auto
    then have "as = as'" "\<exists>h. k = (i_kernel s)\<lparr>a_fs := fs1\<lparr>host := h\<rparr>\<rparr>"
      using trans [OF r(1) [symmetric] i_load(5)] close_executable_host [of u f k3 k] by (auto simp: rbind_eq_Inr)
    then have a: "pageTable as = None" "numPages as = 0" "gPhysPageBitMap k = gPhysPageBitMap (i_kernel s)" "a_machine k = a_machine (i_kernel s)"
        "addrLock k = addrLock (i_kernel s)" using r by auto
    have f: "frames as = []" "space_ok as" using a by (simp_all add: frames_def space_ok_def)
    have "isys_ok s'" unfolding i_load(1)
      using isys_ok_change [OF ok, of k p "(spaces s)(p \<mapsto> as)"] a f us ok by (simp add: frames_of_upd isys_ok_def akernel_ok_def)
    moreover have "program_memory s' q = program_memory s q" if "q \<noteq> p" for q unfolding i_load(1)
      by (rule others_unchanged [OF ok that, where F = "{}"]) (use a that in auto)
    ultimately show ?thesis by blast
  qed
next
  case (i_delete as k)
  have k0: "bitmap_ok (gPhysPageBitMap (i_kernel s))" "numBits (gPhysPageBitMap (i_kernel s)) = 128" "space_ok as"
    using ok i_delete(2) by (auto simp: isys_ok_def akernel_ok_def)
  obtain bm where k: "k = (i_kernel s)\<lparr>gPhysPageBitMap := bm\<rparr>" "bitmap_ok bm" "numBits bm = 128"
      "used_slots bm = used_slots (gPhysPageBitMap (i_kernel s)) - int ` set (frames as)"
    using delete_AddrSpace_ok [OF k0] i_delete(3) by auto
  have f: "frames_of (spaces s) p = set (frames as)" using i_delete(2) by (simp add: frames_of_def)
  let ?B = "\<Union>q \<in> - {p}. frames_of (spaces s) q"
  have d: "set (frames as) \<inter> ?B = {}" using ok unfolding isys_ok_def f [symmetric] by blast
  have "used_slots bm = int ` (set (frames as) \<union> ?B) - int ` set (frames as)"
    using k(4) ok union_frames [of "spaces s" p] f by (simp add: isys_ok_def)
  then have "used_slots bm = int ` ?B" unfolding image_int_diff [OF d] .
  then have "isys_ok s'" unfolding i_delete(1)
    using isys_ok_change [OF ok, of k p "(spaces s)(p := None)"] k ok by (simp add: frames_of_upd isys_ok_def akernel_ok_def)
  moreover have "program_memory s' q = program_memory s q" if "q \<noteq> p" for q unfolding i_delete(1)
    by (rule others_unchanged [OF ok that, where F = "{}"]) (use k that in auto)
  ultimately show ?thesis by blast
next
  case (i_resume as m)
  then show ?thesis using ok by (auto simp: isys_ok_def akernel_ok_def regs_ok_def program_memory_def split: option.splits)
next
  case (i_run as e m)
  let ?m0 = "a_machine (i_kernel s)"
  have as: "space_ok as" "m_tlb ?m0 = None" "regs_ok ?m0" using ok i_run(2) by (auto simp: isys_ok_def regs_ok_def)
  have mo: "machine_ok (RestoreState as ?m0)" by (rule restored_machine_ok [OF as(3,1) i_run(3)])
  have us: "user_step (RestoreState as ?m0) m" "machine_ok m" using OneInstruction_outcome [OF mo] i_run(4) by auto
  note sp = user_step_space [OF as(1) i_run(3) as(2) us]
  have r: "regs_ok m" by (rule regs_ok_machine [OF us(2) sp(1)])
  have fp: "frames_of (spaces s) p = set (frames as)" using i_run(2) by (simp add: frames_of_def)
  have dj: "q \<noteq> p \<Longrightarrow> set (frames as) \<inter> frames_of (spaces s) q = {}" for q
    using ok unfolding isys_ok_def fp [symmetric] by metis
  let ?k = "(i_kernel s)\<lparr>a_machine := m\<rparr>"
  have k: "akernel_ok ?k" using ok r by (simp add: isys_ok_def akernel_ok_def regs_ok_def)
  have "used_slots (gPhysPageBitMap ?k) = int ` (set (frames as) \<union> (\<Union>q \<in> - {p}. frames_of (spaces s) q))"
    using ok union_frames [of "spaces s" p] fp by (simp add: isys_ok_def)
  then have "isys_ok s'" unfolding i_run(1)
    using isys_ok_change [OF ok k, of p "(spaces s)(p \<mapsto> as\<lparr>pageTable := m_pageTable m\<rparr>)"] r sp(2,3) dj by (simp add: frames_of_upd)
  moreover have "program_memory s' q = program_memory s q" if "q \<noteq> p" for q unfolding i_run(1)
    by (rule others_unchanged [OF ok that, where F = "set (frames as)"])
      (use that dj sp(5) as(3) in \<open>auto simp: regs_ok_def\<close>)
  ultimately show ?thesis by blast
qed

text \<open>A state without programs.\<close>

definition no_programs :: "'h isys \<Rightarrow> bool" where
  "no_programs s \<longleftrightarrow> spaces s = Map.empty \<and> akernel_ok (i_kernel s) \<and> regs_ok (a_machine (i_kernel s)) \<and>
     used_slots (gPhysPageBitMap (i_kernel s)) = {}"

lemma no_programs_ok: "no_programs s \<Longrightarrow> isys_ok s"
  by (simp add: no_programs_def isys_ok_def frames_of_def)

lemma reachable_isys_ok:
  assumes "rtranclp (\<lambda>s s'. \<exists>p. istep u files p s s') s0 s" "no_programs s0" "unix_ok u files"
  shows "isys_ok s"
  using assms(1) by induction (use no_programs_ok [OF assms(2)] istep_ok [OF _ _ assms(3)] in blast)+


definition demo_system :: "(byte list \<times> nat) isys" where
  "demo_system = \<lparr>i_kernel = demo_kernel, spaces = Map.empty\<rparr>"

lemma demo_system_ok: "no_programs demo_system"
  using demo_kernel_unused demo_kernel_ok
  by (simp add: no_programs_def demo_system_def regs_ok_def demo_kernel_def reg_def nachos_consts)


end
