(* ===== verification/Processes.thy ===== *)
theory Processes
  imports Stub_Files Bitmap
begin

text \<open>
  Processes (\<^verbatim>\<open>threads/pcb.cc\<close>, \<^verbatim>\<open>threads/ptable.cc\<close>): the process table with its bitmap of process identifiers, and
  the protocols of \<^verbatim>\<open>ExecV\<close>, \<^verbatim>\<open>Join\<close> and \<^verbatim>\<open>Exit\<close>. Each process is at a control point; a step takes one process
  from one control point to the next, and the steps of different processes interleave. The control points
  are the semaphore operations of the routines: \<^verbatim>\<open>bitmapMutex\<close>, and the \<^verbatim>\<open>joinSem\<close> and \<^verbatim>\<open>exitSem\<close> of each process, whose \<^verbatim>\<open>P\<close> can
  be passed when the value is not 0.
\<close>

record PCB =
  pcb_filename :: "string option"
  joinSem :: int
  exitSem :: int
  fileTable :: FileTable
  processID :: int
  parentID :: int
  exitCode :: int
  pcb_stamp :: nat

text \<open>
  Control points of a process: in user code; before the \<^verbatim>\<open>P\<close> of \<^verbatim>\<open>ExecV\<close> and behind it; in \<^verbatim>\<open>JoinWait\<close> on the semaphore of
  a given PCB object, and behind it; in \<^verbatim>\<open>ExitWait\<close> with its exit code, and behind it.
\<close>

datatype control = PRun | PExecWait "string list" | PExecIn "string list" | PJoinWait nat nat | PJoined nat
  | PExitWait int | PExited

record 'h psys =
  pt_bitmap :: bitmap
  bitmapMutex :: int
  pt_table :: "nat \<rightharpoonup> PCB"
  control :: "nat \<rightharpoonup> control"
  pt_ret :: "nat \<Rightarrow> int"
  next_stamp :: nat
  halted :: bool
  p_fs :: "'h FileSystem"

section \<open>Process control blocks\<close>

definition new_PCB :: "int \<Rightarrow> int \<Rightarrow> nat \<Rightarrow> PCB" where
  "new_PCB pid parentId stamp = \<lparr>pcb_filename = None, joinSem = 0, exitSem = 0, fileTable = new_FileTable,
     processID = pid, parentID = parentId, exitCode = 0, pcb_stamp = stamp\<rparr>"

definition setFileName :: "PCB \<Rightarrow> string \<Rightarrow> PCB result" where
  "setFileName pcb name = rbind (rassert (pcb_filename pcb = None)) (\<lambda>_. Inr (pcb\<lparr>pcb_filename := Some name\<rparr>))"

text \<open>\<open>loads\<close> says whether \<^verbatim>\<open>AddrSpace::Load\<close> succeeds; the thread is then forked.\<close>

definition PCB_Execute :: "PCB \<Rightarrow> string list \<Rightarrow> bool \<Rightarrow> (int \<times> PCB) result" where
  "PCB_Execute pcb argv loads =
     (if argv = [] then Inr (-1, pcb)
      else rbind (setFileName pcb (hd argv)) (\<lambda>pcb1. Inr (if loads then 0 else -1, pcb1)))"

section \<open>Process table\<close>

definition new_ProcessTable :: "string \<Rightarrow> 'h \<Rightarrow> 'h psys result" where
  "new_ProcessTable name h =
     rbind (new_Bitmap NumProcesses) (\<lambda>bm. rbind (Mark bm 0) (\<lambda>bm1.
     rbind (setFileName (new_PCB 0 (-1) 0) name) (\<lambda>pcb.
     Inr \<lparr>pt_bitmap = bm1, bitmapMutex = 1, pt_table = [0 \<mapsto> pcb], control = [0 \<mapsto> PRun], pt_ret = (\<lambda>_. 0), next_stamp = 1,
       halted = False, p_fs = new_FileSystem h\<rparr>)))"

definition IsValidPID :: "'h psys \<Rightarrow> int \<Rightarrow> bool" where
  "IsValidPID s pid \<longleftrightarrow> pid \<ge> 0 \<and> pid < NumProcesses \<and> pt_table s (nat pid) \<noteq> None"

definition pcb_at :: "'h psys \<Rightarrow> nat \<Rightarrow> PCB result" where
  "pcb_at s p = (case pt_table s p of None \<Rightarrow> Inl NullPointer | Some pcb \<Rightarrow> Inr pcb)"

definition GetPCB :: "'h psys \<Rightarrow> int \<Rightarrow> PCB option" where
  "GetPCB s pid = (if \<not> IsValidPID s pid then None else pt_table s (nat pid))"

text \<open>The file table of the calling process, as the system calls obtain it.\<close>

definition GetCurrentPCB :: "'h psys \<Rightarrow> nat \<Rightarrow> PCB result" where
  "GetCurrentPCB s p = rbind (rassert (IsValidPID s (int p))) (\<lambda>_. pcb_at s p)"

definition Remove_pid :: "'h unix \<Rightarrow> 'h psys \<Rightarrow> int \<Rightarrow> 'h psys result" where
  "Remove_pid u s pid =
     rbind (rassert (pid \<ge> 0 \<and> pid < NumProcesses)) (\<lambda>_.
     rbind (rassert (pt_table s (nat pid) \<noteq> None)) (\<lambda>_.
     rbind (pcb_at s (nat pid)) (\<lambda>pcb.
     rbind (delete_FileTable u (fileTable pcb) (p_fs s)) (\<lambda>fs.
     rbind (Clear (pt_bitmap s) pid) (\<lambda>bm.
     Inr (s\<lparr>pt_table := (pt_table s)(nat pid := None), p_fs := fs, pt_bitmap := bm\<rparr>))))))"

definition goto :: "'h psys \<Rightarrow> nat \<Rightarrow> control \<Rightarrow> 'h psys" where
  "goto s p c = s\<lparr>control := (control s)(p \<mapsto> c)\<rparr>"

definition return :: "'h psys \<Rightarrow> nat \<Rightarrow> int \<Rightarrow> 'h psys" where
  "return s p r = goto (s\<lparr>pt_ret := (pt_ret s)(p := r)\<rparr>) p PRun"

definition upd_pcb :: "'h psys \<Rightarrow> nat \<Rightarrow> (PCB \<Rightarrow> PCB) \<Rightarrow> 'h psys result" where
  "upd_pcb s p f = rbind (pcb_at s p) (\<lambda>pcb. Inr (s\<lparr>pt_table := (pt_table s)(p \<mapsto> f pcb)\<rparr>))"

section \<open>ExecV\<close>

definition ExecV_enter :: "'h psys \<Rightarrow> nat \<Rightarrow> string list \<Rightarrow> 'h psys" where
  "ExecV_enter s p argv = (if argv = [] then return s p (-1) else goto s p (PExecWait argv))"

text \<open>Between the \<^verbatim>\<open>P\<close> and the \<^verbatim>\<open>V\<close> of \<^verbatim>\<open>bitmapMutex\<close>; without a free identifier the routine returns before the \<^verbatim>\<open>V\<close>.\<close>

definition ExecV_body :: "'h unix \<Rightarrow> 'h psys \<Rightarrow> nat \<Rightarrow> string list \<Rightarrow> bool \<Rightarrow> 'h psys result" where
  "ExecV_body u s p argv loads =
     rbind (FindAndSet (pt_bitmap s)) (\<lambda>(pid, bm).
     if pid = -1 then Inr (return s p (-1))
     else rbind (GetCurrentPCB s p) (\<lambda>cur.
       rbind (PCB_Execute (new_PCB pid (processID cur) (next_stamp s)) argv loads) (\<lambda>(r, pcb).
       let s1 = s\<lparr>pt_bitmap := bm, pt_table := (pt_table s)(nat pid \<mapsto> pcb), next_stamp := Suc (next_stamp s)\<rparr> in
       rbind (if r = -1 then rbind (Remove_pid u s1 pid) (\<lambda>s2. Inr (-1, s2))
              else Inr (pid, goto s1 (nat pid) PRun)) (\<lambda>(r, s2).
       Inr (return (s2\<lparr>bitmapMutex := bitmapMutex s2 + 1\<rparr>) p r)))))"

section \<open>Join and Exit\<close>

definition Join_enter :: "'h psys \<Rightarrow> nat \<Rightarrow> int \<Rightarrow> 'h psys result" where
  "Join_enter s p child =
     rbind (GetCurrentPCB s p) (\<lambda>cur.
     if \<not> IsValidPID s child then Inr (return s p (-1))
     else rbind (pcb_at s (nat child)) (\<lambda>pcb.
       if parentID pcb \<noteq> processID cur then Inr (return s p (-1))
       else Inr (goto s p (PJoinWait (nat child) (pcb_stamp pcb)))))"

definition Join_finish :: "'h psys \<Rightarrow> nat \<Rightarrow> nat \<Rightarrow> 'h psys result" where
  "Join_finish s p child =
     rbind (pcb_at s child) (\<lambda>pcb.
     rbind (upd_pcb s child (\<lambda>pcb. pcb\<lparr>exitSem := exitSem pcb + 1\<rparr>)) (\<lambda>s1.
     Inr (return s1 p (exitCode pcb))))"

definition Exit_enter :: "'h psys \<Rightarrow> nat \<Rightarrow> int \<Rightarrow> 'h psys result" where
  "Exit_enter s p code =
     (if p = 0 then Inr (s\<lparr>halted := True\<rparr>)
      else rbind (upd_pcb s p (\<lambda>pcb. pcb\<lparr>exitCode := code, joinSem := joinSem pcb + 1\<rparr>)) (\<lambda>s1.
           Inr (goto s1 p (PExitWait code))))"

definition Exit_finish :: "'h unix \<Rightarrow> 'h psys \<Rightarrow> nat \<Rightarrow> 'h psys result" where
  "Exit_finish u s p = rbind (Remove_pid u s (int p)) (\<lambda>s1. Inr (s1\<lparr>control := (control s1)(p := None)\<rparr>))"

text \<open>A file call of a process that is not \<^verbatim>\<open>Create\<close>.\<close>

definition file_step :: "'h unix \<Rightarrow> 'h psys \<Rightarrow> nat \<Rightarrow> file_call \<Rightarrow> 'h psys result" where
  "file_step u s p c =
     rbind (GetCurrentPCB s p) (\<lambda>cur.
     rbind (do_call u c (fileTable cur) (p_fs s)) (\<lambda>(t, fs).
     Inr (s\<lparr>pt_table := (pt_table s)(p \<mapsto> cur\<lparr>fileTable := t\<rparr>), p_fs := fs\<rparr>)))"

section \<open>Steps\<close>

text \<open>
  \<open>pstep\<close> is a step that succeeds. \<open>fails u s\<close>: some process can take a step of \<^verbatim>\<open>ExecV\<close>, \<^verbatim>\<open>Join\<close> or \<^verbatim>\<open>Exit\<close>, or make a file call, that ends
  in a fault; of the file calls those are left out that may fail an assertion of their own (\<open>may_fault\<close>), and \<^verbatim>\<open>Create\<close>. A \<^verbatim>\<open>P\<close> passes when the
  value is not 0; the joiner waits on the semaphore of the PCB object it looked up, which may have been deleted since.
\<close>

inductive pstep :: "'h unix \<Rightarrow> 'h psys \<Rightarrow> 'h psys \<Rightarrow> bool" for u :: "'h unix" where
  ps_exec: "\<not> halted s \<Longrightarrow> control s p = Some PRun \<Longrightarrow> pstep u s (ExecV_enter s p argv)"
| ps_exec_P: "\<not> halted s \<Longrightarrow> control s p = Some (PExecWait argv) \<Longrightarrow> bitmapMutex s \<noteq> 0 \<Longrightarrow>
    pstep u s (goto (s\<lparr>bitmapMutex := bitmapMutex s - 1\<rparr>) p (PExecIn argv))"
| ps_exec_body: "\<not> halted s \<Longrightarrow> control s p = Some (PExecIn argv) \<Longrightarrow> ExecV_body u s p argv loads = Inr s' \<Longrightarrow> pstep u s s'"
| ps_join: "\<not> halted s \<Longrightarrow> control s p = Some PRun \<Longrightarrow> Join_enter s p child = Inr s' \<Longrightarrow> pstep u s s'"
| ps_join_P: "\<not> halted s \<Longrightarrow> control s p = Some (PJoinWait c st) \<Longrightarrow> pt_table s c = Some pcb \<Longrightarrow> pcb_stamp pcb = st \<Longrightarrow> joinSem pcb \<noteq> 0 \<Longrightarrow>
    pstep u s (goto (s\<lparr>pt_table := (pt_table s)(c \<mapsto> pcb\<lparr>joinSem := joinSem pcb - 1\<rparr>)\<rparr>) p (PJoined c))"
| ps_join_finish: "\<not> halted s \<Longrightarrow> control s p = Some (PJoined c) \<Longrightarrow> Join_finish s p c = Inr s' \<Longrightarrow> pstep u s s'"
| ps_exit: "\<not> halted s \<Longrightarrow> control s p = Some PRun \<Longrightarrow> Exit_enter s p code = Inr s' \<Longrightarrow> pstep u s s'"
| ps_exit_P: "\<not> halted s \<Longrightarrow> control s p = Some (PExitWait code) \<Longrightarrow> pt_table s p = Some pcb \<Longrightarrow> exitSem pcb \<noteq> 0 \<Longrightarrow>
    pstep u s (goto (s\<lparr>pt_table := (pt_table s)(p \<mapsto> pcb\<lparr>exitSem := exitSem pcb - 1\<rparr>)\<rparr>) p PExited)"
| ps_exit_finish: "\<not> halted s \<Longrightarrow> control s p = Some PExited \<Longrightarrow> Exit_finish u s p = Inr s' \<Longrightarrow> pstep u s s'"
| ps_file: "\<not> halted s \<Longrightarrow> control s p = Some PRun \<Longrightarrow> \<not> is_create c \<Longrightarrow> file_step u s p c = Inr s' \<Longrightarrow> pstep u s s'"

definition fails :: "'h unix \<Rightarrow> 'h psys \<Rightarrow> bool" where
  "fails u s \<longleftrightarrow> \<not> halted s \<and> (\<exists>p. \<exists>e.
     (\<exists>argv loads. control s p = Some (PExecIn argv) \<and> ExecV_body u s p argv loads = Inl e) \<or>
     (\<exists>child. control s p = Some PRun \<and> Join_enter s p child = Inl e) \<or>
     (\<exists>c. control s p = Some (PJoined c) \<and> Join_finish s p c = Inl e) \<or>
     (\<exists>code. control s p = Some PRun \<and> Exit_enter s p code = Inl e) \<or>
     (control s p = Some PExited \<and> Exit_finish u s p = Inl e) \<or>
     (\<exists>c. control s p = Some PRun \<and> \<not> is_create c \<and> \<not> may_fault c \<and> file_step u s p c = Inl e))"

section \<open>The join and exit protocol\<close>

definition joiners :: "(nat \<rightharpoonup> control) \<Rightarrow> nat \<Rightarrow> nat set" where
  "joiners ctl c = {p. ctl p = Some (PJoined c)}"

text \<open>
  A process that has called \<^verbatim>\<open>Exit\<close> and not yet passed \<^verbatim>\<open>ExitWait\<close> has one token: in its \<^verbatim>\<open>joinSem\<close>, with the one process that
  is behind \<^verbatim>\<open>JoinWait\<close>, or in its \<^verbatim>\<open>exitSem\<close>. Any other process has none.
\<close>

definition proto :: "control option \<Rightarrow> nat set \<Rightarrow> PCB \<Rightarrow> bool" where
  "proto x J pcb \<longleftrightarrow> (case x of
      Some (PExitWait code) \<Rightarrow> exitCode pcb = code \<and>
        (joinSem pcb = 1 \<and> exitSem pcb = 0 \<and> J = {} \<or> joinSem pcb = 0 \<and> exitSem pcb = 1 \<and> J = {} \<or>
         joinSem pcb = 0 \<and> exitSem pcb = 0 \<and> (\<exists>p. J = {p}))
    | _ \<Rightarrow> joinSem pcb = 0 \<and> exitSem pcb = 0 \<and> J = {})"

definition protocol :: "(nat \<rightharpoonup> PCB) \<Rightarrow> (nat \<rightharpoonup> control) \<Rightarrow> bool" where
  "protocol tab ctl \<longleftrightarrow> dom ctl = dom tab \<and> (\<forall>p c. ctl p = Some (PJoined c) \<longrightarrow> tab c \<noteq> None) \<and>
     (\<forall>c pcb. tab c = Some pcb \<longrightarrow> proto (ctl c) (joiners ctl c) pcb)"

definition plain :: "control \<Rightarrow> bool" where
  "plain x \<longleftrightarrow> (case x of PJoined c \<Rightarrow> False | PExitWait code \<Rightarrow> False | _ \<Rightarrow> True)"

lemma proto_plain: "plain x \<Longrightarrow> proto (Some x) J pcb \<longleftrightarrow> joinSem pcb = 0 \<and> exitSem pcb = 0 \<and> J = {}"
  by (cases x) (auto simp: proto_def plain_def)

lemma joiners_upd:
  "joiners (ctl(p \<mapsto> x)) c = (if x = PJoined c then insert p (joiners ctl c) else joiners ctl c - {p})"
  by (auto simp: joiners_def)

lemma joiners_not: "ctl p \<noteq> Some (PJoined c) \<Longrightarrow> joiners ctl c - {p} = joiners ctl c"
  by (auto simp: joiners_def)

lemma protocolD:
  assumes "protocol tab ctl"
  shows "dom ctl = dom tab" "ctl p = Some (PJoined c) \<Longrightarrow> tab c \<noteq> None" "tab c = Some pcb \<Longrightarrow> proto (ctl c) (joiners ctl c) pcb"
  using assms by (auto simp: protocol_def)

text \<open>One process \<open>p\<close> moves and the control block of one process \<open>c\<close> changes.\<close>

lemma protocol_step:
  assumes t: "protocol tab ctl" and c: "tab c \<noteq> None" and p: "ctl p \<noteq> None"
    and own: "proto ((ctl(p \<mapsto> x)) c) (joiners (ctl(p \<mapsto> x)) c) pcb"
    and oth: "\<And>d. d \<noteq> c \<Longrightarrow> x \<noteq> PJoined d \<and> ctl p \<noteq> Some (PJoined d)"
    and me: "p = c \<or> (\<exists>x0. ctl p = Some x0 \<and> (plain x0 \<or> x0 = PJoined c) \<and> (plain x \<or> x = PJoined c))"
  shows "protocol (tab(c \<mapsto> pcb)) (ctl(p \<mapsto> x))"
proof -
  have d: "dom (ctl(p \<mapsto> x)) = dom (tab(c \<mapsto> pcb))" using protocolD(1) [OF t] c p by auto
  have j: "\<forall>q d. (ctl(p \<mapsto> x)) q = Some (PJoined d) \<longrightarrow> (tab(c \<mapsto> pcb)) d \<noteq> None"
    using protocolD(2) [OF t] oth by (auto split: if_splits)
  have "proto ((ctl(p \<mapsto> x)) d) (joiners (ctl(p \<mapsto> x)) d) pd" if pd: "(tab(c \<mapsto> pcb)) d = Some pd" for d pd
  proof (cases "d = c")
    case True
    then show ?thesis using own pd by simp
  next
    case False
    have o: "proto (ctl d) (joiners ctl d) pd" using protocolD(3) [OF t] pd False by simp
    have e: "joiners (ctl(p \<mapsto> x)) d = joiners ctl d" using oth [OF False] joiners_not [of ctl p d] by (simp add: joiners_upd)
    show ?thesis
    proof (cases "d = p")
      case True
      then obtain x0 where x0: "ctl p = Some x0" "plain x0 \<or> x0 = PJoined c" "plain x \<or> x = PJoined c" using me False by blast
      have "proto (Some y) J q \<longleftrightarrow> joinSem q = 0 \<and> exitSem q = 0 \<and> J = {}" if "plain y \<or> y = PJoined c" for y J q
        using that proto_plain [of y J q] by (auto simp: proto_def)
      then show ?thesis using o x0 e True by simp
    next
      case False
      then show ?thesis using o e by simp
    qed
  qed
  then show ?thesis using d j by (simp add: protocol_def)
qed

lemma protocol_move:
  assumes t: "protocol tab ctl" and p: "ctl p = Some x0" "plain x0" "plain x"
  shows "protocol tab (ctl(p \<mapsto> x))"
proof -
  obtain pcb where pcb: "tab p = Some pcb" using protocolD(1) [OF t] p by (auto simp: dom_def)
  have "ctl p \<noteq> Some (PJoined d)" "x \<noteq> PJoined d" for d using p by (auto simp: plain_def)
  moreover have "proto (Some x) (joiners ctl p) pcb"
    using protocolD(3) [OF t pcb] p proto_plain [of x0] proto_plain [of x] by simp
  ultimately have "protocol (tab(p \<mapsto> pcb)) (ctl(p \<mapsto> x))"
    using protocol_step [OF t, of p p x pcb] pcb p joiners_not [of ctl p p] by (simp add: joiners_upd)
  then show ?thesis using pcb by (simp add: fun_upd_idem)
qed

lemma protocol_new:
  assumes t: "protocol tab ctl" and c: "tab c = None" and s: "joinSem pcb = 0" "exitSem pcb = 0"
  shows "protocol (tab(c \<mapsto> pcb)) (ctl(c \<mapsto> PRun))"
proof -
  have n: "ctl p \<noteq> Some (PJoined c)" for p using protocolD(2) [OF t, of p c] c by auto
  have "ctl c = None" using protocolD(1) [OF t] c by auto
  then have e: "joiners (ctl(c \<mapsto> PRun)) d = joiners ctl d" for d by (auto simp: joiners_def)
  have "joiners ctl c = {}" using n by (auto simp: joiners_def)
  then have "proto (Some PRun) (joiners ctl c) pcb" using s by (simp add: proto_def)
  then show ?thesis using t e unfolding protocol_def by auto
qed

lemma protocol_remove:
  assumes t: "protocol tab ctl" and p: "ctl p = Some x" "plain x"
  shows "protocol (tab(p := None)) (ctl(p := None))"
proof -
  obtain pcb where pcb: "tab p = Some pcb" using protocolD(1) [OF t] p by (auto simp: dom_def)
  have "joiners ctl p = {}" using protocolD(3) [OF t pcb] p proto_plain [of x] by simp
  then have n: "ctl q \<noteq> Some (PJoined p)" for q by (auto simp: joiners_def)
  have e: "joiners (ctl(p := None)) d = joiners ctl d" for d using p by (auto simp: joiners_def plain_def)
  show ?thesis using t e n unfolding protocol_def by auto
qed

lemma protocol_same:
  assumes t: "protocol tab ctl" and p: "tab p = Some pcb" and s: "joinSem pcb' = joinSem pcb" "exitSem pcb' = exitSem pcb" "exitCode pcb' = exitCode pcb"
  shows "protocol (tab(p \<mapsto> pcb')) ctl"
proof -
  have "proto x J pcb' = proto x J pcb" for x J unfolding proto_def s ..
  then show ?thesis using t p unfolding protocol_def by (auto simp: dom_def)
qed

lemma protocol_join_P:
  assumes t: "protocol tab ctl" and p: "ctl p = Some (PJoinWait c st)" and c: "tab c = Some pcb" "joinSem pcb \<noteq> 0"
  shows "protocol (tab(c \<mapsto> pcb\<lparr>joinSem := joinSem pcb - 1\<rparr>)) (ctl(p \<mapsto> PJoined c))"
proof -
  have o: "proto (ctl c) (joiners ctl c) pcb" using protocolD(3) [OF t c(1)] .
  obtain code where e: "ctl c = Some (PExitWait code)" "exitCode pcb = code" "joinSem pcb = 1" "exitSem pcb = 0" "joiners ctl c = {}"
    using o c(2) unfolding proto_def by (auto split: option.splits control.splits)
  then have "p \<noteq> c" using p by auto
  then show ?thesis using protocol_step [OF t, of c p "PJoined c" "pcb\<lparr>joinSem := joinSem pcb - 1\<rparr>"] p c e
    by (simp add: joiners_upd proto_def plain_def)
qed

lemma protocol_joined:
  assumes t: "protocol tab ctl" and p: "ctl p = Some (PJoined c)"
  shows "\<exists>pcb code. tab c = Some pcb \<and> ctl c = Some (PExitWait code) \<and> exitCode pcb = code \<and> joinSem pcb = 0 \<and> exitSem pcb = 0 \<and>
    joiners ctl c = {p}"
proof -
  obtain pcb where c: "tab c = Some pcb" using protocolD(2) [OF t p] by auto
  have "p \<in> joiners ctl c" using p by (simp add: joiners_def)
  then show ?thesis using protocolD(3) [OF t c] c unfolding proto_def by (auto split: option.splits control.splits)
qed

lemma protocol_join_finish:
  assumes t: "protocol tab ctl" and p: "ctl p = Some (PJoined c)" and c: "tab c = Some pcb"
  shows "protocol (tab(c \<mapsto> pcb\<lparr>exitSem := exitSem pcb + 1\<rparr>)) (ctl(p \<mapsto> PRun))"
proof -
  obtain code where e: "ctl c = Some (PExitWait code)" "exitCode pcb = code" "joinSem pcb = 0" "exitSem pcb = 0" "joiners ctl c = {p}"
    using protocol_joined [OF t p] c by auto
  then have "p \<noteq> c" using p by auto
  then show ?thesis using protocol_step [OF t, of c p PRun "pcb\<lparr>exitSem := exitSem pcb + 1\<rparr>"] p c e
    by (simp add: joiners_upd proto_def plain_def)
qed

lemma protocol_exit:
  assumes t: "protocol tab ctl" and p: "ctl p = Some PRun" and c: "tab p = Some pcb"
  shows "protocol (tab(p \<mapsto> pcb\<lparr>exitCode := code, joinSem := joinSem pcb + 1\<rparr>)) (ctl(p \<mapsto> PExitWait code))"
proof -
  have o: "joinSem pcb = 0" "exitSem pcb = 0" "joiners ctl p = {}"
    using protocolD(3) [OF t c] p by (auto simp: proto_def)
  then show ?thesis using protocol_step [OF t, of p p "PExitWait code" "pcb\<lparr>exitCode := code, joinSem := joinSem pcb + 1\<rparr>"] p c
    by (simp add: joiners_upd proto_def)
qed

lemma protocol_exit_P:
  assumes t: "protocol tab ctl" and p: "ctl p = Some (PExitWait code)" and c: "tab p = Some pcb" "exitSem pcb \<noteq> 0"
  shows "protocol (tab(p \<mapsto> pcb\<lparr>exitSem := exitSem pcb - 1\<rparr>)) (ctl(p \<mapsto> PExited))"
proof -
  have o: "joinSem pcb = 0" "exitSem pcb = 1" "joiners ctl p = {}"
    using protocolD(3) [OF t c(1)] p c(2) by (auto simp: proto_def)
  then show ?thesis using protocol_step [OF t, of p p PExited "pcb\<lparr>exitSem := exitSem pcb - 1\<rparr>"] p c
    by (simp add: joiners_upd proto_def)
qed

section \<open>The invariant of the process table\<close>

definition tabs :: "(nat \<rightharpoonup> PCB) \<Rightarrow> nat \<rightharpoonup> FileTable" where
  "tabs tab p = map_option fileTable (tab p)"

definition pids_ok :: "bitmap \<Rightarrow> (nat \<rightharpoonup> PCB) \<Rightarrow> bool" where
  "pids_ok bm tab \<longleftrightarrow> bitmap_ok bm \<and> numBits bm = NumProcesses \<and> used_slots bm = int ` dom tab \<and>
     (\<forall>p pcb. tab p = Some pcb \<longrightarrow> int p < NumProcesses \<and> processID pcb = int p)"

definition proc_ok :: "'h psys \<Rightarrow> bool" where
  "proc_ok s \<longleftrightarrow> pids_ok (pt_bitmap s) (pt_table s) \<and> protocol (pt_table s) (control s) \<and>
     files_ok (gtable (p_fs s)) (tabs (pt_table s))"

lemma tabs_upd: "tabs (tab(p \<mapsto> pcb)) = (tabs tab)(p \<mapsto> fileTable pcb)" "tabs (tab(p := None)) = (tabs tab)(p := None)"
  by (auto simp: tabs_def)

lemma tabs_same: "tab p = Some pcb \<Longrightarrow> fileTable pcb' = fileTable pcb \<Longrightarrow> tabs (tab(p \<mapsto> pcb')) = tabs tab"
  by (auto simp: tabs_def)

lemma pids_ok_same: "pids_ok bm tab \<Longrightarrow> tab p = Some pcb \<Longrightarrow> processID pcb' = processID pcb \<Longrightarrow> pids_ok bm (tab(p \<mapsto> pcb'))"
  by (auto simp: pids_ok_def insert_absorb domI)

lemma pid_free: "pids_ok bm tab \<Longrightarrow> 0 \<le> i \<Longrightarrow> i \<notin> used_slots bm \<Longrightarrow> tab (nat i) = None"
  by (cases "tab (nat i)") (force simp: pids_ok_def)+

lemma delete_FileTable_freed:
  assumes f: "files_ok (gtable fs) tb" and p: "tb p = Some t" and d: "delete_FileTable u t fs = Inr fs'"
  shows "files_ok (gtable fs') (tb(p := None))"
  using files_ok_deleted [OF f p close_from_length close_from_frees] d files_okD(1) [OF f] unfolding delete_FileTable_def by blast

text \<open>The table of a process that never ran holds no files.\<close>

lemma delete_new_FileTable: "delete_FileTable u new_FileTable fs = Inr fs"
proof -
  have "close_from u (replicate n (-1)) fs = Inr fs" for n by (induction n) simp_all
  moreover have "drop 2 new_FileTable = replicate 18 (-1)" by code_simp
  ultimately show ?thesis by (simp add: delete_FileTable_def)
qed

definition removed :: "'h psys \<Rightarrow> nat \<Rightarrow> 'h FileSystem \<Rightarrow> 'h psys \<Rightarrow> bool" where
  "removed s p fs s' \<longleftrightarrow> pids_ok (pt_bitmap s') (pt_table s') \<and> pt_table s' = (pt_table s)(p := None) \<and> p_fs s' = fs \<and>
     files_ok (gtable fs) (tabs (pt_table s')) \<and> control s' = control s \<and> pt_ret s' = pt_ret s \<and> halted s' = halted s \<and>
     bitmapMutex s' = bitmapMutex s \<and> next_stamp s' = next_stamp s"

lemma Remove_ok:
  assumes b: "pids_ok (pt_bitmap s) (pt_table s)" and f: "files_ok (gtable (p_fs s)) (tabs (pt_table s))"
    and p: "pt_table s p = Some pcb" and d: "delete_FileTable u (fileTable pcb) (p_fs s) = Inr fs"
  shows "\<exists>s'. Remove_pid u s (int p) = Inr s' \<and> removed s p fs s'"
proof -
  have r: "int p < NumProcesses" "bitmap_ok (pt_bitmap s)" "numBits (pt_bitmap s) = NumProcesses"
    using b p by (auto simp: pids_ok_def)
  obtain bm where bm: "Clear (pt_bitmap s) (int p) = Inr bm" "bitmap_ok bm" "numBits bm = numBits (pt_bitmap s)"
      "used_slots bm = used_slots (pt_bitmap s) - {int p}"
    using bm.clear_law [of "pt_bitmap s" "int p"] r by auto
  have "tabs (pt_table s) p = Some (fileTable pcb)" using p by (simp add: tabs_def)
  then have fs: "files_ok (gtable fs) ((tabs (pt_table s))(p := None))" using delete_FileTable_freed [OF f _ d] by blast
  have "pids_ok bm ((pt_table s)(p := None))" using b bm r by (auto simp: pids_ok_def split: if_splits)
  then show ?thesis using p r bm fs d by (simp add: Remove_pid_def pcb_at_def tabs_upd removed_def)
qed

lemma GetCurrentPCB_ok:
  assumes b: "pids_ok (pt_bitmap s) (pt_table s)" and p: "pt_table s p = Some pcb"
  shows "GetCurrentPCB s p = Inr pcb" "processID pcb = int p"
  using assms by (auto simp: GetCurrentPCB_def IsValidPID_def pids_ok_def pcb_at_def)

lemma control_pcb: "protocol tab ctl \<Longrightarrow> ctl p = Some x \<Longrightarrow> \<exists>pcb. tab p = Some pcb"
  using protocolD(1) [of tab ctl] by auto

lemma ExecV_body_ok:
  assumes i: "proc_ok s" and p: "control s p = Some (PExecIn argv)"
  shows "\<exists>s'. ExecV_body u s p argv loads = Inr s' \<and> proc_ok s' \<and> p_fs s' = p_fs s"
proof -
  have b: "pids_ok (pt_bitmap s) (pt_table s)" and t: "protocol (pt_table s) (control s)"
    and f: "files_ok (gtable (p_fs s)) (tabs (pt_table s))" using i by (auto simp: proc_ok_def)
  have bo: "bitmap_ok (pt_bitmap s)" "numBits (pt_bitmap s) = NumProcesses" using b by (auto simp: pids_ok_def)
  obtain cur where cur: "pt_table s p = Some cur" using control_pcb [OF t p] by blast
  have mv: "protocol tab (ctl(p \<mapsto> PRun))" if "protocol tab ctl" "ctl p = Some (PExecIn argv)" for tab ctl
    using protocol_move [OF that] by (simp add: plain_def)
  show ?thesis
  proof (cases "used_slots (pt_bitmap s) = {0..<numBits (pt_bitmap s)}")
    case True
    then have "ExecV_body u s p argv loads = Inr (return s p (-1))" using bm.find_full [OF bo(1)] by (simp add: ExecV_body_def)
    then show ?thesis using i mv [OF t p] by (simp add: proc_ok_def return_def goto_def)
  next
    case False
    then obtain pid bm where fa: "FindAndSet (pt_bitmap s) = Inr (pid, bm)" "0 \<le> pid" "pid < NumProcesses" "pid \<notin> used_slots (pt_bitmap s)"
        "bitmap_ok bm" "numBits bm = NumProcesses" "used_slots bm = insert pid (used_slots (pt_bitmap s))"
      using bm.find_free [OF bo(1)] bo(2) by auto
    have free: "pt_table s (nat pid) = None" using pid_free [OF b fa(2,4)] .
    then have pp: "p \<noteq> nat pid" using cur by auto
    let ?pcb0 = "new_PCB pid (processID cur) (next_stamp s)"
    obtain pcb r where ex: "PCB_Execute ?pcb0 argv loads = Inr (r, pcb)" "joinSem pcb = 0" "exitSem pcb = 0" "fileTable pcb = new_FileTable"
        "processID pcb = pid"
      by (cases "argv = []") (auto simp: PCB_Execute_def setFileName_def new_PCB_def)
    let ?tab = "(pt_table s)(nat pid \<mapsto> pcb)"
    let ?s1 = "s\<lparr>pt_bitmap := bm, pt_table := ?tab, next_stamp := Suc (next_stamp s)\<rparr>"
    have b1: "pids_ok bm ?tab" using b fa ex(5) by (auto simp: pids_ok_def)
    have f1: "files_ok (gtable (p_fs s)) (tabs ?tab)" using files_ok_new [OF f] ex(4) by (simp add: tabs_upd)
    show ?thesis
    proof (cases "r = -1")
      case True
      have "delete_FileTable u (fileTable pcb) (p_fs ?s1) = Inr (p_fs s)" using ex(4) delete_new_FileTable [of u "p_fs s"] by simp
      then obtain s2 where s2: "Remove_pid u ?s1 (int (nat pid)) = Inr s2" "pids_ok (pt_bitmap s2) (pt_table s2)"
          "pt_table s2 = ?tab(nat pid := None)" "files_ok (gtable (p_fs s2)) (tabs (pt_table s2))" "control s2 = control s" "p_fs s2 = p_fs s"
        using Remove_ok [of ?s1 "nat pid" pcb u "p_fs s"] b1 f1 by (auto simp: removed_def)
      have "pt_table s2 = pt_table s" using s2(3) free by (auto simp: fun_eq_iff)
      then have "proc_ok (return (s2\<lparr>bitmapMutex := bitmapMutex s2 + 1\<rparr>) p (-1))"
        using s2 mv [OF t p] by (simp add: proc_ok_def return_def goto_def)
      then show ?thesis using True fa(1,2) ex(1) s2(1,6) GetCurrentPCB_ok [OF b cur]
        by (simp add: ExecV_body_def Let_def) (simp add: return_def goto_def)
    next
      case False
      have "protocol ?tab ((control s)(nat pid \<mapsto> PRun))" using protocol_new [OF t free ex(2,3)] .
      then have "protocol ?tab ((control s)(nat pid \<mapsto> PRun, p \<mapsto> PRun))" using mv p pp by simp
      then show ?thesis using False fa(1,2) ex(1) GetCurrentPCB_ok [OF b cur] b1 f1
        by (simp add: ExecV_body_def Let_def proc_ok_def return_def goto_def)
    qed
  qed
qed

lemma Join_enter_ok:
  assumes i: "proc_ok s" and p: "control s p = Some PRun"
  shows "\<exists>s'. Join_enter s p child = Inr s' \<and> proc_ok s'"
proof -
  have b: "pids_ok (pt_bitmap s) (pt_table s)" and t: "protocol (pt_table s) (control s)" using i by (auto simp: proc_ok_def)
  obtain cur where cur: "pt_table s p = Some cur" using control_pcb [OF t p] by blast
  have "proc_ok (return s p r)" "proc_ok (goto s p (PJoinWait c st))" for r c st
    using i protocol_move [OF t p] by (auto simp: proc_ok_def return_def goto_def plain_def)
  then show ?thesis using GetCurrentPCB_ok [OF b cur] by (auto simp: Join_enter_def IsValidPID_def pcb_at_def)
qed

lemma Join_finish_ok:
  assumes i: "proc_ok s" and p: "control s p = Some (PJoined c)"
  shows "\<exists>s' code. Join_finish s p c = Inr s' \<and> proc_ok s' \<and> control s c = Some (PExitWait code) \<and> pt_ret s' p = code"
proof -
  have b: "pids_ok (pt_bitmap s) (pt_table s)" and t: "protocol (pt_table s) (control s)"
    and f: "files_ok (gtable (p_fs s)) (tabs (pt_table s))" using i by (auto simp: proc_ok_def)
  obtain pcb code where e: "pt_table s c = Some pcb" "control s c = Some (PExitWait code)" "exitCode pcb = code"
    using protocol_joined [OF t p] by auto
  let ?pcb = "pcb\<lparr>exitSem := exitSem pcb + 1\<rparr>"
  have "proc_ok (return (s\<lparr>pt_table := (pt_table s)(c \<mapsto> ?pcb)\<rparr>) p code)"
    using protocol_join_finish [OF t p e(1)] pids_ok_same [OF b e(1), of ?pcb] f tabs_same [of "pt_table s" c pcb ?pcb] e(1)
    by (simp add: proc_ok_def return_def goto_def)
  then show ?thesis using e by (simp add: Join_finish_def pcb_at_def upd_pcb_def return_def goto_def)
qed

lemma Exit_enter_ok:
  assumes i: "proc_ok s" and p: "control s p = Some PRun"
  shows "\<exists>s'. Exit_enter s p code = Inr s' \<and> proc_ok s'"
proof (cases "p = 0")
  case True
  then show ?thesis using i by (simp add: Exit_enter_def proc_ok_def)
next
  case False
  have b: "pids_ok (pt_bitmap s) (pt_table s)" and t: "protocol (pt_table s) (control s)"
    and f: "files_ok (gtable (p_fs s)) (tabs (pt_table s))" using i by (auto simp: proc_ok_def)
  obtain pcb where e: "pt_table s p = Some pcb" using control_pcb [OF t p] by blast
  let ?pcb = "pcb\<lparr>exitCode := code, joinSem := joinSem pcb + 1\<rparr>"
  have "proc_ok (goto (s\<lparr>pt_table := (pt_table s)(p \<mapsto> ?pcb)\<rparr>) p (PExitWait code))"
    using protocol_exit [OF t p e] pids_ok_same [OF b e, of ?pcb] f tabs_same [of "pt_table s" p pcb ?pcb] e
    by (simp add: proc_ok_def goto_def)
  then show ?thesis using e False by (simp add: Exit_enter_def upd_pcb_def pcb_at_def)
qed

lemma Exit_finish_ok:
  assumes i: "proc_ok s" and p: "control s p = Some PExited" and e: "pt_table s p = Some pcb"
    and d: "delete_FileTable u (fileTable pcb) (p_fs s) = Inr fs"
  shows "\<exists>s'. Exit_finish u s p = Inr s' \<and> proc_ok s' \<and> p_fs s' = fs"
proof -
  have b: "pids_ok (pt_bitmap s) (pt_table s)" and t: "protocol (pt_table s) (control s)"
    and f: "files_ok (gtable (p_fs s)) (tabs (pt_table s))" using i by (auto simp: proc_ok_def)
  obtain s' where s': "Remove_pid u s (int p) = Inr s'" "removed s p fs s'" using Remove_ok [OF b f e d] by blast
  have "plain PExited" by (simp add: plain_def)
  then show ?thesis using s' protocol_remove [OF t p] by (auto simp: Exit_finish_def proc_ok_def removed_def)
qed

lemma Exit_finish_returned:
  assumes i: "proc_ok s" and p: "control s p = Some PExited" and r: "Exit_finish u s p = Inr s'"
  shows "\<exists>pcb fs. pt_table s p = Some pcb \<and> delete_FileTable u (fileTable pcb) (p_fs s) = Inr fs \<and> proc_ok s' \<and> p_fs s' = fs"
proof -
  have t: "protocol (pt_table s) (control s)" using i by (simp add: proc_ok_def)
  obtain pcb where e: "pt_table s p = Some pcb" using control_pcb [OF t p] by blast
  obtain fs where d: "delete_FileTable u (fileTable pcb) (p_fs s) = Inr fs"
    using r e by (auto simp: Exit_finish_def Remove_pid_def pcb_at_def rbind_eq_Inr)
  show ?thesis using Exit_finish_ok [OF i p e d] r e d by auto
qed

lemma file_step_ok:
  assumes i: "proc_ok s" and p: "control s p = Some PRun" and c: "\<not> is_create c" and s': "file_step u s p c = Inr s'"
  shows "proc_ok s' \<and> (\<exists>t0 t'. do_call u c t0 (p_fs s) = Inr (t', p_fs s'))"
proof -
  have b: "pids_ok (pt_bitmap s) (pt_table s)" and t: "protocol (pt_table s) (control s)"
    and f: "files_ok (gtable (p_fs s)) (tabs (pt_table s))" using i by (auto simp: proc_ok_def)
  obtain cur where cur: "pt_table s p = Some cur" using control_pcb [OF t p] by blast
  have tp: "tabs (pt_table s) p = Some (fileTable cur)" using cur by (simp add: tabs_def)
  obtain tt fs where d: "do_call u c (fileTable cur) (p_fs s) = Inr (tt, fs)"
      and s2: "s' = s\<lparr>pt_table := (pt_table s)(p \<mapsto> cur\<lparr>fileTable := tt\<rparr>), p_fs := fs\<rparr>"
    using s' GetCurrentPCB_ok [OF b cur] by (auto simp: file_step_def rbind_eq_Inr)
  have "files_ok (gtable fs) (tabs ((pt_table s)(p \<mapsto> cur\<lparr>fileTable := tt\<rparr>)))"
    using table_change_ok [OF do_call_change [OF files_okD(2) [OF f tp] d c] f tp] by (simp add: tabs_upd)
  then show ?thesis using pids_ok_same [OF b cur, of "cur\<lparr>fileTable := tt\<rparr>"] protocol_same [OF t cur, of "cur\<lparr>fileTable := tt\<rparr>"] s2 d
    by (auto simp: proc_ok_def)
qed

section \<open>Reachable states\<close>

definition reached :: "'h unix \<Rightarrow> string \<Rightarrow> 'h \<Rightarrow> 'h psys \<Rightarrow> bool" where
  "reached u name h s \<longleftrightarrow> (\<exists>s0. new_ProcessTable name h = Inr s0 \<and> rtranclp (pstep u) s0 s)"

lemma pstep_ok:
  assumes i: "proc_ok s" and st: "pstep u s s'"
  shows "proc_ok s'"
proof -
  have b: "pids_ok (pt_bitmap s) (pt_table s)" and t: "protocol (pt_table s) (control s)"
    and f: "files_ok (gtable (p_fs s)) (tabs (pt_table s))" using i by (auto simp: proc_ok_def)
  show ?thesis using st
  proof (cases rule: pstep.cases)
    case (ps_exec p argv)
    then show ?thesis using i protocol_move [OF t ps_exec(3)] by (auto simp: ExecV_enter_def return_def goto_def proc_ok_def plain_def)
  next
    case (ps_exec_P p argv)
    then show ?thesis using i protocol_move [OF t ps_exec_P(3)] by (auto simp: goto_def proc_ok_def plain_def)
  next
    case (ps_exec_body p argv loads)
    then show ?thesis using ExecV_body_ok [OF i ps_exec_body(2), of u loads] by auto
  next
    case (ps_join p child)
    then show ?thesis using Join_enter_ok [OF i ps_join(2), of child] by auto
  next
    case (ps_join_P p c st pcb)
    let ?pcb = "pcb\<lparr>joinSem := joinSem pcb - 1\<rparr>"
    show ?thesis using protocol_join_P [OF t ps_join_P(3,4,6)] pids_ok_same [OF b ps_join_P(4), of ?pcb] f
        tabs_same [of "pt_table s" c pcb ?pcb] ps_join_P(1,4) by (simp add: proc_ok_def goto_def)
  next
    case (ps_join_finish p c)
    then show ?thesis using Join_finish_ok [OF i ps_join_finish(2)] by auto
  next
    case (ps_exit p code)
    then show ?thesis using Exit_enter_ok [OF i ps_exit(2), of code] by auto
  next
    case (ps_exit_P p code pcb)
    let ?pcb = "pcb\<lparr>exitSem := exitSem pcb - 1\<rparr>"
    show ?thesis using protocol_exit_P [OF t ps_exit_P(3,4,5)] pids_ok_same [OF b ps_exit_P(4), of ?pcb] f
        tabs_same [of "pt_table s" p pcb ?pcb] ps_exit_P(1,4) by (simp add: proc_ok_def goto_def)
  next
    case (ps_exit_finish p)
    then show ?thesis using Exit_finish_returned [OF i ps_exit_finish(2,3)] by blast
  next
    case (ps_file p c)
    then show ?thesis using file_step_ok [OF i ps_file(2,3,4)] by simp
  qed
qed

lemma new_ProcessTable_ok: "\<exists>s. new_ProcessTable name h = Inr s \<and> proc_ok s"
proof -
  obtain bm where bm: "new_Bitmap NumProcesses = Inr bm" "bitmap_ok bm" "numBits bm = NumProcesses" "used_slots bm = {}"
    using new_Bitmap_ok [of NumProcesses] by (auto simp: nachos_consts)
  obtain bm1 where bm1: "Mark bm 0 = Inr bm1" "bitmap_ok bm1" "numBits bm1 = NumProcesses" "used_slots bm1 = {0}"
    using Mark_ok [OF bm(2), of 0] bm by (auto simp: nachos_consts)
  let ?pcb = "new_PCB 0 (-1) 0\<lparr>pcb_filename := Some name\<rparr>"
  have "proto (Some PRun) (joiners [0 \<mapsto> PRun] 0) ?pcb" by (auto simp: proto_def joiners_def new_PCB_def)
  then have "protocol [0 \<mapsto> ?pcb] [0 \<mapsto> PRun]" by (auto simp: protocol_def)
  moreover have "pids_ok bm1 [0 \<mapsto> ?pcb]" using bm1 by (auto simp: pids_ok_def new_PCB_def nachos_consts)
  moreover have "tabs [0 \<mapsto> ?pcb] = [0 \<mapsto> new_FileTable]" by (auto simp: tabs_def new_PCB_def)
  ultimately show ?thesis using bm(1) bm1(1) files_ok_start [of h]
    by (simp add: new_ProcessTable_def proc_ok_def setFileName_def new_PCB_def)
qed

lemma reached_ok:
  assumes "reached u name h s"
  shows "proc_ok s"
proof -
  obtain s0 where s0: "new_ProcessTable name h = Inr s0" "rtranclp (pstep u) s0 s" using assms by (auto simp: reached_def)
  have "proc_ok s0" using new_ProcessTable_ok [of name h] s0(1) by auto
  with s0(2) show ?thesis by induction (auto intro: pstep_ok)
qed

text \<open>The files in the global table have open descriptors in every reachable state.\<close>

lemma delete_FileTable_succeeds:
  assumes i: "proc_ok s" and p: "pt_table s p = Some pcb" and d: "descriptors_ok u fds" "slots_open fds (p_fs s)"
  shows "\<exists>fs. delete_FileTable u (fileTable pcb) (p_fs s) = Inr fs \<and> slots_open fds fs"
proof -
  have f: "files_ok (gtable (p_fs s)) (tabs (pt_table s))" using i by (simp add: proc_ok_def)
  have "tabs (pt_table s) p = Some (fileTable pcb)" using p by (simp add: tabs_def)
  then show ?thesis using close_from_succeeds [OF d table_slots_distinct [OF f]] by (simp add: delete_FileTable_def)
qed

lemma pstep_slots:
  assumes i: "proc_ok s" and d: "descriptors_ok u fds" "slots_open fds (p_fs s)" and st: "pstep u s s'"
  shows "slots_open fds (p_fs s')"
  using st
proof (cases rule: pstep.cases)
  case (ps_exec_body p argv loads)
  then show ?thesis using ExecV_body_ok [OF i ps_exec_body(2), of u loads] d(2) by auto
next
  case (ps_exit_finish p)
  obtain pcb where "pt_table s p = Some pcb" "delete_FileTable u (fileTable pcb) (p_fs s) = Inr (p_fs s')"
    using Exit_finish_returned [OF i ps_exit_finish(2,3)] by blast
  then show ?thesis using delete_FileTable_succeeds [OF i _ d] by fastforce
next
  case (ps_file p c)
  then show ?thesis using file_step_ok [OF i ps_file(2,3,4)] do_call_slots [OF d _ ps_file(3)] by blast
qed (use d(2) in \<open>auto simp: ExecV_enter_def return_def goto_def Join_enter_def Join_finish_def Exit_enter_def upd_pcb_def rbind_eq_Inr
  split: if_splits\<close>)

lemma reached_slots:
  assumes "reached u name h s" "descriptors_ok u fds"
  shows "slots_open fds (p_fs s)"
proof -
  obtain s0 where s0: "new_ProcessTable name h = Inr s0" "rtranclp (pstep u) s0 s" using assms(1) by (auto simp: reached_def)
  have "proc_ok s0" using new_ProcessTable_ok [of name h] s0(1) by auto
  moreover have "slots_open fds (p_fs s0)"
    using s0(1) by (auto simp: new_ProcessTable_def rbind_eq_Inr slots_open_def new_FileSystem_def)
  ultimately have i: "proc_ok s0 \<and> slots_open fds (p_fs s0)" ..
  have "proc_ok s \<and> slots_open fds (p_fs s)"
    using s0(2) by induction (use i in \<open>auto intro: pstep_ok pstep_slots [OF _ assms(2)]\<close>)
  then show ?thesis ..
qed

lemma never_fails:
  assumes i: "proc_ok s" and d: "descriptors_ok u fds" "slots_open fds (p_fs s)"
  shows "\<not> fails u s"
proof
  assume "fails u s"
  then obtain p e where "(\<exists>argv loads. control s p = Some (PExecIn argv) \<and> ExecV_body u s p argv loads = Inl e) \<or>
     (\<exists>child. control s p = Some PRun \<and> Join_enter s p child = Inl e) \<or>
     (\<exists>c. control s p = Some (PJoined c) \<and> Join_finish s p c = Inl e) \<or>
     (\<exists>code. control s p = Some PRun \<and> Exit_enter s p code = Inl e) \<or>
     (control s p = Some PExited \<and> Exit_finish u s p = Inl e) \<or>
     (\<exists>c. control s p = Some PRun \<and> \<not> is_create c \<and> \<not> may_fault c \<and> file_step u s p c = Inl e)" unfolding fails_def by blast
  moreover have b: "pids_ok (pt_bitmap s) (pt_table s)" and t: "protocol (pt_table s) (control s)" using i by (auto simp: proc_ok_def)
  ultimately show False
  proof (elim disjE exE conjE)
    show False if "control s p = Some (PExecIn argv)" "ExecV_body u s p argv loads = Inl e" for argv loads
      using ExecV_body_ok [OF i that(1), of u loads] that(2) by auto
    show False if "control s p = Some PRun" "Join_enter s p child = Inl e" for child
      using Join_enter_ok [OF i that(1), of child] that(2) by auto
    show False if "control s p = Some (PJoined c)" "Join_finish s p c = Inl e" for c
      using Join_finish_ok [OF i that(1)] that(2) by auto
    show False if "control s p = Some PRun" "Exit_enter s p code = Inl e" for code
      using Exit_enter_ok [OF i that(1), of code] that(2) by auto
    show False if x: "control s p = Some PExited" "Exit_finish u s p = Inl e"
    proof -
      obtain pcb where pcb: "pt_table s p = Some pcb" using control_pcb [OF t x(1)] by blast
      then obtain fs where "delete_FileTable u (fileTable pcb) (p_fs s) = Inr fs" using delete_FileTable_succeeds [OF i _ d] by blast
      then obtain s' where "Exit_finish u s p = Inr s'" using Exit_finish_ok [OF i x(1) pcb] by blast
      then show False using x(2) by simp
    qed
    show False if x: "control s p = Some PRun" "\<not> is_create c" "\<not> may_fault c" "file_step u s p c = Inl e" for c
    proof -
      obtain cur where cur: "pt_table s p = Some cur" using control_pcb [OF t x(1)] by blast
      obtain y where "do_call u c (fileTable cur) (p_fs s) = Inr y" using do_call_succeeds [OF d x(2,3)] by blast
      then show False using x(4) GetCurrentPCB_ok [OF b cur] by (cases y) (simp add: file_step_def)
    qed
  qed
qed

section \<open>Properties\<close>


text \<open>
  C8: \<^verbatim>\<open>Join\<close> returns the exit code of the child: when a process is behind \<^verbatim>\<open>JoinWait\<close> on a child, the child has called \<^verbatim>\<open>Exit\<close> and
  still waits in \<^verbatim>\<open>ExitWait\<close>, no other process has joined it, \<^verbatim>\<open>Join\<close> completes, and its result is the argument of the child's \<^verbatim>\<open>Exit\<close>.
\<close>
theorem Join_returns_exit_code:
  assumes "reached u name h s" and "control s p = Some (PJoined c)"
  shows "\<exists>s' code. Join_finish s p c = Inr s' \<and> control s c = Some (PExitWait code) \<and> pt_ret s' p = code \<and>
    (\<forall>q. control s q = Some (PJoined c) \<longrightarrow> q = p)"
proof -
  have i: "proc_ok s" by (rule reached_ok [OF assms(1)])
  then have "joiners (control s) c = {p}" using protocol_joined [of "pt_table s" "control s" p c] assms(2) by (auto simp: proc_ok_def)
  then show ?thesis using Join_finish_ok [OF i assms(2)] by (auto simp: joiners_def)
qed

text \<open>No process is in \<^verbatim>\<open>ExecV\<close> behind its \<^verbatim>\<open>P\<close>, and the mutex is 0.\<close>

definition mutex_lost :: "'h psys \<Rightarrow> bool" where
  "mutex_lost s \<longleftrightarrow> bitmapMutex s = 0 \<and> (\<forall>p argv. control s p \<noteq> Some (PExecIn argv))"

lemma Remove_mutex:
  "Remove_pid u s pid = Inr s' \<Longrightarrow> bitmapMutex s' = bitmapMutex s \<and> control s' = control s"
  by (auto simp: Remove_pid_def rbind_eq_Inr)

lemma mutex_lost_step: "mutex_lost s \<Longrightarrow> pstep u s s' \<Longrightarrow> mutex_lost s'"
  by (erule pstep.cases)
     (auto simp: mutex_lost_def ExecV_enter_def return_def goto_def Join_enter_def Join_finish_def Exit_enter_def Exit_finish_def
       upd_pcb_def file_step_def rbind_eq_Inr split: if_splits dest: Remove_mutex)

text \<open>
  C28: \<^verbatim>\<open>ExecV\<close> on a full process table returns -1 without releasing \<^verbatim>\<open>bitmapMutex\<close>. When the caller was the only process
  behind the \<^verbatim>\<open>P\<close>, then from that state on, whatever happens, the mutex stays 0 and a process that calls \<^verbatim>\<open>ExecV\<close> never gets past its \<^verbatim>\<open>P\<close>.
\<close>
theorem ExecV_full_table_deadlock:
  assumes "bitmap_ok (pt_bitmap s)" and "used_slots (pt_bitmap s) = {0..<numBits (pt_bitmap s)}"
    and "control s p = Some (PExecIn argv)" and "bitmapMutex s = 0" and "\<forall>q a. control s q = Some (PExecIn a) \<longrightarrow> q = p"
  shows "\<exists>s'. ExecV_body u s p argv loads = Inr s' \<and> pt_ret s' p = -1 \<and>
    (\<forall>s''. rtranclp (pstep u) s' s'' \<longrightarrow> bitmapMutex s'' = 0 \<and> (\<forall>q a. control s'' q \<noteq> Some (PExecIn a)))"
proof -
  let ?s = "return s p (-1)"
  have e: "ExecV_body u s p argv loads = Inr ?s" using bm.find_full [OF assms(1,2)] by (simp add: ExecV_body_def)
  have l: "mutex_lost ?s" using assms(4,5) by (auto simp: mutex_lost_def return_def goto_def)
  have "mutex_lost s''" if "rtranclp (pstep u) ?s s''" for s''
    using that l by induction (auto intro: mutex_lost_step)
  then show ?thesis using e by (auto simp: mutex_lost_def return_def goto_def)
qed

section \<open>A concrete run\<close>

lemma pids_run:
  "new_Bitmap NumProcesses = Inr \<lparr>numBits = 10, numWords = 1, bm_map = [0]\<rparr>"
  "Mark \<lparr>numBits = 10, numWords = 1, bm_map = [0]\<rparr> 0 = Inr \<lparr>numBits = 10, numWords = 1, bm_map = [1]\<rparr>"
  "FindAndSet \<lparr>numBits = 10, numWords = 1, bm_map = [1]\<rparr> = Inr (1, \<lparr>numBits = 10, numWords = 1, bm_map = [3]\<rparr>)"
  by code_simp+

text \<open>Process 0 executes a program; the new process 1 exits with code 7; process 0 joins it.\<close>

lemma joined_run:
  "\<exists>s. reached fd_host ''main'' [2, 1, 0] s \<and> control s 0 = Some (PJoined 1) \<and> control s 1 = Some (PExitWait 7)"
proof -
  let ?u = fd_host
  obtain s0 where s0: "new_ProcessTable ''main'' [2 :: int, 1, 0] = Inr s0" "control s0 = [0 \<mapsto> PRun]" "\<not> halted s0" "bitmapMutex s0 = 1"
      "pt_bitmap s0 = \<lparr>numBits = 10, numWords = 1, bm_map = [1]\<rparr>" "next_stamp s0 = 1"
      "pt_table s0 = [0 \<mapsto> (new_PCB 0 (-1) 0)\<lparr>pcb_filename := Some ''main''\<rparr>]"
    by (simp add: new_ProcessTable_def pids_run setFileName_def new_PCB_def)
  then obtain pcb0 where pcb0: "pt_table s0 = [0 \<mapsto> pcb0]" "processID pcb0 = 0" by (simp add: new_PCB_def)
  define s1 where "s1 = goto s0 0 (PExecWait [''a''])"
  have 1: "pstep ?u s0 s1" using ps_exec [of s0 0 ?u "[''a'']"] s0 by (simp add: s1_def ExecV_enter_def)
  define s2 where "s2 = goto (s1\<lparr>bitmapMutex := 0\<rparr>) 0 (PExecIn [''a''])"
  have 2: "pstep ?u s1 s2" using ps_exec_P [of s1 0 "[''a'']" ?u] s0 by (simp add: s1_def s2_def goto_def)
  obtain s3 pcb1 where 3: "pstep ?u s2 s3" "control s3 = [0 \<mapsto> PRun, 1 \<mapsto> PRun]" "\<not> halted s3"
      "pt_table s3 = [0 \<mapsto> pcb0, 1 \<mapsto> pcb1]" "parentID pcb1 = 0" "joinSem pcb1 = 0"
    using ps_exec_body [of s2 0 "[''a'']" ?u True] s0 pcb0
    by (simp add: s1_def s2_def goto_def ExecV_body_def pids_run GetCurrentPCB_def IsValidPID_def pcb_at_def PCB_Execute_def
      setFileName_def new_PCB_def return_def Let_def nachos_consts fun_upd_twist)
  define s4 where "s4 = goto (s3\<lparr>pt_table := [0 \<mapsto> pcb0, 1 \<mapsto> pcb1\<lparr>exitCode := 7, joinSem := 1\<rparr>]\<rparr>) 1 (PExitWait 7)"
  have 4: "pstep ?u s3 s4" using ps_exit [of s3 1 7 s4 ?u] 3
    by (simp add: s4_def Exit_enter_def upd_pcb_def pcb_at_def)
  define s5 where "s5 = goto s4 0 (PJoinWait 1 (pcb_stamp pcb1))"
  have 5: "pstep ?u s4 s5" using ps_join [of s4 0 1 s5 ?u] 3 pcb0(2)
    by (simp add: s4_def s5_def goto_def Join_enter_def GetCurrentPCB_def IsValidPID_def pcb_at_def nachos_consts)
  have "\<exists>s6. pstep ?u s5 s6 \<and> control s6 0 = Some (PJoined 1) \<and> control s6 1 = Some (PExitWait 7)"
    using ps_join_P [of s5 0 1 "pcb_stamp pcb1" "pcb1\<lparr>exitCode := 7, joinSem := 1\<rparr>" ?u] 3
    by (intro exI conjI, assumption?) (auto simp: s4_def s5_def goto_def)
  then obtain s6 where 6: "pstep ?u s5 s6" "control s6 0 = Some (PJoined 1)" "control s6 1 = Some (PExitWait 7)" by blast
  have "rtranclp (pstep ?u) s0 s6"
    using 1 2 3(1) 4 5 6(1) by (meson converse_rtranclp_into_rtranclp rtranclp.rtrancl_refl)
  then show ?thesis using s0(1) 6 by (auto simp: reached_def)
qed


theorem Join_returns_exit_code_witness:
  "\<exists>s s'. reached fd_host ''main'' [2, 1, 0] s \<and> Join_finish s 0 1 = Inr s' \<and> pt_ret s' 0 = 7"
proof -
  obtain s where s: "reached fd_host ''main'' [2, 1, 0] s" "control s 0 = Some (PJoined 1)" "control s 1 = Some (PExitWait 7)"
    using joined_run by blast
  then show ?thesis using Join_returns_exit_code [OF s(1,2)] by fastforce
qed

definition full_table :: "(byte list \<times> nat) psys" where
  "full_table = \<lparr>pt_bitmap = \<lparr>numBits = 10, numWords = 1, bm_map = [1023]\<rparr>, bitmapMutex = 0, pt_table = Map.empty,
     control = [3 \<mapsto> PExecIn [''a'']], pt_ret = (\<lambda>_. 0), next_stamp = 1, halted = False, p_fs = new_FileSystem ([], 0)\<rparr>"

theorem ExecV_full_table_deadlock_witness:
  "\<exists>s'. ExecV_body one_file full_table 3 [''a''] True = Inr s' \<and> pt_ret s' 3 = -1 \<and>
    (\<forall>s''. rtranclp (pstep one_file) s' s'' \<longrightarrow> bitmapMutex s'' = 0 \<and> (\<forall>q a. control s'' q \<noteq> Some (PExecIn a)))"
proof (rule ExecV_full_table_deadlock)
  show "bitmap_ok (pt_bitmap full_table)" by (simp add: bitmap_ok_def full_table_def nachos_consts divRoundUp_def)
  have m: "(1023 :: 32 word) = mask 10" by (simp add: mask_eq_exp_minus_1)
  have "used_slots (pt_bitmap full_table) = {i. 0 \<le> i \<and> i < 10 \<and> bit (1023 :: 32 word) (nat (i mod 32))}"
    by (auto simp: used_slots_def full_table_def)
  also have "{i. 0 \<le> i \<and> i < 10 \<and> bit (1023 :: 32 word) (nat (i mod 32))} = {0..<10}"
    unfolding m by (auto simp: bit_mask_iff)
  finally show "used_slots (pt_bitmap full_table) = {0..<numBits (pt_bitmap full_table)}" by (simp add: full_table_def)
qed (auto simp: full_table_def split: if_splits)

end
