(* ===== verification/User_Memory.thy ===== *)
theory User_Memory
  imports Isolation
begin

text \<open>
  Copying between user memory and the kernel (\<^verbatim>\<open>userprog/utils.cc\<close>), byte by byte through \<^verbatim>\<open>ReadMem\<close> and
  \<^verbatim>\<open>WriteMem\<close> of the machine. An access that traps enters \<^verbatim>\<open>ExceptionHandler\<close>, which ends the process; the copying then does
  not go on, and the outcome is \<open>Trap\<close>.
\<close>

section \<open>The routines\<close>

definition abind :: "'a access result \<Rightarrow> ('a \<Rightarrow> machine \<Rightarrow> 'b access result) \<Rightarrow> 'b access result" where
  "abind r f = rbind r (\<lambda>x. case x of Trap e m \<Rightarrow> Inr (Trap e m) | Done a m \<Rightarrow> f a m)"

lemma abind_simps [simp]:
  "abind (Inr (Trap e m)) f = Inr (Trap e m)" "abind (Inr (Done a m)) f = f a m" "abind (Inl x) f = Inl x"
  by (simp_all add: abind_def)

text \<open>The loop of \<^verbatim>\<open>RawUser2System\<close>: \<open>n\<close> more bytes from the address on.\<close>

fun raw_in :: "nat \<Rightarrow> 32 word \<Rightarrow> machine \<Rightarrow> byte list access result" where
  "raw_in 0 virtAddr m = Inr (Done [] m)"
| "raw_in (Suc n) virtAddr m =
     abind (ReadMem m virtAddr 1) (\<lambda>tmp m1. abind (raw_in n (virtAddr + 1) m1) (\<lambda>bs m2. Inr (Done (ucast tmp # bs) m2)))"

definition RawUser2System :: "32 word \<Rightarrow> int \<Rightarrow> machine \<Rightarrow> byte list access result" where
  "RawUser2System virtAddr sz m = raw_in (nat sz) virtAddr m"

text \<open>
  \<^verbatim>\<open>StringUser2System\<close> with a limit: the C string in the buffer, which was filled with zero bytes before.
\<close>

fun string_in :: "nat \<Rightarrow> 32 word \<Rightarrow> machine \<Rightarrow> byte list access result" where
  "string_in 0 virtAddr m = Inr (Done [] m)"
| "string_in (Suc n) virtAddr m =
     abind (ReadMem m virtAddr 1) (\<lambda>tmp m1.
     if tmp = 0 then Inr (Done [] m1) else abind (string_in n (virtAddr + 1) m1) (\<lambda>bs m2. Inr (Done (ucast tmp # bs) m2)))"

definition StringUser2System_limit :: "32 word \<Rightarrow> int \<Rightarrow> machine \<Rightarrow> byte list access result" where
  "StringUser2System_limit virtAddr limit m = string_in (nat limit) virtAddr m"

text \<open>
  \<^verbatim>\<open>StringUser2System\<close> without a limit: a first loop finds the length with the final zero byte, a second one copies. The
  fuel bounds the first loop.
\<close>

fun string_size :: "nat \<Rightarrow> 32 word \<Rightarrow> machine \<Rightarrow> nat access result" where
  "string_size 0 virtAddr m = Inl Diverges"
| "string_size (Suc n) virtAddr m =
     abind (ReadMem m virtAddr 1) (\<lambda>tmp m1.
     if tmp \<noteq> 0 then abind (string_size n (virtAddr + 1) m1) (\<lambda>len m2. Inr (Done (Suc len) m2)) else Inr (Done 1 m1))"

definition StringUser2System :: "nat \<Rightarrow> 32 word \<Rightarrow> machine \<Rightarrow> byte list access result" where
  "StringUser2System fuel virtAddr m = abind (string_size fuel virtAddr m) (\<lambda>len m1. raw_in len virtAddr m1)"

fun raw_out :: "byte list \<Rightarrow> 32 word \<Rightarrow> machine \<Rightarrow> unit access result" where
  "raw_out [] virtAddr m = Inr (Done () m)"
| "raw_out (b # bs) virtAddr m = abind (WriteMem m virtAddr 1 (scast b)) (\<lambda>_ m1. raw_out bs (virtAddr + 1) m1)"

definition RawSystem2User :: "32 word \<Rightarrow> int \<Rightarrow> byte list \<Rightarrow> machine \<Rightarrow> unit access result" where
  "RawSystem2User virtAddr sz buffer m =
     (if int (length buffer) < sz then Inl OutOfBounds else raw_out (take (nat sz) buffer) virtAddr m)"

definition advancePC :: "machine \<Rightarrow> machine result" where
  "advancePC m =
     rbind (ReadRegister m (int NextPCReg)) (\<lambda>pcAfter.
     rbind (ReadRegister m (int PCReg)) (\<lambda>pc.
     rbind (WriteRegister m (int PrevPCReg) pc) (\<lambda>m1.
     rbind (WriteRegister m1 (int PCReg) pcAfter) (\<lambda>m2. WriteRegister m2 (int NextPCReg) (pcAfter + 4)))))"

definition setReturnCodeAndAdvancePC :: "32 word \<Rightarrow> machine \<Rightarrow> machine result" where
  "setReturnCodeAndAdvancePC returnCode m = rbind (WriteRegister m 2 returnCode) advancePC"

section \<open>The memory of the running program\<close>

definition mframes :: "machine \<Rightarrow> nat list" where
  "mframes m = map (\<lambda>e. unat (physicalPage e)) (entries m)"

text \<open>A machine on which a program with valid, writable pages of its own runs.\<close>

definition user_ok :: "machine \<Rightarrow> bool" where
  "user_ok m \<longleftrightarrow> cpu_ok m \<and> m_tlb m = None \<and> distinct (mframes m) \<and> set (mframes m) \<subseteq> {..<128} \<and>
     (\<forall>e \<in> set (entries m). valid e \<and> \<not> readOnly e)"

definition user_mem :: "machine \<Rightarrow> byte list" where
  "user_mem m = view 128 (mainMemory m) (mframes m)"

text \<open>The state after an access: the same mapping and registers.\<close>

definition accessed :: "machine \<Rightarrow> machine \<Rightarrow> bool" where
  "accessed m m' \<longleftrightarrow> user_ok m' \<and> mframes m' = mframes m \<and> registers m' = registers m \<and> pageTableSize m' = pageTableSize m"

lemma mframes_memory [simp]: "mframes (m\<lparr>mainMemory := mem\<rparr>) = mframes m"
  by (simp add: mframes_def)

lemma accessed_refl: "user_ok m \<Longrightarrow> accessed m m"
  by (simp add: accessed_def)

lemma accessed_trans: "accessed a b \<Longrightarrow> accessed b c \<Longrightarrow> accessed a c"
  by (simp add: accessed_def)

lemma user_ok_restored:
  assumes "space_ok as" "pageTable as \<noteq> None" "regs_ok m"
  shows "user_ok (RestoreState as m)" "mframes (RestoreState as m) = frames as"
proof -
  obtain pt where pt: "pageTable as = Some pt" using assms(2) by blast
  have e: "entries (RestoreState as m) = pt" using assms(3) pt by (simp add: entries_def RestoreState_def regs_ok_def)
  then show f: "mframes (RestoreState as m) = frames as" using pt by (simp add: mframes_def frames_def)
  show "user_ok (RestoreState as m)"
    using restored_machine_ok [OF assms(3,1,2)] assms(1,3) pt e f
    by (auto simp: user_ok_def machine_ok_def space_ok_def regs_ok_def RestoreState_def)
qed

lemma user_ok_size:
  assumes "user_ok m"
  shows "length (mframes m) = unat (pageTableSize m)" "length (mframes m) \<le> 128" "length (mainMemory m) = 16384"
    "blocks_ok 128 (mainMemory m) (mframes m)"
proof -
  show "length (mframes m) = unat (pageTableSize m)"
    using assms by (auto simp: user_ok_def cpu_ok_def map_ok_def mframes_def entries_def split: option.splits)
  have "length (mframes m) = card (set (mframes m))" using assms by (simp add: user_ok_def distinct_card)
  also have "\<dots> \<le> card {..<128::nat}" using assms by (intro card_mono) (auto simp: user_ok_def)
  finally show "length (mframes m) \<le> 128" by simp
  show m: "length (mainMemory m) = 16384" using assms by (simp add: user_ok_def cpu_ok_def nachos_consts)
  have "f < 128" if "f \<in> set (mframes m)" for f using that assms by (auto simp: user_ok_def)
  then show "blocks_ok 128 (mainMemory m) (mframes m)" using assms m by (fastforce simp: blocks_ok_def user_ok_def)
qed

lemma user_hit:
  assumes ok: "user_ok m" and a: "a < length (user_mem m)"
  shows "hit m (word_of_nat a) 1 w (a div 128)" "phys m (word_of_nat a) (a div 128) = int (mframes m ! (a div 128) * 128 + a mod 128)"
    "a div 128 < length (entries m)"
proof -
  have l: "length (entries m) = length (mframes m)" by (simp add: mframes_def)
  have i: "a div 128 < length (mframes m)" using a by (simp add: user_mem_def less_mult_imp_div_less)
  then show ie: "a div 128 < length (entries m)" using l by simp
  have "a < 2 ^ 32" using a user_ok_size(2) [OF ok] by (simp add: user_mem_def)
  then have d: "(word_of_nat a :: 32 word) div word_of_int PageSize = word_of_nat (a div 128)" "uint (word_of_nat a :: 32 word) = int a"
    using word_of_nat_div [of a 128] uint_of_nat_small [of a] by (simp_all add: PageSize_def)
  have "a div 128 < 2 ^ 32" using i user_ok_size(2) [OF ok] by simp
  then have u: "unat (word_of_nat (a div 128) :: 32 word) = a div 128" by (rule unat_of_nat_small)
  let ?e = "entries m ! (a div 128)"
  have e: "valid ?e" "\<not> readOnly ?e" using ok ie by (auto simp: user_ok_def)
  have f: "unat (physicalPage ?e) = mframes m ! (a div 128)" using ie by (simp add: mframes_def)
  have "mframes m ! (a div 128) \<in> set (mframes m)" using i by simp
  then have "unat (physicalPage ?e) < 128" unfolding f using ok by (auto simp: user_ok_def)
  then have p: "uint (physicalPage ?e) < 128" by (metis of_nat_less_iff of_nat_numeral of_nat_unat)
  have "lookup m ((word_of_nat a :: 32 word) div word_of_int PageSize) = Inr (a div 128)"
    using ok i e u user_ok_size(1) [OF ok] unfolding d by (simp add: lookup_def user_ok_def word_le_nat_alt)
  then show "hit m (word_of_nat a) 1 w (a div 128)" using e p by (simp add: hit_def misaligned_def)
  have "uint (physicalPage ?e) = int (mframes m ! (a div 128))" unfolding f [symmetric] by simp
  then show "phys m (word_of_nat a) (a div 128) = int (mframes m ! (a div 128) * 128 + a mod 128)"
    unfolding phys_def d(2) by (simp add: zmod_int)
qed

lemma accessed_touched:
  assumes ok: "user_ok m" and i: "i < length (entries m)"
  shows "accessed m (touched m i w)"
proof -
  have mo: "map_ok m" using ok by (simp add: user_ok_def cpu_ok_def)
  note e = entries_touched [OF mo, of i w]
  have f: "mframes (touched m i w) = mframes m" unfolding mframes_def e
    by (rule nth_equalityI) (use i in \<open>auto simp: nth_list_update\<close>)
  have "m_tlb (touched m i w) = None" using ok by (simp add: touched_def set_entries_def user_ok_def)
  moreover have "valid x \<and> \<not> readOnly x" if "x \<in> set (entries (touched m i w))" for x
    using that ok i set_update_subset_insert [of "entries m" i] unfolding e user_ok_def by fastforce
  ultimately show ?thesis using ok f by (auto simp: accessed_def user_ok_def)
qed

lemma ReadMem_user:
  assumes ok: "user_ok m" and a: "a < length (user_mem m)"
  shows "\<exists>m'. ReadMem m (word_of_nat a) 1 = Inr (Done (scast (user_mem m ! a)) m') \<and> accessed m m' \<and> mainMemory m' = mainMemory m"
proof -
  note h = user_hit [OF ok a]
  have c: "cpu_ok m" "(1 :: int) \<in> {1, 2, 4}" using ok by (simp_all add: user_ok_def)
  have "user_mem m ! a = mainMemory m ! (mframes m ! (a div 128) * 128 + a mod 128)" using a by (simp add: user_mem_def nth_view)
  then have "load_value (mainMemory m) (phys m (word_of_nat a) (a div 128)) 1 = scast (user_mem m ! a)"
    unfolding h(2) load_value_def by (simp only: nat_int if_True simp_thms)
  then show ?thesis using ReadMem_hit [OF c h(1)] accessed_touched [OF ok h(3), of False] by auto
qed

lemma WriteMem_user:
  assumes ok: "user_ok m" and a: "a < length (user_mem m)"
  shows "\<exists>m'. WriteMem m (word_of_nat a) 1 (scast b) = Inr (Done () m') \<and> accessed m m' \<and>
    stored 128 (mframes m) (mainMemory m) (mainMemory m') a [b]"
proof -
  note h = user_hit [OF ok a]
  have c: "cpu_ok m" "(1 :: int) \<in> {1, 2, 4}" using ok by (simp_all add: user_ok_def)
  have "ucast (scast b AND 0xff :: 32 word) = b"
    by (rule bit_word_eqI) (simp only: bit_unsigned_iff bit_signed_iff bit_and_iff bit_low_mask, auto dest: bit_imp_le_length)
  then have s: "store_image 1 (scast b) = [b]" by (simp add: store_image_def)
  let ?p = "mframes m ! (a div 128) * 128 + a mod 128"
  let ?m = "(touched m (a div 128) True)\<lparr>mainMemory := patch (mainMemory m) ?p [b]\<rparr>"
  have w: "WriteMem m (word_of_nat a) 1 (scast b) = Inr (Done () ?m)"
    using WriteMem_hit [OF c h(1), of "scast b"] unfolding h(2) s nat_int .
  have i: "a div 128 < length (mframes m)" using h(3) by (simp add: mframes_def)
  have "a mod 128 + length [b] \<le> 128" using mod_less_divisor [of 128 a] by simp
  then have st: "stored 128 (mframes m) (mainMemory m) (patch (mainMemory m) ?p [b]) a [b]"
    by (rule stored_block [OF user_ok_size(4) [OF ok] i])
  then have "length (patch (mainMemory m) ?p [b]) = length (mainMemory (touched m (a div 128) True))" by (simp add: stored_def)
  then have "accessed m ?m" using accessed_touched [OF ok h(3), of True] ok
    by (simp add: accessed_def user_ok_def)
  then show ?thesis using w st by auto
qed

lemma access_outside:
  assumes ok: "user_ok m" and a: "length (user_mem m) \<le> unat v"
  shows "\<exists>m'. ReadMem m v 1 = Inr (Trap AddressErrorException m')" "\<exists>m'. WriteMem m v 1 x = Inr (Trap AddressErrorException m')"
proof -
  have "unat (pageTableSize m) * 128 \<le> unat v" using a user_ok_size(1) [OF ok] by (simp add: user_mem_def)
  then have "unat (pageTableSize m) \<le> unat (v div word_of_int PageSize)" by (simp add: PageSize_def unat_div)
  then have "lookup m (v div word_of_int PageSize) = Inl AddressErrorException"
    using ok by (simp add: lookup_def user_ok_def word_le_nat_alt)
  moreover have "map_ok m" "cpu_ok m" using ok by (simp_all add: user_ok_def cpu_ok_def)
  ultimately have "Translate m v 1 w = Inr (Inl AddressErrorException)" for w by (simp add: Translate_lookup misaligned_def)
  then show "\<exists>m'. ReadMem m v 1 = Inr (Trap AddressErrorException m')" "\<exists>m'. WriteMem m v 1 x = Inr (Trap AddressErrorException m')"
    using raise_ok [OF \<open>cpu_ok m\<close>, of AddressErrorException v] by (auto simp: ReadMem_def WriteMem_def)
qed

section \<open>Strings and buffers\<close>

lemma accessed_mem: "accessed m m' \<Longrightarrow> mainMemory m' = mainMemory m \<Longrightarrow> user_mem m' = user_mem m"
  by (simp add: accessed_def user_mem_def)

lemma next_address: "word_of_nat a + (1 :: 32 word) = word_of_nat (Suc a)"
  by simp

lemma ucast_scast_byte: "ucast (scast b :: 32 word) = (b :: byte)"
  by (rule bit_word_eqI) (auto simp: bit_simps)

lemma scast_byte_0: "(scast b :: 32 word) = 0 \<longleftrightarrow> (b :: byte) = 0"
  using ucast_scast_byte [of b] by auto

lemma raw_in_user:
  "user_ok m \<Longrightarrow> a + n \<le> length (user_mem m) \<Longrightarrow>
   \<exists>m'. raw_in n (word_of_nat a) m = Inr (Done (take n (drop a (user_mem m))) m') \<and> accessed m m' \<and> mainMemory m' = mainMemory m"
proof (induction n arbitrary: a m)
  case 0
  then show ?case by (auto simp: accessed_refl)
next
  case (Suc n)
  then have a: "a < length (user_mem m)" by simp
  obtain m1 where r: "ReadMem m (word_of_nat a) 1 = Inr (Done (scast (user_mem m ! a)) m1)" "accessed m m1" "mainMemory m1 = mainMemory m"
    using ReadMem_user [OF Suc.prems(1) a] by blast
  have m1: "user_ok m1" "user_mem m1 = user_mem m" using r accessed_mem by (simp_all add: accessed_def)
  obtain m2 where s: "raw_in n (word_of_nat (Suc a)) m1 = Inr (Done (take n (drop (Suc a) (user_mem m))) m2)" "accessed m1 m2"
      "mainMemory m2 = mainMemory m1"
    using Suc.IH [OF m1(1), of "Suc a"] Suc.prems(2) m1(2) by auto
  have "take (Suc n) (drop a (user_mem m)) = user_mem m ! a # take n (drop (Suc a) (user_mem m))"
    using a by (simp add: Cons_nth_drop_Suc [symmetric])
  then show ?case using r s accessed_trans [OF r(2) s(2)] unfolding raw_in.simps next_address by (simp add: ucast_scast_byte)
qed

lemma raw_out_user:
  "user_ok m \<Longrightarrow> a + length bs \<le> length (user_mem m) \<Longrightarrow>
   \<exists>m'. raw_out bs (word_of_nat a) m = Inr (Done () m') \<and> accessed m m' \<and> stored 128 (mframes m) (mainMemory m) (mainMemory m') a bs"
proof (induction bs arbitrary: a m)
  case Nil
  then show ?case by (auto simp: accessed_refl stored_Nil)
next
  case (Cons b bs)
  then have a: "a < length (user_mem m)" by simp
  obtain m1 where r: "WriteMem m (word_of_nat a) 1 (scast b) = Inr (Done () m1)" "accessed m m1"
      "stored 128 (mframes m) (mainMemory m) (mainMemory m1) a [b]"
    using WriteMem_user [OF Cons.prems(1) a] by blast
  have m1: "user_ok m1" "mframes m1 = mframes m" using r(2) by (simp_all add: accessed_def)
  obtain m2 where s: "raw_out bs (word_of_nat (Suc a)) m1 = Inr (Done () m2)" "accessed m1 m2"
      "stored 128 (mframes m) (mainMemory m1) (mainMemory m2) (Suc a) bs"
    using Cons.IH [OF m1(1), of "Suc a"] Cons.prems(2) m1(2) by (auto simp: user_mem_def)
  have "stored 128 (mframes m) (mainMemory m) (mainMemory m2) a ([b] @ bs)"
    by (rule stored_append [OF r(3) s(3)]) (use Cons.prems(2) in \<open>auto simp: user_mem_def\<close>)
  then show ?case using r s accessed_trans [OF r(2) s(2)] unfolding raw_out.simps next_address by simp
qed

text \<open>The scan for the end of a string: it stops at the first zero byte, or traps behind the last page.\<close>

lemma string_size_user:
  "user_ok m \<Longrightarrow> length (user_mem m) - a < fuel \<Longrightarrow> a < 2 ^ 32 \<Longrightarrow>
   case find (\<lambda>i. user_mem m ! i = 0) [a..<length (user_mem m)] of
     None \<Rightarrow> \<exists>m'. string_size fuel (word_of_nat a) m = Inr (Trap AddressErrorException m')
   | Some i \<Rightarrow> \<exists>m'. string_size fuel (word_of_nat a) m = Inr (Done (Suc i - a) m') \<and> accessed m m' \<and> mainMemory m' = mainMemory m"
proof (induction fuel arbitrary: a m)
  case (Suc fuel)
  show ?case
  proof (cases "a < length (user_mem m)")
    case True
    obtain m1 where r: "ReadMem m (word_of_nat a) 1 = Inr (Done (scast (user_mem m ! a)) m1)" "accessed m m1" "mainMemory m1 = mainMemory m"
      using ReadMem_user [OF Suc.prems(1) True] by blast
    have m1: "user_ok m1" "user_mem m1 = user_mem m" using r accessed_mem by (simp_all add: accessed_def)
    have u: "[a..<length (user_mem m)] = a # [Suc a..<length (user_mem m)]" using True by (simp add: upt_conv_Cons)
    have l: "Suc a < 2 ^ 32" using True user_ok_size(2) [OF Suc.prems(1)] by (simp add: user_mem_def)
    have fu: "length (user_mem m1) - Suc a < fuel" using Suc.prems(2) True m1(2) by simp
    note IH = Suc.IH [OF m1(1) fu l, unfolded m1(2)]
    show ?thesis
    proof (cases "user_mem m ! a = 0")
      case True
      then show ?thesis using r u by (simp add: scast_byte_0)
    next
      case False
      have st: "string_size (Suc fuel) (word_of_nat a) m =
          abind (string_size fuel (word_of_nat (Suc a)) m1) (\<lambda>len m2. Inr (Done (Suc len) m2))"
        using r(1) False unfolding string_size.simps next_address by (simp add: scast_byte_0)
      show ?thesis
      proof (cases "find (\<lambda>i. user_mem m ! i = 0) [Suc a..<length (user_mem m)]")
        case None
        then obtain m' where "string_size fuel (word_of_nat (Suc a)) m1 = Inr (Trap AddressErrorException m')" using IH by auto
        then show ?thesis unfolding st u using None False by simp
      next
        case (Some i)
        then have "Suc a \<le> i" by (auto simp: find_Some_iff)
        moreover obtain m' where "string_size fuel (word_of_nat (Suc a)) m1 = Inr (Done (Suc i - Suc a) m')" "accessed m1 m'" "mainMemory m' = mainMemory m1"
          using IH Some by auto
        ultimately show ?thesis unfolding st u using Some False r(3) accessed_trans [OF r(2)] by (simp add: Suc_diff_le)
      qed
    qed
  next
    case False
    then have "length (user_mem m) \<le> unat (word_of_nat a :: 32 word)" using unat_of_nat_small [OF Suc.prems(3)] by simp
    then obtain m' where "ReadMem m (word_of_nat a) 1 = Inr (Trap AddressErrorException m')" using access_outside(1) [OF Suc.prems(1)] by blast
    then show ?thesis using False by simp
  qed
qed simp

section \<open>Properties\<close>

lemma word_address: "word_of_nat (unat v) = (v :: 32 word)"
  by simp

text \<open>
  C31: \<^verbatim>\<open>StringUser2System\<close> always ends, although its loop has no bound: for every virtual address and every program, it either
  returns the bytes of the user's memory from that address up to and including the first zero byte, or, when there is none, the
  scan reaches the end of the address space and traps with an address error. Fuel for the 16384 bytes of memory is enough.
\<close>
theorem StringUser2System_reads_string:
  assumes "user_ok m"
  shows "case find (\<lambda>i. user_mem m ! i = 0) [unat v..<length (user_mem m)] of
      None \<Rightarrow> \<exists>m'. StringUser2System 16385 v m = Inr (Trap AddressErrorException m')
    | Some i \<Rightarrow> \<exists>m'. StringUser2System 16385 v m = Inr (Done (take (Suc i - unat v) (drop (unat v) (user_mem m))) m') \<and>
        accessed m m' \<and> mainMemory m' = mainMemory m"
proof -
  have l: "length (user_mem m) \<le> 16384" using user_ok_size(2) [OF assms] by (simp add: user_mem_def)
  then have f: "length (user_mem m) - unat v < 16385" by simp
  have b: "unat v < 2 ^ 32" using unsigned_less [of v] by simp
  note s = string_size_user [OF assms f b, unfolded word_address]
  show ?thesis
  proof (cases "find (\<lambda>i. user_mem m ! i = 0) [unat v..<length (user_mem m)]")
    case None
    then show ?thesis using s by (auto simp: StringUser2System_def)
  next
    case (Some i)
    then have i: "unat v \<le> i" "i < length (user_mem m)" using find_Some_iff [of "\<lambda>i. user_mem m ! i = 0" "[unat v..<length (user_mem m)]" i] by auto
    obtain m1 where r: "string_size 16385 v m = Inr (Done (Suc i - unat v) m1)" "accessed m m1" "mainMemory m1 = mainMemory m"
      using s Some by auto
    have m1: "user_ok m1" "user_mem m1 = user_mem m" using r accessed_mem by (simp_all add: accessed_def)
    have le: "unat v + (Suc i - unat v) \<le> length (user_mem m1)" using i m1(2) by simp
    obtain m2 where "raw_in (Suc i - unat v) v m1 = Inr (Done (take (Suc i - unat v) (drop (unat v) (user_mem m))) m2)" "accessed m1 m2"
        "mainMemory m2 = mainMemory m1"
      using raw_in_user [OF m1(1) le, unfolded word_address m1(2)] by blast
    then show ?thesis using Some r accessed_trans [OF r(2)] by (simp add: StringUser2System_def)
  qed
qed

definition demo_user :: machine where
  "demo_user = RestoreState demo_space (a_machine demo_kernel)"

lemma demo_user_ok: "user_ok demo_user" "length (user_mem demo_user) = 256"
proof -
  have "regs_ok (a_machine demo_kernel)" using demo_system_ok by (simp add: no_programs_def demo_system_def)
  moreover have "pageTable demo_space \<noteq> None" by (simp add: demo_space_def)
  ultimately show "user_ok demo_user" "length (user_mem demo_user) = 256"
    using user_ok_restored [OF demo_space_ok] by (simp_all add: demo_user_def user_mem_def frames_def demo_space_def)
qed

theorem StringUser2System_reads_string_witness:
  "\<exists>m'. StringUser2System 16385 300 demo_user = Inr (Trap AddressErrorException m')"
  using StringUser2System_reads_string [OF demo_user_ok(1), of 300] demo_user_ok(2) by simp

text \<open>
  C32: what \<^verbatim>\<open>RawSystem2User\<close> copies to a buffer inside the address space, \<^verbatim>\<open>RawUser2System\<close> copies back, also across page boundaries
  and whatever frames the pages have. The rest of the program's memory, all memory outside its frames, and the
  registers stay the same.
\<close>
theorem user_copy_roundtrip:
  assumes "user_ok m" and "unat v + length bs \<le> length (user_mem m)"
  shows "\<exists>m1 m2. RawSystem2User v (int (length bs)) bs m = Inr (Done () m1) \<and>
    RawUser2System v (int (length bs)) m1 = Inr (Done bs m2) \<and> user_mem m2 = patch (user_mem m) (unat v) bs \<and>
    registers m2 = registers m \<and> (\<forall>k < length (mainMemory m). k div 128 \<notin> set (mframes m) \<longrightarrow> mainMemory m2 ! k = mainMemory m ! k)"
proof -
  obtain m1 where w: "raw_out bs v m = Inr (Done () m1)" "accessed m m1" "stored 128 (mframes m) (mainMemory m) (mainMemory m1) (unat v) bs"
    using raw_out_user [OF assms, unfolded word_address] by blast
  have m1: "user_ok m1" "user_mem m1 = patch (user_mem m) (unat v) bs"
    using w(2,3) by (simp_all add: accessed_def user_mem_def stored_def)
  have le: "unat v + length bs \<le> length (user_mem m1)" using m1(2) assms(2) by (simp add: length_patch)
  obtain m2 where r: "raw_in (length bs) v m1 = Inr (Done (take (length bs) (drop (unat v) (user_mem m1))) m2)" "accessed m1 m2"
      "mainMemory m2 = mainMemory m1"
    using raw_in_user [OF m1(1) le, unfolded word_address] by blast
  have "user_mem m2 = user_mem m1" using accessed_mem [OF r(2,3)] .
  then show ?thesis using w r m1(2) take_drop_patch [OF assms(2)]
    by (auto simp: RawSystem2User_def RawUser2System_def accessed_def stored_def)
qed

theorem user_copy_roundtrip_witness:
  "\<exists>m1 m2. RawSystem2User 126 4 [1, 2, 3, 4] demo_user = Inr (Done () m1) \<and> RawUser2System 126 4 m1 = Inr (Done [1, 2, 3, 4] m2)"
  using user_copy_roundtrip [OF demo_user_ok(1), of 126 "[1, 2, 3, 4]"] demo_user_ok(2) by auto

end
