(* ===== verification/Semaphore_Table.thy ===== *)
theory Semaphore_Table
  imports Kernel_Threads Bitmap
begin

text \<open>
  The named semaphores of user programs (\<^verbatim>\<open>threads/stable.cc\<close>): a bitmap of slots and an array of pointers to named
  semaphores. A semaphore is a kernel semaphore \<open>SUser n\<close> of \<open>Kernel_Threads\<close>; \<^verbatim>\<open>Wait\<close> and \<^verbatim>\<open>Signal\<close> give the operation that the
  calling thread performs on it. The table refines a finite map from names to semaphores.
\<close>

record SemaphoreTable =
  st_size :: int
  st_bitmap :: bitmap
  st_table :: "(string \<times> nat) option list"
  st_next :: nat

definition new_SemaphoreTable :: "int \<Rightarrow> nat \<Rightarrow> SemaphoreTable result" where
  "new_SemaphoreTable n k =
     rbind (new_Bitmap n) (\<lambda>bm. Inr \<lparr>st_size = n, st_bitmap = bm, st_table = replicate (nat n) None, st_next = k\<rparr>)"

text \<open>The loop of \<^verbatim>\<open>FindSlotByName\<close>; a slot that is in use without a semaphore would be a \<^verbatim>\<open>NULL\<close> dereference.\<close>

fun find_name :: "SemaphoreTable \<Rightarrow> string \<Rightarrow> int list \<Rightarrow> int result" where
  "find_name st name [] = Inr (-1)"
| "find_name st name (i # iss) =
     rbind (Test (st_bitmap st) i) (\<lambda>t.
     if \<not> t then find_name st name iss
     else rbind (aread (st_table st) i) (\<lambda>e. case e of
       None \<Rightarrow> Inl NullPointer
     | Some (nm, n) \<Rightarrow> if name = nm then Inr i else find_name st name iss))"

definition FindSlotByName :: "SemaphoreTable \<Rightarrow> string \<Rightarrow> int result" where
  "FindSlotByName st name = find_name st name (upto_int (st_size st))"

definition SemTable_Create :: "SemaphoreTable \<Rightarrow> (semid \<Rightarrow> Semaphore) \<Rightarrow> string \<Rightarrow> int \<Rightarrow>
    (int \<times> SemaphoreTable \<times> (semid \<Rightarrow> Semaphore)) result" where
  "SemTable_Create st sm name initialValue =
     rbind (FindSlotByName st name) (\<lambda>slot.
     if slot \<noteq> -1 then Inr (-1, st, sm)
     else rbind (FindAndSet (st_bitmap st)) (\<lambda>(slot, bm).
       if slot = -1 then Inr (-1, st, sm)
       else rbind (awrite (st_table st) slot (Some (name, st_next st))) (\<lambda>tab.
         Inr (0, st\<lparr>st_bitmap := bm, st_table := tab, st_next := Suc (st_next st)\<rparr>,
           sm(SUser (st_next st) := \<lparr>sem_value = initialValue, sem_queue = []\<rparr>)))))"

definition on_semaphore :: "SemaphoreTable \<Rightarrow> string \<Rightarrow> (semid \<Rightarrow> op) \<Rightarrow> (int \<times> op list) result" where
  "on_semaphore st name f =
     rbind (FindSlotByName st name) (\<lambda>slot.
     if slot = -1 then Inr (-1, [])
     else rbind (aread (st_table st) slot) (\<lambda>e. case e of
       None \<Rightarrow> Inl NullPointer | Some (nm, n) \<Rightarrow> Inr (0, [f (SUser n)])))"

definition SemTable_Wait :: "SemaphoreTable \<Rightarrow> string \<Rightarrow> (int \<times> op list) result" where
  "SemTable_Wait st name = on_semaphore st name OpP"

definition SemTable_Signal :: "SemaphoreTable \<Rightarrow> string \<Rightarrow> (int \<times> op list) result" where
  "SemTable_Signal st name = on_semaphore st name OpV"

section \<open>Invariant and abstraction\<close>

definition stable_ok :: "SemaphoreTable \<Rightarrow> bool" where
  "stable_ok st \<longleftrightarrow> bitmap_ok (st_bitmap st) \<and> numBits (st_bitmap st) = st_size st \<and> int (length (st_table st)) = st_size st \<and>
     (\<forall>i < length (st_table st). int i \<in> used_slots (st_bitmap st) \<longleftrightarrow> st_table st ! i \<noteq> None) \<and>
     (\<forall>i j a b. i < length (st_table st) \<longrightarrow> j < length (st_table st) \<longrightarrow> st_table st ! i = Some a \<longrightarrow> st_table st ! j = Some b \<longrightarrow>
        fst a = fst b \<or> snd a = snd b \<longrightarrow> i = j) \<and>
     (\<forall>i a. i < length (st_table st) \<longrightarrow> st_table st ! i = Some a \<longrightarrow> snd a < st_next st)"

definition has_semaphore :: "SemaphoreTable \<Rightarrow> string \<Rightarrow> nat \<Rightarrow> bool" where
  "has_semaphore st name n \<longleftrightarrow> Some (name, n) \<in> set (st_table st)"

lemma has_semaphore_nth: "has_semaphore st name n \<longleftrightarrow> (\<exists>i < length (st_table st). st_table st ! i = Some (name, n))"
  by (auto simp: has_semaphore_def in_set_conv_nth)

lemma stable_okD:
  assumes "stable_ok st"
  shows "bitmap_ok (st_bitmap st)" "numBits (st_bitmap st) = st_size st" "int (length (st_table st)) = st_size st"
    "i < length (st_table st) \<Longrightarrow> int i \<in> used_slots (st_bitmap st) \<longleftrightarrow> st_table st ! i \<noteq> None"
    "i < length (st_table st) \<Longrightarrow> j < length (st_table st) \<Longrightarrow> st_table st ! i = Some a \<Longrightarrow> st_table st ! j = Some b \<Longrightarrow>
      fst a = fst b \<or> snd a = snd b \<Longrightarrow> i = j"
    "i < length (st_table st) \<Longrightarrow> st_table st ! i = Some a \<Longrightarrow> snd a < st_next st"
  using assms unfolding stable_ok_def by blast+

lemma find_name_ok:
  assumes s: "stable_ok st" and sub: "set iss \<subseteq> {0..<st_size st}"
  shows "(\<exists>i \<in> set iss. \<exists>n. find_name st name iss = Inr i \<and> st_table st ! nat i = Some (name, n)) \<or>
    find_name st name iss = Inr (-1) \<and> (\<forall>i \<in> set iss. \<forall>n. st_table st ! nat i \<noteq> Some (name, n))"
  using sub
proof (induction iss)
  case Nil
  then show ?case by simp
next
  case (Cons i iss)
  have r: "0 \<le> i" "i < st_size st" and ss: "set iss \<subseteq> {0..<st_size st}" using Cons.prems by auto
  have t: "Test (st_bitmap st) i = Inr (i \<in> used_slots (st_bitmap st))"
    using bm.test_law [OF stable_okD(1) [OF s], of i] r stable_okD(2) [OF s] by simp
  have l: "nat i < length (st_table st)" using r stable_okD(3) [OF s] by simp
  have e: "i \<in> used_slots (st_bitmap st) \<longleftrightarrow> st_table st ! nat i \<noteq> None" using stable_okD(4) [OF s l] r by simp
  show ?case
  proof (cases "st_table st ! nat i")
    case None
    then show ?thesis using Cons.IH [OF ss] t e by auto
  next
    case (Some a)
    obtain nm n where a: "a = (nm, n)" by (cases a)
    have "find_name st name (i # iss) = (if name = nm then Inr i else find_name st name iss)"
      using t e r l Some a by simp
    then show ?thesis using Cons.IH [OF ss] Some a by (cases "name = nm") auto
  qed
qed

lemma FindSlotByName_ok:
  assumes s: "stable_ok st"
  shows "(\<exists>i n. FindSlotByName st name = Inr (int i) \<and> i < length (st_table st) \<and> st_table st ! i = Some (name, n)) \<or>
    FindSlotByName st name = Inr (-1) \<and> (\<forall>n. \<not> has_semaphore st name n)"
proof -
  have "(\<exists>i \<in> set (upto_int (st_size st)). \<exists>n. find_name st name (upto_int (st_size st)) = Inr i \<and> st_table st ! nat i = Some (name, n)) \<or>
    find_name st name (upto_int (st_size st)) = Inr (-1) \<and> (\<forall>i \<in> set (upto_int (st_size st)). \<forall>n. st_table st ! nat i \<noteq> Some (name, n))"
    by (rule find_name_ok [OF s]) simp
  then show ?thesis
  proof (elim disjE bexE exE conjE)
    fix i n
    assume a: "i \<in> set (upto_int (st_size st))" "find_name st name (upto_int (st_size st)) = Inr i" "st_table st ! nat i = Some (name, n)"
    then have "0 \<le> i" "nat i < length (st_table st)" using stable_okD(3) [OF s] by auto
    then show ?thesis using a by (intro disjI1 exI [of _ "nat i"] exI [of _ n]) (simp add: FindSlotByName_def)
  next
    assume a: "find_name st name (upto_int (st_size st)) = Inr (-1)" "\<forall>i \<in> set (upto_int (st_size st)). \<forall>n. st_table st ! nat i \<noteq> Some (name, n)"
    have "\<not> has_semaphore st name n" for n
    proof
      assume "has_semaphore st name n"
      then obtain i where "i < length (st_table st)" "st_table st ! i = Some (name, n)" by (auto simp: has_semaphore_nth)
      then show False using a(2) stable_okD(3) [OF s] by (auto dest!: bspec [of _ _ "int i"])
    qed
    then show ?thesis using a(1) by (simp add: FindSlotByName_def)
  qed
qed

lemma stable_full: "stable_ok st \<Longrightarrow> used_slots (st_bitmap st) = {0..<numBits (st_bitmap st)} \<longleftrightarrow> None \<notin> set (st_table st)"
proof -
  assume s: "stable_ok st"
  have "used_slots (st_bitmap st) = {0..<numBits (st_bitmap st)} \<longleftrightarrow> (\<forall>i < length (st_table st). int i \<in> used_slots (st_bitmap st))"
  proof
    assume f: "\<forall>i < length (st_table st). int i \<in> used_slots (st_bitmap st)"
    have "x \<in> used_slots (st_bitmap st)" if "0 \<le> x" "x < numBits (st_bitmap st)" for x
      using f [rule_format, of "nat x"] that stable_okD(2,3) [OF s] by simp
    then show "used_slots (st_bitmap st) = {0..<numBits (st_bitmap st)}" using used_slots_range [of "st_bitmap st"] by auto
  qed (use stable_okD(2,3) [OF s] in auto)
  then show ?thesis using stable_okD(4) [OF s] by (auto simp: in_set_conv_nth)
qed

lemma stable_add:
  assumes s: "stable_ok st" and slot: "i < length (st_table st)" "st_table st ! i = None" and n: "\<forall>k. \<not> has_semaphore st name k"
    and bm: "bitmap_ok bm" "numBits bm = st_size st" "used_slots bm = insert (int i) (used_slots (st_bitmap st))"
  shows "stable_ok (st\<lparr>st_bitmap := bm, st_table := (st_table st)[i := Some (name, st_next st)], st_next := Suc (st_next st)\<rparr>)"
proof -
  let ?t = "(st_table st)[i := Some (name, st_next st)]"
  have u: "p = q" if "p < length ?t" "q < length ?t" "?t ! p = Some a" "?t ! q = Some b" "fst a = fst b \<or> snd a = snd b" for p q a b
  proof (cases "p = i \<or> q = i")
    case False
    then show ?thesis using stable_okD(5) [OF s, of p q a b] that by simp
  next
    case True
    have no: "st_table st ! r \<noteq> Some x" if "r < length (st_table st)" "fst x = name \<or> snd x = st_next st" for r x
    proof
      assume "st_table st ! r = Some x"
      then show False using that n stable_okD(6) [OF s that(1), of x] by (cases x) (auto simp: has_semaphore_nth)
    qed
    show ?thesis
    proof (cases "p = i")
      case p: True
      then have "a = (name, st_next st)" using that(3) slot(1) by simp
      then show ?thesis using no [of q b] that(2,4,5) p by (cases "q = i") auto
    next
      case p: False
      then have "b = (name, st_next st)" using True that(4) slot(1) by simp
      then show ?thesis using no [of p a] that(1,3,5) p by auto
    qed
  qed
  show ?thesis
    unfolding stable_ok_def
  proof (intro conjI)
    let ?st = "st\<lparr>st_bitmap := bm, st_table := ?t, st_next := Suc (st_next st)\<rparr>"
    show "\<forall>p < length (st_table ?st). int p \<in> used_slots (st_bitmap ?st) \<longleftrightarrow> st_table ?st ! p \<noteq> None"
      using stable_okD(4) [OF s] bm(3) slot(1) by (auto simp: nth_list_update)
    show "\<forall>p q a b. p < length (st_table ?st) \<longrightarrow> q < length (st_table ?st) \<longrightarrow> st_table ?st ! p = Some a \<longrightarrow>
        st_table ?st ! q = Some b \<longrightarrow> fst a = fst b \<or> snd a = snd b \<longrightarrow> p = q"
    proof (intro allI impI)
      fix p q a b
      assume h: "p < length (st_table ?st)" "q < length (st_table ?st)" "st_table ?st ! p = Some a" "st_table ?st ! q = Some b"
        "fst a = fst b \<or> snd a = snd b"
      show "p = q" by (rule u [of p q a b]) (use h in simp_all)
    qed
    show "\<forall>p a. p < length (st_table ?st) \<longrightarrow> st_table ?st ! p = Some a \<longrightarrow> snd a < st_next ?st"
      using stable_okD(6) [OF s] slot(1) by (auto simp: nth_list_update less_SucI split: if_splits)
  qed (use bm stable_okD(3) [OF s] in simp_all)
qed

section \<open>Properties\<close>

text \<open>
  The semaphore table refines a partial map from names to semaphores: on a well-formed table \<^verbatim>\<open>Create\<close> of a new name succeeds while a
  slot is free, adds exactly that name with a new semaphore of the given initial value and keeps the table well-formed; a name
  in use, or a full table, gives -1 and no change. \<^verbatim>\<open>Wait\<close> and \<^verbatim>\<open>Signal\<close> perform \<^verbatim>\<open>P\<close> and \<^verbatim>\<open>V\<close> on the semaphore of the name, or return
  -1 when there is none.
\<close>
theorem SemaphoreTable_refines_map:
  assumes "stable_ok st"
  shows "(if (\<exists>n. has_semaphore st name n) \<or> None \<notin> set (st_table st)
      then SemTable_Create st sm name v = Inr (-1, st, sm)
      else \<exists>st'. SemTable_Create st sm name v = Inr (0, st', sm(SUser (st_next st) := \<lparr>sem_value = v, sem_queue = []\<rparr>)) \<and> stable_ok st' \<and>
        (\<forall>nm k. has_semaphore st' nm k \<longleftrightarrow> has_semaphore st nm k \<or> nm = name \<and> k = st_next st)) \<and>
    (\<forall>n. has_semaphore st name n \<longrightarrow> SemTable_Wait st name = Inr (0, [OpP (SUser n)]) \<and> SemTable_Signal st name = Inr (0, [OpV (SUser n)])) \<and>
    ((\<forall>n. \<not> has_semaphore st name n) \<longrightarrow> SemTable_Wait st name = Inr (-1, []) \<and> SemTable_Signal st name = Inr (-1, []))"
proof (cases "\<exists>n. has_semaphore st name n")
  case True
  then obtain i n where i: "FindSlotByName st name = Inr (int i)" "i < length (st_table st)" "st_table st ! i = Some (name, n)"
    using FindSlotByName_ok [OF assms, of name] by auto
  have "m = n" if "has_semaphore st name m" for m
    using that stable_okD(5) [OF assms i(2) _ i(3)] by (auto simp: has_semaphore_nth) (metis fst_conv i(3) option.inject prod.inject)
  then show ?thesis using True i
    by (auto simp: SemTable_Create_def SemTable_Wait_def SemTable_Signal_def on_semaphore_def aread_def)
next
  case False
  then have f: "FindSlotByName st name = Inr (-1)" using FindSlotByName_ok [OF assms, of name] by (auto simp: has_semaphore_nth)
  note bo = stable_okD(1,2,3) [OF assms]
  show ?thesis
  proof (cases "None \<in> set (st_table st)")
    case full: False
    then have "FindAndSet (st_bitmap st) = Inr (-1, st_bitmap st)" using bm.find_full [OF bo(1)] stable_full [OF assms] by simp
    then show ?thesis using f False full by (simp add: SemTable_Create_def SemTable_Wait_def SemTable_Signal_def on_semaphore_def)
  next
    case free: True
    then obtain slot bm where b: "FindAndSet (st_bitmap st) = Inr (slot, bm)" "0 \<le> slot" "slot < st_size st" "slot \<notin> used_slots (st_bitmap st)"
        "bitmap_ok bm" "numBits bm = st_size st" "used_slots bm = insert slot (used_slots (st_bitmap st))"
      using bm.find_free [OF bo(1)] stable_full [OF assms] bo(2) by auto
    have l: "nat slot < length (st_table st)" using b(2,3) bo(3) by simp
    have e: "st_table st ! nat slot = None" using stable_okD(4) [OF assms l] b(2,4) by (cases "st_table st ! nat slot") auto
    let ?st = "st\<lparr>st_bitmap := bm, st_table := (st_table st)[nat slot := Some (name, st_next st)], st_next := Suc (st_next st)\<rparr>"
    have ok: "stable_ok ?st" using stable_add [OF assms l e _ b(5,6)] b(2,7) False by simp
    have h: "has_semaphore ?st nm k \<longleftrightarrow> has_semaphore st nm k \<or> nm = name \<and> k = st_next st" for nm k
      using l e by (auto simp: has_semaphore_nth nth_list_update) (metis option.distinct(1))+
    have "SemTable_Create st sm name v = Inr (0, ?st, sm(SUser (st_next st) := \<lparr>sem_value = v, sem_queue = []\<rparr>))"
      using f b(1,2) l by (simp add: SemTable_Create_def awrite_def)
    then show ?thesis using ok h f False free by (auto simp: SemTable_Wait_def SemTable_Signal_def on_semaphore_def)
  qed
qed

definition two_slots :: SemaphoreTable where
  "two_slots = \<lparr>st_size = 2, st_bitmap = \<lparr>numBits = 2, numWords = 1, bm_map = [0]\<rparr>, st_table = [None, None], st_next = 0\<rparr>"

lemma two_slots_ok: "stable_ok two_slots"
proof -
  have "used_slots (st_bitmap two_slots) = {}"
    by (auto simp: used_slots_def two_slots_def)
  then show ?thesis
    by (auto simp: stable_ok_def two_slots_def bitmap_ok_def nachos_consts divRoundUp_def less_Suc_eq numeral_2_eq_2)
qed

theorem SemaphoreTable_refines_map_witness:
  "SemTable_Wait two_slots ''s'' = Inr (-1, []) \<and> (\<exists>st'. SemTable_Create two_slots (\<lambda>_. \<lparr>sem_value = 0, sem_queue = []\<rparr>) ''s'' 3 =
     Inr (0, st', (\<lambda>_. \<lparr>sem_value = 0, sem_queue = []\<rparr>)(SUser 0 := \<lparr>sem_value = 3, sem_queue = []\<rparr>)) \<and> has_semaphore st' ''s'' 0)"
proof -
  have n: "\<not> has_semaphore two_slots ''s'' n" for n by (simp add: has_semaphore_def two_slots_def)
  have f: "None \<in> set (st_table two_slots)" "st_next two_slots = 0" by (simp_all add: two_slots_def)
  show ?thesis using SemaphoreTable_refines_map [OF two_slots_ok, of "''s''" "\<lambda>_. \<lparr>sem_value = 0, sem_queue = []\<rparr>" 3] n f by auto
qed

end
