(* ===== verification/System_Calls.thy ===== *)
theory System_Calls
  imports User_Memory Processes Semaphore_Table
begin

text \<open>
  Entry into the kernel from user programs (\<^verbatim>\<open>userprog/exception.cc\<close>, \<^verbatim>\<open>userprog/ksyscall.h\<close>): the handler of each system call
  takes its arguments from registers 4 to 7 and from user memory, calls the kernel routine, puts the result into register 2
  and advances the program counter. Calls on files, sockets and semaphores complete in the handler; \<^verbatim>\<open>Exec\<close>, \<^verbatim>\<open>ExecV\<close>, \<^verbatim>\<open>Join\<close> and
  \<^verbatim>\<open>Exit\<close> enter the protocols of \<open>Processes\<close>, which continue at a control point of the process and deliver the result
  later. An exception other than a system call ends the process.
\<close>

section \<open>Kernel state and outcomes\<close>

record 'h usys =
  us_psys :: "'h psys"
  us_stable :: SemaphoreTable
  us_sems :: "semid \<Rightarrow> Semaphore"

text \<open>
  A handler returns to the user program, once the calling thread has performed the listed semaphore operations; or the call
  goes on in the process table; or the machine halts.
\<close>

datatype 'h outcome = Return machine "'h usys" "op list" | Enter machine "'h usys" | Halts

definition cstr :: "byte list \<Rightarrow> string" where
  "cstr bs = map (\<lambda>b. char_of (unat b)) bs"

text \<open>\<^verbatim>\<open>new char[n]\<close> with a negative \<open>n\<close> throws an exception that nobody catches.\<close>

definition new_array :: "int \<Rightarrow> unit result" where
  "new_array n = (if n < 0 then Inl HostTrap else Inr ())"

section \<open>Kernel routines\<close>

definition SysAdd :: "32 word \<Rightarrow> 32 word \<Rightarrow> 32 word" where
  "SysAdd op1 op2 = op1 + op2"

definition set_host_state :: "'h usys \<Rightarrow> 'h \<Rightarrow> 'h usys" where
  "set_host_state s h = s\<lparr>us_psys := (us_psys s)\<lparr>p_fs := (p_fs (us_psys s))\<lparr>host := h\<rparr>\<rparr>\<rparr>"

definition SysPrintString :: "'h unix \<Rightarrow> byte list \<Rightarrow> 'h usys \<Rightarrow> int \<times> 'h usys" where
  "SysPrintString u str s = (0, set_host_state s (console_out u str (host (p_fs (us_psys s)))))"

text \<open>An operation on the file table of the current process and the global file system.\<close>

definition with_table :: "nat \<Rightarrow> 'h usys \<Rightarrow> (FileTable \<Rightarrow> 'h FileSystem \<Rightarrow> ('a \<times> FileTable \<times> 'h FileSystem) result) \<Rightarrow>
    ('a \<times> 'h usys) result" where
  "with_table p s f =
     rbind (GetCurrentPCB (us_psys s) p) (\<lambda>cur.
     rbind (f (fileTable cur) (p_fs (us_psys s))) (\<lambda>(r, t, fs).
     Inr (r, s\<lparr>us_psys := (us_psys s)\<lparr>pt_table := (pt_table (us_psys s))(p \<mapsto> cur\<lparr>fileTable := t\<rparr>), p_fs := fs\<rparr>\<rparr>)))"

definition keep_table :: "('a \<times> 'h FileSystem) result \<Rightarrow> FileTable \<Rightarrow> ('a \<times> FileTable \<times> 'h FileSystem) result" where
  "keep_table r t = rbind r (\<lambda>(x, fs). Inr (x, t, fs))"

definition ok_or_minus1 :: "(bool \<times> 'h usys) result \<Rightarrow> (int \<times> 'h usys) result" where
  "ok_or_minus1 r = rbind r (\<lambda>(ok, s). Inr (if \<not> ok then -1 else 0, s))"

definition SysCreate :: "'h unix \<Rightarrow> nat \<Rightarrow> string \<Rightarrow> 'h usys \<Rightarrow> (int \<times> 'h usys) result" where
  "SysCreate u p filename s = ok_or_minus1 (with_table p s (\<lambda>t fs. keep_table (fs_Create u filename fs) t))"

definition SysOpen :: "'h unix \<Rightarrow> nat \<Rightarrow> string \<Rightarrow> int \<Rightarrow> 'h usys \<Rightarrow> (int \<times> 'h usys) result" where
  "SysOpen u p filename mode s = with_table p s (ft_Open u filename mode)"

definition SysClose :: "'h unix \<Rightarrow> nat \<Rightarrow> int \<Rightarrow> 'h usys \<Rightarrow> (int \<times> 'h usys) result" where
  "SysClose u p fileId s = ok_or_minus1 (with_table p s (ft_Close u fileId))"

definition SysRead :: "'h unix \<Rightarrow> nat \<Rightarrow> int \<Rightarrow> int \<Rightarrow> 'h usys \<Rightarrow> ((int \<times> byte list) \<times> 'h usys) result" where
  "SysRead u p cnt fileId s =
     (if cnt \<le> 0 then Inr ((-1, []), s) else with_table p s (\<lambda>t fs. keep_table (ft_Read u fileId cnt t fs) t))"

definition SysWrite :: "'h unix \<Rightarrow> nat \<Rightarrow> byte list \<Rightarrow> int \<Rightarrow> int \<Rightarrow> 'h usys \<Rightarrow> (int \<times> 'h usys) result" where
  "SysWrite u p buffer cnt fileId s =
     (if cnt \<le> 0 then Inr (-1, s) else with_table p s (\<lambda>t fs. keep_table (ft_Write u fileId buffer t fs) t))"

definition SysSeek :: "'h unix \<Rightarrow> nat \<Rightarrow> int \<Rightarrow> int \<Rightarrow> 'h usys \<Rightarrow> (int \<times> 'h usys) result" where
  "SysSeek u p pos fileId s = with_table p s (\<lambda>t fs. keep_table (ft_Seek u fileId pos t fs) t)"

definition SysRemove :: "'h unix \<Rightarrow> nat \<Rightarrow> string \<Rightarrow> 'h usys \<Rightarrow> (int \<times> 'h usys) result" where
  "SysRemove u p filename s = ok_or_minus1 (with_table p s (\<lambda>t fs. keep_table (fs_Remove u filename fs) t))"

definition SysOpenSocket :: "'h unix \<Rightarrow> nat \<Rightarrow> 'h usys \<Rightarrow> (int \<times> 'h usys) result" where
  "SysOpenSocket u p s = with_table p s (ft_CreateTCPSocket u)"

definition SysConnect :: "'h unix \<Rightarrow> nat \<Rightarrow> int \<Rightarrow> string \<Rightarrow> int \<Rightarrow> 'h usys \<Rightarrow> (int \<times> 'h usys) result" where
  "SysConnect u p socketId ip port s =
     rbind (with_table p s (\<lambda>t fs. keep_table (ft_ConnectTCPSocket u socketId ip port t fs) t)) (\<lambda>(r, s1).
     Inr (if r = -1 then -1 else 0, s1))"

definition SysSend :: "'h unix \<Rightarrow> nat \<Rightarrow> int \<Rightarrow> byte list \<Rightarrow> 'h usys \<Rightarrow> (int \<times> 'h usys) result" where
  "SysSend u p socketId buffer s = with_table p s (\<lambda>t fs. keep_table (ft_SendData u socketId buffer t fs) t)"

definition SysReceive :: "'h unix \<Rightarrow> nat \<Rightarrow> int \<Rightarrow> int \<Rightarrow> 'h usys \<Rightarrow> ((int \<times> byte list) \<times> 'h usys) result" where
  "SysReceive u p socketId cnt s = with_table p s (\<lambda>t fs. keep_table (ft_ReceiveData u socketId cnt t fs) t)"

definition SysCloseSocket :: "'h unix \<Rightarrow> nat \<Rightarrow> int \<Rightarrow> 'h usys \<Rightarrow> (int \<times> 'h usys) result" where
  "SysCloseSocket u p socketId s = ok_or_minus1 (with_table p s (ft_CloseTCPSocket u socketId))"

definition SysExecV :: "nat \<Rightarrow> string list \<Rightarrow> 'h usys \<Rightarrow> 'h usys" where
  "SysExecV p argv s = s\<lparr>us_psys := ExecV_enter (us_psys s) p argv\<rparr>"

definition SysJoin :: "nat \<Rightarrow> int \<Rightarrow> 'h usys \<Rightarrow> 'h usys result" where
  "SysJoin p pid s = rbind (Join_enter (us_psys s) p pid) (\<lambda>ps. Inr (s\<lparr>us_psys := ps\<rparr>))"

definition SysExit :: "nat \<Rightarrow> int \<Rightarrow> machine \<Rightarrow> 'h usys \<Rightarrow> 'h outcome result" where
  "SysExit p code m s =
     rbind (Exit_enter (us_psys s) p code) (\<lambda>ps. Inr (if halted ps then Halts else Enter m (s\<lparr>us_psys := ps\<rparr>)))"

definition SysCreateSemaphore :: "string \<Rightarrow> int \<Rightarrow> 'h usys \<Rightarrow> (int \<times> 'h usys) result" where
  "SysCreateSemaphore name initialValue s =
     rbind (SemTable_Create (us_stable s) (us_sems s) name initialValue) (\<lambda>(r, st, sm). Inr (r, s\<lparr>us_stable := st, us_sems := sm\<rparr>))"

definition SysWait :: "string \<Rightarrow> 'h usys \<Rightarrow> (int \<times> op list) result" where
  "SysWait name s = SemTable_Wait (us_stable s) name"

definition SysSignal :: "string \<Rightarrow> 'h usys \<Rightarrow> (int \<times> op list) result" where
  "SysSignal name s = SemTable_Signal (us_stable s) name"

section \<open>Exceptions\<close>

definition exit_status :: "ExceptionType \<Rightarrow> int" where
  "exit_status e = (case e of PageFaultException \<Rightarrow> 135 | ReadOnlyException \<Rightarrow> 139 | BusErrorException \<Rightarrow> 135
     | AddressErrorException \<Rightarrow> 135 | OverflowException \<Rightarrow> 136 | IllegalInstrException \<Rightarrow> 132 | _ \<Rightarrow> 0)"

text \<open>
  Going on with the value of an access to user memory. An access that traps enters the exception handler again, which
  ends the process.
\<close>

definition on_access :: "'a access result \<Rightarrow> nat \<Rightarrow> 'h usys \<Rightarrow> ('a \<Rightarrow> machine \<Rightarrow> 'h outcome result) \<Rightarrow> 'h outcome result" where
  "on_access r p s f = rbind r (\<lambda>x. case x of Trap e m \<Rightarrow> SysExit p (exit_status e) m s | Done a m \<Rightarrow> f a m)"

definition return_ops :: "int \<Rightarrow> op list \<Rightarrow> machine \<Rightarrow> 'h usys \<Rightarrow> 'h outcome result" where
  "return_ops r ops m s = rbind (setReturnCodeAndAdvancePC (word_of_int r) m) (\<lambda>m1. Inr (Return m1 s ops))"

definition return_result :: "(int \<times> 'h usys) result \<Rightarrow> machine \<Rightarrow> 'h outcome result" where
  "return_result r m = rbind r (\<lambda>(x, s). return_ops x [] m s)"

section \<open>Handlers\<close>

text \<open>The length of the fuel of the unbounded string copy is the size of physical memory (see \<open>StringUser2System_reads_string\<close>).\<close>

definition user_string :: "32 word \<Rightarrow> machine \<Rightarrow> byte list access result" where
  "user_string v m = abind (StringUser2System 16385 v m) (\<lambda>bs m1. Inr (Done (butlast bs) m1))"

definition handle_SC_Add :: "machine \<Rightarrow> 'h usys \<Rightarrow> 'h outcome result" where
  "handle_SC_Add m s = return_ops (sint (SysAdd (reg m 4) (reg m 5))) [] m s"

definition handle_SC_PrintString :: "'h unix \<Rightarrow> nat \<Rightarrow> machine \<Rightarrow> 'h usys \<Rightarrow> 'h outcome result" where
  "handle_SC_PrintString u p m s = on_access (user_string (reg m 4) m) p s (\<lambda>str m1. return_result (Inr (SysPrintString u str s)) m1)"

definition handle_SC_Create :: "'h unix \<Rightarrow> nat \<Rightarrow> machine \<Rightarrow> 'h usys \<Rightarrow> 'h outcome result" where
  "handle_SC_Create u p m s =
     on_access (StringUser2System_limit (reg m 4) MaxFileNameLen m) p s (\<lambda>filename m1. return_result (SysCreate u p (cstr filename) s) m1)"

definition handle_SC_Open :: "'h unix \<Rightarrow> nat \<Rightarrow> machine \<Rightarrow> 'h usys \<Rightarrow> 'h outcome result" where
  "handle_SC_Open u p m s =
     on_access (StringUser2System_limit (reg m 4) MaxFileNameLen m) p s (\<lambda>filename m1.
     return_result (SysOpen u p (cstr filename) (sint (reg m 5)) s) m1)"

definition handle_SC_Close :: "'h unix \<Rightarrow> nat \<Rightarrow> machine \<Rightarrow> 'h usys \<Rightarrow> 'h outcome result" where
  "handle_SC_Close u p m s = return_result (SysClose u p (sint (reg m 4)) s) m"

text \<open>The result of a read, and its bytes copied out when there are any.\<close>

definition copy_out_result :: "((int \<times> byte list) \<times> 'h usys) result \<Rightarrow> 32 word \<Rightarrow> nat \<Rightarrow> machine \<Rightarrow> 'h outcome result" where
  "copy_out_result r virtAddr p m =
     rbind r (\<lambda>((n, buffer), s1).
     if n > 0 then on_access (RawSystem2User virtAddr n buffer m) p s1 (\<lambda>_ m1. return_ops n [] m1 s1)
     else return_ops n [] m s1)"

definition handle_SC_Read :: "'h unix \<Rightarrow> nat \<Rightarrow> machine \<Rightarrow> 'h usys \<Rightarrow> 'h outcome result" where
  "handle_SC_Read u p m s =
     (let virtAddr = reg m 4; cnt = sint (reg m 5); fileId = sint (reg m 6) in
      rbind (new_array cnt) (\<lambda>_. copy_out_result (SysRead u p cnt fileId s) virtAddr p m))"

definition handle_SC_Write :: "'h unix \<Rightarrow> nat \<Rightarrow> machine \<Rightarrow> 'h usys \<Rightarrow> 'h outcome result" where
  "handle_SC_Write u p m s =
     (let virtAddr = reg m 4; cnt = sint (reg m 5); fileId = sint (reg m 6) in
      rbind (new_array cnt) (\<lambda>_.
      on_access (RawUser2System virtAddr cnt m) p s (\<lambda>buffer m1. return_result (SysWrite u p buffer cnt fileId s) m1)))"

definition handle_SC_Seek :: "'h unix \<Rightarrow> nat \<Rightarrow> machine \<Rightarrow> 'h usys \<Rightarrow> 'h outcome result" where
  "handle_SC_Seek u p m s = return_result (SysSeek u p (sint (reg m 4)) (sint (reg m 5)) s) m"

definition handle_SC_Remove :: "'h unix \<Rightarrow> nat \<Rightarrow> machine \<Rightarrow> 'h usys \<Rightarrow> 'h outcome result" where
  "handle_SC_Remove u p m s =
     on_access (StringUser2System_limit (reg m 4) MaxFileNameLen m) p s (\<lambda>filename m1. return_result (SysRemove u p (cstr filename) s) m1)"

definition handle_SC_OpenSocket :: "'h unix \<Rightarrow> nat \<Rightarrow> machine \<Rightarrow> 'h usys \<Rightarrow> 'h outcome result" where
  "handle_SC_OpenSocket u p m s = return_result (SysOpenSocket u p s) m"

definition handle_SC_Connect :: "'h unix \<Rightarrow> nat \<Rightarrow> machine \<Rightarrow> 'h usys \<Rightarrow> 'h outcome result" where
  "handle_SC_Connect u p m s =
     on_access (StringUser2System_limit (reg m 5) MaxIPAddressLen m) p s (\<lambda>ip m1.
     return_result (SysConnect u p (sint (reg m 4)) (cstr ip) (sint (reg m 6)) s) m1)"

definition handle_SC_Send :: "'h unix \<Rightarrow> nat \<Rightarrow> machine \<Rightarrow> 'h usys \<Rightarrow> 'h outcome result" where
  "handle_SC_Send u p m s =
     (let len = sint (reg m 6) in
      if len \<le> 0 then return_ops (-1) [] m s
      else on_access (RawUser2System (reg m 5) len m) p s (\<lambda>buffer m1. return_result (SysSend u p (sint (reg m 4)) buffer s) m1))"

definition handle_SC_Receive :: "'h unix \<Rightarrow> nat \<Rightarrow> machine \<Rightarrow> 'h usys \<Rightarrow> 'h outcome result" where
  "handle_SC_Receive u p m s =
     (let socketID = sint (reg m 4); virtAddr = reg m 5; len = sint (reg m 6) in
      rbind (new_array len) (\<lambda>_. copy_out_result (SysReceive u p socketID len s) virtAddr p m))"

definition handle_SC_CloseSocket :: "'h unix \<Rightarrow> nat \<Rightarrow> machine \<Rightarrow> 'h usys \<Rightarrow> 'h outcome result" where
  "handle_SC_CloseSocket u p m s = return_result (SysCloseSocket u p (sint (reg m 4)) s) m"

definition handle_SC_Exec :: "nat \<Rightarrow> machine \<Rightarrow> 'h usys \<Rightarrow> 'h outcome result" where
  "handle_SC_Exec p m s = on_access (user_string (reg m 4) m) p s (\<lambda>f m1. Inr (Enter m1 (SysExecV p [cstr f] s)))"

fun read_argv :: "nat \<Rightarrow> 32 word \<Rightarrow> machine \<Rightarrow> string list access result" where
  "read_argv 0 argvUser m = Inr (Done [] m)"
| "read_argv (Suc n) argvUser m =
     abind (ReadMem m argvUser 4) (\<lambda>virtAddr m1.
     abind (user_string virtAddr m1) (\<lambda>a m2.
     abind (read_argv n (argvUser + 4) m2) (\<lambda>argv m3. Inr (Done (cstr a # argv) m3))))"

definition handle_SC_ExecV :: "nat \<Rightarrow> machine \<Rightarrow> 'h usys \<Rightarrow> 'h outcome result" where
  "handle_SC_ExecV p m s =
     (let argc = sint (reg m 4) in
      rbind (new_array argc) (\<lambda>_.
      on_access (read_argv (nat argc) (reg m 5) m) p s (\<lambda>argv m1. Inr (Enter m1 (SysExecV p argv s)))))"

definition handle_SC_Join :: "nat \<Rightarrow> machine \<Rightarrow> 'h usys \<Rightarrow> 'h outcome result" where
  "handle_SC_Join p m s = rbind (SysJoin p (sint (reg m 4)) s) (\<lambda>s1. Inr (Enter m s1))"

definition handle_SC_Exit :: "nat \<Rightarrow> machine \<Rightarrow> 'h usys \<Rightarrow> 'h outcome result" where
  "handle_SC_Exit p m s = SysExit p (sint (reg m 4)) m s"

definition handle_SC_CreateSemaphore :: "nat \<Rightarrow> machine \<Rightarrow> 'h usys \<Rightarrow> 'h outcome result" where
  "handle_SC_CreateSemaphore p m s =
     on_access (user_string (reg m 4) m) p s (\<lambda>name m1. return_result (SysCreateSemaphore (cstr name) (sint (reg m 5)) s) m1)"

definition handle_SC_Wait :: "nat \<Rightarrow> machine \<Rightarrow> 'h usys \<Rightarrow> 'h outcome result" where
  "handle_SC_Wait p m s =
     on_access (user_string (reg m 4) m) p s (\<lambda>name m1. rbind (SysWait (cstr name) s) (\<lambda>(r, ops). return_ops r ops m1 s))"

definition handle_SC_Signal :: "nat \<Rightarrow> machine \<Rightarrow> 'h usys \<Rightarrow> 'h outcome result" where
  "handle_SC_Signal p m s =
     on_access (user_string (reg m 4) m) p s (\<lambda>name m1. rbind (SysSignal (cstr name) s) (\<lambda>(r, ops). return_ops r ops m1 s))"

section \<open>The exception handler\<close>

definition handle_syscall :: "'h unix \<Rightarrow> nat \<Rightarrow> 32 word \<Rightarrow> machine \<Rightarrow> 'h usys \<Rightarrow> 'h outcome result" where
  "handle_syscall u p type m s =
     (if type = 0 then Inr Halts
      else if type = 1 then handle_SC_Exit p m s
      else if type = 2 then handle_SC_Exec p m s
      else if type = 3 then handle_SC_Join p m s
      else if type = 4 then handle_SC_Create u p m s
      else if type = 5 then handle_SC_Remove u p m s
      else if type = 6 then handle_SC_Open u p m s
      else if type = 7 then handle_SC_Read u p m s
      else if type = 8 then handle_SC_Write u p m s
      else if type = 9 then handle_SC_Seek u p m s
      else if type = 10 then handle_SC_Close u p m s
      else if type = 13 then handle_SC_ExecV p m s
      else if type = 16 then handle_SC_OpenSocket u p m s
      else if type = 17 then handle_SC_Connect u p m s
      else if type = 18 then handle_SC_Send u p m s
      else if type = 19 then handle_SC_Receive u p m s
      else if type = 20 then handle_SC_CloseSocket u p m s
      else if type = 21 then handle_SC_PrintString u p m s
      else if type = 22 then handle_SC_CreateSemaphore p m s
      else if type = 23 then handle_SC_Wait p m s
      else if type = 24 then handle_SC_Signal p m s
      else if type = 42 then handle_SC_Add m s
      else Inl AssertFailed)"

definition ExceptionHandler :: "'h unix \<Rightarrow> nat \<Rightarrow> ExceptionType \<Rightarrow> machine \<Rightarrow> 'h usys \<Rightarrow> 'h outcome result" where
  "ExceptionHandler u p which m s =
     (case which of
        NoException \<Rightarrow> Inr (Return m s [])
      | SyscallException \<Rightarrow> handle_syscall u p (reg m 2) m s
      | _ \<Rightarrow> SysExit p (exit_status which) m s)"

text \<open>
  The rest of \<^verbatim>\<open>handle_SC_Exec\<close>, \<^verbatim>\<open>handle_SC_ExecV\<close> and \<^verbatim>\<open>handle_SC_Join\<close>, once the routine of the process table has returned its result:
  \<^verbatim>\<open>setReturnCodeAndAdvancePC(result)\<close>. Register 2 still holds the number of the call. \<^verbatim>\<open>SysExit\<close> does not return; behind it is an \<^verbatim>\<open>ASSERTNOTREACHED\<close>.
\<close>

definition finish_SC_Exec :: "nat \<Rightarrow> machine \<Rightarrow> 'h usys \<Rightarrow> 'h outcome result" where
  "finish_SC_Exec p m s = return_ops (pt_ret (us_psys s) p) [] m s"

definition finish_SC_ExecV :: "nat \<Rightarrow> machine \<Rightarrow> 'h usys \<Rightarrow> 'h outcome result" where
  "finish_SC_ExecV p m s = return_ops (pt_ret (us_psys s) p) [] m s"

definition finish_SC_Join :: "nat \<Rightarrow> machine \<Rightarrow> 'h usys \<Rightarrow> 'h outcome result" where
  "finish_SC_Join p m s = return_ops (pt_ret (us_psys s) p) [] m s"

definition finish_call :: "nat \<Rightarrow> machine \<Rightarrow> 'h usys \<Rightarrow> 'h outcome result" where
  "finish_call p m s =
     (if reg m 2 = 2 then finish_SC_Exec p m s
      else if reg m 2 = 3 then finish_SC_Join p m s
      else if reg m 2 = 13 then finish_SC_ExecV p m s
      else Inl AssertFailed)"

section \<open>What a completed access leaves behind\<close>

text \<open>Reading leaves the memory, the mapping and the registers as they are.\<close>

definition only_read :: "machine \<Rightarrow> machine \<Rightarrow> bool" where
  "only_read m m' \<longleftrightarrow> accessed m m' \<and> mainMemory m' = mainMemory m"

lemma only_read_refl: "user_ok m \<Longrightarrow> only_read m m"
  by (simp add: only_read_def accessed_refl)

lemma only_read_trans: "only_read a b \<Longrightarrow> only_read b c \<Longrightarrow> only_read a c"
  by (auto simp: only_read_def intro: accessed_trans)

lemma only_read_ok: "only_read m m' \<Longrightarrow> user_ok m'"
  by (simp add: only_read_def accessed_def)

lemma abind_Done:
  assumes "abind r f = Inr (Done x m')"
  obtains a m1 where "r = Inr (Done a m1)" and "f a m1 = Inr (Done x m')"
  using assms by (cases r) (auto simp: abind_def split: access.splits)

lemma ReadMem_done:
  assumes ok: "user_ok m" and sz: "sz \<in> {1, 2, 4}" and r: "ReadMem m v sz = Inr (Done x m1)"
  shows "only_read m m1"
proof -
  have c: "cpu_ok m" using ok by (simp add: user_ok_def)
  from c sz show ?thesis
  proof (cases rule: ReadMem_cases [of m sz v])
    case (hit i m2)
    have "i < length (entries m)" using hit_index [OF _ hit(1)] c by (simp add: cpu_ok_def)
    then show ?thesis using hit(2,6) r accessed_touched [OF ok, of i False] by (simp add: only_read_def)
  next
    case (miss e m2)
    then show ?thesis using r by simp
  qed
qed

lemma raw_in_done: "raw_in n v m = Inr (Done bs m') \<Longrightarrow> user_ok m \<Longrightarrow> only_read m m'"
proof (induction n v m arbitrary: bs m' rule: raw_in.induct)
  case (2 n v m)
  obtain x m1 where x: "ReadMem m v 1 = Inr (Done x m1)"
      "abind (raw_in n (v + 1) m1) (\<lambda>bs m2. Inr (Done (ucast x # bs) m2)) = Inr (Done bs m')"
    using 2(2) by (auto elim: abind_Done)
  obtain cs m2 where c: "raw_in n (v + 1) m1 = Inr (Done cs m2)" "m' = m2" using x(2) by (auto elim: abind_Done)
  have o: "only_read m m1" using ReadMem_done [OF 2(3) _ x(1)] by simp
  show ?case using 2(1) [OF c(1) only_read_ok [OF o]] o c(2) only_read_trans by blast
qed (simp add: only_read_refl)

lemma string_in_done: "string_in n v m = Inr (Done bs m') \<Longrightarrow> user_ok m \<Longrightarrow> only_read m m'"
proof (induction n v m arbitrary: bs m' rule: string_in.induct)
  case (2 n v m)
  obtain x m1 where x: "ReadMem m v 1 = Inr (Done x m1)"
      "(if x = 0 then Inr (Done [] m1) else abind (string_in n (v + 1) m1) (\<lambda>bs m2. Inr (Done (ucast x # bs) m2))) = Inr (Done bs m')"
    using 2(2) by (auto elim: abind_Done)
  have o: "only_read m m1" using ReadMem_done [OF 2(3) _ x(1)] by simp
  show ?case
  proof (cases "x = 0")
    case False
    then obtain cs m2 where c: "string_in n (v + 1) m1 = Inr (Done cs m2)" "m' = m2" using x(2) by (auto elim: abind_Done)
    show ?thesis using 2(1) [OF False c(1) only_read_ok [OF o]] o c(2) only_read_trans by blast
  qed (use x(2) o in simp)
qed (simp add: only_read_refl)

lemma user_string_done:
  assumes "user_string v m = Inr (Done bs m')" "user_ok m"
  shows "only_read m m'"
proof -
  obtain cs where c: "StringUser2System 16385 v m = Inr (Done cs m')" using assms(1) unfolding user_string_def by (auto elim!: abind_Done)
  then obtain n m1 where n: "string_size 16385 v m = Inr (Done n m1)" "raw_in n v m1 = Inr (Done cs m')"
    unfolding StringUser2System_def by (auto elim: abind_Done)
  have l: "length (user_mem m) - unat v < 16385" using user_ok_size(2) [OF assms(2)] by (simp add: user_mem_def)
  have b: "unat v < 2 ^ 32" using unsigned_less [of v] by simp
  have "only_read m m1" using string_size_user [OF assms(2) l b, unfolded word_address] n(1)
    by (auto simp: only_read_def split: option.splits)
  then show ?thesis using raw_in_done [OF n(2)] only_read_ok only_read_trans by blast
qed

lemma raw_out_done:
  "raw_out bs v m = Inr (Done () m') \<Longrightarrow> user_ok m \<Longrightarrow> bs \<noteq> [] \<Longrightarrow> unat v + length bs \<le> length (user_mem m)"
proof (induction bs v m arbitrary: m' rule: raw_out.induct)
  case (2 b bs v m)
  obtain m1 where w: "WriteMem m v 1 (scast b) = Inr (Done () m1)" "raw_out bs (v + 1) m1 = Inr (Done () m')"
    using 2(2) by (auto elim: abind_Done)
  have a: "unat v < length (user_mem m)"
  proof (rule ccontr)
    assume "\<not> unat v < length (user_mem m)"
    then show False using access_outside(2) [OF 2(3), of v "scast b"] w(1) by auto
  qed
  have o: "accessed m m1" using WriteMem_user [OF 2(3) a, of b, unfolded word_address] w(1) by auto
  then have m1: "user_ok m1" "length (user_mem m1) = length (user_mem m)" by (simp_all add: accessed_def user_mem_def)
  have "unat v < 16384" using a user_ok_size(2) [OF 2(3)] by (simp add: user_mem_def)
  then have "unat (word_of_nat (unat v + 1) :: 32 word) = unat v + 1" by (intro unat_of_nat_small) simp
  then have "unat (v + 1) = unat v + 1" by (simp only: of_nat_add word_address of_nat_1)
  then show ?case using 2(1) [OF w(2) m1(1)] m1(2) a by (cases "bs = []") auto
qed simp

section \<open>Returning to the user program\<close>

text \<open>
  \<open>returned V m m'\<close>: the program counter has moved on by one instruction, register 2 may have changed and no other general
  register, the memory of the program is \<open>V\<close>, and memory outside its frames is as before.
\<close>

definition returned :: "byte list \<Rightarrow> machine \<Rightarrow> machine \<Rightarrow> bool" where
  "returned V m m' \<longleftrightarrow> reg m' PCReg = reg m NextPCReg \<and> reg m' NextPCReg = reg m NextPCReg + 4 \<and> reg m' PrevPCReg = reg m PCReg \<and>
     (\<forall>k < 32. k \<noteq> 2 \<longrightarrow> reg m' k = reg m k) \<and> mframes m' = mframes m \<and> user_mem m' = V \<and>
     (\<forall>j < length (mainMemory m). j div 128 \<notin> set (mframes m) \<longrightarrow> mainMemory m' ! j = mainMemory m ! j)"

lemma mframes_registers [simp]: "mframes (m\<lparr>registers := rs\<rparr>) = mframes m"
  by (simp add: mframes_def)

lemma return_ops_returned:
  assumes r: "return_ops x ops m1 s = Inr (Return m' s' ops')" and a: "accessed m m1" and ok: "user_ok m"
    and st: "viewed 128 (mframes m) (mainMemory m) (mainMemory m1) V"
  shows "returned V m m' \<and> reg m' 2 = word_of_int x \<and> s' = s \<and> ops' = ops"
proof -
  have l: "length (registers m1) = 40" "registers m1 = registers m" "mframes m1 = mframes m"
    using a ok by (simp_all add: accessed_def user_ok_def cpu_ok_def nachos_consts)
  let ?rs = "(((registers m1)[2 := word_of_int x])[36 := registers m1 ! 34])[34 := registers m1 ! 35]"
  have "setReturnCodeAndAdvancePC (word_of_int x) m1 = Inr (m1\<lparr>registers := ?rs[35 := registers m1 ! 35 + 4]\<rparr>)"
    using l(1) by (simp add: setReturnCodeAndAdvancePC_def advancePC_def ReadRegister_def WriteRegister_def nachos_consts)
  then have m': "m' = m1\<lparr>registers := ?rs[35 := registers m1 ! 35 + 4]\<rparr>" "s' = s" "ops' = ops"
    using r by (simp_all add: return_ops_def)
  have k: "reg m' k = registers m ! k" if "k < 32" "k \<noteq> 2" for k using that l m'(1) by (simp add: reg_def)
  have v: "user_mem m' = V" using st l(3) m'(1) by (simp add: user_mem_def viewed_def)
  show ?thesis using m' l st k v by (simp add: returned_def reg_def nachos_consts viewed_def)
qed

lemma only_read_viewed: "only_read m m1 \<Longrightarrow> viewed 128 (mframes m) (mainMemory m) (mainMemory m1) (user_mem m)"
  by (simp add: only_read_def viewed_def user_mem_def)

lemma return_result_returned:
  assumes "return_result r m1 = Inr (Return m' s' ops)" "only_read m m1" "user_ok m"
  shows "returned (user_mem m) m m' \<and> (\<exists>x. r = Inr (x, s') \<and> reg m' 2 = word_of_int x)"
proof -
  obtain x s1 where x: "r = Inr (x, s1)" "return_ops x [] m1 s1 = Inr (Return m' s' ops)"
    using assms(1) by (auto simp: return_result_def rbind_eq_Inr)
  then show ?thesis using return_ops_returned [OF x(2) _ assms(3) only_read_viewed [OF assms(2)]] assms(2) by (simp add: only_read_def)
qed

lemma SysExit_not_Return: "SysExit p c m s \<noteq> Inr (Return m' s' ops)"
  by (auto simp: SysExit_def rbind_eq_Inr split: if_splits)

lemma on_access_Return:
  assumes "on_access r p s f = Inr (Return m' s' ops)"
  obtains a m1 where "r = Inr (Done a m1)" and "f a m1 = Inr (Return m' s' ops)"
proof -
  obtain x where x: "r = Inr x" "(case x of Trap e m \<Rightarrow> SysExit p (exit_status e) m s | Done a m \<Rightarrow> f a m) = Inr (Return m' s' ops)"
    using assms by (auto simp: on_access_def rbind_eq_Inr)
  show thesis using x that by (cases x) (auto simp: SysExit_not_Return)
qed

text \<open>Handlers that read user memory and return a result.\<close>

lemma handler_reads:
  assumes "on_access r p s (\<lambda>a m1. return_result (f a) m1) = Inr (Return m' s' ops)" "user_ok m"
    and "\<And>a m1. r = Inr (Done a m1) \<Longrightarrow> only_read m m1"
  shows "returned (user_mem m) m m'"
  using assms(1) return_result_returned [OF _ assms(3) assms(2)] by (elim on_access_Return) blast

lemma handler_ops:
  assumes "on_access r p s (\<lambda>a m1. rbind (f a) (\<lambda>(x, o1). return_ops x o1 m1 s)) = Inr (Return m' s' ops)" "user_ok m"
    and "\<And>a m1. r = Inr (Done a m1) \<Longrightarrow> only_read m m1"
  shows "returned (user_mem m) m m'"
proof -
  obtain a m1 x o1 where a: "r = Inr (Done a m1)" "return_ops x o1 m1 s = Inr (Return m' s' ops)"
    using assms(1) by (auto elim!: on_access_Return simp: rbind_eq_Inr)
  have o: "only_read m m1" by (rule assms(3) [OF a(1)])
  show ?thesis using return_ops_returned [OF a(2) _ assms(2) only_read_viewed [OF o]] o by (simp add: only_read_def)
qed

text \<open>Handlers that deliver data: the bytes end up in the buffer, as many as register 2 says.\<close>

lemma copy_out_returned:
  assumes r: "copy_out_result r v p m = Inr (Return m' s' ops)" and ok: "user_ok m"
  shows "\<exists>n buffer s1. r = Inr ((n, buffer), s1) \<and> reg m' 2 = word_of_int n \<and>
    (if n > 0 then n \<le> int (length buffer) \<and> unat v + nat n \<le> length (user_mem m) \<and>
       returned (patch (user_mem m) (unat v) (take (nat n) buffer)) m m' else returned (user_mem m) m m')"
proof -
  obtain n buffer s1 where x: "r = Inr ((n, buffer), s1)"
      "(if n > 0 then on_access (RawSystem2User v n buffer m) p s1 (\<lambda>_ m1. return_ops n [] m1 s1) else return_ops n [] m s1) = Inr (Return m' s' ops)"
    using r by (auto simp: copy_out_result_def rbind_eq_Inr)
  show ?thesis
  proof (cases "n > 0")
    case True
    then obtain a m1 where a: "RawSystem2User v n buffer m = Inr (Done a m1)" "return_ops n [] m1 s1 = Inr (Return m' s' ops)"
      using x(2) by (auto elim: on_access_Return)
    then have b: "n \<le> int (length buffer)" "raw_out (take (nat n) buffer) v m = Inr (Done () m1)"
      by (auto simp: RawSystem2User_def split: if_splits)
    let ?bs = "take (nat n) buffer"
    have ne: "?bs \<noteq> []" "length ?bs = nat n" using True b(1) by auto
    have le: "unat v + length ?bs \<le> length (user_mem m)" by (rule raw_out_done [OF b(2) ok ne(1)])
    have w: "accessed m m1" "stored 128 (mframes m) (mainMemory m) (mainMemory m1) (unat v) ?bs"
      using raw_out_user [OF ok le, unfolded word_address] b(2) by auto
    have "viewed 128 (mframes m) (mainMemory m) (mainMemory m1) (patch (user_mem m) (unat v) ?bs)"
      using w(2) by (simp add: stored_viewed user_mem_def)
    then show ?thesis using return_ops_returned [OF a(2) w(1) ok] x(1) True b(1) le ne(2) by auto
  next
    case False
    then show ?thesis
      using x return_ops_returned [OF _ accessed_refl [OF ok] ok only_read_viewed [OF only_read_refl [OF ok]], of n "[]" s1 m' s' ops] by auto
  qed
qed

lemma simple_returned:
  assumes "return_result r m = Inr (Return m' s' ops)" "user_ok m"
  shows "returned (user_mem m) m m'"
  using return_result_returned [OF assms(1) only_read_refl [OF assms(2)] assms(2)] by blast

section \<open>Properties\<close>

lemma limit_string_done: "StringUser2System_limit v n m = Inr (Done bs m') \<Longrightarrow> user_ok m \<Longrightarrow> only_read m m'"
  unfolding StringUser2System_limit_def by (rule string_in_done)

lemma raw_user_done: "RawUser2System v n m = Inr (Done bs m') \<Longrightarrow> user_ok m \<Longrightarrow> only_read m m'"
  unfolding RawUser2System_def by (rule raw_in_done)

lemmas simple_handlers = handle_SC_Close_def handle_SC_Seek_def handle_SC_OpenSocket_def handle_SC_CloseSocket_def
lemmas name_handlers = handle_SC_Create_def handle_SC_Remove_def handle_SC_Open_def handle_SC_Connect_def
lemmas string_handlers = handle_SC_PrintString_def handle_SC_CreateSemaphore_def

lemma Enter_not_Return: "on_access r p s (\<lambda>a m1. Inr (Enter m1 (g a))) \<noteq> Inr (Return m' s' ops)"
  by (auto elim!: on_access_Return)

lemma process_handlers_Return:
  "handle_SC_Exit p m s \<noteq> Inr (Return m' s' ops)" "handle_SC_Exec p m s \<noteq> Inr (Return m' s' ops)"
  "handle_SC_ExecV p m s \<noteq> Inr (Return m' s' ops)" "handle_SC_Join p m s \<noteq> Inr (Return m' s' ops)"
  using Enter_not_Return [of "user_string (reg m 4) m" p s] Enter_not_Return [of "read_argv (nat (sint (reg m 4))) (reg m 5) m" p s]
  by (auto simp: handle_SC_Exit_def SysExit_not_Return handle_SC_Exec_def handle_SC_ExecV_def handle_SC_Join_def rbind_eq_Inr Let_def)

lemma name_returned:
  assumes "user_ok m"
  shows "handle_SC_Create u p m s = Inr (Return m' s' ops) \<Longrightarrow> returned (user_mem m) m m'"
    "handle_SC_Remove u p m s = Inr (Return m' s' ops) \<Longrightarrow> returned (user_mem m) m m'"
    "handle_SC_Open u p m s = Inr (Return m' s' ops) \<Longrightarrow> returned (user_mem m) m m'"
    "handle_SC_Connect u p m s = Inr (Return m' s' ops) \<Longrightarrow> returned (user_mem m) m m'"
  unfolding name_handlers by (erule handler_reads [OF _ assms], erule limit_string_done [OF _ assms])+

lemma string_returned:
  assumes "user_ok m"
  shows "handle_SC_PrintString u p m s = Inr (Return m' s' ops) \<Longrightarrow> returned (user_mem m) m m'"
    "handle_SC_CreateSemaphore p m s = Inr (Return m' s' ops) \<Longrightarrow> returned (user_mem m) m m'"
    "handle_SC_Wait p m s = Inr (Return m' s' ops) \<Longrightarrow> returned (user_mem m) m m'"
    "handle_SC_Signal p m s = Inr (Return m' s' ops) \<Longrightarrow> returned (user_mem m) m m'"
  unfolding string_handlers handle_SC_Wait_def handle_SC_Signal_def
  by (erule handler_reads [OF _ assms] handler_ops [OF _ assms], erule user_string_done [OF _ assms])+

lemma simple_handlers_returned:
  assumes "user_ok m"
  shows "handle_SC_Close u p m s = Inr (Return m' s' ops) \<Longrightarrow> returned (user_mem m) m m'"
    "handle_SC_Seek u p m s = Inr (Return m' s' ops) \<Longrightarrow> returned (user_mem m) m m'"
    "handle_SC_OpenSocket u p m s = Inr (Return m' s' ops) \<Longrightarrow> returned (user_mem m) m m'"
    "handle_SC_CloseSocket u p m s = Inr (Return m' s' ops) \<Longrightarrow> returned (user_mem m) m m'"
    "handle_SC_Add m s = Inr (Return m' s' ops) \<Longrightarrow> returned (user_mem m) m m'"
  unfolding simple_handlers handle_SC_Add_def
  using simple_returned [OF _ assms] return_ops_returned [OF _ accessed_refl [OF assms] assms only_read_viewed [OF only_read_refl [OF assms]]]
  by blast+

lemma transfer_returned:
  assumes ok: "user_ok m"
  shows "handle_SC_Write u p m s = Inr (Return m' s' ops) \<Longrightarrow> returned (user_mem m) m m'"
    "handle_SC_Send u p m s = Inr (Return m' s' ops) \<Longrightarrow> returned (user_mem m) m m'"
proof -
  show "returned (user_mem m) m m'" if w: "handle_SC_Write u p m s = Inr (Return m' s' ops)"
  proof -
    have "on_access (RawUser2System (reg m 4) (sint (reg m 5)) m) p s (\<lambda>buffer m1. return_result (SysWrite u p buffer (sint (reg m 5)) (sint (reg m 6)) s) m1) =
        Inr (Return m' s' ops)"
      using w by (auto simp: handle_SC_Write_def Let_def rbind_eq_Inr)
    then show ?thesis by (rule handler_reads [OF _ ok]) (erule raw_user_done [OF _ ok])
  qed
  show "returned (user_mem m) m m'" if w: "handle_SC_Send u p m s = Inr (Return m' s' ops)"
  proof (cases "sint (reg m 6) \<le> 0")
    case True
    then have "return_ops (-1) [] m s = Inr (Return m' s' ops)" using w by (simp add: handle_SC_Send_def Let_def)
    then show ?thesis
      using return_ops_returned [OF _ accessed_refl [OF ok] ok only_read_viewed [OF only_read_refl [OF ok]]] by blast
  next
    case False
    then have "on_access (RawUser2System (reg m 5) (sint (reg m 6)) m) p s (\<lambda>buffer m1. return_result (SysSend u p (sint (reg m 4)) buffer s) m1) =
        Inr (Return m' s' ops)" using w by (simp add: handle_SC_Send_def Let_def)
    then show ?thesis by (rule handler_reads [OF _ ok]) (erule raw_user_done [OF _ ok])
  qed
qed

text \<open>The buffer of a call that delivers data.\<close>

definition buffer_address :: "machine \<Rightarrow> 32 word" where
  "buffer_address m = (if reg m 2 = 7 then reg m 4 else reg m 5)"

lemma delivers_returned:
  assumes ok: "user_ok m" and h: "handle_SC_Read u p m s = Inr (Return m' s' ops) \<and> reg m 2 = 7 \<or>
      handle_SC_Receive u p m s = Inr (Return m' s' ops) \<and> reg m 2 \<noteq> 7"
  shows "\<exists>bs. returned (patch (user_mem m) (unat (buffer_address m)) bs) m m' \<and>
    (bs \<noteq> [] \<longrightarrow> reg m' 2 = word_of_nat (length bs) \<and> unat (buffer_address m) + length bs \<le> length (user_mem m))"
proof -
  obtain r where "copy_out_result r (buffer_address m) p m = Inr (Return m' s' ops)"
    using h by (auto simp: handle_SC_Read_def handle_SC_Receive_def Let_def rbind_eq_Inr buffer_address_def)
  then obtain n buffer where c: "reg m' 2 = word_of_int n" "if n > 0 then n \<le> int (length buffer) \<and>
      unat (buffer_address m) + nat n \<le> length (user_mem m) \<and>
      returned (patch (user_mem m) (unat (buffer_address m)) (take (nat n) buffer)) m m' else returned (user_mem m) m m'"
    using copy_out_returned [OF _ ok] by blast
  show ?thesis
  proof (cases "n > 0")
    case True
    then have "length (take (nat n) buffer) = nat n" using c(2) by (simp add: nat_le_iff min_absorb2)
    then show ?thesis using c True by (intro exI [of _ "take (nat n) buffer"]) simp
  next
    case False
    then show ?thesis using c by (intro exI [of _ "[]"]) simp
  qed
qed

text \<open>Calls that go on in the process table.\<close>

definition exiting :: "'h usys \<Rightarrow> nat \<Rightarrow> bool" where
  "exiting s p \<longleftrightarrow> (\<exists>code. control (us_psys s) p = Some (PExitWait code))"

lemma SysExit_Enter: "SysExit p c m s = Inr (Enter m1 s1) \<Longrightarrow> exiting s1 p"
  by (auto simp: SysExit_def Exit_enter_def goto_def rbind_eq_Inr exiting_def split: if_splits)

lemma return_not_Enter: "return_ops x ops m s \<noteq> Inr (Enter m1 s1)" "return_result r m \<noteq> Inr (Enter m1 s1)"
  by (auto simp: return_ops_def return_result_def rbind_eq_Inr)

lemma on_access_Enter:
  assumes "on_access r p s f = Inr (Enter m1 s1)" "\<not> exiting s1 p"
  obtains a m2 where "r = Inr (Done a m2)" and "f a m2 = Inr (Enter m1 s1)"
proof -
  obtain x where x: "r = Inr x" "(case x of Trap e m \<Rightarrow> SysExit p (exit_status e) m s | Done a m \<Rightarrow> f a m) = Inr (Enter m1 s1)"
    using assms(1) by (auto simp: on_access_def rbind_eq_Inr)
  show thesis using x that assms(2) by (cases x) (auto dest: SysExit_Enter)
qed

lemma reads_then_returns:
  "on_access r p s (\<lambda>a m2. return_result (f a m2) m2) = Inr (Enter m1 s1) \<Longrightarrow> exiting s1 p"
  "on_access r p s (\<lambda>a m2. rbind (g a) (\<lambda>(x, ops). return_ops x ops m2 s)) = Inr (Enter m1 s1) \<Longrightarrow> exiting s1 p"
  "on_access r p s (\<lambda>a m2. return_ops x [] m2 s) = Inr (Enter m1 s1) \<Longrightarrow> exiting s1 p"
  by (rule ccontr, auto elim!: on_access_Enter simp: return_not_Enter rbind_eq_Inr)+

lemma copy_out_Enter: "copy_out_result r v p m = Inr (Enter m1 s1) \<Longrightarrow> exiting s1 p"
  using reads_then_returns(3) by (auto simp: copy_out_result_def rbind_eq_Inr return_not_Enter split: if_splits)

lemma read_argv_done: "read_argv n v m = Inr (Done argv m') \<Longrightarrow> user_ok m \<Longrightarrow> only_read m m'"
proof (induction n v m arbitrary: argv m' rule: read_argv.induct)
  case (2 n v m)
  obtain x m1 where x: "ReadMem m v 4 = Inr (Done x m1)" "abind (user_string x m1) (\<lambda>a m2.
      abind (read_argv n (v + 4) m2) (\<lambda>argv m3. Inr (Done (cstr a # argv) m3))) = Inr (Done argv m')"
    using 2(2) by (auto elim: abind_Done)
  obtain a m2 where a: "user_string x m1 = Inr (Done a m2)"
      "abind (read_argv n (v + 4) m2) (\<lambda>argv m3. Inr (Done (cstr a # argv) m3)) = Inr (Done argv m')" using x(2) by (auto elim: abind_Done)
  obtain as where c: "read_argv n (v + 4) m2 = Inr (Done as m')" using a(2) by (auto elim: abind_Done)
  have o: "only_read m m1" using ReadMem_done [OF 2(3) _ x(1)] by simp
  have o2: "only_read m1 m2" by (rule user_string_done [OF a(1) only_read_ok [OF o]])
  show ?case using 2(1) [OF c only_read_ok [OF o2]] o o2 only_read_trans by blast
qed (simp add: only_read_refl)

lemma handle_syscall_Enter:
  assumes ok: "user_ok m" and h: "handle_syscall u p (reg m 2) m s = Inr (Enter m1 s1)" and e: "\<not> exiting s1 p"
  shows "reg m 2 \<in> {2, 3, 13} \<and> only_read m m1"
proof -
  have "only_read m m1" if "handle_SC_Exec p m s = Inr (Enter m1 s1)"
    using that e user_string_done [OF _ ok] unfolding handle_SC_Exec_def by (auto elim!: on_access_Enter)
  moreover have "only_read m m1" if "handle_SC_ExecV p m s = Inr (Enter m1 s1)"
    using that e read_argv_done [OF _ ok] unfolding handle_SC_ExecV_def Let_def by (auto elim!: on_access_Enter simp: rbind_eq_Inr)
  moreover have "only_read m m1" if "handle_SC_Join p m s = Inr (Enter m1 s1)"
    using that only_read_refl [OF ok] by (auto simp: handle_SC_Join_def rbind_eq_Inr)
  moreover have "reg m 2 \<in> {2, 3, 13}"
  proof (rule ccontr)
    assume n: "reg m 2 \<notin> {2, 3, 13}"
    have "handle_SC_Send u p m s = Inr (Enter m1 s1) \<Longrightarrow> exiting s1 p" "handle_SC_Write u p m s = Inr (Enter m1 s1) \<Longrightarrow> exiting s1 p"
      by (auto simp: handle_SC_Send_def handle_SC_Write_def Let_def rbind_eq_Inr return_not_Enter split: if_splits dest: reads_then_returns)
    moreover have "handle_SC_Read u p m s = Inr (Enter m1 s1) \<Longrightarrow> exiting s1 p" "handle_SC_Receive u p m s = Inr (Enter m1 s1) \<Longrightarrow> exiting s1 p"
      by (auto simp: handle_SC_Read_def handle_SC_Receive_def Let_def rbind_eq_Inr dest: copy_out_Enter)
    ultimately show False using h n e unfolding handle_syscall_def
      by (auto simp: handle_SC_Exit_def handle_SC_Add_def simple_handlers name_handlers string_handlers handle_SC_Wait_def handle_SC_Signal_def
        return_not_Enter split: if_splits dest: SysExit_Enter reads_then_returns)
  qed
  ultimately show ?thesis using h by (auto simp: handle_syscall_def)
qed

lemma finish_call_returned:
  assumes ok: "user_ok m" and t: "reg m 2 \<in> {2, 3, 13}" and o: "only_read m m1"
  shows "\<exists>m'. finish_call p m1 s2 = Inr (Return m' s2 []) \<and> returned (user_mem m) m m' \<and> reg m' 2 = word_of_int (pt_ret (us_psys s2) p)"
proof -
  let ?x = "pt_ret (us_psys s2) p"
  have a: "accessed m m1" using o by (simp add: only_read_def)
  have r: "registers m1 = registers m" "length (registers m1) = 40" using a ok by (simp_all add: accessed_def user_ok_def cpu_ok_def nachos_consts)
  then have "reg m1 2 = reg m 2" by (simp add: reg_def)
  then have f: "finish_call p m1 s2 = return_ops ?x [] m1 s2"
    using t by (auto simp: finish_call_def finish_SC_Exec_def finish_SC_ExecV_def finish_SC_Join_def)
  obtain m' where m': "return_ops ?x [] m1 s2 = Inr (Return m' s2 [])"
    using r(2) by (simp add: return_ops_def setReturnCodeAndAdvancePC_def advancePC_def ReadRegister_def WriteRegister_def nachos_consts)
  show ?thesis using f m' return_ops_returned [OF m' a ok only_read_viewed [OF o]] by auto
qed

text \<open>
  C6: the system call convention. Whenever a system call returns to the user program, the program counter has
  moved on to the next instruction, no general register but register 2 has changed, and the memory of every other program is
  untouched. The memory of the program itself is unchanged, except that \<^verbatim>\<open>Read\<close> and \<^verbatim>\<open>Receive\<close> put their data into
  the buffer they were given, inside the address space, as many bytes as register 2 then says. This holds of the calls that complete in
  the handler, and of \<^verbatim>\<open>Exec\<close>, \<^verbatim>\<open>ExecV\<close> and \<^verbatim>\<open>Join\<close>, which go on in the process table: only these three do so without ending the process, and when
  the table has a result for the process, the handler returns it in register 2.
\<close>
theorem system_call_convention:
  assumes "user_ok m"
  shows "(\<forall>m' s' ops. ExceptionHandler u p SyscallException m s = Inr (Return m' s' ops) \<longrightarrow>
     (if reg m 2 \<in> {7, 19}
      then \<exists>bs. returned (patch (user_mem m) (unat (buffer_address m)) bs) m m' \<and>
        (bs \<noteq> [] \<longrightarrow> reg m' 2 = word_of_nat (length bs) \<and> unat (buffer_address m) + length bs \<le> length (user_mem m))
      else returned (user_mem m) m m')) \<and>
   (\<forall>m1 s1 s2. ExceptionHandler u p SyscallException m s = Inr (Enter m1 s1) \<and> \<not> exiting s1 p \<longrightarrow>
      reg m 2 \<in> {2, 3, 13} \<and>
      (\<exists>m'. finish_call p m1 s2 = Inr (Return m' s2 []) \<and> returned (user_mem m) m m' \<and> reg m' 2 = word_of_int (pt_ret (us_psys s2) p)))"
proof (intro conjI allI impI)
  fix m' s' ops assume "ExceptionHandler u p SyscallException m s = Inr (Return m' s' ops)"
  then have h: "handle_syscall u p (reg m 2) m s = Inr (Return m' s' ops)" by (simp add: ExceptionHandler_def)
  show "if reg m 2 \<in> {7, 19}
      then \<exists>bs. returned (patch (user_mem m) (unat (buffer_address m)) bs) m m' \<and>
        (bs \<noteq> [] \<longrightarrow> reg m' 2 = word_of_nat (length bs) \<and> unat (buffer_address m) + length bs \<le> length (user_mem m))
      else returned (user_mem m) m m'"
  proof (cases "reg m 2 \<in> {7, 19}")
    case True
    then show ?thesis using delivers_returned [OF assms] h by (auto simp: handle_syscall_def)
  next
    case False
    then have "returned (user_mem m) m m'"
      using h unfolding handle_syscall_def
      by (auto simp: process_handlers_Return split: if_splits dest: name_returned [OF assms] string_returned [OF assms]
          simple_handlers_returned [OF assms] transfer_returned [OF assms])
    then show ?thesis using False by simp
  qed
next
  fix m1 s1 s2 assume a: "ExceptionHandler u p SyscallException m s = Inr (Enter m1 s1) \<and> \<not> exiting s1 p"
  then have "reg m 2 \<in> {2, 3, 13} \<and> only_read m m1" using handle_syscall_Enter [OF assms, of u p s m1 s1] by (simp add: ExceptionHandler_def)
  then show "reg m 2 \<in> {2, 3, 13}"
    "\<exists>m'. finish_call p m1 s2 = Inr (Return m' s2 []) \<and> returned (user_mem m) m m' \<and> reg m' 2 = word_of_int (pt_ret (us_psys s2) p)"
    using finish_call_returned [OF assms] by blast+
qed

definition demo_call :: machine where
  "demo_call = demo_user\<lparr>registers := ((((replicate 40 0)[2 := 42])[4 := 2])[5 := 3])[35 := 4]\<rparr>"

lemma demo_call_ok: "user_ok demo_call"
  using demo_user_ok(1) by (simp add: demo_call_def user_ok_def cpu_ok_def reg_def nachos_consts)

text \<open>The UNIX signal that stands for an exception: \<^verbatim>\<open>SIGILL\<close>, \<^verbatim>\<open>SIGBUS\<close>, \<^verbatim>\<open>SIGFPE\<close> or \<^verbatim>\<open>SIGSEGV\<close>.\<close>

definition signal_of :: "ExceptionType \<Rightarrow> int" where
  "signal_of e = (if e = IllegalInstrException then 4
     else if e \<in> {PageFaultException, BusErrorException, AddressErrorException} then 7
     else if e = OverflowException then 8 else 11)"

text \<open>
  C33: an exception of a user program ends only the process. A fault in a process other than process 0 makes this process
  exit as by \<^verbatim>\<open>Exit\<close>: its PCB gets the exit code 128 plus the number of the UNIX signal of the exception (132 for an illegal instruction,
  135 for a page fault, bus or address error, 136 for overflow, 139 for a write to a read-only page), its parent can join it,
  and every other process, the files, all semaphores and the machine are left as they are. A fault in process 0
  halts the machine, as its \<^verbatim>\<open>Exit\<close> does.
\<close>
theorem exception_ends_only_the_process:
  assumes "proc_ok (us_psys s)" and "\<not> halted (us_psys s)" and "control (us_psys s) p = Some PRun"
    and "which \<in> {PageFaultException, ReadOnlyException, BusErrorException, AddressErrorException, OverflowException, IllegalInstrException}"
  shows "if p = 0 then ExceptionHandler u p which m s = Inr Halts
    else \<exists>s' pcb. ExceptionHandler u p which m s = Inr (Enter m s') \<and> \<not> halted (us_psys s') \<and>
      pt_table (us_psys s) p = Some pcb \<and> control (us_psys s') p = Some (PExitWait (128 + signal_of which)) \<and>
      pt_table (us_psys s') p = Some (pcb\<lparr>exitCode := 128 + signal_of which, joinSem := joinSem pcb + 1\<rparr>) \<and>
      (\<forall>q. q \<noteq> p \<longrightarrow> control (us_psys s') q = control (us_psys s) q \<and> pt_table (us_psys s') q = pt_table (us_psys s) q) \<and>
      p_fs (us_psys s') = p_fs (us_psys s) \<and> us_stable s' = us_stable s \<and> us_sems s' = us_sems s"
proof -
  have e: "ExceptionHandler u p which m s = SysExit p (exit_status which) m s" using assms(4) by (auto simp: ExceptionHandler_def)
  have c: "exit_status which = 128 + signal_of which" using assms(4) by (auto simp: exit_status_def signal_of_def)
  have "protocol (pt_table (us_psys s)) (control (us_psys s))" using assms(1) by (simp add: proc_ok_def)
  then obtain pcb where pcb: "pt_table (us_psys s) p = Some pcb" using protocolD(1) assms(3) by (metis domD domI)
  show ?thesis
  proof (cases "p = 0")
    case True
    then show ?thesis unfolding e by (simp add: SysExit_def Exit_enter_def)
  next
    case False
    then show ?thesis unfolding e using pcb assms(2) c by (simp add: SysExit_def Exit_enter_def upd_pcb_def pcb_at_def goto_def)
  qed
qed

definition demo_processes :: "(byte list \<times> nat) psys" where
  "demo_processes = \<lparr>pt_bitmap = \<lparr>numBits = 10, numWords = 1, bm_map = [3]\<rparr>, bitmapMutex = 1,
     pt_table = [0 \<mapsto> new_PCB 0 (-1) 0, 1 \<mapsto> new_PCB 1 0 1], control = [0 \<mapsto> PRun, 1 \<mapsto> PRun], pt_ret = (\<lambda>_. 0), next_stamp = 2,
     halted = False, p_fs = new_FileSystem ([], 0)\<rparr>"

definition demo_usys :: "(byte list \<times> nat) usys" where
  "demo_usys = \<lparr>us_psys = demo_processes, us_stable = two_slots, us_sems = (\<lambda>_. \<lparr>sem_value = 0, sem_queue = []\<rparr>)\<rparr>"



lemma demo_processes_ok: "proc_ok demo_processes"
proof -
  have m: "(3 :: 32 word) = mask 2" by (simp add: mask_eq_exp_minus_1)
  have "used_slots \<lparr>numBits = 10, numWords = 1, bm_map = [3]\<rparr> = {i. 0 \<le> i \<and> i < 10 \<and> bit (3 :: 32 word) (nat (i mod 32))}"
    by (auto simp: used_slots_def)
  also have "\<dots> = {0, 1}" unfolding m by (auto simp: bit_mask_iff)
  finally have "used_slots \<lparr>numBits = 10, numWords = 1, bm_map = [3]\<rparr> = {0, 1}" .
  then have "pids_ok (pt_bitmap demo_processes) (pt_table demo_processes)"
    by (auto simp: pids_ok_def demo_processes_def bitmap_ok_def nachos_consts divRoundUp_def new_PCB_def split: if_splits)
  moreover have "protocol (pt_table demo_processes) (control demo_processes)"
    by (auto simp: protocol_def demo_processes_def proto_def joiners_def new_PCB_def split: if_splits)
  moreover have "tabs (pt_table demo_processes) = [0 \<mapsto> new_FileTable, 1 \<mapsto> new_FileTable]"
    by (auto simp: tabs_def demo_processes_def new_PCB_def)
  moreover have "files_ok (gtable (new_FileSystem ([], 0))) [0 \<mapsto> new_FileTable, 1 \<mapsto> new_FileTable]"
    by (rule files_ok_new [OF files_ok_start])
  ultimately show ?thesis by (simp add: proc_ok_def demo_processes_def)
qed

theorem exception_ends_only_the_process_witness:
  "\<exists>s'. ExceptionHandler one_file 1 OverflowException demo_call demo_usys = Inr (Enter demo_call s') \<and>
     control (us_psys s') 1 = Some (PExitWait 136) \<and> control (us_psys s') 0 = Some PRun"
  using exception_ends_only_the_process [of demo_usys 1 OverflowException one_file demo_call] demo_processes_ok
  by (auto simp: demo_usys_def demo_processes_def signal_of_def)

text \<open>An addition returns; a \<^verbatim>\<open>Join\<close> of a process that does not exist enters the process table, which has the result -1 at once.\<close>

theorem system_call_convention_witness:
  "(\<exists>m'. ExceptionHandler one_file 1 SyscallException demo_call demo_usys = Inr (Return m' demo_usys []) \<and>
     reg m' 2 = 5 \<and> returned (user_mem demo_call) demo_call m') \<and>
   (let m = demo_call\<lparr>registers := ((registers demo_call)[2 := 3])[4 := 7]\<rparr> in
    \<exists>s1 m'. ExceptionHandler one_file 1 SyscallException m demo_usys = Inr (Enter m s1) \<and>
      finish_call 1 m s1 = Inr (Return m' s1 []) \<and> reg m' 2 = -1 \<and> returned (user_mem m) m m')"
proof (unfold Let_def, intro conjI)
  have r: "reg demo_call 2 = 42" "reg demo_call 4 = 2" "reg demo_call 5 = 3" "length (registers demo_call) = 40"
    by (simp_all add: demo_call_def reg_def)
  have "\<exists>m'. setReturnCodeAndAdvancePC 5 demo_call = Inr m' \<and> reg m' 2 = 5"
    using r(4) by (simp add: setReturnCodeAndAdvancePC_def advancePC_def ReadRegister_def WriteRegister_def nachos_consts reg_def)
  then obtain m' where m': "setReturnCodeAndAdvancePC 5 demo_call = Inr m'" "reg m' 2 = 5" by blast
  then have e: "ExceptionHandler one_file 1 SyscallException demo_call demo_usys = Inr (Return m' demo_usys [])"
    using r by (simp add: ExceptionHandler_def handle_syscall_def handle_SC_Add_def SysAdd_def return_ops_def)
  then show "\<exists>m'. ExceptionHandler one_file 1 SyscallException demo_call demo_usys = Inr (Return m' demo_usys []) \<and>
     reg m' 2 = 5 \<and> returned (user_mem demo_call) demo_call m'"
    using system_call_convention [OF demo_call_ok, of one_file 1 demo_usys] m'(2) r(1) by auto
  let ?m = "demo_call\<lparr>registers := ((registers demo_call)[2 := 3])[4 := 7]\<rparr>"
  have ok: "user_ok ?m" using demo_call_ok r(4) by (simp add: user_ok_def cpu_ok_def reg_def nachos_consts)
  have r2: "reg ?m 2 = 3" "reg ?m 4 = 7" using r(4) by (simp_all add: reg_def)
  let ?s1 = "demo_usys\<lparr>us_psys := return (us_psys demo_usys) 1 (-1)\<rparr>"
  have x: "ExceptionHandler one_file 1 SyscallException ?m demo_usys = Inr (Enter ?m ?s1)"
    using r2 by (simp add: ExceptionHandler_def handle_syscall_def handle_SC_Join_def SysJoin_def Join_enter_def GetCurrentPCB_def IsValidPID_def
      pcb_at_def demo_usys_def demo_processes_def nachos_consts)
  have "\<not> exiting ?s1 1" "pt_ret (us_psys ?s1) 1 = -1" by (simp_all add: exiting_def return_def goto_def)
  then have "\<exists>m'. finish_call 1 ?m ?s1 = Inr (Return m' ?s1 []) \<and> returned (user_mem ?m) ?m m' \<and> reg m' 2 = -1"
    using system_call_convention [OF ok, of one_file 1 demo_usys, THEN conjunct2, rule_format, of ?m ?s1 ?s1] x by simp
  then show "\<exists>s1 m'. ExceptionHandler one_file 1 SyscallException ?m demo_usys = Inr (Enter ?m s1) \<and>
      finish_call 1 ?m s1 = Inr (Return m' s1 []) \<and> reg m' 2 = -1 \<and> returned (user_mem ?m) ?m m'"
    using x by blast
qed

end
