(* ===== verification/Sector_Store.thy ===== *)
theory Sector_Store
  imports Paged_View
begin

text \<open>
  The interface between the file system and the disk below it: \<^verbatim>\<open>kernel->synchDisk\<close>, an object with the two
  operations \<^verbatim>\<open>ReadSector\<close> and \<^verbatim>\<open>WriteSector\<close>. What the file system relies on is that the disk behaves as an array of
  sectors: a read delivers the sector as it was last written and changes nothing, a write changes that sector only.
\<close>

definition NumSectors :: int where [nachos_consts]: "NumSectors = SectorsPerTrack * NumTracks"

record 's synch_disk =
  sd_ReadSector :: "int \<Rightarrow> 's \<Rightarrow> (byte list \<times> 's) result"
  sd_WriteSector :: "int \<Rightarrow> byte list \<Rightarrow> 's \<Rightarrow> 's result"

text \<open>Sector \<open>n\<close> of the disk's content.\<close>

definition sector_of :: "byte list \<Rightarrow> nat \<Rightarrow> byte list" where
  "sector_of D n = take 128 (drop (n * 128) D)"

locale sector_disk =
  fixes d :: "'s synch_disk" and ok :: "'s \<Rightarrow> bool" and content :: "'s \<Rightarrow> byte list"
  assumes size_law: "ok s \<Longrightarrow> length (content s) = 131072"
    and read_law: "ok s \<Longrightarrow> 0 \<le> n \<Longrightarrow> n < NumSectors \<Longrightarrow>
      \<exists>s'. sd_ReadSector d n s = Inr (sector_of (content s) (nat n), s') \<and> ok s' \<and> content s' = content s"
    and write_law: "ok s \<Longrightarrow> 0 \<le> n \<Longrightarrow> n < NumSectors \<Longrightarrow> length bs = 128 \<Longrightarrow>
      \<exists>s'. sd_WriteSector d n bs s = Inr s' \<and> ok s' \<and> content s' = patch (content s) (nat n * 128) bs"

lemma length_sector_of: "n < 1024 \<Longrightarrow> length D = 131072 \<Longrightarrow> length (sector_of D n) = 128"
  by (simp add: sector_of_def)

lemma nth_sector_of: "n < 1024 \<Longrightarrow> length D = 131072 \<Longrightarrow> k < 128 \<Longrightarrow> sector_of D n ! k = D ! (n * 128 + k)"
  by (simp add: sector_of_def)

text \<open>What a sector holds after a store of one whole sector.\<close>

lemma sector_of_patch:
  assumes "m < 1024" "n < 1024" "length D = 131072" "length bs = 128"
  shows "sector_of (patch D (m * 128) bs) n = (if m = n then bs else sector_of D n)"
proof (rule nth_equalityI)
  have l: "length (patch D (m * 128) bs) = 131072" using assms by (simp add: length_patch)
  then show "length (sector_of (patch D (m * 128) bs) n) = length (if m = n then bs else sector_of D n)"
    using assms by (simp add: length_sector_of)
  fix k assume "k < length (sector_of (patch D (m * 128) bs) n)"
  then have k: "k < 128" using l assms by (simp add: length_sector_of)
  have "patch D (m * 128 + 0) bs ! (n * 128 + k) = (if m = n \<and> 0 \<le> k \<and> k < 0 + length bs then bs ! (k - 0) else D ! (n * 128 + k))"
    by (rule nth_patch_block) (use assms k in auto)
  then show "sector_of (patch D (m * 128) bs) n ! k = (if m = n then bs else sector_of D n) ! k"
    using assms k l by (simp add: nth_sector_of)
qed

end
