(* ===== verification/Disk.thy ===== *)
theory Disk
  imports Interrupts Host_Files Sector_Store
begin

text \<open>
  The simulated disk (\<^verbatim>\<open>machine/disk.h\<close>, \<^verbatim>\<open>machine/disk.cc\<close>) and its synchronous interface
  (\<^verbatim>\<open>filesys/synchdisk.cc\<close>). The disk is a UNIX file of 1024 sectors behind a magic number; a request does its
  transfer at once and schedules an interrupt at the time \<^verbatim>\<open>ComputeLatency\<close> gives; \<^verbatim>\<open>SynchDisk\<close> makes the calling
  thread wait for it. The state is that of theory \<open>Interrupts\<close>, its world being the members of the two objects
  and the host. The model follows one thread in a kernel whose only device is the disk: while it waits no other
  thread is ready and the kernel idles.
\<close>

section \<open>State\<close>

definition MagicNumber :: "32 word" where "MagicNumber = 0x456789ab"
definition MagicSize :: int where [nachos_consts]: "MagicSize = 4"
definition DiskSize :: int where [nachos_consts]: "DiskSize = MagicSize + NumSectors * SectorSize"
definition RotationTime :: int where [nachos_consts]: "RotationTime = 500"
definition SeekTime :: int where [nachos_consts]: "SeekTime = 500"

text \<open>The two semaphores of \<^verbatim>\<open>SynchDisk\<close>: \<^verbatim>\<open>semaphore\<close> and the one inside \<^verbatim>\<open>lock\<close>.\<close>

datatype sdsem = SynchSem | LockSem

text \<open>
  \<open>sd_waits\<close> says that the calling thread is in the queue of a semaphore, \<open>sd_runnable\<close> that it is in the ready
  list, \<open>sd_held\<close> that it holds the lock.
\<close>

record 'h disk_world =
  d_fileno :: int
  d_active :: bool
  lastSector :: int
  bufferInit :: int
  numDiskReads :: int
  numDiskWrites :: int
  sd_value :: "sdsem \<Rightarrow> int"
  sd_waits :: "sdsem \<Rightarrow> bool"
  sd_runnable :: bool
  sd_held :: bool
  d_host :: 'h

type_synonym 'h dstate = "(unit, 'h disk_world) Interrupt"

abbreviation upd_world :: "('h disk_world \<Rightarrow> 'h disk_world) \<Rightarrow> 'h dstate \<Rightarrow> 'h dstate" where
  "upd_world f s \<equiv> s\<lparr>world := f (world s)\<rparr>"

abbreviation ticks :: "('cb, 'w) Interrupt \<Rightarrow> int" where
  "ticks s \<equiv> totalTicks (stats s)"

section \<open>The disk\<close>

definition TimeToSeek :: "'h dstate \<Rightarrow> int \<Rightarrow> int \<times> int" where
  "TimeToSeek s newSector =
     (let newTrack = newSector sdiv SectorsPerTrack;
          oldTrack = lastSector (world s) sdiv SectorsPerTrack;
          seek = \<bar>newTrack - oldTrack\<bar> * SeekTime;
          over = (ticks s + seek) smod RotationTime
      in (seek, if over > 0 then RotationTime - over else 0))"

definition ModuloDiff :: "int \<Rightarrow> int \<Rightarrow> int" where
  "ModuloDiff to from =
     (let toOffset = to smod SectorsPerTrack; fromOffset = from smod SectorsPerTrack
      in (toOffset - fromOffset + SectorsPerTrack) smod SectorsPerTrack)"

definition ComputeLatency :: "'h dstate \<Rightarrow> int \<Rightarrow> bool \<Rightarrow> int" where
  "ComputeLatency s newSector writing =
     (let (seek, rotation) = TimeToSeek s newSector;
          timeAfter = ticks s + seek + rotation
      in if \<not> writing \<and> seek = 0 \<and>
            (timeAfter - bufferInit (world s)) sdiv RotationTime > ModuloDiff newSector (bufferInit (world s) sdiv RotationTime)
         then RotationTime
         else seek + (rotation + ModuloDiff newSector (timeAfter sdiv RotationTime) * RotationTime) + RotationTime)"

definition UpdateLast :: "'h dstate \<Rightarrow> int \<Rightarrow> 'h dstate" where
  "UpdateLast s newSector =
     (let (seek, rotate) = TimeToSeek s newSector;
          b = (if seek \<noteq> 0 then ticks s + seek + rotate else bufferInit (world s))
      in upd_world (\<lambda>w. w\<lparr>bufferInit := b, lastSector := newSector\<rparr>) s)"

text \<open>\<^verbatim>\<open>Disk::Disk\<close>: the file descriptor and the host afterwards; the other members get their initial values.\<close>

definition open_disk :: "'h unix \<Rightarrow> string \<Rightarrow> 'h \<Rightarrow> (int \<times> 'h) result" where
  "open_disk u diskname h =
     rbind (OpenForReadWrite u diskname False h) (\<lambda>(fd, h1).
     if fd \<ge> 0
     then rbind (ReadFile u fd MagicSize h1) (\<lambda>(bs, h2).
          rbind (rassert (bs = word_bytes MagicNumber)) (\<lambda>_. Inr (fd, h2)))
     else rbind (OpenForWrite u diskname True h1) (\<lambda>(fd, h2).
          rbind (WriteFile u fd (word_bytes MagicNumber) h2) (\<lambda>h3.
          rbind (Lseek u fd (DiskSize - 4) SEEK_SET h3) (\<lambda>h4.
          rbind (WriteFile u fd (word_bytes 0) h4) (\<lambda>h5. Inr (fd, h5))))))"

definition delete_Disk :: "'h unix \<Rightarrow> 'h dstate \<Rightarrow> 'h dstate result" where
  "delete_Disk u s = rbind (Close_fd u (d_fileno (world s)) (d_host (world s)))
     (\<lambda>(r, h). Inr (upd_world (\<lambda>w. w\<lparr>d_host := h\<rparr>) s))"

definition ReadRequest :: "'h unix \<Rightarrow> int \<Rightarrow> 'h dstate \<Rightarrow> (byte list \<times> 'h dstate) result" where
  "ReadRequest u sectorNumber s =
     (let delay = ComputeLatency s sectorNumber False; fd = d_fileno (world s) in
      rbind (rassert (\<not> d_active (world s))) (\<lambda>_.
      rbind (rassert (sectorNumber \<ge> 0 \<and> sectorNumber < NumSectors)) (\<lambda>_.
      rbind (Lseek u fd (SectorSize * sectorNumber + MagicSize) SEEK_SET (d_host (world s))) (\<lambda>h1.
      rbind (ReadFile u fd SectorSize h1) (\<lambda>(data, h2).
      let s1 = UpdateLast (upd_world (\<lambda>w. w\<lparr>d_host := h2, d_active := True\<rparr>) s) sectorNumber;
          s2 = upd_world (\<lambda>w. w\<lparr>numDiskReads := numDiskReads w + 1\<rparr>) s1
      in rbind (Schedule () delay DiskInt s2) (\<lambda>s3. Inr (data, s3)))))))"

definition WriteRequest :: "'h unix \<Rightarrow> int \<Rightarrow> byte list \<Rightarrow> 'h dstate \<Rightarrow> 'h dstate result" where
  "WriteRequest u sectorNumber data s =
     (let delay = ComputeLatency s sectorNumber True; fd = d_fileno (world s) in
      rbind (rassert (\<not> d_active (world s))) (\<lambda>_.
      rbind (rassert (sectorNumber \<ge> 0 \<and> sectorNumber < NumSectors)) (\<lambda>_.
      rbind (Lseek u fd (SectorSize * sectorNumber + MagicSize) SEEK_SET (d_host (world s))) (\<lambda>h1.
      rbind (WriteFile u fd data h1) (\<lambda>h2.
      let s1 = UpdateLast (upd_world (\<lambda>w. w\<lparr>d_host := h2, d_active := True\<rparr>) s) sectorNumber;
          s2 = upd_world (\<lambda>w. w\<lparr>numDiskWrites := numDiskWrites w + 1\<rparr>) s1
      in Schedule () delay DiskInt s2)))))"

section \<open>The synchronous disk\<close>

text \<open>
  \<^verbatim>\<open>Semaphore::V\<close> between its two calls of \<^verbatim>\<open>SetLevel\<close>; in the interrupt handler, which runs with interrupts off,
  those calls change nothing.
\<close>

definition V_world :: "sdsem \<Rightarrow> 'h disk_world \<Rightarrow> 'h disk_world" where
  "V_world x w =
     (if sd_waits w x then w\<lparr>sd_waits := (sd_waits w)(x := False), sd_runnable := True\<rparr> else w)
       \<lparr>sd_value := (sd_value w)(x := sd_value w x + 1)\<rparr>"

definition V_body :: "sdsem \<Rightarrow> 'h dstate \<Rightarrow> 'h dstate" where
  "V_body x s = upd_world (V_world x) s"

definition SynchDisk_CallBack :: "'h dstate \<Rightarrow> 'h dstate" where
  "SynchDisk_CallBack s = V_body SynchSem s"

definition Disk_CallBack :: "unit \<Rightarrow> 'h dstate \<Rightarrow> 'h dstate result" where
  "Disk_CallBack _ s = Inr (SynchDisk_CallBack (upd_world (\<lambda>w. w\<lparr>d_active := False\<rparr>) s))"

text \<open>
  \<^verbatim>\<open>SetLevel\<close> with the disk as the only device. No handler asks for a yield, so the yield it is given is never
  reached.
\<close>

definition sd_SetLevel :: "IntStatus \<Rightarrow> 'h dstate \<Rightarrow> (IntStatus \<times> 'h dstate) result option" where
  "sd_SetLevel now s = SetLevel Disk_CallBack (\<lambda>s. Some (Inr s)) now s"

text \<open>
  The loop of \<^verbatim>\<open>Thread::Sleep\<close>: the kernel idles until the thread is ready. A kernel that halts never returns.
\<close>

partial_function (option) sd_sleep :: "'h dstate \<Rightarrow> 'h dstate result option" where
  "sd_sleep s =
     (if sd_runnable (world s) then Some (Inr (s\<lparr>world := (world s)\<lparr>sd_runnable := False\<rparr>\<rparr>))
      else case Idle Disk_CallBack s of
             None \<Rightarrow> None
           | Some (Inl e) \<Rightarrow> Some (Inl e)
           | Some (Inr (Halted s1)) \<Rightarrow> None
           | Some (Inr (Resume s1)) \<Rightarrow> sd_sleep s1)"

partial_function (option) sd_wait :: "sdsem \<Rightarrow> 'h dstate \<Rightarrow> 'h dstate result option" where
  "sd_wait x s =
     (if sd_value (world s) x = 0
      then case sd_sleep (s\<lparr>world := (world s)\<lparr>sd_waits := (sd_waits (world s))(x := True)\<rparr>\<rparr>) of
             None \<Rightarrow> None
           | Some (Inl e) \<Rightarrow> Some (Inl e)
           | Some (Inr s1) \<Rightarrow> sd_wait x s1
      else Some (Inr (s\<lparr>world := (world s)\<lparr>sd_value := (sd_value (world s))(x := sd_value (world s) x - 1)\<rparr>\<rparr>)))"

text \<open>A computation that may not return, followed by another; one that does not return is \<open>Diverges\<close>.\<close>

definition returns :: "'a result option \<Rightarrow> 'a result" where
  "returns r = (case r of None \<Rightarrow> Inl Diverges | Some x \<Rightarrow> x)"

definition sd_P :: "sdsem \<Rightarrow> 'h dstate \<Rightarrow> 'h dstate result" where
  "sd_P x s =
     rbind (returns (sd_SetLevel IntOff s)) (\<lambda>(old, s1).
     rbind (returns (sd_wait x s1)) (\<lambda>s2.
     rbind (returns (sd_SetLevel old s2)) (\<lambda>(_, s3). Inr s3)))"

definition sd_V :: "sdsem \<Rightarrow> 'h dstate \<Rightarrow> 'h dstate result" where
  "sd_V x s =
     rbind (returns (sd_SetLevel IntOff s)) (\<lambda>(old, s1).
     rbind (returns (sd_SetLevel old (V_body x s1))) (\<lambda>(_, s2). Inr s2))"

definition sd_Acquire :: "'h dstate \<Rightarrow> 'h dstate result" where
  "sd_Acquire s = rbind (sd_P LockSem s) (\<lambda>s1. Inr (upd_world (\<lambda>w. w\<lparr>sd_held := True\<rparr>) s1))"

definition sd_Release :: "'h dstate \<Rightarrow> 'h dstate result" where
  "sd_Release s =
     rbind (rassert (sd_held (world s))) (\<lambda>_. sd_V LockSem (upd_world (\<lambda>w. w\<lparr>sd_held := False\<rparr>) s))"

definition ReadSector :: "'h unix \<Rightarrow> int \<Rightarrow> 'h dstate \<Rightarrow> (byte list \<times> 'h dstate) result" where
  "ReadSector u sectorNumber s =
     rbind (sd_Acquire s) (\<lambda>s1.
     rbind (ReadRequest u sectorNumber s1) (\<lambda>(data, s2).
     rbind (sd_P SynchSem s2) (\<lambda>s3.
     rbind (sd_Release s3) (\<lambda>s4. Inr (data, s4)))))"

definition WriteSector :: "'h unix \<Rightarrow> int \<Rightarrow> byte list \<Rightarrow> 'h dstate \<Rightarrow> 'h dstate result" where
  "WriteSector u sectorNumber data s =
     rbind (sd_Acquire s) (\<lambda>s1.
     rbind (WriteRequest u sectorNumber data s1) (\<lambda>s2.
     rbind (sd_P SynchSem s2) (\<lambda>s3. sd_Release s3)))"

definition new_SynchDisk :: "'h unix \<Rightarrow> string \<Rightarrow> (unit, 'w) Interrupt \<Rightarrow> 'h \<Rightarrow> 'h dstate result" where
  "new_SynchDisk u diskname k h =
     rbind (open_disk u diskname h) (\<lambda>(fd, h1).
     Inr \<lparr>level = level k, pending = pending k, inHandler = inHandler k, yieldOnReturn = yieldOnReturn k, status = status k,
        stats = stats k, next_id = next_id k, i_machine = i_machine k,
        world = \<lparr>d_fileno = fd, d_active = False, lastSector = 0, bufferInit = 0, numDiskReads = 0, numDiskWrites = 0,
          sd_value = (\<lambda>x. case x of SynchSem \<Rightarrow> 0 | LockSem \<Rightarrow> 1), sd_waits = (\<lambda>_. False), sd_runnable = False,
          sd_held = False, d_host = h1\<rparr>\<rparr>)"

section \<open>Latency\<close>

lemma ModuloDiff_nonneg: "0 \<le> a \<Longrightarrow> 0 \<le> b \<Longrightarrow> ModuloDiff a b = (a - b) mod 32"
proof -
  assume a: "0 \<le> a" "0 \<le> b"
  have "0 \<le> a mod 32" "b mod 32 < 32" by simp_all
  then have "0 \<le> a mod 32 - b mod 32 + 32" by linarith
  then have "ModuloDiff a b = (a mod 32 - b mod 32 + 32) mod 32"
    using a by (simp add: ModuloDiff_def Let_def nachos_consts smod_nonneg)
  also have "\<dots> = (a - b) mod 32" by (simp add: mod_diff_eq)
  finally show ?thesis .
qed

text \<open>Where the head is and when the track buffer started are meaningful.\<close>

definition head_ok :: "'h dstate \<Rightarrow> bool" where
  "head_ok s \<longleftrightarrow> 0 \<le> ticks s \<and> 0 \<le> lastSector (world s) \<and> lastSector (world s) < NumSectors \<and> 0 \<le> bufferInit (world s)"

definition seek_time :: "'h dstate \<Rightarrow> int \<Rightarrow> int" where
  "seek_time s n = \<bar>n div SectorsPerTrack - lastSector (world s) div SectorsPerTrack\<bar> * SeekTime"

lemma seek_time_bounds:
  assumes "head_ok s" "0 \<le> n" "n < NumSectors"
  shows "0 \<le> seek_time s n" "seek_time s n \<le> (NumTracks - 1) * SeekTime"
proof -
  show "0 \<le> seek_time s n" by (simp add: seek_time_def nachos_consts)
  have "0 \<le> n div 32" "n div 32 \<le> 31" "0 \<le> lastSector (world s) div 32" "lastSector (world s) div 32 \<le> 31"
    using assms by (auto simp: head_ok_def nachos_consts)
  then show "seek_time s n \<le> (NumTracks - 1) * SeekTime" by (simp add: seek_time_def nachos_consts)
qed

lemma TimeToSeek_nonneg:
  assumes "head_ok s" "0 \<le> n"
  shows "TimeToSeek s n = (seek_time s n, (- (ticks s + seek_time s n)) mod RotationTime)"
proof -
  have p: "0 \<le> ticks s + seek_time s n" using assms by (simp add: head_ok_def seek_time_def nachos_consts)
  have "(- t) mod 500 = (if 0 < t mod 500 then 500 - t mod 500 else 0)" for t :: int
    using zmod_zminus1_eq_if [of t 500] by (simp add: order.strict_iff_order)
  moreover have "\<bar>n sdiv SectorsPerTrack - lastSector (world s) sdiv SectorsPerTrack\<bar> * SeekTime = seek_time s n"
    using assms by (simp add: seek_time_def nachos_consts sdiv_nonneg head_ok_def)
  moreover have "(ticks s + seek_time s n) smod RotationTime = (ticks s + seek_time s n) mod 500"
    using p by (simp add: smod_nonneg nachos_consts)
  ultimately show ?thesis by (simp only: TimeToSeek_def Let_def RotationTime_def)
qed

text \<open>
  The time at which a transfer from the platter is over: the disk turns by one sector in \<^verbatim>\<open>RotationTime\<close> ticks, so
  at a time \<open>t\<close> divisible by it sector number \<open>t div RotationTime - 1\<close>, taken modulo the sectors of a track, has just
  passed under the head.
\<close>

definition passes :: "int \<Rightarrow> int \<Rightarrow> bool" where
  "passes n t \<longleftrightarrow> t mod RotationTime = 0 \<and> (t div RotationTime - 1) mod SectorsPerTrack = n mod SectorsPerTrack"

definition platter_time :: "'h dstate \<Rightarrow> int \<Rightarrow> int" where
  "platter_time s n = (let a = (ticks s + seek_time s n + 499) div 500 in (a + (n - a) mod 32 + 1) * 500)"

lemma platter_time_first:
  shows "passes n (platter_time s n)" "ticks s + seek_time s n + RotationTime \<le> platter_time s n"
    "\<And>t. passes n t \<Longrightarrow> ticks s + seek_time s n + RotationTime \<le> t \<Longrightarrow> platter_time s n \<le> t"
    "platter_time s n < ticks s + seek_time s n + (SectorsPerTrack + 1) * RotationTime"
proof -
  define b where "b = ticks s + seek_time s n"
  define a where "a = (b + 499) div 500"
  define d where "d = (n - a) mod 32"
  have pt: "platter_time s n = (a + d + 1) * 500" by (simp add: platter_time_def Let_def a_def b_def d_def)
  have a: "b \<le> a * 500" "a * 500 \<le> b + 499" by (simp_all add: a_def)
  have d: "0 \<le> d" "d \<le> 31" by (simp_all add: d_def)
  have "(a + d) mod 32 = n mod 32" by (simp add: d_def mod_add_right_eq)
  then show "passes n (platter_time s n)" by (simp add: passes_def pt nachos_consts)
  show "ticks s + seek_time s n + RotationTime \<le> platter_time s n" using a d unfolding pt b_def [symmetric] by (simp add: nachos_consts)
  show "platter_time s n < ticks s + seek_time s n + (SectorsPerTrack + 1) * RotationTime"
    using a d unfolding pt b_def [symmetric] by (simp add: nachos_consts)
  fix t assume t: "passes n t" "ticks s + seek_time s n + RotationTime \<le> t"
  define q where "q = t div 500 - 1"
  have "t mod 500 = 0" using t(1) by (simp add: passes_def RotationTime_def)
  then have q: "t = (q + 1) * 500" using div_mult_mod_eq [of t 500] by (simp add: q_def)
  have "q mod 32 = n mod 32" using t(1) by (simp add: passes_def nachos_consts q_def)
  then have m: "(q - a) mod 32 = d" unfolding d_def by (rule mod_diff_cong) (rule refl)
  have "b \<le> q * 500" using t(2) q unfolding b_def [symmetric] by (simp add: RotationTime_def)
  then have "a \<le> q" unfolding a_def by linarith
  then have "d \<le> q - a" using m zmod_le_nonneg_dividend [of "q - a" 32] by simp
  then show "platter_time s n \<le> t" by (simp add: pt q)
qed

lemma round_up_500: "b + (- b) mod 500 = (b + 499) div 500 * (500 :: int)"
proof -
  have "b + (- b) mod 500 = - ((- b) div 500) * 500" using minus_mod_eq_div_mult [of "- b" 500] by linarith
  also have "- ((- b) div 500) = (b + 499) div 500" by linarith
  finally show ?thesis .
qed

lemma ComputeLatency_platter:
  assumes "head_ok s" "0 \<le> n"
  shows "ComputeLatency s n True = platter_time s n - ticks s"
    "ComputeLatency s n False = platter_time s n - ticks s \<or> ComputeLatency s n False = RotationTime \<and> seek_time s n = 0"
proof -
  let ?b = "ticks s + seek_time s n"
  have b: "0 \<le> ?b" using assms by (simp add: head_ok_def seek_time_def nachos_consts)
  have r: "?b + (- ?b) mod 500 = (?b + 499) div 500 * 500" by (rule round_up_500)
  then have "(?b + (- ?b) mod 500) sdiv 500 = (?b + 499) div 500" using b by (simp add: sdiv_nonneg)
  moreover have "0 \<le> (?b + 499) div 500" using b by simp
  ultimately have m: "ModuloDiff n ((?b + (- ?b) mod 500) sdiv 500) = (n - (?b + 499) div 500) mod 32"
    using ModuloDiff_nonneg [OF assms(2)] by simp
  have e: "seek_time s n + ((- ?b) mod 500 + (n - (?b + 499) div 500) mod 32 * 500) + 500 = platter_time s n - ticks s"
    using r by (simp add: platter_time_def Let_def algebra_simps)
  show "ComputeLatency s n True = platter_time s n - ticks s"
    using m e by (simp add: ComputeLatency_def TimeToSeek_nonneg [OF assms] Let_def RotationTime_def add.assoc)
  show "ComputeLatency s n False = platter_time s n - ticks s \<or> ComputeLatency s n False = RotationTime \<and> seek_time s n = 0"
    using m e by (simp add: ComputeLatency_def TimeToSeek_nonneg [OF assms] Let_def RotationTime_def add.assoc)
qed

lemma ComputeLatency_bounds:
  assumes "head_ok s" "0 \<le> n" "n < NumSectors"
  shows "RotationTime \<le> ComputeLatency s n w"
    "ComputeLatency s n w < (NumTracks - 1) * SeekTime + (SectorsPerTrack + 1) * RotationTime"
proof -
  note b = seek_time_bounds [OF assms] platter_time_first(2,4) [where s = s and n = n]
  have "ComputeLatency s n w = platter_time s n - ticks s \<or> ComputeLatency s n w = RotationTime \<and> seek_time s n = 0"
    using ComputeLatency_platter [OF assms(1,2)] by (cases w) auto
  then show "RotationTime \<le> ComputeLatency s n w"
    "ComputeLatency s n w < (NumTracks - 1) * SeekTime + (SectorsPerTrack + 1) * RotationTime"
    using b by (simp_all add: nachos_consts) linarith+
qed

lemma UpdateLast_ok:
  assumes "head_ok s" "0 \<le> n" "n < NumSectors"
  shows "\<exists>b. UpdateLast s n = upd_world (\<lambda>w. w\<lparr>bufferInit := b, lastSector := n\<rparr>) s \<and> 0 \<le> b"
proof -
  let ?b = "if seek_time s n \<noteq> 0 then ticks s + seek_time s n + (- (ticks s + seek_time s n)) mod RotationTime
    else bufferInit (world s)"
  have "0 \<le> (- (ticks s + seek_time s n)) mod RotationTime" by (simp add: RotationTime_def)
  then have "0 \<le> ?b" using assms(1) seek_time_bounds(1) [OF assms] by (simp add: head_ok_def)
  moreover have "UpdateLast s n = upd_world (\<lambda>w. w\<lparr>bufferInit := ?b, lastSector := n\<rparr>) s"
    by (simp only: UpdateLast_def TimeToSeek_nonneg [OF assms(1,2)] Let_def split_conv)
  ultimately show ?thesis by blast
qed

section \<open>The calling thread\<close>

text \<open>\<open>at_rest\<close>: the thread runs with interrupts on and no interrupt is pending; \<open>in_flight\<close>: a disk request is.\<close>

definition running_on :: "'h dstate \<Rightarrow> bool" where
  "running_on s \<longleftrightarrow> intr_ok s \<and> level s = IntOn \<and> \<not> inHandler s \<and> \<not> yieldOnReturn s \<and> 0 \<le> ticks s"

definition at_rest :: "'h dstate \<Rightarrow> bool" where
  "at_rest s \<longleftrightarrow> running_on s \<and> pending s = []"

definition in_flight :: "'h dstate \<Rightarrow> bool" where
  "in_flight s \<longleftrightarrow> running_on s \<and> (\<exists>p. pending s = [p] \<and> callOnInterrupt p = () \<and> ticks s < when_due p)"

lemma intr_ok_world [simp]: "intr_ok (s\<lparr>world := w\<rparr>) = intr_ok s"
  by (simp add: intr_ok_def)

lemma rest_world [simp]: "at_rest (s\<lparr>world := w\<rparr>) = at_rest s" "in_flight (s\<lparr>world := w\<rparr>) = in_flight s"
  "running_on (s\<lparr>world := w\<rparr>) = running_on s"
  by (simp_all add: at_rest_def in_flight_def running_on_def)

lemma Disk_handled: "handled s (SynchDisk_CallBack s)" "intr_ok (SynchDisk_CallBack s) = intr_ok s"
  by (auto simp: SynchDisk_CallBack_def V_body_def handled_def intro!: exI [of _ "[]"])

interpretation dk: interrupt_handlers Disk_CallBack
proof unfold_locales
  fix s :: "'h dstate" and cb :: unit assume "intr_ok s"
  moreover have "handled s (upd_world (\<lambda>w. w\<lparr>d_active := False\<rparr>) s)" by (auto simp: handled_def intro!: exI [of _ "[]"])
  ultimately show "\<exists>s'. Disk_CallBack cb s = Inr s' \<and> intr_ok s' \<and> handled s s'"
    using handled_trans [OF _ Disk_handled(1)] by (auto simp: Disk_CallBack_def Disk_handled(2))
qed

lemma sd_SetLevel_off: "sd_SetLevel IntOff s = Some (Inr (level s, s\<lparr>level := IntOff\<rparr>))"
  by (simp add: sd_SetLevel_def SetLevel_def ChangeLevel_def)

text \<open>Turning interrupts on again when none is pending lets some time pass.\<close>

lemma sd_SetLevel_on:
  assumes "at_rest (s\<lparr>level := IntOn\<rparr>)" "level s = IntOff"
  shows "\<exists>s'. sd_SetLevel IntOn s = Some (Inr (IntOff, s')) \<and> at_rest s' \<and> world s' = world s \<and> ticks s < ticks s'"
proof -
  let ?st = "if status s = SystemMode
      then (stats s)\<lparr>totalTicks := ticks s + SystemTick, systemTicks := systemTicks (stats s) + SystemTick\<rparr>
      else (stats s)\<lparr>totalTicks := ticks s + UserTick, userTicks := userTicks (stats s) + UserTick\<rparr>"
  let ?s = "s\<lparr>stats := ?st, level := IntOn\<rparr>"
  have p: "pending s = []" "\<not> inHandler s" "\<not> yieldOnReturn s" "intr_ok (s\<lparr>level := IntOn\<rparr>)" "0 \<le> ticks s"
    using assms(1) by (simp_all add: at_rest_def running_on_def)
  have "sd_SetLevel IntOn s = Some (Inr (IntOff, ?s))"
    using p assms(2) by (simp add: sd_SetLevel_def SetLevel_def OneTick_def CheckIfDue_def ChangeLevel_def Let_def)
  moreover have "at_rest ?s" using p by (simp add: at_rest_def running_on_def intr_ok_def nachos_consts)
  moreover have "ticks s < ticks ?s" by (simp add: nachos_consts)
  ultimately show ?thesis by (intro exI [of _ ?s]) simp
qed

lemma at_rest_off: "at_rest s \<Longrightarrow> at_rest (s\<lparr>level := IntOff, world := w, level := IntOn\<rparr>)"
  by (auto simp: at_rest_def running_on_def intr_ok_def)

lemma sd_P_free:
  assumes "at_rest s" "sd_value (world s) x \<noteq> 0"
  shows "\<exists>s'. sd_P x s = Inr s' \<and> at_rest s' \<and> ticks s < ticks s' \<and>
    world s' = (world s)\<lparr>sd_value := (sd_value (world s))(x := sd_value (world s) x - 1)\<rparr>"
proof -
  let ?w = "(world s)\<lparr>sd_value := (sd_value (world s))(x := sd_value (world s) x - 1)\<rparr>"
  have l: "level s = IntOn" using assms by (simp add: at_rest_def running_on_def)
  obtain s' where "sd_SetLevel IntOn (s\<lparr>level := IntOff, world := ?w\<rparr>) = Some (Inr (IntOff, s'))" "at_rest s'" "world s' = ?w"
      "ticks s < ticks s'"
    using sd_SetLevel_on [of "s\<lparr>level := IntOff, world := ?w\<rparr>"] at_rest_off [OF assms(1)] by auto
  then show ?thesis using assms(2) l
    by (simp add: sd_P_def sd_SetLevel_off returns_def sd_wait.simps [where x = x])
qed

lemma sd_V_ok:
  assumes "at_rest s" "\<not> sd_waits (world s) x"
  shows "\<exists>s'. sd_V x s = Inr s' \<and> at_rest s' \<and> ticks s < ticks s' \<and>
    world s' = (world s)\<lparr>sd_value := (sd_value (world s))(x := sd_value (world s) x + 1)\<rparr>"
proof -
  let ?w = "(world s)\<lparr>sd_value := (sd_value (world s))(x := sd_value (world s) x + 1)\<rparr>"
  have l: "level s = IntOn" using assms by (simp add: at_rest_def running_on_def)
  obtain s' where "sd_SetLevel IntOn (s\<lparr>level := IntOff, world := ?w\<rparr>) = Some (Inr (IntOff, s'))" "at_rest s'" "world s' = ?w"
      "ticks s < ticks s'"
    using sd_SetLevel_on [of "s\<lparr>level := IntOff, world := ?w\<rparr>"] at_rest_off [OF assms(1)] by auto
  then show ?thesis using assms(2) l by (simp add: sd_V_def sd_SetLevel_off returns_def V_body_def V_world_def)
qed

text \<open>Idling with a disk request in flight takes its interrupt.\<close>

lemma Idle_disk:
  assumes "intr_ok s" "level s = IntOff" "\<not> yieldOnReturn s" "pending s = [p]" "ticks s < when_due p"
  shows "\<exists>s'. Idle Disk_CallBack s = Some (Inr (Resume s')) \<and> world s' = V_world SynchSem ((world s)\<lparr>d_active := False\<rparr>) \<and>
    intr_ok s' \<and> level s' = IntOff \<and> \<not> inHandler s' \<and> \<not> yieldOnReturn s' \<and> pending s' = [] \<and> ticks s' = when_due p"
proof -
  let ?st = "(stats s)\<lparr>idleTicks := idleTicks (stats s) + (when_due p - ticks s), totalTicks := when_due p\<rparr>"
  let ?s1 = "s\<lparr>status := IdleMode, stats := ?st\<rparr>"
  have "intr_ok ?s1" using assms(1) by (simp add: intr_ok_def)
  then obtain m where m: "complete_load ?s1 = Inr (?s1\<lparr>i_machine := m\<rparr>)" "intr_ok (?s1\<lparr>i_machine := m\<rparr>)"
    using dk.complete_load_ok by blast
  let ?w = "V_world SynchSem ((world s)\<lparr>d_active := False\<rparr>)"
  let ?s2 = "?s1\<lparr>i_machine := m, inHandler := True, pending := []\<rparr>"
  have h: "Disk_CallBack () ?s2 = Inr (?s2\<lparr>world := ?w\<rparr>)"
    by (simp add: Disk_CallBack_def SynchDisk_CallBack_def V_body_def)
  let ?s3 = "?s2\<lparr>world := ?w, inHandler := False, status := SystemMode\<rparr>"
  have "fire_due Disk_CallBack (?s1\<lparr>i_machine := m, inHandler := True\<rparr>) = Some (Inr (?s2\<lparr>world := ?w\<rparr>))"
    using h assms(4) by (subst fire_due.simps) (simp add: seq_remove_front_def)
  then have "Idle Disk_CallBack s = Some (Inr (Resume ?s3))"
    using assms m(1) by (simp add: Idle_def CheckIfDue_def Let_def)
  moreover have "intr_ok ?s3" using m(2) by (auto simp: intr_ok_def cmp_sorted_def)
  ultimately show ?thesis using assms by (intro exI [of _ ?s3]) simp
qed

lemma sd_P_in_flight:
  assumes f: "in_flight s" and w: "sd_value (world s) SynchSem = 0" "\<not> sd_runnable (world s)" "\<not> sd_waits (world s) SynchSem"
  shows "\<exists>s'. sd_P SynchSem s = Inr s' \<and> at_rest s' \<and> (\<forall>p \<in> set (pending s). when_due p < ticks s') \<and>
    world s' = (world s)\<lparr>d_active := False\<rparr>"
proof -
  obtain p where p: "pending s = [p]" "ticks s < when_due p" and r: "running_on s" using f by (auto simp: in_flight_def)
  let ?w0 = "(world s)\<lparr>sd_waits := (sd_waits (world s))(SynchSem := True)\<rparr>"
  let ?s0 = "s\<lparr>level := IntOff, world := ?w0\<rparr>"
  obtain s1 where s1: "Idle Disk_CallBack ?s0 = Some (Inr (Resume s1))" "world s1 = V_world SynchSem (?w0\<lparr>d_active := False\<rparr>)"
      "intr_ok s1" "level s1 = IntOff" "\<not> inHandler s1" "\<not> yieldOnReturn s1" "pending s1 = []" "ticks s1 = when_due p"
    using Idle_disk [of ?s0 p] p r by (auto simp: running_on_def intr_ok_def)
  let ?w1 = "V_world SynchSem (?w0\<lparr>d_active := False\<rparr>)\<lparr>sd_runnable := False\<rparr>"
  have sl: "sd_sleep ?s0 = Some (Inr (s1\<lparr>world := ?w1\<rparr>))"
    using s1(1,2) w(2) by (simp add: sd_sleep.simps [of ?s0] sd_sleep.simps [of s1] V_world_def)
  let ?w2 = "(world s)\<lparr>d_active := False\<rparr>"
  have w2: "?w1\<lparr>sd_value := (sd_value ?w1)(SynchSem := sd_value ?w1 SynchSem - 1)\<rparr> = ?w2"
  proof -
    have "(sd_waits (world s))(SynchSem := False) = sd_waits (world s)" using w(3) by (simp add: fun_upd_idem)
    moreover have "(sd_value (world s))(SynchSem := 0) = sd_value (world s)" using w(1) by (simp add: fun_upd_idem)
    ultimately show ?thesis using w by (simp add: V_world_def)
  qed
  have v1: "sd_value ?w1 SynchSem \<noteq> 0" using w(1) by (simp add: V_world_def)
  have wt: "sd_wait SynchSem (s\<lparr>level := IntOff\<rparr>) = Some (Inr (s1\<lparr>world := ?w2\<rparr>))"
  proof -
    have "sd_wait SynchSem (s1\<lparr>world := ?w1\<rparr>) = Some (Inr (s1\<lparr>world := ?w2\<rparr>))"
      using v1 w2 by (subst sd_wait.simps) simp
    then show ?thesis using sl w(1) by (subst sd_wait.simps) simp
  qed
  have "at_rest (s1\<lparr>world := ?w2, level := IntOn\<rparr>)" using s1 p r by (simp add: at_rest_def running_on_def intr_ok_def)
  then obtain s' where "sd_SetLevel IntOn (s1\<lparr>world := ?w2\<rparr>) = Some (Inr (IntOff, s'))" "at_rest s'" "world s' = ?w2" "ticks s1 < ticks s'"
    using sd_SetLevel_on [of "s1\<lparr>world := ?w2\<rparr>"] s1(4) by auto
  then show ?thesis using wt r s1(8) p(1) by (simp add: sd_P_def sd_SetLevel_off returns_def running_on_def)
qed

section \<open>The disk as an array of sectors\<close>

text \<open>The host writes all it is given, as \<^verbatim>\<open>WriteFile\<close> asserts.\<close>

definition full_writes :: "'h unix \<Rightarrow> ('h \<Rightarrow> int \<Rightarrow> (byte list \<times> nat) option) \<Rightarrow> bool" where
  "full_writes u file \<longleftrightarrow> (\<forall>h fd bs. file h fd \<noteq> None \<longrightarrow> fst (u_write u fd bs h) = int (length bs))"

definition disk_idle :: "'h disk_world \<Rightarrow> bool" where
  "disk_idle w \<longleftrightarrow> \<not> d_active w \<and> sd_value w SynchSem = 0 \<and> sd_value w LockSem = 1 \<and> (\<forall>x. \<not> sd_waits w x) \<and>
     \<not> sd_runnable w \<and> \<not> sd_held w"

definition disk_content :: "('h \<Rightarrow> int \<Rightarrow> (byte list \<times> nat) option) \<Rightarrow> 'h dstate \<Rightarrow> byte list" where
  "disk_content file s = drop 4 (fst (the (file (d_host (world s)) (d_fileno (world s)))))"

text \<open>Between two requests: the disk file is open and has its size, no request is under way and the lock is free.\<close>

definition disk_ready :: "'h unix \<Rightarrow> ('h \<Rightarrow> int \<Rightarrow> (byte list \<times> nat) option) \<Rightarrow> 'h dstate \<Rightarrow> bool" where
  "disk_ready u file s \<longleftrightarrow> unix_ok u file \<and> full_writes u file \<and> at_rest s \<and> head_ok s \<and> disk_idle (world s) \<and>
     (\<exists>c p. file (d_host (world s)) (d_fileno (world s)) = Some (c, p) \<and> int (length c) = DiskSize)"

text \<open>Lock, request, wait, unlock: the common part of the two operations.\<close>

lemma sd_Acquire_ok:
  assumes "at_rest s" "disk_idle (world s)"
  shows "\<exists>s'. sd_Acquire s = Inr s' \<and> at_rest s' \<and> ticks s < ticks s' \<and>
    world s' = (world s)\<lparr>sd_value := (sd_value (world s))(LockSem := 0), sd_held := True\<rparr>"
proof -
  obtain s1 where "sd_P LockSem s = Inr s1" "at_rest s1" "ticks s < ticks s1"
      "world s1 = (world s)\<lparr>sd_value := (sd_value (world s))(LockSem := 0)\<rparr>"
    using sd_P_free [OF assms(1), of LockSem] assms(2) by (auto simp: disk_idle_def)
  then show ?thesis by (simp add: sd_Acquire_def)
qed

lemma sd_Release_ok:
  assumes "at_rest s" "sd_held (world s)" "\<not> sd_waits (world s) LockSem" "sd_value (world s) LockSem = 0"
  shows "\<exists>s'. sd_Release s = Inr s' \<and> at_rest s' \<and> ticks s < ticks s' \<and>
    world s' = (world s)\<lparr>sd_held := False, sd_value := (sd_value (world s))(LockSem := 1)\<rparr>"
proof -
  let ?s = "s\<lparr>world := (world s)\<lparr>sd_held := False\<rparr>\<rparr>"
  obtain s1 where "sd_V LockSem ?s = Inr s1" "at_rest s1" "ticks ?s < ticks s1"
      "world s1 = (world ?s)\<lparr>sd_value := (sd_value (world ?s))(LockSem := sd_value (world ?s) LockSem + 1)\<rparr>"
    using sd_V_ok [of ?s LockSem] assms by auto
  then show ?thesis using assms by (simp add: sd_Release_def)
qed

text \<open>\<open>requested n w w'\<close>: how a request for sector \<open>n\<close> leaves the disk object, apart from the host and the counters.\<close>

definition requested :: "int \<Rightarrow> 'h disk_world \<Rightarrow> 'h disk_world \<Rightarrow> bool" where
  "requested n w w' \<longleftrightarrow> d_fileno w' = d_fileno w \<and> d_active w' \<and> lastSector w' = n \<and> 0 \<le> bufferInit w' \<and>
     sd_value w' = sd_value w \<and> sd_waits w' = sd_waits w \<and> sd_runnable w' = sd_runnable w \<and> sd_held w' = sd_held w"

lemma await_release:
  assumes f: "in_flight s2" and rq: "requested n (world s1) (world s2)"
    and w1: "world s1 = (world s)\<lparr>sd_value := (sd_value (world s))(LockSem := 0), sd_held := True\<rparr>"
    and i: "disk_idle (world s)" and n: "0 \<le> n" "n < NumSectors" and t: "0 \<le> ticks s" "ticks s < ticks s2"
  shows "\<exists>s3 s4. sd_P SynchSem s2 = Inr s3 \<and> sd_Release s3 = Inr s4 \<and> at_rest s4 \<and> head_ok s4 \<and> disk_idle (world s4) \<and>
    ticks s < ticks s4 \<and> d_fileno (world s4) = d_fileno (world s) \<and> d_host (world s4) = d_host (world s2) \<and>
    (\<forall>p \<in> set (pending s2). when_due p < ticks s4)"
proof -
  have w: "sd_value (world s2) = (sd_value (world s))(LockSem := 0)" "sd_held (world s2)" "sd_waits (world s2) = sd_waits (world s)"
    "sd_runnable (world s2) = sd_runnable (world s)" "d_fileno (world s2) = d_fileno (world s)"
    "lastSector (world s2) = n" "0 \<le> bufferInit (world s2)"
    using rq w1 by (simp_all add: requested_def)
  obtain s3 where s3: "sd_P SynchSem s2 = Inr s3" "at_rest s3" "\<forall>p \<in> set (pending s2). when_due p < ticks s3"
      "world s3 = (world s2)\<lparr>d_active := False\<rparr>"
    using sd_P_in_flight [OF f] w i by (auto simp: disk_idle_def)
  obtain s4 where s4: "sd_Release s3 = Inr s4" "at_rest s4" "ticks s3 < ticks s4"
      "world s4 = (world s3)\<lparr>sd_held := False, sd_value := (sd_value (world s3))(LockSem := 1)\<rparr>"
    using sd_Release_ok [OF s3(2)] s3(4) w i by (auto simp: disk_idle_def)
  obtain p where "pending s2 = [p]" "ticks s2 < when_due p" using f by (auto simp: in_flight_def)
  then have ts: "ticks s < ticks s4" using t(2) s3(3) s4(3) by simp
  have "head_ok s4" "disk_idle (world s4)" using ts t s4(4) s3(4) w i n by (simp_all add: head_ok_def disk_idle_def)
  then show ?thesis using s3(1,3) s4 ts w s3(4) by fastforce
qed

lemma Schedule_disk:
  assumes "at_rest s" "0 < fromNow"
  shows "\<exists>s' p. Schedule () fromNow DiskInt s = Inr s' \<and> in_flight s' \<and> pending s' = [p] \<and> when_due p = ticks s + fromNow \<and>
    world s' = world s \<and> stats s' = stats s"
proof -
  have e: "pending s = []" "intr_ok s" using assms by (simp_all add: at_rest_def running_on_def)
  obtain s' where s': "Schedule () fromNow DiskInt s = Inr s'" "intr_ok s'" using Schedule_ok [OF e(2) assms(2)] by blast
  let ?p = "\<lparr>pi_id = next_id s, callOnInterrupt = (), when_due = ticks s + fromNow, pi_type = DiskInt\<rparr>"
  have "s' = s\<lparr>next_id := Suc (next_id s), pending := [?p]\<rparr>"
    using s'(1) e(1) assms(2) by (simp add: Schedule_def Let_def seq_insert_def)
  then show ?thesis using s' assms by (intro exI [of _ s'] exI [of _ ?p]) (simp add: in_flight_def at_rest_def running_on_def)
qed

lemma UpdateLast_rest:
  assumes "at_rest s" "head_ok s" "0 \<le> n" "n < NumSectors"
  shows "\<exists>b. UpdateLast (s\<lparr>world := (world s)\<lparr>d_host := h, d_active := True\<rparr>\<rparr>) n =
      s\<lparr>world := (world s)\<lparr>d_host := h, d_active := True, bufferInit := b, lastSector := n\<rparr>\<rparr> \<and> 0 \<le> b"
proof -
  let ?s = "s\<lparr>world := (world s)\<lparr>d_host := h, d_active := True\<rparr>\<rparr>"
  have "head_ok ?s" using assms(2) by (simp add: head_ok_def)
  then show ?thesis using UpdateLast_ok [of ?s n] assms(3,4) by simp
qed

lemma ReadRequest_ok:
  assumes r: "at_rest s" "head_ok s" "\<not> d_active (world s)" and u: "unix_ok u file"
    and f: "file (d_host (world s)) (d_fileno (world s)) = Some (c, p)" "int (length c) = DiskSize"
    and n: "0 \<le> n" "n < NumSectors"
  shows "\<exists>s' q. ReadRequest u n s = Inr (sector_of (drop 4 c) (nat n), s') \<and> in_flight s' \<and> ticks s' = ticks s \<and>
    requested n (world s) (world s') \<and> pending s' = [q] \<and> when_due q = ticks s + ComputeLatency s n False \<and>
    (\<exists>p'. file (d_host (world s')) (d_fileno (world s)) = Some (c, p'))"
proof -
  let ?fd = "d_fileno (world s)" let ?o = "128 * n + 4"
  obtain h1 where h1: "u_lseek u ?fd ?o SEEK_SET (d_host (world s)) = (?o, h1)" "file h1 ?fd = Some (c, nat ?o)"
    using unix_okD(1) [OF u f(1), of ?o] n by auto
  have "nat ?o + 128 \<le> length c" using f(2) n by (simp add: nachos_consts)
  then have t: "length (take 128 (drop (nat ?o) c)) = 128" by simp
  have sec: "take 128 (drop (nat ?o) c) = sector_of (drop 4 c) (nat n)"
    using n by (simp add: sector_of_def nat_add_distrib nat_mult_distrib mult.commute add.commute)
  obtain h2 p2 where h2: "u_read u ?fd 128 h1 = ((128, take 128 (drop (nat ?o) c)), h2)" "file h2 ?fd = Some (c, p2)"
    using unix_okD(4) [OF u h1(2), of 128] t by auto
  obtain b where b: "UpdateLast (s\<lparr>world := (world s)\<lparr>d_host := h2, d_active := True\<rparr>\<rparr>) n =
      s\<lparr>world := (world s)\<lparr>d_host := h2, d_active := True, bufferInit := b, lastSector := n\<rparr>\<rparr>" "0 \<le> b"
    using UpdateLast_rest [OF r(1,2) n] by blast
  let ?s2 = "s\<lparr>world := (world s)\<lparr>d_host := h2, d_active := True, bufferInit := b, lastSector := n, numDiskReads := numDiskReads (world s) + 1\<rparr>\<rparr>"
  have "0 < ComputeLatency s n False" using ComputeLatency_bounds(1) [OF r(2) n, of False] by (simp add: RotationTime_def)
  then obtain s3 q where s3: "Schedule () (ComputeLatency s n False) DiskInt ?s2 = Inr s3" "in_flight s3" "pending s3 = [q]"
      "when_due q = ticks ?s2 + ComputeLatency s n False" "world s3 = world ?s2" "stats s3 = stats ?s2"
    using Schedule_disk [of ?s2 "ComputeLatency s n False"] r(1) by auto
  have "ReadRequest u n s = Inr (sector_of (drop 4 c) (nat n), s3)"
    using r(3) n h1(1) h2(1) b s3(1) by (simp add: ReadRequest_def Let_def Lseek_def ReadFile_def SectorSize_def MagicSize_def sec)
  then show ?thesis using s3(2-6) h2(2) b(2) by (intro exI [of _ s3] exI [of _ q]) (simp add: requested_def)
qed

lemma drop_overwrite: "k + a + length bs \<le> length c \<Longrightarrow> drop a (overwrite c (k + a) bs) = patch (drop a c) k bs"
  by (simp add: overwrite_def patch_def drop_take add.assoc add.commute [of a])

lemma WriteRequest_ok:
  assumes r: "at_rest s" "head_ok s" "\<not> d_active (world s)" and u: "unix_ok u file" "full_writes u file"
    and f: "file (d_host (world s)) (d_fileno (world s)) = Some (c, p)" "int (length c) = DiskSize"
    and n: "0 \<le> n" "n < NumSectors" and l: "length bs = 128"
  shows "\<exists>s' q. WriteRequest u n bs s = Inr s' \<and> in_flight s' \<and> ticks s' = ticks s \<and>
    requested n (world s) (world s') \<and> pending s' = [q] \<and> when_due q = ticks s + ComputeLatency s n True \<and>
    (\<exists>c' p'. file (d_host (world s')) (d_fileno (world s)) = Some (c', p') \<and> length c' = length c \<and>
       drop 4 c' = patch (drop 4 c) (nat n * 128) bs)"
proof -
  let ?fd = "d_fileno (world s)" let ?o = "128 * n + 4"
  obtain h1 where h1: "u_lseek u ?fd ?o SEEK_SET (d_host (world s)) = (?o, h1)" "file h1 ?fd = Some (c, nat ?o)"
    using unix_okD(1) [OF u(1) f(1), of ?o] n by auto
  have o: "nat ?o + 128 \<le> length c" using f(2) n by (simp add: nachos_consts)
  have no: "nat ?o = nat n * 128 + 4" using n by simp
  let ?c = "overwrite c (nat ?o) bs"
  obtain h2 where h2: "u_write u ?fd bs h1 = (128, h2)" "file h2 ?fd = Some (?c, nat ?o + 128)"
  proof -
    have "fst (u_write u ?fd bs h1) = 128" using u(2) h1(2) l by (simp add: full_writes_def)
    then have "\<exists>h'. u_write u ?fd bs h1 = (128, h') \<and> file h' ?fd = Some (?c, nat ?o + 128)"
      using unix_okD(5) [OF u(1) h1(2), of bs] l by auto
    then show ?thesis using that by blast
  qed
  have "length ?c = length c" using o l by (simp add: length_overwrite)
  moreover have "drop 4 ?c = patch (drop 4 c) (nat n * 128) bs"
    using drop_overwrite [of "nat n * 128" 4 bs c] o l unfolding no by simp
  ultimately have c: "length ?c = length c" "drop 4 ?c = patch (drop 4 c) (nat n * 128) bs" by simp_all
  obtain b where b: "UpdateLast (s\<lparr>world := (world s)\<lparr>d_host := h2, d_active := True\<rparr>\<rparr>) n =
      s\<lparr>world := (world s)\<lparr>d_host := h2, d_active := True, bufferInit := b, lastSector := n\<rparr>\<rparr>" "0 \<le> b"
    using UpdateLast_rest [OF r(1,2) n] by blast
  let ?s2 = "s\<lparr>world := (world s)\<lparr>d_host := h2, d_active := True, bufferInit := b, lastSector := n, numDiskWrites := numDiskWrites (world s) + 1\<rparr>\<rparr>"
  have "0 < ComputeLatency s n True" using ComputeLatency_bounds(1) [OF r(2) n, of True] by (simp add: RotationTime_def)
  then obtain s3 q where s3: "Schedule () (ComputeLatency s n True) DiskInt ?s2 = Inr s3" "in_flight s3" "pending s3 = [q]"
      "when_due q = ticks ?s2 + ComputeLatency s n True" "world s3 = world ?s2" "stats s3 = stats ?s2"
    using Schedule_disk [of ?s2 "ComputeLatency s n True"] r(1) by auto
  have "WriteRequest u n bs s = Inr s3"
    using r(3) n h1(1) h2(1) b s3(1) l by (simp add: WriteRequest_def Let_def Lseek_def WriteFile_def SectorSize_def MagicSize_def)
  then show ?thesis using s3(2-6) h2(2) b(2) c by (intro exI [of _ s3] exI [of _ q]) (auto simp: requested_def)
qed

lemma ReadSector_ok:
  assumes d: "disk_ready u file s" and n: "0 \<le> n" "n < NumSectors"
  shows "\<exists>s'. ReadSector u n s = Inr (sector_of (disk_content file s) (nat n), s') \<and> disk_ready u file s' \<and>
    disk_content file s' = disk_content file s \<and> ticks s + RotationTime < ticks s'"
proof -
  obtain c p where f: "file (d_host (world s)) (d_fileno (world s)) = Some (c, p)" "int (length c) = DiskSize"
    and u: "unix_ok u file" "full_writes u file" and r: "at_rest s" "head_ok s" "disk_idle (world s)"
    using d by (auto simp: disk_ready_def)
  obtain s1 where s1: "sd_Acquire s = Inr s1" "at_rest s1" "ticks s < ticks s1"
      "world s1 = (world s)\<lparr>sd_value := (sd_value (world s))(LockSem := 0), sd_held := True\<rparr>"
    using sd_Acquire_ok [OF r(1,3)] by blast
  have h1: "head_ok s1" "\<not> d_active (world s1)" using s1(3,4) r by (auto simp: head_ok_def disk_idle_def)
  obtain s2 q p2 where s2: "ReadRequest u n s1 = Inr (sector_of (drop 4 c) (nat n), s2)" "in_flight s2" "ticks s2 = ticks s1"
      "requested n (world s1) (world s2)" "pending s2 = [q]" "when_due q = ticks s1 + ComputeLatency s1 n False"
      "file (d_host (world s2)) (d_fileno (world s1)) = Some (c, p2)"
    using ReadRequest_ok [OF s1(2) h1 u(1) _ f(2) n, of p] f(1) s1(4) by auto
  have t: "0 \<le> ticks s" "ticks s < ticks s2" using r(2) s1(3) s2(3) by (simp_all add: head_ok_def)
  obtain s3 s4 where s4: "sd_P SynchSem s2 = Inr s3" "sd_Release s3 = Inr s4" "at_rest s4" "head_ok s4" "disk_idle (world s4)"
      "d_fileno (world s4) = d_fileno (world s)" "d_host (world s4) = d_host (world s2)" "when_due q < ticks s4"
    using await_release [OF s2(2,4) s1(4) r(3) n t] s2(5) by auto
  have "RotationTime \<le> ComputeLatency s1 n False" by (rule ComputeLatency_bounds(1) [OF h1(1) n])
  then have "ticks s + RotationTime < ticks s4" using s1(3) s2(6) s4(8) by linarith
  moreover have "ReadSector u n s = Inr (sector_of (drop 4 c) (nat n), s4)" using s1(1) s2(1) s4(1,2) by (simp add: ReadSector_def)
  moreover have "file (d_host (world s4)) (d_fileno (world s4)) = Some (c, p2)" using s2(7) s4(6,7) s1(4) by simp
  ultimately show ?thesis using f u s4(3-5) by (simp add: disk_ready_def disk_content_def)
qed

lemma WriteSector_ok:
  assumes d: "disk_ready u file s" and n: "0 \<le> n" "n < NumSectors" and l: "length bs = 128"
  shows "\<exists>s'. WriteSector u n bs s = Inr s' \<and> disk_ready u file s' \<and>
    disk_content file s' = patch (disk_content file s) (nat n * 128) bs \<and> ticks s + RotationTime < ticks s'"
proof -
  obtain c p where f: "file (d_host (world s)) (d_fileno (world s)) = Some (c, p)" "int (length c) = DiskSize"
    and u: "unix_ok u file" "full_writes u file" and r: "at_rest s" "head_ok s" "disk_idle (world s)"
    using d by (auto simp: disk_ready_def)
  obtain s1 where s1: "sd_Acquire s = Inr s1" "at_rest s1" "ticks s < ticks s1"
      "world s1 = (world s)\<lparr>sd_value := (sd_value (world s))(LockSem := 0), sd_held := True\<rparr>"
    using sd_Acquire_ok [OF r(1,3)] by blast
  have h1: "head_ok s1" "\<not> d_active (world s1)" using s1(3,4) r by (auto simp: head_ok_def disk_idle_def)
  obtain s2 q c2 p2 where s2: "WriteRequest u n bs s1 = Inr s2" "in_flight s2" "ticks s2 = ticks s1"
      "requested n (world s1) (world s2)" "pending s2 = [q]" "when_due q = ticks s1 + ComputeLatency s1 n True"
      "file (d_host (world s2)) (d_fileno (world s1)) = Some (c2, p2)" "length c2 = length c" "drop 4 c2 = patch (drop 4 c) (nat n * 128) bs"
    using WriteRequest_ok [OF s1(2) h1 u _ f(2) n l, of p] f(1) s1(4) by auto
  have t: "0 \<le> ticks s" "ticks s < ticks s2" using r(2) s1(3) s2(3) by (simp_all add: head_ok_def)
  obtain s3 s4 where s4: "sd_P SynchSem s2 = Inr s3" "sd_Release s3 = Inr s4" "at_rest s4" "head_ok s4" "disk_idle (world s4)"
      "d_fileno (world s4) = d_fileno (world s)" "d_host (world s4) = d_host (world s2)" "when_due q < ticks s4"
    using await_release [OF s2(2,4) s1(4) r(3) n t] s2(5) by auto
  have "RotationTime \<le> ComputeLatency s1 n True" by (rule ComputeLatency_bounds(1) [OF h1(1) n])
  then have "ticks s + RotationTime < ticks s4" using s1(3) s2(6) s4(8) by linarith
  moreover have "WriteSector u n bs s = Inr s4" using s1(1) s2(1) s4(1,2) by (simp add: WriteSector_def)
  moreover have "file (d_host (world s4)) (d_fileno (world s4)) = Some (c2, p2)" using s2(7) s4(6,7) s1(4) by simp
  ultimately show ?thesis using f u s4(3-5) s2(8,9) by (simp add: disk_ready_def disk_content_def)
qed

definition synchDisk :: "'h unix \<Rightarrow> 'h dstate synch_disk" where
  "synchDisk u = \<lparr>sd_ReadSector = ReadSector u, sd_WriteSector = WriteSector u\<rparr>"

lemma disk_content_length: "disk_ready u file s \<Longrightarrow> length (disk_content file s) = 131072"
  by (auto simp: disk_ready_def disk_content_def nachos_consts)

interpretation sd: sector_disk "synchDisk u" "disk_ready u fs" "disk_content fs"
  for u :: "'h unix" and fs :: "'h \<Rightarrow> int \<Rightarrow> (byte list \<times> nat) option"
  by unfold_locales (use ReadSector_ok WriteSector_ok disk_content_length in \<open>fastforce simp: synchDisk_def\<close>)+

lemma sector_out_of_range:
  assumes "at_rest s" "disk_idle (world s)" "\<not> (0 \<le> n \<and> n < NumSectors)"
  shows "ReadSector u n s = Inl AssertFailed" "WriteSector u n bs s = Inl AssertFailed"
proof -
  obtain s1 where "sd_Acquire s = Inr s1" using sd_Acquire_ok [OF assms(1,2)] by blast
  then show "ReadSector u n s = Inl AssertFailed" "WriteSector u n bs s = Inl AssertFailed"
    using assms(3) by (auto simp: ReadSector_def WriteSector_def ReadRequest_def WriteRequest_def rassert_def Let_def)
qed

section \<open>Making the disk\<close>

text \<open>
  On a host without the disk file, whose \<^verbatim>\<open>open\<close> then makes an empty one, the constructor lays out a disk of zero
  bytes that is ready for requests.
\<close>

lemma new_SynchDisk_fresh:
  assumes u: "unix_ok u file" "full_writes u file" and o: "u_open u name O_RDWR h = (-1, h1)"
    "u_open u name O_RDWR_CREAT_TRUNC h1 = (fd, h2)" "0 \<le> fd" "file h2 fd = Some ([], 0)"
    and k: "intr_ok k" "pending k = []" "level k = IntOn" "\<not> inHandler k" "\<not> yieldOnReturn k" "0 \<le> ticks k"
  shows "\<exists>s. new_SynchDisk u name k h = Inr s \<and> disk_ready u file s \<and> disk_content file s = replicate 131072 0"
proof -
  have w: "\<exists>h'. u_write u fd bs h0 = (int (length bs), h') \<and> file h' fd = Some (overwrite c p bs, p + length bs)"
    if "file h0 fd = Some (c, p)" for h0 c p bs
    using unix_okD(5) [OF u(1) that, of bs] u(2) that by (auto simp: full_writes_def dest!: spec [of _ h0] spec [of _ fd] spec [of _ bs])
  obtain h3 where h3: "u_write u fd (word_bytes MagicNumber) h2 = (4, h3)" "file h3 fd = Some (word_bytes MagicNumber, 4)"
    using w [OF o(4), of "word_bytes MagicNumber"] by (auto simp: overwrite_def)
  obtain h4 where h4: "u_lseek u fd 131072 SEEK_SET h3 = (131072, h4)" "file h4 fd = Some (word_bytes MagicNumber, 131072)"
    using unix_okD(1) [OF u(1) h3(2), of 131072] by auto
  let ?c = "overwrite (word_bytes MagicNumber) 131072 (word_bytes 0)"
  obtain h5 where h5: "u_write u fd (word_bytes 0) h4 = (4, h5)" "file h5 fd = Some (?c, 131076)"
    using w [OF h4(2), of "word_bytes 0"] by auto
  have z: "word_bytes 0 = replicate 4 0" by (simp add: word_bytes_def numeral_eq_Suc)
  have "drop 4 ?c = replicate 131068 0 @ replicate 4 0" by (simp add: overwrite_def z)
  also have "\<dots> = replicate 131072 0" by (simp flip: replicate_add)
  finally have c: "drop 4 ?c = replicate 131072 0" .
  have l: "length ?c = 131076" by (simp add: length_overwrite)
  have "open_disk u name h = Inr (fd, h5)"
    using o h3(1) h4(1) h5(1) by (simp add: open_disk_def OpenForReadWrite_def OpenForWrite_def WriteFile_def Lseek_def nachos_consts)
  then show ?thesis using u k h5(2) c l
    by (simp add: new_SynchDisk_def disk_ready_def disk_content_def at_rest_def running_on_def head_ok_def disk_idle_def intr_ok_def nachos_consts)
qed

section \<open>Properties\<close>

text \<open>
  C37: The synchronous disk implements an array of sectors. With the disk ready, reading a sector in range takes the
  lock, issues the request, sleeps until the disk interrupt and returns: it delivers exactly the bytes that sector
  holds, and a write of one sector's bytes changes that sector and no other; the disk is ready again afterwards, with
  the lock free, and simulated time has advanced by more than one sector's rotation. For a sector number out of range
  both abort Nachos.
\<close>
theorem SynchDisk_is_sector_array:
  assumes "disk_ready u file s"
  shows "if 0 \<le> n \<and> n < NumSectors
    then (\<exists>s'. ReadSector u n s = Inr (sector_of (disk_content file s) (nat n), s') \<and> disk_ready u file s' \<and>
            disk_content file s' = disk_content file s \<and> ticks s + RotationTime < ticks s') \<and>
         (length bs = 128 \<longrightarrow> (\<exists>s'. WriteSector u n bs s = Inr s' \<and> disk_ready u file s' \<and> ticks s + RotationTime < ticks s' \<and>
            (\<forall>m < 1024. sector_of (disk_content file s') m = (if m = nat n then bs else sector_of (disk_content file s) m))))
    else ReadSector u n s = Inl AssertFailed \<and> WriteSector u n bs s = Inl AssertFailed"
proof (cases "0 \<le> n \<and> n < NumSectors")
  case True
  have n: "nat n < 1024" using True by (auto simp: nachos_consts)
  have w: "\<exists>s'. WriteSector u n bs s = Inr s' \<and> disk_ready u file s' \<and> ticks s + RotationTime < ticks s' \<and>
      (\<forall>m < 1024. sector_of (disk_content file s') m = (if m = nat n then bs else sector_of (disk_content file s) m))"
    if l: "length bs = 128"
  proof -
    obtain s' where "WriteSector u n bs s = Inr s'" "disk_ready u file s'" "ticks s + RotationTime < ticks s'"
        "disk_content file s' = patch (disk_content file s) (nat n * 128) bs"
      using WriteSector_ok [OF assms, of n bs] True l by blast
    then show ?thesis using sector_of_patch [OF n _ disk_content_length [OF assms] l] by auto
  qed
  show ?thesis using True w ReadSector_ok [OF assms, of n] by simp
next
  case False
  then have "ReadSector u n s = Inl AssertFailed \<and> WriteSector u n bs s = Inl AssertFailed"
    using sector_out_of_range [of s n] assms unfolding disk_ready_def by blast
  then show ?thesis using False by simp
qed

text \<open>
  The latency of a disk request is physically right: a write ends at the first time, no earlier than one sector's
  rotation after the end of the seek, at which the requested sector has just passed under the head; a read ends then too, or
  after one rotation when the head need not move and the track buffer has the sector. Every latency is at least one
  rotation, so the interrupt is always scheduled in the future, and stays below the longest seek plus one turn
  of the disk and one sector.
\<close>
theorem ComputeLatency_first_pass:
  assumes "head_ok s" "0 \<le> n" "n < NumSectors"
  shows "passes n (ticks s + ComputeLatency s n True) \<and>
    ticks s + seek_time s n + RotationTime \<le> ticks s + ComputeLatency s n True \<and>
    (\<forall>t. passes n t \<and> ticks s + seek_time s n + RotationTime \<le> t \<longrightarrow> ticks s + ComputeLatency s n True \<le> t) \<and>
    (ComputeLatency s n False = ComputeLatency s n True \<or> ComputeLatency s n False = RotationTime \<and> seek_time s n = 0) \<and>
    RotationTime \<le> ComputeLatency s n w \<and> ComputeLatency s n w < (NumTracks - 1) * SeekTime + (SectorsPerTrack + 1) * RotationTime"
  using platter_time_first(1-3) [where s = s and n = n] ComputeLatency_platter [OF assms(1,2)] ComputeLatency_bounds [OF assms] by auto

text \<open>A disk of zero bytes on the host with one file.\<close>

definition zero_disk :: "(byte list \<times> nat) dstate" where
  "zero_disk = \<lparr>level = IntOn, pending = [], inHandler = False, yieldOnReturn = False, status = SystemMode, stats = new_Statistics,
     next_id = 0, i_machine = None,
     world = \<lparr>d_fileno = 5, d_active = False, lastSector = 40, bufferInit = 0, numDiskReads = 0, numDiskWrites = 0,
       sd_value = (\<lambda>x. case x of SynchSem \<Rightarrow> 0 | LockSem \<Rightarrow> 1), sd_waits = (\<lambda>_. False), sd_runnable = False, sd_held = False,
       d_host = (word_bytes MagicNumber @ replicate 131072 0, 0)\<rparr>\<rparr>"

abbreviation one_fs :: "(byte list \<times> nat) \<Rightarrow> int \<Rightarrow> (byte list \<times> nat) option" where
  "one_fs \<equiv> (\<lambda>h fd. if fd = 5 then Some h else None)"

lemma zero_disk_ready: "disk_ready one_file one_fs zero_disk"
proof -
  have "full_writes one_file one_fs" by (simp add: full_writes_def one_file_def)
  moreover have "intr_ok zero_disk" by (simp add: intr_ok_def zero_disk_def cmp_sorted_def new_Statistics_def)
  moreover have "length (snd (5, word_bytes MagicNumber @ replicate 131072 (0 :: byte))) = 131076" by simp
  ultimately show ?thesis using one_file_ok
    by (simp add: disk_ready_def at_rest_def running_on_def head_ok_def disk_idle_def zero_disk_def new_Statistics_def nachos_consts)
qed

lemma zero_disk_content: "disk_content one_fs zero_disk = replicate 131072 0"
  by (simp add: disk_content_def zero_disk_def)

theorem SynchDisk_is_sector_array_witness:
  "\<exists>s'. WriteSector one_file 7 (replicate 128 9) zero_disk = Inr s' \<and> disk_ready one_file one_fs s' \<and>
     sector_of (disk_content one_fs s') 7 = replicate 128 9"
proof -
  have "\<exists>s'. WriteSector one_file 7 (replicate 128 9) zero_disk = Inr s' \<and> disk_ready one_file one_fs s' \<and>
      (\<forall>m < 1024. sector_of (disk_content one_fs s') m =
        (if m = nat 7 then replicate 128 9 else sector_of (disk_content one_fs zero_disk) m))"
    using SynchDisk_is_sector_array [OF zero_disk_ready, of 7 "replicate 128 9"] by (auto simp: NumSectors_def SectorsPerTrack_def NumTracks_def)
  then obtain s' where s': "WriteSector one_file 7 (replicate 128 9) zero_disk = Inr s'" "disk_ready one_file one_fs s'"
      "\<forall>m < 1024. sector_of (disk_content one_fs s') m =
        (if m = nat 7 then replicate 128 9 else sector_of (disk_content one_fs zero_disk) m)" by blast
  have "sector_of (disk_content one_fs s') 7 = replicate 128 9" using s'(3) [rule_format, of 7] by simp
  then show ?thesis using s'(1,2) by blast
qed

theorem ComputeLatency_first_pass_witness: "passes 70 (ticks zero_disk + ComputeLatency zero_disk 70 True)"
proof -
  have "head_ok zero_disk" using zero_disk_ready by (simp add: disk_ready_def)
  then show ?thesis using ComputeLatency_first_pass [of zero_disk 70] by (simp add: NumSectors_def SectorsPerTrack_def NumTracks_def)
qed

end
