(* ===== verification/Disk_Files.thy ===== *)
theory Disk_Files
  imports Sector_Store Bitmap
begin

text \<open>
  Files on the simulated disk: file headers (\<^verbatim>\<open>filesys/filehdr.h\<close>, \<^verbatim>\<open>filesys/filehdr.cc\<close>) and the version of
  \<^verbatim>\<open>OpenFile\<close> that works through them (\<^verbatim>\<open>filesys/openfile.cc\<close> without \<^verbatim>\<open>FILESYS_STUB\<close>). The disk is the argument \<open>d\<close>,
  used through the interface of \<open>Sector_Store\<close>. Memory that \<^verbatim>\<open>new\<close> returns is not initialised; what it happens to
  hold is the argument \<open>junk\<close>. The lemmas show that a file is a byte array of fixed length: reads and writes clip
  at its end and touch nothing but its own sectors.
\<close>

section \<open>Integers on disk\<close>

definition int_bytes :: "int \<Rightarrow> byte list" where
  "int_bytes i = word_bytes (word_of_int i)"

fun bytes_ints :: "byte list \<Rightarrow> int list" where
  "bytes_ints (a # b # c # e # bs) = sint (bytes_word a b c e) # bytes_ints bs"
| "bytes_ints bs = []"

definition ints_bytes :: "int list \<Rightarrow> byte list" where
  "ints_bytes is = concat (map int_bytes is)"

definition int32 :: "int \<Rightarrow> bool" where
  "int32 i \<longleftrightarrow> - (2 ^ 31) \<le> i \<and> i < 2 ^ 31"

lemma length_ints_bytes [simp]: "length (ints_bytes is) = 4 * length is"
  by (induction "is") (simp_all add: ints_bytes_def int_bytes_def)

lemma sint_word_of_int: "int32 i \<Longrightarrow> sint (word_of_int i :: 32 word) = i"
  by (simp add: int32_def signed_of_int signed_take_bit_int_eq_self)

text \<open>An \<^verbatim>\<open>int\<close> expression with the exact value \<open>i\<close>; signed overflow is undefined behaviour.\<close>

definition c_int :: "int \<Rightarrow> int result" where
  "c_int i = (if int32 i then Inr i else Inl IntOverflow)"

lemma c_int_ok: "- (2 ^ 31) \<le> i \<Longrightarrow> i < 2 ^ 31 \<Longrightarrow> c_int i = Inr i"
  by (simp add: c_int_def int32_def)

lemma bytes_ints_bytes: "(\<forall>i \<in> set is. int32 i) \<Longrightarrow> bytes_ints (ints_bytes is) = is"
proof (induction "is")
  case (Cons i "is")
  have "bytes_ints (ints_bytes (i # is)) = sint (bytes_word (word_bytes (word_of_int i) ! 0) (word_bytes (word_of_int i) ! 1)
      (word_bytes (word_of_int i) ! 2) (word_bytes (word_of_int i) ! 3)) # bytes_ints (ints_bytes is)"
    by (simp add: ints_bytes_def int_bytes_def word_bytes_def)
  then show ?case using Cons sint_word_of_int [of i] by (simp only: bytes_word_bytes) simp
qed (simp add: ints_bytes_def)

lemma length_bytes_ints: "length (bytes_ints bs) = length bs div 4"
  by (induction bs rule: bytes_ints.induct) auto

lemma int32_bytes_ints: "i \<in> set (bytes_ints bs) \<Longrightarrow> int32 i"
proof (induction bs rule: bytes_ints.induct)
  case (1 a b c e bs)
  have "int32 (sint (bytes_word a b c e))"
    using sint_greater_eq [of "bytes_word a b c e"] sint_less [of "bytes_word a b c e"] by (simp add: int32_def)
  then show ?case using 1 by auto
qed auto

section \<open>File headers\<close>

definition NumDirect :: int where [nachos_consts]: "NumDirect = (SectorSize - 2 * 4) sdiv 4"
definition MaxFileSize :: int where [nachos_consts]: "MaxFileSize = NumDirect * SectorSize"

record FileHeader =
  fh_numBytes :: int
  fh_numSectors :: int
  dataSectors :: "int list"

text \<open>The object as the sector it occupies, \<^verbatim>\<open>(char *)this\<close>, and back.\<close>

definition header_bytes :: "FileHeader \<Rightarrow> byte list" where
  "header_bytes h = ints_bytes (fh_numBytes h # fh_numSectors h # dataSectors h)"

definition bytes_header :: "byte list \<Rightarrow> FileHeader" where
  "bytes_header bs = (let is = bytes_ints bs in \<lparr>fh_numBytes = is ! 0, fh_numSectors = is ! 1, dataSectors = drop 2 is\<rparr>)"

text \<open>The loop of \<^verbatim>\<open>Allocate\<close> over the \<open>k\<close> entries from \<open>i\<close> on.\<close>

fun alloc_sectors :: "nat \<Rightarrow> int \<Rightarrow> int list \<Rightarrow> bitmap \<Rightarrow> (int list \<times> bitmap) result" where
  "alloc_sectors 0 i ds freeMap = Inr (ds, freeMap)"
| "alloc_sectors (Suc k) i ds freeMap =
     rbind (FindAndSet freeMap) (\<lambda>(x, fm1).
     rbind (awrite ds i x) (\<lambda>ds1.
     rbind (rassert (x \<ge> 0)) (\<lambda>_. alloc_sectors k (i + 1) ds1 fm1)))"

definition FH_Allocate :: "FileHeader \<Rightarrow> bitmap \<Rightarrow> int \<Rightarrow> (bool \<times> FileHeader \<times> bitmap) result" where
  "FH_Allocate hdr freeMap fileSize =
     (let hdr1 = hdr\<lparr>fh_numBytes := fileSize, fh_numSectors := divRoundUp fileSize SectorSize\<rparr> in
      rbind (NumClear freeMap) (\<lambda>c.
      if c < fh_numSectors hdr1 then Inr (False, hdr1, freeMap)
      else rbind (alloc_sectors (nat (fh_numSectors hdr1)) 0 (dataSectors hdr1) freeMap) (\<lambda>(ds, fm).
           Inr (True, hdr1\<lparr>dataSectors := ds\<rparr>, fm))))"

fun dealloc_sectors :: "nat \<Rightarrow> int \<Rightarrow> int list \<Rightarrow> bitmap \<Rightarrow> bitmap result" where
  "dealloc_sectors 0 i ds freeMap = Inr freeMap"
| "dealloc_sectors (Suc k) i ds freeMap =
     rbind (aread ds i) (\<lambda>x.
     rbind (Test freeMap x) (\<lambda>t.
     rbind (rassert t) (\<lambda>_.
     rbind (Clear freeMap x) (\<lambda>fm1. dealloc_sectors k (i + 1) ds fm1))))"

definition FH_Deallocate :: "FileHeader \<Rightarrow> bitmap \<Rightarrow> bitmap result" where
  "FH_Deallocate hdr freeMap = dealloc_sectors (nat (fh_numSectors hdr)) 0 (dataSectors hdr) freeMap"

definition FH_FetchFrom :: "'s synch_disk \<Rightarrow> int \<Rightarrow> 's \<Rightarrow> (FileHeader \<times> 's) result" where
  "FH_FetchFrom d sector s = rbind (sd_ReadSector d sector s) (\<lambda>(bs, s1). Inr (bytes_header bs, s1))"

definition FH_WriteBack :: "'s synch_disk \<Rightarrow> FileHeader \<Rightarrow> int \<Rightarrow> 's \<Rightarrow> 's result" where
  "FH_WriteBack d hdr sector s = sd_WriteSector d sector (header_bytes hdr) s"

definition ByteToSector :: "FileHeader \<Rightarrow> int \<Rightarrow> int result" where
  "ByteToSector hdr offset = aread (dataSectors hdr) (offset sdiv SectorSize)"

definition FileLength :: "FileHeader \<Rightarrow> int" where
  "FileLength hdr = fh_numBytes hdr"

section \<open>Open files\<close>

record DiskFile =
  df_hdr :: FileHeader
  seekPosition :: int

definition new_DiskFile :: "'s synch_disk \<Rightarrow> int \<Rightarrow> 's \<Rightarrow> (DiskFile \<times> 's) result" where
  "new_DiskFile d sector s = rbind (FH_FetchFrom d sector s) (\<lambda>(hdr, s1). Inr (\<lparr>df_hdr = hdr, seekPosition = 0\<rparr>, s1))"

definition DF_Seek :: "DiskFile \<Rightarrow> int \<Rightarrow> DiskFile" where
  "DF_Seek f position = f\<lparr>seekPosition := position\<rparr>"

text \<open>Copying \<open>n\<close> bytes from offset \<open>off\<close> of a buffer, and copying bytes into one.\<close>

definition copy_out :: "byte list \<Rightarrow> int \<Rightarrow> int \<Rightarrow> byte list result" where
  "copy_out buf off n = (if 0 \<le> off \<and> 0 \<le> n \<and> off + n \<le> int (length buf) then Inr (take (nat n) (drop (nat off) buf))
     else Inl OutOfBounds)"

definition copy_in :: "byte list \<Rightarrow> int \<Rightarrow> byte list \<Rightarrow> byte list result" where
  "copy_in buf off bs = (if 0 \<le> off \<and> off + int (length bs) \<le> int (length buf) then Inr (patch buf (nat off) bs) else Inl OutOfBounds)"

text \<open>The loops over the sectors \<open>i\<close>, \<open>i + 1\<close>, \<dots> of the request, \<open>k\<close> of them.\<close>

fun read_run :: "'s synch_disk \<Rightarrow> FileHeader \<Rightarrow> nat \<Rightarrow> int \<Rightarrow> 's \<Rightarrow> (byte list \<times> 's) result" where
  "read_run d hdr 0 i s = Inr ([], s)"
| "read_run d hdr (Suc k) i s =
     rbind (ByteToSector hdr (i * SectorSize)) (\<lambda>x.
     rbind (sd_ReadSector d x s) (\<lambda>(bs, s1).
     rbind (read_run d hdr k (i + 1) s1) (\<lambda>(rest, s2). Inr (bs @ rest, s2))))"

fun write_run :: "'s synch_disk \<Rightarrow> FileHeader \<Rightarrow> nat \<Rightarrow> int \<Rightarrow> byte list \<Rightarrow> 's \<Rightarrow> 's result" where
  "write_run d hdr 0 i buf s = Inr s"
| "write_run d hdr (Suc k) i buf s =
     rbind (ByteToSector hdr (i * SectorSize)) (\<lambda>x.
     rbind (sd_WriteSector d x (take (nat SectorSize) buf) s) (\<lambda>s1.
     write_run d hdr k (i + 1) (drop (nat SectorSize) buf) s1))"

text \<open>
  A request clipped at the end of the file. The sum is an \<^verbatim>\<open>int\<close>: \<^verbatim>\<open>numBytes\<close> is not limited, so it may overflow. So may the
  size of the buffer below, for a negative position; the other sums of \<^verbatim>\<open>ReadAt\<close> and \<^verbatim>\<open>WriteAt\<close> stay in range once these do.
\<close>

definition clip :: "int \<Rightarrow> int \<Rightarrow> int \<Rightarrow> int result" where
  "clip fileLength numBytes position =
     rbind (c_int (position + numBytes)) (\<lambda>e. if e > fileLength then c_int (fileLength - position) else Inr numBytes)"

definition DF_ReadAt :: "'s synch_disk \<Rightarrow> DiskFile \<Rightarrow> int \<Rightarrow> int \<Rightarrow> 's \<Rightarrow> ((int \<times> byte list) \<times> 's) result" where
  "DF_ReadAt d f numBytes position s =
     (let fileLength = FileLength (df_hdr f) in
      if numBytes \<le> 0 \<or> position \<ge> fileLength then Inr ((0, []), s)
      else rbind (clip fileLength numBytes position) (\<lambda>n.
           let firstSector = divRoundDown position SectorSize;
               lastSector = divRoundDown (position + n - 1) SectorSize;
               numSectors = 1 + lastSector - firstSector in
      rbind (c_int (numSectors * SectorSize)) (\<lambda>_.
      rbind (read_run d (df_hdr f) (nat numSectors) firstSector s) (\<lambda>(buf, s1).
      rbind (copy_out buf (position - firstSector * SectorSize) n) (\<lambda>into. Inr ((n, into), s1))))))"

text \<open>Reading the partly overwritten first and last sectors into the buffer of \<^verbatim>\<open>WriteAt\<close>.\<close>

definition fill :: "'s synch_disk \<Rightarrow> DiskFile \<Rightarrow> bool \<Rightarrow> byte list \<Rightarrow> int \<Rightarrow> int \<Rightarrow> 's \<Rightarrow> (byte list \<times> 's) result" where
  "fill d f needed buf off sect s =
     (if needed
      then rbind (DF_ReadAt d f SectorSize (sect * SectorSize) s) (\<lambda>((r, bs), s1).
           rbind (copy_in buf off bs) (\<lambda>buf1. Inr (buf1, s1)))
      else Inr (buf, s))"

definition DF_WriteAt ::
  "'s synch_disk \<Rightarrow> (nat \<Rightarrow> byte) \<Rightarrow> DiskFile \<Rightarrow> byte list \<Rightarrow> int \<Rightarrow> int \<Rightarrow> 's \<Rightarrow> (int \<times> 's) result" where
  "DF_WriteAt d junk f from numBytes position s =
     (let fileLength = FileLength (df_hdr f) in
      if numBytes \<le> 0 \<or> position \<ge> fileLength then Inr (0, s)
      else rbind (clip fileLength numBytes position) (\<lambda>n.
           let firstSector = divRoundDown position SectorSize;
               lastSector = divRoundDown (position + n - 1) SectorSize;
               numSectors = 1 + lastSector - firstSector;
               firstAligned = (position = firstSector * SectorSize);
               lastAligned = (position + n = (lastSector + 1) * SectorSize) in
      rbind (c_int (numSectors * SectorSize)) (\<lambda>size.
      let buf = map junk [0..<nat size] in
      rbind (fill d f (\<not> firstAligned) buf 0 firstSector s) (\<lambda>(buf1, s1).
      rbind (fill d f (\<not> lastAligned \<and> (firstSector \<noteq> lastSector \<or> firstAligned)) buf1
               ((lastSector - firstSector) * SectorSize) lastSector s1) (\<lambda>(buf2, s2).
      rbind (copy_out from 0 n) (\<lambda>bs.
      rbind (copy_in buf2 (position - firstSector * SectorSize) bs) (\<lambda>buf3.
      rbind (write_run d (df_hdr f) (nat numSectors) firstSector buf3 s2) (\<lambda>s3. Inr (n, s3)))))))))"

definition DF_Read :: "'s synch_disk \<Rightarrow> DiskFile \<Rightarrow> int \<Rightarrow> 's \<Rightarrow> ((int \<times> byte list) \<times> DiskFile \<times> 's) result" where
  "DF_Read d f numBytes s = rbind (DF_ReadAt d f numBytes (seekPosition f) s) (\<lambda>((r, bs), s1).
     Inr ((r, bs), f\<lparr>seekPosition := seekPosition f + r\<rparr>, s1))"

text \<open>
  \<^verbatim>\<open>OpenFile::Write\<close>; its body passes a name, \<^verbatim>\<open>into\<close>, that the function does not declare, where its parameter \<^verbatim>\<open>from\<close>
  is meant.
\<close>

definition DF_Write :: "'s synch_disk \<Rightarrow> (nat \<Rightarrow> byte) \<Rightarrow> DiskFile \<Rightarrow> byte list \<Rightarrow> int \<Rightarrow> 's \<Rightarrow> (int \<times> DiskFile \<times> 's) result" where
  "DF_Write d junk f from numBytes s = rbind (DF_WriteAt d junk f from numBytes (seekPosition f) s) (\<lambda>(r, s1).
     Inr (r, f\<lparr>seekPosition := seekPosition f + r\<rparr>, s1))"

definition DF_Length :: "DiskFile \<Rightarrow> int" where
  "DF_Length f = FileLength (df_hdr f)"

section \<open>Well-formed headers\<close>

text \<open>The sectors a header lists, and the file it describes on the disk content \<open>D\<close>.\<close>

definition secs :: "FileHeader \<Rightarrow> nat list" where
  "secs h = map nat (take (nat (fh_numSectors h)) (dataSectors h))"

definition file_bytes :: "byte list \<Rightarrow> FileHeader \<Rightarrow> byte list" where
  "file_bytes D h = take (nat (fh_numBytes h)) (view 128 D (secs h))"

definition header_ok :: "FileHeader \<Rightarrow> bool" where
  "header_ok h \<longleftrightarrow> 0 \<le> fh_numBytes h \<and> fh_numSectors h = (fh_numBytes h + 127) div 128 \<and> fh_numSectors h \<le> 30 \<and>
     length (dataSectors h) = 30 \<and> (\<forall>x \<in> set (dataSectors h). int32 x) \<and>
     (\<forall>x \<in> set (take (nat (fh_numSectors h)) (dataSectors h)). 0 \<le> x \<and> x < 1024) \<and> distinct (secs h)"

lemma header_parts:
  assumes "header_ok h"
  shows "0 \<le> fh_numBytes h" "fh_numSectors h = (fh_numBytes h + 127) div 128" "fh_numSectors h \<le> 30"
    "length (dataSectors h) = 30" "x \<in> set (dataSectors h) \<Longrightarrow> int32 x"
    "x \<in> set (take (nat (fh_numSectors h)) (dataSectors h)) \<Longrightarrow> 0 \<le> x \<and> x < 1024" "distinct (secs h)"
  using assms unfolding header_ok_def by blast+

lemma header_small: "header_ok h \<Longrightarrow> fh_numBytes h \<le> 3840"
  using header_parts(2,3) [of h] by linarith

lemma header_okD:
  assumes "header_ok h"
  shows "length (secs h) = nat (fh_numSectors h)" "n \<in> set (secs h) \<Longrightarrow> n < 1024" "distinct (secs h)"
    "0 \<le> fh_numBytes h" "nat (fh_numBytes h) \<le> length (secs h) * 128" "0 \<le> fh_numSectors h"
proof -
  note n = header_parts(1-4) [OF assms]
  show l: "length (secs h) = nat (fh_numSectors h)" using n(3,4) by (simp add: secs_def)
  show "n \<in> set (secs h) \<Longrightarrow> n < 1024" by (auto simp: secs_def dest!: header_parts(6) [OF assms])
  show "distinct (secs h)" "0 \<le> fh_numBytes h" by (rule header_parts [OF assms])+
  show "0 \<le> fh_numSectors h" using n(1,2) by linarith
  have "fh_numBytes h \<le> fh_numSectors h * 128" using n(2) by linarith
  then show "nat (fh_numBytes h) \<le> length (secs h) * 128" using l n(1) by linarith
qed

lemma header_blocks_ok: "header_ok h \<Longrightarrow> length D = 131072 \<Longrightarrow> blocks_ok 128 D (secs h)"
proof -
  assume a: "header_ok h" "length D = 131072"
  have "f * 128 + 128 \<le> length D" if "f \<in> set (secs h)" for f using header_okD(2) [OF a(1) that] a(2) by simp
  then show ?thesis using header_okD(3) [OF a(1)] by (simp add: blocks_ok_def)
qed

lemma length_file_bytes: "header_ok h \<Longrightarrow> length (file_bytes D h) = nat (fh_numBytes h)"
  using header_okD(5) [of h] by (simp add: file_bytes_def)

lemma ByteToSector_ok:
  assumes "header_ok h" "0 \<le> i" "i < fh_numSectors h"
  shows "ByteToSector h (i * SectorSize) = Inr (int (secs h ! nat i))" "secs h ! nat i < 1024"
proof -
  note l = header_parts(4,3) [OF assms(1)]
  have k: "nat i < nat (fh_numSectors h)" using assms by simp
  have r: "take (nat (fh_numSectors h)) (dataSectors h) ! nat i \<in> set (take (nat (fh_numSectors h)) (dataSectors h))"
    using k l by (intro nth_mem) simp
  have e: "secs h ! nat i = nat (dataSectors h ! nat i)" using k l by (simp add: secs_def)
  have b: "0 \<le> dataSectors h ! nat i" "dataSectors h ! nat i < 1024" using header_parts(6) [OF assms(1) r] k by simp_all
  show "ByteToSector h (i * SectorSize) = Inr (int (secs h ! nat i))"
    using assms l e b by (simp add: ByteToSector_def nachos_consts sdiv_nonneg)
  show "secs h ! nat i < 1024" using e b by simp
qed

lemma bytes_header_bytes:
  assumes "header_ok h"
  shows "bytes_header (header_bytes h) = h" "length (header_bytes h) = 128"
proof -
  note r = header_parts(1-3) [OF assms]
  then have "fh_numBytes h \<le> 3840" by linarith
  moreover have "0 \<le> fh_numSectors h" using header_okD(6) [OF assms] .
  moreover have "\<forall>x \<in> set (dataSectors h). int32 x" using header_parts(5) [OF assms] by blast
  ultimately have "\<forall>i \<in> set (fh_numBytes h # fh_numSectors h # dataSectors h). int32 i"
    using r by (simp add: int32_def)
  then show "bytes_header (header_bytes h) = h" by (simp add: bytes_header_def header_bytes_def bytes_ints_bytes Let_def)
  show "length (header_bytes h) = 128" using header_parts(4) [OF assms] by (simp add: header_bytes_def)
qed

section \<open>Sectors of a view\<close>

lemma view_sector:
  assumes "j < length fr" "fr ! j < 1024" "length D = 131072"
  shows "take 128 (drop (j * 128) (view 128 D fr)) = sector_of D (fr ! j)"
proof (rule nth_equalityI)
  have j: "j * 128 + 128 \<le> length fr * 128" using assms(1) by simp
  then show "length (take 128 (drop (j * 128) (view 128 D fr))) = length (sector_of D (fr ! j))"
    using assms by (simp add: length_sector_of)
  fix k assume "k < length (take 128 (drop (j * 128) (view 128 D fr)))"
  then have k: "k < 128" by simp
  then show "take 128 (drop (j * 128) (view 128 D fr)) ! k = sector_of D (fr ! j) ! k"
    using j assms by (simp add: nth_view nth_sector_of)
qed

lemma take_drop_join: "take a (drop i xs) @ take b (drop (i + a) xs) = take (a + b) (drop i xs)"
  by (simp add: take_add add.commute)

section \<open>Reading and writing files\<close>

lemma copy_out_nat: "off + n \<le> length buf \<Longrightarrow> copy_out buf (int off) (int n) = Inr (take n (drop off buf))"
  by (simp add: copy_out_def)

lemma copy_in_nat: "off + length bs \<le> length buf \<Longrightarrow> copy_in buf (int off) bs = Inr (patch buf off bs)"
  by (simp add: copy_in_def)

text \<open>The sectors and the number of bytes of a request that is not empty.\<close>

lemma request_shape:
  assumes "header_ok h" "0 \<le> pos" "pos < fh_numBytes h" "0 < n" "pos + n < 2 ^ 31"
  obtains F K N where "clip (fh_numBytes h) n pos = Inr (int N)" "N = min (nat n) (nat (fh_numBytes h) - nat pos)" "0 < N"
    "divRoundDown pos SectorSize = int F" "divRoundDown (pos + int N - 1) SectorSize = int F + int K"
    "F * 128 \<le> nat pos" "nat pos < F * 128 + 128" "(F + K) * 128 < nat pos + N" "nat pos + N \<le> (F + K) * 128 + 128"
    "F + K < length (secs h)" "int F + int (Suc K) \<le> fh_numSectors h" "F + K < 30"
proof -
  define N where "N = min (nat n) (nat (fh_numBytes h) - nat pos)"
  define F where "F = nat (pos div 128)"
  define L where "L = nat ((pos + int N - 1) div 128)"
  note bd = header_small [OF assms(1)]
  have N: "0 < N" "clip (fh_numBytes h) n pos = Inr (int N)" "pos + int N \<le> fh_numBytes h"
    using assms(2-5) bd by (auto simp: N_def clip_def c_int_ok min_def)
  have F: "int F = pos div 128" and L: "int L = (pos + int N - 1) div 128" using assms(2) N(1) by (simp_all add: F_def L_def)
  have FL: "F \<le> L" using F L N(1) assms(2) by (simp add: F_def L_def nat_mono zdiv_mono1)
  have d: "divRoundDown pos SectorSize = int F" "divRoundDown (pos + int N - 1) SectorSize = int F + int (L - F)"
    using assms(2) N(1) F L FL by (simp_all add: divRoundDown_nonneg nachos_consts)
  have ns: "fh_numSectors h = (fh_numBytes h + 127) div 128" by (rule header_parts(2) [OF assms(1)])
  have lt: "int L < fh_numSectors h" using L ns N(3) by linarith
  have b: "F * 128 \<le> nat pos" "nat pos < F * 128 + 128" "L * 128 < nat pos + N" "nat pos + N \<le> L * 128 + 128"
    using F L assms(2) N(1) by linarith+
  have e: "F + (L - F) = L" using FL by simp
  have s: "F + (L - F) < length (secs h)" "int F + int (Suc (L - F)) \<le> fh_numSectors h" "F + (L - F) < 30"
    unfolding e using lt FL header_okD(1) [OF assms(1)] header_parts(3) [OF assms(1)] by linarith+
  show thesis by (rule that [OF N(2) N_def N(1) d b(1,2) _ _ s]) (unfold e, rule b(3), rule b(4))
qed

context sector_disk
begin

lemma read_sector_nat:
  assumes "ok s" "n < 1024"
  shows "\<exists>s'. sd_ReadSector d (int n) s = Inr (sector_of (content s) n, s') \<and> ok s' \<and> content s' = content s"
  using read_law [OF assms(1), of "int n"] assms(2) by (simp add: nachos_consts)

lemma write_sector_nat:
  assumes "ok s" "n < 1024" "length bs = 128"
  shows "\<exists>s'. sd_WriteSector d (int n) bs s = Inr s' \<and> ok s' \<and> content s' = patch (content s) (n * 128) bs"
  using write_law [OF assms(1), of "int n" bs] assms(2,3) by (simp add: nachos_consts)

lemma read_run_ok:
  assumes "ok s" "header_ok h" "0 \<le> i" "i + int k \<le> fh_numSectors h"
  shows "\<exists>s'. read_run d h k i s = Inr (take (k * 128) (drop (nat i * 128) (view 128 (content s) (secs h))), s') \<and>
    ok s' \<and> content s' = content s"
  using assms
proof (induction k arbitrary: i s)
  case 0
  then show ?case by simp
next
  case (Suc k)
  have i: "i < fh_numSectors h" using Suc.prems by simp
  note b = ByteToSector_ok [OF Suc.prems(2,3) i]
  obtain s1 where s1: "sd_ReadSector d (int (secs h ! nat i)) s = Inr (sector_of (content s) (secs h ! nat i), s1)" "ok s1"
      "content s1 = content s" using read_sector_nat [OF Suc.prems(1) b(2)] by blast
  have sec: "sector_of (content s) (secs h ! nat i) = take 128 (drop (nat i * 128) (view 128 (content s) (secs h)))"
    using view_sector [of "nat i" "secs h"] i b(2) size_law [OF Suc.prems(1)] header_okD(1) [OF Suc.prems(2)] Suc.prems(3) by simp
  have "0 \<le> i + 1" "i + 1 + int k \<le> fh_numSectors h" using Suc.prems by simp_all
  then obtain s2 where s2: "read_run d h k (i + 1) s1 = Inr (take (k * 128) (drop (nat (i + 1) * 128) (view 128 (content s1) (secs h))), s2)"
      "ok s2" "content s2 = content s1" using Suc.IH [OF s1(2) Suc.prems(2)] by blast
  have "nat (i + 1) * 128 = nat i * 128 + 128" using Suc.prems(3) by simp
  then have "sector_of (content s) (secs h ! nat i) @ take (k * 128) (drop (nat (i + 1) * 128) (view 128 (content s1) (secs h))) =
      take (Suc k * 128) (drop (nat i * 128) (view 128 (content s) (secs h)))"
    using take_drop_join [of 128 "nat i * 128" _ "k * 128"] s1(3) sec by simp
  then show ?case using b(1) s1 s2 by simp
qed

lemma write_run_ok:
  assumes "ok s" "header_ok h" "0 \<le> i" "i + int k \<le> fh_numSectors h" "length buf = k * 128"
  shows "\<exists>s'. write_run d h k i buf s = Inr s' \<and> ok s' \<and> stored 128 (secs h) (content s) (content s') (nat i * 128) buf"
  using assms
proof (induction k arbitrary: i s buf)
  case 0
  then show ?case by (simp add: stored_Nil)
next
  case (Suc k)
  have i: "i < fh_numSectors h" "nat i < length (secs h)" using Suc.prems header_okD(1) [OF Suc.prems(2)] by simp_all
  note b = ByteToSector_ok [OF Suc.prems(2,3) i(1)]
  have l: "length (take 128 buf) = 128" "length (drop 128 buf) = k * 128" using Suc.prems(5) by simp_all
  obtain s1 where s1: "sd_WriteSector d (int (secs h ! nat i)) (take 128 buf) s = Inr s1" "ok s1"
      "content s1 = patch (content s) (secs h ! nat i * 128) (take 128 buf)" using write_sector_nat [OF Suc.prems(1) b(2) l(1)] by blast
  have bo: "blocks_ok 128 (content s) (secs h)" using header_blocks_ok Suc.prems(1,2) size_law by blast
  have st1: "stored 128 (secs h) (content s) (content s1) (nat i * 128) (take 128 buf)"
    using stored_block [OF bo, of "nat i * 128" "take 128 buf"] i(2) l(1) s1(3) by simp
  have "0 \<le> i + 1" "i + 1 + int k \<le> fh_numSectors h" using Suc.prems by simp_all
  then obtain s2 where s2: "write_run d h k (i + 1) (drop 128 buf) s1 = Inr s2" "ok s2"
      "stored 128 (secs h) (content s1) (content s2) (nat (i + 1) * 128) (drop 128 buf)"
    using Suc.IH [OF s1(2) Suc.prems(2) _ _ l(2)] by blast
  have "nat i * 128 + 128 + k * 128 \<le> length (secs h) * 128"
    using Suc.prems(3,4) header_okD(1) [OF Suc.prems(2)] by linarith
  moreover have "nat (i + 1) * 128 = nat i * 128 + 128" using Suc.prems(3) by simp
  ultimately have "stored 128 (secs h) (content s) (content s2) (nat i * 128) (take 128 buf @ drop 128 buf)"
    using stored_append [OF st1 s2(3)] l by simp
  then show ?case using b(1) s1 s2 by (simp add: nachos_consts)
qed

end

context sector_disk
begin

lemma DF_ReadAt_ok:
  assumes "ok s" "header_ok (df_hdr f)" "0 \<le> pos" "pos + n < 2 ^ 31 \<or> fh_numBytes (df_hdr f) \<le> pos"
  shows "\<exists>s' bs. bs = take (nat n) (drop (nat pos) (file_bytes (content s) (df_hdr f))) \<and>
    DF_ReadAt d f n pos s = Inr ((int (length bs), bs), s') \<and> ok s' \<and> content s' = content s"
proof (cases "n \<le> 0 \<or> pos \<ge> fh_numBytes (df_hdr f)")
  case True
  then have "take (nat n) (drop (nat pos) (file_bytes (content s) (df_hdr f))) = []"
    using length_file_bytes [OF assms(2), of "content s"] by auto
  then show ?thesis using True assms(1) by (simp add: DF_ReadAt_def FileLength_def)
next
  case False
  let ?h = "df_hdr f" let ?V = "view 128 (content s) (secs ?h)"
  obtain F K N where r: "clip (fh_numBytes ?h) n pos = Inr (int N)" "N = min (nat n) (nat (fh_numBytes ?h) - nat pos)" "0 < N"
    "divRoundDown pos SectorSize = int F" "divRoundDown (pos + int N - 1) SectorSize = int F + int K"
    "F * 128 \<le> nat pos" "nat pos < F * 128 + 128" "(F + K) * 128 < nat pos + N" "nat pos + N \<le> (F + K) * 128 + 128"
    "F + K < length (secs ?h)" "int F + int (Suc K) \<le> fh_numSectors ?h" "F + K < 30"
    using request_shape [OF assms(2,3), of n] assms(4) False by (metis not_le)
  have w: "c_int ((1 + int K) * 128) = Inr ((1 + int K) * 128)" using r(12) by (intro c_int_ok) simp_all
  let ?buf = "take (Suc K * 128) (drop (F * 128) ?V)"
  obtain s1 where s1: "read_run d ?h (Suc K) (int F) s = Inr (?buf, s1)" "ok s1" "content s1 = content s"
    using read_run_ok [OF assms(1,2), of "int F" "Suc K"] r(11) by auto
  have lb: "length ?buf = Suc K * 128" using r(10) by simp
  have o: "pos - int F * 128 = int (nat pos - F * 128)" using r(6) assms(3) by simp
  have "drop (nat pos - F * 128) ?buf = take (Suc K * 128 - (nat pos - F * 128)) (drop (nat pos) ?V)"
    using r(6) by (simp add: drop_take)
  moreover have "N \<le> Suc K * 128 - (nat pos - F * 128)" using r(6,9) by simp
  ultimately have "take N (drop (nat pos - F * 128) ?buf) = take N (drop (nat pos) ?V)" by (simp only: take_take min_absorb1)
  moreover have "take (nat n) (drop (nat pos) (file_bytes (content s) ?h)) = take N (drop (nat pos) ?V)"
    by (simp add: file_bytes_def drop_take r(2))
  moreover have "copy_out ?buf (pos - int F * 128) (int N) = Inr (take N (drop (nat pos - F * 128) ?buf))"
    unfolding o by (rule copy_out_nat) (unfold lb, use r(6,9) in simp)
  moreover have "length (take N (drop (nat pos) ?V)) = N" using r(9,10) by simp
  moreover have "nat (1 + int K) = Suc K" by simp
  ultimately show ?thesis using s1 r(1,4,5) False w
    by (intro exI [of _ s1] exI [of _ "take N (drop (nat pos) ?V)"])
      (simp add: DF_ReadAt_def Let_def FileLength_def SectorSize_def del: read_run.simps)
qed

text \<open>What \<open>fill\<close> leaves in the buffer: the file's bytes where it read, the old ones elsewhere.\<close>

lemma fill_ok:
  assumes "ok s" "header_ok (df_hdr f)" "off + 128 \<le> length buf"
  shows "\<exists>s' buf'. fill d f needed buf (int off) (int S) s = Inr (buf', s') \<and> ok s' \<and> content s' = content s \<and> length buf' = length buf \<and>
    (\<forall>j < length buf. buf' ! j = (if needed \<and> off \<le> j \<and> j < off + 128 \<and> S * 128 + (j - off) < nat (fh_numBytes (df_hdr f))
       then file_bytes (content s) (df_hdr f) ! (S * 128 + (j - off)) else buf ! j))"
proof (cases needed)
  case True
  let ?C = "file_bytes (content s) (df_hdr f)" let ?bs = "take 128 (drop (S * 128) ?C)"
  have l: "length ?C = nat (fh_numBytes (df_hdr f))" by (rule length_file_bytes [OF assms(2)])
  have p: "nat (int S * 128) = S * 128" by simp
  have sm: "int S * 128 + 128 < 2 ^ 31 \<or> fh_numBytes (df_hdr f) \<le> int S * 128"
    using header_small [OF assms(2)] by auto
  obtain s1 where s1: "DF_ReadAt d f 128 (int S * 128) s = Inr ((int (length ?bs), ?bs), s1)" "ok s1" "content s1 = content s"
    using DF_ReadAt_ok [OF assms(1,2) _ sm] unfolding p by auto
  have b: "off + length ?bs \<le> length buf" using assms(3) by simp
  have "copy_in buf (int off) ?bs = Inr (patch buf off ?bs)" by (rule copy_in_nat [OF b])
  then have "fill d f needed buf (int off) (int S) s = Inr (patch buf off ?bs, s1)"
    using True s1(1) by (simp add: fill_def SectorSize_def)
  moreover have "patch buf off ?bs ! j = (if needed \<and> off \<le> j \<and> j < off + 128 \<and> S * 128 + (j - off) < nat (fh_numBytes (df_hdr f))
       then ?C ! (S * 128 + (j - off)) else buf ! j)" for j
    using nth_patch [OF b, of j] True l by auto
  ultimately show ?thesis using s1(2,3) length_patch [OF b] by blast
next
  case False
  then show ?thesis using assms(1) by (simp add: fill_def)
qed

end

text \<open>
  The buffer of \<^verbatim>\<open>WriteAt\<close>: after the two partial reads and the copy, every position that lies in the file holds the
  new byte inside the request and the old byte outside it.
\<close>

lemma write_buffer:
  assumes F: "F * 128 \<le> P" "P < F * 128 + 128" and K: "(F + K) * 128 < P + N" "P + N \<le> (F + K) * 128 + 128" and N: "length bs = N"
    and l: "length buf = Suc K * 128" "length buf1 = length buf" "length buf2 = length buf"
    and b1: "\<forall>j < length buf. buf1 ! j = (if P \<noteq> F * 128 \<and> 0 \<le> j \<and> j < 0 + 128 \<and> F * 128 + (j - 0) < len
       then C ! (F * 128 + (j - 0)) else buf ! j)"
    and b2: "\<forall>j < length buf. buf2 ! j = (if (P + N \<noteq> (F + K) * 128 + 128 \<and> (K = 0 \<longrightarrow> P = F * 128)) \<and> K * 128 \<le> j \<and> j < K * 128 + 128 \<and>
         (F + K) * 128 + (j - K * 128) < len then C ! ((F + K) * 128 + (j - K * 128)) else buf1 ! j)"
    and j: "j < Suc K * 128" "F * 128 + j < len"
  shows "patch buf2 (P - F * 128) bs ! j = (if P \<le> F * 128 + j \<and> F * 128 + j < P + N then bs ! (F * 128 + j - P) else C ! (F * 128 + j))"
proof -
  have le: "P - F * 128 + length bs \<le> length buf2" using F K N l by simp
  have p: "patch buf2 (P - F * 128) bs ! j = (if P - F * 128 \<le> j \<and> j < P - F * 128 + N then bs ! (j - (P - F * 128)) else buf2 ! j)"
    using nth_patch [OF le, of j] N by simp
  consider (inside) "P \<le> F * 128 + j \<and> F * 128 + j < P + N" | (before) "F * 128 + j < P" | (after) "P + N \<le> F * 128 + j" by linarith
  then show ?thesis
  proof cases
    case inside
    then have "P - F * 128 \<le> j \<and> j < P - F * 128 + N" "j - (P - F * 128) = F * 128 + j - P" using F by auto
    then show ?thesis using p inside by simp
  next
    case before
    then have "buf1 ! j = C ! (F * 128 + j)" using b1 j F l(1) by simp
    moreover have "K * 128 \<le> j \<Longrightarrow> (F + K) * 128 + (j - K * 128) = F * 128 + j" by simp
    ultimately have "buf2 ! j = C ! (F * 128 + j)" using b2 j l(1) by simp
    then show ?thesis using p before by auto
  next
    case after
    have kj: "K * 128 \<le> j" "j < K * 128 + 128" using after K(1) j(1) by simp_all
    have e: "(F + K) * 128 + (j - K * 128) = F * 128 + j" using kj by simp
    have ne: "P + N \<noteq> (F + K) * 128 + 128" using after kj by simp
    have "buf2 ! j = C ! (F * 128 + j)"
    proof (cases "K = 0 \<longrightarrow> P = F * 128")
      case True
      then show ?thesis using b2 j l(1) kj e ne by simp
    next
      case False
      then show ?thesis using b1 b2 j l(1) by simp
    qed
    moreover have "\<not> j < P - F * 128 + N" using after F(1) by simp
    ultimately show ?thesis using p after by simp
  qed
qed

lemma write_patch:
  assumes "A + length B \<le> length V" "P + length bs \<le> length C" "C ! i = V ! i"
    "\<And>j. j < length B \<Longrightarrow> A + j < len \<Longrightarrow>
       B ! j = (if P \<le> A + j \<and> A + j < P + length bs then bs ! (A + j - P) else C ! (A + j))"
    "i < len" "A \<le> P" "P + length bs \<le> A + length B"
  shows "patch V A B ! i = patch C P bs ! i"
  using assms(1-3,5-) assms(4) [of "i - A"] by (auto simp: nth_patch)

context sector_disk
begin

lemma DF_WriteAt_ok:
  assumes "ok s" "header_ok (df_hdr f)" "0 \<le> pos" "n \<le> int (length from)" "pos + n < 2 ^ 31 \<or> fh_numBytes (df_hdr f) \<le> pos"
  shows "\<exists>s' bs. bs = take (nat (fh_numBytes (df_hdr f)) - nat pos) (take (nat n) from) \<and>
    DF_WriteAt d junk f from n pos s = Inr (int (length bs), s') \<and> ok s' \<and>
    file_bytes (content s') (df_hdr f) = patch (file_bytes (content s) (df_hdr f)) (nat pos) bs \<and>
    (\<forall>k < 131072. k div 128 \<notin> set (secs (df_hdr f)) \<longrightarrow> content s' ! k = content s ! k)"
proof (cases "n \<le> 0 \<or> pos \<ge> fh_numBytes (df_hdr f)")
  case True
  then have "take (nat (fh_numBytes (df_hdr f)) - nat pos) (take (nat n) from) = []" by auto
  then show ?thesis using True assms(1) by (intro exI [of _ s] exI [of _ "[]"]) (simp add: DF_WriteAt_def FileLength_def)
next
  case False
  let ?h = "df_hdr f" let ?V = "view 128 (content s) (secs ?h)" let ?C = "file_bytes (content s) ?h" let ?len = "nat (fh_numBytes ?h)"
  let ?P = "nat pos"
  obtain F K N where r: "clip (fh_numBytes ?h) n pos = Inr (int N)" "N = min (nat n) (?len - ?P)" "0 < N"
    "divRoundDown pos SectorSize = int F" "divRoundDown (pos + int N - 1) SectorSize = int F + int K"
    "F * 128 \<le> ?P" "?P < F * 128 + 128" "(F + K) * 128 < ?P + N" "?P + N \<le> (F + K) * 128 + 128"
    "F + K < length (secs ?h)" "int F + int (Suc K) \<le> fh_numSectors ?h" "F + K < 30"
    using request_shape [OF assms(2,3), of n] assms(5) False by (metis not_le)
  have w: "c_int ((1 + int K) * 128) = Inr ((1 + int K) * 128)" using r(12) by (intro c_int_ok) simp_all
  let ?bs = "take N from"
  have bs: "take (?len - ?P) (take (nat n) from) = ?bs" "length ?bs = N" using r(2) assms(4) by (simp_all add: min.commute) (auto simp: min_def)
  let ?buf = "map junk [0..<Suc K * 128]"
  have lb: "length ?buf = Suc K * 128" by simp
  have "?P \<le> ?len" using False by (simp add: nat_mono)
  moreover have "N \<le> ?len - ?P" using r(2) by simp
  ultimately have pl: "?P + length ?bs \<le> ?len" unfolding bs(2) by linarith
  have ia: "pos = int ?P" "int F * 128 = int (F * 128)" "pos + int N = int (?P + N)"
    "(int F + int K + 1) * 128 = int ((F + K) * 128 + 128)" using assms(3) by simp_all
  have al: "pos = int F * 128 \<longleftrightarrow> ?P = F * 128" "pos + int N = (int F + int K + 1) * 128 \<longleftrightarrow> ?P + N = (F + K) * 128 + 128"
    using ia by (metis of_nat_eq_iff)+
  have k0: "0 + 128 \<le> length ?buf" unfolding lb by simp
  obtain s1 buf1 where s1: "fill d f (?P \<noteq> F * 128) ?buf (int 0) (int F) s = Inr (buf1, s1)" "ok s1" "content s1 = content s"
    "length buf1 = length ?buf" and b1: "\<forall>j < length ?buf. buf1 ! j = (if ?P \<noteq> F * 128 \<and> 0 \<le> j \<and> j < 0 + 128 \<and> F * 128 + (j - 0) < ?len
       then ?C ! (F * 128 + (j - 0)) else ?buf ! j)"
    using fill_ok [OF assms(1,2) k0, of "?P \<noteq> F * 128" F] by blast
  let ?nl = "?P + N \<noteq> (F + K) * 128 + 128 \<and> (K = 0 \<longrightarrow> ?P = F * 128)"
  have k1: "K * 128 + 128 \<le> length buf1" using s1(4) lb by simp
  obtain s2 buf2 where s2: "fill d f ?nl buf1 (int (K * 128)) (int (F + K)) s1 = Inr (buf2, s2)" "ok s2" "content s2 = content s"
    "length buf2 = length ?buf" and b2: "\<forall>j < length ?buf. buf2 ! j = (if ?nl \<and> K * 128 \<le> j \<and> j < K * 128 + 128 \<and>
         (F + K) * 128 + (j - K * 128) < ?len then ?C ! ((F + K) * 128 + (j - K * 128)) else buf1 ! j)"
    using fill_ok [OF s1(2) assms(2) k1, of ?nl "F + K"] s1(3,4) by metis
  let ?buf3 = "patch buf2 (?P - F * 128) ?bs"
  have le: "?P - F * 128 + length ?bs \<le> length buf2" using r(6,9) bs(2) s2(4) by simp
  have l3: "length ?buf3 = Suc K * 128" using length_patch [OF le] s2(4) by simp
  obtain s3 where s3: "write_run d ?h (Suc K) (int F) ?buf3 s2 = Inr s3" "ok s3"
      "stored 128 (secs ?h) (content s) (content s3) (F * 128) ?buf3"
    using write_run_ok [OF s2(2) assms(2) _ r(11) l3] s2(3) by auto
  have "copy_out from 0 (int N) = Inr ?bs" using copy_out_nat [of 0 N "from"] bs(2) by simp
  moreover have o: "pos - int F * 128 = int (?P - F * 128)" using r(6) assms(3) by simp
  have "copy_in buf2 (pos - int F * 128) ?bs = Inr ?buf3" unfolding o by (rule copy_in_nat [OF le])
  moreover have "nat ((1 + int K) * 128) = Suc K * 128" "nat (1 + (int F + int K) - int F) = Suc K" by simp_all
  ultimately have "DF_WriteAt d junk f from n pos s = Inr (int N, s3)"
    using False r(1,4,5) s1(1) s2(1) s3(1) al w
    by (simp add: DF_WriteAt_def Let_def FileLength_def SectorSize_def add_ac del: write_run.simps upt_Suc)
  moreover have "file_bytes (content s3) ?h = patch ?C ?P ?bs"
  proof -
    have v: "view 128 (content s3) (secs ?h) = patch ?V (F * 128) ?buf3" using s3(3) by (simp add: stored_def)
    have fb: "F * 128 + length ?buf3 \<le> length ?V" using r(10) l3 by simp
    have "patch ?V (F * 128) ?buf3 ! i = patch ?C ?P ?bs ! i" if i: "i < ?len" for i
    proof (rule write_patch [OF fb _ _ _ i])
      show "?P + length ?bs \<le> length ?C" using pl length_file_bytes [OF assms(2)] by simp
      show "?C ! i = ?V ! i" using i by (simp add: file_bytes_def)
      show "?buf3 ! j = (if ?P \<le> F * 128 + j \<and> F * 128 + j < ?P + length ?bs then ?bs ! (F * 128 + j - ?P) else ?C ! (F * 128 + j))"
        if "j < length ?buf3" "F * 128 + j < ?len" for j
        unfolding bs(2) by (rule write_buffer [OF r(6-9) bs(2) lb s1(4) s2(4) b1 b2]) (use that l3 in simp_all)
      show "F * 128 \<le> ?P" "?P + length ?bs \<le> F * 128 + length ?buf3" using r(6,9) l3 bs(2) by simp_all
    qed
    moreover have "length ?C = ?len" "?len \<le> length ?V" using length_file_bytes [OF assms(2)] header_okD(5) [OF assms(2)] by simp_all
    ultimately show ?thesis unfolding file_bytes_def [of "content s3"] v using length_patch [OF fb] pl
      by (intro nth_equalityI) (simp_all add: length_patch)
  qed
  moreover have "\<forall>k < 131072. k div 128 \<notin> set (secs ?h) \<longrightarrow> content s3 ! k = content s ! k"
    using s3(3) size_law [OF assms(1)] by (simp add: stored_def)
  ultimately show ?thesis using s3(2) bs by (intro exI [of _ s3] exI [of _ ?bs]) simp
qed

end

section \<open>Allocating the sectors of a file\<close>

lemma alloc_sectors_slots:
  assumes "take_slots FindAndSet k fm = Inr (xs, fm')" "\<forall>x \<in> set xs. 0 \<le> x" "i + k \<le> length ds"
  shows "alloc_sectors k (int i) ds fm = Inr (take i ds @ xs @ drop (i + k) ds, fm')"
  using assms
proof (induction k arbitrary: i ds fm xs)
  case 0
  then show ?case by simp
next
  case (Suc k)
  obtain x fm1 ys where t: "FindAndSet fm = Inr (x, fm1)" "take_slots FindAndSet k fm1 = Inr (ys, fm')" "xs = x # ys"
    using Suc.prems(1) by (auto elim!: rbind_InrE)
  have a: "alloc_sectors k (int (Suc i)) (ds[i := x]) fm1 = Inr (take (Suc i) (ds[i := x]) @ ys @ drop (Suc i + k) (ds[i := x]), fm')"
    by (rule Suc.IH [OF t(2)]) (use Suc.prems(2,3) t(3) in auto)
  have "take (Suc i) (ds[i := x]) = take i ds @ [x]" "drop (Suc i + k) (ds[i := x]) = drop (Suc i + k) ds"
    using Suc.prems(3) by (simp_all add: take_Suc_conv_app_nth)
  then show ?case using a t Suc.prems(2,3) by (simp add: add.commute)
qed

lemma alloc_sectors_overflow:
  assumes "bitmap_ok fm" "int k \<le> int (card ({0..<numBits fm} - used_slots fm))" "i \<le> length ds" "length ds < i + k"
  shows "alloc_sectors k (int i) ds fm = Inl OutOfBounds"
  using assms
proof (induction k arbitrary: i ds fm)
  case 0
  then show ?case by simp
next
  case (Suc k)
  have "used_slots fm \<noteq> {0..<numBits fm}" using Suc.prems(2) by auto
  then obtain x fm1 where f: "FindAndSet fm = Inr (x, fm1)" "0 \<le> x" "x < numBits fm" "x \<notin> used_slots fm" "bitmap_ok fm1"
      "numBits fm1 = numBits fm" "used_slots fm1 = insert x (used_slots fm)"
    using FindAndSet_free [OF Suc.prems(1)] by blast
  show ?case
  proof (cases "i < length ds")
    case True
    have "{0..<numBits fm1} - used_slots fm1 = ({0..<numBits fm} - used_slots fm) - {x}" using f by auto
    then have "int k \<le> int (card ({0..<numBits fm1} - used_slots fm1))"
      using f(2-4) Suc.prems(2) by (simp add: card_Diff_singleton)
    then have "alloc_sectors k (int (Suc i)) (ds[i := x]) fm1 = Inl OutOfBounds"
      by (rule Suc.IH [OF f(5)]) (use True Suc.prems(4) in auto)
    then show ?thesis using f True by (simp add: add.commute)
  next
    case False
    then show ?thesis using f Suc.prems(3) by (simp add: awrite_def)
  qed
qed

text \<open>The number of sectors a file of \<open>sz\<close> bytes needs.\<close>

definition sectors_for :: "int \<Rightarrow> nat" where
  "sectors_for sz = nat ((sz + 127) div 128)"

definition free_slots :: "bitmap \<Rightarrow> nat" where
  "free_slots fm = card ({0..<numBits fm} - used_slots fm)"

lemma FH_Allocate_ok:
  assumes fm: "bitmap_ok fm" "numBits fm = 1024" and z: "0 \<le> sz" "sz \<le> MaxFileSize"
    and h: "length (dataSectors hdr) = 30" "\<forall>x \<in> set (dataSectors hdr). int32 x"
  shows "if free_slots fm < sectors_for sz then \<exists>hdr'. FH_Allocate hdr fm sz = Inr (False, hdr', fm)
    else \<exists>hdr' fm'. FH_Allocate hdr fm sz = Inr (True, hdr', fm') \<and> header_ok hdr' \<and> fh_numBytes hdr' = sz \<and>
      bitmap_ok fm' \<and> numBits fm' = 1024 \<and> used_slots fm' = used_slots fm \<union> int ` set (secs hdr') \<and>
      int ` set (secs hdr') \<inter> used_slots fm = {}"
proof -
  define k where "k = (sz + 127) div 128"
  have k: "divRoundUp sz SectorSize = k" "0 \<le> k" "k \<le> 30" "sectors_for sz = nat k"
    using z by (simp_all add: k_def divRoundUp_nonneg nachos_consts sectors_for_def)
  have c: "NumClear fm = Inr (int (free_slots fm))" using bm.num_clear_law [OF fm(1)] by (simp add: free_slots_def)
  show ?thesis
  proof (cases "free_slots fm < sectors_for sz")
    case True
    then show ?thesis using c k by (simp add: FH_Allocate_def Let_def)
  next
    case False
    then have "int (nat k) \<le> int (card ({0..<numBits fm} - used_slots fm))" using k by (simp add: free_slots_def)
    from bm.take_slots_ok [OF fm(1) this]
    obtain xs fm' where t: "take_slots FindAndSet (nat k) fm = Inr (xs, fm')" "length xs = nat k" "distinct xs"
        "set xs \<subseteq> {0..<numBits fm} - used_slots fm" "bitmap_ok fm'" "numBits fm' = numBits fm" "used_slots fm' = used_slots fm \<union> set xs"
      by blast
    let ?h = "\<lparr>fh_numBytes = sz, fh_numSectors = k, dataSectors = xs @ drop (nat k) (dataSectors hdr)\<rparr>"
    have r: "\<forall>x \<in> set xs. 0 \<le> x \<and> x < 1024" using t(4) fm(2) by auto
    have "alloc_sectors (nat k) (int 0) (dataSectors hdr) fm = Inr (take 0 (dataSectors hdr) @ xs @ drop (0 + nat k) (dataSectors hdr), fm')"
      by (rule alloc_sectors_slots [OF t(1)]) (use r h(1) k in auto)
    then have a: "FH_Allocate hdr fm sz = Inr (True, ?h, fm')"
      using c k False by (simp add: FH_Allocate_def Let_def)
    have s: "secs ?h = map nat xs" using t(2) by (simp add: secs_def)
    have i: "int ` set (secs ?h) = set xs" using r s by (force simp: image_image)
    have "inj_on nat (set xs)" by (rule inj_onI) (use r eq_nat_nat_iff in blast)
    then have "distinct (secs ?h)" using t(3) s by (simp add: distinct_map)
    moreover have "\<forall>x \<in> set (dataSectors ?h). int32 x" using r h(2) by (auto simp: int32_def dest: in_set_dropD)
    moreover have "\<forall>x \<in> set (take (nat (fh_numSectors ?h)) (dataSectors ?h)). 0 \<le> x \<and> x < 1024" using r t(2) by simp
    moreover have "fh_numSectors ?h = (fh_numBytes ?h + 127) div 128" by (simp add: k_def)
    moreover have "0 \<le> fh_numBytes ?h" "fh_numSectors ?h \<le> 30" "length (dataSectors ?h) = 30" using k(2,3) z(1) h(1) t(2) by simp_all
    ultimately have "header_ok ?h" unfolding header_ok_def by blast
    then show ?thesis using a t(4-7) i fm(2) False by fastforce
  qed
qed

lemma dealloc_sectors_ok:
  assumes "bitmap_ok fm" "i + k \<le> length ds" "distinct (take k (drop i ds))" "set (take k (drop i ds)) \<subseteq> used_slots fm"
  shows "\<exists>fm'. dealloc_sectors k (int i) ds fm = Inr fm' \<and> bitmap_ok fm' \<and> numBits fm' = numBits fm \<and>
    used_slots fm' = used_slots fm - set (take k (drop i ds))"
  using assms
proof (induction k arbitrary: i fm)
  case 0
  then show ?case by simp
next
  case (Suc k)
  have e: "take (Suc k) (drop i ds) = ds ! i # take k (drop (Suc i) ds)"
    using Suc.prems(2) by (simp add: Cons_nth_drop_Suc [symmetric])
  let ?x = "ds ! i"
  have x: "?x \<in> used_slots fm" "0 \<le> ?x" "?x < numBits fm" using Suc.prems(4) e used_slots_range [of fm] by auto
  obtain fm1 where f: "Clear fm ?x = Inr fm1" "bitmap_ok fm1" "numBits fm1 = numBits fm" "used_slots fm1 = used_slots fm - {?x}"
    using Clear_ok [OF Suc.prems(1) x(2,3)] by blast
  obtain fm2 where g: "dealloc_sectors k (int (Suc i)) ds fm1 = Inr fm2" "bitmap_ok fm2" "numBits fm2 = numBits fm1"
      "used_slots fm2 = used_slots fm1 - set (take k (drop (Suc i) ds))"
    using Suc.IH [OF f(2), of "Suc i"] Suc.prems(2-4) e f(4) by auto
  have "Test fm ?x = Inr True" using Test_ok [OF Suc.prems(1) x(2,3)] x(1) by simp
  then have "dealloc_sectors (Suc k) (int i) ds fm = Inr fm2" using f(1) g(1) Suc.prems(2) by (simp add: add.commute)
  then show ?case using f g e by auto
qed

lemma FH_Deallocate_ok:
  assumes "header_ok h" "bitmap_ok fm" "int ` set (secs h) \<subseteq> used_slots fm"
  shows "\<exists>fm'. FH_Deallocate h fm = Inr fm' \<and> bitmap_ok fm' \<and> numBits fm' = numBits fm \<and>
    used_slots fm' = used_slots fm - int ` set (secs h)"
proof -
  let ?xs = "take (nat (fh_numSectors h)) (dataSectors h)"
  have i: "int ` set (secs h) = set ?xs" using header_parts(6) [OF assms(1)] by (force simp: secs_def image_image)
  have d: "distinct ?xs" using header_parts(7) [OF assms(1)] by (simp add: secs_def distinct_map)
  have "0 + nat (fh_numSectors h) \<le> length (dataSectors h)" using header_parts(3,4) [OF assms(1)] by simp
  from dealloc_sectors_ok [OF assms(2) this] show ?thesis using i d assms(3) by (simp add: FH_Deallocate_def)
qed

end
