(* ===== verification/Disk_Directory.thy ===== *)
theory Disk_Directory
  imports Disk_Files
begin

text \<open>
  What the disk file system keeps in files of its own: the directory (\<^verbatim>\<open>filesys/directory.h\<close>,
  \<^verbatim>\<open>filesys/directory.cc\<close>), a table of names and header sectors, and the bitmap of used sectors
  (\<^verbatim>\<open>filesys/pbitmap.cc\<close>). Both are kept in memory as C++ objects and moved to and from disk as their raw bytes.
  The directory is shown to implement a finite map from names, cut to nine characters, to sectors.
\<close>

section \<open>C strings\<close>

text \<open>
  A C string is the list of its characters before the terminating NUL. \<open>strn_eq n a b\<close> is \<^verbatim>\<open>!strncmp(a, b, n)\<close> on arrays
  with their terminators; \<open>strncpy n dst src\<close> is the array \<open>dst\<close> after \<^verbatim>\<open>strncpy(dst, src, n)\<close>.
\<close>

fun strn_eq :: "nat \<Rightarrow> byte list \<Rightarrow> byte list \<Rightarrow> bool" where
  "strn_eq 0 a b = True"
| "strn_eq (Suc n) (x # a) (y # b) = (if x \<noteq> y then False else if x = 0 then True else strn_eq n a b)"
| "strn_eq (Suc n) a b = False"

definition strncpy :: "nat \<Rightarrow> byte list \<Rightarrow> byte list \<Rightarrow> byte list" where
  "strncpy n dst src = take n src @ replicate (n - length src) 0 @ drop n dst"

text \<open>The part of a name the directory compares.\<close>

definition name_key :: "byte list \<Rightarrow> byte list" where
  "name_key nm = takeWhile (\<lambda>b. b \<noteq> 0) (take 9 nm)"

lemma strn_eq_prefix:
  "n \<le> length a \<Longrightarrow> strn_eq n a (b @ [0]) \<longleftrightarrow>
     takeWhile (\<lambda>b. b \<noteq> 0) (take n a) = takeWhile (\<lambda>b. b \<noteq> 0) (take n b)"
proof (induction n arbitrary: a b)
  case (Suc n)
  then obtain x a' where a: "a = x # a'" "n \<le> length a'" by (cases a) auto
  show ?case using Suc.IH [OF a(2), of "tl b"] a by (cases b) auto
qed simp

lemma name_key_strncpy: "length dst = 10 \<Longrightarrow> name_key (strncpy 9 dst src) = name_key src"
proof -
  assume "length dst = 10"
  have "takeWhile (\<lambda>b. b \<noteq> 0) (xs @ replicate k (0 :: byte)) = takeWhile (\<lambda>b. b \<noteq> 0) xs" for xs k
    by (induction xs; cases k) simp_all
  then show ?thesis by (simp add: name_key_def strncpy_def)
qed

section \<open>The directory\<close>

definition FileNameMaxLen :: int where [nachos_consts]: "FileNameMaxLen = 9"

text \<open>\<open>de_pad\<close> holds the five bytes of an entry that belong to no member.\<close>

record DirectoryEntry =
  de_inUse :: bool
  de_sector :: int
  de_name :: "byte list"
  de_pad :: "byte list"

record Directory =
  tableSize :: int
  dir_table :: "DirectoryEntry list"

definition entry_bytes :: "DirectoryEntry \<Rightarrow> byte list" where
  "entry_bytes e = (if de_inUse e then 1 else 0) # take 3 (de_pad e) @ int_bytes (de_sector e) @ de_name e @ drop 3 (de_pad e)"

definition bytes_entry :: "byte list \<Rightarrow> DirectoryEntry" where
  "bytes_entry bs = \<lparr>de_inUse = bs ! 0 \<noteq> 0, de_sector = hd (bytes_ints (drop 4 bs)), de_name = take 10 (drop 8 bs),
     de_pad = take 3 (drop 1 bs) @ take 2 (drop 18 bs)\<rparr>"

definition table_bytes :: "DirectoryEntry list \<Rightarrow> byte list" where
  "table_bytes T = concat (map entry_bytes T)"

definition bytes_table :: "byte list \<Rightarrow> DirectoryEntry list" where
  "bytes_table bs = map (\<lambda>i. bytes_entry (take 20 (drop (20 * i) bs))) [0..<length bs div 20]"

definition new_Directory :: "(nat \<Rightarrow> byte) \<Rightarrow> int \<Rightarrow> Directory" where
  "new_Directory junk n = \<lparr>tableSize = n,
     dir_table = map (\<lambda>e. e\<lparr>de_inUse := False\<rparr>) (bytes_table (map junk [0..<20 * nat n]))\<rparr>"

definition Dir_FetchFrom :: "'s synch_disk \<Rightarrow> DiskFile \<Rightarrow> Directory \<Rightarrow> 's \<Rightarrow> (Directory \<times> 's) result" where
  "Dir_FetchFrom d f dir s = rbind (DF_ReadAt d f (tableSize dir * 20) 0 s) (\<lambda>((r, bs), s1).
     Inr (dir\<lparr>dir_table := bytes_table (patch (table_bytes (dir_table dir)) 0 bs)\<rparr>, s1))"

definition Dir_WriteBack :: "'s synch_disk \<Rightarrow> (nat \<Rightarrow> byte) \<Rightarrow> DiskFile \<Rightarrow> Directory \<Rightarrow> 's \<Rightarrow> 's result" where
  "Dir_WriteBack d junk f dir s =
     rbind (DF_WriteAt d junk f (table_bytes (dir_table dir)) (tableSize dir * 20) 0 s) (\<lambda>(r, s1). Inr s1)"

fun find_entry :: "DirectoryEntry list \<Rightarrow> byte list \<Rightarrow> int \<Rightarrow> int" where
  "find_entry [] name i = -1"
| "find_entry (e # es) name i =
     (if de_inUse e \<and> strn_eq (nat FileNameMaxLen) (de_name e) (name @ [0]) then i else find_entry es name (i + 1))"

definition FindIndex :: "Directory \<Rightarrow> byte list \<Rightarrow> int" where
  "FindIndex dir name = find_entry (dir_table dir) name 0"

definition Dir_Find :: "Directory \<Rightarrow> byte list \<Rightarrow> int" where
  "Dir_Find dir name = (let i = FindIndex dir name in if i \<noteq> -1 then de_sector (dir_table dir ! nat i) else -1)"

fun add_entry :: "DirectoryEntry list \<Rightarrow> byte list \<Rightarrow> int \<Rightarrow> bool \<times> DirectoryEntry list" where
  "add_entry [] name newSector = (False, [])"
| "add_entry (e # es) name newSector =
     (if \<not> de_inUse e
      then (True, e\<lparr>de_inUse := True, de_name := strncpy (nat FileNameMaxLen) (de_name e) name, de_sector := newSector\<rparr> # es)
      else let (b, es1) = add_entry es name newSector in (b, e # es1))"

definition Dir_Add :: "Directory \<Rightarrow> byte list \<Rightarrow> int \<Rightarrow> bool \<times> Directory" where
  "Dir_Add dir name newSector =
     (if FindIndex dir name \<noteq> -1 then (False, dir)
      else let (b, T) = add_entry (dir_table dir) name newSector in (b, dir\<lparr>dir_table := T\<rparr>))"

definition Dir_Remove :: "Directory \<Rightarrow> byte list \<Rightarrow> bool \<times> Directory" where
  "Dir_Remove dir name =
     (let i = FindIndex dir name in
      if i = -1 then (False, dir)
      else (True, dir\<lparr>dir_table := (dir_table dir)[nat i := (dir_table dir ! nat i)\<lparr>de_inUse := False\<rparr>]\<rparr>))"

text \<open>What \<^verbatim>\<open>printf("%s")\<close> prints of a name; a name without a NUL in its array is read past its end.\<close>

definition print_name :: "byte list \<Rightarrow> byte list result" where
  "print_name nm = (if 0 \<in> set nm then Inr (takeWhile (\<lambda>b. b \<noteq> 0) nm) else Inl OutOfBounds)"

fun list_names :: "DirectoryEntry list \<Rightarrow> byte list list result" where
  "list_names [] = Inr []"
| "list_names (e # es) =
     (if de_inUse e then rbind (print_name (de_name e)) (\<lambda>nm. rbind (list_names es) (\<lambda>nms. Inr (nm # nms))) else list_names es)"

definition Dir_List :: "Directory \<Rightarrow> byte list list result" where
  "Dir_List dir = list_names (dir_table dir)"

section \<open>The bitmap on disk\<close>

definition words_bytes :: "32 word list \<Rightarrow> byte list" where
  "words_bytes ws = concat (map word_bytes ws)"

fun bytes_words :: "byte list \<Rightarrow> 32 word list" where
  "bytes_words (a # b # c # e # bs) = bytes_word a b c e # bytes_words bs"
| "bytes_words bs = []"

definition PB_FetchFrom :: "'s synch_disk \<Rightarrow> DiskFile \<Rightarrow> bitmap \<Rightarrow> 's \<Rightarrow> (bitmap \<times> 's) result" where
  "PB_FetchFrom d f bm s = rbind (DF_ReadAt d f (numWords bm * 4) 0 s) (\<lambda>((r, bs), s1).
     Inr (bm\<lparr>bm_map := bytes_words (patch (words_bytes (bm_map bm)) 0 bs)\<rparr>, s1))"

definition new_PersistentBitmap :: "'s synch_disk \<Rightarrow> DiskFile \<Rightarrow> int \<Rightarrow> 's \<Rightarrow> (bitmap \<times> 's) result" where
  "new_PersistentBitmap d f numItems s = rbind (new_Bitmap numItems) (\<lambda>bm. PB_FetchFrom d f bm s)"

definition PB_WriteBack :: "'s synch_disk \<Rightarrow> (nat \<Rightarrow> byte) \<Rightarrow> DiskFile \<Rightarrow> bitmap \<Rightarrow> 's \<Rightarrow> 's result" where
  "PB_WriteBack d junk f bm s = rbind (DF_WriteAt d junk f (words_bytes (bm_map bm)) (numWords bm * 4) 0 s) (\<lambda>(r, s1). Inr s1)"

section \<open>Round trips\<close>

lemma length_words_bytes [simp]: "length (words_bytes ws) = 4 * length ws"
  by (induction ws) (simp_all add: words_bytes_def)

lemma bytes_words_bytes [simp]: "bytes_words (words_bytes ws) = ws"
proof (induction ws)
  case (Cons w ws)
  have "bytes_words (words_bytes (w # ws)) =
      bytes_word (word_bytes w ! 0) (word_bytes w ! 1) (word_bytes w ! 2) (word_bytes w ! 3) # bytes_words (words_bytes ws)"
    by (simp add: words_bytes_def word_bytes_def)
  then show ?case using Cons by (simp only: bytes_word_bytes)
qed (simp add: words_bytes_def)

lemma length_bytes_words: "length (bytes_words bs) = length bs div 4"
  by (induction bs rule: bytes_words.induct) auto

lemma words_bytes_words: "4 dvd length bs \<Longrightarrow> words_bytes (bytes_words bs) = bs"
proof (induction bs rule: bytes_words.induct)
  case (1 a b c e bs)
  have "words_bytes (bytes_words (a # b # c # e # bs)) = word_bytes (bytes_word a b c e) @ words_bytes (bytes_words bs)"
    by (simp add: words_bytes_def)
  moreover have "4 dvd length bs" using "1.prems" by (simp add: dvd_def) presburger
  ultimately show ?case using "1.IH" by simp
qed (auto simp: words_bytes_def dest: dvd_imp_le)

definition entry_ok :: "DirectoryEntry \<Rightarrow> bool" where
  "entry_ok e \<longleftrightarrow> length (de_name e) = 10 \<and> length (de_pad e) = 5 \<and> int32 (de_sector e)"

lemma bytes_entry_bytes:
  assumes "entry_ok e"
  shows "bytes_entry (entry_bytes e) = e" "length (entry_bytes e) = 20"
proof -
  have l: "length (de_name e) = 10" "length (de_pad e) = 5" "int32 (de_sector e)" using assms by (simp_all add: entry_ok_def)
  have i: "bytes_ints (int_bytes (de_sector e) @ xs) = de_sector e # bytes_ints xs" for xs
  proof -
    have "bytes_ints (int_bytes (de_sector e) @ xs) = sint (bytes_word (word_bytes (word_of_int (de_sector e)) ! 0)
      (word_bytes (word_of_int (de_sector e)) ! 1) (word_bytes (word_of_int (de_sector e)) ! 2) (word_bytes (word_of_int (de_sector e)) ! 3))
      # bytes_ints xs" by (simp add: int_bytes_def word_bytes_def)
    then show ?thesis using sint_word_of_int [OF l(3)] by (simp only: bytes_word_bytes)
  qed
  have ib: "length (int_bytes (de_sector e)) = 4" by (simp add: int_bytes_def)
  show "length (entry_bytes e) = 20" using l ib by (simp add: entry_bytes_def)
  have "drop 4 (entry_bytes e) = int_bytes (de_sector e) @ de_name e @ drop 3 (de_pad e)"
    "drop 8 (entry_bytes e) = de_name e @ drop 3 (de_pad e)" "drop 18 (entry_bytes e) = drop 3 (de_pad e)"
    "take 3 (drop 1 (entry_bytes e)) = take 3 (de_pad e)" "entry_bytes e ! 0 \<noteq> 0 \<longleftrightarrow> de_inUse e"
    using l ib by (simp_all add: entry_bytes_def)
  then show "bytes_entry (entry_bytes e) = e" using l i by (simp add: bytes_entry_def)
qed

lemma length_table_bytes: "\<forall>e \<in> set T. entry_ok e \<Longrightarrow> length (table_bytes T) = 20 * length T"
  by (induction T) (simp_all add: table_bytes_def bytes_entry_bytes(2))

lemma take_drop_table:
  "\<forall>e \<in> set T. entry_ok e \<Longrightarrow> i < length T \<Longrightarrow> take 20 (drop (20 * i) (table_bytes T)) = entry_bytes (T ! i)"
proof (induction T arbitrary: i)
  case (Cons e T)
  then have l: "length (entry_bytes e) = 20" by (simp add: bytes_entry_bytes(2))
  show ?case
  proof (cases i)
    case 0
    then show ?thesis using l by (simp add: table_bytes_def)
  next
    case (Suc j)
    then have "take 20 (drop (20 * j) (table_bytes T)) = entry_bytes (T ! j)" using Cons by simp
    then show ?thesis using l Suc by (simp add: table_bytes_def)
  qed
qed simp

lemma bytes_table_bytes: "\<forall>e \<in> set T. entry_ok e \<Longrightarrow> bytes_table (table_bytes T) = T"
  by (rule nth_equalityI) (simp_all add: bytes_table_def length_table_bytes take_drop_table bytes_entry_bytes(1))

lemma bytes_table_ok: "e \<in> set (bytes_table bs) \<Longrightarrow> entry_ok e"
proof -
  assume "e \<in> set (bytes_table bs)"
  then obtain i where i: "i < length bs div 20" "e = bytes_entry (take 20 (drop (20 * i) bs))" by (auto simp: bytes_table_def)
  let ?b = "take 20 (drop (20 * i) bs)"
  have "20 * i + 20 \<le> length bs" using i(1) by (simp add: less_eq_div_iff_mult_less_eq [symmetric] Suc_le_eq)
  then have l: "length ?b = 20" by simp
  have "bytes_ints (drop 4 ?b) \<noteq> []" using length_bytes_ints [of "drop 4 ?b"] l by auto
  then have "hd (bytes_ints (drop 4 ?b)) \<in> set (bytes_ints (drop 4 ?b))" by simp
  then have "int32 (hd (bytes_ints (drop 4 ?b)))" by (rule int32_bytes_ints)
  then show ?thesis using i(2) l by (simp add: bytes_entry_def entry_ok_def)
qed

section \<open>The directory as a finite map\<close>

definition used_entries :: "DirectoryEntry list \<Rightarrow> DirectoryEntry list" where
  "used_entries T = filter de_inUse T"

definition entry_key :: "DirectoryEntry \<Rightarrow> byte list" where
  "entry_key e = name_key (de_name e)"

definition dir_map :: "DirectoryEntry list \<Rightarrow> byte list \<Rightarrow> int option" where
  "dir_map T = map_of (map (\<lambda>e. (entry_key e, de_sector e)) (used_entries T))"

definition dir_ok :: "Directory \<Rightarrow> bool" where
  "dir_ok dir \<longleftrightarrow> tableSize dir = int (length (dir_table dir)) \<and> (\<forall>e \<in> set (dir_table dir). entry_ok e) \<and>
     distinct (map entry_key (used_entries (dir_table dir)))"

lemma used_entries_update:
  assumes "j < length T"
  shows "used_entries (T[j := e]) = used_entries (take j T) @ (if de_inUse e then [e] else []) @ used_entries (drop (Suc j) T)"
  using assms by (simp add: used_entries_def upd_conv_take_nth_drop)

lemma used_entries_split:
  "j < length T \<Longrightarrow> used_entries T = used_entries (take j T) @ (if de_inUse (T ! j) then [T ! j] else []) @ used_entries (drop (Suc j) T)"
  using used_entries_update [of j T "T ! j"] by simp

lemma dom_dir_map: "dom (dir_map T) = entry_key ` set (used_entries T)"
  by (simp add: dir_map_def dom_map_of_conv_image_fst image_image)

lemma map_of_insert: "k \<notin> fst ` set (A @ B) \<Longrightarrow> map_of (A @ (k, v) # B) = (map_of (A @ B))(k \<mapsto> v)"
proof -
  assume "k \<notin> fst ` set (A @ B)"
  then have "map_of A k = None" by (simp add: map_of_eq_None_iff image_Un)
  then show ?thesis by (auto simp: fun_eq_iff map_add_def split: option.splits)
qed

lemma map_of_delete: "k \<notin> fst ` set (A @ B) \<Longrightarrow> map_of (A @ B) = (map_of (A @ (k, v) # B))(k := None)"
proof -
  assume n: "k \<notin> fst ` set (A @ B)"
  then have "map_of (A @ B) k = None" by (simp add: map_of_eq_None_iff image_Un)
  then show ?thesis unfolding map_of_insert [OF n] by auto
qed

lemma find_entry_spec:
  assumes "\<forall>e \<in> set T. entry_ok e" "0 \<le> i"
  shows "if name_key name \<in> dom (dir_map T)
    then \<exists>j < length T. find_entry T name i = i + int j \<and> de_inUse (T ! j) \<and> entry_key (T ! j) = name_key name \<and>
      dir_map T (name_key name) = Some (de_sector (T ! j))
    else find_entry T name i = -1"
  using assms
proof (induction T arbitrary: i)
  case Nil
  then show ?case by (simp add: dir_map_def used_entries_def)
next
  case (Cons e T)
  have m: "strn_eq (nat FileNameMaxLen) (de_name e) (name @ [0]) \<longleftrightarrow> entry_key e = name_key name"
    using Cons.prems(1) strn_eq_prefix [of 9 "de_name e" name] by (simp add: entry_ok_def entry_key_def name_key_def nachos_consts)
  show ?case
  proof (cases "de_inUse e \<and> entry_key e = name_key name")
    case True
    then show ?thesis using m by (auto simp: dir_map_def used_entries_def intro!: exI [of _ "0 :: nat"])
  next
    case False
    then have d: "dir_map (e # T) (name_key name) = dir_map T (name_key name)" by (auto simp: dir_map_def used_entries_def)
    have f: "find_entry (e # T) name i = find_entry T name (i + 1)" using False m by auto
    have ih: "if name_key name \<in> dom (dir_map T)
      then \<exists>j < length T. find_entry T name (i + 1) = i + 1 + int j \<and> de_inUse (T ! j) \<and> entry_key (T ! j) = name_key name \<and>
        dir_map T (name_key name) = Some (de_sector (T ! j))
      else find_entry T name (i + 1) = -1" by (rule Cons.IH) (use Cons.prems in auto)
    show ?thesis
    proof (cases "name_key name \<in> dom (dir_map T)")
      case True
      then obtain j where "j < length T" "find_entry T name (i + 1) = i + 1 + int j" "de_inUse (T ! j)" "entry_key (T ! j) = name_key name"
          "dir_map T (name_key name) = Some (de_sector (T ! j))" using ih by auto
      then show ?thesis using d f by (auto intro!: exI [of _ "Suc j"])
    next
      case False
      then show ?thesis using d f ih by (simp add: dom_def)
    qed
  qed
qed

lemma add_entry_spec:
  "if length (used_entries T) = length T then add_entry T name x = (False, T)
   else \<exists>j < length T. \<not> de_inUse (T ! j) \<and> add_entry T name x =
     (True, T[j := (T ! j)\<lparr>de_inUse := True, de_name := strncpy 9 (de_name (T ! j)) name, de_sector := x\<rparr>])"
proof (induction T)
  case Nil
  then show ?case by (simp add: used_entries_def)
next
  case (Cons e T)
  have l: "length (used_entries T) \<le> length T" by (simp add: used_entries_def)
  show ?case
  proof (cases "de_inUse e")
    case True
    then have u: "length (used_entries (e # T)) = length (e # T) \<longleftrightarrow> length (used_entries T) = length T" by (simp add: used_entries_def)
    show ?thesis
    proof (cases "length (used_entries T) = length T")
      case full: True
      then show ?thesis using Cons True u by simp
    next
      case False
      then obtain j where "j < length T" "\<not> de_inUse (T ! j)" "add_entry T name x =
          (True, T[j := (T ! j)\<lparr>de_inUse := True, de_name := strncpy 9 (de_name (T ! j)) name, de_sector := x\<rparr>])"
        using Cons by auto
      then show ?thesis using True u False by (auto intro!: exI [of _ "Suc j"])
    qed
  next
    case False
    then have "length (used_entries (e # T)) = length (used_entries T)" "length (e # T) = Suc (length T)" by (simp_all add: used_entries_def)
    then have "length (used_entries (e # T)) \<noteq> length (e # T)" using l by linarith
    then show ?thesis using False by (auto simp: nachos_consts intro!: exI [of _ "0 :: nat"])
  qed
qed

lemma Dir_Find_ok:
  assumes "dir_ok dir"
  shows "Dir_Find dir name = (case dir_map (dir_table dir) (name_key name) of Some x \<Rightarrow> x | None \<Rightarrow> -1)"
    "FindIndex dir name = -1 \<longleftrightarrow> name_key name \<notin> dom (dir_map (dir_table dir))"
  using find_entry_spec [of "dir_table dir" 0 name] assms
  by (auto simp: dir_ok_def Dir_Find_def FindIndex_def split: if_splits option.splits)

lemma Dir_Add_ok:
  assumes ok: "dir_ok dir" and x: "int32 x"
  shows "if name_key name \<in> dom (dir_map (dir_table dir)) \<or> length (used_entries (dir_table dir)) = length (dir_table dir)
    then Dir_Add dir name x = (False, dir)
    else \<exists>dir'. Dir_Add dir name x = (True, dir') \<and> dir_ok dir' \<and> tableSize dir' = tableSize dir \<and>
      dir_map (dir_table dir') = (dir_map (dir_table dir))(name_key name \<mapsto> x) \<and>
      length (used_entries (dir_table dir')) = Suc (length (used_entries (dir_table dir)))"
proof (cases "name_key name \<in> dom (dir_map (dir_table dir)) \<or> length (used_entries (dir_table dir)) = length (dir_table dir)")
  case True
  then show ?thesis using Dir_Find_ok(2) [OF ok, of name] add_entry_spec [of "dir_table dir" name x]
    by (auto simp: Dir_Add_def)
next
  case False
  let ?T = "dir_table dir"
  obtain j where j: "j < length ?T" "\<not> de_inUse (?T ! j)" "add_entry ?T name x =
      (True, ?T[j := (?T ! j)\<lparr>de_inUse := True, de_name := strncpy 9 (de_name (?T ! j)) name, de_sector := x\<rparr>])"
    using add_entry_spec [of ?T name x] False by auto
  let ?e = "(?T ! j)\<lparr>de_inUse := True, de_name := strncpy 9 (de_name (?T ! j)) name, de_sector := x\<rparr>"
  let ?dir = "dir\<lparr>dir_table := ?T[j := ?e]\<rparr>"
  have a: "Dir_Add dir name x = (True, ?dir)" using False Dir_Find_ok(2) [OF ok, of name] j(3) by (simp add: Dir_Add_def)
  have eo: "entry_ok (?T ! j)" using ok j(1) by (simp add: dir_ok_def)
  then have e: "entry_key ?e = name_key name" "entry_ok ?e" using name_key_strncpy [of "de_name (?T ! j)" name] x
    by (auto simp: entry_key_def entry_ok_def strncpy_def)
  note u = used_entries_update [OF j(1), of ?e] used_entries_split [OF j(1)]
  have n: "name_key name \<notin> entry_key ` set (used_entries ?T)" using False by (simp add: dom_dir_map)
  have d: "distinct (map entry_key (used_entries ?T))" using ok by (simp add: dir_ok_def)
  have "distinct (map entry_key (used_entries (?T[j := ?e])))" using u n d e(1) j(2) by auto
  then have "dir_ok ?dir" using ok e(2) j(1) by (auto simp: dir_ok_def dest!: subsetD [OF set_update_subset_insert])
  moreover have "dir_map (?T[j := ?e]) = (dir_map ?T)(name_key name \<mapsto> x)"
    using u j(2) e(1) n map_of_insert [of "name_key name" "map (\<lambda>e. (entry_key e, de_sector e)) (used_entries (take j ?T))"
      "map (\<lambda>e. (entry_key e, de_sector e)) (used_entries (drop (Suc j) ?T))" x] by (simp add: dir_map_def image_image image_Un)
  moreover have "length (used_entries (?T[j := ?e])) = Suc (length (used_entries ?T))" using u j(2) by simp
  ultimately show ?thesis using a False by simp
qed

lemma Dir_Remove_ok:
  assumes ok: "dir_ok dir"
  shows "if name_key name \<in> dom (dir_map (dir_table dir))
    then \<exists>dir'. Dir_Remove dir name = (True, dir') \<and> dir_ok dir' \<and> tableSize dir' = tableSize dir \<and>
      dir_map (dir_table dir') = (dir_map (dir_table dir))(name_key name := None) \<and>
      Suc (length (used_entries (dir_table dir'))) = length (used_entries (dir_table dir))
    else Dir_Remove dir name = (False, dir)"
proof (cases "name_key name \<in> dom (dir_map (dir_table dir))")
  case False
  then show ?thesis using Dir_Find_ok(2) [OF ok, of name] by (simp add: Dir_Remove_def)
next
  case True
  let ?T = "dir_table dir"
  obtain j where j: "j < length ?T" "FindIndex dir name = int j" "de_inUse (?T ! j)" "entry_key (?T ! j) = name_key name"
    using find_entry_spec [of ?T 0 name] True ok by (auto simp: dir_ok_def FindIndex_def)
  let ?e = "(?T ! j)\<lparr>de_inUse := False\<rparr>"
  let ?dir = "dir\<lparr>dir_table := ?T[j := ?e]\<rparr>"
  have a: "Dir_Remove dir name = (True, ?dir)" using j(2) by (simp add: Dir_Remove_def)
  have eo: "entry_ok ?e" using ok j(1) by (auto simp: dir_ok_def entry_ok_def)
  note u = used_entries_update [OF j(1), of ?e] used_entries_split [OF j(1)]
  have d: "distinct (map entry_key (used_entries ?T))" using ok by (simp add: dir_ok_def)
  then have n: "name_key name \<notin> entry_key ` set (used_entries (take j ?T))" "name_key name \<notin> entry_key ` set (used_entries (drop (Suc j) ?T))"
    using u(2) j(3,4) by auto
  have "distinct (map entry_key (used_entries (?T[j := ?e])))" using u d j(3) by auto
  then have "dir_ok ?dir" using ok eo by (auto simp: dir_ok_def dest!: subsetD [OF set_update_subset_insert])
  moreover have "dir_map (?T[j := ?e]) = (dir_map ?T)(name_key name := None)"
    using u j(3,4) n map_of_delete [of "name_key name" "map (\<lambda>e. (entry_key e, de_sector e)) (used_entries (take j ?T))"
      "map (\<lambda>e. (entry_key e, de_sector e)) (used_entries (drop (Suc j) ?T))" "de_sector (?T ! j)"]
    by (simp add: dir_map_def image_image image_Un)
  moreover have "Suc (length (used_entries (?T[j := ?e]))) = length (used_entries ?T)" using u j(3) by simp
  ultimately show ?thesis using a True by simp
qed

section \<open>The interface of a directory\<close>

text \<open>
  What the file system relies on: a table from names to sectors in which names with the same key are the same name.
  \<open>full\<close> says that no further name fits.
\<close>

locale name_table =
  fixes inv :: "'t \<Rightarrow> bool" and key :: "'n \<Rightarrow> 'k" and lookup :: "'t \<Rightarrow> 'k \<Rightarrow> int option" and full :: "'t \<Rightarrow> bool"
    and find :: "'t \<Rightarrow> 'n \<Rightarrow> int" and add :: "'t \<Rightarrow> 'n \<Rightarrow> int \<Rightarrow> bool \<times> 't" and remove :: "'t \<Rightarrow> 'n \<Rightarrow> bool \<times> 't"
    and val_ok :: "int \<Rightarrow> bool"
  assumes find_law: "inv t \<Longrightarrow> find t n = (case lookup t (key n) of Some x \<Rightarrow> x | None \<Rightarrow> -1)"
    and add_law: "inv t \<Longrightarrow> val_ok x \<Longrightarrow> lookup t (key n) = None \<Longrightarrow> \<not> full t \<Longrightarrow>
      \<exists>t'. add t n x = (True, t') \<and> inv t' \<and> lookup t' = (lookup t)(key n \<mapsto> x)"
    and add_refused: "inv t \<Longrightarrow> val_ok x \<Longrightarrow> lookup t (key n) \<noteq> None \<or> full t \<Longrightarrow> add t n x = (False, t)"
    and remove_law: "inv t \<Longrightarrow> lookup t (key n) \<noteq> None \<Longrightarrow>
      \<exists>t'. remove t n = (True, t') \<and> inv t' \<and> lookup t' = (lookup t)(key n := None)"
    and remove_refused: "inv t \<Longrightarrow> lookup t (key n) = None \<Longrightarrow> remove t n = (False, t)"
begin

lemma add_result: "inv t \<Longrightarrow> val_ok x \<Longrightarrow> add t n x = (b, t') \<Longrightarrow> b \<longleftrightarrow> lookup t (key n) = None \<and> \<not> full t"
  using add_law [of t x n] add_refused [of t x n] by (cases "lookup t (key n) = None \<and> \<not> full t") auto

text \<open>A name just added is found, other names are found as before.\<close>

lemma find_add:
  assumes "inv t" "val_ok x" "add t n x = (True, t')"
  shows "find t' m = (if key m = key n then x else find t m)"
proof -
  have "lookup t (key n) = None" "\<not> full t" using add_result [OF assms] by simp_all
  then have "inv t'" "lookup t' = (lookup t)(key n \<mapsto> x)" using add_law [OF assms(1,2), of n] assms(3) by auto
  then show ?thesis using assms(1) by (simp add: find_law)
qed

lemma find_remove:
  assumes "inv t" "remove t n = (True, t')"
  shows "find t' m = (if key m = key n then -1 else find t m)"
proof -
  have "lookup t (key n) \<noteq> None" using remove_refused [OF assms(1)] assms(2) by force
  then have "inv t'" "lookup t' = (lookup t)(key n := None)" using remove_law [OF assms(1), of n] assms(2) by auto
  then show ?thesis using assms(1) by (simp add: find_law)
qed

end

definition dir_full :: "Directory \<Rightarrow> bool" where
  "dir_full dir \<longleftrightarrow> length (used_entries (dir_table dir)) = length (dir_table dir)"

interpretation nt: name_table dir_ok name_key "\<lambda>dir. dir_map (dir_table dir)" dir_full Dir_Find Dir_Add Dir_Remove int32
proof unfold_locales
  fix t :: Directory and n x assume ok: "dir_ok t"
  show "Dir_Find t n = (case dir_map (dir_table t) (name_key n) of Some x \<Rightarrow> x | None \<Rightarrow> -1)" by (rule Dir_Find_ok(1) [OF ok])
  show "\<exists>t'. Dir_Add t n x = (True, t') \<and> dir_ok t' \<and> dir_map (dir_table t') = (dir_map (dir_table t))(name_key n \<mapsto> x)"
    if "int32 x" "dir_map (dir_table t) (name_key n) = None" "\<not> dir_full t"
    using Dir_Add_ok [OF ok that(1), of n] that(2,3) by (auto simp: dir_full_def dom_def)
  show "Dir_Add t n x = (False, t)" if "int32 x" "dir_map (dir_table t) (name_key n) \<noteq> None \<or> dir_full t"
    using Dir_Add_ok [OF ok that(1), of n] that(2) by (auto simp: dir_full_def dom_def split: if_splits)
  show "\<exists>t'. Dir_Remove t n = (True, t') \<and> dir_ok t' \<and> dir_map (dir_table t') = (dir_map (dir_table t))(name_key n := None)"
    if "dir_map (dir_table t) (name_key n) \<noteq> None" using Dir_Remove_ok [OF ok, of n] that by (auto simp: dom_def split: if_splits)
  show "Dir_Remove t n = (False, t)" if "dir_map (dir_table t) (name_key n) = None"
    using Dir_Remove_ok [OF ok, of n] that by (simp add: dom_def)
qed

section \<open>Properties\<close>

text \<open>
  C38: The directory is a finite map from names, cut at nine characters, to header sectors. \<^verbatim>\<open>Add\<close> refuses a name that is
  present or a full table and leaves the directory alone; otherwise afterwards exactly the added name is found at its new
  sector and every other name as before. \<^verbatim>\<open>Remove\<close> succeeds for the names that are present and removes that name only. All
  operations keep the directory well-formed: no two entries in use for the same name.
\<close>
theorem directory_is_finite_map:
  assumes "dir_ok dir" "int32 x"
  shows "Dir_Find dir name = (case dir_map (dir_table dir) (name_key name) of Some y \<Rightarrow> y | None \<Rightarrow> -1) \<and>
    (case Dir_Add dir name x of
       (True, dir') \<Rightarrow> dir_ok dir' \<and> dir_map (dir_table dir) (name_key name) = None \<and>
         (\<forall>other. Dir_Find dir' other = (if name_key other = name_key name then x else Dir_Find dir other))
     | (False, dir') \<Rightarrow> dir' = dir \<and> (dir_map (dir_table dir) (name_key name) \<noteq> None \<or> dir_full dir)) \<and>
    (case Dir_Remove dir name of
       (True, dir') \<Rightarrow> dir_ok dir' \<and> dir_map (dir_table dir) (name_key name) \<noteq> None \<and>
         (\<forall>other. Dir_Find dir' other = (if name_key other = name_key name then -1 else Dir_Find dir other))
     | (False, dir') \<Rightarrow> dir' = dir \<and> dir_map (dir_table dir) (name_key name) = None)"
proof (intro conjI)
  show "Dir_Find dir name = (case dir_map (dir_table dir) (name_key name) of Some y \<Rightarrow> y | None \<Rightarrow> -1)" by (rule nt.find_law [OF assms(1)])
  obtain b d1 where a: "Dir_Add dir name x = (b, d1)" by (metis surj_pair)
  show "case Dir_Add dir name x of
      (True, dir') \<Rightarrow> dir_ok dir' \<and> dir_map (dir_table dir) (name_key name) = None \<and>
        (\<forall>other. Dir_Find dir' other = (if name_key other = name_key name then x else Dir_Find dir other))
    | (False, dir') \<Rightarrow> dir' = dir \<and> (dir_map (dir_table dir) (name_key name) \<noteq> None \<or> dir_full dir)"
    using a nt.add_result [OF assms a] nt.add_law [OF assms, of name] nt.add_refused [OF assms, of name] nt.find_add [OF assms, of name d1]
    by (cases b) auto
  obtain c d2 where r: "Dir_Remove dir name = (c, d2)" by (metis surj_pair)
  show "case Dir_Remove dir name of
      (True, dir') \<Rightarrow> dir_ok dir' \<and> dir_map (dir_table dir) (name_key name) \<noteq> None \<and>
        (\<forall>other. Dir_Find dir' other = (if name_key other = name_key name then -1 else Dir_Find dir other))
    | (False, dir') \<Rightarrow> dir' = dir \<and> dir_map (dir_table dir) (name_key name) = None"
    using r nt.remove_law [OF assms(1), of name] nt.remove_refused [OF assms(1), of name] nt.find_remove [OF assms(1), of name d2]
    by (cases c; cases "dir_map (dir_table dir) (name_key name) = None") auto
qed

text \<open>A directory with two entries, one of them free, and what it lists.\<close>

definition small_dir :: Directory where
  "small_dir = \<lparr>tableSize = 2, dir_table = [
     \<lparr>de_inUse = True, de_sector = 7, de_name = [97, 98, 0, 1, 1, 1, 1, 1, 1, 1], de_pad = [1, 2, 3, 4, 5]\<rparr>,
     \<lparr>de_inUse = False, de_sector = 0, de_name = replicate 10 1, de_pad = [1, 2, 3, 4, 5]\<rparr>]\<rparr>"

lemma small_dir_ok: "dir_ok small_dir"
  by (auto simp: dir_ok_def small_dir_def entry_ok_def used_entries_def int32_def)

theorem directory_is_finite_map_witness:
  "case Dir_Add small_dir [99] 12 of
     (True, dir') \<Rightarrow> dir_ok dir' \<and> (\<forall>other. Dir_Find dir' other = (if name_key other = name_key [99] then 12 else Dir_Find small_dir other))
   | (False, dir') \<Rightarrow> dir' = small_dir \<and> (dir_map (dir_table small_dir) (name_key [99]) \<noteq> None \<or> dir_full small_dir)"
proof -
  have "int32 12" by (simp add: int32_def)
  from directory_is_finite_map [OF small_dir_ok this, of "[99]"] show ?thesis by (auto split: prod.splits bool.splits)
qed

text \<open>
  A name of nine or more characters fills the bytes \<^verbatim>\<open>strncpy\<close> writes and gets no terminator. \<^verbatim>\<open>Find\<close> sees it, but
  \<^verbatim>\<open>List\<close> reads past the end of the name unless the uninitialised tenth byte happens to be zero.
\<close>

lemma long_name_unterminated:
  assumes "length name \<ge> 9" "0 \<notin> set name" "length dst = 10" "dst ! 9 \<noteq> 0"
  shows "print_name (strncpy 9 dst name) = Inl OutOfBounds"
proof -
  have "drop 9 dst = [dst ! 9]" using assms(3) Cons_nth_drop_Suc [of 9 dst] by simp
  then have "0 \<notin> set (strncpy 9 dst name)" using assms in_set_takeD by (fastforce simp: strncpy_def)
  then show ?thesis by (simp add: print_name_def)
qed

section \<open>Fetching and flushing\<close>

lemma patch_all: "length bs = length mem \<Longrightarrow> patch mem 0 bs = bs"
  by (simp add: patch_def)

context sector_disk
begin

lemma Dir_FetchFrom_ok:
  assumes "ok s" "header_ok (df_hdr f)" "fh_numBytes (df_hdr f) = 200" "tableSize dir = 10" "length (dir_table dir) = 10"
    "\<forall>e \<in> set (dir_table dir). entry_ok e"
  shows "\<exists>s'. Dir_FetchFrom d f dir s = Inr (\<lparr>tableSize = 10, dir_table = bytes_table (file_bytes (content s) (df_hdr f))\<rparr>, s') \<and>
    ok s' \<and> content s' = content s"
proof -
  let ?C = "file_bytes (content s) (df_hdr f)"
  have l: "length ?C = 200" using length_file_bytes [OF assms(2)] assms(3) by simp
  then have "take (nat 200) (drop (nat 0) ?C) = ?C" by simp
  then obtain s' where r: "DF_ReadAt d f 200 0 s = Inr ((200, ?C), s')" "ok s'" "content s' = content s"
    using DF_ReadAt_ok [OF assms(1,2), of 0 200] l by auto
  have "patch (table_bytes (dir_table dir)) 0 ?C = ?C"
    using l length_table_bytes [OF assms(6)] assms(5) by (intro patch_all) simp
  moreover have "dir\<lparr>dir_table := T\<rparr> = \<lparr>tableSize = 10, dir_table = T\<rparr>" for T using assms(4) by (cases dir) simp
  ultimately show ?thesis using r assms(4) by (simp add: Dir_FetchFrom_def)
qed

lemma Dir_WriteBack_ok:
  assumes "ok s" "header_ok (df_hdr f)" "fh_numBytes (df_hdr f) = 200" "dir_ok dir" "tableSize dir = 10"
  shows "\<exists>s'. Dir_WriteBack d junk f dir s = Inr s' \<and> ok s' \<and> file_bytes (content s') (df_hdr f) = table_bytes (dir_table dir) \<and>
    (\<forall>k < 131072. k div 128 \<notin> set (secs (df_hdr f)) \<longrightarrow> content s' ! k = content s ! k)"
proof -
  let ?bs = "table_bytes (dir_table dir)"
  have l: "length ?bs = 200" using length_table_bytes [of "dir_table dir"] assms(4,5) by (simp add: dir_ok_def)
  have c: "length (file_bytes (content s) (df_hdr f)) = 200" using length_file_bytes [OF assms(2)] assms(3) by simp
  have "take (nat (fh_numBytes (df_hdr f)) - nat 0) (take (nat 200) ?bs) = ?bs" using l assms(3) by simp
  then obtain s' where "DF_WriteAt d junk f ?bs 200 0 s = Inr (200, s')" "ok s'"
      "file_bytes (content s') (df_hdr f) = patch (file_bytes (content s) (df_hdr f)) 0 ?bs"
      "\<forall>k < 131072. k div 128 \<notin> set (secs (df_hdr f)) \<longrightarrow> content s' ! k = content s ! k"
    using DF_WriteAt_ok [OF assms(1,2), of 0 200 ?bs junk] l by auto
  then show ?thesis using patch_all l c assms(5) by (simp add: Dir_WriteBack_def)
qed

lemma new_PersistentBitmap_ok:
  assumes "ok s" "header_ok (df_hdr f)" "fh_numBytes (df_hdr f) = 128"
  shows "\<exists>s'. new_PersistentBitmap d f 1024 s =
      Inr (\<lparr>numBits = 1024, numWords = 32, bm_map = bytes_words (file_bytes (content s) (df_hdr f))\<rparr>, s') \<and>
    ok s' \<and> content s' = content s"
proof -
  let ?C = "file_bytes (content s) (df_hdr f)"
  obtain bm where bm: "new_Bitmap 1024 = Inr bm" "bitmap_ok bm" "numBits bm = 1024" using new_Bitmap_ok [of 1024] by auto
  then have w: "numWords bm = 32" "length (bm_map bm) = 32" by (simp_all add: bitmap_ok_def divRoundUp_nonneg nachos_consts)
  have l: "length ?C = 128" using length_file_bytes [OF assms(2)] assms(3) by simp
  then have "take (nat 128) (drop (nat 0) ?C) = ?C" by simp
  then obtain s' where r: "DF_ReadAt d f 128 0 s = Inr ((128, ?C), s')" "ok s'" "content s' = content s"
    using DF_ReadAt_ok [OF assms(1,2), of 0 128] l by auto
  have "patch (words_bytes (bm_map bm)) 0 ?C = ?C" using l w(2) by (intro patch_all) simp
  moreover have "bm\<lparr>bm_map := M\<rparr> = \<lparr>numBits = 1024, numWords = 32, bm_map = M\<rparr>" for M using bm(3) w(1) by (cases bm) simp
  ultimately show ?thesis using r bm(1) w(1) by (simp add: new_PersistentBitmap_def PB_FetchFrom_def)
qed

lemma PB_WriteBack_ok:
  assumes "ok s" "header_ok (df_hdr f)" "fh_numBytes (df_hdr f) = 128" "bitmap_ok bm" "numBits bm = 1024"
  shows "\<exists>s'. PB_WriteBack d junk f bm s = Inr s' \<and> ok s' \<and> file_bytes (content s') (df_hdr f) = words_bytes (bm_map bm) \<and>
    (\<forall>k < 131072. k div 128 \<notin> set (secs (df_hdr f)) \<longrightarrow> content s' ! k = content s ! k)"
proof -
  let ?bs = "words_bytes (bm_map bm)"
  have w: "numWords bm = 32" "length (bm_map bm) = 32" using assms(4,5) by (simp_all add: bitmap_ok_def divRoundUp_nonneg nachos_consts)
  have l: "length ?bs = 128" using w by simp
  have c: "length (file_bytes (content s) (df_hdr f)) = 128" using length_file_bytes [OF assms(2)] assms(3) by simp
  have "take (nat (fh_numBytes (df_hdr f)) - nat 0) (take (nat 128) ?bs) = ?bs" using l assms(3) by simp
  then obtain s' where "DF_WriteAt d junk f ?bs 128 0 s = Inr (128, s')" "ok s'"
      "file_bytes (content s') (df_hdr f) = patch (file_bytes (content s) (df_hdr f)) 0 ?bs"
      "\<forall>k < 131072. k div 128 \<notin> set (secs (df_hdr f)) \<longrightarrow> content s' ! k = content s ! k"
    using DF_WriteAt_ok [OF assms(1,2), of 0 128 ?bs junk] l by auto
  then show ?thesis using patch_all l c w by (simp add: PB_WriteBack_def)
qed

end

lemma new_Directory_ok: "dir_ok (new_Directory junk 10)" "tableSize (new_Directory junk 10) = 10"
  "length (dir_table (new_Directory junk 10)) = 10" "used_entries (dir_table (new_Directory junk 10)) = []"
proof -
  let ?T = "bytes_table (map junk [0..<200])"
  have t: "dir_table (new_Directory junk 10) = map (\<lambda>e. e\<lparr>de_inUse := False\<rparr>) ?T" by (simp add: new_Directory_def)
  have l: "length ?T = 10" by (simp add: bytes_table_def)
  then show "length (dir_table (new_Directory junk 10)) = 10" using t by simp
  have u: "used_entries (map (\<lambda>e. e\<lparr>de_inUse := False\<rparr>) T) = []" for T by (simp add: used_entries_def filter_map comp_def)
  then show "used_entries (dir_table (new_Directory junk 10)) = []" using t by simp
  show s: "tableSize (new_Directory junk 10) = 10" by (simp add: new_Directory_def)
  have "entry_ok (e\<lparr>de_inUse := False\<rparr>)" if "e \<in> set ?T" for e using bytes_table_ok [OF that] by (simp add: entry_ok_def)
  then have "\<forall>e \<in> set (map (\<lambda>e. e\<lparr>de_inUse := False\<rparr>) ?T). entry_ok e" by auto
  then show "dir_ok (new_Directory junk 10)" using t l u s by (simp add: dir_ok_def)
qed

end
