(* ===== verification/Disk_File_System.thy ===== *)
theory Disk_File_System
  imports Disk Disk_Directory
begin

text \<open>
  The file system on the simulated disk (\<^verbatim>\<open>filesys/filesys.cc\<close> without \<^verbatim>\<open>FILESYS_STUB\<close>): formatting, creating,
  opening, removing and listing files. Sectors 0 and 1 hold the headers of two files of the file system itself, the bitmap
  of used sectors and the directory. The invariant \<open>fs_ok\<close> says of the disk's content that all files are well-formed and
  share no sector and that the bitmap marks exactly the sectors in use; \<open>fs_files\<close> is the abstract state, a finite map from
  names to contents, that every operation is shown to update as its name says.
\<close>

section \<open>Operations\<close>

definition FreeMapSector :: int where [nachos_consts]: "FreeMapSector = 0"
definition DirectorySector :: int where [nachos_consts]: "DirectorySector = 1"
definition FreeMapFileSize :: int where [nachos_consts]: "FreeMapFileSize = NumSectors sdiv BitsInByte"
definition NumDirEntries :: int where [nachos_consts]: "NumDirEntries = 10"
definition DirectoryFileSize :: int where [nachos_consts]: "DirectoryFileSize = 20 * NumDirEntries"

record DiskFileSystem =
  freeMapFile :: DiskFile
  directoryFile :: DiskFile

text \<open>\<^verbatim>\<open>new FileHeader\<close>: memory that is not initialised.\<close>

definition new_FileHeader :: "(nat \<Rightarrow> byte) \<Rightarrow> FileHeader" where
  "new_FileHeader junk = bytes_header (map junk [0..<128])"

definition new_DiskFileSystem :: "'s synch_disk \<Rightarrow> (nat \<Rightarrow> byte) \<Rightarrow> bool \<Rightarrow> 's \<Rightarrow> (DiskFileSystem \<times> 's) result" where
  "new_DiskFileSystem d junk format s =
     (if format
      then rbind (new_Bitmap NumSectors) (\<lambda>freeMap.
           rbind (Mark freeMap FreeMapSector) (\<lambda>fm1.
           rbind (Mark fm1 DirectorySector) (\<lambda>fm2.
           rbind (FH_Allocate (new_FileHeader junk) fm2 FreeMapFileSize) (\<lambda>(ok1, mapHdr, fm3).
           rbind (rassert ok1) (\<lambda>_.
           rbind (FH_Allocate (new_FileHeader junk) fm3 DirectoryFileSize) (\<lambda>(ok2, dirHdr, fm4).
           rbind (rassert ok2) (\<lambda>_.
           rbind (FH_WriteBack d mapHdr FreeMapSector s) (\<lambda>s1.
           rbind (FH_WriteBack d dirHdr DirectorySector s1) (\<lambda>s2.
           rbind (new_DiskFile d FreeMapSector s2) (\<lambda>(mapFile, s3).
           rbind (new_DiskFile d DirectorySector s3) (\<lambda>(dirFile, s4).
           rbind (PB_WriteBack d junk mapFile fm4 s4) (\<lambda>s5.
           rbind (Dir_WriteBack d junk dirFile (new_Directory junk NumDirEntries) s5) (\<lambda>s6.
           Inr (\<lparr>freeMapFile = mapFile, directoryFile = dirFile\<rparr>, s6))))))))))))))
      else rbind (new_DiskFile d FreeMapSector s) (\<lambda>(mapFile, s1).
           rbind (new_DiskFile d DirectorySector s1) (\<lambda>(dirFile, s2).
           Inr (\<lparr>freeMapFile = mapFile, directoryFile = dirFile\<rparr>, s2))))"

definition FS_Create ::
  "'s synch_disk \<Rightarrow> (nat \<Rightarrow> byte) \<Rightarrow> DiskFileSystem \<Rightarrow> byte list \<Rightarrow> int \<Rightarrow> 's \<Rightarrow> (bool \<times> 's) result" where
  "FS_Create d junk fs name initialSize s =
     rbind (Dir_FetchFrom d (directoryFile fs) (new_Directory junk NumDirEntries) s) (\<lambda>(directory, s1).
     if Dir_Find directory name \<noteq> -1 then Inr (False, s1)
     else rbind (new_PersistentBitmap d (freeMapFile fs) NumSectors s1) (\<lambda>(freeMap, s2).
       rbind (FindAndSet freeMap) (\<lambda>(sector, freeMap1).
       if sector = -1 then Inr (False, s2)
       else let (added, directory1) = Dir_Add directory name sector in
         if \<not> added then Inr (False, s2)
         else rbind (FH_Allocate (new_FileHeader junk) freeMap1 initialSize) (\<lambda>(enough, hdr, freeMap2).
           if \<not> enough then Inr (False, s2)
           else rbind (FH_WriteBack d hdr sector s2) (\<lambda>s3.
                rbind (Dir_WriteBack d junk (directoryFile fs) directory1 s3) (\<lambda>s4.
                rbind (PB_WriteBack d junk (freeMapFile fs) freeMap2 s4) (\<lambda>s5. Inr (True, s5))))))))"

definition FS_Open :: "'s synch_disk \<Rightarrow> (nat \<Rightarrow> byte) \<Rightarrow> DiskFileSystem \<Rightarrow> byte list \<Rightarrow> 's \<Rightarrow> (DiskFile option \<times> 's) result" where
  "FS_Open d junk fs name s =
     rbind (Dir_FetchFrom d (directoryFile fs) (new_Directory junk NumDirEntries) s) (\<lambda>(directory, s1).
     let sector = Dir_Find directory name in
     if sector \<ge> 0 then rbind (new_DiskFile d sector s1) (\<lambda>(f, s2). Inr (Some f, s2)) else Inr (None, s1))"

definition FS_Remove :: "'s synch_disk \<Rightarrow> (nat \<Rightarrow> byte) \<Rightarrow> DiskFileSystem \<Rightarrow> byte list \<Rightarrow> 's \<Rightarrow> (bool \<times> 's) result" where
  "FS_Remove d junk fs name s =
     rbind (Dir_FetchFrom d (directoryFile fs) (new_Directory junk NumDirEntries) s) (\<lambda>(directory, s1).
     let sector = Dir_Find directory name in
     if sector = -1 then Inr (False, s1)
     else rbind (FH_FetchFrom d sector s1) (\<lambda>(fileHdr, s2).
       rbind (new_PersistentBitmap d (freeMapFile fs) NumSectors s2) (\<lambda>(freeMap, s3).
       rbind (FH_Deallocate fileHdr freeMap) (\<lambda>freeMap1.
       rbind (Clear freeMap1 sector) (\<lambda>freeMap2.
       let directory1 = snd (Dir_Remove directory name) in
       rbind (PB_WriteBack d junk (freeMapFile fs) freeMap2 s3) (\<lambda>s4.
       rbind (Dir_WriteBack d junk (directoryFile fs) directory1 s4) (\<lambda>s5. Inr (True, s5))))))))"

definition FS_List :: "'s synch_disk \<Rightarrow> (nat \<Rightarrow> byte) \<Rightarrow> DiskFileSystem \<Rightarrow> 's \<Rightarrow> (byte list list \<times> 's) result" where
  "FS_List d junk fs s =
     rbind (Dir_FetchFrom d (directoryFile fs) (new_Directory junk NumDirEntries) s) (\<lambda>(directory, s1).
     rbind (Dir_List directory) (\<lambda>names. Inr (names, s1)))"

section \<open>The layout of the disk\<close>

definition hdr_at :: "byte list \<Rightarrow> nat \<Rightarrow> FileHeader" where
  "hdr_at D n = bytes_header (sector_of D n)"

definition fs_table :: "byte list \<Rightarrow> DirectoryEntry list" where
  "fs_table D = bytes_table (file_bytes D (hdr_at D 1))"

definition fs_bitmap :: "byte list \<Rightarrow> bitmap" where
  "fs_bitmap D = \<lparr>numBits = 1024, numWords = 32, bm_map = bytes_words (file_bytes D (hdr_at D 0))\<rparr>"

text \<open>The sectors of the file whose header is in sector \<open>n\<close>, and the header sectors of all files named by \<open>M\<close>.\<close>

definition own :: "byte list \<Rightarrow> nat \<Rightarrow> nat set" where
  "own D n = insert n (set (secs (hdr_at D n)))"

definition roots :: "(byte list \<Rightarrow> int option) \<Rightarrow> nat set" where
  "roots M = {0, 1} \<union> nat ` ran M"

definition files_ok :: "byte list \<Rightarrow> (byte list \<Rightarrow> int option) \<Rightarrow> bool" where
  "files_ok D M \<longleftrightarrow> (\<forall>k x. M k = Some x \<longrightarrow> 2 \<le> x \<and> x < 1024) \<and>
     (\<forall>k k' x. M k = Some x \<and> M k' = Some x \<longrightarrow> k = k') \<and>
     (\<forall>n \<in> roots M. header_ok (hdr_at D n) \<and> n \<notin> set (secs (hdr_at D n))) \<and>
     (\<forall>m \<in> roots M. \<forall>n \<in> roots M. m \<noteq> n \<longrightarrow> own D m \<inter> own D n = {})"

definition fs_map :: "byte list \<Rightarrow> byte list \<Rightarrow> int option" where
  "fs_map D = dir_map (fs_table D)"

definition fs_ok :: "byte list \<Rightarrow> bool" where
  "fs_ok D \<longleftrightarrow> length D = 131072 \<and> fh_numBytes (hdr_at D 0) = 128 \<and> fh_numBytes (hdr_at D 1) = 200 \<and>
     dir_ok \<lparr>tableSize = 10, dir_table = fs_table D\<rparr> \<and> files_ok D (fs_map D) \<and>
     used_slots (fs_bitmap D) = int ` (\<Union>n \<in> roots (fs_map D). own D n)"

text \<open>The abstract state: every name with the bytes of its file.\<close>

definition fs_files :: "byte list \<Rightarrow> byte list \<Rightarrow> byte list option" where
  "fs_files D k = map_option (\<lambda>x. file_bytes D (hdr_at D (nat x))) (fs_map D k)"

text \<open>The two files left open hold the headers that are on the disk.\<close>

definition fs_handles :: "DiskFileSystem \<Rightarrow> byte list \<Rightarrow> bool" where
  "fs_handles fs D \<longleftrightarrow> df_hdr (freeMapFile fs) = hdr_at D 0 \<and> df_hdr (directoryFile fs) = hdr_at D 1"

lemma roots_less:
  assumes "files_ok D M" "n \<in> roots M" shows "n < 1024"
  using assms by (force simp: files_ok_def roots_def ran_def)

lemma own_less:
  assumes "files_ok D M" "n \<in> roots M" "i \<in> own D n" shows "i < 1024"
proof -
  have "header_ok (hdr_at D n)" using assms(1,2) by (simp add: files_ok_def)
  then show ?thesis using assms roots_less header_okD(2) by (auto simp: own_def)
qed

text \<open>A file keeps its header and its bytes when its sectors keep theirs.\<close>

definition same_on :: "nat set \<Rightarrow> byte list \<Rightarrow> byte list \<Rightarrow> bool" where
  "same_on S D D' \<longleftrightarrow> length D = 131072 \<and> length D' = 131072 \<and> (\<forall>k < 131072. k div 128 \<in> S \<longrightarrow> D' ! k = D ! k)"

lemma same_on_sector:
  assumes "same_on S D D'" "n \<in> S" "n < 1024"
  shows "sector_of D' n = sector_of D n"
proof (rule nth_equalityI)
  have l: "length D = 131072" "length D' = 131072" using assms(1) by (simp_all add: same_on_def)
  then show "length (sector_of D' n) = length (sector_of D n)" using assms(3) by (simp add: length_sector_of)
  fix k assume "k < length (sector_of D' n)"
  then have k: "k < 128" using l assms(3) by (simp add: length_sector_of)
  then have "(n * 128 + k) div 128 = n" "n * 128 + k < 131072" using assms(3) by simp_all
  then have "D' ! (n * 128 + k) = D ! (n * 128 + k)" using assms(1,2) by (simp add: same_on_def)
  then show "sector_of D' n ! k = sector_of D n ! k" using k l assms(3) by (simp add: nth_sector_of)
qed

lemma same_on_bytes:
  assumes "same_on S D D'" "set (secs h) \<subseteq> S" "header_ok h"
  shows "file_bytes D' h = file_bytes D h"
proof -
  have l: "length D = 131072" using assms(1) by (simp add: same_on_def)
  have "view 128 D' (secs h) = view 128 D (secs h)"
    by (rule view_cong [OF header_blocks_ok [OF assms(3) l]]) (use assms l in \<open>auto simp: same_on_def\<close>)
  then show ?thesis by (simp add: file_bytes_def)
qed

lemma same_on_file:
  assumes "same_on (own D n) D D'" "n < 1024" "header_ok (hdr_at D n)"
  shows "hdr_at D' n = hdr_at D n" "own D' n = own D n" "file_bytes D' (hdr_at D' n) = file_bytes D (hdr_at D n)"
proof -
  show h: "hdr_at D' n = hdr_at D n" using same_on_sector [OF assms(1) _ assms(2)] by (simp add: hdr_at_def own_def)
  then show "own D' n = own D n" by (simp add: own_def)
  show "file_bytes D' (hdr_at D' n) = file_bytes D (hdr_at D n)" unfolding h
    by (rule same_on_bytes [OF assms(1) _ assms(3)]) (auto simp: own_def)
qed

lemma same_on_mono: "same_on S D D' \<Longrightarrow> T \<subseteq> S \<Longrightarrow> same_on T D D'"
  by (auto simp: same_on_def)

lemma same_on_trans: "same_on S D D' \<Longrightarrow> same_on S D' D'' \<Longrightarrow> same_on S D D''"
  by (simp add: same_on_def)

section \<open>What the invariant gives\<close>

abbreviation sys_secs :: "byte list \<Rightarrow> nat set" where
  "sys_secs D \<equiv> set (secs (hdr_at D 0)) \<union> set (secs (hdr_at D 1))"

lemma root_01 [simp]: "0 \<in> roots M" "Suc 0 \<in> roots M"
  by (simp_all add: roots_def)

lemma fs_okD:
  assumes "fs_ok D"
  shows "length D = 131072" "header_ok (hdr_at D 0)" "header_ok (hdr_at D 1)" "fh_numBytes (hdr_at D 0) = 128"
    "fh_numBytes (hdr_at D 1) = 200" "dir_ok \<lparr>tableSize = 10, dir_table = fs_table D\<rparr>" "files_ok D (fs_map D)"
    "used_slots (fs_bitmap D) = int ` (\<Union>n \<in> roots (fs_map D). own D n)"
    "bitmap_ok (fs_bitmap D)" "numBits (fs_bitmap D) = 1024" "own D 0 \<inter> own D 1 = {}" "0 \<notin> sys_secs D" "1 \<notin> sys_secs D"
proof -
  show f: "files_ok D (fs_map D)" and l: "length D = 131072" and n: "fh_numBytes (hdr_at D 0) = 128" "fh_numBytes (hdr_at D 1) = 200"
    and "dir_ok \<lparr>tableSize = 10, dir_table = fs_table D\<rparr>" and "used_slots (fs_bitmap D) = int ` (\<Union>n \<in> roots (fs_map D). own D n)"
    using assms by (simp_all add: fs_ok_def)
  show h: "header_ok (hdr_at D 0)" "header_ok (hdr_at D 1)" using f by (simp_all add: files_ok_def)
  have "length (file_bytes D (hdr_at D 0)) = 128" using length_file_bytes [OF h(1)] n(1) by simp
  then show "bitmap_ok (fs_bitmap D)"
    by (simp add: fs_bitmap_def bitmap_ok_def length_bytes_words divRoundUp_nonneg nachos_consts)
  show "numBits (fs_bitmap D) = 1024" by (simp add: fs_bitmap_def)
  have "0 \<notin> set (secs (hdr_at D 0))" "1 \<notin> set (secs (hdr_at D 1))" using f by (simp_all add: files_ok_def)
  moreover show o: "own D 0 \<inter> own D 1 = {}" using f unfolding files_ok_def by (metis One_nat_def root_01 zero_neq_one)
  ultimately show "0 \<notin> sys_secs D" "1 \<notin> sys_secs D" by (auto simp: own_def)
qed

text \<open>
  A change of the two system files, and of sectors \<open>A\<close> besides, as \<^verbatim>\<open>Create\<close> and \<^verbatim>\<open>Remove\<close> make it: the files that own none
  of those sectors stay as they are.
\<close>

definition sys_update :: "byte list \<Rightarrow> nat set \<Rightarrow> 32 word list \<Rightarrow> DirectoryEntry list \<Rightarrow> byte list \<Rightarrow> bool" where
  "sys_update D A B T D' \<longleftrightarrow> same_on (- (A \<union> sys_secs D)) D D' \<and> file_bytes D' (hdr_at D 0) = words_bytes B \<and>
     file_bytes D' (hdr_at D 1) = table_bytes T"

lemma sys_updateD:
  assumes ok: "fs_ok D" and u: "sys_update D A B T D'" and T: "dir_ok \<lparr>tableSize = 10, dir_table = T\<rparr>" and A: "0 \<notin> A" "1 \<notin> A"
  shows "hdr_at D' 0 = hdr_at D 0" "hdr_at D' 1 = hdr_at D 1" "fs_table D' = T" "fs_map D' = dir_map T"
    "fs_bitmap D' = \<lparr>numBits = 1024, numWords = 32, bm_map = B\<rparr>" "length D' = 131072"
    "own D' 0 = own D 0" "own D' 1 = own D 1"
    "n \<in> roots (fs_map D) \<Longrightarrow> n \<noteq> 0 \<Longrightarrow> n \<noteq> 1 \<Longrightarrow> own D n \<inter> A = {} \<Longrightarrow>
       hdr_at D' n = hdr_at D n \<and> own D' n = own D n \<and> file_bytes D' (hdr_at D' n) = file_bytes D (hdr_at D n)"
proof -
  note o = fs_okD [OF ok]
  have s: "same_on (- (A \<union> sys_secs D)) D D'" and b: "file_bytes D' (hdr_at D 0) = words_bytes B" "file_bytes D' (hdr_at D 1) = table_bytes T"
    using u by (simp_all add: sys_update_def)
  show "length D' = 131072" using s by (simp add: same_on_def)
  have "sector_of D' 0 = sector_of D 0" "sector_of D' 1 = sector_of D 1" by (rule same_on_sector [OF s]; use A o(12,13) in auto)+
  then show h: "hdr_at D' 0 = hdr_at D 0" "hdr_at D' 1 = hdr_at D 1" by (simp_all add: hdr_at_def)
  then show "own D' 0 = own D 0" "own D' 1 = own D 1" by (simp_all add: own_def)
  show t: "fs_table D' = T" using h b(2) T bytes_table_bytes [of T] by (simp add: fs_table_def dir_ok_def)
  then show "fs_map D' = dir_map T" by (simp add: fs_map_def)
  show "fs_bitmap D' = \<lparr>numBits = 1024, numWords = 32, bm_map = B\<rparr>" using h b(1) by (simp add: fs_bitmap_def)
  assume n: "n \<in> roots (fs_map D)" "n \<noteq> 0" "n \<noteq> 1" "own D n \<inter> A = {}"
  have d: "own D m \<inter> own D n = {}" if "m \<in> roots (fs_map D)" "m \<noteq> n" for m using o(7) n(1) that unfolding files_ok_def by blast
  have "own D n \<inter> own D 0 = {}" "own D n \<inter> own D 1 = {}" using d [of 0] d [of 1] n(2,3) by auto
  then have "own D n \<subseteq> - (A \<union> sys_secs D)" using n(4) by (auto simp: own_def)
  then have "same_on (own D n) D D'" by (rule same_on_mono [OF s])
  moreover have "n < 1024" "header_ok (hdr_at D n)" using roots_less [OF o(7) n(1)] o(7) n(1) by (simp_all add: files_ok_def)
  ultimately show "hdr_at D' n = hdr_at D n \<and> own D' n = own D n \<and> file_bytes D' (hdr_at D' n) = file_bytes D (hdr_at D n)"
    using same_on_file by blast
qed

section \<open>Adding and removing a file\<close>

lemma fs_map_range: "fs_ok D \<Longrightarrow> fs_map D k = Some x \<Longrightarrow> 2 \<le> x \<and> x < 1024"
  using fs_okD(7) by (simp add: files_ok_def)

lemma roots_upd: "M k = None \<Longrightarrow> roots (M(k \<mapsto> x)) = insert (nat x) (roots M)"
  by (auto simp: roots_def)

lemma fs_add_file:
  assumes ok: "fs_ok D" and u: "sys_update D {x} (bm_map bm) T D'" and T: "dir_ok \<lparr>tableSize = 10, dir_table = T\<rparr>"
    and k: "fs_map D k = None" "dir_map T = (fs_map D)(k \<mapsto> int x)"
    and h: "hdr_at D' x = h" "header_ok h" and bm: "bitmap_ok bm" "numBits bm = 1024"
    and x: "x < 1024" "int x \<notin> used_slots (fs_bitmap D)" "x \<notin> set (secs h)" "int ` set (secs h) \<inter> used_slots (fs_bitmap D) = {}"
    and us: "used_slots bm = used_slots (fs_bitmap D) \<union> insert (int x) (int ` set (secs h))"
  shows "fs_ok D'" "fs_files D' = (fs_files D)(k \<mapsto> file_bytes D' h)" "hdr_at D' 0 = hdr_at D 0" "hdr_at D' 1 = hdr_at D 1"
proof -
  note o = fs_okD [OF ok]
  let ?M = "fs_map D" let ?U = "\<Union>n \<in> roots ?M. own D n"
  have xu: "x \<notin> ?U" "set (secs h) \<inter> ?U = {}" using x(2,4) o(8) by auto
  have x01: "x \<noteq> 0" "x \<noteq> 1" "x \<notin> roots ?M" using xu(1) by (auto simp: own_def)
  have A: "0 \<notin> {x}" "1 \<notin> {x}" using x01 by auto
  note s = sys_updateD [OF ok u T A]
  show "hdr_at D' 0 = hdr_at D 0" "hdr_at D' 1 = hdr_at D 1" by (rule s(1), rule s(2))
  have ox: "own D' x = insert x (set (secs h))" using h(1) by (simp add: own_def)
  have on: "hdr_at D' n = hdr_at D n" "own D' n = own D n" if "n \<in> roots ?M" for n
    using s(1,2,7,8) s(9) [OF that] xu(1) that by (cases "n = 0"; cases "n = 1"; force)+
  have r: "roots (fs_map D') = insert x (roots ?M)" using s(4) k roots_upd [of "fs_map D" k "int x"] by simp
  have w: "numWords bm = 32" using bm by (simp add: bitmap_ok_def divRoundUp_nonneg nachos_consts)
  then have b: "fs_bitmap D' = bm" using s(5) bm(2) by (cases bm) simp
  have un: "(\<Union>n \<in> roots (fs_map D'). own D' n) = ?U \<union> insert x (set (secs h))" using r on(2) ox by auto
  have f: "files_ok D' (fs_map D')"
  proof -
    have "2 \<le> y \<and> y < 1024" if "fs_map D' k' = Some y" for k' y
      using that s(4) k(2) o(7) x(1) x01 by (cases "k' = k") (auto simp: files_ok_def)
    moreover have "k1 = k2" if "fs_map D' k1 = Some y \<and> fs_map D' k2 = Some y" for k1 k2 y
    proof -
      have "?M k' \<noteq> Some (int x)" for k' using x01(3) by (force simp: roots_def ran_def)
      then show ?thesis using that s(4) k(2) o(7) by (auto simp: files_ok_def split: if_splits)
    qed
    moreover have "header_ok (hdr_at D' n) \<and> n \<notin> set (secs (hdr_at D' n))" if "n \<in> roots (fs_map D')" for n
      using that r on(1) h x(3) o(7) by (auto simp: files_ok_def)
    moreover have "own D' m \<inter> own D' n = {}" if "m \<in> roots (fs_map D')" "n \<in> roots (fs_map D')" "m \<noteq> n" for m n
    proof -
      have "own D' x \<inter> own D' i = {}" if "i \<in> roots ?M" for i using ox on(2) [OF that] xu that by auto
      moreover have "own D' i \<inter> own D' j = {}" if "i \<in> roots ?M" "j \<in> roots ?M" "i \<noteq> j" for i j
        using on(2) that o(7) by (simp add: files_ok_def)
      ultimately show ?thesis using that unfolding r by (metis insertE Int_commute)
    qed
    ultimately show ?thesis unfolding files_ok_def by blast
  qed
  show "fs_ok D'" using s o f b us un T by (simp add: fs_ok_def fs_map_def image_Un)
  have "file_bytes D' (hdr_at D' (nat y)) = file_bytes D (hdr_at D (nat y))" if "?M k' = Some y" for k' y
  proof -
    have y: "nat y \<in> roots ?M" "2 \<le> y" using that o(7) by (force simp: roots_def ran_def files_ok_def)+
    then have "nat y \<noteq> 0" "nat y \<noteq> 1" by auto
    then show ?thesis using s(9) [OF y(1)] xu(1) y(1) by auto
  qed
  then show "fs_files D' = (fs_files D)(k \<mapsto> file_bytes D' h)"
    using s(4) k h(1) by (auto simp: fs_files_def fun_eq_iff option.map_sel split: option.splits intro!: option.map_cong)
qed

lemma fs_remove_file:
  assumes ok: "fs_ok D" and u: "sys_update D {} (bm_map bm) T D'" and T: "dir_ok \<lparr>tableSize = 10, dir_table = T\<rparr>"
    and k: "fs_map D k = Some x" "dir_map T = (fs_map D)(k := None)" and bm: "bitmap_ok bm" "numBits bm = 1024"
    and us: "used_slots bm = used_slots (fs_bitmap D) - int ` own D (nat x)"
  shows "fs_ok D'" "fs_files D' = (fs_files D)(k := None)" "hdr_at D' 0 = hdr_at D 0" "hdr_at D' 1 = hdr_at D 1"
proof -
  note o = fs_okD [OF ok]
  let ?M = "fs_map D" let ?x = "nat x"
  have x: "2 \<le> x" "?x \<in> roots ?M" using k(1) o(7) by (force simp: files_ok_def roots_def ran_def)+
  have A: "0 \<notin> ({} :: nat set)" "1 \<notin> ({} :: nat set)" by simp_all
  note s = sys_updateD [OF ok u T A]
  show "hdr_at D' 0 = hdr_at D 0" "hdr_at D' 1 = hdr_at D 1" by (rule s(1), rule s(2))
  have on: "hdr_at D' n = hdr_at D n" "own D' n = own D n" "n \<noteq> 0 \<Longrightarrow> n \<noteq> 1 \<Longrightarrow> file_bytes D' (hdr_at D' n) = file_bytes D (hdr_at D n)"
    if "n \<in> roots ?M" for n
    using s(1,2,7,8) s(9) [OF that] by (cases "n = 0"; cases "n = 1"; simp)+
  have m: "fs_map D' = ?M(k := None)" using s(4) k(2) by simp
  have inj: "k' = k" if "?M k' = Some y" "nat y = ?x" for k' y
  proof -
    have "2 \<le> y" using that(1) o(7) by (simp add: files_ok_def)
    then have "y = x" using that(2) x(1) by simp
    then show ?thesis using that(1) k(1) o(7) unfolding files_ok_def by blast
  qed
  have r: "roots (fs_map D') = roots ?M - {?x}"
  proof -
    have "n \<in> nat ` ran (?M(k := None)) \<longleftrightarrow> n \<in> nat ` ran ?M - {?x}" for n
    proof
      assume "n \<in> nat ` ran (?M(k := None))"
      then obtain k' y where "?M k' = Some y" "k' \<noteq> k" "n = nat y" by (auto simp: ran_def split: if_splits)
      then show "n \<in> nat ` ran ?M - {?x}" using inj ranI by fastforce
    next
      assume "n \<in> nat ` ran ?M - {?x}"
      then obtain k' y where y: "?M k' = Some y" "n = nat y" "n \<noteq> ?x" by (auto simp: ran_def)
      then have "(?M(k := None)) k' = Some y" using k(1) by auto
      then show "n \<in> nat ` ran (?M(k := None))" using y(2) ranI by fast
    qed
    then have "nat ` ran (?M(k := None)) = nat ` ran ?M - {?x}" by blast
    moreover have "?x \<notin> {0, 1}" using x(1) by auto
    ultimately show ?thesis unfolding m roots_def by blast
  qed
  have w: "numWords bm = 32" using bm by (simp add: bitmap_ok_def divRoundUp_nonneg nachos_consts)
  then have b: "fs_bitmap D' = bm" using s(5) bm(2) by (cases bm) simp
  have dis: "own D i \<inter> own D j = {}" if "i \<in> roots ?M" "j \<in> roots ?M" "i \<noteq> j" for i j
    using that o(7) by (simp add: files_ok_def)
  have un: "(\<Union>n \<in> roots (fs_map D'). own D' n) = (\<Union>n \<in> roots ?M. own D n) - own D ?x"
  proof -
    have "(\<Union>n \<in> roots (fs_map D'). own D' n) = (\<Union>n \<in> roots ?M - {?x}. own D n)" using r on(2) by simp
    moreover have "own D n \<inter> own D ?x = {}" if "n \<in> roots ?M - {?x}" for n using dis [OF _ x(2)] that by simp
    ultimately show ?thesis using x(2) by blast
  qed
  have f: "files_ok D' (fs_map D')"
  proof -
    have sub: "n \<in> roots ?M" if "n \<in> roots (fs_map D')" for n using that r by simp
    have "2 \<le> y \<and> y < 1024" if "fs_map D' k' = Some y" for k' y using that m o(7) by (simp add: files_ok_def split: if_splits)
    moreover have "k1 = k2" if "fs_map D' k1 = Some y \<and> fs_map D' k2 = Some y" for k1 k2 y
    proof -
      have "?M k1 = Some y" "?M k2 = Some y" using that m by (auto split: if_splits)
      then show ?thesis using o(7) unfolding files_ok_def by blast
    qed
    moreover have "header_ok (hdr_at D' n) \<and> n \<notin> set (secs (hdr_at D' n))" if "n \<in> roots (fs_map D')" for n
      using sub [OF that] on(1) o(7) by (simp add: files_ok_def)
    moreover have "own D' m \<inter> own D' n = {}" if "m \<in> roots (fs_map D')" "n \<in> roots (fs_map D')" "m \<noteq> n" for m n
      using dis on(2) sub that by simp
    ultimately show ?thesis unfolding files_ok_def by blast
  qed
  show "fs_ok D'" using s o f b us un T by (simp add: fs_ok_def fs_map_def image_set_diff)
  have "file_bytes D' (hdr_at D' (nat y)) = file_bytes D (hdr_at D (nat y))" if "?M k' = Some y" for k' y
  proof -
    have "nat y \<in> roots ?M" "2 \<le> y" using that o(7) by (force simp: roots_def ran_def files_ok_def)+
    then show ?thesis using on(3) by auto
  qed
  then show "fs_files D' = (fs_files D)(k := None)"
    using m by (auto simp: fs_files_def fun_eq_iff split: option.splits intro!: option.map_cong)
qed

section \<open>Writing to a file\<close>

text \<open>A write into the data sectors of one file changes the bytes of that file and nothing else.\<close>

lemma fs_write_file:
  assumes ok: "fs_ok D" and k: "fs_map D k = Some x" and s: "same_on (- set (secs (hdr_at D (nat x)))) D D'"
  shows "fs_ok D'" "fs_files D' = (fs_files D)(k \<mapsto> file_bytes D' (hdr_at D (nat x)))" "fs_map D' = fs_map D" "hdr_at D' (nat x) = hdr_at D (nat x)"
    "hdr_at D' 0 = hdr_at D 0" "hdr_at D' 1 = hdr_at D 1"
proof -
  note o = fs_okD [OF ok]
  let ?M = "fs_map D" let ?x = "nat x"
  have x: "2 \<le> x" "?x \<in> roots ?M" using k(1) o(7) by (force simp: files_ok_def roots_def ran_def)+
  have hx: "header_ok (hdr_at D ?x)" "?x \<notin> set (secs (hdr_at D ?x))" "?x < 1024"
    using o(7) x(2) roots_less by (auto simp: files_ok_def)
  have same: "hdr_at D' n = hdr_at D n" "own D' n = own D n" "file_bytes D' (hdr_at D' n) = file_bytes D (hdr_at D n)"
    if n: "n \<in> roots ?M" "n \<noteq> ?x" for n
  proof -
    have "own D n \<inter> own D ?x = {}" using n x(2) o(7) unfolding files_ok_def by blast
    then have "same_on (own D n) D D'" using same_on_mono [OF s, of "own D n"] by (auto simp: own_def)
    moreover have "n < 1024" "header_ok (hdr_at D n)" using roots_less [OF o(7) n(1)] o(7) n(1) by (simp_all add: files_ok_def)
    ultimately show "hdr_at D' n = hdr_at D n" "own D' n = own D n" "file_bytes D' (hdr_at D' n) = file_bytes D (hdr_at D n)"
      using same_on_file by blast+
  qed
  show h: "hdr_at D' ?x = hdr_at D ?x" using same_on_sector [OF s _ hx(3)] hx(2) by (simp add: hdr_at_def)
  have ne: "0 \<noteq> ?x" "1 \<noteq> ?x" using x(1) by auto
  have zo: "file_bytes D' (hdr_at D' 0) = file_bytes D (hdr_at D 0)" "file_bytes D' (hdr_at D' 1) = file_bytes D (hdr_at D 1)"
    using same(3) [of 0] same(3) [of 1] ne by simp_all
  then have t: "fs_table D' = fs_table D" "fs_bitmap D' = fs_bitmap D" by (simp_all add: fs_table_def fs_bitmap_def)
  show h01: "hdr_at D' 0 = hdr_at D 0" "hdr_at D' 1 = hdr_at D 1" using same(1) [of 0] same(1) [of 1] ne by simp_all
  show m: "fs_map D' = ?M" using t by (simp add: fs_map_def)
  have all: "hdr_at D' n = hdr_at D n" "own D' n = own D n" if "n \<in> roots ?M" for n
    using same [OF that] h by (cases "n = ?x"; simp add: own_def)+
  have l: "length D' = 131072" using s by (simp add: same_on_def)
  have f: "files_ok D' ?M" using o(7) all unfolding files_ok_def by auto
  have "(\<Union>n \<in> roots ?M. own D' n) = (\<Union>n \<in> roots ?M. own D n)" using all(2) by auto
  then show "fs_ok D'" using o t m l f h01 by (simp add: fs_ok_def)
  have "file_bytes D' (hdr_at D' (nat y)) = file_bytes D (hdr_at D (nat y))" if y: "?M k' = Some y" "k' \<noteq> k" for k' y
  proof -
    have r: "nat y \<in> roots ?M" "2 \<le> y" using y(1) o(7) by (force simp: roots_def ran_def files_ok_def)+
    have "y \<noteq> x" using y k o(7) unfolding files_ok_def by blast
    then show ?thesis using same(3) [OF r(1)] r(2) x(1) by simp
  qed
  then show "fs_files D' = (fs_files D)(k \<mapsto> file_bytes D' (hdr_at D ?x))"
    using m k h by (auto simp: fs_files_def fun_eq_iff split: option.splits intro!: option.map_cong)
qed

section \<open>The operations on a disk\<close>

lemma two_writes:
  assumes "same_on (- A) D D1" "same_on (- set (secs ha)) D1 D2" "file_bytes D2 ha = X" "same_on (- set (secs hb)) D2 D3" "file_bytes D3 hb = Y"
    "set (secs ha) \<inter> set (secs hb) = {}" "header_ok ha"
  shows "same_on (- (A \<union> set (secs ha) \<union> set (secs hb))) D D3" "file_bytes D3 ha = X" "file_bytes D3 hb = Y"
proof -
  show "same_on (- (A \<union> set (secs ha) \<union> set (secs hb))) D D3" using assms(1,2,4) by (simp add: same_on_def)
  show "file_bytes D3 ha = X" using same_on_bytes [OF assms(4) _ assms(7)] assms(3,6) by blast
qed (rule assms(5))

lemma new_FileHeader_ok: "length (dataSectors (new_FileHeader junk)) = 30" "\<forall>x \<in> set (dataSectors (new_FileHeader junk)). int32 x"
proof -
  have "length (bytes_ints (map junk [0..<128])) = 32" by (simp add: length_bytes_ints)
  then show "length (dataSectors (new_FileHeader junk)) = 30" by (simp add: new_FileHeader_def bytes_header_def Let_def)
  show "\<forall>x \<in> set (dataSectors (new_FileHeader junk)). int32 x"
    by (auto simp: new_FileHeader_def bytes_header_def Let_def dest!: in_set_dropD int32_bytes_ints)
qed

context sector_disk
begin

lemma frame_same_on:
  assumes "ok s" "ok s'" "\<forall>k < 131072. k div 128 \<notin> S \<longrightarrow> content s' ! k = content s ! k"
  shows "same_on (- S) (content s) (content s')"
  using assms size_law by (simp add: same_on_def)

lemma fetch_dir:
  assumes "ok s" "fs_ok (content s)" "fs_handles fs (content s)"
  shows "\<exists>s'. Dir_FetchFrom d (directoryFile fs) (new_Directory junk NumDirEntries) s =
      Inr (\<lparr>tableSize = 10, dir_table = fs_table (content s)\<rparr>, s') \<and> ok s' \<and> content s' = content s"
proof -
  have h: "df_hdr (directoryFile fs) = hdr_at (content s) 1" using assms(3) by (simp add: fs_handles_def)
  have "\<forall>e \<in> set (dir_table (new_Directory junk 10)). entry_ok e" using new_Directory_ok(1) [of junk] by (simp add: dir_ok_def)
  then show ?thesis
    using Dir_FetchFrom_ok [OF assms(1), of "directoryFile fs" "new_Directory junk 10"] fs_okD(3,5) [OF assms(2)] h new_Directory_ok(2,3) [of junk]
    by (simp add: NumDirEntries_def fs_table_def)
qed

lemma fetch_map:
  assumes "ok s" "fs_ok (content s)" "fs_handles fs (content s)"
  shows "\<exists>s'. new_PersistentBitmap d (freeMapFile fs) NumSectors s = Inr (fs_bitmap (content s), s') \<and> ok s' \<and> content s' = content s"
proof -
  have "df_hdr (freeMapFile fs) = hdr_at (content s) 0" "NumSectors = 1024" using assms(3) by (simp_all add: fs_handles_def nachos_consts)
  then show ?thesis using new_PersistentBitmap_ok [OF assms(1), of "freeMapFile fs"] fs_okD(2,4) [OF assms(2)] by (simp add: fs_bitmap_def)
qed

lemma fetch_header:
  assumes "ok s" "n < 1024"
  shows "\<exists>s'. FH_FetchFrom d (int n) s = Inr (hdr_at (content s) n, s') \<and> ok s' \<and> content s' = content s"
  using read_sector_nat [OF assms] by (auto simp: FH_FetchFrom_def hdr_at_def)

lemma write_header:
  assumes "ok s" "n < 1024" "header_ok h"
  shows "\<exists>s'. FH_WriteBack d h (int n) s = Inr s' \<and> ok s' \<and> same_on (- {n}) (content s) (content s') \<and> hdr_at (content s') n = h"
proof -
  obtain s' where s': "FH_WriteBack d h (int n) s = Inr s'" "ok s'" "content s' = patch (content s) (n * 128) (header_bytes h)"
    using write_sector_nat [OF assms(1,2), of "header_bytes h"] bytes_header_bytes(2) [OF assms(3)] by (auto simp: FH_WriteBack_def)
  have l: "length (content s) = 131072" by (rule size_law [OF assms(1)])
  note p = bytes_header_bytes [OF assms(3)]
  have "hdr_at (content s') n = h" using sector_of_patch [OF assms(2,2) l p(2)] s'(3) p(1) by (simp add: hdr_at_def)
  moreover have "content s' ! k = content s ! k" if "k < 131072" "k div 128 \<notin> {n}" for k
  proof -
    have "k = k div 128 * 128 + k mod 128" by simp
    moreover have "patch (content s) (n * 128 + 0) (header_bytes h) ! (k div 128 * 128 + k mod 128) = content s ! (k div 128 * 128 + k mod 128)"
      using nth_patch_block [of n 128 "content s" 0 "header_bytes h" "k mod 128" "k div 128"] assms(2) l p(2) that(2) by auto
    ultimately show ?thesis using s'(3) by simp
  qed
  ultimately show ?thesis using s'(1,2) frame_same_on [OF assms(1) s'(2)] by blast
qed

text \<open>Flushing the directory and the bitmap, in either order, on a disk that differs from \<open>D\<close> in the sectors \<open>A\<close> only.\<close>

lemma flush_dir_map:
  assumes s: "ok s" "same_on (- A) D (content s)" and D: "fs_ok D" "fs_handles fs D"
    and dir: "dir_ok dir" "tableSize dir = 10" and bm: "bitmap_ok bm" "numBits bm = 1024"
  shows "\<exists>s1 s2. Dir_WriteBack d junk (directoryFile fs) dir s = Inr s1 \<and> PB_WriteBack d junk (freeMapFile fs) bm s1 = Inr s2 \<and>
    ok s2 \<and> sys_update D A (bm_map bm) (dir_table dir) (content s2) \<and> same_on (- sys_secs D) (content s) (content s2)"
    "\<exists>s1 s2. PB_WriteBack d junk (freeMapFile fs) bm s = Inr s1 \<and> Dir_WriteBack d junk (directoryFile fs) dir s1 = Inr s2 \<and>
    ok s2 \<and> sys_update D A (bm_map bm) (dir_table dir) (content s2) \<and> same_on (- sys_secs D) (content s) (content s2)"
proof -
  note o = fs_okD [OF D(1)]
  have h: "df_hdr (freeMapFile fs) = hdr_at D 0" "df_hdr (directoryFile fs) = hdr_at D 1" using D(2) by (simp_all add: fs_handles_def)
  have dj: "set (secs (hdr_at D 0)) \<inter> set (secs (hdr_at D 1)) = {}" using o(11) by (auto simp: own_def)
  have wd: "\<exists>t'. Dir_WriteBack d junk (directoryFile fs) dir t = Inr t' \<and> ok t' \<and> file_bytes (content t') (hdr_at D 1) = table_bytes (dir_table dir) \<and>
      same_on (- set (secs (hdr_at D 1))) (content t) (content t')" if "ok t" for t
    using Dir_WriteBack_ok [OF that, of "directoryFile fs" dir junk] h o dir frame_same_on [OF that] by metis
  have wm: "\<exists>t'. PB_WriteBack d junk (freeMapFile fs) bm t = Inr t' \<and> ok t' \<and> file_bytes (content t') (hdr_at D 0) = words_bytes (bm_map bm) \<and>
      same_on (- set (secs (hdr_at D 0))) (content t) (content t')" if "ok t" for t
    using PB_WriteBack_ok [OF that, of "freeMapFile fs" bm junk] h o bm frame_same_on [OF that] by metis
  obtain s1 where s1: "Dir_WriteBack d junk (directoryFile fs) dir s = Inr s1" "ok s1" "file_bytes (content s1) (hdr_at D 1) = table_bytes (dir_table dir)"
      "same_on (- set (secs (hdr_at D 1))) (content s) (content s1)" using wd [OF s(1)] by blast
  obtain s2 where s2: "PB_WriteBack d junk (freeMapFile fs) bm s1 = Inr s2" "ok s2" "file_bytes (content s2) (hdr_at D 0) = words_bytes (bm_map bm)"
      "same_on (- set (secs (hdr_at D 0))) (content s1) (content s2)" using wm [OF s1(2)] by blast
  have "sys_update D A (bm_map bm) (dir_table dir) (content s2)"
    using two_writes [OF s(2) s1(4,3) s2(4,3)] dj o(3) by (auto simp: sys_update_def Un_ac Int_commute)
  moreover have "same_on (- sys_secs D) (content s) (content s2)" using s1(4) s2(4) by (simp add: same_on_def)
  ultimately show "\<exists>s1 s2. Dir_WriteBack d junk (directoryFile fs) dir s = Inr s1 \<and> PB_WriteBack d junk (freeMapFile fs) bm s1 = Inr s2 \<and>
      ok s2 \<and> sys_update D A (bm_map bm) (dir_table dir) (content s2) \<and> same_on (- sys_secs D) (content s) (content s2)"
    using s1(1) s2(1,2) by blast
  obtain t1 where t1: "PB_WriteBack d junk (freeMapFile fs) bm s = Inr t1" "ok t1" "file_bytes (content t1) (hdr_at D 0) = words_bytes (bm_map bm)"
      "same_on (- set (secs (hdr_at D 0))) (content s) (content t1)" using wm [OF s(1)] by blast
  obtain t2 where t2: "Dir_WriteBack d junk (directoryFile fs) dir t1 = Inr t2" "ok t2" "file_bytes (content t2) (hdr_at D 1) = table_bytes (dir_table dir)"
      "same_on (- set (secs (hdr_at D 1))) (content t1) (content t2)" using wd [OF t1(2)] by blast
  have "sys_update D A (bm_map bm) (dir_table dir) (content t2)"
    using two_writes [OF s(2) t1(4,3) t2(4,3)] dj o(2) by (auto simp: sys_update_def Un_ac)
  moreover have "same_on (- sys_secs D) (content s) (content t2)" using t1(4) t2(4) by (simp add: same_on_def)
  ultimately show "\<exists>s1 s2. PB_WriteBack d junk (freeMapFile fs) bm s = Inr s1 \<and> Dir_WriteBack d junk (directoryFile fs) dir s1 = Inr s2 \<and>
      ok s2 \<and> sys_update D A (bm_map bm) (dir_table dir) (content s2) \<and> same_on (- sys_secs D) (content s) (content s2)"
    using t1(1) t2(1,2) by blast
qed

end

text \<open>When a file of \<open>sz\<close> bytes can be created under a name.\<close>

definition can_create :: "byte list \<Rightarrow> byte list \<Rightarrow> int \<Rightarrow> bool" where
  "can_create D k sz \<longleftrightarrow> fs_files D k = None \<and> length (used_entries (fs_table D)) < 10 \<and>
     sectors_for sz < free_slots (fs_bitmap D)"

lemma fs_files_None: "fs_files D k = None \<longleftrightarrow> fs_map D k = None"
  by (simp add: fs_files_def)

lemma free_slots_insert:
  assumes "bitmap_ok fm" "0 \<le> x" "x < numBits fm" "x \<notin> used_slots fm" "used_slots fm1 = insert x (used_slots fm)" "numBits fm1 = numBits fm"
  shows "free_slots fm = Suc (free_slots fm1)"
proof -
  have "{0..<numBits fm} - used_slots fm = insert x ({0..<numBits fm1} - used_slots fm1)" using assms by auto
  moreover have "x \<notin> {0..<numBits fm1} - used_slots fm1" using assms(5) by simp
  ultimately show ?thesis unfolding free_slots_def by simp
qed

lemma free_slots_0: "bitmap_ok fm \<Longrightarrow> free_slots fm = 0 \<longleftrightarrow> used_slots fm = {0..<numBits fm}"
  using used_slots_range [of fm] by (auto simp: free_slots_def)

context sector_disk
begin

text \<open>The writes of a successful \<^verbatim>\<open>Create\<close>.\<close>

lemma create_commit:
  assumes s: "ok s" and D: "fs_ok (content s)" "fs_handles fs (content s)"
    and x: "0 \<le> x" "x < 1024" "x \<notin> used_slots (fs_bitmap (content s))" and k: "fs_map (content s) k = None"
    and dir: "dir_ok dir" "tableSize dir = 10" "dir_map (dir_table dir) = (fs_map (content s))(k \<mapsto> x)"
    and h: "header_ok h" and bm: "bitmap_ok bm" "numBits bm = 1024"
      "used_slots bm = insert x (used_slots (fs_bitmap (content s))) \<union> int ` set (secs h)"
      "int ` set (secs h) \<inter> insert x (used_slots (fs_bitmap (content s))) = {}"
  shows "\<exists>s3 s4 s5 c. FH_WriteBack d h x s = Inr s3 \<and> Dir_WriteBack d junk (directoryFile fs) dir s3 = Inr s4 \<and>
    PB_WriteBack d junk (freeMapFile fs) bm s4 = Inr s5 \<and> ok s5 \<and> fs_ok (content s5) \<and> fs_handles fs (content s5) \<and>
    length c = nat (fh_numBytes h) \<and> fs_files (content s5) = (fs_files (content s))(k \<mapsto> c)"
proof -
  let ?D = "content s"
  note o = fs_okD [OF D(1)]
  obtain n where n: "x = int n" "n < 1024" using x(1,2) by (metis nat_eq_iff2 nat_less_iff zless_nat_eq_int_zless of_nat_numeral)
  obtain s3 where s3: "FH_WriteBack d h x s = Inr s3" "ok s3" "same_on (- {n}) ?D (content s3)" "hdr_at (content s3) n = h"
    using write_header [OF s n(2) h] n(1) by auto
  obtain s4 s5 where s5: "Dir_WriteBack d junk (directoryFile fs) dir s3 = Inr s4" "PB_WriteBack d junk (freeMapFile fs) bm s4 = Inr s5"
      "ok s5" "sys_update ?D {n} (bm_map bm) (dir_table dir) (content s5)" "same_on (- sys_secs ?D) (content s3) (content s5)"
    using flush_dir_map(1) [OF s3(2,3) D dir(1,2) bm(1,2)] by blast
  have "n \<notin> (\<Union>i \<in> roots (fs_map ?D). own ?D i)" using x(3) n(1) o(8) by auto
  then have "n \<notin> own ?D 0" "n \<notin> own ?D 1" using root_01 [of "fs_map ?D"] by force+
  then have "n \<in> - sys_secs ?D" by (simp add: own_def)
  then have hd: "hdr_at (content s5) n = h" using same_on_sector [OF s5(5) _ n(2)] s3(4) by (simp add: hdr_at_def)
  have dk: "dir_ok \<lparr>tableSize = 10, dir_table = dir_table dir\<rparr>" using dir(1,2) by (cases dir) simp
  have q: "int n \<notin> used_slots (fs_bitmap ?D)" "n \<notin> set (secs h)" "int ` set (secs h) \<inter> used_slots (fs_bitmap ?D) = {}"
    "used_slots bm = used_slots (fs_bitmap ?D) \<union> insert (int n) (int ` set (secs h))" using x(3) bm(3,4) n(1) by auto
  note f = fs_add_file [OF D(1) s5(4) dk k _ hd h bm(1,2) n(2) q]
  have "fs_handles fs (content s5)" using f(3,4) dir(3) n(1) D(2) by (simp add: fs_handles_def)
  then show ?thesis using s3(1) s5(1-3) f(1,2) dir(3) n(1) length_file_bytes [OF h] by (intro exI) auto
qed

text \<open>\<^verbatim>\<open>Allocate\<close> does not compare the number of sectors with \<^verbatim>\<open>NumDirect\<close>.\<close>

lemma FH_Allocate_overflow:
  assumes fm: "bitmap_ok fm" and z: "MaxFileSize < sz" "sectors_for sz \<le> free_slots fm" and h: "length (dataSectors hdr) = 30"
  shows "FH_Allocate hdr fm sz = Inl OutOfBounds"
proof -
  have k: "divRoundUp sz SectorSize = int (sectors_for sz)" "30 < sectors_for sz"
    using z(1) by (simp_all add: divRoundUp_nonneg nachos_consts sectors_for_def add.commute [of 127])
  have "NumClear fm = Inr (int (free_slots fm))" using bm.num_clear_law [OF fm] by (simp add: free_slots_def)
  moreover have "alloc_sectors (sectors_for sz) (int 0) (dataSectors hdr) fm = Inl OutOfBounds"
    by (rule alloc_sectors_overflow [OF fm]) (use z(2) k(2) h in \<open>simp_all add: free_slots_def\<close>)
  ultimately show ?thesis using z(2) k(1) by (simp add: FH_Allocate_def Let_def)
qed

lemma FS_Create_overflow:
  assumes s: "ok s" and D: "fs_ok (content s)" "fs_handles fs (content s)" and z: "MaxFileSize < sz"
    and c: "can_create (content s) (name_key name) sz"
  shows "FS_Create d junk fs name sz s = Inl OutOfBounds"
proof -
  let ?D = "content s" let ?k = "name_key name" let ?dir = "\<lparr>tableSize = 10, dir_table = fs_table ?D\<rparr>" let ?fm = "fs_bitmap ?D"
  note o = fs_okD [OF D(1)]
  have n: "fs_map ?D ?k = None" "length (used_entries (fs_table ?D)) < 10" "sectors_for sz < free_slots ?fm"
    using c by (simp_all add: can_create_def fs_files_None)
  obtain s1 where s1: "Dir_FetchFrom d (directoryFile fs) (new_Directory junk NumDirEntries) s = Inr (?dir, s1)" "ok s1" "content s1 = ?D"
    using fetch_dir [OF s D] by blast
  obtain s2 where s2: "new_PersistentBitmap d (freeMapFile fs) NumSectors s1 = Inr (?fm, s2)"
    using fetch_map [OF s1(2)] s1(3) D by metis
  have f: "Dir_Find ?dir name = -1" using nt.find_law [OF o(6), of name] n(1) by (simp add: fs_map_def)
  have "used_slots ?fm \<noteq> {0..<numBits ?fm}" using n(3) free_slots_0 [OF o(9)] by auto
  then obtain x fm1 where x: "FindAndSet ?fm = Inr (x, fm1)" "0 \<le> x" "x < numBits ?fm" "x \<notin> used_slots ?fm" "bitmap_ok fm1"
      "numBits fm1 = numBits ?fm" "used_slots fm1 = insert x (used_slots ?fm)" using FindAndSet_free [OF o(9)] by blast
  have x1: "int32 x" "x \<noteq> -1" using x(2,3) o(10) by (auto simp: int32_def)
  have "\<not> dir_full ?dir" using n(2) o(6) by (auto simp: dir_full_def dir_ok_def)
  then obtain dir' where dir': "Dir_Add ?dir name x = (True, dir')" using nt.add_law [OF o(6) x1(1), of name] n(1) by (auto simp: fs_map_def)
  have "sectors_for sz \<le> free_slots fm1" using free_slots_insert [OF o(9) x(2-4,7,6)] n(3) by simp
  then have "FH_Allocate (new_FileHeader junk) fm1 sz = Inl OutOfBounds" by (rule FH_Allocate_overflow [OF x(5) z _ new_FileHeader_ok(1)])
  then show ?thesis using s1(1) s2 f x(1) x1(2) dir' by (simp add: FS_Create_def)
qed

lemma FS_Create_ok:
  assumes s: "ok s" and D: "fs_ok (content s)" "fs_handles fs (content s)" and z: "0 \<le> sz" "sz \<le> MaxFileSize"
  shows "\<exists>s'. FS_Create d junk fs name sz s = Inr (can_create (content s) (name_key name) sz, s') \<and> ok s' \<and>
    fs_ok (content s') \<and> fs_handles fs (content s') \<and>
    (if can_create (content s) (name_key name) sz
     then \<exists>c. length c = nat sz \<and> fs_files (content s') = (fs_files (content s))(name_key name \<mapsto> c)
     else content s' = content s)"
proof -
  let ?D = "content s" let ?k = "name_key name" let ?T = "fs_table ?D" let ?dir = "\<lparr>tableSize = 10, dir_table = ?T\<rparr>" let ?fm = "fs_bitmap ?D"
  note o = fs_okD [OF D(1)]
  have dl: "length ?T = 10" using o(6) by (simp add: dir_ok_def)
  obtain s1 where s1: "Dir_FetchFrom d (directoryFile fs) (new_Directory junk NumDirEntries) s = Inr (?dir, s1)" "ok s1" "content s1 = ?D"
    using fetch_dir [OF s D] by blast
  have nf: "Dir_Find ?dir name = -1 \<longleftrightarrow> fs_map ?D ?k = None"
    using nt.find_law [OF o(6), of name] fs_map_range [OF D(1), of ?k] by (cases "fs_map ?D ?k") (auto simp: fs_map_def)
  show ?thesis
  proof (cases "fs_map ?D ?k = None")
    case False
    then have "FS_Create d junk fs name sz s = Inr (False, s1)" using s1(1) nf by (simp add: FS_Create_def)
    moreover have "\<not> can_create ?D ?k sz" using False by (simp add: can_create_def fs_files_None)
    ultimately show ?thesis using s1 D by simp
  next
    case new: True
    obtain s2 where s2: "new_PersistentBitmap d (freeMapFile fs) NumSectors s1 = Inr (?fm, s2)" "ok s2" "content s2 = ?D"
      using fetch_map [OF s1(2)] s1(3) D by metis
    have pre: "FS_Create d junk fs name sz s = rbind (FindAndSet ?fm) (\<lambda>(sector, freeMap1).
       if sector = -1 then Inr (False, s2)
       else let (added, directory1) = Dir_Add ?dir name sector in
         if \<not> added then Inr (False, s2)
         else rbind (FH_Allocate (new_FileHeader junk) freeMap1 sz) (\<lambda>(enough, hdr, freeMap2).
           if \<not> enough then Inr (False, s2)
           else rbind (FH_WriteBack d hdr sector s2) (\<lambda>s3.
                rbind (Dir_WriteBack d junk (directoryFile fs) directory1 s3) (\<lambda>s4.
                rbind (PB_WriteBack d junk (freeMapFile fs) freeMap2 s4) (\<lambda>s5. Inr (True, s5))))))"
      using s1(1) s2(1) nf new by (simp add: FS_Create_def)
    have refused: ?thesis if "FS_Create d junk fs name sz s = Inr (False, s2)" "\<not> can_create ?D ?k sz"
      using that s2(2,3) D by simp
    show ?thesis
    proof (cases "used_slots ?fm = {0..<numBits ?fm}")
      case True
      then have "FS_Create d junk fs name sz s = Inr (False, s2)" using pre FindAndSet_full [OF o(9)] by simp
      then show ?thesis by (rule refused) (use True free_slots_0 [OF o(9)] in \<open>simp add: can_create_def\<close>)
    next
      case False
      then obtain x fm1 where x: "FindAndSet ?fm = Inr (x, fm1)" "0 \<le> x" "x < numBits ?fm" "x \<notin> used_slots ?fm" "bitmap_ok fm1"
          "numBits fm1 = numBits ?fm" "used_slots fm1 = insert x (used_slots ?fm)" using FindAndSet_free [OF o(9)] by blast
      have x1: "int32 x" "x < 1024" "numBits fm1 = 1024" "x \<noteq> -1" using x(2,3,6) o(10) by (auto simp: int32_def)
      have fr: "free_slots ?fm = Suc (free_slots fm1)" by (rule free_slots_insert [OF o(9) x(2-4,7,6)])
      show ?thesis
      proof (cases "dir_full ?dir")
        case True
        then have "FS_Create d junk fs name sz s = Inr (False, s2)"
          using pre x(1) x1(4) nt.add_refused [OF o(6) x1(1), of name] by simp
        then show ?thesis by (rule refused) (use True dl in \<open>simp add: can_create_def dir_full_def\<close>)
      next
        case room: False
        obtain dir' where dir': "Dir_Add ?dir name x = (True, dir')" "dir_ok dir'" "tableSize dir' = 10"
            "dir_map (dir_table dir') = (fs_map ?D)(?k \<mapsto> x)"
          using Dir_Add_ok [OF o(6) x1(1), of name] new room by (auto simp: dir_full_def fs_map_def dom_def)
        have le: "length (used_entries ?T) < 10" using room dl length_filter_le [of de_inUse ?T] by (simp add: dir_full_def used_entries_def)
        note al = FH_Allocate_ok [OF x(5) x1(3) z new_FileHeader_ok [of junk]]
        show ?thesis
        proof (cases "free_slots fm1 < sectors_for sz")
          case True
          then obtain h' where "FH_Allocate (new_FileHeader junk) fm1 sz = Inr (False, h', fm1)" using al by auto
          then have "FS_Create d junk fs name sz s = Inr (False, s2)" using pre x(1) x1(4) dir'(1) by simp
          then show ?thesis by (rule refused) (use True fr in \<open>simp add: can_create_def\<close>)
        next
          case enough: False
          then obtain h fm2 where h: "FH_Allocate (new_FileHeader junk) fm1 sz = Inr (True, h, fm2)" "header_ok h" "fh_numBytes h = sz"
              "bitmap_ok fm2" "numBits fm2 = 1024" "used_slots fm2 = used_slots fm1 \<union> int ` set (secs h)" "int ` set (secs h) \<inter> used_slots fm1 = {}"
            using al by auto
          obtain s3 s4 s5 c where s5: "FH_WriteBack d h x s2 = Inr s3" "Dir_WriteBack d junk (directoryFile fs) dir' s3 = Inr s4"
              "PB_WriteBack d junk (freeMapFile fs) fm2 s4 = Inr s5" "ok s5" "fs_ok (content s5)" "fs_handles fs (content s5)" "length c = nat sz"
              "fs_files (content s5) = (fs_files ?D)(?k \<mapsto> c)"
            using create_commit [OF s2(2) D [folded s2(3)] x(2) x1(2) x(4) [folded s2(3)] new [folded s2(3)] dir'(2,3)
                dir'(4) [folded s2(3)] h(2,4,5), of junk] s2(3) x(7) h(3,6,7) by auto
          have "FS_Create d junk fs name sz s = Inr (True, s5)" using pre x(1) x1(4) dir'(1) h(1) s5(1-3) by simp
          moreover have "can_create ?D ?k sz" using new le enough fr by (simp add: can_create_def fs_files_None)
          ultimately show ?thesis using s5(4-8) by auto
        qed
      qed
    qed
  qed
qed

end

text \<open>A file opened under the name with key \<open>k\<close>.\<close>

definition opened :: "DiskFile \<Rightarrow> byte list \<Rightarrow> byte list \<Rightarrow> bool" where
  "opened f k D \<longleftrightarrow> (\<exists>x. fs_map D k = Some x \<and> df_hdr f = hdr_at D (nat x))"

lemma openedD:
  assumes "fs_ok D" "opened f k D"
  obtains x where "fs_map D k = Some x" "df_hdr f = hdr_at D (nat x)" "header_ok (df_hdr f)" "fs_files D k = Some (file_bytes D (df_hdr f))"
proof -
  obtain x where x: "fs_map D k = Some x" "df_hdr f = hdr_at D (nat x)" using assms(2) by (auto simp: opened_def)
  have "nat x \<in> roots (fs_map D)" using x(1) by (force simp: roots_def ran_def)
  then have "header_ok (df_hdr f)" using fs_okD(7) [OF assms(1)] x(2) by (simp add: files_ok_def)
  then show thesis using that [OF x] x by (simp add: fs_files_def)
qed

lemma opened_small: "fs_ok D \<Longrightarrow> opened f k D \<Longrightarrow> fs_files D k = Some c \<Longrightarrow> length c \<le> 3840"
  by (erule (1) openedD) (use header_small length_file_bytes in fastforce)

context sector_disk
begin

lemma FS_Open_ok:
  assumes s: "ok s" and D: "fs_ok (content s)" "fs_handles fs (content s)"
  shows "\<exists>s'. ok s' \<and> content s' = content s \<and>
    (if fs_files (content s) (name_key name) = None then FS_Open d junk fs name s = Inr (None, s')
     else \<exists>f. FS_Open d junk fs name s = Inr (Some f, s') \<and> opened f (name_key name) (content s) \<and> seekPosition f = 0)"
proof -
  let ?D = "content s" let ?k = "name_key name" let ?dir = "\<lparr>tableSize = 10, dir_table = fs_table ?D\<rparr>"
  obtain s1 where s1: "Dir_FetchFrom d (directoryFile fs) (new_Directory junk NumDirEntries) s = Inr (?dir, s1)" "ok s1" "content s1 = ?D"
    using fetch_dir [OF s D] by blast
  have f: "Dir_Find ?dir name = (case fs_map ?D ?k of Some x \<Rightarrow> x | None \<Rightarrow> -1)"
    using nt.find_law [OF fs_okD(6) [OF D(1)], of name] by (simp add: fs_map_def)
  show ?thesis
  proof (cases "fs_map ?D ?k")
    case None
    then show ?thesis using s1 f by (intro exI [of _ s1]) (simp add: FS_Open_def fs_files_None)
  next
    case (Some x)
    then have x: "0 \<le> x" "nat x < 1024" using fs_map_range [OF D(1), of ?k x] by auto
    obtain s2 where s2: "FH_FetchFrom d x s1 = Inr (hdr_at ?D (nat x), s2)" "ok s2" "content s2 = ?D"
      using fetch_header [OF s1(2) x(2)] x(1) s1(3) by auto
    let ?f = "\<lparr>df_hdr = hdr_at ?D (nat x), seekPosition = 0\<rparr>"
    have "FS_Open d junk fs name s = Inr (Some ?f, s2)" using s1(1) f Some x(1) s2(1) by (simp add: FS_Open_def Let_def new_DiskFile_def)
    then show ?thesis using Some s2 by (intro exI [of _ s2]) (auto simp: fs_files_def opened_def)
  qed
qed

lemma FS_Remove_ok:
  assumes s: "ok s" and D: "fs_ok (content s)" "fs_handles fs (content s)"
  shows "\<exists>s'. FS_Remove d junk fs name s = Inr (fs_files (content s) (name_key name) \<noteq> None, s') \<and> ok s' \<and>
    fs_ok (content s') \<and> fs_handles fs (content s') \<and> fs_files (content s') = (fs_files (content s))(name_key name := None)"
proof -
  let ?D = "content s" let ?k = "name_key name" let ?dir = "\<lparr>tableSize = 10, dir_table = fs_table ?D\<rparr>" let ?fm = "fs_bitmap ?D"
  note o = fs_okD [OF D(1)]
  obtain s1 where s1: "Dir_FetchFrom d (directoryFile fs) (new_Directory junk NumDirEntries) s = Inr (?dir, s1)" "ok s1" "content s1 = ?D"
    using fetch_dir [OF s D] by blast
  have f: "Dir_Find ?dir name = (case fs_map ?D ?k of Some x \<Rightarrow> x | None \<Rightarrow> -1)"
    using nt.find_law [OF o(6), of name] by (simp add: fs_map_def)
  show ?thesis
  proof (cases "fs_map ?D ?k")
    case None
    then have "fs_files ?D ?k = None" by (simp add: fs_files_None)
    then have "(fs_files ?D)(?k := None) = fs_files ?D" by (simp add: fun_upd_idem)
    then show ?thesis using s1 f None D by (simp add: FS_Remove_def fs_files_None)
  next
    case (Some x)
    then have x: "0 \<le> x" "nat x < 1024" "x \<noteq> -1" "x < 1024" using fs_map_range [OF D(1), of ?k x] by auto
    have rx: "nat x \<in> roots (fs_map ?D)" using Some by (force simp: roots_def ran_def)
    let ?h = "hdr_at ?D (nat x)"
    have h: "header_ok ?h" "nat x \<notin> set (secs ?h)" using o(7) rx by (simp_all add: files_ok_def)
    obtain s2 where s2: "FH_FetchFrom d x s1 = Inr (?h, s2)" "ok s2" "content s2 = ?D"
      using fetch_header [OF s1(2) x(2)] x(1) s1(3) by auto
    obtain s3 where s3: "new_PersistentBitmap d (freeMapFile fs) NumSectors s2 = Inr (?fm, s3)" "ok s3" "content s3 = ?D"
      using fetch_map [OF s2(2)] s2(3) D by metis
    have sub: "int ` own ?D (nat x) \<subseteq> used_slots ?fm" using o(8) rx by auto
    then have "int ` set (secs ?h) \<subseteq> used_slots ?fm" by (auto simp: own_def)
    then obtain fm1 where fm1: "FH_Deallocate ?h ?fm = Inr fm1" "bitmap_ok fm1" "numBits fm1 = 1024"
        "used_slots fm1 = used_slots ?fm - int ` set (secs ?h)" using FH_Deallocate_ok [OF h(1) o(9)] o(10) by auto
    obtain fm2 where fm2: "Clear fm1 x = Inr fm2" "bitmap_ok fm2" "numBits fm2 = 1024" "used_slots fm2 = used_slots fm1 - {x}"
      using Clear_ok [OF fm1(2) x(1)] fm1(3) x(4) by auto
    obtain dir' where dir': "Dir_Remove ?dir name = (True, dir')" "dir_ok dir'" "tableSize dir' = 10" "dir_map (dir_table dir') = (fs_map ?D)(?k := None)"
      using Dir_Remove_ok [OF o(6), of name] Some by (auto simp: fs_map_def dom_def)
    have "same_on (- {}) ?D (content s3)" using s3(3) o(1) by (simp add: same_on_def)
    then obtain s4 s5 where s5: "PB_WriteBack d junk (freeMapFile fs) fm2 s3 = Inr s4" "Dir_WriteBack d junk (directoryFile fs) dir' s4 = Inr s5"
        "ok s5" "sys_update ?D {} (bm_map fm2) (dir_table dir') (content s5)"
      using flush_dir_map(2) [OF s3(2) _ D dir'(2,3) fm2(2,3)] by blast
    have dk: "dir_ok \<lparr>tableSize = 10, dir_table = dir_table dir'\<rparr>" using dir'(2,3) by (cases dir') simp
    have us: "used_slots fm2 = used_slots ?fm - int ` own ?D (nat x)" using fm2(4) fm1(4) x(1) by (auto simp: own_def)
    note r = fs_remove_file [OF D(1) s5(4) dk Some dir'(4) fm2(2,3) us]
    have "FS_Remove d junk fs name s = Inr (True, s5)"
      using s1(1) f Some x(3) s2(1) s3(1) fm1(1) fm2(1) dir'(1) s5(1,2) by (simp add: FS_Remove_def Let_def)
    moreover have "fs_handles fs (content s5)" using r(3,4) D(2) by (simp add: fs_handles_def)
    ultimately show ?thesis using s5(3) r(1,2) Some by (simp add: fs_files_None)
  qed
qed

lemma opened_read:
  assumes "ok s" "fs_ok (content s)" "opened f k (content s)" "0 \<le> pos" "pos + n < 2 ^ 31" "fs_files (content s) k = Some c"
  shows "\<exists>s'. DF_ReadAt d f n pos s = Inr ((int (length (take (nat n) (drop (nat pos) c))), take (nat n) (drop (nat pos) c)), s') \<and>
    ok s' \<and> content s' = content s"
proof -
  obtain x where "header_ok (df_hdr f)" "fs_files (content s) k = Some (file_bytes (content s) (df_hdr f))" using openedD [OF assms(2,3)] by blast
  then show ?thesis using DF_ReadAt_ok [OF assms(1) _ assms(4), of f n] assms(5,6) by auto
qed

lemma opened_write:
  assumes s: "ok s" and D: "fs_ok (content s)" "fs_handles fs (content s)" and f: "opened f k (content s)" and p: "0 \<le> pos" "n \<le> int (length from)"
    "pos + n < 2 ^ 31" and c: "fs_files (content s) k = Some c"
  shows "\<exists>s' bs. bs = take (length c - nat pos) (take (nat n) from) \<and> DF_WriteAt d junk f from n pos s = Inr (int (length bs), s') \<and> ok s' \<and>
    fs_ok (content s') \<and> fs_handles fs (content s') \<and> opened f k (content s') \<and>
    fs_files (content s') = (fs_files (content s))(k \<mapsto> patch c (nat pos) bs)"
proof -
  obtain x where x: "fs_map (content s) k = Some x" "df_hdr f = hdr_at (content s) (nat x)" "header_ok (df_hdr f)"
      "fs_files (content s) k = Some (file_bytes (content s) (df_hdr f))" using openedD [OF D(1) f] by blast
  have c2: "c = file_bytes (content s) (df_hdr f)" "length c = nat (fh_numBytes (df_hdr f))"
    using c x(4) length_file_bytes [OF x(3), of "content s"] by simp_all
  obtain s' where s': "DF_WriteAt d junk f from n pos s = Inr (int (length (take (length c - nat pos) (take (nat n) from))), s')" "ok s'"
      "file_bytes (content s') (df_hdr f) = patch c (nat pos) (take (length c - nat pos) (take (nat n) from))"
      "\<forall>k < 131072. k div 128 \<notin> set (secs (df_hdr f)) \<longrightarrow> content s' ! k = content s ! k"
    using DF_WriteAt_ok [OF s x(3) p(1,2) disjI1 [OF p(3)], of junk] c2 by metis
  have "same_on (- set (secs (hdr_at (content s) (nat x)))) (content s) (content s')"
    using frame_same_on [OF s s'(2,4)] x(2) by simp
  note w = fs_write_file [OF D(1) x(1) this]
  have "fs_handles fs (content s')" "opened f k (content s')" using w(3-6) D(2) x(1,2) by (auto simp: fs_handles_def opened_def)
  then show ?thesis using s' w(1,2) x(2) by auto
qed

end

section \<open>Formatting\<close>

lemma format_bitmap:
  "\<exists>b0 b1 b2. new_Bitmap 1024 = Inr b0 \<and> Mark b0 0 = Inr b1 \<and> Mark b1 1 = Inr b2 \<and> bitmap_ok b2 \<and> numBits b2 = 1024 \<and> used_slots b2 = {0, 1}"
proof -
  obtain b0 where b0: "new_Bitmap 1024 = Inr b0" "bitmap_ok b0" "numBits b0 = 1024" "used_slots b0 = {}" using new_Bitmap_ok [of 1024] by auto
  obtain b1 where b1: "Mark b0 0 = Inr b1" "bitmap_ok b1" "numBits b1 = 1024" "used_slots b1 = {0}" using Mark_ok [OF b0(2), of 0] b0 by auto
  obtain b2 where "Mark b1 1 = Inr b2" "bitmap_ok b2" "numBits b2 = 1024" "used_slots b2 = {0, 1}"
    using Mark_ok [OF b1(2), of 1] b1 by (auto simp: insert_commute)
  then show ?thesis using b0(1) b1(1) by blast
qed

lemma free_slots_card: "bitmap_ok fm \<Longrightarrow> free_slots fm = nat (numBits fm) - card (used_slots fm)"
  using used_slots_range [of fm] finite_subset [of "used_slots fm" "{0..<numBits fm}"] by (simp add: free_slots_def card_Diff_subset)

lemma card_secs: "header_ok h \<Longrightarrow> card (int ` set (secs h)) \<le> 30"
  using card_image_le [of "set (secs h)" int] card_length [of "secs h"] header_okD(1) [of h] header_parts(3) [of h] by simp

text \<open>The two headers \<^verbatim>\<open>FileSystem::FileSystem\<close> allocates when it formats.\<close>

lemma format_headers:
  assumes b2: "bitmap_ok b2" "numBits b2 = 1024" "used_slots b2 = {0, 1}"
  shows "\<exists>h0 b3 h1 b4. FH_Allocate (new_FileHeader junk) b2 128 = Inr (True, h0, b3) \<and> FH_Allocate (new_FileHeader junk) b3 200 = Inr (True, h1, b4) \<and>
    header_ok h0 \<and> header_ok h1 \<and> fh_numBytes h0 = 128 \<and> fh_numBytes h1 = 200 \<and> bitmap_ok b4 \<and> numBits b4 = 1024 \<and>
    used_slots b4 = int ` ({0, 1} \<union> set (secs h0) \<union> set (secs h1)) \<and> set (secs h0) \<inter> {0, 1} = {} \<and> set (secs h1) \<inter> {0, 1} = {} \<and>
    set (secs h0) \<inter> set (secs h1) = {} \<and> 960 \<le> free_slots b4"
proof -
  have f2: "free_slots b2 = 1022" using free_slots_card [OF b2(1)] b2(2,3) by simp
  then obtain h0 b3 where h0: "FH_Allocate (new_FileHeader junk) b2 128 = Inr (True, h0, b3)" "header_ok h0" "fh_numBytes h0 = 128" "bitmap_ok b3"
      "numBits b3 = 1024" "used_slots b3 = used_slots b2 \<union> int ` set (secs h0)" "int ` set (secs h0) \<inter> used_slots b2 = {}"
    using FH_Allocate_ok [OF b2(1,2) _ _ new_FileHeader_ok, of 128 junk] by (auto simp: nachos_consts sectors_for_def)
  have c3: "card (used_slots b3) \<le> 32"
    using card_Un_le [of "used_slots b2" "int ` set (secs h0)"] h0(6) b2(3) card_secs [OF h0(2)] by simp
  then have "free_slots b3 \<ge> 900" using free_slots_card [OF h0(4)] h0(5) by simp
  then obtain h1 b4 where h1: "FH_Allocate (new_FileHeader junk) b3 200 = Inr (True, h1, b4)" "header_ok h1" "fh_numBytes h1 = 200" "bitmap_ok b4"
      "numBits b4 = 1024" "used_slots b4 = used_slots b3 \<union> int ` set (secs h1)" "int ` set (secs h1) \<inter> used_slots b3 = {}"
    using FH_Allocate_ok [OF h0(4,5) _ _ new_FileHeader_ok, of 200 junk] by (auto simp: nachos_consts sectors_for_def)
  have "card (used_slots b4) \<le> 62" using card_Un_le [of "used_slots b3" "int ` set (secs h1)"] h1(6) c3 card_secs [OF h1(2)] by simp
  then have "960 \<le> free_slots b4" using free_slots_card [OF h1(4)] h1(5) by simp
  moreover have "used_slots b4 = int ` ({0, 1} \<union> set (secs h0) \<union> set (secs h1))" using h1(6) h0(6) b2(3) by (simp add: image_Un)
  moreover have "set (secs h0) \<inter> {0, 1} = {}" "set (secs h1) \<inter> {0, 1} = {}" "set (secs h0) \<inter> set (secs h1) = {}"
    using h0(6,7) h1(7) b2(3) by auto
  ultimately show ?thesis using h0(1-3) h1(1-5) by blast
qed

text \<open>A disk with two good headers, a bitmap that marks their sectors and an empty directory is a good file system.\<close>

lemma fs_ok_fresh:
  assumes D: "length D = 131072" "hdr_at D 0 = h0" "hdr_at D 1 = h1" "file_bytes D h0 = words_bytes (bm_map bm)" "file_bytes D h1 = table_bytes T"
    and h: "header_ok h0" "header_ok h1" "fh_numBytes h0 = 128" "fh_numBytes h1 = 200"
    and bm: "bitmap_ok bm" "numBits bm = 1024" "used_slots bm = int ` ({0, 1} \<union> set (secs h0) \<union> set (secs h1))"
    and dj: "set (secs h0) \<inter> {0, 1} = {}" "set (secs h1) \<inter> {0, 1} = {}" "set (secs h0) \<inter> set (secs h1) = {}"
    and T: "dir_ok \<lparr>tableSize = 10, dir_table = T\<rparr>" "used_entries T = []"
  shows "fs_ok D" "fs_files D = Map.empty" "fs_bitmap D = bm" "fs_table D = T"
proof -
  show t: "fs_table D = T" using D(3,5) T(1) bytes_table_bytes [of T] by (simp add: fs_table_def dir_ok_def)
  have m: "fs_map D = Map.empty" using t T(2) by (simp add: fs_map_def dir_map_def)
  then show "fs_files D = Map.empty" by (auto simp: fs_files_def)
  have w: "numWords bm = 32" using bm(1,2) by (simp add: bitmap_ok_def divRoundUp_nonneg nachos_consts)
  show b: "fs_bitmap D = bm" using D(2,4) bm(2) w by (cases bm) (simp add: fs_bitmap_def)
  have r: "roots (fs_map D) = {0, 1}" by (simp add: m roots_def)
  have ow: "own D 0 = insert 0 (set (secs h0))" "own D 1 = insert 1 (set (secs h1))" using D(2,3) by (simp_all add: own_def)
  have "own D 0 \<inter> own D 1 = {}" using dj unfolding ow by auto
  moreover have "0 \<notin> set (secs (hdr_at D 0))" "1 \<notin> set (secs (hdr_at D 1))" unfolding D(2,3) using dj(1,2) by auto
  moreover have "header_ok (hdr_at D 0)" "header_ok (hdr_at D 1)" unfolding D(2,3) by (rule h)+
  ultimately have "files_ok D (fs_map D)" unfolding files_ok_def r by (simp add: m Int_commute)
  moreover have "(\<Union>n \<in> roots (fs_map D). own D n) = {0, 1} \<union> set (secs h0) \<union> set (secs h1)" unfolding r using ow by auto
  ultimately show "fs_ok D" using D(1-3) h(3,4) t T(1) b bm(3) by (simp add: fs_ok_def)
qed

context sector_disk
begin

lemma new_DiskFileSystem_format:
  assumes "ok s"
  shows "\<exists>fs s'. new_DiskFileSystem d junk True s = Inr (fs, s') \<and> ok s' \<and> fs_ok (content s') \<and> fs_handles fs (content s') \<and>
    fs_files (content s') = Map.empty \<and> 960 \<le> free_slots (fs_bitmap (content s')) \<and> used_entries (fs_table (content s')) = []"
proof -
  let ?dir = "new_Directory junk 10"
  obtain b0 b1 b2 where b: "new_Bitmap 1024 = Inr b0" "Mark b0 0 = Inr b1" "Mark b1 1 = Inr b2"
    and b2: "bitmap_ok b2" "numBits b2 = 1024" "used_slots b2 = {0, 1}" using format_bitmap by blast
  obtain h0 b3 h1 b4 where a: "FH_Allocate (new_FileHeader junk) b2 128 = Inr (True, h0, b3)" "FH_Allocate (new_FileHeader junk) b3 200 = Inr (True, h1, b4)"
    and h: "header_ok h0" "header_ok h1" "fh_numBytes h0 = 128" "fh_numBytes h1 = 200" and b4: "bitmap_ok b4" "numBits b4 = 1024"
      "used_slots b4 = int ` ({0, 1} \<union> set (secs h0) \<union> set (secs h1))"
    and dj: "set (secs h0) \<inter> {0, 1} = {}" "set (secs h1) \<inter> {0, 1} = {}" "set (secs h0) \<inter> set (secs h1) = {}"
    and fr: "960 \<le> free_slots b4"
    using format_headers [OF b2, of junk] by (elim exE conjE) (rule that; assumption)
  obtain s1 where s1: "FH_WriteBack d h0 0 s = Inr s1" "ok s1" "hdr_at (content s1) 0 = h0" using write_header [OF assms _ h(1), of 0] by auto
  obtain s2 where s2: "FH_WriteBack d h1 1 s1 = Inr s2" "ok s2" "same_on (- {1}) (content s1) (content s2)" "hdr_at (content s2) 1 = h1"
    using write_header [OF s1(2) _ h(2), of 1] by auto
  have h02: "hdr_at (content s2) 0 = h0" using same_on_sector [OF s2(3), of 0] s1(3) by (simp add: hdr_at_def)
  obtain s3 where s3: "FH_FetchFrom d 0 s2 = Inr (h0, s3)" "ok s3" "content s3 = content s2" using fetch_header [OF s2(2), of 0] h02 by auto
  obtain s4 where s4: "FH_FetchFrom d 1 s3 = Inr (h1, s4)" "ok s4" "content s4 = content s2" using fetch_header [OF s3(2), of 1] s3(3) s2(4) by auto
  let ?m = "\<lparr>df_hdr = h0, seekPosition = 0\<rparr>" let ?f = "\<lparr>df_hdr = h1, seekPosition = 0\<rparr>"
  obtain s5 where s5: "PB_WriteBack d junk ?m b4 s4 = Inr s5" "ok s5" "file_bytes (content s5) h0 = words_bytes (bm_map b4)"
      "\<forall>k < 131072. k div 128 \<notin> set (secs h0) \<longrightarrow> content s5 ! k = content s4 ! k"
    using PB_WriteBack_ok [OF s4(2), of ?m b4 junk] h(1,3) b4(1,2) by auto
  obtain s6 where s6: "Dir_WriteBack d junk ?f ?dir s5 = Inr s6" "ok s6" "file_bytes (content s6) h1 = table_bytes (dir_table ?dir)"
      "\<forall>k < 131072. k div 128 \<notin> set (secs h1) \<longrightarrow> content s6 ! k = content s5 ! k"
    using Dir_WriteBack_ok [OF s5(2), of ?f ?dir junk] h(2,4) new_Directory_ok(1,2) [of junk] by auto
  note f5 = frame_same_on [OF s4(2) s5(2,4)] and f6 = frame_same_on [OF s5(2) s6(2,4)]
  have "same_on {0, 1} (content s2) (content s6)"
    using same_on_trans [OF same_on_mono [OF f5] same_on_mono [OF f6], of "{0, 1}"] dj s4(3) by auto
  then have "sector_of (content s6) 0 = sector_of (content s2) 0" "sector_of (content s6) 1 = sector_of (content s2) 1"
    by (simp_all add: same_on_sector)
  then have hd: "hdr_at (content s6) 0 = h0" "hdr_at (content s6) 1 = h1" using h02 s2(4) by (simp_all add: hdr_at_def)
  have "set (secs h0) \<subseteq> - set (secs h1)" using dj(3) by (simp only: disjoint_eq_subset_Compl)
  then have fb: "file_bytes (content s6) h0 = words_bytes (bm_map b4)" using same_on_bytes [OF f6 _ h(1)] s5(3) by simp
  have T: "dir_ok \<lparr>tableSize = 10, dir_table = dir_table ?dir\<rparr>" using new_Directory_ok(1,2) [of junk] by (cases ?dir) simp
  note r = fs_ok_fresh [OF size_law [OF s6(2)] hd fb s6(3) h b4 dj T new_Directory_ok(4)]
  have "new_DiskFileSystem d junk True s = Inr (\<lparr>freeMapFile = ?m, directoryFile = ?f\<rparr>, s6)"
    using b a s1(1) s2(1) s3(1) s4(1) s5(1) s6(1) by (simp add: new_DiskFileSystem_def new_DiskFile_def nachos_consts sdiv_nonneg)
  then show ?thesis using s6(2) r hd fr new_Directory_ok(4) [of junk] by (auto simp: fs_handles_def)
qed

lemma new_DiskFileSystem_mount:
  assumes "ok s"
  shows "\<exists>fs s'. new_DiskFileSystem d junk False s = Inr (fs, s') \<and> ok s' \<and> content s' = content s \<and> fs_handles fs (content s')"
proof -
  obtain s1 where s1: "FH_FetchFrom d 0 s = Inr (hdr_at (content s) 0, s1)" "ok s1" "content s1 = content s" using fetch_header [OF assms, of 0] by auto
  obtain s2 where s2: "FH_FetchFrom d 1 s1 = Inr (hdr_at (content s) 1, s2)" "ok s2" "content s2 = content s" using fetch_header [OF s1(2), of 1] s1(3) by auto
  then show ?thesis using s1 by (auto simp: new_DiskFileSystem_def new_DiskFile_def nachos_consts fs_handles_def)
qed

end

section \<open>Properties\<close>

text \<open>A mounted file system on the simulated disk.\<close>

definition mounted :: "'h unix \<Rightarrow> ('h \<Rightarrow> int \<Rightarrow> (byte list \<times> nat) option) \<Rightarrow> DiskFileSystem \<Rightarrow> 'h dstate \<Rightarrow> bool" where
  "mounted u file fs s \<longleftrightarrow> disk_ready u file s \<and> fs_ok (disk_content file s) \<and> fs_handles fs (disk_content file s)"

abbreviation files_of :: "('h \<Rightarrow> int \<Rightarrow> (byte list \<times> nat) option) \<Rightarrow> 'h dstate \<Rightarrow> byte list \<Rightarrow> byte list option" where
  "files_of file s \<equiv> fs_files (disk_content file s)"

text \<open>
  C36: Formatting makes an empty file system: whatever the disk held and whatever uninitialised memory holds, the
  constructor with \<^verbatim>\<open>format\<close> set returns, and the disk then has a well-formed file system without files: the headers of
  the bitmap and of the directory are in sectors 0 and 1, the bitmap marks exactly the sectors of these two files, and the
  directory is empty.
\<close>
theorem format_makes_empty_file_system:
  assumes "disk_ready u file s"
  shows "\<exists>fs s'. new_DiskFileSystem (synchDisk u) junk True s = Inr (fs, s') \<and> mounted u file fs s' \<and> files_of file s' = Map.empty"
proof -
  from sd.new_DiskFileSystem_format [OF assms, of junk]
  obtain fs s' where "new_DiskFileSystem (synchDisk u) junk True s = Inr (fs, s')" "disk_ready u file s'" "fs_ok (disk_content file s')"
    "fs_handles fs (disk_content file s')" "files_of file s' = Map.empty" by blast
  then show ?thesis by (auto simp: mounted_def)
qed

text \<open>
  C9: \<^verbatim>\<open>Create\<close> refines the addition of a name to a finite map. For a size up to \<^verbatim>\<open>MaxFileSize\<close> it returns TRUE exactly
  when the name is new, the directory has a free entry and there are free sectors for the header and all data blocks. Then
  the new file has the size asked for and every other file keeps its content; when it returns FALSE the disk is
  unchanged, so that no sector is lost. In both cases the file system is well-formed afterwards: files share no sectors and
  the bitmap marks exactly the sectors in use.
\<close>
theorem FS_Create_adds_file:
  assumes "mounted u file fs s" "0 \<le> sz" "sz \<le> MaxFileSize"
  shows "\<exists>s'. FS_Create (synchDisk u) junk fs name sz s = Inr (can_create (disk_content file s) (name_key name) sz, s') \<and> mounted u file fs s' \<and>
    (if can_create (disk_content file s) (name_key name) sz
     then \<exists>c. length c = nat sz \<and> files_of file s' = (files_of file s)(name_key name \<mapsto> c)
     else disk_content file s' = disk_content file s)"
proof -
  have m: "disk_ready u file s" "fs_ok (disk_content file s)" "fs_handles fs (disk_content file s)" using assms(1) by (simp_all add: mounted_def)
  from sd.FS_Create_ok [OF m assms(2,3), of junk name] obtain s' where
    "FS_Create (synchDisk u) junk fs name sz s = Inr (can_create (disk_content file s) (name_key name) sz, s')" "mounted u file fs s'"
    "if can_create (disk_content file s) (name_key name) sz
     then \<exists>c. length c = nat sz \<and> files_of file s' = (files_of file s)(name_key name \<mapsto> c)
     else disk_content file s' = disk_content file s" unfolding mounted_def by blast
  then show ?thesis by blast
qed

text \<open>
  C10: \<^verbatim>\<open>Remove\<close> returns TRUE exactly when the name exists; afterwards that name is gone, every other file keeps its content,
  and the file system is well-formed, which means that the header and data sectors of the removed file, and no others, are
  free again. None of the assertions of \<^verbatim>\<open>Deallocate\<close> and \<^verbatim>\<open>Clear\<close> fails.
\<close>
theorem FS_Remove_deletes_file:
  assumes "mounted u file fs s"
  shows "\<exists>s'. FS_Remove (synchDisk u) junk fs name s = Inr (files_of file s (name_key name) \<noteq> None, s') \<and> mounted u file fs s' \<and>
    files_of file s' = (files_of file s)(name_key name := None)"
proof -
  have m: "disk_ready u file s" "fs_ok (disk_content file s)" "fs_handles fs (disk_content file s)" using assms(1) by (simp_all add: mounted_def)
  from sd.FS_Remove_ok [OF m, of junk name] show ?thesis unfolding mounted_def by blast
qed

text \<open>
  C11: An open file is a byte array of fixed length. \<^verbatim>\<open>ReadAt\<close> delivers the bytes from the position on, clipped at the end of the
  file; \<^verbatim>\<open>WriteAt\<close> stores the bytes given, clipped there too, although it moves whole sectors through a buffer of
  uninitialised memory: the other bytes of the file and every other file keep their contents, and the file system stays
  well-formed. The sum of position and length has to fit an \<^verbatim>\<open>int\<close>; beyond that the source overflows and clips nothing.
\<close>
theorem open_disk_file_is_byte_array:
  assumes "mounted u file fs s" "opened f k (disk_content file s)" "files_of file s k = Some c" "0 \<le> pos" "n \<le> int (length buf)" "pos + n < 2 ^ 31"
  shows "(\<exists>s'. DF_ReadAt (synchDisk u) f n pos s =
        Inr ((int (length (take (nat n) (drop (nat pos) c))), take (nat n) (drop (nat pos) c)), s') \<and>
      mounted u file fs s' \<and> disk_content file s' = disk_content file s) \<and>
    (\<exists>s' bs. bs = take (length c - nat pos) (take (nat n) buf) \<and> DF_WriteAt (synchDisk u) junk f buf n pos s = Inr (int (length bs), s') \<and>
      mounted u file fs s' \<and> opened f k (disk_content file s') \<and> files_of file s' = (files_of file s)(k \<mapsto> patch c (nat pos) bs))"
proof -
  have m: "disk_ready u file s" "fs_ok (disk_content file s)" "fs_handles fs (disk_content file s)" using assms(1) by (simp_all add: mounted_def)
  show ?thesis
    using sd.opened_read [OF m(1,2) assms(2,4,6,3)] sd.opened_write [OF m assms(2,4,5,6,3), of junk] m unfolding mounted_def by metis
qed

text \<open>
  C35: What is written to a file survives a restart: open a file, write into it, mount the disk again without formatting,
  open the file by its name and read at the same position: the bytes written come back.
\<close>
theorem write_remount_read:
  assumes "mounted u file fs s" "files_of file s (name_key name) = Some c" "0 \<le> pos" "nat pos + length bs \<le> length c"
  shows "\<exists>f s1 s2 fs' s3 f' s4 s5. FS_Open (synchDisk u) junk fs name s = Inr (Some f, s1) \<and>
    DF_WriteAt (synchDisk u) junk f bs (int (length bs)) pos s1 = Inr (int (length bs), s2) \<and>
    new_DiskFileSystem (synchDisk u) junk False s2 = Inr (fs', s3) \<and> FS_Open (synchDisk u) junk fs' name s3 = Inr (Some f', s4) \<and>
    DF_ReadAt (synchDisk u) f' (int (length bs)) pos s4 = Inr ((int (length bs), bs), s5)"
proof -
  let ?k = "name_key name"
  have m: "disk_ready u file s" "fs_ok (disk_content file s)" "fs_handles fs (disk_content file s)" using assms(1) by (simp_all add: mounted_def)
  obtain s1 f where s1: "FS_Open (synchDisk u) junk fs name s = Inr (Some f, s1)" "disk_ready u file s1" "disk_content file s1 = disk_content file s"
      "opened f ?k (disk_content file s)" using sd.FS_Open_ok [OF m, of name junk] assms(2) by auto
  have le: "take (length c - nat pos) (take (nat (int (length bs))) bs) = bs" using assms(4) by simp
  have sm: "pos + int (length bs) < 2 ^ 31" using opened_small [OF m(2) s1(4) assms(2)] assms(3,4) by simp
  obtain s2 where s2: "DF_WriteAt (synchDisk u) junk f bs (int (length bs)) pos s1 = Inr (int (length bs), s2)" "disk_ready u file s2"
      "fs_ok (disk_content file s2)" "files_of file s2 = (files_of file s)(?k \<mapsto> patch c (nat pos) bs)"
    using sd.opened_write [OF s1(2) m(2) [folded s1(3)] m(3) [folded s1(3)] s1(4) [folded s1(3)] assms(3) order_refl sm
        assms(2) [folded s1(3)], of junk] s1(3) le by auto
  obtain fs' s3 where s3: "new_DiskFileSystem (synchDisk u) junk False s2 = Inr (fs', s3)" "disk_ready u file s3" "disk_content file s3 = disk_content file s2"
      "fs_handles fs' (disk_content file s3)" using sd.new_DiskFileSystem_mount [OF s2(2), of junk] by auto
  have k3: "files_of file s3 ?k = Some (patch c (nat pos) bs)" using s2(4) s3(3) by simp
  have ok3: "fs_ok (disk_content file s3)" using s2(3) s3(3) by simp
  obtain s4 f' where s4: "FS_Open (synchDisk u) junk fs' name s3 = Inr (Some f', s4)" "disk_ready u file s4" "disk_content file s4 = disk_content file s3"
      "opened f' ?k (disk_content file s4)" using sd.FS_Open_ok [OF s3(2) ok3 s3(4), of name junk] k3 by auto
  have ok4: "fs_ok (disk_content file s4)" and k4: "files_of file s4 ?k = Some (patch c (nat pos) bs)" using ok3 k3 s4(3) by simp_all
  have "take (nat (int (length bs))) (drop (nat pos) (patch c (nat pos) bs)) = bs" using take_drop_patch [OF assms(4)] by simp
  then obtain s5 where "DF_ReadAt (synchDisk u) f' (int (length bs)) pos s4 = Inr ((int (length bs), bs), s5)"
    using sd.opened_read [OF s4(2) ok4 s4(4) assms(3) sm k4] by auto
  then show ?thesis using s1(1) s2(1) s3(1) s4(1) by blast
qed

text \<open>
  \<^verbatim>\<open>Create\<close> does not check the size against \<^verbatim>\<open>MaxFileSize\<close>: for a larger size, whenever the name is new, the directory has
  room and enough sectors are free, \<^verbatim>\<open>FileHeader::Allocate\<close> stores past the end of the array \<^verbatim>\<open>dataSectors\<close> of the header.
\<close>
theorem FS_Create_too_large_overflows:
  assumes "mounted u file fs s" "MaxFileSize < sz" "can_create (disk_content file s) (name_key name) sz"
  shows "FS_Create (synchDisk u) junk fs name sz s = Inl OutOfBounds"
proof -
  have m: "disk_ready u file s" "fs_ok (disk_content file s)" "fs_handles fs (disk_content file s)" using assms(1) by (simp_all add: mounted_def)
  show ?thesis by (rule sd.FS_Create_overflow [OF m assms(2,3)])
qed

section \<open>Witnesses\<close>

abbreviation zero_junk :: "nat \<Rightarrow> byte" where
  "zero_junk \<equiv> (\<lambda>_. 0)"

text \<open>The disk of zero bytes, formatted, and with one file of 300 bytes on it.\<close>

lemma formatted_zero_disk:
  "\<exists>fs s. new_DiskFileSystem (synchDisk one_file) zero_junk True zero_disk = Inr (fs, s) \<and> mounted one_file one_fs fs s \<and>
     files_of one_fs s = Map.empty \<and> (sz \<le> 100000 \<longrightarrow> can_create (disk_content one_fs s) k sz)"
proof -
  from sd.new_DiskFileSystem_format [OF zero_disk_ready, of zero_junk]
  obtain fs s where "new_DiskFileSystem (synchDisk one_file) zero_junk True zero_disk = Inr (fs, s)" "mounted one_file one_fs fs s"
      "files_of one_fs s = Map.empty" "960 \<le> free_slots (fs_bitmap (disk_content one_fs s))" "used_entries (fs_table (disk_content one_fs s)) = []"
    unfolding mounted_def by blast
  moreover have "sectors_for sz < 960" if "sz \<le> 100000"
  proof -
    have "(sz + 127) div 128 < 960" using that by linarith
    then show ?thesis by (simp add: sectors_for_def)
  qed
  ultimately show ?thesis by (auto simp: can_create_def)
qed

lemma one_file_created:
  "\<exists>fs s c. mounted one_file one_fs fs s \<and> length c = 300 \<and> files_of one_fs s (name_key [97]) = Some c"
proof -
  obtain fs s where m: "mounted one_file one_fs fs s" "can_create (disk_content one_fs s) (name_key [97]) 300"
    using formatted_zero_disk [of 300 "name_key [97]"] by auto
  then have d: "disk_ready one_file one_fs s" "fs_ok (disk_content one_fs s)" "fs_handles fs (disk_content one_fs s)" by (simp_all add: mounted_def)
  from sd.FS_Create_ok [OF d, of 300 zero_junk "[97]"] m(2) obtain s' c where "mounted one_file one_fs fs s'" "length c = 300"
      "files_of one_fs s' = (files_of one_fs s)(name_key [97] \<mapsto> c)" by (auto simp: mounted_def nachos_consts)
  then show ?thesis by fastforce
qed

theorem format_makes_empty_file_system_witness:
  "\<exists>fs s'. new_DiskFileSystem (synchDisk one_file) zero_junk True zero_disk = Inr (fs, s') \<and> mounted one_file one_fs fs s' \<and> files_of one_fs s' = Map.empty"
  by (rule format_makes_empty_file_system [OF zero_disk_ready])

theorem FS_Create_adds_file_witness:
  "\<exists>fs s s' c. FS_Create (synchDisk one_file) zero_junk fs [97] 300 s = Inr (True, s') \<and> mounted one_file one_fs fs s' \<and> length c = 300 \<and>
     files_of one_fs s' = [name_key [97] \<mapsto> c]"
proof -
  obtain fs s where m: "mounted one_file one_fs fs s" "can_create (disk_content one_fs s) (name_key [97]) 300" "files_of one_fs s = Map.empty"
    using formatted_zero_disk [of 300 "name_key [97]"] by auto
  from FS_Create_adds_file [OF m(1), of 300 zero_junk "[97]"] m(2,3) show ?thesis by (fastforce simp: nachos_consts)
qed

theorem FS_Remove_deletes_file_witness:
  "\<exists>fs s s'. FS_Remove (synchDisk one_file) zero_junk fs [97] s = Inr (True, s') \<and> mounted one_file one_fs fs s' \<and>
     files_of one_fs s' (name_key [97]) = None"
proof -
  obtain fs s c where m: "mounted one_file one_fs fs s" "files_of one_fs s (name_key [97]) = Some c" using one_file_created by blast
  from FS_Remove_deletes_file [OF m(1), of zero_junk "[97]"] m(2) show ?thesis by fastforce
qed

theorem open_disk_file_is_byte_array_witness:
  "\<exists>fs f s s' c. DF_WriteAt (synchDisk one_file) zero_junk f [1, 2, 3] 3 126 s = Inr (3, s') \<and> mounted one_file one_fs fs s' \<and>
     files_of one_fs s' (name_key [97]) = Some (patch c 126 [1, 2, 3])"
proof -
  obtain fs s c where m: "mounted one_file one_fs fs s" "length c = 300" "files_of one_fs s (name_key [97]) = Some c" using one_file_created by blast
  then have d: "disk_ready one_file one_fs s" "fs_ok (disk_content one_fs s)" "fs_handles fs (disk_content one_fs s)" by (simp_all add: mounted_def)
  obtain f where f: "opened f (name_key [97]) (disk_content one_fs s)" using sd.FS_Open_ok [OF d, of "[97]" zero_junk] m(3) by auto
  from open_disk_file_is_byte_array [OF m(1) f m(3), of 126 3 "[1, 2, 3]" zero_junk] m(2) show ?thesis by fastforce
qed

theorem write_remount_read_witness:
  "\<exists>fs s f s1 s2 fs' s3 f' s4 s5. FS_Open (synchDisk one_file) zero_junk fs [97] s = Inr (Some f, s1) \<and>
    DF_WriteAt (synchDisk one_file) zero_junk f [7, 8] (int (length [7 :: byte, 8])) 127 s1 = Inr (int (length [7 :: byte, 8]), s2) \<and>
    new_DiskFileSystem (synchDisk one_file) zero_junk False s2 = Inr (fs', s3) \<and> FS_Open (synchDisk one_file) zero_junk fs' [97] s3 = Inr (Some f', s4) \<and>
    DF_ReadAt (synchDisk one_file) f' (int (length [7 :: byte, 8])) 127 s4 = Inr ((int (length [7 :: byte, 8]), [7, 8]), s5)"
proof -
  obtain fs s c where m: "mounted one_file one_fs fs s" "length c = 300" "files_of one_fs s (name_key [97]) = Some c" using one_file_created by blast
  have "0 \<le> (127 :: int)" "nat 127 + length [7 :: byte, 8] \<le> length c" using m(2) by simp_all
  from write_remount_read [OF m(1,3) this, of zero_junk] show ?thesis by blast
qed

theorem FS_Create_too_large_overflows_witness:
  "\<exists>fs s. mounted one_file one_fs fs s \<and> FS_Create (synchDisk one_file) zero_junk fs [98] 4000 s = Inl OutOfBounds"
proof -
  obtain fs s where m: "mounted one_file one_fs fs s" "can_create (disk_content one_fs s) (name_key [98]) 4000"
    using formatted_zero_disk [of 4000 "name_key [98]"] by auto
  have "MaxFileSize < 4000" by (simp add: nachos_consts)
  from FS_Create_too_large_overflows [OF m(1) this m(2), of zero_junk] show ?thesis using m(1) by blast
qed

end
