(* ===== verification/Network.thy ===== *)
theory Network
  imports Complex_Main Lib_Selftest Host_Files
begin

text \<open>
  The simulated network (\<^verbatim>\<open>machine/network.h\<close>, \<^verbatim>\<open>machine/network.cc\<close>) over the datagram sockets of \<^verbatim>\<open>lib/sysdep.cc\<close>. Each
  Nachos machine is a UNIX process with a socket file named after its \<^verbatim>\<open>hostName\<close>. The UNIX calls are a
  parameter, the record \<open>datagrams\<close>; its functions take the number of the calling machine, since file descriptors
  belong to a process. \<open>datagrams_ok\<close> collects the documented behaviour of UNIX-domain datagram sockets: they keep message
  boundaries and order, and a call that fails changes nothing. The product of two doubles is a parameter as well.
\<close>

section \<open>Packets\<close>

definition MaxWireSize :: nat where "MaxWireSize = 64"
definition MaxPacketSize :: nat where "MaxPacketSize = MaxWireSize - 12"

record PacketHeader =
  ph_to :: "32 word"
  ph_from :: "32 word"
  ph_length :: "32 word"

definition word_at :: "byte list \<Rightarrow> nat \<Rightarrow> 32 word" where
  "word_at bs i = bytes_word (bs ! i) (bs ! (i + 1)) (bs ! (i + 2)) (bs ! (i + 3))"

definition packet_bytes :: "PacketHeader \<Rightarrow> byte list" where
  "packet_bytes h = word_bytes (ph_to h) @ word_bytes (ph_from h) @ word_bytes (ph_length h)"

definition bytes_packet :: "byte list \<Rightarrow> PacketHeader" where
  "bytes_packet bs = \<lparr>ph_to = word_at bs 0, ph_from = word_at bs 4, ph_length = word_at bs 8\<rparr>"

text \<open>\<^verbatim>\<open>bcopy(src + i, dst + j, n)\<close>.\<close>

definition bcopy :: "byte list \<Rightarrow> nat \<Rightarrow> byte list \<Rightarrow> nat \<Rightarrow> nat \<Rightarrow> byte list result" where
  "bcopy src i dst j n =
     (if i + n \<le> length src \<and> j + n \<le> length dst then Inr (take j dst @ take n (drop i src) @ drop (j + n) dst)
      else Inl OutOfBounds)"

section \<open>Sockets\<close>

text \<open>\<open>g_new\<close> is what the memory from \<^verbatim>\<open>new char[n]\<close> holds, \<open>g_times\<close> the product of two doubles, \<open>g_rand\<close> is \<^verbatim>\<open>rand\<close>.\<close>

record 'h datagrams =
  g_socket :: "32 word \<Rightarrow> 'h \<Rightarrow> int \<times> 'h"
  g_bind :: "32 word \<Rightarrow> int \<Rightarrow> string \<Rightarrow> 'h \<Rightarrow> int \<times> 'h"
  g_unlink :: "string \<Rightarrow> 'h \<Rightarrow> int \<times> 'h"
  g_close :: "32 word \<Rightarrow> int \<Rightarrow> 'h \<Rightarrow> int \<times> 'h"
  g_select :: "32 word \<Rightarrow> int \<Rightarrow> 'h \<Rightarrow> int \<times> 'h"
  g_recvfrom :: "32 word \<Rightarrow> int \<Rightarrow> nat \<Rightarrow> 'h \<Rightarrow> (int \<times> byte list) \<times> 'h"
  g_sendto :: "32 word \<Rightarrow> int \<Rightarrow> byte list \<Rightarrow> string \<Rightarrow> 'h \<Rightarrow> int \<times> 'h"
  g_rand :: "32 word \<Rightarrow> 'h \<Rightarrow> nat \<times> 'h"
  g_new :: "32 word \<Rightarrow> nat \<Rightarrow> 'h \<Rightarrow> byte list"
  g_times :: "rat \<Rightarrow> rat \<Rightarrow> rat"

definition OpenSocket :: "'h datagrams \<Rightarrow> 32 word \<Rightarrow> 'h \<Rightarrow> (int \<times> 'h) result" where
  "OpenSocket g m h = (let (sockID, h1) = g_socket g m h in rbind (rassert (sockID \<ge> 0)) (\<lambda>_. Inr (sockID, h1)))"

definition AssignNameToSocket :: "'h datagrams \<Rightarrow> 32 word \<Rightarrow> string \<Rightarrow> int \<Rightarrow> 'h \<Rightarrow> 'h result" where
  "AssignNameToSocket g m socketName sockID h =
     (let (_, h1) = g_unlink g socketName h; (retVal, h2) = g_bind g m sockID socketName h1
      in rbind (rassert (retVal \<ge> 0)) (\<lambda>_. Inr h2))"

definition CloseSocket :: "'h datagrams \<Rightarrow> 32 word \<Rightarrow> int \<Rightarrow> 'h \<Rightarrow> 'h" where
  "CloseSocket g m sockID h = snd (g_close g m sockID h)"

definition DeAssignNameToSocket :: "'h datagrams \<Rightarrow> string \<Rightarrow> 'h \<Rightarrow> 'h" where
  "DeAssignNameToSocket g socketName h = snd (g_unlink g socketName h)"

definition PollSocket :: "'h datagrams \<Rightarrow> 32 word \<Rightarrow> int \<Rightarrow> 'h \<Rightarrow> (bool \<times> 'h) result" where
  "PollSocket g m sockID h = PollFile (g_select g m) sockID h"

definition ReadFromSocket :: "'h datagrams \<Rightarrow> 32 word \<Rightarrow> int \<Rightarrow> nat \<Rightarrow> 'h \<Rightarrow> (byte list \<times> 'h) result" where
  "ReadFromSocket g m sockID packetSize h =
     (let ((retVal, buffer), h1) = g_recvfrom g m sockID packetSize h
      in rbind (rassert (retVal = int packetSize)) (\<lambda>_. Inr (buffer, h1)))"

text \<open>One round of the loop of \<^verbatim>\<open>SendToSocket\<close>; the loop makes at most ten.\<close>

definition SendToSocket_try :: "'h datagrams \<Rightarrow> 32 word \<Rightarrow> int \<Rightarrow> byte list \<Rightarrow> string \<Rightarrow> 'h \<Rightarrow> (bool \<times> 'h) result" where
  "SendToSocket_try g m sockID buffer toName h =
     (let (retVal, h1) = g_sendto g m sockID buffer toName h in
      if retVal = int (length buffer) then Inr (True, h1) else rbind (rassert (retVal < 0)) (\<lambda>_. Inr (False, h1)))"

section \<open>Socket names\<close>

text \<open>The conversion \<^verbatim>\<open>%d\<close> of \<^verbatim>\<open>sprintf\<close>.\<close>

fun decimal :: "nat \<Rightarrow> string" where
  "decimal n = (if n < 10 then [char_of (48 + n)] else decimal (n div 10) @ [char_of (48 + n mod 10)])"

declare decimal.simps [simp del]

definition show_int :: "int \<Rightarrow> string" where
  "show_int i = (if i < 0 then CHR ''-'' # decimal (nat (- i)) else decimal (nat i))"

definition SocketName :: "32 word \<Rightarrow> string" where
  "SocketName m = ''SOCKET_'' @ show_int (sint m)"

section \<open>Devices\<close>

record NetworkInput =
  ni_sock :: int
  ni_sockName :: string
  packetAvail :: bool
  inHdr :: PacketHeader
  inbox :: "byte list"

record NetworkOutput =
  no_sock :: int
  chanceToWork :: rat
  sendBusy :: bool

definition new_NetworkInput :: "'h datagrams \<Rightarrow> 32 word \<Rightarrow> 'h \<Rightarrow> (NetworkInput \<times> 'h) result" where
  "new_NetworkInput g m h =
     rbind (OpenSocket g m h) (\<lambda>(sock, h1).
     rbind (AssignNameToSocket g m (SocketName m) sock h1) (\<lambda>h2.
     Inr (\<lparr>ni_sock = sock, ni_sockName = SocketName m, packetAvail = False,
       inHdr = (bytes_packet (g_new g m 12 h))\<lparr>ph_length := 0\<rparr>, inbox = g_new g m MaxPacketSize h\<rparr>, h2)))"

definition delete_NetworkInput :: "'h datagrams \<Rightarrow> 32 word \<Rightarrow> NetworkInput \<Rightarrow> 'h \<Rightarrow> 'h" where
  "delete_NetworkInput g m ni h = DeAssignNameToSocket g (ni_sockName ni) (CloseSocket g m (ni_sock ni) h)"

text \<open>
  \<^verbatim>\<open>NetworkInput::CallBack\<close> after it has scheduled the next poll: whether a packet has arrived, for which the post office is
  called.
\<close>

definition NetworkInput_CallBack ::
  "'h datagrams \<Rightarrow> 32 word \<Rightarrow> NetworkInput \<Rightarrow> 'h \<Rightarrow> (bool \<times> NetworkInput \<times> 'h) result" where
  "NetworkInput_CallBack g m ni h =
     (if ph_length (inHdr ni) \<noteq> 0 then Inr (False, ni, h)
      else rbind (PollSocket g m (ni_sock ni) h) (\<lambda>(avail, h1).
        if \<not> avail then Inr (False, ni, h1)
        else rbind (ReadFromSocket g m (ni_sock ni) MaxWireSize h1) (\<lambda>(buffer, h2).
          let hdr = bytes_packet buffer in
          rbind (rassert (ph_to hdr = m \<and> unat (ph_length hdr) \<le> MaxPacketSize)) (\<lambda>_.
          rbind (bcopy buffer 12 (inbox ni) 0 (unat (ph_length hdr))) (\<lambda>ib.
          Inr (True, ni\<lparr>inHdr := hdr, inbox := ib\<rparr>, h2))))))"

definition NetworkInput_Receive :: "NetworkInput \<Rightarrow> byte list \<Rightarrow> ((PacketHeader \<times> byte list) \<times> NetworkInput) result" where
  "NetworkInput_Receive ni data =
     (let hdr = inHdr ni; ni1 = ni\<lparr>inHdr := hdr\<lparr>ph_length := 0\<rparr>\<rparr> in
      if ph_length hdr \<noteq> 0
      then rbind (bcopy (inbox ni) 0 data 0 (unat (ph_length hdr))) (\<lambda>d. Inr ((hdr, d), ni1))
      else Inr ((hdr, data), ni1))"

definition new_NetworkOutput :: "'h datagrams \<Rightarrow> 32 word \<Rightarrow> rat \<Rightarrow> 'h \<Rightarrow> (NetworkOutput \<times> 'h) result" where
  "new_NetworkOutput g m reliability h =
     rbind (OpenSocket g m h) (\<lambda>(sock, h1).
     Inr (\<lparr>no_sock = sock, chanceToWork = (if reliability < 0 then 0 else if reliability > 1 then 1 else reliability),
       sendBusy = False\<rparr>, h1))"

definition delete_NetworkOutput :: "'h datagrams \<Rightarrow> 32 word \<Rightarrow> NetworkOutput \<Rightarrow> 'h \<Rightarrow> 'h" where
  "delete_NetworkOutput g m no h = CloseSocket g m (no_sock no) h"

definition NetworkOutput_CallBack :: "NetworkOutput \<Rightarrow> NetworkOutput" where
  "NetworkOutput_CallBack no = no\<lparr>sendBusy := False\<rparr>"

text \<open>
  \<^verbatim>\<open>NetworkOutput::Send\<close> up to \<^verbatim>\<open>SendToSocket\<close>: the buffer to send, or \<open>None\<close> for a packet the network loses. The
  interrupt it schedules belongs to the caller.
\<close>

definition NetworkOutput_Send ::
  "'h datagrams \<Rightarrow> 32 word \<Rightarrow> NetworkOutput \<Rightarrow> PacketHeader \<Rightarrow> byte list \<Rightarrow> 'h \<Rightarrow> (byte list option \<times> 'h) result" where
  "NetworkOutput_Send g m no hdr data h =
     rbind (rassert (\<not> sendBusy no \<and> unat (ph_length hdr) > 0 \<and> unat (ph_length hdr) \<le> MaxPacketSize \<and> ph_from hdr = m)) (\<lambda>_.
     let (r, h1) = g_rand g m h in
     if of_nat (r mod 100) \<ge> g_times g (chanceToWork no) 100 then Inr (None, h1)
     else rbind (bcopy (packet_bytes hdr) 0 (g_new g m MaxWireSize h1) 0 12) (\<lambda>b.
          rbind (bcopy data 0 b 12 (unat (ph_length hdr))) (\<lambda>b1. Inr (Some b1, h1))))"

section \<open>Byte layout\<close>

lemma bcopy_Inr_iff: "bcopy src i dst j n = Inr d \<longleftrightarrow>
  i + n \<le> length src \<and> j + n \<le> length dst \<and> d = take j dst @ take n (drop i src) @ drop (j + n) dst"
  by (auto simp: bcopy_def)

lemma word_at_append1: "i + 4 \<le> length xs \<Longrightarrow> word_at (xs @ ys) i = word_at xs i"
  by (simp add: word_at_def nth_append)

lemma word_at_append2: "length xs \<le> i \<Longrightarrow> word_at (xs @ ys) i = word_at ys (i - length xs)"
proof -
  assume "length xs \<le> i"
  then obtain j where "i = length xs + j" using le_Suc_ex by blast
  then show ?thesis unfolding word_at_def by (simp only: add.assoc nth_append_length_plus diff_add_inverse)
qed

lemma word_at_word_bytes [simp]: "word_at (word_bytes w @ ys) 0 = w"
  using bytes_word_bytes [of w] by (simp add: word_at_def nth_append numeral_2_eq_2 numeral_3_eq_3)

lemma length_packet_bytes [simp]: "length (packet_bytes h) = 12"
  by (simp add: packet_bytes_def)

lemma bytes_packet_bytes [simp]: "bytes_packet (packet_bytes h @ ys) = h"
  by (simp add: bytes_packet_def packet_bytes_def word_at_append2)


section \<open>Distinct machines have distinct sockets\<close>

lemma digit_char: "n < 10 \<Longrightarrow> digit (char_of (48 + n)) = int n"
  by (simp add: digit_def of_char_of)

lemma atoi_digits_append:
  "\<forall>c\<in>set xs. 0 \<le> digit c \<and> digit c \<le> 9 \<Longrightarrow> atoi_digits (xs @ ys) acc = atoi_digits ys (atoi_digits xs acc)"
  by (induction xs arbitrary: acc) auto

lemma digits_decimal: "\<forall>c\<in>set (decimal n). 0 \<le> digit c \<and> digit c \<le> 9"
proof (induction n rule: decimal.induct)
  case (1 n)
  show ?case
  proof (cases "n < 10")
    case True
    then show ?thesis by (simp add: decimal.simps [of n] digit_char)
  next
    case False
    then show ?thesis using 1 by (simp add: decimal.simps [of n] digit_char)
  qed
qed

lemma atoi_decimal: "atoi_digits (decimal n) 0 = int n"
proof (induction n rule: decimal.induct)
  case (1 n)
  show ?case
  proof (cases "n < 10")
    case True
    then show ?thesis by (simp add: decimal.simps [of n] digit_char)
  next
    case False
    have "n mod 10 \<le> 9" "10 * int (n div 10) + int (n mod 10) = int n" by presburger+
    with False show ?thesis using 1 digits_decimal [of "n div 10"]
      by (simp add: decimal.simps [of n] digit_char atoi_digits_append)
  qed
qed

lemma decimal_not_minus: "decimal n \<noteq> CHR ''-'' # cs"
  using digits_decimal [of n] by (auto simp: digit_def)

lemma decimal_inject: "decimal m = decimal n \<Longrightarrow> m = n"
  by (metis atoi_decimal of_nat_eq_iff)

lemma show_int_inject:
  assumes "show_int i = show_int j"
  shows "i = j"
proof -
  have "(i < 0) = (j < 0)"
    using assms decimal_not_minus [of "nat i"] decimal_not_minus [of "nat j"] decimal_not_minus [of "nat j", symmetric]
    by (auto simp: show_int_def split: if_splits)
  then show ?thesis
    using assms decimal_inject [of "nat (- i)" "nat (- j)"] decimal_inject [of "nat i" "nat j"]
    by (cases "i < 0") (auto simp: show_int_def)
qed

lemma SocketName_inject [simp]: "SocketName m = SocketName n \<longleftrightarrow> m = n"
proof
  assume "SocketName m = SocketName n"
  then have "sint m = sint n" by (intro show_int_inject) (simp add: SocketName_def)
  then show "m = n" by (rule signed_word_eqI)
qed simp


section \<open>What the code relies on\<close>

text \<open>
  \<open>q h n\<close> are the datagrams waiting at the socket file \<open>n\<close>, \<open>None\<close> when no socket has that name; \<open>b h m fd\<close> is the name that
  descriptor \<open>fd\<close> of machine \<open>m\<close> is bound to.
\<close>

definition datagrams_ok :: "'h datagrams \<Rightarrow> ('h \<Rightarrow> string \<Rightarrow> byte list list option) \<Rightarrow> ('h \<Rightarrow> 32 word \<Rightarrow> int \<Rightarrow> string option) \<Rightarrow> bool" where
  "datagrams_ok g q b \<longleftrightarrow>
     (\<forall>m h fd h'. g_socket g m h = (fd, h') \<longrightarrow> q h' = q h \<and> b h' = b h) \<and>
     (\<forall>n h r h'. g_unlink g n h = (r, h') \<longrightarrow>
        q h' = (q h)(n := None) \<and> (\<forall>m fd. b h' m fd = (if b h m fd = Some n then None else b h m fd))) \<and>
     (\<forall>m fd n h r h'. g_bind g m fd n h = (r, h') \<longrightarrow> 0 \<le> r \<longrightarrow>
        q h' = (q h)(n \<mapsto> []) \<and> b h' = (b h)(m := (b h m)(fd \<mapsto> n))) \<and>
     (\<forall>m fd n ms h. b h m fd = Some n \<longrightarrow> q h n = Some ms \<longrightarrow>
        (\<exists>h'. g_select g m fd h = (if ms = [] then 0 else 1, h') \<and> q h' = q h \<and> b h' = b h)) \<and>
     (\<forall>m fd n p ms h. b h m fd = Some n \<longrightarrow> q h n = Some (p # ms) \<longrightarrow>
        (\<exists>h'. g_recvfrom g m fd (length p) h = ((int (length p), p), h') \<and> q h' = (q h)(n \<mapsto> ms) \<and> b h' = b h)) \<and>
     (\<forall>m fd p n h r h'. g_sendto g m fd p n h = (r, h') \<longrightarrow> b h' = b h \<and>
        (r = int (length p) \<and> (\<exists>ms. q h n = Some ms \<and> q h' = (q h)(n \<mapsto> ms @ [p])) \<or> r < 0 \<and> q h' = q h)) \<and>
     (\<forall>m h r h'. g_rand g m h = (r, h') \<longrightarrow> q h' = q h \<and> b h' = b h) \<and>
     (\<forall>m k h. length (g_new g m k h) = k)"

lemma datagrams_okD:
  assumes "datagrams_ok g q b"
  shows "g_socket g m h = (fd, h') \<Longrightarrow> q h' = q h \<and> b h' = b h"
    and "g_unlink g n h = (r, h') \<Longrightarrow> q h' = (q h)(n := None)"
    and "g_unlink g n h = (r, h') \<Longrightarrow> b h' m fd = (if b h m fd = Some n then None else b h m fd)"
    and "g_bind g m fd n h = (r, h') \<Longrightarrow> 0 \<le> r \<Longrightarrow> q h' = (q h)(n \<mapsto> []) \<and> b h' = (b h)(m := (b h m)(fd \<mapsto> n))"
    and "b h m fd = Some n \<Longrightarrow> q h n = Some ms \<Longrightarrow>
        \<exists>h'. g_select g m fd h = (if ms = [] then 0 else 1, h') \<and> q h' = q h \<and> b h' = b h"
    and "b h m fd = Some n \<Longrightarrow> q h n = Some (p # ms) \<Longrightarrow>
        \<exists>h'. g_recvfrom g m fd (length p) h = ((int (length p), p), h') \<and> q h' = (q h)(n \<mapsto> ms) \<and> b h' = b h"
    and "g_sendto g m fd p n h = (r, h') \<Longrightarrow> b h' = b h"
    and "g_sendto g m fd p n h = (r, h') \<Longrightarrow>
        r = int (length p) \<and> (\<exists>ms. q h n = Some ms \<and> q h' = (q h)(n \<mapsto> ms @ [p])) \<or> r < 0 \<and> q h' = q h"
    and "g_rand g m h = (x, h') \<Longrightarrow> q h' = q h \<and> b h' = b h"
    and "length (g_new g m k h) = k"
  using assms unfolding datagrams_ok_def by (elim conjE, simp, blast?)+

end
