(* ===== verification/Lock_Protocol.thy ===== *)
theory Lock_Protocol
  imports Sequence_Spec
begin

text \<open>
  The protocol of the threads that share a \<^verbatim>\<open>Lock\<close> of \<^verbatim>\<open>threads/synch.cc\<close>: a semaphore with the value 1 and the field
  \<^verbatim>\<open>lockHolder\<close>. \<^verbatim>\<open>Acquire\<close> passes the \<^verbatim>\<open>P\<close> and then sets the field, \<^verbatim>\<open>Release\<close> clears the field and then does the \<^verbatim>\<open>V\<close>. A client
  (the synchronized list, the post office, the console) has threads at control points; \<open>tok\<close> are the control points between the
  \<^verbatim>\<open>P\<close> and the \<^verbatim>\<open>V\<close>, \<open>hold\<close> those between the two assignments. The locale gives mutual exclusion for every client whose steps
  move the token as \<open>lock_move\<close> says.
\<close>

section \<open>Counting threads\<close>

definition tot :: "('p \<Rightarrow> bool) \<Rightarrow> 'p list \<Rightarrow> int" where
  "tot f ps = (\<Sum>p\<leftarrow>ps. of_bool (f p))"

lemma tot_update:
  "t < length ps \<Longrightarrow> tot f (ps[t := p]) = tot f ps - of_bool (f (ps ! t)) + of_bool (f p)"
proof (induction ps arbitrary: t)
  case (Cons q ps)
  then show ?case by (cases t) (simp_all add: tot_def)
qed simp

lemma tot_nonneg: "0 \<le> tot f ps"
  by (induction ps) (simp_all add: tot_def)

lemma tot_pos: "t < length ps \<Longrightarrow> f (ps ! t) \<Longrightarrow> 1 \<le> tot f ps"
proof (induction ps arbitrary: t)
  case (Cons q ps)
  then show ?case
    using tot_nonneg [of f ps] by (cases t) (auto simp: tot_def)
qed simp

lemma tot_none: "(\<And>t. t < length ps \<Longrightarrow> \<not> f (ps ! t)) \<Longrightarrow> tot f ps = 0"
proof (induction ps)
  case (Cons q ps)
  have "\<not> f q" using Cons.prems [of 0] by simp
  moreover have "tot f ps = 0" using Cons.prems [of "Suc _"] by (intro Cons.IH) simp
  ultimately show ?case by (simp add: tot_def)
qed (simp add: tot_def)

lemma tot_two: "t < length ps \<Longrightarrow> u < length ps \<Longrightarrow> t \<noteq> u \<Longrightarrow> f (ps ! t) \<Longrightarrow> f (ps ! u) \<Longrightarrow> 2 \<le> tot f ps"
proof (induction ps arbitrary: t u)
  case (Cons q ps)
  show ?case
  proof (cases "t = 0 \<or> u = 0")
    case True
    then have "f q" "1 \<le> tot f ps"
      using Cons.prems tot_pos [of "t - 1" ps f] tot_pos [of "u - 1" ps f] by (auto simp: nth_Cons')
    then show ?thesis by (simp add: tot_def)
  next
    case False
    then have "2 \<le> tot f ps" using Cons.prems Cons.IH [of "t - 1" "u - 1"] by (auto simp: nth_Cons')
    then show ?thesis by (simp add: tot_def)
  qed
qed simp

lemma tot_disj: "(\<And>p. \<not> (f p \<and> g p)) \<Longrightarrow> tot (\<lambda>p. f p \<or> g p) ps = tot f ps + tot g ps"
  by (induction ps) (auto simp: tot_def)

lemma tot_mono: "(\<And>p. f p \<Longrightarrow> g p) \<Longrightarrow> tot f ps \<le> tot g ps"
  unfolding tot_def by (rule sum_list_mono) auto

lemma tot_replicate [simp]: "tot f (replicate n p) = (if f p then int n else 0)"
  by (induction n) (auto simp: tot_def)

section \<open>Mutual exclusion\<close>

definition lock_ok :: "('p \<Rightarrow> bool) \<Rightarrow> ('p \<Rightarrow> bool) \<Rightarrow> 'p list \<Rightarrow> int \<Rightarrow> nat option \<Rightarrow> bool" where
  "lock_ok tok hold ps value holder \<longleftrightarrow> 0 \<le> value \<and> value + tot tok ps = 1 \<and>
     (\<forall>t<length ps. hold (ps ! t) \<longleftrightarrow> holder = Some t)"

text \<open>Thread \<open>t\<close> goes from control point \<open>p\<close> to \<open>p'\<close>, with the value of the semaphore and the holder before and after.\<close>

definition lock_move :: "('p \<Rightarrow> bool) \<Rightarrow> ('p \<Rightarrow> bool) \<Rightarrow> nat \<Rightarrow> 'p \<Rightarrow> int \<Rightarrow> nat option \<Rightarrow> 'p \<Rightarrow> int \<Rightarrow> nat option \<Rightarrow> bool" where
  "lock_move tok hold t p value holder p' value' holder' \<longleftrightarrow>
     value' + of_bool (tok p') = value + of_bool (tok p) \<and> (0 \<le> value \<longrightarrow> 0 \<le> value') \<and>
     (hold p' \<or> hold p \<longrightarrow> tok p) \<and>
     holder' = (if hold p' then if hold p then holder else Some t else if hold p then None else holder)"

locale lock_protocol =
  fixes tok hold :: "'p \<Rightarrow> bool"
  assumes hold_tok: "hold p \<Longrightarrow> tok p"
begin

lemma unique:
  assumes "lock_ok tok hold ps value holder" "t < length ps" "u < length ps" "tok (ps ! t)" "tok (ps ! u)"
  shows "t = u"
  using assms tot_two [of t ps u tok] by (auto simp: lock_ok_def)

lemma taken:
  assumes "lock_ok tok hold ps value holder" "t < length ps" "tok (ps ! t)"
  shows "value = 0"
  using assms tot_pos [of t ps tok] by (auto simp: lock_ok_def)

lemma holds:
  assumes "lock_ok tok hold ps value holder" "t < length ps" "hold (ps ! t)"
  shows "holder = Some t"
  using assms by (simp add: lock_ok_def)

lemma move:
  assumes i: "lock_ok tok hold ps value holder" and t: "t < length ps"
    and m: "lock_move tok hold t (ps ! t) value holder p' value' holder'"
  shows "lock_ok tok hold (ps[t := p']) value' holder'"
proof -
  have "hold (ps[t := p'] ! u) \<longleftrightarrow> holder' = Some u" if "u < length ps" for u
    using i m that t unique [OF i t that] hold_tok [of "ps ! u"]
    by (auto simp: lock_ok_def lock_move_def nth_list_update)
  then show ?thesis using i m t by (auto simp: lock_ok_def lock_move_def tot_update)
qed

text \<open>Starting a call does not touch the lock.\<close>

lemma start:
  assumes "lock_ok tok hold ps value holder" "t < length ps" "\<not> tok (ps ! t)" "\<not> tok p'"
  shows "lock_ok tok hold (ps[t := p']) value holder"
  using assms hold_tok [of "ps ! t"] hold_tok [of p'] by (intro move) (auto simp: lock_move_def)

lemma fresh: "\<not> tok p \<Longrightarrow> lock_ok tok hold (replicate n p) 1 None"
  using hold_tok [of p] by (auto simp: lock_ok_def)

end

end
