(* ===== verification/Synch_List.thy ===== *)
theory Synch_List
  imports Lock_Protocol
begin

text \<open>
  The synchronized list of \<^verbatim>\<open>threads/synchlist.h\<close> and \<^verbatim>\<open>threads/synchlist.cc\<close>: a \<^verbatim>\<open>List\<close> behind a lock, with a condition
  variable on which \<^verbatim>\<open>RemoveFront\<close> waits while the list is empty. Each of \<open>n\<close> threads is outside the list or at a
  control point inside one of its calls. The control points are those of \<^verbatim>\<open>Lock\<close> and \<^verbatim>\<open>Condition\<close> in \<^verbatim>\<open>threads/synch.cc\<close>: a lock is a
  semaphore with the value 1 and the field \<^verbatim>\<open>lockHolder\<close>; \<^verbatim>\<open>Wait\<close> puts a new semaphore with the value 0 on the queue of the
  condition and releases the lock before its \<^verbatim>\<open>P\<close>. A \<^verbatim>\<open>P\<close> can be passed when the value is not 0. The list is used through
  the sequence operations that the pointer lists implement.
\<close>

section \<open>State and steps\<close>

text \<open>Where a thread goes once it has the lock: into the call it made, or back into \<^verbatim>\<open>RemoveFront\<close> from \<^verbatim>\<open>Wait\<close>.\<close>

datatype 'a sl_goal = GoAppend 'a | GoRemoveFront | GoApply | GoDelete nat

datatype 'a sl_pc =
    Outside
  | Acquiring "'a sl_goal" | Acquired "'a sl_goal"
  | Appending 'a | Signalling | Waking nat
  | Testing | Waiting | Unlocking nat | Unlocked nat | Sleeping nat | Deleting nat
  | Applying
  | Releasing | Released

datatype 'a sl_event = Appended nat 'a | Removed nat 'a | Applied nat "'a list"

record 'a SynchList =
  sl_list :: "'a list"
  sl_lock :: int
  sl_holder :: "nat option"
  sl_queue :: "nat list"
  sl_waiters :: "nat \<rightharpoonup> int"
  sl_next :: nat

definition new_SynchList :: "'a SynchList" where
  "new_SynchList = \<lparr>sl_list = [], sl_lock = 1, sl_holder = None, sl_queue = [], sl_waiters = (\<lambda>_. None), sl_next = 0\<rparr>"

primrec enter :: "'a sl_goal \<Rightarrow> 'a sl_pc" where
  "enter (GoAppend x) = Appending x"
| "enter GoRemoveFront = Testing"
| "enter GoApply = Applying"
| "enter (GoDelete w) = Deleting w"

text \<open>
  What thread \<open>t\<close> does at a control point: \<open>None\<close> when it has to wait, otherwise a fault or the next control point, the
  new state and what happened to the list.
\<close>

fun sl_exec :: "nat \<Rightarrow> 'a sl_pc \<Rightarrow> 'a SynchList \<Rightarrow> ('a sl_pc \<times> 'a SynchList \<times> 'a sl_event list) result option" where
  "sl_exec t Outside s = None"
| "sl_exec t (Acquiring g) s = (if sl_lock s = 0 then None else Some (Inr (Acquired g, s\<lparr>sl_lock := sl_lock s - 1\<rparr>, [])))"
| "sl_exec t (Acquired g) s = Some (Inr (enter g, s\<lparr>sl_holder := Some t\<rparr>, []))"
| "sl_exec t (Appending x) s =
     Some (rbind (seq_append (sl_list s) x) (\<lambda>l. Inr (Signalling, s\<lparr>sl_list := l\<rparr>, [Appended t x])))"
| "sl_exec t Signalling s =
     Some (rbind (rassert (sl_holder s = Some t)) (\<lambda>_.
       if sl_queue s = [] then Inr (Releasing, s, [])
       else rbind (seq_remove_front (sl_queue s)) (\<lambda>(w, q). Inr (Waking w, s\<lparr>sl_queue := q\<rparr>, []))))"
| "sl_exec t (Waking w) s = Some (case sl_waiters s w of
       None \<Rightarrow> Inl NullPointer
     | Some v \<Rightarrow> Inr (Releasing, s\<lparr>sl_waiters := (sl_waiters s)(w \<mapsto> v + 1)\<rparr>, []))"
| "sl_exec t Testing s =
     Some (if sl_list s = [] then Inr (Waiting, s, [])
       else rbind (seq_remove_front (sl_list s)) (\<lambda>(x, l). Inr (Releasing, s\<lparr>sl_list := l\<rparr>, [Removed t x])))"
| "sl_exec t Waiting s =
     Some (rbind (rassert (sl_holder s = Some t)) (\<lambda>_.
       rbind (seq_append (sl_queue s) (sl_next s)) (\<lambda>q.
       Inr (Unlocking (sl_next s),
         s\<lparr>sl_waiters := (sl_waiters s)(sl_next s \<mapsto> 0), sl_next := Suc (sl_next s), sl_queue := q\<rparr>, []))))"
| "sl_exec t (Unlocking w) s =
     Some (rbind (rassert (sl_holder s = Some t)) (\<lambda>_. Inr (Unlocked w, s\<lparr>sl_holder := None\<rparr>, [])))"
| "sl_exec t (Unlocked w) s = Some (Inr (Sleeping w, s\<lparr>sl_lock := sl_lock s + 1\<rparr>, []))"
| "sl_exec t (Sleeping w) s = (case sl_waiters s w of
       None \<Rightarrow> Some (Inl NullPointer)
     | Some v \<Rightarrow> if v = 0 then None
         else Some (Inr (Acquiring (GoDelete w), s\<lparr>sl_waiters := (sl_waiters s)(w \<mapsto> v - 1)\<rparr>, [])))"
| "sl_exec t (Deleting w) s = Some (Inr (Testing, s\<lparr>sl_waiters := (sl_waiters s)(w := None)\<rparr>, []))"
| "sl_exec t Applying s = Some (Inr (Releasing, s, [Applied t (sl_list s)]))"
| "sl_exec t Releasing s =
     Some (rbind (rassert (sl_holder s = Some t)) (\<lambda>_. Inr (Released, s\<lparr>sl_holder := None\<rparr>, [])))"
| "sl_exec t Released s = Some (Inr (Outside, s\<lparr>sl_lock := sl_lock s + 1\<rparr>, []))"

text \<open>All interleavings of \<open>n\<close> threads, with what they did to the list.\<close>

inductive sl_trace :: "nat \<Rightarrow> 'a sl_event list \<Rightarrow> 'a sl_pc list \<Rightarrow> 'a SynchList \<Rightarrow> bool" for n :: nat where
  sl_start: "sl_trace n [] (replicate n Outside) new_SynchList"
| sl_call: "sl_trace n es ps s \<Longrightarrow> t < n \<Longrightarrow> ps ! t = Outside \<Longrightarrow> (\<forall>w. g \<noteq> GoDelete w) \<Longrightarrow>
    sl_trace n es (ps[t := Acquiring g]) s"
| sl_step: "sl_trace n es ps s \<Longrightarrow> t < n \<Longrightarrow> sl_exec t (ps ! t) s = Some (Inr (p, s', ev)) \<Longrightarrow>
    sl_trace n (es @ ev) (ps[t := p]) s'"

fun appended :: "'a sl_event \<Rightarrow> 'a list" where
  "appended (Appended t x) = [x]"
| "appended _ = []"

fun removed :: "'a sl_event \<Rightarrow> 'a list" where
  "removed (Removed t x) = [x]"
| "removed _ = []"

section \<open>Invariants\<close>

fun holding :: "'a sl_pc \<Rightarrow> bool" where
  "holding (Appending x) = True"
| "holding Signalling = True"
| "holding (Waking w) = True"
| "holding Testing = True"
| "holding Waiting = True"
| "holding (Unlocking w) = True"
| "holding (Deleting w) = True"
| "holding Applying = True"
| "holding Releasing = True"
| "holding _ = False"

text \<open>The control points at which a thread has passed the \<^verbatim>\<open>P\<close> of the lock and not yet done the \<^verbatim>\<open>V\<close>.\<close>

fun token :: "'a sl_pc \<Rightarrow> bool" where
  "token (Acquired g) = True"
| "token (Unlocked w) = True"
| "token Released = True"
| "token p = holding p"

text \<open>Before the \<^verbatim>\<open>P\<close> on the semaphore \<open>w\<close> of \<^verbatim>\<open>Wait\<close>, and before its deletion.\<close>

fun own :: "nat \<Rightarrow> 'a sl_pc \<Rightarrow> bool" where
  "own w (Unlocking v) = (v = w)"
| "own w (Unlocked v) = (v = w)"
| "own w (Sleeping v) = (v = w)"
| "own w _ = False"

fun alive :: "nat \<Rightarrow> 'a sl_pc \<Rightarrow> bool" where
  "alive w (Acquiring g) = (g = GoDelete w)"
| "alive w (Acquired g) = (g = GoDelete w)"
| "alive w (Deleting v) = (v = w)"
| "alive w p = own w p"

text \<open>On the way to the test of the list, with nobody needed to wake it up.\<close>

fun awake :: "nat set \<Rightarrow> 'a sl_pc \<Rightarrow> bool" where
  "awake q (Acquiring g) = (g = GoRemoveFront \<or> (\<exists>w. g = GoDelete w))"
| "awake q (Acquired g) = (g = GoRemoveFront \<or> (\<exists>w. g = GoDelete w))"
| "awake q Testing = True"
| "awake q (Deleting w) = True"
| "awake q (Unlocking w) = (w \<notin> q)"
| "awake q (Unlocked w) = (w \<notin> q)"
| "awake q (Sleeping w) = (w \<notin> q)"
| "awake q _ = False"

definition lock_inv :: "nat \<Rightarrow> 'a sl_pc list \<Rightarrow> 'a SynchList \<Rightarrow> bool" where
  "lock_inv n ps s \<longleftrightarrow> length ps = n \<and> lock_ok token holding ps (sl_lock s) (sl_holder s)"

definition wval :: "'a SynchList \<Rightarrow> nat \<Rightarrow> int" where
  "wval s w = (case sl_waiters s w of None \<Rightarrow> 0 | Some v \<Rightarrow> v)"

definition waiter_inv :: "'a sl_pc list \<Rightarrow> 'a SynchList \<Rightarrow> bool" where
  "waiter_inv ps s \<longleftrightarrow> distinct (sl_queue s) \<and> (\<forall>w\<ge>sl_next s. sl_waiters s w = None) \<and>
     (\<forall>w. tot (alive w) ps = of_bool (sl_waiters s w \<noteq> None) \<and> 0 \<le> wval s w \<and>
        wval s w + of_bool (w \<in> set (sl_queue s)) + tot (\<lambda>p. p = Waking w) ps = tot (own w) ps)"

definition item_inv :: "'a sl_pc list \<Rightarrow> 'a SynchList \<Rightarrow> bool" where
  "item_inv ps s \<longleftrightarrow> (\<forall>t<length ps. ps ! t = Waiting \<longrightarrow> sl_list s = []) \<and>
     (sl_queue s \<noteq> [] \<longrightarrow>
       int (length (sl_list s)) \<le> tot (awake (set (sl_queue s))) ps + tot (\<lambda>p. p = Signalling) ps)"

interpretation sl: lock_protocol token holding
  by unfold_locales (auto elim: holding.elims)

lemma enter_simps [simp]:
  "holding (enter g)" "token (enter g)" "\<not> own w (enter g)" "alive w (enter g) \<longleftrightarrow> g = GoDelete w"
  "awake q (enter g) \<longleftrightarrow> g = GoRemoveFront \<or> (\<exists>w. g = GoDelete w)"
  "enter g \<noteq> Waiting" "enter g \<noteq> Signalling" "enter g \<noteq> Waking w"
  by (cases g; auto)+

lemma token_unique:
  assumes "lock_inv n ps s" "t < n" "u < n" "token (ps ! t)" "token (ps ! u)"
  shows "t = u"
  using assms sl.unique [of ps "sl_lock s" "sl_holder s" t u] by (simp add: lock_inv_def)

lemma step_token:
  assumes "sl_exec t p s = Some (Inr (p', s', ev))"
  shows "lock_move token holding t p (sl_lock s) (sl_holder s) p' (sl_lock s') (sl_holder s')"
  unfolding lock_move_def using assms
  by (cases p) (auto simp: rbind_eq_Inr seq_append_def seq_remove_front_def split: if_splits option.splits list.splits)

lemma lock_inv_step:
  assumes "lock_inv n ps s" "t < n" "sl_exec t (ps ! t) s = Some (Inr (p, s', ev))"
  shows "lock_inv n (ps[t := p]) s'"
  using assms step_token [OF assms(3)] sl.move [of ps _ _ t] by (auto simp: lock_inv_def)

text \<open>The life of the semaphore \<open>w\<close>: a thread owns it until its \<^verbatim>\<open>P\<close>, and it is queued, about to be signalled, or signalled.\<close>

lemma step_waiter:
  assumes e: "sl_exec t p s = Some (Inr (p', s', ev))" and q: "distinct (sl_queue s)"
    and f: "\<forall>w\<ge>sl_next s. sl_waiters s w = None \<and> w \<notin> set (sl_queue s)"
    and d: "p = Deleting w \<Longrightarrow> sl_waiters s w = Some 0"
  shows "of_bool (sl_waiters s' w \<noteq> None) + of_bool (alive w p) = (of_bool (sl_waiters s w \<noteq> None) + of_bool (alive w p') :: int)"
    and "wval s' w + of_bool (w \<in> set (sl_queue s')) + of_bool (p' = Waking w) + of_bool (own w p) =
         wval s w + of_bool (w \<in> set (sl_queue s)) + of_bool (p = Waking w) + of_bool (own w p')"
    and "0 \<le> wval s w \<Longrightarrow> 0 \<le> wval s' w"
    and "distinct (sl_queue s')" "\<forall>w\<ge>sl_next s'. sl_waiters s' w = None"
  using e q f d
  by (cases p; auto simp: wval_def rbind_eq_Inr seq_append_def seq_remove_front_def
      split: if_splits option.splits list.splits)+

lemma own_le_alive: "tot (\<lambda>p. own w p \<or> p = Deleting w) ps \<le> tot (alive w) ps"
  by (rule tot_mono) (auto elim: own.elims)

lemma waiter_inv_own:
  assumes "waiter_inv ps s"
  shows "tot (own w) ps + tot (\<lambda>p. p = Deleting w) ps \<le> of_bool (sl_waiters s w \<noteq> None)"
proof -
  have "tot (\<lambda>p. own w p \<or> p = Deleting w) ps = tot (own w) ps + tot (\<lambda>p. p = Deleting w) ps"
    by (rule tot_disj) auto
  then show ?thesis using own_le_alive [of w ps] assms by (simp add: waiter_inv_def)
qed

lemma waiter_inv_step:
  assumes i: "waiter_inv ps s" and t: "t < length ps" and e: "sl_exec t (ps ! t) s = Some (Inr (p, s', ev))"
  shows "waiter_inv (ps[t := p]) s'"
proof -
  have I: "tot (alive w) ps = of_bool (sl_waiters s w \<noteq> None)" "0 \<le> wval s w"
    "wval s w + of_bool (w \<in> set (sl_queue s)) + tot (\<lambda>p. p = Waking w) ps = tot (own w) ps" for w
    using i by (simp_all add: waiter_inv_def)
  have q: "distinct (sl_queue s)" and n: "\<forall>w\<ge>sl_next s. sl_waiters s w = None"
    using i by (simp_all add: waiter_inv_def)
  have f: "sl_waiters s w = None \<and> w \<notin> set (sl_queue s)" if "sl_next s \<le> w" for w
    using n that I(2,3) [of w] waiter_inv_own [OF i, of w] tot_nonneg [of "\<lambda>p. p = Waking w" ps]
      tot_nonneg [of "\<lambda>p. p = Deleting w" ps]
    by (cases "w \<in> set (sl_queue s)") simp_all
  have d: "sl_waiters s w = Some 0" if p: "ps ! t = Deleting w" for w
  proof -
    have k: "1 \<le> tot (\<lambda>p. p = Deleting w) ps" using tot_pos [OF t, of "\<lambda>p. p = Deleting w"] p by simp
    note b = waiter_inv_own [OF i, of w] tot_nonneg [of "own w" ps] tot_nonneg [of "\<lambda>p. p = Waking w" ps]
    have z: "sl_waiters s w \<noteq> None" using k b by (cases "sl_waiters s w") simp_all
    then have "tot (own w) ps = 0" using k b by simp
    then have "wval s w = 0" using I(2,3) [of w] b by (simp add: of_bool_def split: if_splits)
    then show ?thesis using z by (auto simp: wval_def)
  qed
  note S = step_waiter [OF e q _ d]
  have "tot (alive w) (ps[t := p]) = of_bool (sl_waiters s' w \<noteq> None) \<and> 0 \<le> wval s' w \<and>
      wval s' w + of_bool (w \<in> set (sl_queue s')) + tot (\<lambda>p. p = Waking w) (ps[t := p]) = tot (own w) (ps[t := p])" for w
    using S(1-3) [of w] f I [of w] t by (simp add: tot_update)
  then show ?thesis using S(4,5) f by (simp add: waiter_inv_def)
qed

lemma awake_pop:
  assumes "distinct (w # q)"
  shows "tot (awake (set q)) ps = tot (awake (set (w # q))) ps + tot (own w) ps"
proof -
  have "awake (set q) p = (awake (set (w # q)) p \<or> own w p)" for p :: "'a sl_pc"
    using assms by (cases p) auto
  then have "tot (awake (set q)) ps = tot (\<lambda>p. awake (set (w # q)) p \<or> own w p) ps" by presburger
  also have "\<dots> = tot (awake (set (w # q))) ps + tot (own w) ps"
    by (rule tot_disj) (auto elim!: own.elims)
  finally show ?thesis .
qed

lemma item_inv_step:
  assumes l: "lock_inv n ps s" and w: "waiter_inv ps s" and i: "item_inv ps s" and t: "t < length ps"
    and e: "sl_exec t (ps ! t) s = Some (Inr (p, s', ev))"
  shows "item_inv (ps[t := p]) s'"
proof -
  have "sl_list s' = []" if "u < length ps" "ps[t := p] ! u = Waiting" for u
    using i t e that token_unique [OF l, of t u] l
    by (cases "u = t"; cases "ps ! t"; auto simp: item_inv_def lock_inv_def rbind_eq_Inr seq_append_def seq_remove_front_def
        split: if_splits option.splits list.splits)
  moreover have "int (length (sl_list s')) \<le> tot (awake (set (sl_queue s'))) (ps[t := p]) + tot (\<lambda>p. p = Signalling) (ps[t := p])"
    if q: "sl_queue s' \<noteq> []"
  proof (cases "ps ! t")
    case Signalling
    then obtain w where q': "sl_queue s = w # sl_queue s'" and r: "p = Waking w" "sl_list s' = sl_list s"
      using e q by (auto simp: rbind_eq_Inr seq_remove_front_def split: if_splits list.splits)
    have "1 \<le> tot (own w) ps"
      using w q' tot_nonneg [of "\<lambda>p. p = Waking w" ps] by (auto simp: waiter_inv_def dest!: spec [of _ w])
    moreover have "distinct (w # sl_queue s')" using w q' by (simp add: waiter_inv_def)
    ultimately show ?thesis
      using i q' r t Signalling awake_pop [of w "sl_queue s'" ps] by (simp add: item_inv_def tot_update)
  next
    case Waiting
    then have "sl_list s' = []" using i t e
      by (auto simp: item_inv_def rbind_eq_Inr seq_append_def split: if_splits)
    then show ?thesis by (simp add: tot_nonneg)
  qed (use i t e q tot_pos [OF t, of "awake (set (sl_queue s))"] tot_nonneg [of "awake (set (sl_queue s))" ps] tot_nonneg [of "\<lambda>p. p = Signalling" ps] in
      \<open>auto simp: item_inv_def tot_update rbind_eq_Inr seq_append_def seq_remove_front_def
        split: if_splits option.splits list.splits\<close>)
  ultimately show ?thesis by (simp add: item_inv_def)
qed


section \<open>All interleavings\<close>

lemma sl_trace_inv:
  "sl_trace n es ps s \<Longrightarrow> lock_inv n ps s \<and> waiter_inv ps s \<and> item_inv ps s"
proof (induction rule: sl_trace.induct)
  case sl_start
  show ?case by (simp add: lock_inv_def sl.fresh waiter_inv_def item_inv_def new_SynchList_def wval_def)
next
  case (sl_call es ps s t g)
  then have l: "length ps = n" by (simp add: lock_inv_def)
  moreover have "lock_inv n (ps[t := Acquiring g]) s"
    using sl_call l sl.start [of ps "sl_lock s" "sl_holder s" t "Acquiring g"] by (simp add: lock_inv_def)
  ultimately show ?case using sl_call
    by (auto simp: waiter_inv_def item_inv_def tot_update nth_list_update)
next
  case (sl_step es ps s t p s' ev)
  then have "length ps = n" by (simp add: lock_inv_def)
  with sl_step show ?case
    using lock_inv_step [of n ps s t p s' ev] waiter_inv_step [of ps s t p s' ev] item_inv_step [of n ps s t p s' ev] by blast
qed

lemma sl_exec_fifo:
  assumes "sl_exec t p s = Some (Inr (p', s', ev))"
  shows "concat (map removed ev) @ sl_list s' = sl_list s @ concat (map appended ev)"
  using assms by (cases p; auto simp: rbind_eq_Inr seq_append_def seq_remove_front_def
      split: if_splits option.splits list.splits)

lemma sl_trace_fifo:
  "sl_trace n es ps s \<Longrightarrow> concat (map appended es) = concat (map removed es) @ sl_list s"
proof (induction rule: sl_trace.induct)
  case (sl_step es ps s t p s' ev)
  then show ?case using sl_exec_fifo [of t "ps ! t" s p s' ev] by simp
qed (simp_all add: new_SynchList_def)

lemma sl_exec_fault:
  assumes "lock_inv n ps s" "waiter_inv ps s" "t < n" "sl_exec t (ps ! t) s = Some (Inl f)"
  shows "\<exists>x. ps ! t = Appending x \<and> x \<in> set (sl_list s)"
proof -
  have l: "t < length ps" using assms by (simp add: lock_inv_def)
  then have h: "holding (ps ! t) \<Longrightarrow> sl_holder s = Some t" using assms(1) sl.holds by (auto simp: lock_inv_def)
  have q: "sl_next s \<notin> set (sl_queue s)"
    using assms(2) waiter_inv_own [OF assms(2), of "sl_next s"] tot_nonneg [of "\<lambda>p. p = Waking (sl_next s)" ps]
      tot_nonneg [of "\<lambda>p. p = Deleting (sl_next s)" ps]
    by (auto simp: waiter_inv_def wval_def dest!: spec [of _ "sl_next s"])
  have o: "own w (ps ! t) \<Longrightarrow> sl_waiters s w \<noteq> None" for w
    using tot_pos [OF l, of "own w"] waiter_inv_own [OF assms(2), of w] tot_nonneg [of "\<lambda>p. p = Deleting w" ps]
    by (cases "sl_waiters s w") auto
  have k: "sl_waiters s w \<noteq> None" if "ps ! t = Waking w" for w
  proof -
    have "1 \<le> tot (\<lambda>p. p = Waking w) ps" using tot_pos [OF l, of "\<lambda>p. p = Waking w"] that by simp
    moreover have "0 \<le> wval s w"
      "wval s w + of_bool (w \<in> set (sl_queue s)) + tot (\<lambda>p. p = Waking w) ps = tot (own w) ps"
      using assms(2) by (simp_all add: waiter_inv_def)
    ultimately show ?thesis
      using waiter_inv_own [OF assms(2), of w] tot_nonneg [of "\<lambda>p. p = Deleting w" ps]
      by (cases "sl_waiters s w"; cases "w \<in> set (sl_queue s)") auto
  qed
  show ?thesis
    using assms(4) h q o k
    by (cases "ps ! t"; auto simp: rbind_def rassert_def seq_append_def seq_remove_front_def
      split: if_splits option.splits list.splits)
qed


text \<open>
  C14: For every number of threads and every interleaving of their calls, a \<^verbatim>\<open>SynchList\<close> is a queue: the items appended so far are
  the items removed so far, in the same order, followed by the items in the list. At most one thread is at a
  control point between taking and giving back the lock. The lock and the condition are never misused and no semaphore is used
  after its deletion; the only assertion that can fail is that of \<^verbatim>\<open>List::Append\<close>, on an item that is already in the list.
\<close>

theorem SynchList_is_queue:
  assumes "sl_trace n es ps s"
  shows "concat (map appended es) = concat (map removed es) @ sl_list s \<and>
    (\<forall>t<n. \<forall>u<n. token (ps ! t) \<and> token (ps ! u) \<longrightarrow> t = u) \<and>
    (\<forall>t<n. \<forall>f. sl_exec t (ps ! t) s = Some (Inl f) \<longrightarrow> (\<exists>x. ps ! t = Appending x \<and> x \<in> set (sl_list s)))"
  using sl_trace_fifo [OF assms] sl_trace_inv [OF assms] token_unique [of n ps s] sl_exec_fault [of n ps s] by blast

text \<open>Two threads: one finds the list empty and waits, the other appends 7 and wakes it up.\<close>

definition demo_calls :: "(nat \<times> int sl_goal option) list" where
  "demo_calls = (0, Some GoRemoveFront) # replicate 6 (0, None) @ (1, Some (GoAppend 7)) # replicate 7 (1, None) @ replicate 7 (0, None)"

fun sl_play :: "(nat \<times> 'a sl_goal option) list \<Rightarrow> 'a sl_event list \<times> 'a sl_pc list \<times> 'a SynchList \<Rightarrow>
    'a sl_event list \<times> 'a sl_pc list \<times> 'a SynchList" where
  "sl_play [] c = c"
| "sl_play ((t, g) # xs) (es, ps, s) = sl_play xs (case g of
      Some g' \<Rightarrow> if ps ! t = Outside \<and> (case g' of GoDelete w \<Rightarrow> False | _ \<Rightarrow> True) then (es, ps[t := Acquiring g'], s) else (es, ps, s)
    | None \<Rightarrow> (case sl_exec t (ps ! t) s of Some (Inr (p, s', ev)) \<Rightarrow> (es @ ev, ps[t := p], s') | _ \<Rightarrow> (es, ps, s)))"

lemma sl_play_trace:
  "sl_trace n es ps s \<Longrightarrow> list_all (\<lambda>(t, g). t < n) xs \<Longrightarrow> sl_play xs (es, ps, s) = (es', ps', s') \<Longrightarrow> sl_trace n es' ps' s'"
proof (induction xs arbitrary: es ps s)
  case (Cons x xs)
  obtain t g where x: "x = (t, g)" by fastforce
  show ?case
  proof (cases g)
    case None
    then show ?thesis using Cons x sl_trace.sl_step [OF Cons.prems(1), of t]
      by (auto split: option.splits sum.splits prod.splits)
  next
    case (Some g')
    then show ?thesis using Cons x sl_trace.sl_call [OF Cons.prems(1), of t g']
      by (cases g') (auto split: if_splits)
  qed
qed simp

lemma demo_trace:
  "sl_play demo_calls ([], replicate 2 Outside, new_SynchList) =
     ([Appended 1 7, Removed 0 7], [Outside, Outside], \<lparr>sl_list = [], sl_lock = 1, sl_holder = None, sl_queue = [],
        sl_waiters = (\<lambda>_. None), sl_next = 1\<rparr>)"
  by (simp add: demo_calls_def new_SynchList_def eval_nat_numeral seq_append_def seq_remove_front_def fun_eq_iff)


lemma demo_reached:
  "sl_trace 2 [Appended 1 7, Removed 0 7] [Outside, Outside] (new_SynchList\<lparr>sl_next := 1\<rparr> :: int SynchList)"
proof -
  have "list_all (\<lambda>(t, g). t < 2) demo_calls" by (simp add: demo_calls_def eval_nat_numeral)
  from sl_play_trace [OF sl_start this demo_trace] show ?thesis by (simp add: new_SynchList_def)
qed

lemma SynchList_is_queue_witness:
  "sl_trace 2 [Appended 1 7, Removed 0 7] [Outside, Outside] (new_SynchList\<lparr>sl_next := 1\<rparr> :: int SynchList) \<and>
   concat (map appended [Appended 1 7, Removed 0 (7 :: int)]) = concat (map removed [Appended 1 7, Removed 0 (7 :: int)]) @ []"
  using demo_reached SynchList_is_queue [OF demo_reached] by (simp add: new_SynchList_def)

lemma sl_no_deadlock_aux:
  assumes l: "lock_inv n ps s" and w: "waiter_inv ps s" and i: "item_inv ps s"
    and b: "\<forall>t<n. ps ! t \<noteq> Outside \<longrightarrow> sl_exec t (ps ! t) s = None"
    and t: "t < n" "ps ! t \<noteq> Outside"
  shows "sl_list s = [] \<and> (\<exists>w. ps ! t = Sleeping w)"
proof -
  have len: "length ps = n" using l by (simp add: lock_inv_def)
  have n: "\<not> token (ps ! u)" if u: "u < n" for u
    using b [rule_format, OF u] by (cases "ps ! u") auto
  then have "tot token ps = 0" using len by (intro tot_none) simp
  then have k: "sl_lock s = 1" using l by (simp add: lock_inv_def lock_ok_def)
  have z: "tot (\<lambda>p. p = Waking w) ps = 0" "tot (\<lambda>p. p = Signalling) ps = 0" for w
  proof -
    have "ps ! u \<noteq> Waking w \<and> ps ! u \<noteq> Signalling" if "u < n" for u using n [OF that] by auto
    then show "tot (\<lambda>p. p = Waking w) ps = 0" "tot (\<lambda>p. p = Signalling) ps = 0" using len by (auto intro!: tot_none)
  qed
  have Q: "\<exists>w. ps ! u = Sleeping w \<and> w \<in> set (sl_queue s)" if u: "u < n" "ps ! u \<noteq> Outside" for u
  proof -
    obtain w where w': "ps ! u = Sleeping w" "sl_waiters s w = Some 0"
      using b u k by (cases "ps ! u") (auto split: option.splits if_splits)
    then have "1 \<le> tot (own w) ps" using tot_pos [of u ps "own w"] u len by simp
    moreover have "of_bool (w \<in> set (sl_queue s)) = tot (own w) ps"
      using w w'(2) z(1) [of w] by (auto simp: waiter_inv_def wval_def dest!: spec [of _ w])
    ultimately have "w \<in> set (sl_queue s)" by (cases "w \<in> set (sl_queue s)") simp_all
    then show ?thesis using w'(1) by blast
  qed
  have "\<not> awake (set (sl_queue s)) (ps ! u)" if "u < n" for u
    using Q [OF that] by (cases "ps ! u = Outside") auto
  then have "tot (awake (set (sl_queue s))) ps = 0" using len by (intro tot_none) simp
  then show ?thesis using Q [OF t] i z(2) by (auto simp: item_inv_def)
qed

text \<open>
  C15: No item is left behind. When no thread inside a call on a \<^verbatim>\<open>SynchList\<close> can go on, the list is empty and every one of these
  threads waits in \<^verbatim>\<open>RemoveFront\<close> for an item; so a thread never sleeps in \<^verbatim>\<open>RemoveFront\<close> while the list has
  items, unless another thread is on its way, and nobody waits for the lock forever.
\<close>

theorem SynchList_no_deadlock:
  assumes "sl_trace n es ps s"
    and "\<forall>t<n. ps ! t \<noteq> Outside \<longrightarrow> sl_exec t (ps ! t) s = None"
    and "t < n" "ps ! t \<noteq> Outside"
  shows "sl_list s = [] \<and> (\<exists>w. ps ! t = Sleeping w)"
  using sl_no_deadlock_aux [OF _ _ _ assms(2-4)] sl_trace_inv [OF assms(1)] by blast

lemma demo_asleep:
  "sl_trace 1 [] [Sleeping 0] (\<lparr>sl_list = [], sl_lock = 1, sl_holder = None, sl_queue = [0],
     sl_waiters = [0 \<mapsto> 0], sl_next = 1\<rparr> :: int SynchList)"
proof -
  let ?c = "(0, Some GoRemoveFront) # replicate 6 (0, None) :: (nat \<times> int sl_goal option) list"
  have "list_all (\<lambda>(t, g). t < 1) ?c" by (simp add: eval_nat_numeral)
  moreover have "sl_play ?c ([], replicate 1 Outside, new_SynchList) = ([], [Sleeping 0], \<lparr>sl_list = [], sl_lock = 1, sl_holder = None,
      sl_queue = [0], sl_waiters = [0 \<mapsto> 0], sl_next = 1\<rparr>)"
    by (simp add: new_SynchList_def eval_nat_numeral seq_append_def)
  ultimately show ?thesis by (rule sl_play_trace [OF sl_start])
qed

lemma SynchList_no_deadlock_witness:
  "sl_list (\<lparr>sl_list = [], sl_lock = 1, sl_holder = None, sl_queue = [0], sl_waiters = [0 \<mapsto> 0], sl_next = 1\<rparr> :: int SynchList) = [] \<and>
   (\<exists>w. [Sleeping 0] ! 0 = (Sleeping w :: int sl_pc))"
  using SynchList_no_deadlock [OF demo_asleep, of 0] by simp

end
