(* ===== verification/Post_Office.thy ===== *)
theory Post_Office
  imports Network Synch_List "HOL-Library.Sublist"
begin

text \<open>
  The post office (\<^verbatim>\<open>network/post.h\<close>, \<^verbatim>\<open>network/post.cc\<close>) on several machines that exchange mail over the simulated network.
  An action is a piece of work of one machine between two points where it can be interrupted: a round of the postal worker,
  a step of a thread inside \<^verbatim>\<open>Send\<close>, an interrupt of the network devices, a \<^verbatim>\<open>Receive\<close> that finds a message. The actions of
  all machines interleave. A mailbox is a \<^verbatim>\<open>SynchList\<close>, used as the queue that theory \<open>Synch_List\<close> shows it to be; a
  \<^verbatim>\<open>Mail*\<close> carries the number of its allocation. A \<^verbatim>\<open>P\<close> can be passed when the value of the semaphore is not 0.
\<close>

section \<open>Mail\<close>

definition MaxMailSize :: nat where "MaxMailSize = MaxPacketSize - 12"

record MailHeader =
  mh_to :: "32 word"
  mh_from :: "32 word"
  mh_length :: "32 word"

definition mail_bytes :: "MailHeader \<Rightarrow> byte list" where
  "mail_bytes h = word_bytes (mh_to h) @ word_bytes (mh_from h) @ word_bytes (mh_length h)"

definition bytes_mail :: "byte list \<Rightarrow> MailHeader" where
  "bytes_mail bs = \<lparr>mh_to = word_at bs 0, mh_from = word_at bs 4, mh_length = word_at bs 8\<rparr>"

record Mail =
  mail_id :: nat
  m_pktHdr :: PacketHeader
  m_mailHdr :: MailHeader
  m_data :: "byte list"

text \<open>\<open>msgData\<close> starts at position \<open>i\<close> of a buffer.\<close>

definition new_Mail :: "nat \<Rightarrow> byte list \<Rightarrow> PacketHeader \<Rightarrow> MailHeader \<Rightarrow> byte list \<Rightarrow> nat \<Rightarrow> Mail result" where
  "new_Mail n junk pktH mailH msgData i =
     rbind (rassert (unat (mh_length mailH) \<le> MaxMailSize)) (\<lambda>_.
     rbind (bcopy msgData i junk 0 (unat (mh_length mailH))) (\<lambda>d.
     Inr \<lparr>mail_id = n, m_pktHdr = pktH, m_mailHdr = mailH, m_data = d\<rparr>))"

section \<open>A machine\<close>

text \<open>The local variables of \<^verbatim>\<open>PostOfficeOutput::Send\<close>, and where a thread is inside it.\<close>

record send_frame =
  sf_pktHdr :: PacketHeader
  sf_mailHdr :: MailHeader
  sf_data :: "byte list"
  sf_buffer :: "byte list"

datatype send_pc =
    SOutside
  | SAcquire send_frame | SAcquired send_frame
  | SSend send_frame
  | STry nat "byte list" send_frame
  | SWait | SRelease | SReleased

text \<open>
  \<open>worker\<close> says that the postal worker has passed the \<^verbatim>\<open>P\<close> of \<^verbatim>\<open>messageAvailable\<close>; \<open>sendInts\<close> counts the scheduled interrupts
  \<^verbatim>\<open>NetworkSendInt\<close>. An interrupt \<^verbatim>\<open>NetworkRecvInt\<close> is always scheduled.
\<close>

record node =
  nd_in :: NetworkInput
  nd_out :: NetworkOutput
  messageAvailable :: int
  boxes :: "Mail list list"
  worker :: bool
  next_mail :: nat
  messageSent :: int
  sendLock :: int
  sendHolder :: "nat option"
  senders :: "send_pc list"
  sendInts :: nat
  numPacketsSent :: int
  numPacketsRecvd :: int

record 'h net =
  nodes :: "32 word \<rightharpoonup> node"
  net_host :: 'h

type_synonym letter = "PacketHeader \<times> MailHeader \<times> byte list"

text \<open>What an observer sees: a letter is put on the wire, or lost on the sending side; a letter is taken from a mailbox.\<close>

datatype net_event = Sent "32 word" letter | Lost "32 word" letter | Got "32 word" int letter

definition new_PostOffice :: "'h datagrams \<Rightarrow> 32 word \<Rightarrow> nat \<Rightarrow> rat \<Rightarrow> nat \<Rightarrow> 'h \<Rightarrow> (node \<times> 'h) result" where
  "new_PostOffice g m nBoxes reliability nThreads h =
     rbind (new_NetworkInput g m h) (\<lambda>(ni, h1).
     rbind (new_NetworkOutput g m reliability h1) (\<lambda>(no, h2).
     Inr (\<lparr>nd_in = ni, nd_out = no, messageAvailable = 0, boxes = replicate nBoxes [], worker = False, next_mail = 0,
       messageSent = 0, sendLock = 1, sendHolder = None, senders = replicate nThreads SOutside, sendInts = 0,
       numPacketsSent = 0, numPacketsRecvd = 0\<rparr>, h2)))"

section \<open>Sending\<close>

text \<open>\<^verbatim>\<open>Send\<close> up to \<^verbatim>\<open>sendLock->Acquire()\<close>.\<close>

definition PostOffice_Send ::
  "'h datagrams \<Rightarrow> 32 word \<Rightarrow> PacketHeader \<Rightarrow> MailHeader \<Rightarrow> byte list \<Rightarrow> 'h \<Rightarrow> send_frame result" where
  "PostOffice_Send g m pktHdr mailHdr data h =
     rbind (rassert (unat (mh_length mailHdr) \<le> MaxMailSize)) (\<lambda>_.
     rbind (rassert (0 \<le> sint (mh_to mailHdr))) (\<lambda>_.
     let pktHdr1 = pktHdr\<lparr>ph_from := m, ph_length := mh_length mailHdr + 12\<rparr> in
     rbind (bcopy (mail_bytes mailHdr) 0 (g_new g m MaxPacketSize h) 0 12) (\<lambda>b.
     rbind (bcopy data 0 b 12 (unat (mh_length mailHdr))) (\<lambda>b1.
     Inr \<lparr>sf_pktHdr = pktHdr1, sf_mailHdr = mailHdr, sf_data = data, sf_buffer = b1\<rparr>))))"

definition the_letter :: "send_frame \<Rightarrow> letter" where
  "the_letter f = (sf_pktHdr f, sf_mailHdr f, take (unat (mh_length (sf_mailHdr f))) (sf_data f))"

text \<open>The rest of \<^verbatim>\<open>Send\<close>, with the rounds of \<^verbatim>\<open>SendToSocket\<close> as steps of their own; \<open>None\<close> when the thread has to wait.\<close>

fun send_step :: "'h datagrams \<Rightarrow> 32 word \<Rightarrow> nat \<Rightarrow> send_pc \<Rightarrow> node \<Rightarrow> 'h \<Rightarrow>
    (send_pc \<times> node \<times> 'h \<times> net_event list) result option" where
  "send_step g m t SOutside nd h = None"
| "send_step g m t (SAcquire f) nd h =
     (if sendLock nd = 0 then None else Some (Inr (SAcquired f, nd\<lparr>sendLock := sendLock nd - 1\<rparr>, h, [])))"
| "send_step g m t (SAcquired f) nd h = Some (Inr (SSend f, nd\<lparr>sendHolder := Some t\<rparr>, h, []))"
| "send_step g m t (SSend f) nd h =
     Some (rbind (NetworkOutput_Send g m (nd_out nd) (sf_pktHdr f) (sf_buffer f) h) (\<lambda>(b, h1).
       let nd1 = nd\<lparr>sendInts := Suc (sendInts nd)\<rparr> in
       case b of None \<Rightarrow> Inr (SWait, nd1, h1, [Lost m (the_letter f)])
       | Some buffer \<Rightarrow> Inr (STry 0 buffer f, nd1, h1, [])))"
| "send_step g m t (STry k buffer f) nd h =
     Some (rbind (SendToSocket_try g m (no_sock (nd_out nd)) buffer (SocketName (ph_to (sf_pktHdr f))) h) (\<lambda>(ok, h1).
       if ok then Inr (SWait, nd, h1, [Sent m (the_letter f)])
       else if Suc k < 10 then Inr (STry (Suc k) buffer f, nd, h1, [])
       else Inr (SWait, nd, h1, [Lost m (the_letter f)])))"
| "send_step g m t SWait nd h =
     (if messageSent nd = 0 then None else Some (Inr (SRelease, nd\<lparr>messageSent := messageSent nd - 1\<rparr>, h, [])))"
| "send_step g m t SRelease nd h =
     Some (rbind (rassert (sendHolder nd = Some t)) (\<lambda>_. Inr (SReleased, nd\<lparr>sendHolder := None\<rparr>, h, [])))"
| "send_step g m t SReleased nd h = Some (Inr (SOutside, nd\<lparr>sendLock := sendLock nd + 1\<rparr>, h, []))"

definition PostOfficeOutput_CallBack :: "node \<Rightarrow> node" where
  "PostOfficeOutput_CallBack nd = nd\<lparr>messageSent := messageSent nd + 1\<rparr>"

definition send_interrupt :: "node \<Rightarrow> node" where
  "send_interrupt nd = PostOfficeOutput_CallBack (nd\<lparr>sendInts := sendInts nd - 1, nd_out := NetworkOutput_CallBack (nd_out nd),
     numPacketsSent := numPacketsSent nd + 1\<rparr>)"

section \<open>Receiving\<close>

definition PostOfficeInput_CallBack :: "node \<Rightarrow> node" where
  "PostOfficeInput_CallBack nd = nd\<lparr>messageAvailable := messageAvailable nd + 1\<rparr>"

definition recv_interrupt :: "'h datagrams \<Rightarrow> 32 word \<Rightarrow> node \<Rightarrow> 'h \<Rightarrow> (node \<times> 'h) result" where
  "recv_interrupt g m nd h =
     rbind (NetworkInput_CallBack g m (nd_in nd) h) (\<lambda>(arrived, ni, h1).
     let nd1 = nd\<lparr>nd_in := ni\<rparr> in
     Inr (if arrived then PostOfficeInput_CallBack (nd1\<lparr>numPacketsRecvd := numPacketsRecvd nd1 + 1\<rparr>) else nd1, h1))"

definition MailBox_Put :: "byte list \<Rightarrow> PacketHeader \<Rightarrow> MailHeader \<Rightarrow> byte list \<Rightarrow> nat \<Rightarrow> nat \<Rightarrow> Mail list \<Rightarrow> Mail list result" where
  "MailBox_Put junk pktHdr mailHdr data i n messages = rbind (new_Mail n junk pktHdr mailHdr data i) (seq_append messages)"

text \<open>A round of \<^verbatim>\<open>PostalDelivery\<close>, once it has passed the \<^verbatim>\<open>P\<close>.\<close>

definition PostalDelivery :: "'h datagrams \<Rightarrow> 32 word \<Rightarrow> node \<Rightarrow> 'h \<Rightarrow> node result" where
  "PostalDelivery g m nd h =
     rbind (NetworkInput_Receive (nd_in nd) (g_new g m MaxPacketSize h)) (\<lambda>((pktHdr, buffer), ni).
     let mailHdr = bytes_mail buffer in
     rbind (rassert (0 \<le> sint (mh_to mailHdr) \<and> sint (mh_to mailHdr) < int (length (boxes nd)))) (\<lambda>_.
     rbind (rassert (unat (mh_length mailHdr) \<le> MaxMailSize)) (\<lambda>_.
     rbind (aread (boxes nd) (sint (mh_to mailHdr))) (\<lambda>box.
     rbind (MailBox_Put (g_new g m MaxMailSize h) pktHdr mailHdr buffer 12 (next_mail nd) box) (\<lambda>box1.
     rbind (awrite (boxes nd) (sint (mh_to mailHdr)) box1) (\<lambda>bs.
     Inr (nd\<lparr>nd_in := ni, boxes := bs, next_mail := Suc (next_mail nd)\<rparr>)))))))"

text \<open>\<^verbatim>\<open>Get\<close> and \<^verbatim>\<open>Receive\<close>, with \<open>None\<close> as long as the mailbox is empty; the letter is what the caller's variables hold.\<close>

definition MailBox_Get :: "Mail list \<Rightarrow> (letter \<times> Mail list) result option" where
  "MailBox_Get messages =
     (if messages = [] then None
      else Some (rbind (seq_remove_front messages) (\<lambda>(mail, rest).
        let n = unat (mh_length (m_mailHdr mail)) in
        if n \<le> length (m_data mail) then Inr ((m_pktHdr mail, m_mailHdr mail, take n (m_data mail)), rest) else Inl OutOfBounds)))"

definition PostOffice_Receive :: "int \<Rightarrow> node \<Rightarrow> (letter \<times> node) result option" where
  "PostOffice_Receive box nd =
     (if \<not> (box \<ge> 0 \<and> box < int (length (boxes nd))) then Some (Inl AssertFailed)
      else map_option (\<lambda>r. rbind r (\<lambda>((pktHdr, mailHdr, data), rest).
        rbind (rassert (unat (mh_length mailHdr) \<le> MaxMailSize)) (\<lambda>_.
        Inr ((pktHdr, mailHdr, data), nd\<lparr>boxes := (boxes nd)[nat box := rest]\<rparr>)))) (MailBox_Get (boxes nd ! nat box)))"

definition delete_PostOffice :: "'h datagrams \<Rightarrow> 32 word \<Rightarrow> node \<Rightarrow> 'h \<Rightarrow> 'h" where
  "delete_PostOffice g m nd h = delete_NetworkOutput g m (nd_out nd) (delete_NetworkInput g m (nd_in nd) h)"

section \<open>Several machines\<close>

datatype action =
    Boot "32 word" nat rat nat
  | CallSend "32 word" nat PacketHeader MailHeader "byte list"
  | SendStep "32 word" nat
  | SendInterrupt "32 word"
  | RecvInterrupt "32 word"
  | Work "32 word"
  | CallReceive "32 word" int

primrec machine_of :: "action \<Rightarrow> 32 word" where
  "machine_of (Boot m n r k) = m"
| "machine_of (CallSend m t p mh d) = m"
| "machine_of (SendStep m t) = m"
| "machine_of (SendInterrupt m) = m"
| "machine_of (RecvInterrupt m) = m"
| "machine_of (Work m) = m"
| "machine_of (CallReceive m b) = m"

text \<open>An action on a running machine: \<open>None\<close> when it cannot happen now.\<close>

fun node_exec :: "'h datagrams \<Rightarrow> action \<Rightarrow> node \<Rightarrow> 'h \<Rightarrow> (node \<times> 'h \<times> net_event list) result option" where
  "node_exec g (Boot m nBoxes reliability nThreads) nd h = None"
| "node_exec g (CallSend m t pktHdr mailHdr data) nd h =
     (if t < length (senders nd) \<and> senders nd ! t = SOutside
      then Some (rbind (PostOffice_Send g m pktHdr mailHdr data h) (\<lambda>f.
        Inr (nd\<lparr>senders := (senders nd)[t := SAcquire f]\<rparr>, h, []))) else None)"
| "node_exec g (SendStep m t) nd h =
     (if t < length (senders nd)
      then map_option (\<lambda>r. rbind r (\<lambda>(p, nd1, h1, ev). Inr (nd1\<lparr>senders := (senders nd1)[t := p]\<rparr>, h1, ev)))
        (send_step g m t (senders nd ! t) nd h) else None)"
| "node_exec g (SendInterrupt m) nd h = (if sendInts nd = 0 then None else Some (Inr (send_interrupt nd, h, [])))"
| "node_exec g (RecvInterrupt m) nd h = Some (rbind (recv_interrupt g m nd h) (\<lambda>(nd1, h1). Inr (nd1, h1, [])))"
| "node_exec g (Work m) nd h =
     (if worker nd then Some (rbind (PostalDelivery g m nd h) (\<lambda>nd1. Inr (nd1\<lparr>worker := False\<rparr>, h, [])))
      else if messageAvailable nd = 0 then None
      else Some (Inr (nd\<lparr>messageAvailable := messageAvailable nd - 1, worker := True\<rparr>, h, [])))"
| "node_exec g (CallReceive m box) nd h =
     map_option (\<lambda>r. rbind r (\<lambda>(l, nd1). Inr (nd1, h, [Got m box l]))) (PostOffice_Receive box nd)"

definition net_exec :: "'h datagrams \<Rightarrow> action \<Rightarrow> 'h net \<Rightarrow> ('h net \<times> net_event list) result option" where
  "net_exec g a s = (let m = machine_of a in case nodes s m of
       None \<Rightarrow> (case a of Boot m nBoxes reliability nThreads \<Rightarrow>
           Some (rbind (new_PostOffice g m nBoxes reliability nThreads (net_host s)) (\<lambda>(nd, h).
             Inr (s\<lparr>nodes := (nodes s)(m \<mapsto> nd), net_host := h\<rparr>, [])))
         | _ \<Rightarrow> None)
     | Some nd \<Rightarrow> map_option (\<lambda>r. rbind r (\<lambda>(nd1, h1, ev). Inr (s\<lparr>nodes := (nodes s)(m \<mapsto> nd1), net_host := h1\<rparr>, ev)))
         (node_exec g a nd (net_host s)))"

text \<open>
  All interleavings of the actions in \<open>A\<close>, with the observable events; at the start no machine runs.
\<close>

inductive net_trace :: "'h datagrams \<Rightarrow> (action \<Rightarrow> bool) \<Rightarrow> 'h \<Rightarrow> net_event list \<Rightarrow> 'h net \<Rightarrow> bool"
  for g :: "'h datagrams" and A :: "action \<Rightarrow> bool" and h0 :: 'h where
  net_start: "net_trace g A h0 [] \<lparr>nodes = (\<lambda>_. None), net_host = h0\<rparr>"
| net_step: "net_trace g A h0 es s \<Longrightarrow> A a \<Longrightarrow> net_exec g a s = Some (Inr (s', ev)) \<Longrightarrow> net_trace g A h0 (es @ ev) s'"

section \<open>Letters on their way\<close>

definition mlen :: "MailHeader \<Rightarrow> nat" where
  "mlen mh = unat (mh_length mh)"

definition letter_of :: "byte list \<Rightarrow> letter" where
  "letter_of p = (let mh = bytes_mail (drop 12 p) in (bytes_packet p, mh, take (mlen mh) (drop 24 p)))"

text \<open>A packet for machine \<open>d\<close> that a post office has sent; \<open>B\<close> restricts the mail headers.\<close>

definition packet_ok :: "(MailHeader \<Rightarrow> bool) \<Rightarrow> 32 word \<Rightarrow> byte list \<Rightarrow> bool" where
  "packet_ok B d p \<longleftrightarrow> (let mh = bytes_mail (drop 12 p) in length p = 64 \<and> ph_to (bytes_packet p) = d \<and>
     unat (ph_length (bytes_packet p)) = mlen mh + 12 \<and> mlen mh \<le> 40 \<and> B mh)"

definition frame_ok :: "(MailHeader \<Rightarrow> bool) \<Rightarrow> 32 word \<Rightarrow> send_frame \<Rightarrow> bool" where
  "frame_ok B m f \<longleftrightarrow> (let n = mlen (sf_mailHdr f) in length (sf_buffer f) = 52 \<and> bytes_mail (sf_buffer f) = sf_mailHdr f \<and>
     take n (drop 12 (sf_buffer f)) = take n (sf_data f) \<and> n \<le> 40 \<and> n \<le> length (sf_data f) \<and>
     ph_from (sf_pktHdr f) = m \<and> unat (ph_length (sf_pktHdr f)) = n + 12 \<and> B (sf_mailHdr f))"

fun pc_ok :: "(MailHeader \<Rightarrow> bool) \<Rightarrow> 32 word \<Rightarrow> send_pc \<Rightarrow> bool" where
  "pc_ok B m (SAcquire f) = frame_ok B m f"
| "pc_ok B m (SAcquired f) = frame_ok B m f"
| "pc_ok B m (SSend f) = frame_ok B m f"
| "pc_ok B m (STry k p f) = (frame_ok B m f \<and> packet_ok B (ph_to (sf_pktHdr f)) p \<and> letter_of p = the_letter f)"
| "pc_ok B m _ = True"

lemma length_mail_bytes [simp]: "length (mail_bytes h) = 12"
  by (simp add: mail_bytes_def)

lemma bytes_mail_bytes [simp]: "bytes_mail (mail_bytes h @ ys) = h"
  by (simp add: bytes_mail_def mail_bytes_def word_at_append2)

lemma bytes_mail_take: "12 \<le> n \<Longrightarrow> n \<le> length bs \<Longrightarrow> bytes_mail (take n bs @ ys) = bytes_mail bs"
  by (simp add: bytes_mail_def word_at_def nth_append)

lemma PostOffice_Send_frame:
  assumes "PostOffice_Send g m pktHdr mailHdr data h = Inr f" "B mailHdr" and l: "\<And>k. length (g_new g m k h) = k"
  shows "frame_ok B m f"
proof -
  have n: "unat (mh_length mailHdr) \<le> 40" "unat (mh_length mailHdr) \<le> length data"
    and f: "f = \<lparr>sf_pktHdr = pktHdr\<lparr>ph_from := m, ph_length := mh_length mailHdr + 12\<rparr>, sf_mailHdr = mailHdr, sf_data = data,
      sf_buffer = mail_bytes mailHdr @ take (unat (mh_length mailHdr)) data @
        drop (12 + unat (mh_length mailHdr)) (mail_bytes mailHdr @ drop 12 (g_new g m 52 h))\<rparr>"
    using assms(1)
    by (auto simp: PostOffice_Send_def Let_def rbind_eq_Inr bcopy_Inr_iff l MaxPacketSize_def MaxWireSize_def MaxMailSize_def)
  have "unat (mh_length mailHdr + 12) = unat (mh_length mailHdr) + 12"
    using n by (simp add: unat_word_ariths)
  then show ?thesis
    using n assms(2) by (simp add: f frame_ok_def mlen_def Let_def l)
qed

lemma NetworkOutput_Send_packet:
  assumes f: "frame_ok B m f" and l: "\<And>k h. length (g_new g m k h) = k"
    and s: "NetworkOutput_Send g m no (sf_pktHdr f) (sf_buffer f) h = Inr (Some p, h1)"
  shows "packet_ok B (ph_to (sf_pktHdr f)) p \<and> letter_of p = the_letter f"
proof -
  let ?n = "mlen (sf_mailHdr f)"
  note F = f [unfolded frame_ok_def Let_def]
  have p: "p = packet_bytes (sf_pktHdr f) @ take (?n + 12) (sf_buffer f) @ drop (12 + (?n + 12)) (packet_bytes (sf_pktHdr f) @ drop 12 (g_new g m 64 h1))"
    using s F by (auto simp: NetworkOutput_Send_def Let_def rbind_eq_Inr bcopy_Inr_iff l MaxWireSize_def split: prod.splits if_splits)
  have d: "drop 12 p = take (?n + 12) (sf_buffer f) @ drop (12 + (?n + 12)) (packet_bytes (sf_pktHdr f) @ drop 12 (g_new g m 64 h1))"
    by (simp add: p)
  have mh: "bytes_mail (drop 12 p) = sf_mailHdr f"
    unfolding d using F by (subst bytes_mail_take) simp_all
  have "drop 24 p = drop 12 (drop 12 p)" by simp
  also have "\<dots> = take ?n (drop 12 (sf_buffer f)) @ drop (24 + ?n) (packet_bytes (sf_pktHdr f) @ drop 12 (g_new g m 64 h1))"
    unfolding d using F by (simp add: drop_take add.commute)
  finally have "take ?n (drop 24 p) = take ?n (sf_data f)" using F by simp
  moreover have "bytes_packet p = sf_pktHdr f" by (simp add: p)
  moreover have "length p = 64" using F by (simp add: p l)
  ultimately show ?thesis
    using F mh by (simp add: packet_ok_def letter_of_def Let_def the_letter_def mlen_def)
qed

section \<open>Invariant of a machine\<close>

fun s_holding :: "send_pc \<Rightarrow> bool" where
  "s_holding (SSend f) = True"
| "s_holding (STry k p f) = True"
| "s_holding SWait = True"
| "s_holding SRelease = True"
| "s_holding _ = False"

fun s_token :: "send_pc \<Rightarrow> bool" where
  "s_token (SAcquired f) = True"
| "s_token SReleased = True"
| "s_token p = s_holding p"

definition inbox_ok :: "(MailHeader \<Rightarrow> bool) \<Rightarrow> NetworkInput \<Rightarrow> bool" where
  "inbox_ok B ni \<longleftrightarrow> (let mh = bytes_mail (inbox ni) in
     unat (ph_length (inHdr ni)) = mlen mh + 12 \<and> mlen mh \<le> 40 \<and> B mh)"

definition mail_ok :: "nat \<Rightarrow> Mail \<Rightarrow> bool" where
  "mail_ok n mail \<longleftrightarrow> mail_id mail < n \<and> length (m_data mail) = 40 \<and> mlen (m_mailHdr mail) \<le> 40"

definition sender_inv :: "node \<Rightarrow> bool" where
  "sender_inv nd \<longleftrightarrow> lock_ok s_token s_holding (senders nd) (sendLock nd) (sendHolder nd)"

interpretation po: lock_protocol s_token s_holding
  by unfold_locales (auto elim: s_holding.elims)

definition node_ok :: "(MailHeader \<Rightarrow> bool) \<Rightarrow> 32 word \<Rightarrow> node \<Rightarrow> bool" where
  "node_ok B m nd \<longleftrightarrow> length (inbox (nd_in nd)) = 52 \<and> 0 \<le> messageAvailable nd \<and>
     messageAvailable nd + of_bool (worker nd) = of_bool (ph_length (inHdr (nd_in nd)) \<noteq> 0) \<and>
     (ph_length (inHdr (nd_in nd)) \<noteq> 0 \<longrightarrow> inbox_ok B (nd_in nd)) \<and>
     (\<forall>box\<in>set (boxes nd). \<forall>mail\<in>set box. mail_ok (next_mail nd) mail) \<and>
     (\<forall>p\<in>set (senders nd). pc_ok B m p) \<and> \<not> sendBusy (nd_out nd) \<and> sender_inv nd"

definition arrived :: "node \<Rightarrow> letter list" where
  "arrived nd = (let ni = nd_in nd; mh = bytes_mail (inbox ni) in
     if ph_length (inHdr ni) = 0 then [] else [(inHdr ni, mh, take (mlen mh) (drop 12 (inbox ni)))])"

definition mail_letter :: "Mail \<Rightarrow> letter" where
  "mail_letter mail = (m_pktHdr mail, m_mailHdr mail, take (mlen (m_mailHdr mail)) (m_data mail))"

definition box_letters :: "node \<Rightarrow> letter list list" where
  "box_letters nd = map (map mail_letter) (boxes nd)"

text \<open>
  What an action of machine \<open>m\<close> does to the letters: nothing, apart from losing one it was to send; put a letter on the wire; fetch a
  packet; deliver it to a mailbox; hand out the first letter of a mailbox.
\<close>

inductive effect :: "('h \<Rightarrow> string \<Rightarrow> byte list list option) \<Rightarrow> (MailHeader \<Rightarrow> bool) \<Rightarrow> 32 word \<Rightarrow> node \<Rightarrow> 'h \<Rightarrow> node \<Rightarrow> 'h \<Rightarrow> net_event list \<Rightarrow> bool"
  for q :: "'h \<Rightarrow> string \<Rightarrow> byte list list option" and B :: "MailHeader \<Rightarrow> bool" and m :: "32 word" where
  quiet: "q h' = q h \<Longrightarrow> arrived nd' = arrived nd \<Longrightarrow> box_letters nd' = box_letters nd \<Longrightarrow> set ev \<subseteq> range (Lost m) \<Longrightarrow>
    effect q B m nd h nd' h' ev"
| post: "q h (SocketName d) = Some ms \<Longrightarrow> q h' = (q h)(SocketName d \<mapsto> ms @ [p]) \<Longrightarrow> packet_ok B d p \<Longrightarrow>
    arrived nd' = arrived nd \<Longrightarrow> box_letters nd' = box_letters nd \<Longrightarrow> effect q B m nd h nd' h' [Sent m (letter_of p)]"
| fetch: "q h (SocketName m) = Some (p # ms) \<Longrightarrow> q h' = (q h)(SocketName m \<mapsto> ms) \<Longrightarrow>
    arrived nd = [] \<Longrightarrow> arrived nd' = [letter_of p] \<Longrightarrow> box_letters nd' = box_letters nd \<Longrightarrow> effect q B m nd h nd' h' []"
| deliver: "q h' = q h \<Longrightarrow> arrived nd = [l] \<Longrightarrow> arrived nd' = [] \<Longrightarrow> i = sint (mh_to (fst (snd l))) \<Longrightarrow> 0 \<le> i \<Longrightarrow>
    i < int (length (boxes nd)) \<Longrightarrow> box_letters nd' = (box_letters nd)[nat i := box_letters nd ! nat i @ [l]] \<Longrightarrow>
    effect q B m nd h nd' h' []"
| take: "q h' = q h \<Longrightarrow> arrived nd' = arrived nd \<Longrightarrow> 0 \<le> i \<Longrightarrow> i < int (length (boxes nd)) \<Longrightarrow>
    box_letters nd ! nat i = l # ls \<Longrightarrow> box_letters nd' = (box_letters nd)[nat i := ls] \<Longrightarrow>
    effect q B m nd h nd' h' [Got m i l]"

text \<open>The steps of a thread inside \<^verbatim>\<open>Send\<close>.\<close>

lemma send_step_fields:
  assumes "send_step g m t p nd h = Some (Inr (p', nd1, h1, ev))"
  shows "nd_in nd1 = nd_in nd \<and> messageAvailable nd1 = messageAvailable nd \<and> worker nd1 = worker nd \<and> boxes nd1 = boxes nd \<and>
    next_mail nd1 = next_mail nd \<and> senders nd1 = senders nd \<and> nd_out nd1 = nd_out nd \<and>
    lock_move s_token s_holding t p (sendLock nd) (sendHolder nd) p' (sendLock nd1) (sendHolder nd1)"
proof (cases p)
  case (SAcquire f)
  then have "sendLock nd \<noteq> 0" "nd1 = nd\<lparr>sendLock := sendLock nd - 1\<rparr>" "p' = SAcquired f"
    using assms by (simp_all split: if_splits)
  then show ?thesis using SAcquire by (simp add: lock_move_def)
next
  case (SAcquired f)
  then have "nd1 = nd\<lparr>sendHolder := Some t\<rparr>" "p' = SSend f" using assms by simp_all
  then show ?thesis using SAcquired by (simp add: lock_move_def)
next
  case (SSend f)
  then have "nd1 = nd\<lparr>sendInts := Suc (sendInts nd)\<rparr>" "s_token p'" "s_holding p'"
    using assms by (auto simp: rbind_eq_Inr Let_def split: option.splits)
  then show ?thesis using SSend by (simp add: lock_move_def)
next
  case (STry k w f)
  then have "nd1 = nd" "s_token p'" "s_holding p'" using assms by (auto simp: rbind_eq_Inr split: if_splits)
  then show ?thesis using STry by (simp add: lock_move_def)
next
  case SWait
  then have "nd1 = nd\<lparr>messageSent := messageSent nd - 1\<rparr>" "p' = SRelease" using assms by (simp_all split: if_splits)
  then show ?thesis using SWait by (simp add: lock_move_def)
next
  case SRelease
  then have "nd1 = nd\<lparr>sendHolder := None\<rparr>" "p' = SReleased" using assms by (simp_all add: rbind_eq_Inr)
  then show ?thesis using SRelease by (simp add: lock_move_def)
next
  case SReleased
  then have "nd1 = nd\<lparr>sendLock := sendLock nd + 1\<rparr>" "p' = SOutside" using assms by simp_all
  then show ?thesis using SReleased by (simp add: lock_move_def)
qed (use assms in simp)

lemma SendToSocket_try_cases:
  assumes d: "datagrams_ok g q b" and s: "SendToSocket_try g m sock p n h = Inr (ok, h1)"
  shows "b h1 = b h \<and> (if ok then \<exists>ms. q h n = Some ms \<and> q h1 = (q h)(n \<mapsto> ms @ [p]) else q h1 = q h)"
proof -
  obtain r h' where r: "g_sendto g m sock p n h = (r, h')" by fastforce
  show ?thesis
    using s datagrams_okD(7,8) [OF d r] by (auto simp: SendToSocket_try_def r rbind_eq_Inr split: if_splits)
qed

lemma NetworkOutput_Send_host:
  assumes d: "datagrams_ok g q b" and s: "NetworkOutput_Send g m no hdr data h = Inr (r, h1)"
  shows "q h1 = q h \<and> b h1 = b h"
proof -
  obtain x h' where r: "g_rand g m h = (x, h')" by fastforce
  show ?thesis
    using s datagrams_okD(9) [OF d r] by (auto simp: NetworkOutput_Send_def r rbind_eq_Inr Let_def split: if_splits)
qed

lemma send_step_ok:
  assumes d: "datagrams_ok g q b" and f: "pc_ok B m p" and e: "send_step g m t p nd h = Some (Inr (p', nd1, h1, ev))"
  shows "pc_ok B m p' \<and> b h1 = b h \<and>
    (q h1 = q h \<and> set ev \<subseteq> range (Lost m) \<or>
     (\<exists>d w ms. q h (SocketName d) = Some ms \<and> q h1 = (q h)(SocketName d \<mapsto> ms @ [w]) \<and> packet_ok B d w \<and> ev = [Sent m (letter_of w)]))"
proof (cases p)
  case (SSend fr)
  then obtain r where s: "NetworkOutput_Send g m (nd_out nd) (sf_pktHdr fr) (sf_buffer fr) h = Inr (r, h1)"
    and r: "p' = (case r of None \<Rightarrow> SWait | Some w \<Rightarrow> STry 0 w fr)" "set ev \<subseteq> range (Lost m)"
    using e by (auto simp: rbind_eq_Inr Let_def split: option.splits)
  show ?thesis
    using r NetworkOutput_Send_host [OF d s] NetworkOutput_Send_packet [of B m fr g "nd_out nd" h _ h1] s f SSend
      datagrams_okD(10) [OF d]
    by (cases r) auto
next
  case (STry k w fr)
  then obtain ok where s: "SendToSocket_try g m (no_sock (nd_out nd)) w (SocketName (ph_to (sf_pktHdr fr))) h = Inr (ok, h1)"
    and r: "p' = (if ok \<or> \<not> Suc k < 10 then SWait else STry (Suc k) w fr)" "ok \<longrightarrow> ev = [Sent m (the_letter fr)]"
      "\<not> ok \<longrightarrow> set ev \<subseteq> range (Lost m)"
    using e by (auto simp: rbind_eq_Inr split: if_splits)
  have w: "packet_ok B (ph_to (sf_pktHdr fr)) w" "letter_of w = the_letter fr" using f STry by auto
  show ?thesis
  proof (cases ok)
    case True
    then show ?thesis using r SendToSocket_try_cases [OF d s] w by fastforce
  next
    case False
    then show ?thesis using r SendToSocket_try_cases [OF d s] w f STry by auto
  qed
qed (use f e in \<open>auto simp: rbind_eq_Inr split: if_splits\<close>)

text \<open>A packet copied into the inbox.\<close>

lemma inbox_of_packet:
  assumes p: "packet_ok B m p" and i: "length ib = 52"
    and n: "n = unat (ph_length (bytes_packet p))" "ib' = take n (drop 12 p) @ drop n ib"
  shows "length ib' = 52" "bytes_mail ib' = bytes_mail (drop 12 p)"
    "take (mlen (bytes_mail (drop 12 p))) (drop 12 ib') = take (mlen (bytes_mail (drop 12 p))) (drop 24 p)" "n \<noteq> 0" "n \<le> 52"
proof -
  let ?k = "mlen (bytes_mail (drop 12 p))"
  have P: "length p = 64" "n = ?k + 12" "?k \<le> 40" using p n(1) by (simp_all add: packet_ok_def Let_def)
  show "n \<noteq> 0" "n \<le> 52" using P by simp_all
  show "length ib' = 52" using P i n(2) by simp
  show "bytes_mail ib' = bytes_mail (drop 12 p)" unfolding n(2) using P by (subst bytes_mail_take) simp_all
  have "drop 12 ib' = take ?k (drop 24 p) @ drop n ib" using P n(2) by (simp add: drop_take add.commute)
  then show "take ?k (drop 12 ib') = take ?k (drop 24 p)" using P by simp
qed

lemma node_ok_in:
  "node_ok B m nd \<Longrightarrow> length (inbox ni) = 52 \<Longrightarrow> 0 \<le> a \<Longrightarrow> a + of_bool w = of_bool (ph_length (inHdr ni) \<noteq> 0) \<Longrightarrow>
   (ph_length (inHdr ni) \<noteq> 0 \<Longrightarrow> inbox_ok B ni) \<Longrightarrow>
   node_ok B m (nd\<lparr>nd_in := ni, messageAvailable := a, worker := w, numPacketsRecvd := c\<rparr>)"
  by (simp add: node_ok_def sender_inv_def)

lemma recv_interrupt_ok:
  assumes d: "datagrams_ok g q b" and n: "node_ok B m nd" and s: "b h m (ni_sock (nd_in nd)) = Some (SocketName m)"
    and q: "q h (SocketName m) = Some ms" "list_all (packet_ok B m) ms"
  shows "\<exists>nd1 h1. recv_interrupt g m nd h = Inr (nd1, h1) \<and> node_ok B m nd1 \<and> b h1 = b h \<and>
    ni_sock (nd_in nd1) = ni_sock (nd_in nd) \<and> effect q B m nd h nd1 h1 []"
proof (cases "ph_length (inHdr (nd_in nd)) \<noteq> 0")
  case True
  then show ?thesis
    using n quiet [of q h h nd nd "[]" m B]
    by (simp add: recv_interrupt_def NetworkInput_CallBack_def)
next
  case False
  obtain h1 where h1: "g_select g m (ni_sock (nd_in nd)) h = (if ms = [] then 0 else 1, h1)" "q h1 = q h" "b h1 = b h"
    using datagrams_okD(5) [OF d s q(1)] by auto
  have a: "messageAvailable nd = 0" "\<not> worker nd" "length (inbox (nd_in nd)) = 52"
    using n False by (auto simp: node_ok_def of_bool_def split: if_splits)
  show ?thesis
  proof (cases ms)
    case Nil
    then show ?thesis
      using n False h1 quiet [of q h1 h nd nd "[]" m B]
      by (simp add: recv_interrupt_def NetworkInput_CallBack_def PollSocket_def PollFile_def Let_def)
  next
    case (Cons p ps)
    have p: "packet_ok B m p" using q Cons by simp
    then have lp: "length p = 64" "ph_to (bytes_packet p) = m" by (simp_all add: packet_ok_def Let_def)
    obtain h2 where h2: "g_recvfrom g m (ni_sock (nd_in nd)) 64 h1 = ((64, p), h2)"
      "q h2 = (q h)(SocketName m \<mapsto> ps)" "b h2 = b h"
      using datagrams_okD(6) [OF d, of h1 m "ni_sock (nd_in nd)" "SocketName m" p ps] s q h1 Cons lp by auto
    define l where "l = unat (ph_length (bytes_packet p))"
    define ib where "ib = take l (drop 12 p) @ drop l (inbox (nd_in nd))"
    define ni where "ni = (nd_in nd)\<lparr>inHdr := bytes_packet p, inbox := ib\<rparr>"
    define nd1 where "nd1 = nd\<lparr>nd_in := ni, messageAvailable := 1, worker := False, numPacketsRecvd := numPacketsRecvd nd + 1\<rparr>"
    note I = inbox_of_packet [OF p a(3) l_def ib_def]
    have r: "recv_interrupt g m nd h = Inr (nd1, h2)"
      using False h1 h2 lp I(4,5) a Cons
      by (simp add: recv_interrupt_def NetworkInput_CallBack_def PollSocket_def PollFile_def ReadFromSocket_def Let_def bcopy_def
          MaxWireSize_def MaxPacketSize_def PostOfficeInput_CallBack_def nd1_def ni_def ib_def l_def)
    have "ph_length (bytes_packet p) \<noteq> 0" using I(4) by (auto simp: l_def)
    moreover have "inbox_ok B ni" using p I(2) by (simp add: inbox_ok_def ni_def packet_ok_def Let_def)
    ultimately have "node_ok B m nd1" "arrived nd1 = [letter_of p]" "arrived nd = []"
      using node_ok_in [OF n, of ni 1 False] I False
      by (simp_all add: nd1_def ni_def arrived_def letter_of_def Let_def)
    then show ?thesis
      using r h2 fetch [of q h m p ps h2 nd nd1 B] q Cons
      by (simp add: nd1_def ni_def box_letters_def)
  qed
qed

text \<open>A round of the postal worker.\<close>

lemma MaxMailSize_40: "MaxMailSize = 40"
  by (simp add: MaxMailSize_def MaxPacketSize_def MaxWireSize_def)

lemma PostalDelivery_cases:
  assumes d: "datagrams_ok g q b" and n: "node_ok B m nd" and w: "worker nd"
  defines "mh \<equiv> bytes_mail (inbox (nd_in nd))"
  shows "B mh \<and> (if 0 \<le> sint (mh_to mh) \<and> sint (mh_to mh) < int (length (boxes nd))
    then \<exists>nd1. PostalDelivery g m nd h = Inr nd1 \<and> node_ok B m (nd1\<lparr>worker := False\<rparr>) \<and>
      ni_sock (nd_in nd1) = ni_sock (nd_in nd) \<and> effect q B m nd h (nd1\<lparr>worker := False\<rparr>) h []
    else PostalDelivery g m nd h = Inl AssertFailed)"
proof -
  have N: "ph_length (inHdr (nd_in nd)) \<noteq> 0" "messageAvailable nd = 0" "length (inbox (nd_in nd)) = 52"
    using n w by (auto simp: node_ok_def of_bool_def split: if_splits)
  then have I: "unat (ph_length (inHdr (nd_in nd))) = mlen mh + 12" "mlen mh \<le> 40" "B mh"
    using n by (auto simp: node_ok_def inbox_ok_def mh_def Let_def)
  define buf where "buf = take (mlen mh + 12) (inbox (nd_in nd)) @ drop (mlen mh + 12) (g_new g m 52 h)"
  have r: "NetworkInput_Receive (nd_in nd) (g_new g m MaxPacketSize h) =
      Inr ((inHdr (nd_in nd), buf), (nd_in nd)\<lparr>inHdr := (inHdr (nd_in nd))\<lparr>ph_length := 0\<rparr>\<rparr>)"
    using N I datagrams_okD(10) [OF d] by (simp add: NetworkInput_Receive_def Let_def bcopy_def buf_def MaxPacketSize_def MaxWireSize_def)
  have mb: "bytes_mail buf = mh" unfolding buf_def using N I by (subst bytes_mail_take) (simp_all add: mh_def)
  have db: "take (mlen mh) (drop 12 buf) = take (mlen mh) (drop 12 (inbox (nd_in nd)))"
    using N I by (simp add: buf_def drop_take)
  have lb: "length buf = 52" using N I datagrams_okD(10) [OF d] by (simp add: buf_def)
  show ?thesis
  proof (cases "0 \<le> sint (mh_to mh) \<and> sint (mh_to mh) < int (length (boxes nd))")
    case False
    then have "PostalDelivery g m nd h = Inl AssertFailed" by (auto simp: PostalDelivery_def r mb Let_def rassert_def)
    then show ?thesis using False I by simp
  next
    case True
    let ?i = "nat (sint (mh_to mh))"
    define mail where "mail = \<lparr>mail_id = next_mail nd, m_pktHdr = inHdr (nd_in nd), m_mailHdr = mh,
      m_data = take (mlen mh) (drop 12 buf) @ drop (mlen mh) (g_new g m 40 h)\<rparr>"
    have fresh: "mail \<notin> set (boxes nd ! ?i)"
      using n True by (auto simp: node_ok_def mail_ok_def mail_def dest!: bspec [of _ _ "boxes nd ! ?i"] bspec [of _ _ mail])
    define nd1 where "nd1 = nd\<lparr>nd_in := (nd_in nd)\<lparr>inHdr := (inHdr (nd_in nd))\<lparr>ph_length := 0\<rparr>\<rparr>,
      boxes := (boxes nd)[?i := boxes nd ! ?i @ [mail]], next_mail := Suc (next_mail nd)\<rparr>"
    have "new_Mail (next_mail nd) (g_new g m MaxMailSize h) (inHdr (nd_in nd)) mh buf 12 = Inr mail"
      using I lb datagrams_okD(10) [OF d]
      by (simp add: new_Mail_def bcopy_def mail_def MaxMailSize_def MaxPacketSize_def MaxWireSize_def mlen_def)
    then have e: "PostalDelivery g m nd h = Inr nd1"
      using True I fresh
      by (simp add: PostalDelivery_def r mb Let_def MailBox_Put_def seq_append_def nd1_def MaxMailSize_40 mlen_def)
    have mo: "mail_ok (Suc (next_mail nd)) mail" using I datagrams_okD(10) [OF d] lb by (simp add: mail_ok_def mail_def)
    have old: "mail_ok (Suc (next_mail nd)) x" if "box \<in> set (boxes nd)" "x \<in> set box" for box x
    proof -
      have "mail_ok (next_mail nd) x" using n that by (simp add: node_ok_def)
      then show ?thesis by (simp add: mail_ok_def)
    qed
    have sub: "set (boxes nd1) \<subseteq> insert (boxes nd ! ?i @ [mail]) (set (boxes nd))" "boxes nd ! ?i \<in> set (boxes nd)"
      using True nth_mem [of ?i "boxes nd"] by (auto simp: nd1_def set_update_subset_insert nat_less_iff)
    have "mail_ok (Suc (next_mail nd)) x" if x: "box \<in> set (boxes nd1)" "x \<in> set box" for box x
    proof -
      consider "box = boxes nd ! ?i @ [mail]" | "box \<in> set (boxes nd)" using x(1) sub(1) by blast
      then show ?thesis using x(2) mo old [OF sub(2), of x] old [of box x] by cases auto
    qed
    then have "node_ok B m (nd1\<lparr>worker := False\<rparr>)"
      using n N by (simp add: node_ok_def nd1_def sender_inv_def)
    moreover have "mail_letter mail = (inHdr (nd_in nd), mh, take (mlen mh) (drop 12 (inbox (nd_in nd))))"
      using db I lb N(3) by (simp add: mail_letter_def mail_def)
    moreover have "?i < length (boxes nd)" using True by (simp add: nat_less_iff)
    ultimately show ?thesis
      using e True I N deliver [of q h h nd "mail_letter mail" "nd1\<lparr>worker := False\<rparr>" "sint (mh_to mh)" B m]
      by (simp add: nd1_def arrived_def box_letters_def Let_def mh_def map_update)
  qed
qed

lemma PostOffice_Receive_cases:
  assumes n: "node_ok B m nd" and r: "0 \<le> i" "i < int (length (boxes nd))"
  shows "PostOffice_Receive i nd = None \<and> boxes nd ! nat i = [] \<or>
    (\<exists>l nd1. PostOffice_Receive i nd = Some (Inr (l, nd1)) \<and> node_ok B m nd1 \<and> nd_in nd1 = nd_in nd \<and>
      effect q B m nd h nd1 h [Got m i l])"
proof (cases "boxes nd ! nat i")
  case Nil
  then show ?thesis using r by (simp add: PostOffice_Receive_def MailBox_Get_def)
next
  case (Cons mail rest)
  have il: "nat i < length (boxes nd)" using r by (simp add: nat_less_iff)
  then have mem: "mail # rest \<in> set (boxes nd)" using Cons nth_mem by fastforce
  then have mo: "mail_ok (next_mail nd) mail" using n by (simp add: node_ok_def)
  define nd1 where "nd1 = nd\<lparr>boxes := (boxes nd)[nat i := rest]\<rparr>"
  have e: "PostOffice_Receive i nd = Some (Inr (mail_letter mail, nd1))"
    using r Cons mo by (simp add: PostOffice_Receive_def MailBox_Get_def seq_remove_front_def Let_def mail_letter_def nd1_def mail_ok_def mlen_def MaxMailSize_40)
  have "set ((boxes nd)[nat i := rest]) \<subseteq> insert rest (set (boxes nd))" by (rule set_update_subset_insert)
  then have "\<forall>box\<in>set ((boxes nd)[nat i := rest]). \<forall>x\<in>set box. mail_ok (next_mail nd) x"
    using n mem unfolding node_ok_def by fastforce
  then have "node_ok B m nd1" using n by (simp add: node_ok_def nd1_def sender_inv_def)
  moreover have "effect q B m nd h nd1 h [Got m i (mail_letter mail)]"
    using il r Cons by (intro take) (simp_all add: nd1_def arrived_def box_letters_def map_update)
  ultimately show ?thesis using e by (auto simp: nd1_def)
qed

section \<open>Actions of a machine\<close>

text \<open>The mail headers passed to \<^verbatim>\<open>Send\<close> satisfy \<open>B\<close>.\<close>

fun sends :: "(MailHeader \<Rightarrow> bool) \<Rightarrow> action \<Rightarrow> bool" where
  "sends B (CallSend m t pktHdr mailHdr data) = B mailHdr"
| "sends B _ = True"

lemma send_step_node:
  assumes d: "datagrams_ok g q b" and n: "node_ok B m nd" and t: "t < length (senders nd)"
    and e: "send_step g m t (senders nd ! t) nd h = Some (Inr (p, nd1, h1, ev))"
  defines "nd2 \<equiv> nd1\<lparr>senders := (senders nd1)[t := p]\<rparr>"
  shows "node_ok B m nd2 \<and> b h1 = b h \<and> nd_in nd2 = nd_in nd \<and> effect q B m nd h nd2 h1 ev"
proof -
  note F = send_step_fields [OF e]
  have pc: "pc_ok B m (senders nd ! t)" using n t by (simp add: node_ok_def)
  note S = send_step_ok [OF d pc e]
  have "set ((senders nd)[t := p]) \<subseteq> insert p (set (senders nd))" by (rule set_update_subset_insert)
  then have "\<forall>x\<in>set ((senders nd)[t := p]). pc_ok B m x" using S n by (auto simp: node_ok_def)
  moreover have "sender_inv nd2"
    using n t F po.move [OF _ t, of "sendLock nd" "sendHolder nd" p "sendLock nd1" "sendHolder nd1"] by (simp add: node_ok_def sender_inv_def nd2_def)
  ultimately have "node_ok B m nd2" using n F by (simp add: node_ok_def nd2_def)
  moreover have same: "arrived nd2 = arrived nd" "box_letters nd2 = box_letters nd" "nd_in nd2 = nd_in nd"
    using F by (simp_all add: nd2_def arrived_def box_letters_def)
  moreover have "effect q B m nd h nd2 h1 ev"
    using S same quiet [of q h1 h nd2 nd ev m B] post [of q h _ _ h1 _ B nd2 nd m] by blast
  ultimately show ?thesis using S by blast
qed

lemma node_exec_ok:
  assumes d: "datagrams_ok g q b" and n: "node_ok B m nd" and s: "b h m (ni_sock (nd_in nd)) = Some (SocketName m)"
    and q: "q h (SocketName m) = Some ms" "list_all (packet_ok B m) ms"
    and a: "machine_of a = m" "sends B a" and e: "node_exec g a nd h = Some (Inr (nd1, h1, ev))"
  shows "node_ok B m nd1 \<and> b h1 = b h \<and> ni_sock (nd_in nd1) = ni_sock (nd_in nd) \<and> effect q B m nd h nd1 h1 ev"
proof (cases a)
  case (CallSend m' t pktHdr mailHdr data)
  then have c: "m' = m" "t < length (senders nd)" "senders nd ! t = SOutside" "B mailHdr" "h1 = h" "ev = []"
    and "\<exists>f. PostOffice_Send g m pktHdr mailHdr data h = Inr f \<and> nd1 = nd\<lparr>senders := (senders nd)[t := SAcquire f]\<rparr>"
    using a e by (auto simp: rbind_eq_Inr split: if_splits)
  then obtain f where f: "PostOffice_Send g m pktHdr mailHdr data h = Inr f" "nd1 = nd\<lparr>senders := (senders nd)[t := SAcquire f]\<rparr>"
    by blast
  have "frame_ok B m f" using PostOffice_Send_frame [OF f(1), of B] c(4) datagrams_okD(10) [OF d] by blast
  then have "\<forall>x\<in>set ((senders nd)[t := SAcquire f]). pc_ok B m x"
    using n set_update_subset_insert [of "senders nd" t "SAcquire f"] by (auto simp: node_ok_def)
  moreover have "sender_inv nd1"
    using n c po.start [of "senders nd" "sendLock nd" "sendHolder nd" t "SAcquire f"] by (simp add: node_ok_def sender_inv_def f(2))
  ultimately have "node_ok B m nd1" using n by (simp add: node_ok_def f(2))
  then show ?thesis using c f quiet [of q h1 h nd1 nd ev m B] by (simp add: arrived_def box_letters_def)
next
  case (SendStep m' t)
  then obtain p nd2 where "send_step g m t (senders nd ! t) nd h = Some (Inr (p, nd2, h1, ev))" "t < length (senders nd)"
    "nd1 = nd2\<lparr>senders := (senders nd2)[t := p]\<rparr>"
    using a e by (auto simp: rbind_eq_Inr split: if_splits)
  then show ?thesis using send_step_node [OF d n, of t h p nd2 h1 ev] by simp
next
  case (SendInterrupt m')
  then have "nd1 = send_interrupt nd" "h1 = h" "ev = []" using e by (auto split: if_splits)
  then show ?thesis
    using n quiet [of q h1 h nd1 nd ev m B]
    by (simp add: node_ok_def sender_inv_def send_interrupt_def PostOfficeOutput_CallBack_def NetworkOutput_CallBack_def arrived_def box_letters_def)
next
  case (RecvInterrupt m')
  then show ?thesis using a e recv_interrupt_ok [OF d n s q] by auto
next
  case (Work m')
  show ?thesis
  proof (cases "worker nd")
    case True
    then obtain nd2 where "PostalDelivery g m nd h = Inr nd2" "nd1 = nd2\<lparr>worker := False\<rparr>" "h1 = h" "ev = []"
      using Work a e by (auto simp: rbind_eq_Inr)
    then show ?thesis using PostalDelivery_cases [OF d n True, of h] by (auto split: if_splits)
  next
    case False
    then have w: "messageAvailable nd \<noteq> 0" "nd1 = nd\<lparr>messageAvailable := messageAvailable nd - 1, worker := True\<rparr>" "h1 = h" "ev = []"
      using Work e by (auto split: if_splits)
    then have "node_ok B m nd1" using n False by (simp add: node_ok_def sender_inv_def)
    then show ?thesis using w quiet [of q h1 h nd1 nd ev m B] by (simp add: arrived_def box_letters_def)
  qed
next
  case (CallReceive m' i)
  then obtain l where r: "PostOffice_Receive i nd = Some (Inr (l, nd1))" "h1 = h" "ev = [Got m i l]"
    using a e by (auto simp: rbind_eq_Inr)
  then have "0 \<le> i" "i < int (length (boxes nd))" by (auto simp: PostOffice_Receive_def MailBox_Get_def split: if_splits)
  from PostOffice_Receive_cases [OF n this, of q h] show ?thesis using r by auto
qed (use e in auto)

section \<open>The network as a whole\<close>

definition for_box :: "int \<Rightarrow> letter \<Rightarrow> bool" where
  "for_box i l \<longleftrightarrow> sint (mh_to (fst (snd l))) = i"

fun sent_to :: "32 word \<Rightarrow> int \<Rightarrow> net_event \<Rightarrow> letter list" where
  "sent_to d i (Sent m l) = (if ph_to (fst l) = d \<and> for_box i l then [l] else [])"
| "sent_to d i _ = []"

fun got_from :: "32 word \<Rightarrow> int \<Rightarrow> net_event \<Rightarrow> letter list" where
  "got_from d i (Got m j l) = (if m = d \<and> j = i then [l] else [])"
| "got_from d i _ = []"

abbreviation all_sent :: "32 word \<Rightarrow> int \<Rightarrow> net_event list \<Rightarrow> letter list" where
  "all_sent d i es \<equiv> concat (map (sent_to d i) es)"

abbreviation all_got :: "32 word \<Rightarrow> int \<Rightarrow> net_event list \<Rightarrow> letter list" where
  "all_got d i es \<equiv> concat (map (got_from d i) es)"

text \<open>The letters for mailbox \<open>i\<close> of a machine that were sent are those taken out, in the mailbox, in the inbox and on the wire.\<close>

definition pipeline :: "32 word \<Rightarrow> node \<Rightarrow> byte list list \<Rightarrow> net_event list \<Rightarrow> bool" where
  "pipeline d nd ms es \<longleftrightarrow> (\<forall>i. 0 \<le> i \<longrightarrow> i < int (length (boxes nd)) \<longrightarrow>
     all_sent d i es = all_got d i es @ box_letters nd ! nat i @ filter (for_box i) (arrived nd @ map letter_of ms))"

lemma lost_silent: "set ev \<subseteq> range (Lost m) \<Longrightarrow> all_sent d i ev = [] \<and> all_got d i ev = []"
  by (induction ev) auto

lemma ph_to_letter: "packet_ok B d p \<Longrightarrow> ph_to (fst (letter_of p)) = d"
  by (simp add: packet_ok_def letter_of_def Let_def)

lemma length_box_letters [simp]: "length (box_letters nd) = length (boxes nd)"
  by (simp add: box_letters_def)

lemma effect_other:
  assumes "effect q B m nd h nd' h' ev" "d \<noteq> m"
  shows "q h (SocketName d) = None \<and> q h' (SocketName d) = None \<and> (\<forall>i. all_sent d i ev = [] \<and> all_got d i ev = []) \<or>
    (\<exists>ms ws. q h (SocketName d) = Some ms \<and> q h' (SocketName d) = Some (ms @ ws) \<and> list_all (packet_ok B d) ws \<and>
      (\<forall>i. all_sent d i ev = filter (for_box i) (map letter_of ws) \<and> all_got d i ev = []))"
  using assms
proof cases
  case quiet
  then show ?thesis using lost_silent [of ev m d] by (cases "q h (SocketName d)") (auto intro!: exI [of _ "[] :: byte list list"])
next
  case (post d' ms p)
  show ?thesis
  proof (cases "d' = d")
    case True
    then show ?thesis using post ph_to_letter [of B d' p] by (intro disjI2 exI [of _ ms] exI [of _ "[p]"]) auto
  next
    case False
    then show ?thesis using post ph_to_letter [of B d' p]
      by (cases "q h (SocketName d)") (auto intro!: exI [of _ "[] :: byte list list"])
  qed
next
  case fetch
  then show ?thesis using assms(2) by (cases "q h (SocketName d)") (auto intro!: exI [of _ "[] :: byte list list"])
next
  case deliver
  then show ?thesis by (cases "q h (SocketName d)") (auto intro!: exI [of _ "[] :: byte list list"])
next
  case take
  then show ?thesis using assms(2) by (cases "q h (SocketName d)") (auto intro!: exI [of _ "[] :: byte list list"])
qed

lemma effect_self:
  assumes "effect q B m nd h nd' h' ev" and q: "q h (SocketName m) = Some ms" "list_all (packet_ok B m) ms"
    and p: "pipeline m nd ms es"
  shows "\<exists>ms'. q h' (SocketName m) = Some ms' \<and> list_all (packet_ok B m) ms' \<and> pipeline m nd' ms' (es @ ev)"
  using assms(1)
proof cases
  case quiet
  then have "length (boxes nd') = length (boxes nd)" using length_box_letters [of nd'] length_box_letters [of nd] by simp
  then show ?thesis using quiet q p by (simp add: pipeline_def lost_silent [OF quiet(4)])
next
  case (post d ms0 w)
  have l: "length (boxes nd') = length (boxes nd)" using post length_box_letters [of nd'] length_box_letters [of nd] by simp
  show ?thesis
  proof (cases "d = m")
    case True
    then show ?thesis using post q p l ph_to_letter [of B d w] by (auto simp: pipeline_def)
  next
    case False
    then show ?thesis using post q p l ph_to_letter [of B d w] by (auto simp: pipeline_def)
  qed
next
  case (fetch w ms0)
  have l: "length (boxes nd') = length (boxes nd)" using fetch length_box_letters [of nd'] length_box_letters [of nd] by simp
  then show ?thesis using fetch q p by (auto simp: pipeline_def)
next
  case (deliver l i)
  have len: "length (boxes nd') = length (boxes nd)"
    using deliver length_box_letters [of nd'] length_box_letters [of nd] by (simp del: length_box_letters)
  have "all_sent m j es = all_got m j es @ box_letters nd' ! nat j @ filter (for_box j) (arrived nd' @ map letter_of ms)"
    if j: "0 \<le> j" "j < int (length (boxes nd))" for j
  proof (cases "j = i")
    case True
    then have "for_box j l" using deliver by (simp add: for_box_def)
    moreover have "nat i < length (box_letters nd)" using deliver by (simp add: nat_less_iff)
    ultimately show ?thesis using p j deliver True by (simp add: pipeline_def)
  next
    case False
    then have "\<not> for_box j l" "nat j \<noteq> nat i" using deliver j by (auto simp: for_box_def)
    then show ?thesis using p j deliver by (simp add: pipeline_def)
  qed
  then show ?thesis using deliver q len by (simp add: pipeline_def)
next
  case (take i l ls)
  have len: "length (boxes nd') = length (boxes nd)"
    using take length_box_letters [of nd'] length_box_letters [of nd] by (simp del: length_box_letters)
  have "all_sent m j (es @ ev) = all_got m j (es @ ev) @ box_letters nd' ! nat j @ filter (for_box j) (arrived nd' @ map letter_of ms)"
    if j: "0 \<le> j" "j < int (length (boxes nd))" for j
  proof (cases "j = i")
    case True
    moreover have "nat i < length (box_letters nd)" using take by (simp add: nat_less_iff)
    ultimately show ?thesis using p j take by (simp add: pipeline_def)
  next
    case False
    then have "nat j \<noteq> nat i" using take j by simp
    then show ?thesis using p j take False by (simp add: pipeline_def)
  qed
  then show ?thesis using take q len by (simp add: pipeline_def)
qed

definition machine_ok :: "('h \<Rightarrow> string \<Rightarrow> byte list list option) \<Rightarrow> ('h \<Rightarrow> 32 word \<Rightarrow> int \<Rightarrow> string option) \<Rightarrow> (MailHeader \<Rightarrow> bool) \<Rightarrow>
    net_event list \<Rightarrow> 'h \<Rightarrow> 32 word \<Rightarrow> node \<Rightarrow> bool" where
  "machine_ok q b B es h d nd \<longleftrightarrow> node_ok B d nd \<and> b h d (ni_sock (nd_in nd)) = Some (SocketName d) \<and>
     (\<exists>ms. q h (SocketName d) = Some ms \<and> list_all (packet_ok B d) ms \<and> pipeline d nd ms es)"

definition net_inv :: "('h \<Rightarrow> string \<Rightarrow> byte list list option) \<Rightarrow> ('h \<Rightarrow> 32 word \<Rightarrow> int \<Rightarrow> string option) \<Rightarrow> (MailHeader \<Rightarrow> bool) \<Rightarrow>
    net_event list \<Rightarrow> 'h net \<Rightarrow> bool" where
  "net_inv q b B es s \<longleftrightarrow> (\<forall>d. case nodes s d of
       None \<Rightarrow> q (net_host s) (SocketName d) = None \<and> (\<forall>i. all_sent d i es = [] \<and> all_got d i es = [])
     | Some nd \<Rightarrow> machine_ok q b B es (net_host s) d nd)"

text \<open>An action of machine \<open>m\<close> seen by another machine.\<close>

lemma machine_ok_other:
  assumes f: "effect q B m nd h nd' h' ev" and d: "d \<noteq> m" and b: "b h' = b h" and o: "machine_ok q b B es h d od"
  shows "machine_ok q b B (es @ ev) h' d od"
proof -
  obtain ms where ms: "q h (SocketName d) = Some ms" "list_all (packet_ok B d) ms" "pipeline d od ms es"
    using o by (auto simp: machine_ok_def)
  then obtain ws where ws: "q h' (SocketName d) = Some (ms @ ws)" "list_all (packet_ok B d) ws"
    "\<And>i. all_sent d i ev = filter (for_box i) (map letter_of ws)" "\<And>i. all_got d i ev = []"
    using effect_other [OF f d] by auto
  then have "pipeline d od (ms @ ws) (es @ ev)" using ms(3) by (simp add: pipeline_def ws(3,4))
  then show ?thesis using o b ms ws by (auto simp: machine_ok_def)
qed

lemma boot_ok:
  assumes d: "datagrams_ok g q b" and e: "new_PostOffice g m nBoxes reliability nThreads h = Inr (nd, h')"
    and z: "\<And>i. all_sent m i es = []" "\<And>i. all_got m i es = []"
  shows "machine_ok q b B es h' m nd \<and> q h' = (q h)(SocketName m \<mapsto> []) \<and>
    (\<forall>x fd. x \<noteq> m \<longrightarrow> b h' x fd = (if b h x fd = Some (SocketName m) then None else b h x fd))"
proof -
  obtain s1 h1 where s1: "g_socket g m h = (s1, h1)" by fastforce
  obtain r2 h2 where u: "g_unlink g (SocketName m) h1 = (r2, h2)" by fastforce
  obtain r3 h3 where bd: "g_bind g m s1 (SocketName m) h2 = (r3, h3)" by fastforce
  obtain s4 h4 where s4: "g_socket g m h3 = (s4, h4)" by fastforce
  have r: "0 \<le> r3" "h' = h4" and nd: "ni_sock (nd_in nd) = s1" "ph_length (inHdr (nd_in nd)) = 0"
    "inbox (nd_in nd) = g_new g m MaxPacketSize h" "messageAvailable nd = 0" "boxes nd = replicate nBoxes []" "\<not> worker nd"
    "senders nd = replicate nThreads SOutside" "sendLock nd = 1" "sendHolder nd = None" "\<not> sendBusy (nd_out nd)"
    using e by (auto simp: new_PostOffice_def new_NetworkInput_def new_NetworkOutput_def OpenSocket_def AssignNameToSocket_def
        s1 u bd s4 rbind_eq_Inr)
  note D = datagrams_okD(1) [OF d s1] datagrams_okD(2) [OF d u] datagrams_okD(3) [OF d u] datagrams_okD(4) [OF d bd r(1)]
    datagrams_okD(1) [OF d s4]
  have q: "q h' = (q h)(SocketName m \<mapsto> [])" using D r(2) by simp
  have "node_ok B m nd"
    using nd datagrams_okD(10) [OF d]
    by (auto simp: node_ok_def sender_inv_def po.fresh MaxPacketSize_def MaxWireSize_def)
  moreover have "pipeline m nd [] es" using nd by (simp add: pipeline_def z box_letters_def arrived_def nat_less_iff)
  ultimately have "machine_ok q b B es h' m nd" using q D r(2) nd(1) by (simp add: machine_ok_def)
  then show ?thesis using q D r(2) by simp
qed

lemma net_inv_exec:
  assumes d: "datagrams_ok g q b" and i: "net_inv q b B es s" and a: "sends B a" and e: "net_exec g a s = Some (Inr (s', ev))"
  shows "net_inv q b B (es @ ev) s'"
proof (cases "nodes s (machine_of a)")
  case None
  then obtain m nBoxes reliability nThreads nd h' where b: "a = Boot m nBoxes reliability nThreads"
    "new_PostOffice g m nBoxes reliability nThreads (net_host s) = Inr (nd, h')"
    and s': "s' = s\<lparr>nodes := (nodes s)(m \<mapsto> nd), net_host := h'\<rparr>" "ev = []"
    using e by (cases a) (auto simp: net_exec_def rbind_eq_Inr Let_def)
  have z: "all_sent m j es = []" "all_got m j es = []" for j
    using i None b(1) by (auto simp: net_inv_def dest!: spec [of _ m])
  note K = boot_ok [OF d b(2) z, of B]
  have "case nodes s' x of
       None \<Rightarrow> q (net_host s') (SocketName x) = None \<and> (\<forall>i. all_sent x i es = [] \<and> all_got x i es = [])
     | Some nd \<Rightarrow> machine_ok q b B es (net_host s') x nd" for x
  proof (cases "x = m")
    case True
    then show ?thesis using K s' by simp
  next
    case False
    have "case nodes s x of
       None \<Rightarrow> q (net_host s) (SocketName x) = None \<and> (\<forall>i. all_sent x i es = [] \<and> all_got x i es = [])
     | Some nd \<Rightarrow> machine_ok q b B es (net_host s) x nd"
      using i by (simp add: net_inv_def)
    then show ?thesis using K s' False by (cases "nodes s x") (auto simp: machine_ok_def)
  qed
  then show ?thesis using s'(2) by (simp add: net_inv_def)
next
  case (Some nd)
  let ?m = "machine_of a" let ?h = "net_host s"
  obtain nd1 h1 where x: "node_exec g a nd ?h = Some (Inr (nd1, h1, ev))"
    and s': "s' = s\<lparr>nodes := (nodes s)(?m \<mapsto> nd1), net_host := h1\<rparr>"
    using e Some by (auto simp: net_exec_def rbind_eq_Inr Let_def)
  have "machine_ok q b B es ?h ?m nd" using i Some by (auto simp: net_inv_def dest!: spec [of _ ?m])
  then obtain ms where M: "node_ok B ?m nd" "b ?h ?m (ni_sock (nd_in nd)) = Some (SocketName ?m)"
    "q ?h (SocketName ?m) = Some ms" "list_all (packet_ok B ?m) ms" "pipeline ?m nd ms es"
    by (auto simp: machine_ok_def)
  note X = node_exec_ok [OF d M(1-4) refl a x]
  have f: "effect q B ?m nd ?h nd1 h1 ev" "b h1 = b ?h" using X by blast+
  have self: "machine_ok q b B (es @ ev) h1 ?m nd1"
    using X M(2) effect_self [OF f(1) M(3-5)] by (auto simp: machine_ok_def)
  have "case nodes s' x of
       None \<Rightarrow> q (net_host s') (SocketName x) = None \<and> (\<forall>i. all_sent x i (es @ ev) = [] \<and> all_got x i (es @ ev) = [])
     | Some nd \<Rightarrow> machine_ok q b B (es @ ev) (net_host s') x nd" for x
  proof (cases "x = ?m")
    case True
    then show ?thesis using self s' by simp
  next
    case False
    have o: "case nodes s x of
       None \<Rightarrow> q ?h (SocketName x) = None \<and> (\<forall>i. all_sent x i es = [] \<and> all_got x i es = [])
     | Some nd \<Rightarrow> machine_ok q b B es ?h x nd"
      using i by (simp add: net_inv_def)
    show ?thesis
    proof (cases "nodes s x")
      case None
      then have "q ?h (SocketName x) = None" "\<And>i. all_sent x i es = []" "\<And>i. all_got x i es = []" using o by auto
      moreover from this have "q h1 (SocketName x) = None" "\<And>i. all_sent x i ev = []" "\<And>i. all_got x i ev = []"
        using effect_other [OF f(1) False] by auto
      ultimately show ?thesis using None False s' by (simp del: concat_eq_Nil_conv)
    next
      case (Some od)
      then show ?thesis using o machine_ok_other [OF f(1) False f(2), of es od] False s' by simp
    qed
  qed
  then show ?thesis by (simp add: net_inv_def)
qed

lemma net_trace_inv:
  assumes "net_trace g A h0 es s" and d: "datagrams_ok g q b" and z: "\<forall>m. q h0 (SocketName m) = None" and A: "\<And>a. A a \<Longrightarrow> sends B a"
  shows "net_inv q b B es s"
  using assms(1)
proof induction
  case net_start
  then show ?case using z by (simp add: net_inv_def)
next
  case (net_step es s a s' ev)
  then show ?case using net_inv_exec [OF d, of B es s a s' ev] A by blast
qed

text \<open>
  C12: Mail arrives unchanged and in order. For any number of machines that send and receive in any interleaving, the letters
  (sender, mail header and data, as the caller of \<^verbatim>\<open>Send\<close> passed them) put on the wire for a mailbox of a running machine are
  those its owners have received so far, in the same order and without duplicates, followed by those in the
  mailbox, in the inbox of the network device and in the socket. What is missing was lost on the sending side. This holds
  for all calls of \<^verbatim>\<open>Send\<close>, also with unsuitable arguments, over a host whose datagram sockets keep boundaries and order.
\<close>

theorem mail_delivered_in_order:
  assumes "datagrams_ok g q b" "\<forall>m. q h0 (SocketName m) = None" "net_trace g A h0 es s" "nodes s d = Some nd"
    and "0 \<le> i" "i < int (length (boxes nd))"
  shows "\<exists>ms. q (net_host s) (SocketName d) = Some ms \<and>
    all_sent d i es = all_got d i es @ map mail_letter (boxes nd ! nat i) @ filter (for_box i) (arrived nd @ map letter_of ms)"
proof -
  have "sends (\<lambda>_. True) a" for a by (cases a) auto
  then have "net_inv q b (\<lambda>_. True) es s" using net_trace_inv [OF assms(3,1,2)] by blast
  then have "machine_ok q b (\<lambda>_. True) es (net_host s) d nd"
    using assms(4) by (auto simp: net_inv_def dest!: spec [of _ d])
  moreover have "box_letters nd ! nat i = map mail_letter (boxes nd ! nat i)"
    using assms(5,6) by (simp add: box_letters_def nat_less_iff)
  ultimately show ?thesis using assms(5,6) by (auto simp: machine_ok_def pipeline_def)
qed

section \<open>No assertion fails\<close>

text \<open>Machines with \<open>N\<close> mailboxes, mail for one of them that fits into a packet, receiving from one of them.\<close>

fun legal :: "nat \<Rightarrow> action \<Rightarrow> bool" where
  "legal N (Boot m nBoxes reliability nThreads) = (nBoxes = N)"
| "legal N (CallSend m t pktHdr mailHdr data) =
     (mlen mailHdr \<le> 40 \<and> mlen mailHdr \<le> length data \<and> 0 \<le> sint (mh_to mailHdr) \<and> sint (mh_to mailHdr) < int N)"
| "legal N (CallReceive m i) = (0 \<le> i \<and> i < int N)"
| "legal N _ = True"

abbreviation valid_box :: "nat \<Rightarrow> MailHeader \<Rightarrow> bool" where
  "valid_box N mh \<equiv> 0 \<le> sint (mh_to mh) \<and> sint (mh_to mh) < int N"

lemma legal_sends: "legal N a \<Longrightarrow> sends (valid_box N) a"
  by (cases a) auto

lemma effect_boxes: "effect q B m nd h nd' h' ev \<Longrightarrow> length (boxes nd') = length (boxes nd)"
proof -
  assume "effect q B m nd h nd' h' ev"
  then have "length (box_letters nd') = length (box_letters nd)" by cases auto
  then show ?thesis by simp
qed

lemma send_step_no_fault:
  assumes d: "datagrams_ok g q b" and n: "node_ok B m nd" and t: "t < length (senders nd)"
  shows "send_step g m t (senders nd ! t) nd h \<noteq> Some (Inl f)"
proof (cases "senders nd ! t")
  case (SSend fr)
  have "pc_ok B m (senders nd ! t)" using n t by (simp add: node_ok_def)
  then have F: "frame_ok B m fr" using SSend by simp
  obtain r h1 where r: "g_rand g m h = (r, h1)" by fastforce
  show ?thesis
    using SSend F n datagrams_okD(10) [OF d]
    by (auto simp: NetworkOutput_Send_def r frame_ok_def Let_def bcopy_def node_ok_def MaxPacketSize_def MaxWireSize_def)
next
  case (STry k w fr)
  obtain r h1 where r: "g_sendto g m (no_sock (nd_out nd)) w (SocketName (ph_to (sf_pktHdr fr))) h = (r, h1)" by fastforce
  show ?thesis using STry datagrams_okD(8) [OF d r] by (auto simp: SendToSocket_try_def r split: if_splits)
next
  case SRelease
  then have "sendHolder nd = Some t"
    using n t po.holds [of "senders nd" "sendLock nd" "sendHolder nd" t] by (simp add: node_ok_def sender_inv_def)
  then show ?thesis using SRelease by simp
qed auto

lemma node_exec_no_fault:
  assumes d: "datagrams_ok g q b" and n: "node_ok (valid_box N) m nd" and s: "b h m (ni_sock (nd_in nd)) = Some (SocketName m)"
    and q: "q h (SocketName m) = Some ms" "list_all (packet_ok (valid_box N) m) ms"
    and a: "machine_of a = m" "legal N a" and l: "length (boxes nd) = N"
  shows "node_exec g a nd h \<noteq> Some (Inl f)"
proof (cases a)
  case (CallSend m' t pktHdr mailHdr data)
  then show ?thesis using a datagrams_okD(10) [OF d]
    by (auto simp: PostOffice_Send_def Let_def bcopy_def mlen_def MaxMailSize_40 MaxPacketSize_def MaxWireSize_def)
next
  case (SendStep m' t)
  have "rbind r (\<lambda>(p, nd1, h1, ev). Inr (nd1\<lparr>senders := (senders nd1)[t := p]\<rparr>, h1, ev)) = Inl f \<Longrightarrow> r = Inl f" for r
    by (cases r) auto
  then show ?thesis using SendStep a send_step_no_fault [OF d n, of t h f] by auto
next
  case (RecvInterrupt m')
  then show ?thesis using a recv_interrupt_ok [OF d n s q] by auto
next
  case (Work m')
  then show ?thesis using a l PostalDelivery_cases [OF d n, of h] by (cases "worker nd") auto
next
  case (CallReceive m' i)
  then show ?thesis using a l PostOffice_Receive_cases [OF n, of i q h] by auto
qed auto

lemma net_trace_boxes:
  assumes "net_trace g A h0 es s" and d: "datagrams_ok g q b" and z: "\<forall>m. q h0 (SocketName m) = None" and A: "\<And>a. A a \<Longrightarrow> legal N a"
  shows "nodes s m = Some nd \<Longrightarrow> length (boxes nd) = N"
  using assms(1)
proof (induction arbitrary: m nd)
  case (net_step es s a s' ev)
  show ?case
  proof (cases "nodes s (machine_of a)")
    case None
    then obtain m' reliability nThreads nd' h' where b: "a = Boot m' N reliability nThreads"
      "new_PostOffice g m' N reliability nThreads (net_host s) = Inr (nd', h')"
      "nodes s' = (nodes s)(m' \<mapsto> nd')"
      using net_step.hyps A [OF net_step.hyps(2)] by (cases a) (auto simp: net_exec_def rbind_eq_Inr Let_def)
    then have "length (boxes nd') = N" by (auto simp: new_PostOffice_def rbind_eq_Inr)
    then show ?thesis using net_step.IH [of m nd] net_step.prems b(3) by (cases "m = m'") auto
  next
    case (Some nd0)
    obtain nd1 h1 where x: "node_exec g a nd0 (net_host s) = Some (Inr (nd1, h1, ev))"
      and s': "nodes s' = (nodes s)(machine_of a \<mapsto> nd1)"
      using net_step.hyps Some by (auto simp: net_exec_def rbind_eq_Inr Let_def)
    have "net_inv q b (valid_box N) es s"
      using net_trace_inv [OF net_step.hyps(1) d z] A legal_sends by blast
    then have "machine_ok q b (valid_box N) es (net_host s) (machine_of a) nd0"
      using Some by (auto simp: net_inv_def dest!: spec [of _ "machine_of a"])
    then have "effect q (valid_box N) (machine_of a) nd0 (net_host s) nd1 h1 ev"
      using node_exec_ok [OF d _ _ _ _ refl _ x] legal_sends A [OF net_step.hyps(2)] unfolding machine_ok_def by blast
    then have "length (boxes nd1) = N" using effect_boxes net_step.IH [OF Some] by fastforce
    then show ?thesis using net_step.IH [of m nd] net_step.prems s' by (cases "m = machine_of a") auto
  qed
qed simp

text \<open>
  C13: No assertion of the network devices, the post office or the lock fails, and no buffer is overrun, on any machine and in any
  interleaving, as long as every machine has \<open>N\<close> mailboxes, all mail is sent to one of these mailboxes and is at most \<^verbatim>\<open>MaxMailSize\<close> bytes
  long, and programs receive from existing mailboxes. (Starting a machine can fail when the host refuses a socket.)
\<close>

theorem network_assertions_hold:
  assumes "datagrams_ok g q b" "\<forall>m. q h0 (SocketName m) = None" "net_trace g (legal N) h0 es s"
    and "legal N a" "nodes s (machine_of a) \<noteq> None"
  shows "net_exec g a s \<noteq> Some (Inl f)"
proof -
  obtain nd where nd: "nodes s (machine_of a) = Some nd" using assms(5) by blast
  have "net_inv q b (valid_box N) es s"
    using net_trace_inv [OF assms(3,1,2)] legal_sends by blast
  then have "machine_ok q b (valid_box N) es (net_host s) (machine_of a) nd"
    using nd by (auto simp: net_inv_def dest!: spec [of _ "machine_of a"])
  then have "node_exec g a nd (net_host s) \<noteq> Some (Inl f)"
    using node_exec_no_fault [OF assms(1) _ _ _ _ refl assms(4) net_trace_boxes [OF assms(3,1,2) _ nd]]
    unfolding machine_ok_def by blast
  then show ?thesis
    using nd by (auto simp: net_exec_def Let_def rbind_def split: sum.splits)
qed

section \<open>Two machines exchange a letter\<close>

text \<open>Sockets that never fail: the waiting datagrams of each name and the name of each descriptor.\<close>

type_synonym toy_host = "(string \<Rightarrow> byte list list option) \<times> (32 word \<Rightarrow> int \<Rightarrow> string option)"

definition toy_sockets :: "toy_host datagrams" where
  "toy_sockets = \<lparr>g_socket = (\<lambda>m h. (3, h)),
     g_bind = (\<lambda>m fd n (q, b). (0, q(n \<mapsto> []), b(m := (b m)(fd \<mapsto> n)))),
     g_unlink = (\<lambda>n (q, b). (0, q(n := None), \<lambda>m fd. if b m fd = Some n then None else b m fd)),
     g_close = (\<lambda>m fd h. (0, h)),
     g_select = (\<lambda>m fd (q, b). (case Option.bind (b m fd) q of Some (p # ms) \<Rightarrow> 1 | _ \<Rightarrow> 0, q, b)),
     g_recvfrom = (\<lambda>m fd k (q, b). case Option.bind (b m fd) q of
         Some (p # ms) \<Rightarrow> ((int (length p), p), q(the (b m fd) \<mapsto> ms), b) | _ \<Rightarrow> ((-1, []), q, b)),
     g_sendto = (\<lambda>m fd p n (q, b). case q n of Some ms \<Rightarrow> (int (length p), q(n \<mapsto> ms @ [p]), b) | None \<Rightarrow> (-1, q, b)),
     g_rand = (\<lambda>m h. (7, h)), g_new = (\<lambda>m k h. replicate k 0), g_times = (*)\<rparr>"

lemma toy_sockets_ok: "datagrams_ok toy_sockets fst snd"
  unfolding datagrams_ok_def toy_sockets_def by (auto split: option.splits list.splits)

fun net_play :: "'h datagrams \<Rightarrow> action list \<Rightarrow> net_event list \<times> 'h net \<Rightarrow> net_event list \<times> 'h net" where
  "net_play g [] c = c"
| "net_play g (a # as) (es, s) = net_play g as (case net_exec g a s of Some (Inr (s', ev)) \<Rightarrow> (es @ ev, s') | _ \<Rightarrow> (es, s))"

lemma net_play_trace:
  "net_trace g A h0 es s \<Longrightarrow> list_all A as \<Longrightarrow> net_play g as (es, s) = (es', s') \<Longrightarrow> net_trace g A h0 es' s'"
proof (induction "as" arbitrary: es s)
  case (Cons a "as")
  then show ?case using net_trace.net_step [OF Cons.prems(1), of a]
    by (cases "net_exec g a s") (auto split: sum.splits prod.splits)
qed simp

definition hello :: "action list" where
  "hello = [Boot 0 10 1 1, Boot 1 10 1 1,
     CallSend 0 0 \<lparr>ph_to = 1, ph_from = 0, ph_length = 0\<rparr> \<lparr>mh_to = 4, mh_from = 1, mh_length = 2\<rparr> [72, 105]] @
     replicate 4 (SendStep 0 0) @ [RecvInterrupt 1, Work 1, Work 1, SendInterrupt 0] @ replicate 3 (SendStep 0 0) @
     [CallReceive 1 4]"

definition hello_end :: "net_event list \<times> toy_host net" where
  "hello_end = net_play toy_sockets hello ([], \<lparr>nodes = (\<lambda>_. None), net_host = (\<lambda>_. None, \<lambda>_ _. None)\<rparr>)"

lemma hello_delivered:
  "fst hello_end = (let l = (\<lparr>ph_to = 1, ph_from = 0, ph_length = 14\<rparr>, \<lparr>mh_to = 4, mh_from = 1, mh_length = 2\<rparr>, [72, 105])
     in [Sent 0 l, Got 1 4 l])"
  unfolding hello_end_def hello_def by code_simp


lemma hello_node: "case nodes (snd hello_end) 1 of None \<Rightarrow> False | Some nd \<Rightarrow> length (boxes nd) = 10"
  unfolding hello_end_def hello_def by code_simp

lemma hello_trace: "net_trace toy_sockets (legal 10) (\<lambda>_. None, \<lambda>_ _. None) (fst hello_end) (snd hello_end)"
proof (rule net_play_trace [OF net_start])
  show "list_all (legal 10) hello" by (simp add: hello_def list_all_iff mlen_def)
  show "net_play toy_sockets hello ([], \<lparr>nodes = Map.empty, net_host = (Map.empty, \<lambda>_. Map.empty)\<rparr>) = (fst hello_end, snd hello_end)"
    by (simp add: hello_end_def)
qed

lemma mail_delivered_in_order_witness:
  "\<exists>nd ms. nodes (snd hello_end) 1 = Some nd \<and> fst (net_host (snd hello_end)) (SocketName 1) = Some ms \<and>
     all_sent 1 4 (fst hello_end) = all_got 1 4 (fst hello_end) @ map mail_letter (boxes nd ! 4) @ filter (for_box 4) (arrived nd @ map letter_of ms)"
proof -
  obtain nd where nd: "nodes (snd hello_end) 1 = Some nd" "length (boxes nd) = 10" using hello_node by (auto split: option.splits)
  show ?thesis using mail_delivered_in_order [OF toy_sockets_ok _ hello_trace nd(1), of 4] nd by auto
qed

lemma network_assertions_hold_witness:
  "nodes (snd hello_end) 1 \<noteq> None \<and> net_exec toy_sockets (RecvInterrupt 1) (snd hello_end) \<noteq> Some (Inl AssertFailed)"
proof -
  have n: "nodes (snd hello_end) (machine_of (RecvInterrupt 1)) \<noteq> None" using hello_node by (auto split: option.splits)
  then show ?thesis using network_assertions_hold [OF toy_sockets_ok _ hello_trace _ n] by simp
qed

end
