(* ===== verification/Console.thy ===== *)
theory Console
  imports Host_Files Lock_Protocol "HOL-Library.Sublist"
begin

text \<open>
  The console devices (\<^verbatim>\<open>machine/console.h\<close>, \<^verbatim>\<open>machine/console.cc\<close>) and their synchronous versions
  (\<^verbatim>\<open>userprog/synchconsole.cc\<close>), for any number of threads that read and write characters. Each thread is outside or at a control point of
  \<^verbatim>\<open>GetChar\<close> or \<^verbatim>\<open>PutChar\<close>; its steps interleave with those of the others and with the interrupts the devices have scheduled, which
  can occur at any time. A \<^verbatim>\<open>P\<close> can be passed when the value of the semaphore is not 0. Keyboard and display are
  UNIX files. A \<^verbatim>\<open>char\<close> is signed on the host, so \<^verbatim>\<open>EOF\<close>, which is -1, is the character 255.
\<close>

definition EOF :: byte where "EOF = 255"

section \<open>Keyboard\<close>

text \<open>\<open>readInts\<close> counts the scheduled interrupts \<^verbatim>\<open>ConsoleReadInt\<close>.\<close>

record ConsoleInput =
  readFileNo :: int
  incoming :: byte
  readInts :: nat
  numConsoleCharsRead :: int

definition new_ConsoleInput :: "'h unix \<Rightarrow> string option \<Rightarrow> 'h \<Rightarrow> (ConsoleInput \<times> 'h) result" where
  "new_ConsoleInput u readFile h =
     rbind (case readFile of None \<Rightarrow> Inr (0, h) | Some name \<Rightarrow> OpenForReadWrite u name True h) (\<lambda>(fd, h1).
     Inr (\<lparr>readFileNo = fd, incoming = EOF, readInts = 1, numConsoleCharsRead = 0\<rparr>, h1))"

definition delete_ConsoleInput :: "'h unix \<Rightarrow> ConsoleInput \<Rightarrow> 'h \<Rightarrow> 'h result" where
  "delete_ConsoleInput u ci h =
     (if readFileNo ci \<noteq> 0 then rbind (Close_fd u (readFileNo ci) h) (\<lambda>(r, h1). Inr h1) else Inr h)"

text \<open>Whether \<^verbatim>\<open>callWhenAvail\<close> is called, with the new state.\<close>

definition ConsoleInput_CallBack ::
  "'h unix \<Rightarrow> (int \<Rightarrow> 'h \<Rightarrow> int \<times> 'h) \<Rightarrow> ConsoleInput \<Rightarrow> 'h \<Rightarrow> (bool \<times> ConsoleInput \<times> 'h) result" where
  "ConsoleInput_CallBack u select ci h =
     rbind (rassert (incoming ci = EOF)) (\<lambda>_.
     rbind (PollFile select (readFileNo ci) h) (\<lambda>(avail, h1).
     if \<not> avail then Inr (False, ci\<lparr>readInts := Suc (readInts ci)\<rparr>, h1)
     else rbind (ReadPartial u (readFileNo ci) 1 h1) (\<lambda>((readCount, bs), h2).
       if readCount = 0 then Inr (True, ci, h2)
       else rbind (rassert (readCount = 1)) (\<lambda>_.
         rbind (aread bs 0) (\<lambda>c.
         Inr (True, ci\<lparr>incoming := c, numConsoleCharsRead := numConsoleCharsRead ci + 1\<rparr>, h2))))))"

definition ConsoleInput_GetChar :: "ConsoleInput \<Rightarrow> byte \<times> ConsoleInput" where
  "ConsoleInput_GetChar ci =
     (incoming ci, ci\<lparr>readInts := (if incoming ci \<noteq> EOF then Suc (readInts ci) else readInts ci), incoming := EOF\<rparr>)"

text \<open>The control points of \<^verbatim>\<open>SynchConsoleInput::GetChar\<close>.\<close>

datatype in_pc = IOutside | IAcquire | IAcquired | IWait | IGet | IRelease | IReleased

record SynchConsoleInput =
  consoleInput :: ConsoleInput
  in_lock :: int
  in_holder :: "nat option"
  in_waitFor :: int
  readers :: "in_pc list"

definition new_SynchConsoleInput :: "'h unix \<Rightarrow> string option \<Rightarrow> nat \<Rightarrow> 'h \<Rightarrow> (SynchConsoleInput \<times> 'h) result" where
  "new_SynchConsoleInput u inputFile n h =
     rbind (new_ConsoleInput u inputFile h) (\<lambda>(ci, h1).
     Inr (\<lparr>consoleInput = ci, in_lock = 1, in_holder = None, in_waitFor = 0, readers = replicate n IOutside\<rparr>, h1))"

definition delete_SynchConsoleInput :: "'h unix \<Rightarrow> SynchConsoleInput \<Rightarrow> 'h \<Rightarrow> 'h result" where
  "delete_SynchConsoleInput u s h = delete_ConsoleInput u (consoleInput s) h"

definition SynchConsoleInput_CallBack :: "SynchConsoleInput \<Rightarrow> SynchConsoleInput" where
  "SynchConsoleInput_CallBack s = s\<lparr>in_waitFor := in_waitFor s + 1\<rparr>"

text \<open>A step of \<^verbatim>\<open>GetChar\<close> in thread \<open>t\<close>, with the character it takes from the device; \<open>None\<close> when it has to wait.\<close>

fun get_step :: "nat \<Rightarrow> in_pc \<Rightarrow> SynchConsoleInput \<Rightarrow> (in_pc \<times> SynchConsoleInput \<times> byte list) result option" where
  "get_step t IOutside s = None"
| "get_step t IAcquire s = (if in_lock s = 0 then None else Some (Inr (IAcquired, s\<lparr>in_lock := in_lock s - 1\<rparr>, [])))"
| "get_step t IAcquired s = Some (Inr (IWait, s\<lparr>in_holder := Some t\<rparr>, []))"
| "get_step t IWait s = (if in_waitFor s = 0 then None else Some (Inr (IGet, s\<lparr>in_waitFor := in_waitFor s - 1\<rparr>, [])))"
| "get_step t IGet s = Some (let (ch, ci) = ConsoleInput_GetChar (consoleInput s) in Inr (IRelease, s\<lparr>consoleInput := ci\<rparr>, [ch]))"
| "get_step t IRelease s =
     Some (rbind (rassert (in_holder s = Some t)) (\<lambda>_. Inr (IReleased, s\<lparr>in_holder := None\<rparr>, [])))"
| "get_step t IReleased s = Some (Inr (IOutside, s\<lparr>in_lock := in_lock s + 1\<rparr>, []))"

definition read_interrupt ::
  "'h unix \<Rightarrow> (int \<Rightarrow> 'h \<Rightarrow> int \<times> 'h) \<Rightarrow> SynchConsoleInput \<Rightarrow> 'h \<Rightarrow> (SynchConsoleInput \<times> 'h) result" where
  "read_interrupt u select s h =
     (let ci = (consoleInput s)\<lparr>readInts := readInts (consoleInput s) - 1\<rparr> in
      rbind (ConsoleInput_CallBack u select ci h) (\<lambda>(call, ci1, h1).
      let s1 = s\<lparr>consoleInput := ci1\<rparr> in Inr (if call then SynchConsoleInput_CallBack s1 else s1, h1)))"

text \<open>All interleavings, with the characters returned so far, from the state \<open>s0\<close> of the constructor.\<close>

inductive in_trace :: "'h unix \<Rightarrow> (int \<Rightarrow> 'h \<Rightarrow> int \<times> 'h) \<Rightarrow> SynchConsoleInput \<Rightarrow> 'h \<Rightarrow> byte list \<Rightarrow> SynchConsoleInput \<Rightarrow> 'h \<Rightarrow> bool"
  for u :: "'h unix" and select :: "int \<Rightarrow> 'h \<Rightarrow> int \<times> 'h" and s0 :: SynchConsoleInput and h0 :: 'h where
  in_start: "in_trace u select s0 h0 [] s0 h0"
| in_call: "in_trace u select s0 h0 cs s h \<Longrightarrow> t < length (readers s) \<Longrightarrow> readers s ! t = IOutside \<Longrightarrow>
    in_trace u select s0 h0 cs (s\<lparr>readers := (readers s)[t := IAcquire]\<rparr>) h"
| in_step: "in_trace u select s0 h0 cs s h \<Longrightarrow> t < length (readers s) \<Longrightarrow> get_step t (readers s ! t) s = Some (Inr (p, s', c)) \<Longrightarrow>
    in_trace u select s0 h0 (cs @ c) (s'\<lparr>readers := (readers s')[t := p]\<rparr>) h"
| in_int: "in_trace u select s0 h0 cs s h \<Longrightarrow> readInts (consoleInput s) \<noteq> 0 \<Longrightarrow> read_interrupt u select s h = Inr (s', h') \<Longrightarrow>
    in_trace u select s0 h0 cs s' h'"

section \<open>Display\<close>

record ConsoleOutput =
  writeFileNo :: int
  putBusy :: bool
  writeInts :: nat
  numConsoleCharsWritten :: int

definition new_ConsoleOutput :: "'h unix \<Rightarrow> string option \<Rightarrow> 'h \<Rightarrow> (ConsoleOutput \<times> 'h) result" where
  "new_ConsoleOutput u writeFile h =
     rbind (case writeFile of None \<Rightarrow> Inr (1, h) | Some name \<Rightarrow> OpenForWrite u name True h) (\<lambda>(fd, h1).
     Inr (\<lparr>writeFileNo = fd, putBusy = False, writeInts = 0, numConsoleCharsWritten = 0\<rparr>, h1))"

definition delete_ConsoleOutput :: "'h unix \<Rightarrow> ConsoleOutput \<Rightarrow> 'h \<Rightarrow> 'h result" where
  "delete_ConsoleOutput u co h =
     (if writeFileNo co \<noteq> 1 then rbind (Close_fd u (writeFileNo co) h) (\<lambda>(r, h1). Inr h1) else Inr h)"

definition ConsoleOutput_CallBack :: "ConsoleOutput \<Rightarrow> ConsoleOutput" where
  "ConsoleOutput_CallBack co = co\<lparr>putBusy := False, numConsoleCharsWritten := numConsoleCharsWritten co + 1\<rparr>"

definition ConsoleOutput_PutChar :: "'h unix \<Rightarrow> byte \<Rightarrow> ConsoleOutput \<Rightarrow> 'h \<Rightarrow> (ConsoleOutput \<times> 'h) result" where
  "ConsoleOutput_PutChar u ch co h =
     rbind (rassert (\<not> putBusy co)) (\<lambda>_.
     rbind (WriteFile u (writeFileNo co) [ch] h) (\<lambda>h1.
     Inr (co\<lparr>putBusy := True, writeInts := Suc (writeInts co)\<rparr>, h1)))"

datatype out_pc = OOutside | OAcquire byte | OAcquired byte | OPut byte | OWait | ORelease | OReleased

record SynchConsoleOutput =
  consoleOutput :: ConsoleOutput
  out_lock :: int
  out_holder :: "nat option"
  out_waitFor :: int
  writers :: "out_pc list"

definition new_SynchConsoleOutput :: "'h unix \<Rightarrow> string option \<Rightarrow> nat \<Rightarrow> 'h \<Rightarrow> (SynchConsoleOutput \<times> 'h) result" where
  "new_SynchConsoleOutput u outputFile n h =
     rbind (new_ConsoleOutput u outputFile h) (\<lambda>(co, h1).
     Inr (\<lparr>consoleOutput = co, out_lock = 1, out_holder = None, out_waitFor = 0, writers = replicate n OOutside\<rparr>, h1))"

definition delete_SynchConsoleOutput :: "'h unix \<Rightarrow> SynchConsoleOutput \<Rightarrow> 'h \<Rightarrow> 'h result" where
  "delete_SynchConsoleOutput u s h = delete_ConsoleOutput u (consoleOutput s) h"

definition SynchConsoleOutput_CallBack :: "SynchConsoleOutput \<Rightarrow> SynchConsoleOutput" where
  "SynchConsoleOutput_CallBack s = s\<lparr>out_waitFor := out_waitFor s + 1\<rparr>"

fun put_step :: "'h unix \<Rightarrow> nat \<Rightarrow> out_pc \<Rightarrow> SynchConsoleOutput \<Rightarrow> 'h \<Rightarrow> (out_pc \<times> SynchConsoleOutput \<times> 'h \<times> byte list) result option" where
  "put_step u t OOutside s h = None"
| "put_step u t (OAcquire ch) s h =
     (if out_lock s = 0 then None else Some (Inr (OAcquired ch, s\<lparr>out_lock := out_lock s - 1\<rparr>, h, [])))"
| "put_step u t (OAcquired ch) s h = Some (Inr (OPut ch, s\<lparr>out_holder := Some t\<rparr>, h, []))"
| "put_step u t (OPut ch) s h =
     Some (rbind (ConsoleOutput_PutChar u ch (consoleOutput s) h) (\<lambda>(co, h1). Inr (OWait, s\<lparr>consoleOutput := co\<rparr>, h1, [ch])))"
| "put_step u t OWait s h =
     (if out_waitFor s = 0 then None else Some (Inr (ORelease, s\<lparr>out_waitFor := out_waitFor s - 1\<rparr>, h, [])))"
| "put_step u t ORelease s h =
     Some (rbind (rassert (out_holder s = Some t)) (\<lambda>_. Inr (OReleased, s\<lparr>out_holder := None\<rparr>, h, [])))"
| "put_step u t OReleased s h = Some (Inr (OOutside, s\<lparr>out_lock := out_lock s + 1\<rparr>, h, []))"

definition write_interrupt :: "SynchConsoleOutput \<Rightarrow> SynchConsoleOutput" where
  "write_interrupt s = SynchConsoleOutput_CallBack (s\<lparr>consoleOutput :=
     ConsoleOutput_CallBack ((consoleOutput s)\<lparr>writeInts := writeInts (consoleOutput s) - 1\<rparr>)\<rparr>)"

inductive out_trace :: "'h unix \<Rightarrow> SynchConsoleOutput \<Rightarrow> 'h \<Rightarrow> byte list \<Rightarrow> SynchConsoleOutput \<Rightarrow> 'h \<Rightarrow> bool"
  for u :: "'h unix" and s0 :: SynchConsoleOutput and h0 :: 'h where
  out_start: "out_trace u s0 h0 [] s0 h0"
| out_call: "out_trace u s0 h0 cs s h \<Longrightarrow> t < length (writers s) \<Longrightarrow> writers s ! t = OOutside \<Longrightarrow>
    out_trace u s0 h0 cs (s\<lparr>writers := (writers s)[t := OAcquire ch]\<rparr>) h"
| out_step: "out_trace u s0 h0 cs s h \<Longrightarrow> t < length (writers s) \<Longrightarrow> put_step u t (writers s ! t) s h = Some (Inr (p, s', h', c)) \<Longrightarrow>
    out_trace u s0 h0 (cs @ c) (s'\<lparr>writers := (writers s')[t := p]\<rparr>) h'"
| out_int: "out_trace u s0 h0 cs s h \<Longrightarrow> writeInts (consoleOutput s) \<noteq> 0 \<Longrightarrow> out_trace u s0 h0 cs (write_interrupt s) h"

section \<open>Output\<close>

fun o_hold :: "out_pc \<Rightarrow> bool" where
  "o_hold (OPut ch) = True"
| "o_hold OWait = True"
| "o_hold ORelease = True"
| "o_hold _ = False"

fun o_tok :: "out_pc \<Rightarrow> bool" where
  "o_tok (OAcquired ch) = True"
| "o_tok OReleased = True"
| "o_tok p = o_hold p"

interpretation co: lock_protocol o_tok o_hold
  by unfold_locales (auto elim: o_hold.elims)

text \<open>The display: a write of one character appends it.\<close>

definition display_ok :: "'h unix \<Rightarrow> int \<Rightarrow> ('h \<Rightarrow> byte list) \<Rightarrow> bool" where
  "display_ok u fd shown \<longleftrightarrow> (\<forall>c h. \<exists>h'. u_write u fd [c] h = (1, h') \<and> shown h' = shown h @ [c])"

text \<open>The thread that waits has an interrupt scheduled or a signal waiting.\<close>

definition out_inv :: "SynchConsoleOutput \<Rightarrow> bool" where
  "out_inv s \<longleftrightarrow> lock_ok o_tok o_hold (writers s) (out_lock s) (out_holder s) \<and> 0 \<le> out_waitFor s \<and>
     putBusy (consoleOutput s) = (writeInts (consoleOutput s) \<noteq> 0) \<and>
     int (writeInts (consoleOutput s)) + out_waitFor s = tot (\<lambda>p. p = OWait) (writers s)"

lemma put_step_lock:
  assumes "put_step u t p s h = Some (Inr (p', s', h', c))"
  shows "writers s' = writers s \<and> lock_move o_tok o_hold t p (out_lock s) (out_holder s) p' (out_lock s') (out_holder s')"
  using assms by (cases p) (auto simp: lock_move_def rbind_eq_Inr split: if_splits)

lemma out_idle:
  assumes i: "out_inv s" and t: "t < length (writers s)" and p: "o_tok (writers s ! t)" "writers s ! t \<noteq> OWait"
  shows "writeInts (consoleOutput s) = 0" "out_waitFor s = 0" "\<not> putBusy (consoleOutput s)"
proof -
  have "writers s ! x \<noteq> OWait" if "x < length (writers s)" for x
    using co.unique [OF _ that t _ p(1)] i p(2) by (auto simp: out_inv_def)
  then have "tot (\<lambda>p. p = OWait) (writers s) = 0" by (intro tot_none) auto
  then show "writeInts (consoleOutput s) = 0" "out_waitFor s = 0" "\<not> putBusy (consoleOutput s)"
    using i by (auto simp: out_inv_def)
qed

lemma out_inv_step:
  assumes i: "out_inv s" and t: "t < length (writers s)" and e: "put_step u t (writers s ! t) s h = Some (Inr (p, s', h', c))"
  shows "out_inv (s'\<lparr>writers := (writers s')[t := p]\<rparr>)"
proof -
  have l: "lock_ok o_tok o_hold ((writers s)[t := p]) (out_lock s') (out_holder s')" "writers s' = writers s"
    using co.move [OF _ t, of "out_lock s" "out_holder s" p "out_lock s'" "out_holder s'"] put_step_lock [OF e] i
    by (auto simp: out_inv_def)
  show ?thesis
  proof (cases "writers s ! t")
    case (OPut ch)
    then show ?thesis using e l i t out_idle [OF i t]
      by (auto simp: out_inv_def tot_update ConsoleOutput_PutChar_def rbind_eq_Inr)
  qed (use e l i t in \<open>auto simp: out_inv_def tot_update rbind_eq_Inr split: if_splits\<close>)
qed

lemma out_inv_int:
  assumes i: "out_inv s" and w: "writeInts (consoleOutput s) \<noteq> 0"
  shows "out_inv (write_interrupt s)"
proof -
  have "tot (\<lambda>p. p = OWait) (writers s) \<le> tot o_tok (writers s)" by (rule tot_mono) auto
  then have "writeInts (consoleOutput s) = 1" using i w by (auto simp: out_inv_def lock_ok_def)
  then show ?thesis using i
    by (simp add: out_inv_def write_interrupt_def SynchConsoleOutput_CallBack_def ConsoleOutput_CallBack_def)
qed

lemma put_step_shown:
  assumes d: "display_ok u (writeFileNo (consoleOutput s)) shown" and e: "put_step u t p s h = Some (Inr (p', s', h', c))"
  shows "shown h' = shown h @ c \<and> writeFileNo (consoleOutput s') = writeFileNo (consoleOutput s)"
proof (cases p)
  case (OPut ch)
  obtain h1 where "u_write u (writeFileNo (consoleOutput s)) [ch] h = (1, h1)" "shown h1 = shown h @ [ch]"
    using d by (auto simp: display_ok_def)
  then show ?thesis using e OPut by (auto simp: ConsoleOutput_PutChar_def WriteFile_def rbind_eq_Inr)
qed (use e in \<open>auto simp: rbind_eq_Inr split: if_splits\<close>)

lemma out_trace_inv:
  assumes "out_trace u s0 h0 cs s h" and "out_inv s0" and "display_ok u (writeFileNo (consoleOutput s0)) shown"
  shows "out_inv s \<and> length (writers s) = length (writers s0) \<and> writeFileNo (consoleOutput s) = writeFileNo (consoleOutput s0) \<and>
    shown h = shown h0 @ cs"
  using assms(1)
proof induction
  case out_start
  then show ?case using assms(2) by simp
next
  case (out_call cs s h t ch)
  then show ?case using co.start [of "writers s" "out_lock s" "out_holder s" t "OAcquire ch"]
    by (simp add: out_inv_def tot_update)
next
  case (out_step cs s h t p s' h' c)
  then show ?case
    using out_inv_step [of s t u h p s' h' c] put_step_shown [of u s shown t "writers s ! t" h p s' h' c] put_step_lock [of u t _ s h p s' h' c]
      assms(3)
    by simp
next
  case (out_int cs s h)
  then show ?case using out_inv_int [of s]
    by (simp add: write_interrupt_def SynchConsoleOutput_CallBack_def ConsoleOutput_CallBack_def)
qed

lemma put_step_no_fault:
  assumes i: "out_inv s" and t: "t < length (writers s)" and d: "display_ok u (writeFileNo (consoleOutput s)) shown"
  shows "put_step u t (writers s ! t) s h \<noteq> Some (Inl e)"
proof (cases "writers s ! t")
  case (OPut ch)
  obtain h1 where "u_write u (writeFileNo (consoleOutput s)) [ch] h = (1, h1)" using d by (auto simp: display_ok_def)
  then show ?thesis using OPut out_idle [OF i t] by (simp add: ConsoleOutput_PutChar_def WriteFile_def)
next
  case ORelease
  then show ?thesis using co.holds [of "writers s" "out_lock s" "out_holder s" t] i t by (simp add: out_inv_def)
qed auto

lemma out_progress:
  assumes i: "out_inv s" and b: "\<And>t. t < length (writers s) \<Longrightarrow> writers s ! t \<noteq> OOutside \<Longrightarrow> put_step u t (writers s ! t) s h = None"
    and z: "writeInts (consoleOutput s) = 0" and t: "t < length (writers s)"
  shows "writers s ! t = OOutside"
proof -
  have w: "out_waitFor s = tot (\<lambda>p. p = OWait) (writers s)" using i z by (simp add: out_inv_def)
  have nt: "\<not> o_tok (writers s ! x)" if x: "x < length (writers s)" for x
  proof
    assume k: "o_tok (writers s ! x)"
    then have "put_step u x (writers s ! x) s h = None" using b [OF x] by (cases "writers s ! x") auto
    then have "writers s ! x = OWait" "out_waitFor s = 0" using k by (cases "writers s ! x"; simp split: if_splits)+
    then show False using w tot_pos [OF x, of "\<lambda>p. p = OWait"] by simp
  qed
  then have "tot o_tok (writers s) = 0" by (intro tot_none)
  then have l: "out_lock s = 1" using i by (simp add: out_inv_def lock_ok_def)
  show ?thesis using b [OF t] nt [OF t] l by (cases "writers s ! t") auto
qed

lemma new_SynchConsoleOutput_inv:
  "new_SynchConsoleOutput u outputFile n h = Inr (s0, h0) \<Longrightarrow> out_inv s0 \<and> length (writers s0) = n"
  by (auto simp: new_SynchConsoleOutput_def new_ConsoleOutput_def out_inv_def co.fresh rbind_eq_Inr)

text \<open>
  C40: Any number of threads write to the console: the display shows exactly the characters passed to \<^verbatim>\<open>PutChar\<close>, in the order in which
  the threads got the lock; no assertion fails, in particular the device is never busy when a character is written; and when no
  thread inside \<^verbatim>\<open>PutChar\<close> can go on and no interrupt is scheduled, no thread is inside, so every call returns.
\<close>

theorem console_output_in_order:
  assumes "new_SynchConsoleOutput u outputFile n h = Inr (s0, h0)" "display_ok u (writeFileNo (consoleOutput s0)) shown"
    and "out_trace u s0 h0 cs s h1"
  shows "shown h1 = shown h0 @ cs \<and>
    (\<forall>t<n. \<forall>e. put_step u t (writers s ! t) s h1 \<noteq> Some (Inl e)) \<and>
    ((\<forall>t<n. writers s ! t \<noteq> OOutside \<longrightarrow> put_step u t (writers s ! t) s h1 = None) \<and> writeInts (consoleOutput s) = 0 \<longrightarrow>
      (\<forall>t<n. writers s ! t = OOutside))"
proof -
  have I: "out_inv s" "length (writers s) = n" "writeFileNo (consoleOutput s) = writeFileNo (consoleOutput s0)" "shown h1 = shown h0 @ cs"
    using out_trace_inv [OF assms(3) _ assms(2)] new_SynchConsoleOutput_inv [OF assms(1)] by simp_all
  then show ?thesis
    using put_step_no_fault [OF I(1), of _ u shown h1] out_progress [OF I(1), of u h1] assms(2) by simp
qed

section \<open>Input\<close>

fun i_hold :: "in_pc \<Rightarrow> bool" where
  "i_hold IWait = True"
| "i_hold IGet = True"
| "i_hold IRelease = True"
| "i_hold _ = False"

fun i_tok :: "in_pc \<Rightarrow> bool" where
  "i_tok IAcquired = True"
| "i_tok IReleased = True"
| "i_tok p = i_hold p"

interpretation ci: lock_protocol i_tok i_hold
  by unfold_locales (auto elim: i_hold.elims)

text \<open>
  The keyboard: \<open>typed h\<close> are the characters to come. \<^verbatim>\<open>select\<close> answers at once and takes nothing; \<^verbatim>\<open>read\<close> takes one character, or returns 0 at the
  end.
\<close>

definition keyboard_ok :: "'h unix \<Rightarrow> (int \<Rightarrow> 'h \<Rightarrow> int \<times> 'h) \<Rightarrow> int \<Rightarrow> ('h \<Rightarrow> byte list) \<Rightarrow> bool" where
  "keyboard_ok u select fd typed \<longleftrightarrow>
     (\<forall>h. \<exists>r h'. select fd h = (r, h') \<and> (r = 0 \<or> r = 1) \<and> typed h' = typed h) \<and>
     (\<forall>h. \<exists>h'. u_read u fd 1 h = (case typed h of [] \<Rightarrow> (0, []) | c # cs \<Rightarrow> (1, [c]), h') \<and> typed h' = tl (typed h))"

text \<open>
  Either the device polls, or a character (or the end) has been announced and not yet taken, or the end of input has been
  returned.
\<close>

definition in_phase :: "byte list \<Rightarrow> byte list \<Rightarrow> SynchConsoleInput \<Rightarrow> byte list \<Rightarrow> bool" where
  "in_phase ks cs s rest \<longleftrightarrow>
     (let ci = consoleInput s; announced = in_waitFor s + tot (\<lambda>p. p = IGet) (readers s) in
      readInts ci = 1 \<and> announced = 0 \<and> incoming ci = EOF \<and> EOF \<notin> set cs \<and> ks = cs @ rest \<or>
      readInts ci = 0 \<and> announced = 1 \<and> EOF \<notin> set cs \<and>
        (ks = cs @ incoming ci # rest \<or> ks = cs \<and> incoming ci = EOF \<and> rest = []) \<or>
      readInts ci = 0 \<and> announced = 0 \<and> incoming ci = EOF \<and> EOF \<notin> set (butlast cs) \<and> cs \<noteq> [] \<and> last cs = EOF \<and>
        (ks = cs @ rest \<or> ks = butlast cs \<and> rest = []))"

definition in_inv :: "SynchConsoleInput \<Rightarrow> bool" where
  "in_inv s \<longleftrightarrow> lock_ok i_tok i_hold (readers s) (in_lock s) (in_holder s) \<and> 0 \<le> in_waitFor s"

lemma get_step_lock:
  assumes "get_step t p s = Some (Inr (p', s', c))"
  shows "readers s' = readers s \<and> lock_move i_tok i_hold t p (in_lock s) (in_holder s) p' (in_lock s') (in_holder s') \<and>
    (0 \<le> in_waitFor s \<longrightarrow> 0 \<le> in_waitFor s') \<and> readFileNo (consoleInput s') = readFileNo (consoleInput s)"
  using assms by (cases p) (auto simp: lock_move_def rbind_eq_Inr ConsoleInput_GetChar_def split: if_splits)

lemma in_inv_step:
  assumes i: "in_inv s" and t: "t < length (readers s)" and e: "get_step t (readers s ! t) s = Some (Inr (p, s', c))"
  shows "in_inv (s'\<lparr>readers := (readers s')[t := p]\<rparr>)"
  using ci.move [OF _ t, of "in_lock s" "in_holder s" p "in_lock s'" "in_holder s'"] get_step_lock [OF e] i
  by (auto simp: in_inv_def)

lemma get_quiet:
  assumes e: "get_step t (readers s ! t) s = Some (Inr (p, s', c))" and t: "t < length (readers s)" and n: "readers s ! t \<noteq> IGet"
  shows "in_phase ks (cs @ c) (s'\<lparr>readers := (readers s')[t := p]\<rparr>) rest = in_phase ks cs s rest"
proof -
  have "c = [] \<and> consoleInput s' = consoleInput s \<and> in_waitFor s' + of_bool (p = IGet) = in_waitFor s \<and> readers s' = readers s"
    using e n by (cases "readers s ! t") (auto simp: rbind_eq_Inr split: if_splits)
  then have "c = []" "consoleInput s' = consoleInput s" "readers s' = readers s"
    "in_waitFor s' + tot (\<lambda>p. p = IGet) ((readers s)[t := p]) = in_waitFor s + tot (\<lambda>p. p = IGet) (readers s)"
    using t n by (simp_all add: tot_update)
  then show ?thesis by (simp add: in_phase_def)
qed

lemma in_phase_step:
  assumes i: "in_inv s" and f: "in_phase ks cs s rest" and t: "t < length (readers s)"
    and e: "get_step t (readers s ! t) s = Some (Inr (p, s', c))"
  shows "in_phase ks (cs @ c) (s'\<lparr>readers := (readers s')[t := p]\<rparr>) rest"
proof (cases "readers s ! t")
  case IGet
  then have "1 \<le> tot (\<lambda>p. p = IGet) (readers s)" using tot_pos [OF t, of "\<lambda>p. p = IGet"] by simp
  then have k: "readInts (consoleInput s) = 0" "in_waitFor s + tot (\<lambda>p. p = IGet) (readers s) = 1" "EOF \<notin> set cs"
    "ks = cs @ incoming (consoleInput s) # rest \<or> ks = cs \<and> incoming (consoleInput s) = EOF \<and> rest = []"
    using f i by (auto simp: in_phase_def in_inv_def Let_def)
  have s': "s' = s\<lparr>consoleInput := snd (ConsoleInput_GetChar (consoleInput s))\<rparr>" "c = [incoming (consoleInput s)]" "p = IRelease"
    using e IGet by (auto simp: ConsoleInput_GetChar_def)
  show ?thesis
    using k s' IGet t
    by (cases "incoming (consoleInput s) = EOF") (auto simp: in_phase_def Let_def tot_update ConsoleInput_GetChar_def)
qed (use f get_quiet [OF e t] in simp_all)

lemma in_phase_int:
  assumes k: "keyboard_ok u select (readFileNo (consoleInput s)) typed" and f: "in_phase ks cs s (typed h)"
    and r: "readInts (consoleInput s) \<noteq> 0"
  shows "\<exists>s' h'. read_interrupt u select s h = Inr (s', h') \<and> in_phase ks cs s' (typed h') \<and>
    readers s' = readers s \<and> in_lock s' = in_lock s \<and> in_holder s' = in_holder s \<and>
    (0 \<le> in_waitFor s \<longrightarrow> 0 \<le> in_waitFor s') \<and> readFileNo (consoleInput s') = readFileNo (consoleInput s)"
proof -
  have F: "readInts (consoleInput s) = 1" "in_waitFor s + tot (\<lambda>p. p = IGet) (readers s) = 0" "incoming (consoleInput s) = EOF"
    "EOF \<notin> set cs" "ks = cs @ typed h"
    using f r by (auto simp: in_phase_def Let_def)
  obtain a h1 where a: "select (readFileNo (consoleInput s)) h = (a, h1)" "a = 0 \<or> a = 1" "typed h1 = typed h"
    using k by (meson keyboard_ok_def)
  obtain h2 where h2: "u_read u (readFileNo (consoleInput s)) 1 h1 = (case typed h of [] \<Rightarrow> (0, []) | c # cs \<Rightarrow> (1, [c]), h2)"
    "typed h2 = tl (typed h)"
    using k a(3) by (auto simp: keyboard_ok_def dest!: spec [of _ h1])
  show ?thesis
    using F a h2
    by (cases "a = 0"; cases "typed h")
      (auto simp: read_interrupt_def ConsoleInput_CallBack_def PollFile_def ReadPartial_def Let_def in_phase_def SynchConsoleInput_CallBack_def aread_def)
qed

lemma in_trace_inv:
  assumes "in_trace u select s0 h0 cs s h" and "in_inv s0" "in_phase (typed h0) [] s0 (typed h0)"
    and k: "keyboard_ok u select (readFileNo (consoleInput s0)) typed"
  shows "in_inv s \<and> length (readers s) = length (readers s0) \<and> readFileNo (consoleInput s) = readFileNo (consoleInput s0) \<and>
    in_phase (typed h0) cs s (typed h)"
  using assms(1)
proof induction
  case in_start
  then show ?case using assms(2,3) by simp
next
  case (in_call cs s h t)
  then show ?case using ci.start [of "readers s" "in_lock s" "in_holder s" t IAcquire]
    by (simp add: in_inv_def in_phase_def tot_update)
next
  case (in_step cs s h t p s' c)
  then show ?case
    using in_inv_step [of s t p s' c] in_phase_step [of s "typed h0" cs "typed h" t p s' c] get_step_lock [of t _ s p s' c] by simp
next
  case (in_int cs s h s' h')
  then show ?case using in_phase_int [of u select s typed "typed h0" cs h] k by (auto simp: in_inv_def)
qed

lemma get_step_no_fault:
  assumes "in_inv s" "t < length (readers s)"
  shows "get_step t (readers s ! t) s \<noteq> Some (Inl e)"
  using assms ci.holds [of "readers s" "in_lock s" "in_holder s" t]
  by (cases "readers s ! t") (auto simp: in_inv_def ConsoleInput_GetChar_def)

lemma in_phase_prefix: "in_phase ks cs s rest \<Longrightarrow> prefix cs (ks @ [EOF]) \<and> EOF \<notin> set (butlast cs)"
proof -
  assume f: "in_phase ks cs s rest"
  then consider "ks = cs @ rest" | "ks = cs @ incoming (consoleInput s) # rest" | "ks = cs" | "ks = butlast cs" "cs \<noteq> []" "last cs = EOF"
    by (auto simp: in_phase_def Let_def)
  then have "prefix cs (ks @ [EOF])"
  proof cases
    case 4
    then have "cs = ks @ [EOF]" using append_butlast_last_id [of cs] by simp
    then show ?thesis by simp
  qed (auto simp: prefix_def)
  moreover have "EOF \<notin> set (butlast cs)" using f by (auto simp: in_phase_def Let_def dest: in_set_butlastD)
  ultimately show ?thesis by blast
qed

lemma new_SynchConsoleInput_inv:
  "new_SynchConsoleInput u inputFile n h = Inr (s0, h0) \<Longrightarrow> in_inv s0 \<and> length (readers s0) = n \<and> in_phase ks [] s0 ks"
  by (auto simp: new_SynchConsoleInput_def new_ConsoleInput_def in_inv_def in_phase_def ci.fresh rbind_eq_Inr)

text \<open>
  C39: Any number of threads read from the console: the characters returned by \<^verbatim>\<open>GetChar\<close> are the characters typed, in order, none lost
  and none repeated, and at the end of the input one \<^verbatim>\<open>EOF\<close>. No assertion fails, neither in \<^verbatim>\<open>GetChar\<close> nor in the interrupt
  handler. After \<^verbatim>\<open>EOF\<close> nothing is ever returned; since the character 255 is \<^verbatim>\<open>EOF\<close>, it cuts the input off even when more
  characters follow.
\<close>

theorem console_input_in_order:
  assumes "new_SynchConsoleInput u inputFile n h = Inr (s0, h0)" "keyboard_ok u select (readFileNo (consoleInput s0)) typed"
    and "in_trace u select s0 h0 cs s h1"
  shows "prefix cs (typed h0 @ [EOF]) \<and> EOF \<notin> set (butlast cs) \<and>
    (\<forall>t<n. \<forall>e. get_step t (readers s ! t) s \<noteq> Some (Inl e)) \<and>
    (readInts (consoleInput s) \<noteq> 0 \<longrightarrow> (\<exists>s' h'. read_interrupt u select s h1 = Inr (s', h')))"
proof -
  have I: "in_inv s" "length (readers s) = n" "readFileNo (consoleInput s) = readFileNo (consoleInput s0)"
    "in_phase (typed h0) cs s (typed h1)"
    using in_trace_inv [OF assms(3) _ _ assms(2)] new_SynchConsoleInput_inv [OF assms(1)] by simp_all
  then show ?thesis
    using in_phase_prefix [OF I(4)] get_step_no_fault [OF I(1)] in_phase_int [of u select s typed "typed h0" cs h1] assms(2) by auto
qed

section \<open>A terminal\<close>

text \<open>The characters to be read and the characters shown; the first character typed is 255.\<close>

definition toy_term :: "(byte list \<times> byte list) unix" where
  "toy_term = \<lparr>u_open = (\<lambda>n f h. (-1, h)), u_close = (\<lambda>fd h. (0, h)),
     u_read = (\<lambda>fd n (k, d). (case k of [] \<Rightarrow> (0, []) | c # cs \<Rightarrow> (1, [c]), tl k, d)),
     u_write = (\<lambda>fd bs (k, d). (int (length bs), k, d @ bs)), u_lseek = (\<lambda>fd n w h. (-1, h)), u_unlink = (\<lambda>n h. (-1, h)),
     u_socket = (\<lambda>h. (-1, h)), u_pton = (\<lambda>s. 0), u_connect = (\<lambda>fd s n h. (-1, h)), u_send = (\<lambda>fd bs h. (-1, h)),
     u_recv = (\<lambda>fd n h. ((-1, []), h)), u_getchar = (\<lambda>h. (0, h)), u_putchar = (\<lambda>c h. h)\<rparr>"

definition toy_select :: "int \<Rightarrow> byte list \<times> byte list \<Rightarrow> int \<times> byte list \<times> byte list" where
  "toy_select fd h = (1, h)"

definition reader0 :: SynchConsoleInput where
  "reader0 = \<lparr>consoleInput = \<lparr>readFileNo = 0, incoming = EOF, readInts = 1, numConsoleCharsRead = 0\<rparr>, in_lock = 1, in_holder = None,
     in_waitFor = 0, readers = [IOutside]\<rparr>"

definition reader1 :: SynchConsoleInput where
  "reader1 = \<lparr>consoleInput = \<lparr>readFileNo = 0, incoming = EOF, readInts = 0, numConsoleCharsRead = 1\<rparr>, in_lock = 0, in_holder = Some 0,
     in_waitFor = 0, readers = [IRelease]\<rparr>"

lemma toy_keyboard: "keyboard_ok toy_term toy_select fd fst"
  unfolding keyboard_ok_def toy_term_def toy_select_def by auto

lemma toy_display: "display_ok toy_term fd snd"
  by (auto simp: display_ok_def toy_term_def)

lemma reader0_new: "new_SynchConsoleInput toy_term None 1 h = Inr (reader0, h)"
  by (simp add: new_SynchConsoleInput_def new_ConsoleInput_def reader0_def)

text \<open>One \<^verbatim>\<open>GetChar\<close> on the input 255, 65: it returns 255 and the device stops polling.\<close>

lemma reader_stops:
  "in_trace toy_term toy_select reader0 ([255, 65], []) [255] reader1 ([65], [])"
proof -
  let ?s = "\<lambda>c r l o' w p. \<lparr>consoleInput = \<lparr>readFileNo = 0, incoming = c, readInts = r, numConsoleCharsRead = int (1 - r)\<rparr>, in_lock = l,
    in_holder = o', in_waitFor = w, readers = [p]\<rparr>"
  let ?t = "in_trace toy_term toy_select reader0 ([255, 65], [])"
  have "?t [] (?s EOF 1 1 None 0 IOutside) ([255, 65], [])" using in_start [of toy_term toy_select reader0 "([255, 65], [])"] by (simp add: reader0_def)
  from in_call [OF this, of 0] have "?t [] (?s EOF 1 1 None 0 IAcquire) ([255, 65], [])" by simp
  from in_step [OF this, of 0] have "?t [] (?s EOF 1 0 None 0 IAcquired) ([255, 65], [])" by simp
  from in_step [OF this, of 0] have "?t [] (?s EOF 1 0 (Some 0) 0 IWait) ([255, 65], [])" by simp
  from in_int [OF this] have "?t [] (?s 255 0 0 (Some 0) 1 IWait) ([65], [])"
    by (simp add: read_interrupt_def ConsoleInput_CallBack_def PollFile_def ReadPartial_def toy_select_def toy_term_def SynchConsoleInput_CallBack_def)
  from in_step [OF this, of 0] have "?t [] (?s 255 0 0 (Some 0) 0 IGet) ([65], [])" by simp
  from in_step [OF this, of 0] show ?thesis by (simp add: ConsoleInput_GetChar_def EOF_def reader1_def)
qed

lemma console_input_in_order_witness:
  "in_trace toy_term toy_select reader0 ([255, 65], []) [255] reader1 ([65], []) \<and>
   prefix [255] ([255, 65] @ [EOF]) \<and> get_step 0 (readers reader1 ! 0) reader1 \<noteq> Some (Inl AssertFailed)"
  using reader_stops console_input_in_order [OF reader0_new toy_keyboard reader_stops] by simp

definition writer0 :: "out_pc \<Rightarrow> SynchConsoleOutput" where
  "writer0 p = \<lparr>consoleOutput = \<lparr>writeFileNo = 1, putBusy = False, writeInts = 0, numConsoleCharsWritten = 0\<rparr>, out_lock = 1,
     out_holder = None, out_waitFor = 0, writers = [p]\<rparr>"

definition writer1 :: SynchConsoleOutput where
  "writer1 = \<lparr>consoleOutput = \<lparr>writeFileNo = 1, putBusy = True, writeInts = 1, numConsoleCharsWritten = 0\<rparr>, out_lock = 0,
     out_holder = Some 0, out_waitFor = 0, writers = [OWait]\<rparr>"

lemma writer0_new: "new_SynchConsoleOutput toy_term None 1 h = Inr (writer0 OOutside, h)"
  by (simp add: new_SynchConsoleOutput_def new_ConsoleOutput_def writer0_def)

lemma writer_writes:
  "out_trace toy_term (writer0 OOutside) ([], [66]) [65] writer1 ([], [66, 65])"
proof -
  let ?t = "out_trace toy_term (writer0 OOutside) ([], [66])"
  have "?t [] (writer0 OOutside) ([], [66])" by (rule out_start)
  from out_call [OF this, of 0 65] have "?t [] (writer0 (OAcquire 65)) ([], [66])" by (simp add: writer0_def)
  from out_step [OF this, of 0] have "?t [] ((writer0 (OAcquired 65))\<lparr>out_lock := 0\<rparr>) ([], [66])" by (simp add: writer0_def)
  from out_step [OF this, of 0] have "?t [] ((writer0 (OPut 65))\<lparr>out_lock := 0, out_holder := Some 0\<rparr>) ([], [66])"
    by (simp add: writer0_def)
  from out_step [OF this, of 0] show ?thesis
    by (simp add: writer0_def writer1_def ConsoleOutput_PutChar_def WriteFile_def toy_term_def)
qed

lemma console_output_in_order_witness:
  "out_trace toy_term (writer0 OOutside) ([], [66]) [65] writer1 ([], [66, 65]) \<and>
   snd ([], [66, 65]) = snd ([], [66]) @ ([65] :: byte list) \<and>
   put_step toy_term 0 (writers writer1 ! 0) writer1 ([], [66, 65]) \<noteq> Some (Inl AssertFailed)"
  using writer_writes console_output_in_order [OF writer0_new toy_display writer_writes] by simp

end
