(* ===== verification/Spec2Isabelle.thy ===== *)
theory Spec2Isabelle
  imports Lib_Selftest Mips Kernel_Sync Isolation Processes System_Calls Disk_File_System Post_Office Console
begin

text \<open>
  Verification of Nachos, an instructional operating system that runs as one UNIX process: a simulated
  MIPS workstation with its devices (\<^verbatim>\<open>machine/\<close>), and on top of it a kernel with threads and
  synchronization (\<^verbatim>\<open>threads/\<close>), file systems (\<^verbatim>\<open>filesys/\<close>), user programs and system calls (\<^verbatim>\<open>userprog/\<close>), a
  network service (\<^verbatim>\<open>network/\<close>) and a library of containers (\<^verbatim>\<open>lib/\<close>). All paths are below \<^verbatim>\<open>src/code/\<close>.

  \<^bold>\<open>How the program works.\<close> \<^verbatim>\<open>Machine::Run\<close> executes MIPS instructions of the current user program,
  translating every address through its page table. A trap enters \<^verbatim>\<open>ExceptionHandler\<close>, which carries out a system call
  or ends the process. After every instruction, and whenever interrupts are enabled again, simulated time advances and the
  interrupts that are due call their devices; the timer may ask for a context switch. A thread that waits on a semaphore
  sleeps; when no thread is ready the kernel idles until the next interrupt. A user program is a process with an
  entry in the process table, a table of open files and an address space whose page frames come from a global bitmap.

  \<^bold>\<open>Conventions.\<close> A routine that can fail returns \<open>'a result\<close>: \<open>Inl\<close> with the fault (a failed \<^verbatim>\<open>ASSERT\<close>, an access
  out of bounds, a null or dangling pointer, a division trap, a loop that does not return) or \<open>Inr\<close> with value and new
  state; \<open>rbind\<close> sequences results. Machine words are \<open>32 word\<close> and bytes \<open>8 word\<close>; C's \<open>int\<close> is \<open>int\<close> with the wrap-around
  written out where values come from a program, and its division and remainder truncate (\<open>sdiv\<close>, \<open>smod\<close>). Arrays are lists with
  checked access (\<open>aread\<close>, \<open>awrite\<close> of \<open>Nachos_Prelude\<close>). The UNIX calls are a parameter, the record \<open>unix\<close> over a host state \<open>'h\<close>; the
  theorems that need them assume their documented behaviour, collected in \<open>unix_ok\<close> and the like, and their witnesses use concrete
  instances. The code is read in the configuration of its build files: \<^verbatim>\<open>FILESYS_STUB\<close> for the running kernel
  (both file systems are modelled), \<^verbatim>\<open>RDATA\<close>, \<^verbatim>\<open>SIM_FIX\<close>, Linux on a little-endian host, page tables (the TLB variant of
  the translation is modelled as well). Debug output is left out everywhere.

  \<^bold>\<open>Library.\<close> \<open>Bitmap\<close> models \<^verbatim>\<open>lib/bitmap.cc\<close> bit by bit over words. The locale \<open>slot_allocator\<close> (theory \<open>Slot_Allocator\<close>)
  states what the clients of a bitmap rely on, interpreted as \<open>bm\<close> and used for page frames, process and semaphore
  slots and disk sectors. \<open>Linked_List\<close> models the pointer lists of \<^verbatim>\<open>lib/list.cc\<close> over an explicit store of elements;
  \<open>Sequence_Spec\<close> states the operations on HOL lists with the locales \<open>item_list\<close> and \<open>sorted_item_list\<close>, and
  the interpretation \<open>ll\<close> shows that the pointer lists implement them, so the other theories use the sequence operations.
  \<open>Hash_Table\<close> models \<^verbatim>\<open>lib/hash.cc\<close> (locale \<open>keyed_table\<close>, interpretation \<open>ht\<close>), \<open>Lib_Selftest\<close> runs \<^verbatim>\<open>lib/libtest.cc\<close>. The loops
  along list elements have the fuel \<open>Suc (l_fresh l)\<close>, one more than the elements ever allocated, which a well-formed list never uses up.

  \<^bold>\<open>Machine.\<close> \<open>Machine_Memory\<close> models registers, exceptions, address translation and memory access (\<^verbatim>\<open>machine.cc\<close>, \<^verbatim>\<open>translate.cc\<close>);
  \<open>Mips\<close> and \<open>Mips_Mult\<close> every instruction of \<^verbatim>\<open>mipssim.cc\<close>; \<open>Interrupts\<close> simulated time, the pending interrupts, the timer
  and the alarm (\<^verbatim>\<open>interrupt.cc\<close>, \<^verbatim>\<open>timer.cc\<close>, \<^verbatim>\<open>alarm.cc\<close>), with the contract of device handlers as locale \<open>interrupt_handlers\<close> (interpretations
  \<open>tm\<close> for the timer, \<open>dk\<close> for the disk). Shown: translation and instructions are safe for every program and keep the
  machine well-formed, writes are read back, unaligned accesses and multiplication are exact, overflow is detected exactly, due
  interrupts are all handled. The loop of \<^verbatim>\<open>CheckIfDue\<close> is a partial function, and its return is part of the theorem.

  \<^bold>\<open>Threads and synchronization.\<close> \<open>Kernel_Threads\<close> models \<^verbatim>\<open>thread.cc\<close>, \<^verbatim>\<open>scheduler.cc\<close> and \<^verbatim>\<open>synch.cc\<close>: each thread has the list of
  operations it will perform, \<open>kstep\<close> interleaves the operations with time slices and interrupts. \<open>Kernel_Sync\<close> proves,
  for all interleavings: every thread is in exactly one place, locks exclude, semaphores and conditions lose no
  wake-up, the kernel fails only on misuse, user registers survive context switches.

  \<^bold>\<open>Processes and user programs.\<close> \<open>Processes\<close> models \<^verbatim>\<open>pcb.cc\<close> and \<^verbatim>\<open>ptable.cc\<close> as the step relation \<open>pstep\<close> between the
  semaphore operations of \<^verbatim>\<open>ExecV\<close>, \<^verbatim>\<open>Join\<close> and \<^verbatim>\<open>Exit\<close>. \<open>Host_Files\<close> and \<open>Stub_Files\<close> model the wrappers of \<^verbatim>\<open>sysdep.cc\<close>, the
  stub \<^verbatim>\<open>OpenFile\<close> and \<^verbatim>\<open>FileSystem\<close> and the per-process \<^verbatim>\<open>FileTable\<close>. \<open>Semaphore_Table\<close> models \<^verbatim>\<open>stable.cc\<close>. \<open>Address_Space\<close>
  models \<^verbatim>\<open>addrspace.cc\<close> and the loading of NOFF files; \<open>Isolation\<close> interleaves several loaded programs in one memory;
  \<open>User_Memory\<close> models \<^verbatim>\<open>utils.cc\<close>, \<open>System_Calls\<close> every handler of \<^verbatim>\<open>exception.cc\<close>. Shown: the process table stays
  consistent and \<^verbatim>\<open>Join\<close> returns the exit code; loading builds the image; programs are isolated in memory and in their
  files; copying through the page table is exact; the calling convention; what a malformed call does. The string copy without
  a bound has the fuel 16385, the number of bytes of memory plus one, so a copy that finds no terminator leaves the
  address space first.

  \<^bold>\<open>File system on the simulated disk.\<close> \<open>Disk\<close> models \<^verbatim>\<open>machine/disk.cc\<close> and \<^verbatim>\<open>filesys/synchdisk.cc\<close> for a thread in a
  kernel whose only device is the disk; waiting is a partial function, and its return is proved. The locale \<open>sector_disk\<close> (theory \<open>Sector_Store\<close>) is what
  the file system relies on, interpreted as \<open>sd\<close> on the synchronous disk. \<open>Disk_Files\<close> models \<^verbatim>\<open>filehdr.cc\<close> and the
  disk version of \<^verbatim>\<open>openfile.cc\<close>, \<open>Disk_Directory\<close> \<^verbatim>\<open>directory.cc\<close> (locale \<open>name_table\<close>, interpretation \<open>nt\<close>) and \<^verbatim>\<open>pbitmap.cc\<close>, \<open>Disk_File_System\<close> the disk
  version of \<^verbatim>\<open>filesys.cc\<close>. A disk is abstracted to a finite map from names to byte arrays; formatting, creating, opening, removing, reading and
  writing refine the operations on it, and what is written is read after mounting again. \<open>Paged_View\<close> holds the
  lemmas on data seen through a list of blocks, shared by address spaces and files.

  \<^bold>\<open>Network.\<close> \<open>Synch_List\<close> models \<^verbatim>\<open>threads/synchlist.cc\<close> for any number of threads, step by step through lock and condition;
  it is a queue and leaves no item behind. \<open>Network\<close> models the devices of \<^verbatim>\<open>machine/network.cc\<close> over the datagram sockets of
  \<^verbatim>\<open>sysdep.cc\<close>, which are the parameter \<open>datagrams\<close> with the hypothesis \<open>datagrams_ok\<close>; \<open>Post_Office\<close> models \<^verbatim>\<open>network/post.cc\<close> on any
  number of machines, whose actions interleave in \<open>net_trace\<close>. Shown: mail arrives unchanged and in order, and no
  assertion fails as long as mail is sent to existing mailboxes. When an interrupt occurs is left open, so simulated
  time plays no role. The locale \<open>lock_protocol\<close> (theory \<open>Lock_Protocol\<close>) gives mutual exclusion to the clients of a lock from the way their
  control points move; interpretations \<open>sl\<close> and \<open>po\<close>. \<^verbatim>\<open>SendToSocket\<close> tries ten times, as in the code.

  \<^bold>\<open>Console.\<close> \<open>Console\<close> models \<^verbatim>\<open>machine/console.cc\<close> and \<^verbatim>\<open>userprog/synchconsole.cc\<close> for any number of reading and writing threads
  (interpretations \<open>ci\<close> and \<open>co\<close> of \<open>lock_protocol\<close>): input and output keep the order, no assertion fails, and every \<^verbatim>\<open>PutChar\<close> can
  return; it also shows that the character 255 ends the input.

  \<^bold>\<open>Not modelled.\<close> The assembly of \<^verbatim>\<open>switch.S\<close>: a context switch is the change of the current thread, and the layout of
  thread stacks with the fencepost of \<^verbatim>\<open>CheckOverflow\<close> is left out. Terminal output and debugging (\<^verbatim>\<open>debug.cc\<close>, the \<^verbatim>\<open>Print\<close> and
  \<^verbatim>\<open>DumpState\<close> routines, the single-step debugger). \<^verbatim>\<open>main.cc\<close> and \<^verbatim>\<open>kernel.cc\<close>, which parse the command line and
  create the components. The rest of \<^verbatim>\<open>sysdep.cc\<close>: signals, memory protection, delays and random numbers only
  call the host. The self tests of threads, which print. \<^verbatim>\<open>coff2noff\<close> and the user programs under \<^verbatim>\<open>test/\<close> are separate programs.
\<close>

end
